(* ===== verification/Js_Prelude.thy ===== *)
theory Js_Prelude
  imports Complex_Main "HOL-Library.AList"
begin

text \<open>
  The shared part of the development: what every component of the hub uses of JavaScript.
  \<^item> \<open>jnum\<close> and \<open>jsval\<close> are JavaScript numbers and the values \<^verbatim>\<open>JSON.parse\<close> gives (with
    \<open>JUndef\<close> for a member that is not there). A finite number is its exact rational value;
    the rounding of IEEE double arithmetic is not modelled.
  \<^item> Strings are \<open>string\<close>: one \<open>char\<close> is one UTF-16 code unit below 256.
  \<^item> A plain object or a \<^verbatim>\<open>Map\<close> whose iteration order matters is an association list in
    insertion order: \<open>AList.update\<close> keeps the place of a key it overwrites and appends a new
    one, \<open>AList.delete\<close> removes it, as \<^verbatim>\<open>o[k] = v\<close> and \<^verbatim>\<open>delete o[k]\<close> do.
  \<^item> The locale \<open>machine\<close> is the contract of every stateful component: one step function on
    its operations and an invariant each operation keeps; runs are folds of it.
\<close>

named_theorems js_simps \<open>unfolding rules for the JavaScript primitives\<close>
named_theorems js_objs \<open>laws of ordered objects\<close>

section \<open>Numbers and values\<close>

type_synonym ms = int

datatype jnum = Fin rat | PosInf | NegInf | NaN

datatype jsval =
    JUndef
  | JNull
  | JBool bool
  | JNum jnum
  | JStr string
  | JArr "jsval list"
  | JObj "(string \<times> jsval) list"

text \<open>\<^verbatim>\<open>Math.round\<close>: the nearest integer, ties upwards.\<close>

definition js_round :: "rat \<Rightarrow> int" where
  "js_round x = \<lfloor>x + 1 / 2\<rfloor>"

text \<open>\<^verbatim>\<open>typeof v === "number" && Number.isFinite(v)\<close>, with the number.\<close>

fun finite_num :: "jsval \<Rightarrow> rat option" where
  "finite_num (JNum (Fin q)) = Some q"
| "finite_num _ = None"

text \<open>
  Member access: a member that is not there is \<^verbatim>\<open>undefined\<close>. Access through
  \<^verbatim>\<open>null\<close> or \<^verbatim>\<open>undefined\<close> throws in JavaScript; every use below is guarded, as the
  code guards it (\<^verbatim>\<open>v.mem && v.mem.total\<close>).
\<close>

fun fld :: "string \<Rightarrow> jsval \<Rightarrow> jsval" where
  "fld k (JObj kvs) = (case map_of kvs k of None \<Rightarrow> JUndef | Some v \<Rightarrow> v)"
| "fld k _ = JUndef"

fun truthy :: "jsval \<Rightarrow> bool" where
  "truthy JUndef = False"
| "truthy JNull = False"
| "truthy (JBool b) = b"
| "truthy (JNum (Fin q)) = (q \<noteq> 0)"
| "truthy (JNum NaN) = False"
| "truthy (JNum _) = True"
| "truthy (JStr s) = (s \<noteq> [])"
| "truthy (JArr _) = True"
| "truthy (JObj _) = True"

fun arr_of :: "jsval \<Rightarrow> jsval list option" where
  "arr_of (JArr xs) = Some xs"
| "arr_of _ = None"

fun str_of :: "jsval \<Rightarrow> string" where
  "str_of (JStr s) = s"
| "str_of _ = []"

definition is_obj :: "jsval \<Rightarrow> bool" where
  "is_obj v = (case v of JObj _ \<Rightarrow> True | _ \<Rightarrow> False)"

lemma is_obj_simps [simp]:
  "is_obj (JObj kvs)" "\<not> is_obj JUndef" "\<not> is_obj JNull" "\<not> is_obj (JBool b)"
  "\<not> is_obj (JNum n)" "\<not> is_obj (JStr s)" "\<not> is_obj (JArr xs)"
  by (simp_all add: is_obj_def)

section \<open>Strings\<close>

definition is_digit :: "char \<Rightarrow> bool" where
  "is_digit c = (48 \<le> (of_char c :: nat) \<and> (of_char c :: nat) \<le> 57)"

definition is_lower :: "char \<Rightarrow> bool" where
  "is_lower c = (97 \<le> (of_char c :: nat) \<and> (of_char c :: nat) \<le> 122)"

definition is_upper :: "char \<Rightarrow> bool" where
  "is_upper c = (65 \<le> (of_char c :: nat) \<and> (of_char c :: nat) \<le> 90)"

text \<open>The class \<^verbatim>\<open>[\u0000-\u001f\u007f]\<close>.\<close>

definition is_control :: "char \<Rightarrow> bool" where
  "is_control c = ((of_char c :: nat) < 32 \<or> (of_char c :: nat) = 127)"

text \<open>White space as \<^verbatim>\<open>trim\<close> and \<^verbatim>\<open>\s\<close> see it, below 256.\<close>

definition is_space :: "char \<Rightarrow> bool" where
  "is_space c = ((9 \<le> (of_char c :: nat) \<and> (of_char c :: nat) \<le> 13) \<or> (of_char c :: nat) = 32 \<or> (of_char c :: nat) = 160)"

definition js_trim :: "string \<Rightarrow> string" where
  "js_trim s = rev (dropWhile is_space (rev (dropWhile is_space s)))"

text \<open>\<^verbatim>\<open>s.split(c)\<close> for a one-character separator: never empty.\<close>

fun split_on :: "char \<Rightarrow> string \<Rightarrow> string list" where
  "split_on c [] = [[]]"
| "split_on c (x # xs) =
     (if x = c then [] # split_on c xs
      else case split_on c xs of [] \<Rightarrow> [[x]] | p # ps \<Rightarrow> (x # p) # ps)"

lemma split_on_nonempty [simp]: "split_on c s \<noteq> []"
  by (induction s) (auto split: list.splits)

lemma split_on_no_sep: "c \<notin> set s \<Longrightarrow> split_on c s = [s]"
  by (induction s) (auto split: list.splits)

lemma split_on_append: "split_on c (a @ c # b) = split_on c a @ split_on c b"
  by (induction a) (auto split: list.splits)

lemma last_split_on: "c \<notin> set b \<Longrightarrow> last (split_on c (a @ c # b)) = b"
  by (simp add: split_on_append split_on_no_sep)

definition starts_with :: "string \<Rightarrow> string \<Rightarrow> bool" where
  "starts_with p s = (take (length p) s = p)"

text \<open>A natural number in a template string.\<close>

fun show_nat :: "nat \<Rightarrow> string" where
  "show_nat n = (if n < 10 then [char_of (48 + n)] else show_nat (n div 10) @ [char_of (48 + n mod 10)])"

declare show_nat.simps [simp del]

text \<open>An integer in a template string.\<close>

definition show_int :: "int \<Rightarrow> string" where
  "show_int i = (if i < 0 then CHR ''-'' # show_nat (nat (- i)) else show_nat (nat i))"

definition slice_last :: "nat \<Rightarrow> 'a list \<Rightarrow> 'a list" where
  "slice_last n xs = drop (length xs - n) xs"

lemma length_slice_last [simp]: "length (slice_last n xs) = min n (length xs)"
  by (simp add: slice_last_def)

lemma set_slice_last: "set (slice_last n xs) \<subseteq> set xs"
  by (simp add: slice_last_def set_drop_subset)

lemma slice_last_id [simp]: "length xs \<le> n \<Longrightarrow> slice_last n xs = xs"
  by (simp add: slice_last_def)

lemma list_allD: "list_all P xs \<Longrightarrow> x \<in> set xs \<Longrightarrow> P x"
  by (simp add: list_all_iff)

lemma find_SomeD: "find p xs = Some x \<Longrightarrow> x \<in> set xs \<and> p x"
  by (auto simp: find_Some_iff)

text \<open>Regular expressions of one character class and a length: \<^verbatim>\<open>^[..]{lo,hi}$\<close>.\<close>

definition in_class :: "(char \<Rightarrow> bool) \<Rightarrow> nat \<Rightarrow> nat \<Rightarrow> string \<Rightarrow> bool" where
  "in_class p lo hi s \<longleftrightarrow> lo \<le> length s \<and> length s \<le> hi \<and> list_all p s"

text \<open>\<^verbatim>\<open>/^[a-z2-7]{12}$/\<close>, the node ids.\<close>

definition is_node_id :: "string \<Rightarrow> bool" where
  "is_node_id = in_class (\<lambda>c. is_lower c \<or> (50 \<le> (of_char c :: nat) \<and> (of_char c :: nat) \<le> 55)) 12 12"

text \<open>\<^verbatim>\<open>/^[a-z0-9][a-z0-9._-]{0,31}$/\<close>, the tags.\<close>

definition is_tag :: "string \<Rightarrow> bool" where
  "is_tag s = (case s of [] \<Rightarrow> False
     | c # cs \<Rightarrow> (is_lower c \<or> is_digit c) \<and>
         in_class (\<lambda>c. is_lower c \<or> is_digit c \<or> c \<in> {CHR ''.'', CHR ''_'', CHR ''-''}) 0 31 cs)"

text \<open>\<^verbatim>\<open>/^[^\u0000-\u001f\u007f]{1,64}$/\<close>, printable names.\<close>

definition is_name64 :: "string \<Rightarrow> bool" where
  "is_name64 = in_class (\<lambda>c. \<not> is_control c) 1 64"

text \<open>\<^verbatim>\<open>/^[0-9a-f]{64}$/\<close>, the node secrets and signatures.\<close>

definition is_hex64 :: "string \<Rightarrow> bool" where
  "is_hex64 = in_class (\<lambda>c. is_digit c \<or> (97 \<le> (of_char c :: nat) \<and> (of_char c :: nat) \<le> 102)) 64 64"

section \<open>Code that throws\<close>

text \<open>
  A function that throws returns the message (\<open>Inl\<close>) or its value (\<open>Inr\<close>). \<open>bindE m f\<close> goes on with
  \<open>f\<close> unless \<open>m\<close> threw; \<open>ok_or msg x\<close> throws \<open>msg\<close> when \<open>x\<close> has no value.
\<close>

definition bindE :: "'e + 'a \<Rightarrow> ('a \<Rightarrow> 'e + 'b) \<Rightarrow> 'e + 'b" where
  "bindE m f = (case m of Inl e \<Rightarrow> Inl e | Inr x \<Rightarrow> f x)"

definition ok_or :: "'e \<Rightarrow> 'a option \<Rightarrow> 'e + 'a" where
  "ok_or e x = (case x of None \<Rightarrow> Inl e | Some v \<Rightarrow> Inr v)"

lemma bindE_simps [simp]: "bindE (Inl e) f = Inl e" "bindE (Inr x) f = f x"
  by (simp_all add: bindE_def)

lemma bindE_eq_Inr [simp]: "bindE m f = Inr y \<longleftrightarrow> (\<exists>x. m = Inr x \<and> f x = Inr y)"
  by (cases m) simp_all

lemma ok_or_simps [simp]: "ok_or e None = Inl e" "ok_or e (Some x) = Inr x"
  by (simp_all add: ok_or_def)

lemma ok_or_eq_Inr [simp]: "ok_or e x = Inr y \<longleftrightarrow> x = Some y"
  by (cases x) simp_all

lemma bindE_cong [fundef_cong]:
  "m = m' \<Longrightarrow> (\<And>x. m' = Inr x \<Longrightarrow> f x = g x) \<Longrightarrow> bindE m f = bindE m' g"
  by (cases m') simp_all

section \<open>Ordered objects\<close>

lemma map_of_update [js_objs, simp]:
  "map_of (AList.update k v m) k' = (if k' = k then Some v else map_of m k')"
  by (simp add: AList.update_conv')

lemma map_of_delete [js_objs, simp]:
  "map_of (AList.delete k m) k' = (if k' = k then None else map_of m k')"
  by (simp add: AList.delete_conv')

lemma distinct_keys_update [js_objs, simp]:
  "distinct (map fst m) \<Longrightarrow> distinct (map fst (AList.update k v m))"
  by (rule AList.distinct_update)

lemma distinct_keys_delete [js_objs, simp]:
  "distinct (map fst m) \<Longrightarrow> distinct (map fst (AList.delete k m))"
  by (rule AList.distinct_delete)

lemma set_delete_subset: "set (AList.delete k m) \<subseteq> set m"
  by (auto simp: AList.delete_eq)

lemma set_delete: "set (AList.delete k m) = {p \<in> set m. fst p \<noteq> k}"
  by (auto simp: AList.delete_eq)

lemma map_of_iff_mem: "distinct (map fst m) \<Longrightarrow> (k, v) \<in> set m \<longleftrightarrow> map_of m k = Some v"
  by (auto simp: map_of_eq_Some_iff)

section \<open>Stateful components\<close>

text \<open>
  A component is a step function on its operations; a run is a sequence of operations from a
  state. What each operation keeps, every run keeps.
\<close>

locale machine =
  fixes step :: "'s \<Rightarrow> 'a \<Rightarrow> 's"
    and inv :: "'s \<Rightarrow> bool"
  assumes inv_step: "inv s \<Longrightarrow> inv (step s a)"
begin

lemma inv_run: "inv s \<Longrightarrow> inv (foldl step s as)"
  by (induction as arbitrary: s) (auto intro: inv_step)

lemma run_append: "foldl step s (as @ bs) = foldl step (foldl step s as) bs"
  by simp

end

end
