(* ===== verification/Alerts.thy ===== *)
theory Alerts
  imports Js_Prelude
begin

text \<open>
  The alert engine, \<^verbatim>\<open>src/hub/lib/alerts.js\<close>: rules judged per node and per disk or container,
  the state machine ok, pending, firing, resolved of each instance, mutes, inhibition by an
  offline node, the event log and what is passed on to the channels. The engine's state is the
  record \<open>engine\<close>; each operation of the object \<^verbatim>\<open>createAlerts\<close> returns is a function on it.
  Besides the variables of the code the record has the two files as the engine last wrote them
  (\<open>disk\<close>, \<open>logfile\<close>) and \<open>outbox\<close>, every event given to \<^verbatim>\<open>onEvent\<close> in order. File writes
  that fail are not modelled.
\<close>

section \<open>Data\<close>

datatype severity = Critical | Warning | Info

datatype rel = Ge | Le | Eq

datatype istate = Okay | Pending | Firing

datatype ekind = EFiring | ERepeat | EResolved

datatype who = ForNode string | ForTag string

datatype scope = AllNodes | OnNode string | OnTag string

text \<open>An override is for a server or a tag: another threshold, or (\<open>None\<close>) off.\<close>

record override =
  ov_who :: who
  ov_threshold :: "rat option"

record rule =
  r_id :: string
  r_name :: string
  r_metric :: string
  r_op :: rel
  r_threshold :: rat
  r_for :: ms
  r_clear :: "rat option"
  r_severity :: severity
  r_repeat :: ms
  r_off :: bool
  r_scope :: scope
  r_sub :: string
  r_overrides :: "override list"

record inst =
  i_rule :: string
  i_node :: string
  i_nodeName :: string
  i_sub :: string
  i_state :: istate
  i_since :: ms
  i_value :: "rat option"
  i_firedAt :: "ms option"
  i_severity :: "severity option"
  i_notified :: bool
  i_lastNotified :: "ms option"

record event =
  e_kind :: ekind
  e_rule :: string
  e_name :: string
  e_metric :: string
  e_severity :: severity
  e_node :: string
  e_nodeName :: string
  e_sub :: string
  e_value :: "rat option"
  e_at :: ms
  e_since :: ms
  e_ended :: bool
  e_quiet :: string

text \<open>A node as the engine's callers name it; \<open>n_lastPush = 0\<close> and \<open>n_interval = None\<close> stand for
  \<^verbatim>\<open>null\<close>. Only \<^verbatim>\<open>check\<close> reads these two.\<close>

record node =
  n_id :: string
  n_name :: string
  n_tags :: "string list"
  n_lastPush :: ms
  n_interval :: "int option"

text \<open>The persistent state \<^verbatim>\<open>st\<close>.\<close>

record store =
  instances :: "(string \<times> inst) list"
  running :: "(string \<times> string list) list"
  mute_rules :: "(string \<times> rat) list"
  mute_nodes :: "(string \<times> rat) list"

record engine =
  st :: store
  rules :: "rule list"
  events :: "event list"
  disk :: store
  logfile :: "event list"
  outbox :: "event list"

section \<open>Constants and the metrics\<close>

definition MINUTE :: ms where "MINUTE = 60000"

definition DAY :: ms where "DAY = 24 * 60 * MINUTE"

definition LOG_MAX :: nat where "LOG_MAX = 1000"

definition mk_rule :: "string \<Rightarrow> string \<Rightarrow> rat \<Rightarrow> int \<Rightarrow> severity \<Rightarrow> rat option \<Rightarrow> rule" where
  "mk_rule rid metric threshold forMin severity clear =
     \<lparr>r_id = rid, r_name = [], r_metric = metric, r_op = Ge, r_threshold = threshold,
      r_for = forMin * MINUTE, r_clear = clear, r_severity = severity, r_repeat = DAY,
      r_off = False, r_scope = AllNodes, r_sub = [], r_overrides = []\<rparr>"

definition DEFAULT_RULES :: "rule list" where
  "DEFAULT_RULES =
    [mk_rule ''offline'' ''offline'' 1 0 Critical None,
     mk_rule ''disk_full'' ''disk.used'' 90 5 Warning (Some 88),
     mk_rule ''disk_critical'' ''disk.used'' 95 5 Critical (Some 93),
     mk_rule ''memory'' ''mem'' 90 10 Warning None,
     mk_rule ''cpu'' ''cpu'' 95 15 Warning None,
     mk_rule ''temperature'' ''temp'' 85 5 Warning None,
     mk_rule ''container_down'' ''container.down'' 1 2 Warning None,
     mk_rule ''failed_units'' ''failed_units'' 1 5 Warning None,
     mk_rule ''reboot_required'' ''reboot_required'' 1 0 Info None,
     mk_rule ''security_updates'' ''security_updates'' 1 0 Info None]"

fun op_holds :: "rel \<Rightarrow> rat \<Rightarrow> rat \<Rightarrow> bool" where
  "op_holds Ge a b = (a \<ge> b)"
| "op_holds Le a b = (a \<le> b)"
| "op_holds Eq a b = (a = b)"

text \<open>
  A metric's values in a node's view: pairs of an instance name and a value, or \<open>None\<close> when
  the push lacks the group. \<open>seen\<close> are the containers seen running.
\<close>

definition one_value :: "rat \<Rightarrow> (string \<times> rat) list option" where
  "one_value q = Some [([], q)]"

definition valuesOf :: "string \<Rightarrow> jsval \<Rightarrow> string list \<Rightarrow> (string \<times> rat) list option" where
  "valuesOf metric v seen =
    (if metric = ''disk.used'' then
       (case arr_of (fld ''disks'' v) of None \<Rightarrow> None
        | Some ds \<Rightarrow> Some (List.map_filter (\<lambda>d. if fld ''mounted'' d \<noteq> JBool False
              then map_option (\<lambda>q. (str_of (fld ''mount'' d), q)) (finite_num (fld ''pct'' d)) else None) ds))
     else if metric = ''mem'' then
       (let m = fld ''mem'' v in
        if \<not> truthy m then None
        else case (finite_num (fld ''total'' m), finite_num (fld ''used'' m)) of
          (Some tot, Some used) \<Rightarrow>
            if tot > 0 then one_value (of_int (js_round (used * 1000 / tot)) / 10) else None
        | _ \<Rightarrow> None)
     else if metric = ''cpu'' then
       (if truthy (fld ''cpu'' v) then Option.bind (finite_num (fld ''usage'' (fld ''cpu'' v))) one_value else None)
     else if metric = ''temp'' then
       (if truthy (fld ''temp'' v) then Option.bind (finite_num (fld ''package'' (fld ''temp'' v))) one_value else None)
     else if metric = ''container.down'' then
       (case arr_of (fld ''docker'' v) of None \<Rightarrow> None
        | Some cs \<Rightarrow> if cs = [] then None else
            Some (map (\<lambda>c. (str_of (fld ''name'' c),
                       if fld ''state'' c \<noteq> JStr ''running'' \<or> fld ''health'' c = JStr ''unhealthy'' then 1 else 0))
                 (filter (\<lambda>c. str_of (fld ''name'' c) \<in> set seen) cs)))
     else if metric = ''failed_units'' then
       (if truthy (fld ''ubuntu'' v)
        then Option.bind (arr_of (fld ''failedUnits'' (fld ''ubuntu'' v))) (\<lambda>us. one_value (of_nat (length us))) else None)
     else if metric = ''reboot_required'' then
       (if truthy (fld ''ubuntu'' v) then
          (case fld ''rebootRequired'' (fld ''ubuntu'' v) of JBool b \<Rightarrow> one_value (if b then 1 else 0) | _ \<Rightarrow> None)
        else None)
     else if metric = ''security_updates'' then
       (if truthy (fld ''ubuntu'' v) then Option.bind (finite_num (fld ''security'' (fld ''ubuntu'' v))) one_value else None)
     else None)"

text \<open>A rule as it holds for one node: \<open>None\<close> when it is off there or out of its scope.\<close>

definition in_scope :: "scope \<Rightarrow> node \<Rightarrow> bool" where
  "in_scope s n = (case s of AllNodes \<Rightarrow> True | OnNode i \<Rightarrow> i = n_id n | OnTag t \<Rightarrow> t \<in> set (n_tags n))"

definition find_override :: "override list \<Rightarrow> node \<Rightarrow> override option" where
  "find_override ovs n =
    (case find (\<lambda>o'. ov_who o' = ForNode (n_id n)) ovs of
       Some ov \<Rightarrow> Some ov
     | None \<Rightarrow> find (\<lambda>o'. \<exists>t \<in> set (n_tags n). ov_who o' = ForTag t) ovs)"

definition forNode :: "rule \<Rightarrow> node \<Rightarrow> rule option" where
  "forNode r n =
    (if r_off r then None
     else if \<not> in_scope (r_scope r) n then None
     else case find_override (r_overrides r) n of
       None \<Rightarrow> Some r
     | Some ov \<Rightarrow> (case ov_threshold ov of
           None \<Rightarrow> None
         | Some th \<Rightarrow> Some (r\<lparr>r_threshold := th,
                              r_clear := map_option (\<lambda>c. c + (th - r_threshold r)) (r_clear r)\<rparr>)))"

section \<open>Events\<close>

definition inst_key :: "string \<Rightarrow> string \<Rightarrow> string \<Rightarrow> string" where
  "inst_key rid nid sub = rid @ ''|'' @ nid @ ''|'' @ sub"

definition put_inst :: "string \<Rightarrow> inst \<Rightarrow> engine \<Rightarrow> engine" where
  "put_inst k i e = e\<lparr>st := (st e)\<lparr>instances := AList.update k i (instances (st e))\<rparr>\<rparr>"

definition del_inst :: "string \<Rightarrow> engine \<Rightarrow> engine" where
  "del_inst k e = e\<lparr>st := (st e)\<lparr>instances := AList.delete k (instances (st e))\<rparr>\<rparr>"

text \<open>\<^verbatim>\<open>log\<close>: the list and the file grow by one; past 1100 both are cut to the last 1000.\<close>

definition log_event :: "event \<Rightarrow> engine \<Rightarrow> engine" where
  "log_event ev e =
    (let evs = events e @ [ev] in
     if length evs > LOG_MAX + 100
     then e\<lparr>events := slice_last LOG_MAX evs, logfile := slice_last LOG_MAX evs\<rparr>
     else e\<lparr>events := evs, logfile := logfile e @ [ev]\<rparr>)"

text \<open>\<^verbatim>\<open>save\<close>: the state is written without the values, which move on every push.\<close>

definition strip :: "store \<Rightarrow> store" where
  "strip s = s\<lparr>instances := map (\<lambda>(k, i). (k, i\<lparr>i_value := None\<rparr>)) (instances s)\<rparr>"

definition save :: "engine \<Rightarrow> engine" where
  "save e = e\<lparr>disk := strip (st e)\<rparr>"

definition live_mute :: "(string \<times> rat) list \<Rightarrow> string \<Rightarrow> ms \<Rightarrow> bool" where
  "live_mute m k t = ((case map_of m k of None \<Rightarrow> 0 | Some u \<Rightarrow> u) > of_int t)"

definition muted :: "store \<Rightarrow> inst \<Rightarrow> ms \<Rightarrow> bool" where
  "muted s i t = (live_mute (mute_rules s) (i_rule i) t \<or> live_mute (mute_nodes s) (i_node i) t)"

definition offline :: "store \<Rightarrow> string \<Rightarrow> bool" where
  "offline s nid =
    (case map_of (instances s) (inst_key ''offline'' nid []) of None \<Rightarrow> False | Some o' \<Rightarrow> i_state o' = Firing)"

definition quiet :: "store \<Rightarrow> inst \<Rightarrow> rule \<Rightarrow> ms \<Rightarrow> string" where
  "quiet s i r t =
    (if muted s i t then ''muted'' else if r_id r \<noteq> ''offline'' \<and> offline s (i_node i) then ''offline'' else [])"

definition mk_event :: "ekind \<Rightarrow> inst \<Rightarrow> rule \<Rightarrow> ms \<Rightarrow> bool \<Rightarrow> event" where
  "mk_event k i r t ended =
    \<lparr>e_kind = k, e_rule = i_rule i, e_name = r_name r, e_metric = r_metric r, e_severity = r_severity r,
     e_node = i_node i, e_nodeName = i_nodeName i, e_sub = i_sub i, e_value = i_value i,
     e_at = t, e_since = i_since i, e_ended = ended, e_quiet = []\<rparr>"

definition why_quiet :: "store \<Rightarrow> ekind \<Rightarrow> inst \<Rightarrow> rule \<Rightarrow> ms \<Rightarrow> string" where
  "why_quiet s k i r t =
    (if k = EResolved then (if i_notified i then [] else if quiet s i r t \<noteq> [] then quiet s i r t else ''untold'')
     else quiet s i r t)"

definition tell :: "ekind \<Rightarrow> inst \<Rightarrow> rule \<Rightarrow> ms \<Rightarrow> bool \<Rightarrow> engine \<Rightarrow> bool \<times> engine" where
  "tell k i r t ended e =
    (let ev = mk_event k i r t ended; why = why_quiet (st e) k i r t;
         e1 = log_event (if why \<noteq> [] then ev\<lparr>e_quiet := why\<rparr> else ev) e
     in if why = [] then (True, e1\<lparr>outbox := outbox e1 @ [ev]\<rparr>) else (False, e1))"

section \<open>Judging one instance\<close>

text \<open>A firing alert not told yet is told when no longer quiet; a told one repeats.\<close>

definition retell :: "string \<Rightarrow> inst \<Rightarrow> rule \<Rightarrow> ms \<Rightarrow> engine \<Rightarrow> engine" where
  "retell key i r t e =
    (if \<not> i_notified i \<and> quiet (st e) i r t = []
     then put_inst key (i\<lparr>i_notified := True, i_lastNotified := Some t\<rparr>) (snd (tell EFiring i r t False e))
     else if i_notified i \<and> (case i_lastNotified i of None \<Rightarrow> False | Some l \<Rightarrow> t - l \<ge> r_repeat r)
             \<and> quiet (st e) i r t = []
     then put_inst key (i\<lparr>i_lastNotified := Some t\<rparr>) (snd (tell ERepeat i r t False e))
     else e)"

definition holds :: "rule \<Rightarrow> rat option \<Rightarrow> bool" where
  "holds r value = (case value of None \<Rightarrow> False | Some v \<Rightarrow> op_holds (r_op r) v (r_threshold r))"

definition over :: "rule \<Rightarrow> rat option \<Rightarrow> bool" where
  "over r value =
    (case value of None \<Rightarrow> True
     | Some v \<Rightarrow> (case r_clear r of Some c \<Rightarrow> \<not> op_holds (r_op r) v c | None \<Rightarrow> \<not> holds r value))"

definition new_inst :: "rule \<Rightarrow> node \<Rightarrow> string \<Rightarrow> rat option \<Rightarrow> ms \<Rightarrow> inst" where
  "new_inst r n sub value t =
    \<lparr>i_rule = r_id r, i_node = n_id n, i_nodeName = n_name n, i_sub = sub, i_state = Okay, i_since = t,
     i_value = value, i_firedAt = None, i_severity = None, i_notified = False, i_lastNotified = None\<rparr>"

text \<open>The transition to firing: told if it may be, remembered either way.\<close>

definition fire :: "string \<Rightarrow> inst \<Rightarrow> rule \<Rightarrow> ms \<Rightarrow> engine \<Rightarrow> engine" where
  "fire key i r t e =
    (let i1 = i\<lparr>i_state := Firing, i_firedAt := Some t, i_severity := Some (r_severity r)\<rparr>;
         (told, e1) = tell EFiring i1 r t False (put_inst key i1 e)
     in put_inst key (i1\<lparr>i_notified := told, i_lastNotified := (if told then Some t else i_lastNotified i1)\<rparr>) e1)"

definition judge_inst :: "string \<Rightarrow> inst \<Rightarrow> rule \<Rightarrow> node \<Rightarrow> rat option \<Rightarrow> ms \<Rightarrow> engine \<Rightarrow> engine" where
  "judge_inst key i0 r n value t e =
    (let i = i0\<lparr>i_value := value, i_nodeName := n_name n\<rparr>; e1 = put_inst key i e in
     if i_state i = Firing then
       (if over r value then del_inst key (snd (tell EResolved i r t False e1))
        else retell key i r t e1)
     else if \<not> holds r value then del_inst key e1
     else
       (let i2 = (if i_state i = Okay then i\<lparr>i_state := Pending, i_since := t\<rparr> else i) in
        if t - i_since i2 \<ge> r_for r then fire key i2 r t e1 else put_inst key i2 e1))"

definition judge :: "rule \<Rightarrow> node \<Rightarrow> string \<Rightarrow> rat option \<Rightarrow> ms \<Rightarrow> engine \<Rightarrow> engine" where
  "judge r n sub value t e =
    (let key = inst_key (r_id r) (n_id n) sub in
     case map_of (instances (st e)) key of
       Some i \<Rightarrow> judge_inst key i r n value t e
     | None \<Rightarrow> if \<not> holds r value then e
               else judge_inst key (new_inst r n sub value t) r n value t e)"

text \<open>An alert whose rule no longer holds: it ends, a told one told.\<close>

definition end_inst :: "string \<Rightarrow> inst \<Rightarrow> rule \<Rightarrow> ms \<Rightarrow> engine \<Rightarrow> engine" where
  "end_inst k i r t e =
    del_inst k (if i_state i = Firing then snd (tell EResolved i r t True e) else e)"

definition endAll :: "rule \<Rightarrow> node \<Rightarrow> ms \<Rightarrow> engine \<Rightarrow> engine" where
  "endAll r n t e =
    fold (\<lambda>(k, i) e'. if i_rule i = r_id r \<and> i_node i = n_id n then end_inst k i r t e' else e')
      (instances (st e)) e"

definition find_rule :: "rule list \<Rightarrow> string \<Rightarrow> rule option" where
  "find_rule rs i = find (\<lambda>r. r_id r = i) rs"

definition bare_rule :: "severity option \<Rightarrow> rule" where
  "bare_rule sev = (mk_rule [] [] 0 0 (case sev of None \<Rightarrow> Warning | Some s \<Rightarrow> s) None)"

definition prune :: "rule list \<Rightarrow> ms \<Rightarrow> engine \<Rightarrow> engine" where
  "prune old t e0 =
    (let e1 = fold (\<lambda>(k, i) e.
           case find_rule (rules e) (i_rule i) of
             Some r \<Rightarrow> if r_off r then end_inst k i r t e else e
           | None \<Rightarrow> end_inst k i (case find_rule old (i_rule i) of Some r \<Rightarrow> r | None \<Rightarrow> bare_rule (i_severity i)) t e)
         (instances (st e0)) e0
     in e1\<lparr>st := (st e1)\<lparr>mute_rules :=
          filter (\<lambda>(rid, u). find_rule (rules e1) rid \<noteq> None) (mute_rules (st e1))\<rparr>\<rparr>)"

text \<open>\<^verbatim>\<open>createAlerts\<close>: the state and the log as the files have them, rules that went are pruned.\<close>

definition createAlerts :: "rule list \<Rightarrow> store \<Rightarrow> event list \<Rightarrow> ms \<Rightarrow> engine" where
  "createAlerts rs f lg t =
    save (prune [] t
      \<lparr>st = f, rules = rs, events = slice_last LOG_MAX lg, disk = f, logfile = lg, outbox = []\<rparr>)"

section \<open>The operations\<close>

definition see_running :: "jsval list \<Rightarrow> string list \<Rightarrow> string list" where
  "see_running cs run0 =
    (let run1 = fold (\<lambda>c run. let nm = str_of (fld ''name'' c) in
            if fld ''state'' c = JStr ''running'' \<and> nm \<notin> set run then run @ [nm] else run) cs run0
     in filter (\<lambda>nm. nm \<in> set (map (\<lambda>c. str_of (fld ''name'' c)) cs)) run1)"

definition note_running :: "node \<Rightarrow> jsval \<Rightarrow> store \<Rightarrow> string list \<times> store" where
  "note_running n v s =
    (let run = (case map_of (running s) (n_id n) of None \<Rightarrow> [] | Some l \<Rightarrow> l) in
     case arr_of (fld ''docker'' v) of
       Some (c # cs) \<Rightarrow> (let run' = see_running (c # cs) run in
          (run', s\<lparr>running := AList.update (n_id n) run' (running s)\<rparr>))
     | _ \<Rightarrow> (run, s))"

definition judge_values :: "rule \<Rightarrow> node \<Rightarrow> (string \<times> rat) list \<Rightarrow> ms \<Rightarrow> engine \<Rightarrow> engine" where
  "judge_values r n vals t e =
    fold (\<lambda>(sub, q) e'. judge r n sub (Some q) t e') vals e"

definition judge_gone :: "rule \<Rightarrow> node \<Rightarrow> string list \<Rightarrow> ms \<Rightarrow> engine \<Rightarrow> engine" where
  "judge_gone r n seen t e =
    fold (\<lambda>(k, i) e'. if i_rule i = r_id r \<and> i_node i = n_id n \<and> i_sub i \<notin> set seen
                      then judge r n (i_sub i) None t e' else e')
      (instances (st e)) e"

definition eval_rule :: "node \<Rightarrow> jsval \<Rightarrow> string list \<Rightarrow> ms \<Rightarrow> rule \<Rightarrow> engine \<Rightarrow> engine" where
  "eval_rule n v run t rule e =
    (case forNode rule n of
       None \<Rightarrow> endAll rule n t e
     | Some r \<Rightarrow>
         if r_metric r = ''offline'' then judge r n [] (Some 0) t e
         else case valuesOf (r_metric r) v run of
           None \<Rightarrow> e
         | Some vals0 \<Rightarrow>
             (let vals = (if r_sub r \<noteq> [] then filter (\<lambda>x. fst x = r_sub r) vals0 else vals0)
              in judge_gone r n (map fst vals) t (judge_values r n vals t e)))"

definition evaluate :: "node \<Rightarrow> jsval \<Rightarrow> ms \<Rightarrow> engine \<Rightarrow> engine" where
  "evaluate n v t e =
    (let (run, s) = note_running n v (st e)
     in save (fold (eval_rule n v run t) (rules e) (e\<lparr>st := s\<rparr>)))"

definition offline_limit :: "int option \<Rightarrow> ms" where
  "offline_limit interval =
    max (10 * MINUTE) (5 * (case interval of None \<Rightarrow> 60 | Some i \<Rightarrow> if i = 0 then 60 else i) * 1000)"

text \<open>One node of \<^verbatim>\<open>check\<close>: its offline rule first, then its other firing alerts.\<close>

definition check_others :: "node \<Rightarrow> bool \<Rightarrow> ms \<Rightarrow> engine \<Rightarrow> engine" where
  "check_others n stale t e =
    fold (\<lambda>(k, i) e'.
        if i_node i \<noteq> n_id n \<or> i_state i \<noteq> Firing \<or> i_rule i = ''offline'' then e'
        else case find_rule (rules e') (i_rule i) of
          None \<Rightarrow> e'
        | Some rr \<Rightarrow> (case forNode rr n of
              None \<Rightarrow> end_inst k i rr t e'
            | Some eff \<Rightarrow> if \<not> stale then retell k i eff t e' else e'))
      (instances (st e)) e"

definition check_node :: "ms \<Rightarrow> node \<Rightarrow> engine \<Rightarrow> engine" where
  "check_node t n e =
    (if n_lastPush n = 0 then e
     else
       (let stale = (t - n_lastPush n \<ge> offline_limit (n_interval n));
            e1 = (case find (\<lambda>r. r_metric r = ''offline'') (rules e) of
                    None \<Rightarrow> e
                  | Some off \<Rightarrow> (case forNode off n of
                        Some r \<Rightarrow> judge r n [] (Some (if stale then 1 else 0)) t e
                      | None \<Rightarrow> endAll off n t e))
        in check_others n stale t e1))"

definition check :: "node list \<Rightarrow> ms \<Rightarrow> engine \<Rightarrow> engine" where
  "check ns t e = save (fold (check_node t) ns e)"

datatype mute_target = MuteRule string | MuteNode string

definition set_mute :: "string \<Rightarrow> rat \<Rightarrow> ms \<Rightarrow> (string \<times> rat) list \<Rightarrow> (string \<times> rat) list" where
  "set_mute k until t m = (if until > of_int t then AList.update k until m else AList.delete k m)"

text \<open>\<^verbatim>\<open>mute\<close>: without a rule and without a node it throws (\<open>None\<close>).\<close>

definition mute_op :: "mute_target option \<Rightarrow> rat \<Rightarrow> ms \<Rightarrow> engine \<Rightarrow> engine option" where
  "mute_op target until t e =
    (case target of
       None \<Rightarrow> None
     | Some (MuteRule i) \<Rightarrow> Some (save (e\<lparr>st := (st e)\<lparr>mute_rules := set_mute i until t (mute_rules (st e))\<rparr>\<rparr>))
     | Some (MuteNode n) \<Rightarrow> Some (save (e\<lparr>st := (st e)\<lparr>mute_nodes := set_mute n until t (mute_nodes (st e))\<rparr>\<rparr>)))"

definition mutes :: "ms \<Rightarrow> engine \<Rightarrow> (string \<times> rat) list \<times> (string \<times> rat) list" where
  "mutes t e = (filter (\<lambda>(k, u). u > of_int t) (mute_rules (st e)), filter (\<lambda>(k, u). u > of_int t) (mute_nodes (st e)))"

definition recent :: "nat \<Rightarrow> engine \<Rightarrow> event list" where
  "recent n e = rev (slice_last n (events e))"

definition firing :: "engine \<Rightarrow> ms \<Rightarrow> (inst \<times> severity option \<times> string \<times> bool) list" where
  "firing e t =
    map (\<lambda>i. case find_rule (rules e) (i_rule i) of
           Some r \<Rightarrow> (i, Some (r_severity r), quiet (st e) i r t, muted (st e) i t)
         | None \<Rightarrow> (i, None, quiet (st e) i (bare_rule None) t, muted (st e) i t))
      (filter (\<lambda>i. i_state i = Firing) (map snd (instances (st e))))"

fun sev_index :: "severity \<Rightarrow> nat" where
  "sev_index Critical = 0"
| "sev_index Warning = 1"
| "sev_index Info = 2"

definition badge_step :: "engine \<Rightarrow> ms \<Rightarrow> inst \<Rightarrow> (string \<times> (nat \<times> severity)) list \<Rightarrow> (string \<times> (nat \<times> severity)) list" where
  "badge_step e t i out =
    (case find_rule (rules e) (i_rule i) of
       None \<Rightarrow> out
     | Some r \<Rightarrow>
        if i_state i \<noteq> Firing \<or> quiet (st e) i r t \<noteq> [] then out
        else (let (count, worst) = (case map_of out (i_node i) of None \<Rightarrow> (0, r_severity r) | Some b \<Rightarrow> b)
              in AList.update (i_node i)
                   (Suc count, if sev_index (r_severity r) < sev_index worst then r_severity r else worst) out))"

definition badges :: "engine \<Rightarrow> ms \<Rightarrow> (string \<times> (nat \<times> severity)) list" where
  "badges e t = fold (badge_step e t) (map snd (instances (st e))) []"

definition setRules :: "rule list \<Rightarrow> ms \<Rightarrow> engine \<Rightarrow> engine" where
  "setRules rs t e = save (prune (rules e) t (e\<lparr>rules := rs\<rparr>))"

definition ruleIds :: "engine \<Rightarrow> string list" where
  "ruleIds e = map r_id (rules e)"

definition ruleInfo :: "engine \<Rightarrow> (string \<times> (string \<times> string)) list" where
  "ruleInfo e = fold (\<lambda>r out. AList.update (r_id r) (r_name r, r_metric r) out) (rules e) []"

definition forget_one :: "string \<Rightarrow> ms \<Rightarrow> string \<times> inst \<Rightarrow> engine \<Rightarrow> engine" where
  "forget_one nid t = (\<lambda>(k, i) e.
    if i_node i \<noteq> nid then e
    else del_inst k (case find_rule (rules e) (i_rule i) of
        Some r \<Rightarrow> if i_state i = Firing then snd (tell EResolved i r t False e) else e
      | None \<Rightarrow> e))"

definition forget_insts :: "string \<Rightarrow> ms \<Rightarrow> engine \<Rightarrow> engine" where
  "forget_insts nid t e = fold (forget_one nid t) (instances (st e)) e"

definition forget :: "string \<Rightarrow> ms \<Rightarrow> engine \<Rightarrow> engine" where
  "forget nid t e =
    (let e1 = forget_insts nid t e in
     save (e1\<lparr>st := (st e1)\<lparr>running := AList.delete nid (running (st e1)),
                            mute_nodes := AList.delete nid (mute_nodes (st e1))\<rparr>\<rparr>))"


section \<open>What telling changes\<close>

lemma log_event_frame [simp]:
  "st (log_event ev e) = st e" "rules (log_event ev e) = rules e" "disk (log_event ev e) = disk e"
  "outbox (log_event ev e) = outbox e"
  by (simp_all add: log_event_def Let_def)

lemma put_inst_simps [simp]:
  "st (put_inst k i e) = (st e)\<lparr>instances := AList.update k i (instances (st e))\<rparr>"
  "rules (put_inst k i e) = rules e" "disk (put_inst k i e) = disk e"
  "outbox (put_inst k i e) = outbox e" "events (put_inst k i e) = events e" "logfile (put_inst k i e) = logfile e"
  by (simp_all add: put_inst_def)

lemma del_inst_simps [simp]:
  "st (del_inst k e) = (st e)\<lparr>instances := AList.delete k (instances (st e))\<rparr>"
  "rules (del_inst k e) = rules e" "disk (del_inst k e) = disk e"
  "outbox (del_inst k e) = outbox e" "events (del_inst k e) = events e" "logfile (del_inst k e) = logfile e"
  by (simp_all add: del_inst_def)

lemma save_simps [simp]:
  "st (save e) = st e" "rules (save e) = rules e" "disk (save e) = strip (st e)"
  "outbox (save e) = outbox e" "events (save e) = events e" "logfile (save e) = logfile e"
  by (simp_all add: save_def)

lemma tell_frame [simp]:
  "st (snd (tell k i r t d e)) = st e" "rules (snd (tell k i r t d e)) = rules e"
  "disk (snd (tell k i r t d e)) = disk e"
  by (simp_all add: tell_def Let_def)

lemma tell_told [simp]: "fst (tell k i r t d e) = (why_quiet (st e) k i r t = [])"
  by (simp add: tell_def Let_def)

lemma tell_outbox:
  "outbox (snd (tell k i r t d e)) =
     outbox e @ (if why_quiet (st e) k i r t = [] then [mk_event k i r t d] else [])"
  by (simp add: tell_def Let_def)

lemma why_quiet_simps [simp]:
  "why_quiet s EFiring i r t = quiet s i r t" "why_quiet s ERepeat i r t = quiet s i r t"
  "why_quiet s EResolved i r t = [] \<longleftrightarrow> i_notified i"
  by (simp_all add: why_quiet_def)

section \<open>The protocol of what is told\<close>

text \<open>
  The events told of one alert form rounds: its start, any number of repeats, its end. The set
  are the alerts whose start was told and whose end was not yet.
\<close>

definition ev_key :: "event \<Rightarrow> string" where
  "ev_key ev = inst_key (e_rule ev) (e_node ev) (e_sub ev)"

fun protocol :: "string set \<Rightarrow> event list \<Rightarrow> string set option" where
  "protocol S [] = Some S"
| "protocol S (ev # evs) =
    (case e_kind ev of
       EFiring \<Rightarrow> if ev_key ev \<in> S then None else protocol (insert (ev_key ev) S) evs
     | ERepeat \<Rightarrow> if ev_key ev \<in> S then protocol S evs else None
     | EResolved \<Rightarrow> if ev_key ev \<in> S then protocol (S - {ev_key ev}) evs else None)"

lemma protocol_append:
  "protocol S (xs @ ys) = Option.bind (protocol S xs) (\<lambda>S'. protocol S' ys)"
  by (induction xs arbitrary: S) (auto split: ekind.splits)

definition told_set :: "store \<Rightarrow> string set" where
  "told_set s = {k. \<exists>i. map_of (instances s) k = Some i \<and> i_notified i}"

text \<open>The invariant of the instances, and with it of what was told (\<open>S\<close>: told at the start).\<close>

definition wf_inst :: "string \<Rightarrow> inst \<Rightarrow> bool" where
  "wf_inst k i \<longleftrightarrow> k = inst_key (i_rule i) (i_node i) (i_sub i) \<and> (i_notified i \<longrightarrow> i_state i = Firing)"

definition wf_store :: "store \<Rightarrow> bool" where
  "wf_store s \<longleftrightarrow> distinct (map fst (instances s)) \<and>
     (\<forall>k i. map_of (instances s) k = Some i \<longrightarrow> wf_inst k i)"

definition good :: "string set \<Rightarrow> engine \<Rightarrow> bool" where
  "good S e \<longleftrightarrow> wf_store (st e) \<and> protocol S (outbox e) = Some (told_set (st e))"

lemma wf_instD:
  "wf_store s \<Longrightarrow> map_of (instances s) k = Some i \<Longrightarrow> wf_inst k i"
  by (auto simp: wf_store_def)

lemma wf_inst_key: "wf_inst k i \<Longrightarrow> ev_key (mk_event kd i r t d) = k"
  by (simp add: wf_inst_def ev_key_def mk_event_def)

lemma wf_store_put [intro]:
  "wf_store s \<Longrightarrow> wf_inst k i \<Longrightarrow> wf_store (s\<lparr>instances := AList.update k i (instances s)\<rparr>)"
  by (auto simp: wf_store_def)

lemma wf_store_del [intro]:
  "wf_store s \<Longrightarrow> wf_store (s\<lparr>instances := AList.delete k (instances s)\<rparr>)"
  by (auto simp: wf_store_def)

lemma told_set_put:
  "told_set (s\<lparr>instances := AList.update k i (instances s)\<rparr>) =
     (if i_notified i then insert k (told_set s) else told_set s - {k})"
  by (auto simp: told_set_def)

lemma told_set_del:
  "told_set (s\<lparr>instances := AList.delete k (instances s)\<rparr>) = told_set s - {k}"
  by (auto simp: told_set_def)

lemma in_told_set: "map_of (instances s) k = Some i \<Longrightarrow> k \<in> told_set s \<longleftrightarrow> i_notified i"
  by (simp add: told_set_def)

lemma e_kind_mk_event [simp]: "e_kind (mk_event k i r t d) = k"
  by (simp add: mk_event_def)

lemma good_put:
  assumes "good S e" "wf_inst k i" "i_notified i \<longleftrightarrow> k \<in> told_set (st e)"
  shows "good S (put_inst k i e)"
  using assms by (auto simp: good_def told_set_put intro: arg_cong)

lemma good_del:
  assumes "good S e" "k \<notin> told_set (st e)"
  shows "good S (del_inst k e)"
  using assms by (auto simp: good_def told_set_del)

lemma good_end:
  assumes "good S e" "map_of (instances (st e)) k = Some i"
  shows "good S (del_inst k (snd (tell EResolved i r t d e)))"
  using assms wf_inst_key [OF wf_instD, of "st e" k i]
  by (auto simp: good_def told_set_del tell_outbox protocol_append in_told_set)

lemma good_tell_firing:
  assumes "good S e" "wf_inst k i" "k \<notin> told_set (st e)" "quiet (st e) i r t = []"
    and "wf_inst k i'" "i_notified i'"
  shows "good S (put_inst k i' (snd (tell EFiring i r t d e)))"
  using assms wf_inst_key [of k i EFiring r t d]
  by (auto simp: good_def told_set_put tell_outbox protocol_append)

lemma good_tell_repeat:
  assumes "good S e" "wf_inst k i" "k \<in> told_set (st e)" "quiet (st e) i r t = []"
    and "wf_inst k i'" "i_notified i'"
  shows "good S (put_inst k i' (snd (tell ERepeat i r t d e)))"
  using assms wf_inst_key [of k i ERepeat r t d]
  by (auto simp: good_def told_set_put tell_outbox protocol_append insert_absorb)


section \<open>Every operation keeps the invariant\<close>

lemma good_retell:
  assumes "good S e" "map_of (instances (st e)) k = Some i" "i_state i = Firing"
  shows "good S (retell k i r t e)"
proof -
  have wf: "wf_inst k i" using assms by (auto simp: good_def dest: wf_instD)
  then have wf': "wf_inst k (i\<lparr>i_notified := True, i_lastNotified := Some t\<rparr>)"
      "wf_inst k (i\<lparr>i_lastNotified := Some t\<rparr>)"
    using assms(3) by (auto simp: wf_inst_def)
  show ?thesis
    using assms wf wf' in_told_set [OF assms(2)]
    by (auto simp: retell_def intro!: good_tell_firing good_tell_repeat)
qed

lemma good_fire:
  assumes "good S e" "wf_inst k i" "\<not> i_notified i" "k \<notin> told_set (st e)"
  shows "good S (fire k i r t e)"
proof -
  define i1 where "i1 = i\<lparr>i_state := Firing, i_firedAt := Some t, i_severity := Some (r_severity r)\<rparr>"
  let ?e = "put_inst k i1 e"
  have wf: "wf_inst k i1" "\<not> i_notified i1" using assms by (auto simp: i1_def wf_inst_def)
  have e: "good S ?e" "k \<notin> told_set (st ?e)"
    using assms wf by (auto intro!: good_put simp: told_set_put)
  let ?i2 = "i1\<lparr>i_notified := (quiet (st ?e) i1 r t = []),
     i_lastNotified := (if quiet (st ?e) i1 r t = [] then Some t else i_lastNotified i1)\<rparr>"
  have fire: "fire k i r t e = put_inst k ?i2 (snd (tell EFiring i1 r t False ?e))"
    by (simp add: fire_def i1_def Let_def split_beta del: put_inst_simps)
  have wf2: "wf_inst k ?i2" using wf by (auto simp: wf_inst_def i1_def)
  show ?thesis
  proof (cases "quiet (st ?e) i1 r t = []")
    case True
    then show ?thesis unfolding fire
      by (intro good_tell_firing e wf wf2) simp_all
  next
    case False
    then have "good S (snd (tell EFiring i1 r t False ?e))"
      using e(1) by (simp add: good_def tell_outbox)
    then show ?thesis unfolding fire using e(2) wf2 False
      by (intro good_put) auto
  qed
qed

lemma good_judge_inst:
  assumes e: "good S e" and wf: "wf_inst k i" and n: "i_notified i \<longleftrightarrow> k \<in> told_set (st e)"
  shows "good S (judge_inst k i r nd v t e)"
proof -
  let ?i = "i\<lparr>i_value := v, i_nodeName := n_name nd\<rparr>"
  let ?e = "put_inst k ?i e"
  have wfi: "wf_inst k ?i" using wf by (simp add: wf_inst_def)
  have ge: "good S ?e" using e wfi n by (intro good_put) auto
  have look: "map_of (instances (st ?e)) k = Some ?i" by simp
  have told: "k \<in> told_set (st ?e) \<longleftrightarrow> i_notified i" by (simp add: told_set_put)
  show ?thesis
  proof (cases "i_state i = Firing")
    case True
    then have "good S (retell k ?i r t ?e)" by (intro good_retell [OF ge look]) simp
    with good_end [OF ge look] True show ?thesis
      by (simp add: judge_inst_def Let_def del: put_inst_simps del_inst_simps)
  next
    case False
    with wf have nn: "\<not> i_notified i" by (simp add: wf_inst_def)
    define i2 where "i2 = (if i_state i = Okay then ?i\<lparr>i_state := Pending, i_since := t\<rparr> else ?i)"
    have wf2: "wf_inst k i2" "\<not> i_notified i2" using wfi nn by (auto simp: i2_def wf_inst_def)
    have "good S (del_inst k ?e)" using told nn by (intro good_del [OF ge]) simp
    moreover have "good S (fire k i2 r t ?e)" using told nn wf2 by (intro good_fire [OF ge]) auto
    moreover have "good S (put_inst k i2 ?e)" using told nn wf2 by (intro good_put [OF ge]) auto
    ultimately show ?thesis using False
      by (simp add: judge_inst_def Let_def i2_def del: put_inst_simps del_inst_simps)
  qed
qed

lemma good_judge:
  assumes e: "good S e"
  shows "good S (judge r n sub v t e)"
proof -
  define k where "k = inst_key (r_id r) (n_id n) sub"
  have new: "wf_inst k (new_inst r n sub v t)" by (simp add: k_def new_inst_def wf_inst_def)
  show ?thesis
  proof (cases "map_of (instances (st e)) k")
    case None
    then have "k \<notin> told_set (st e)" by (simp add: told_set_def)
    then have "good S (judge_inst k (new_inst r n sub v t) r n v t e)"
      using new by (intro good_judge_inst [OF e]) (auto simp: new_inst_def)
    with None e show ?thesis by (simp add: judge_def Let_def flip: k_def)
  next
    case (Some i)
    then have "good S (judge_inst k i r n v t e)"
      using e by (intro good_judge_inst) (auto simp: in_told_set good_def dest: wf_instD)
    with Some show ?thesis by (simp add: judge_def Let_def flip: k_def)
  qed
qed

text \<open>What an operation on one instance leaves alone: the rules, and every other instance.\<close>

lemma judge_inst_other:
  "k' \<noteq> k \<Longrightarrow> map_of (instances (st (judge_inst k i r n v t e))) k' = map_of (instances (st e)) k'"
  by (simp add: judge_inst_def retell_def fire_def Let_def split_beta)

lemma retell_other:
  "k' \<noteq> k \<Longrightarrow> map_of (instances (st (retell k i r t e))) k' = map_of (instances (st e)) k'"
  by (simp add: retell_def)

lemma judge_other:
  "k' \<noteq> inst_key (r_id r) (n_id n) sub \<Longrightarrow>
   map_of (instances (st (judge r n sub v t e))) k' = map_of (instances (st e)) k'"
  by (simp add: judge_def Let_def judge_inst_other split: option.split)

lemma rules_frame [simp]:
  "rules (retell k i r t e) = rules e"
  "rules (fire k i r t e) = rules e"
  "rules (judge_inst k i r n v t e) = rules e"
  "rules (judge r n sub v t e) = rules e"
  "rules (end_inst k i r t e) = rules e"
  by (simp_all add: retell_def fire_def judge_inst_def judge_def end_inst_def Let_def split_beta
      split: option.split)

lemma end_inst_instances [simp]:
  "st (end_inst k i r t e) = (st e)\<lparr>instances := AList.delete k (instances (st e))\<rparr>"
  by (simp add: end_inst_def)

text \<open>A loop over the entries of \<^verbatim>\<open>st.instances\<close> as they were: each pass changes its own entry only.\<close>

lemma fold_entries:
  assumes step: "\<And>k i e. P e \<Longrightarrow> map_of (instances (st e)) k = Some i \<Longrightarrow>
      P (f (k, i) e) \<and> (\<forall>k'. k' \<noteq> k \<longrightarrow> map_of (instances (st (f (k, i) e))) k' = map_of (instances (st e)) k')"
    and "P e" "distinct (map fst xs)" "\<forall>(k, i) \<in> set xs. map_of (instances (st e)) k = Some i"
  shows "P (fold f xs e)"
  using assms(2-)
proof (induction xs arbitrary: e)
  case (Cons x xs)
  obtain k i where x: "x = (k, i)" by fastforce
  have fx: "P (f x e)" "\<forall>k'. k' \<noteq> k \<longrightarrow> map_of (instances (st (f x e))) k' = map_of (instances (st e)) k'"
    using step [of e k i] Cons.prems x by auto
  have "\<forall>(k', i') \<in> set xs. map_of (instances (st (f x e))) k' = Some i'"
    using fx(2) Cons.prems(2,3) x by (fastforce simp: image_iff)
  with Cons.IH [OF fx(1)] Cons.prems(2) show ?case by simp
qed simp

lemma good_distinct: "good S e \<Longrightarrow> distinct (map fst (instances (st e)))"
  by (simp add: good_def wf_store_def)

lemma fold_instances:
  assumes "\<And>k i e. good S e \<Longrightarrow> map_of (instances (st e)) k = Some i \<Longrightarrow>
      good S (f (k, i) e) \<and> (\<forall>k'. k' \<noteq> k \<longrightarrow> map_of (instances (st (f (k, i) e))) k' = map_of (instances (st e)) k')"
    and "good S e"
  shows "good S (fold f (instances (st e)) e)"
proof (rule fold_entries [where P = "good S"])
  show "distinct (map fst (instances (st e)))" by (rule good_distinct [OF assms(2)])
  then show "\<forall>(k, i) \<in> set (instances (st e)). map_of (instances (st e)) k = Some i" by auto
qed (use assms in auto)

lemma good_end_inst:
  assumes "good S e" "map_of (instances (st e)) k = Some i"
  shows "good S (end_inst k i r t e)"
proof (cases "i_state i = Firing")
  case False
  then have "k \<notin> told_set (st e)" using assms by (auto simp: good_def in_told_set wf_inst_def dest: wf_instD)
  with False assms(1) show ?thesis by (simp add: end_inst_def good_del)
qed (use good_end [OF assms] in \<open>simp add: end_inst_def\<close>)

lemma good_endAll: "good S e \<Longrightarrow> good S (endAll r n t e)"
  unfolding endAll_def by (rule fold_instances) (auto simp: good_end_inst)

lemma good_prune_loop:
  "good S e \<Longrightarrow> good S (prune old t e)"
proof -
  have mr: "good S e \<Longrightarrow> good S (e\<lparr>st := (st e)\<lparr>mute_rules := m\<rparr>\<rparr>)" for e m
    by (simp add: good_def wf_store_def told_set_def)
  assume "good S e"
  then show ?thesis unfolding prune_def Let_def
    by (intro mr fold_instances) (auto simp: good_end_inst split: option.split)
qed

lemma good_save [simp]: "good S (save e) = good S e"
  by (simp add: good_def)

lemma fold_good: "(\<And>x e. x \<in> set xs \<Longrightarrow> good S e \<Longrightarrow> good S (f x e)) \<Longrightarrow> good S e \<Longrightarrow> good S (fold f xs e)"
  by (induction xs arbitrary: e) auto

lemma good_eval_rule: "good S e \<Longrightarrow> good S (eval_rule n v run t r e)"
  by (auto simp: eval_rule_def judge_values_def judge_gone_def Let_def
      intro!: good_endAll good_judge fold_good split: option.split)

lemma note_running_frame [simp]:
  "instances (snd (note_running n v s)) = instances s" "mute_rules (snd (note_running n v s)) = mute_rules s"
  "mute_nodes (snd (note_running n v s)) = mute_nodes s"
  by (auto simp: note_running_def Let_def split: option.split list.split)

lemma good_st_cong:
  "good S e \<Longrightarrow> instances s = instances (st e) \<Longrightarrow> good S (e\<lparr>st := s\<rparr>)"
  by (simp add: good_def wf_store_def told_set_def)

lemma good_evaluate: "good S e \<Longrightarrow> good S (evaluate n v t e)"
  unfolding evaluate_def
  by (auto simp: split_beta intro!: fold_good good_eval_rule good_st_cong)

lemma good_check_others: "good S e \<Longrightarrow> good S (check_others n stale t e)"
  unfolding check_others_def
  by (rule fold_instances) (auto simp: good_end_inst good_retell retell_other split: option.split)

lemma good_check_node: "good S e \<Longrightarrow> good S (check_node t n e)"
  by (auto simp: check_node_def Let_def intro!: good_check_others good_judge good_endAll split: option.split)

lemma good_check: "good S e \<Longrightarrow> good S (check ns t e)"
  unfolding check_def by (auto intro!: fold_good good_check_node)


text \<open>Every instance belongs to a rule there is: what \<^verbatim>\<open>prune\<close> is for.\<close>

lemma find_rule_mem: "r \<in> set rs \<Longrightarrow> find_rule rs (r_id r) \<noteq> None"
  by (auto simp: find_rule_def find_None_iff)

lemma forNode_id: "forNode r n = Some r' \<Longrightarrow> r_id r' = r_id r"
  by (auto simp: forNode_def split: if_splits option.splits)

definition kept :: "rule list \<Rightarrow> inst \<Rightarrow> bool" where
  "kept rs i \<longleftrightarrow> (case find_rule rs (i_rule i) of Some r \<Rightarrow> \<not> r_off r | None \<Rightarrow> False)"

text \<open>\<open>known rs e\<close>: the rules are \<open>rs\<close> and each instance's rule is one of them.\<close>

definition known :: "rule list \<Rightarrow> engine \<Rightarrow> bool" where
  "known rs e \<longleftrightarrow> rules e = rs \<and>
     (\<forall>k i. map_of (instances (st e)) k = Some i \<longrightarrow> find_rule rs (i_rule i) \<noteq> None)"

lemma known_rules: "known rs e \<Longrightarrow> rules e = rs"
  by (simp add: known_def)

lemma known_find: "known rs e \<Longrightarrow> map_of (instances (st e)) k = Some i \<Longrightarrow> find_rule rs (i_rule i) \<noteq> None"
  by (simp add: known_def)

lemma known_put: "known rs e \<Longrightarrow> find_rule rs (i_rule i) \<noteq> None \<Longrightarrow> known rs (put_inst k i e)"
  by (simp add: known_def)

lemma known_del: "known rs e \<Longrightarrow> known rs (del_inst k e)"
  by (auto simp: known_def split: if_splits)

lemma known_tell: "known rs e \<Longrightarrow> known rs (snd (tell kd i r t d e))"
  by (simp add: known_def)

lemma known_save [simp]: "known rs (save e) = known rs e"
  by (simp add: known_def)

lemma known_st_cong: "known rs e \<Longrightarrow> instances s = instances (st e) \<Longrightarrow> known rs (e\<lparr>st := s\<rparr>)"
  by (simp add: known_def)

lemmas known_prims = known_put known_del known_tell

lemma known_retell:
  "known rs e \<Longrightarrow> find_rule rs (i_rule i) \<noteq> None \<Longrightarrow> known rs (retell k i r t e)"
  by (simp add: retell_def known_prims)

lemma known_fire:
  "known rs e \<Longrightarrow> find_rule rs (i_rule i) \<noteq> None \<Longrightarrow> known rs (fire k i r t e)"
  by (simp add: fire_def Let_def split_beta known_prims del: put_inst_simps)

lemma known_judge_inst:
  "known rs e \<Longrightarrow> find_rule rs (i_rule i) \<noteq> None \<Longrightarrow> known rs (judge_inst k i r n v t e)"
  by (simp add: judge_inst_def Let_def known_prims known_retell known_fire del: put_inst_simps)

lemma known_judge:
  assumes "known rs e" "find_rule rs (r_id r) \<noteq> None"
  shows "known rs (judge r n sub v t e)"
  using assms known_find [OF assms(1)]
  by (simp add: judge_def Let_def known_judge_inst new_inst_def split: option.split)

lemma known_end_inst: "known rs e \<Longrightarrow> known rs (end_inst k i r t e)"
  by (simp add: end_inst_def known_prims)

lemma known_fold:
  "(\<And>x e. x \<in> set xs \<Longrightarrow> known rs e \<Longrightarrow> known rs (f x e)) \<Longrightarrow> known rs e \<Longrightarrow> known rs (fold f xs e)"
  by (induction xs arbitrary: e) auto

lemma known_endAll: "known rs e \<Longrightarrow> known rs (endAll r n t e)"
  unfolding endAll_def by (intro known_fold) (auto simp: known_end_inst)

lemma known_eval_rule:
  "known rs e \<Longrightarrow> find_rule rs (r_id r) \<noteq> None \<Longrightarrow> known rs (eval_rule n v run t r e)"
  unfolding eval_rule_def judge_values_def judge_gone_def Let_def
  by (auto split: option.split dest!: forNode_id intro!: known_endAll known_judge known_fold)

lemma known_evaluate: "known rs e \<Longrightarrow> known rs (evaluate n v t e)"
  unfolding evaluate_def
  by (auto simp: split_beta known_rules intro!: known_fold known_eval_rule known_st_cong find_rule_mem)

lemma known_check_others: "known rs e \<Longrightarrow> known rs (check_others n stale t e)"
  unfolding check_others_def
  by (intro known_fold) (auto simp: known_rules known_end_inst known_retell split: option.split)

lemma known_check_node: "known rs e \<Longrightarrow> known rs (check_node t n e)"
proof -
  assume e: "known rs e"
  have "find_rule rs (r_id r) \<noteq> None" if "find (\<lambda>r. r_metric r = ''offline'') rs = Some off" "forNode off n = Some r" for off r
    using that find_rule_mem [of off rs] by (auto simp: find_Some_iff dest!: forNode_id)
  with e show ?thesis
    by (auto simp: check_node_def Let_def known_rules intro!: known_check_others known_judge known_endAll split: option.split)
qed

lemma known_check: "known rs e \<Longrightarrow> known rs (check ns t e)"
  unfolding check_def by (auto intro!: known_fold known_check_node)

lemma fold_delete_keys:
  assumes "\<And>k i e. st (f (k, i) e) = (if g i then st e else (st e)\<lparr>instances := AList.delete k (instances (st e))\<rparr>)"
  shows "st (fold f xs e) = (st e)\<lparr>instances := filter (\<lambda>p. \<forall>q \<in> set xs. fst q = fst p \<longrightarrow> g (snd q)) (instances (st e))\<rparr>"
proof (induction xs arbitrary: e)
  case (Cons x xs)
  obtain k i where x: "x = (k, i)" by fastforce
  have filt: "filter (\<lambda>p. fst p \<noteq> k \<and> Q p) ys = filter Q (AList.delete k ys)" for Q and ys :: "(string \<times> inst) list"
    by (auto simp: AList.delete_eq split_beta intro!: filter_cong)
  show ?case
  proof (cases "g i")
    case True then show ?thesis by (simp add: Cons.IH assms x)
  next
    case False
    then have "filter (\<lambda>p. \<forall>q\<in>set (x # xs). fst q = fst p \<longrightarrow> g (snd q)) ys =
        filter (\<lambda>p. \<forall>q\<in>set xs. fst q = fst p \<longrightarrow> g (snd q)) (AList.delete k ys)" for ys :: "(string \<times> inst) list"
      unfolding x filt [symmetric] by (intro filter_cong) auto
    then show ?thesis using False by (simp add: Cons.IH assms x)
  qed
qed simp


lemma prune_store:
  assumes "distinct (map fst (instances (st e)))"
  shows "st (prune old t e) = (st e)\<lparr>instances := filter (\<lambda>p. kept (rules e) (snd p)) (instances (st e)),
     mute_rules := filter (\<lambda>(rid, u). find_rule (rules e) rid \<noteq> None) (mute_rules (st e))\<rparr>"
    and "rules (prune old t e) = rules e"
proof -
  let ?f = "\<lambda>(k, i) e'. case find_rule (rules e') (i_rule i) of
             Some r \<Rightarrow> if r_off r then end_inst k i r t e' else e'
           | None \<Rightarrow> end_inst k i (case find_rule old (i_rule i) of Some r \<Rightarrow> r | None \<Rightarrow> bare_rule (i_severity i)) t e'"
  let ?g = "\<lambda>(k, i) e'. if rules e' = rules e then ?f (k, i) e' else if kept (rules e) i then e' else del_inst k e'"
  have rules: "rules (fold ?f xs e') = rules e'" for xs e'
    by (induction xs arbitrary: e') (auto split: option.split)
  have fg: "fold ?f xs e' = fold ?g xs e'" if "rules e' = rules e" for xs e'
    using that by (induction xs arbitrary: e') (auto split: option.split)
  have "st (fold ?g xs e) = (st e)\<lparr>instances :=
      filter (\<lambda>p. \<forall>q\<in>set xs. fst q = fst p \<longrightarrow> kept (rules e) (snd q)) (instances (st e))\<rparr>" for xs
    by (rule fold_delete_keys) (auto simp: kept_def split: option.split)
  moreover have "filter (\<lambda>p. \<forall>q\<in>set (instances (st e)). fst q = fst p \<longrightarrow> kept (rules e) (snd q)) (instances (st e))
      = filter (\<lambda>p. kept (rules e) (snd p)) (instances (st e))"
    using assms by (intro filter_cong) (auto dest: eq_key_imp_eq_value)
  ultimately have "st (fold ?f (instances (st e)) e) =
      (st e)\<lparr>instances := filter (\<lambda>p. kept (rules e) (snd p)) (instances (st e))\<rparr>"
    by (simp only: fg)
  with rules show "st (prune old t e) = (st e)\<lparr>instances := filter (\<lambda>p. kept (rules e) (snd p)) (instances (st e)),
     mute_rules := filter (\<lambda>(rid, u). find_rule (rules e) rid \<noteq> None) (mute_rules (st e))\<rparr>"
    by (simp add: prune_def Let_def)
  show "rules (prune old t e) = rules e" using rules by (simp add: prune_def Let_def)
qed

lemma known_prune:
  assumes "distinct (map fst (instances (st e)))"
  shows "known (rules e) (prune old t e)"
  using assms
  by (auto simp: known_def prune_store kept_def distinct_map_filter map_of_eq_Some_iff split: option.splits)

lemma forget_one:
  assumes e: "good S e" "known rs e" and look: "map_of (instances (st e)) k = Some i"
  shows "good S (forget_one nid t (k, i) e)" "known rs (forget_one nid t (k, i) e)"
    and "k' \<noteq> k \<Longrightarrow> map_of (instances (st (forget_one nid t (k, i) e))) k' = map_of (instances (st e)) k'"
proof -
  obtain r where r: "find_rule (rules e) (i_rule i) = Some r"
    using known_find [OF e(2) look] known_rules [OF e(2)] by auto
  have "good S (del_inst k e)" if "i_state i \<noteq> Firing"
    using that e look by (intro good_del) (auto simp: in_told_set good_def wf_inst_def dest: wf_instD)
  then show "good S (forget_one nid t (k, i) e)"
    using r e(1) good_end [OF e(1) look] by (simp add: forget_one_def)
  show "known rs (forget_one nid t (k, i) e)" using r e(2) by (simp add: forget_one_def known_prims)
  show "k' \<noteq> k \<Longrightarrow> map_of (instances (st (forget_one nid t (k, i) e))) k' = map_of (instances (st e)) k'"
    by (simp add: forget_one_def split: option.split)
qed

lemma good_known_forget_insts:
  assumes "good S e" "known rs e"
  shows "good S (forget_insts nid t e) \<and> known rs (forget_insts nid t e)"
  unfolding forget_insts_def
  by (rule fold_entries [where P = "\<lambda>e. good S e \<and> known rs e"])
    (use assms good_distinct [OF assms(1)] in \<open>auto simp: forget_one\<close>)

section \<open>Runs\<close>

datatype alert_op =
    Evaluate node jsval ms
  | Check "node list" ms
  | Mute mute_target rat ms
  | SetRules "rule list" ms
  | Forget string ms
  | LogNote event
  | Restart "rule list" ms

text \<open>A restart reads the two files; what was told stays told.\<close>

definition restart :: "rule list \<Rightarrow> ms \<Rightarrow> engine \<Rightarrow> engine" where
  "restart rs t e = (let e' = createAlerts rs (disk e) (logfile e) t in e'\<lparr>outbox := outbox e @ outbox e'\<rparr>)"

fun alert_step :: "engine \<Rightarrow> alert_op \<Rightarrow> engine" where
  "alert_step e (Evaluate n v t) = evaluate n v t e"
| "alert_step e (Check ns t) = check ns t e"
| "alert_step e (Mute tg u t) = (case mute_op (Some tg) u t e of Some e' \<Rightarrow> e' | None \<Rightarrow> e)"
| "alert_step e (SetRules rs t) = setRules rs t e"
| "alert_step e (Forget nid t) = forget nid t e"
| "alert_step e (LogNote ev) = log_event ev e"
| "alert_step e (Restart rs t) = restart rs t e"

definition alerts_inv :: "string set \<Rightarrow> engine \<Rightarrow> bool" where
  "alerts_inv S e \<longleftrightarrow> good S e \<and> known (rules e) e \<and> disk e = strip (st e)"


lemma strip_instances:
  "map_of (instances (strip s)) k = map_option (\<lambda>i. i\<lparr>i_value := None\<rparr>) (map_of (instances s) k)"
  "map fst (instances (strip s)) = map fst (instances s)"
  by (simp_all add: strip_def map_of_map split_beta comp_def)

lemma strip_strip [simp]: "strip (strip s) = strip s"
  by (simp add: strip_def split_beta comp_def)

lemma told_set_strip [simp]: "told_set (strip s) = told_set s"
  by (auto simp: told_set_def strip_instances)

lemma wf_store_strip: "wf_store s \<Longrightarrow> wf_store (strip s)"
  by (auto simp: wf_store_def strip_instances wf_inst_def)

lemma good_createAlerts:
  assumes "wf_store f"
  shows "good (told_set f) (createAlerts rs f lg t)" "known rs (createAlerts rs f lg t)"
    "rules (createAlerts rs f lg t) = rs"
proof -
  let ?e = "\<lparr>st = f, rules = rs, events = slice_last LOG_MAX lg, disk = f, logfile = lg, outbox = []\<rparr>"
  have d: "distinct (map fst (instances (st ?e)))" using assms by (simp add: wf_store_def)
  have "good (told_set f) ?e" using assms by (simp add: good_def)
  then show "good (told_set f) (createAlerts rs f lg t)" by (simp add: createAlerts_def good_prune_loop)
  show "known rs (createAlerts rs f lg t)" using known_prune [OF d] by (simp add: createAlerts_def)
  show "rules (createAlerts rs f lg t) = rs" using prune_store(2) [OF d] by (simp add: createAlerts_def)
qed

lemma disk_createAlerts [simp]: "disk (createAlerts rs f lg t) = strip (st (createAlerts rs f lg t))"
  by (simp add: createAlerts_def)

lemma good_restart:
  assumes "good S e" "disk e = strip (st e)"
  shows "good S (restart rs t e)" "known rs (restart rs t e)"
proof -
  have wf: "wf_store (disk e)" using assms by (simp add: good_def wf_store_strip)
  note new = good_createAlerts [OF wf, of rs "logfile e" t]
  from new(1) assms show "good S (restart rs t e)"
    by (simp add: restart_def Let_def good_def protocol_append)
  from new(2) show "known rs (restart rs t e)" by (simp add: restart_def Let_def known_def)
qed

lemma synced [simp]:
  "disk (evaluate n v t e) = strip (st (evaluate n v t e))"
  "disk (check ns t e) = strip (st (check ns t e))"
  "disk (setRules rs t e) = strip (st (setRules rs t e))"
  "disk (forget nid t e) = strip (st (forget nid t e))"
  "disk (restart rs t e) = strip (st (restart rs t e))"
  by (simp_all add: evaluate_def check_def setRules_def forget_def restart_def Let_def split_beta)

lemma alerts_invI:
  "good S e \<Longrightarrow> known rs e \<Longrightarrow> disk e = strip (st e) \<Longrightarrow> alerts_inv S e"
  by (simp add: alerts_inv_def known_rules)

lemma alerts_inv_setRules:
  assumes "good S e"
  shows "alerts_inv S (setRules rs t e)"
proof (rule alerts_invI [where rs = rs])
  have "good S (e\<lparr>rules := rs\<rparr>)" using assms by (simp add: good_def)
  then show "good S (setRules rs t e)" by (simp add: setRules_def good_prune_loop)
  show "known rs (setRules rs t e)"
    using known_prune [of "e\<lparr>rules := rs\<rparr>"] good_distinct [OF assms] by (simp add: setRules_def)
qed simp

lemma alerts_inv_forget:
  assumes "good S e" "known rs e"
  shows "alerts_inv S (forget nid t e)"
  using good_known_forget_insts [OF assms, of nid t]
  by (intro alerts_invI [where rs = rs])
    (simp_all add: forget_def Let_def good_st_cong known_st_cong)

lemma alerts_inv_mute:
  assumes "good S e" "known rs e" "mute_op (Some tg) u t e = Some e'"
  shows "alerts_inv S e'"
  using assms
  by (cases tg) (auto simp: mute_op_def intro!: alerts_invI [where rs = rs] good_st_cong known_st_cong)

lemma alerts_inv_step: "alerts_inv S e \<Longrightarrow> alerts_inv S (alert_step e a)"
proof -
  assume inv: "alerts_inv S e"
  then have g: "good S e" and k: "known (rules e) e" and d: "disk e = strip (st e)"
    by (simp_all add: alerts_inv_def)
  show ?thesis
  proof (cases a)
    case (Evaluate n v t)
    show ?thesis unfolding Evaluate alert_step.simps
      by (rule alerts_invI [OF good_evaluate [OF g] known_evaluate [OF k] synced(1)])
  next
    case (Check ns t)
    show ?thesis unfolding Check alert_step.simps
      by (rule alerts_invI [OF good_check [OF g] known_check [OF k] synced(2)])
  next
    case (Mute tg u t)
    then show ?thesis using alerts_inv_mute [OF g k] inv by (simp split: option.split)
  next
    case (LogNote ev)
    then show ?thesis using g k d by (simp add: alerts_inv_def good_def known_def)
  next
    case (Restart rs t)
    show ?thesis unfolding Restart alert_step.simps
      by (rule alerts_invI [OF good_restart [OF g d] synced(5)])
  qed (use alerts_inv_setRules [OF g] alerts_inv_forget [OF g k] in simp_all)
qed

interpretation alerts: machine alert_step "alerts_inv S" for S
  by unfold_locales (rule alerts_inv_step)


section \<open>Properties of the three primitives, lifted\<close>

text \<open>
  Everything the engine does to its instances and events within one operation (at one time
  \<open>t\<close>) is \<open>put_inst\<close>, \<open>del_inst\<close> and \<open>tell\<close>; a property the three keep is kept by each operation.
\<close>

locale engine_prop =
  fixes P :: "engine \<Rightarrow> bool"
    and t :: ms
  assumes P_put: "P e \<Longrightarrow> P (put_inst k i e)"
    and P_del: "P e \<Longrightarrow> P (del_inst k e)"
    and P_tell: "P e \<Longrightarrow> P (snd (tell kd i r t d e))"
    and P_running: "P e \<Longrightarrow> P (e\<lparr>st := (st e)\<lparr>running := x\<rparr>\<rparr>)"
    and P_save: "P e \<Longrightarrow> P (save e)"
begin

lemmas P_prims = P_put P_del P_tell

lemma P_retell: "P e \<Longrightarrow> P (retell k i r t e)"
  by (simp add: retell_def P_prims)

lemma P_fire: "P e \<Longrightarrow> P (fire k i r t e)"
  by (simp add: fire_def Let_def split_beta P_prims del: put_inst_simps)

lemma P_judge_inst: "P e \<Longrightarrow> P (judge_inst k i r n v t e)"
  by (simp add: judge_inst_def Let_def P_prims P_retell P_fire del: put_inst_simps)

lemma P_judge: "P e \<Longrightarrow> P (judge r n sub v t e)"
  by (simp add: judge_def Let_def P_judge_inst split: option.split)

lemma P_end_inst: "P e \<Longrightarrow> P (end_inst k i r t e)"
  by (simp add: end_inst_def P_prims)

lemma P_fold: "(\<And>x e. P e \<Longrightarrow> P (f x e)) \<Longrightarrow> P e \<Longrightarrow> P (fold f xs e)"
  by (induction xs arbitrary: e) auto

lemma P_endAll: "P e \<Longrightarrow> P (endAll r n t e)"
  unfolding endAll_def by (rule P_fold) (auto simp: P_end_inst)

lemma P_judge_values: "P e \<Longrightarrow> P (judge_values r n vals t e)"
  unfolding judge_values_def by (rule P_fold) (auto simp: P_judge)

lemma P_judge_gone: "P e \<Longrightarrow> P (judge_gone r n seen t e)"
  unfolding judge_gone_def by (rule P_fold) (auto simp: P_judge)

lemma P_eval_rule: "P e \<Longrightarrow> P (eval_rule n v run t r e)"
  by (simp add: eval_rule_def Let_def P_endAll P_judge P_judge_values P_judge_gone split: option.split)

lemma P_note: "P e \<Longrightarrow> P (e\<lparr>st := snd (note_running n v (st e))\<rparr>)"
  using P_running [of e] P_running [of e "running (st e)"]
  by (simp add: note_running_def Let_def split: option.split list.split)

lemma P_evaluate: "P e \<Longrightarrow> P (evaluate n v t e)"
  by (simp add: evaluate_def split_beta P_save P_fold P_eval_rule P_note)

lemma P_check_others: "P e \<Longrightarrow> P (check_others n stale t e)"
  unfolding check_others_def
  by (rule P_fold) (auto simp: P_end_inst P_retell split: option.split)

lemma P_check_node: "P e \<Longrightarrow> P (check_node t n e)"
  by (simp add: check_node_def Let_def P_check_others P_judge P_endAll split: option.split)

lemma P_check: "P e \<Longrightarrow> P (check ns t e)"
  by (simp add: check_def P_save P_fold P_check_node)

lemma P_forget_insts: "P e \<Longrightarrow> P (forget_insts nid t e)"
  unfolding forget_insts_def forget_one_def
  by (rule P_fold) (auto simp: P_prims split: option.split simp del: del_inst_simps)

lemma P_prune_loop:
  assumes "P e" and "\<And>e m. P e \<Longrightarrow> P (e\<lparr>st := (st e)\<lparr>mute_rules := m\<rparr>\<rparr>)"
  shows "P (prune old t e)"
  unfolding prune_def Let_def
  by (intro assms(2) P_fold) (auto simp: P_end_inst assms(1) split: option.split)

end

text \<open>
  \<open>hushed\<close>: since \<open>e0\<close> the mutes did not change, and what was told of a muted rule or node is
  only the end of alerts.
\<close>

definition hushed :: "engine \<Rightarrow> ms \<Rightarrow> engine \<Rightarrow> bool" where
  "hushed e0 t e \<longleftrightarrow> mute_rules (st e) = mute_rules (st e0) \<and> mute_nodes (st e) = mute_nodes (st e0) \<and>
     (\<exists>new. outbox e = outbox e0 @ new \<and>
        (\<forall>ev \<in> set new. e_kind ev \<noteq> EResolved \<longrightarrow>
           \<not> live_mute (mute_rules (st e0)) (e_rule ev) t \<and> \<not> live_mute (mute_nodes (st e0)) (e_node ev) t))"

lemma hushed_refl: "hushed e t e"
  by (simp add: hushed_def)

lemma quiet_not_muted: "quiet s i r t = [] \<Longrightarrow> \<not> muted s i t"
  by (auto simp: quiet_def split: if_splits)

lemma hushed_tell:
  assumes "hushed e0 t e"
  shows "hushed e0 t (snd (tell kd i r t d e))"
proof (cases "why_quiet (st e) kd i r t = []")
  case True
  have "\<not> muted (st e) i t" if "kd \<noteq> EResolved" using True that by (cases kd) (auto dest: quiet_not_muted)
  then have "kd \<noteq> EResolved \<longrightarrow> \<not> live_mute (mute_rules (st e0)) (e_rule (mk_event kd i r t d)) t \<and>
      \<not> live_mute (mute_nodes (st e0)) (e_node (mk_event kd i r t d)) t"
    using assms by (auto simp: hushed_def muted_def mk_event_def)
  with assms True show ?thesis by (fastforce simp: hushed_def tell_outbox)
qed (use assms in \<open>simp add: hushed_def tell_outbox\<close>)

interpretation hush: engine_prop "hushed e0 t" t for e0 t
  by unfold_locales (simp_all add: hushed_tell, simp_all add: hushed_def)

text \<open>The log in memory stays short.\<close>

interpretation shortlog: engine_prop "\<lambda>e. length (events e) \<le> LOG_MAX + 100" t for t
  by unfold_locales (simp_all add: tell_def log_event_def Let_def)

section \<open>What the theorems ask of rules and names\<close>

text \<open>A value that starts an alert does not end it: the clear value is on the near side.\<close>

definition steady :: "rule \<Rightarrow> bool" where
  "steady r \<longleftrightarrow> (\<forall>q. holds r (Some q) \<longrightarrow> \<not> over r (Some q))"

text \<open>The rule \<^verbatim>\<open>check\<close> judges a silent node by, as the default rules have it.\<close>

definition offline_rule :: "rule \<Rightarrow> bool" where
  "offline_rule r \<longleftrightarrow> r_id r = ''offline'' \<and> r_metric r = ''offline'' \<and> r_op r = Ge \<and> r_threshold r = 1 \<and>
     r_for r = 0 \<and> r_clear r = None"

text \<open>No bar in a rule or node id: the parts of an instance's key can be told apart.\<close>

definition barfree :: "string \<Rightarrow> bool" where
  "barfree s \<longleftrightarrow> CHR ''|'' \<notin> set s"

end
