(* ===== verification/Alert_Theorems.thy ===== *)
theory Alert_Theorems
  imports Alerts
begin

text \<open>
  The properties of the alert engine of \<^theory_text>\<open>Alerts\<close>: what is told and in which order, mutes and
  the inhibition by an offline node, how long a condition must hold, the offline rule, the
  isolation of nodes from each other, the badges, the log and what a restart keeps.
\<close>

definition empty_store :: store where
  "empty_store = \<lparr>instances = [], running = [], mute_rules = [], mute_nodes = []\<rparr>"

lemma alerts_inv_fresh: "alerts_inv {} (createAlerts rs empty_store [] t)"
  using good_createAlerts [of empty_store rs "[]" t]
  by (intro alerts_invI [where rs = rs]) (simp_all add: empty_store_def wf_store_def told_set_def)

text \<open>
  C1. Whatever the hub does with the engine (pushes, the minute's checks, mutes, new rules,
  revoked nodes, restarts), the events told of each alert are rounds of one start, repeats and
  one end: no start is told twice, no repeat or end without a start told before, and the alerts
  that were told and have not ended are exactly the instances marked as notified.
\<close>

theorem alerts_told_protocol:
  "protocol {} (outbox (foldl alert_step (createAlerts rs empty_store [] t) ops)) =
     Some (told_set (st (foldl alert_step (createAlerts rs empty_store [] t) ops)))"
  using alerts.inv_run [OF alerts_inv_fresh] by (auto simp: alerts_inv_def good_def)

text \<open>
  While a rule or a node is muted, a push tells nothing of it but the end of an alert
  whose start was told: no start and no repeat.
\<close>

theorem muted_push_only_ends:
  "\<exists>new. outbox (evaluate n v t e) = outbox e @ new \<and>
     (\<forall>ev \<in> set new. e_kind ev = EResolved \<or>
        (\<not> live_mute (mute_rules (st e)) (e_rule ev) t \<and> \<not> live_mute (mute_nodes (st e)) (e_node ev) t))"
  using hush.P_evaluate [OF hushed_refl, of e t n v] by (fastforce simp: hushed_def)

definition demo_node :: node where
  "demo_node = \<lparr>n_id = ''abcdefghijkl'', n_name = ''nas'', n_tags = [''home''], n_lastPush = 1000, n_interval = Some 60\<rparr>"

definition demo_view :: "rat \<Rightarrow> jsval" where
  "demo_view q = JObj [(''cpu'', JObj [(''usage'', JNum (Fin q))])]"

definition demo_engine :: engine where
  "demo_engine = createAlerts [mk_rule ''offline'' ''offline'' 1 0 Critical None, mk_rule ''cpu'' ''cpu'' 95 0 Warning None]
     \<lparr>instances = [], running = [], mute_rules = [(''cpu'', 5000)], mute_nodes = []\<rparr> [] 0"

section \<open>Keys\<close>

lemma barfree_split:
  assumes "barfree a" "barfree a'" "a @ CHR ''|'' # x = a' @ CHR ''|'' # y"
  shows "a = a' \<and> x = y"
proof -
  have "takeWhile (\<lambda>c. c \<noteq> CHR ''|'') (b @ CHR ''|'' # z) = b" if "barfree b" for b z
    using that by (subst takeWhile_append2) (auto simp: barfree_def)
  with assms have "a = a'" by metis
  with assms(3) show ?thesis by simp
qed

lemma inst_key_inj:
  assumes "barfree a" "barfree a'" "barfree b" "barfree b'"
  shows "inst_key a b c = inst_key a' b' c' \<longleftrightarrow> a = a' \<and> b = b' \<and> c = c'"
  using barfree_split [OF assms(1,2), of "b @ ''|'' @ c" "b' @ ''|'' @ c'"]
    barfree_split [OF assms(3,4), of c c']
  by (auto simp: inst_key_def)

text \<open>No rule id and no node id has a bar: node ids are base 32, rule ids letters, digits and \<^verbatim>\<open>_\<close>.\<close>

definition clean_store :: "store \<Rightarrow> bool" where
  "clean_store s \<longleftrightarrow> wf_store s \<and>
     (\<forall>k i. map_of (instances s) k = Some i \<longrightarrow> barfree (i_rule i) \<and> barfree (i_node i))"

lemma clean_lookup:
  assumes "clean_store s" "barfree rid" "barfree nid" "map_of (instances s) (inst_key rid nid sub) = Some i"
  shows "i_rule i = rid" "i_node i = nid" "i_sub i = sub"
  using assms wf_instD [of s "inst_key rid nid sub" i] inst_key_inj
  by (auto simp: clean_store_def wf_inst_def)

lemma clean_entry:
  "clean_store s \<Longrightarrow> (k, i) \<in> set (instances s) \<Longrightarrow> k = inst_key (i_rule i) (i_node i) (i_sub i)"
  using wf_instD [of s k i] by (auto simp: clean_store_def wf_store_def wf_inst_def)

section \<open>Inhibition\<close>

lemma retell_told:
  "\<exists>new. outbox (retell k i r t e) = outbox e @ new \<and>
     (\<forall>ev \<in> set new. e_kind ev \<noteq> EResolved \<and> quiet (st e) i r t = [])"
  by (auto simp: retell_def tell_outbox)

lemma fire_silent:
  assumes "\<And>j s. i_node j = i_node i \<Longrightarrow> offline s (i_node i) \<Longrightarrow> quiet s j r t \<noteq> []"
    and "k \<noteq> inst_key ''offline'' (i_node i) []" "offline (st e) (i_node i)"
  shows "outbox (fire k i r t e) = outbox e"
  using assms(2,3) by (simp add: fire_def Let_def split_beta tell_outbox assms(1) offline_def)

text \<open>What judging a rule other than the offline one tells while the node is offline.\<close>

lemma judge_inst_inhibited:
  assumes "k \<noteq> inst_key ''offline'' (i_node i) []" "offline (st e) (i_node i)" "r_id r \<noteq> ''offline''"
  shows "\<exists>new. outbox (judge_inst k i r n v t e) = outbox e @ new \<and> (\<forall>ev \<in> set new. e_kind ev = EResolved)"
proof -
  have q: "quiet s j r t \<noteq> []" if "offline s (i_node j)" for s j
    using that assms(3) by (simp add: quiet_def)
  let ?i = "i\<lparr>i_value := v, i_nodeName := n_name n\<rparr>"
  have off: "offline (st (put_inst k j e)) (i_node i)" for j
    using assms(1,2) by (simp add: offline_def)
  have "outbox (retell k ?i r t (put_inst k ?i e)) = outbox e"
    using retell_told [of k ?i r t "put_inst k ?i e"] q [of "st (put_inst k ?i e)" ?i] off by auto
  moreover have "outbox (fire k j r t (put_inst k ?i e)) = outbox e" if "i_node j = i_node i" for j
    using that off q assms(1) by (subst fire_silent) auto
  ultimately show ?thesis
    by (simp add: judge_inst_def Let_def tell_outbox del: put_inst_simps(1))
qed

text \<open>
  While a node's offline alert fires, no other alert of the node is told to start or to
  repeat: judging any other rule for it tells at most the end of an alert told before.
\<close>

theorem offline_inhibits:
  assumes "clean_store (st e)" "barfree (r_id r)" "barfree (n_id n)"
    and "r_id r \<noteq> ''offline''" "offline (st e) (n_id n)"
  shows "\<exists>new. outbox (judge r n sub v t e) = outbox e @ new \<and> (\<forall>ev \<in> set new. e_kind ev = EResolved)"
proof -
  let ?k = "inst_key (r_id r) (n_id n) sub"
  have k: "?k \<noteq> inst_key ''offline'' (n_id n) []"
    using assms by (subst inst_key_inj) (auto simp: barfree_def)
  show ?thesis
  proof (cases "map_of (instances (st e)) ?k")
    case None
    then show ?thesis using judge_inst_inhibited [of ?k "new_inst r n sub v t" e r n v t] k assms
      by (simp add: judge_def Let_def new_inst_def)
  next
    case (Some i)
    with clean_lookup [OF assms(1-3)] have "i_node i = n_id n" by blast
    with Some judge_inst_inhibited [of ?k i e r n v t] k assms show ?thesis by (simp add: judge_def Let_def)
  qed
qed

definition demo_offline :: engine where
  "demo_offline = check [demo_node] 700000 demo_engine"

theorem offline_inhibits_witness:
  "offline (st demo_offline) (n_id demo_node) \<and>
   (\<exists>new. outbox (judge (mk_rule ''cpu'' ''cpu'' 95 0 Warning None) demo_node [] (Some 99) 700000 demo_offline)
       = outbox demo_offline @ new \<and> (\<forall>ev \<in> set new. e_kind ev = EResolved))"
proof -
  have off: "offline (st demo_offline) (n_id demo_node)" by code_simp
  have "list_all (\<lambda>(k, i). wf_inst k i \<and> barfree (i_rule i) \<and> barfree (i_node i)) (instances (st demo_offline)) \<and>
      distinct (map fst (instances (st demo_offline)))" by code_simp
  then have "clean_store (st demo_offline)"
    by (fastforce simp: clean_store_def wf_store_def list_all_iff dest: map_of_SomeD)
  with off show ?thesis
    by (intro conjI offline_inhibits) (auto simp: barfree_def mk_rule_def demo_node_def)
qed


section \<open>How long a condition must hold\<close>

definition judge_all :: "rule \<Rightarrow> node \<Rightarrow> string \<Rightarrow> (ms \<times> rat) list \<Rightarrow> engine \<Rightarrow> engine" where
  "judge_all r n sub tvs e = foldl (\<lambda>e (t, q). judge r n sub (Some q) t e) e tvs"

lemma inst_after_fire:
  "\<exists>i'. map_of (instances (st (fire k i r t e))) k = Some i' \<and> i_state i' = Firing \<and> i_since i' = i_since i"
  by (simp add: fire_def Let_def split_beta)

lemma inst_after_retell:
  assumes "map_of (instances (st e)) k = Some i"
  shows "\<exists>i'. map_of (instances (st (retell k i r t e))) k = Some i' \<and> i_state i' = i_state i \<and> i_since i' = i_since i"
  using assms by (simp add: retell_def)

lemma judge_inst_holding:
  assumes "holds r (Some q)" "steady r" "i_state i \<noteq> Okay"
  shows "\<exists>i'. map_of (instances (st (judge_inst k i r n (Some q) t e))) k = Some i' \<and> i_since i' = i_since i \<and>
     i_state i' = (if i_state i = Firing \<or> t - i_since i \<ge> r_for r then Firing else Pending)"
proof -
  let ?i = "i\<lparr>i_value := Some q, i_nodeName := n_name n\<rparr>"
  have "\<not> over r (Some q)" using assms by (simp add: steady_def)
  moreover have "i_state i = Firing \<or> i_state i = Pending" using assms(3) by (cases "i_state i") auto
  ultimately show ?thesis
    using inst_after_retell [of "put_inst k ?i e" k ?i r t] inst_after_fire [of k ?i r t "put_inst k ?i e"] assms(1)
    by (auto simp: judge_inst_def Let_def)
qed

lemma judge_first_holding:
  assumes "holds r (Some q)" "map_of (instances (st e)) (inst_key (r_id r) (n_id n) sub) = None"
  shows "\<exists>i'. map_of (instances (st (judge r n sub (Some q) t e))) (inst_key (r_id r) (n_id n) sub) = Some i' \<and>
     i_since i' = t \<and> i_state i' = (if r_for r \<le> 0 then Firing else Pending)"
  using assms inst_after_fire
  by (fastforce simp: judge_def judge_inst_def new_inst_def Let_def)

text \<open>
  C13. A condition that starts to hold and keeps holding: the alert's time runs from its first
  judgement, and the alert fires exactly when one of the judgements comes the rule's time after
  that; before, it is pending.
\<close>

theorem fires_after_hold_time:
  assumes "map_of (instances (st e)) (inst_key (r_id r) (n_id n) sub) = None"
    and "steady r" "\<forall>(t, q) \<in> set ((t0, q0) # tqs). holds r (Some q)"
  shows "\<exists>i. map_of (instances (st (judge_all r n sub ((t0, q0) # tqs) e))) (inst_key (r_id r) (n_id n) sub) = Some i \<and>
     i_since i = t0 \<and>
     i_state i = (if \<exists>t \<in> set (map fst ((t0, q0) # tqs)). t - t0 \<ge> r_for r then Firing else Pending)"
  using assms(3)
proof (induction tqs rule: rev_induct)
  case Nil
  then show ?case using judge_first_holding [OF _ assms(1)] by (fastforce simp: judge_all_def)
next
  case (snoc tq tqs)
  obtain t q where tq: "tq = (t, q)" by fastforce
  let ?e = "judge_all r n sub ((t0, q0) # tqs) e"
  obtain i where i: "map_of (instances (st ?e)) (inst_key (r_id r) (n_id n) sub) = Some i" "i_since i = t0"
    "i_state i = (if \<exists>t \<in> set (map fst ((t0, q0) # tqs)). t - t0 \<ge> r_for r then Firing else Pending)"
    using snoc by auto
  have "judge_all r n sub ((t0, q0) # tqs @ [tq]) e = judge_inst (inst_key (r_id r) (n_id n) sub) i r n (Some q) t ?e"
    using i(1) by (simp add: judge_all_def judge_def Let_def tq)
  moreover have "holds r (Some q)" using snoc.prems tq by simp
  then obtain i' where i': "map_of (instances (st (judge_inst (inst_key (r_id r) (n_id n) sub) i r n (Some q) t ?e)))
      (inst_key (r_id r) (n_id n) sub) = Some i'" "i_since i' = i_since i"
    "i_state i' = (if i_state i = Firing \<or> t - i_since i \<ge> r_for r then Firing else Pending)"
    using judge_inst_holding [OF _ assms(2), of q i _ n t ?e] i(3) by (metis istate.distinct(2,4))
  ultimately show ?case using i(2,3) by (auto simp: tq)
qed

theorem fires_after_hold_time_witness:
  "\<exists>i. map_of (instances (st (judge_all (mk_rule ''cpu'' ''cpu'' 95 15 Warning None) demo_node []
       [(1000, 96), (61000, 99), (901000, 95)] demo_engine))) (inst_key ''cpu'' (n_id demo_node) []) = Some i \<and>
     i_since i = 1000 \<and> i_state i = Firing"
proof -
  let ?r = "mk_rule ''cpu'' ''cpu'' 95 15 Warning None"
  have none: "map_of (instances (st demo_engine)) (inst_key (r_id ?r) (n_id demo_node) []) = None" by code_simp
  have steady: "steady ?r" by (simp add: steady_def over_def mk_rule_def)
  have hold: "\<forall>(t, q) \<in> set [(1000, 96), (61000, 99), (901000, 95)]. holds ?r (Some q)"
    by (simp add: holds_def mk_rule_def)
  show ?thesis using fires_after_hold_time [OF none steady hold] by (simp add: mk_rule_def MINUTE_def)
qed

section \<open>The offline rule\<close>

lemma judge_offline:
  assumes "offline_rule r"
  shows "offline (st (judge r n [] (Some q) t e)) (n_id n) \<longleftrightarrow> q \<ge> 1 \<and>
     (\<forall>i. map_of (instances (st e)) (inst_key ''offline'' (n_id n) []) = Some i \<longrightarrow> i_state i \<noteq> Pending \<or> t \<ge> i_since i)"
proof -
  let ?k = "inst_key ''offline'' (n_id n) []"
  have r: "r_id r = ''offline''" "holds r (Some q) \<longleftrightarrow> q \<ge> 1" "over r (Some q) \<longleftrightarrow> \<not> q \<ge> 1" "r_for r = 0"
    using assms by (auto simp: offline_rule_def holds_def over_def)
  have "offline (st (judge_inst ?k i r n (Some q) t e)) (n_id n) \<longleftrightarrow> q \<ge> 1 \<and> (i_state i \<noteq> Pending \<or> t \<ge> i_since i)" for i
  proof -
    let ?i = "i\<lparr>i_value := Some q, i_nodeName := n_name n\<rparr>"
    show ?thesis
      using r inst_after_retell [of "put_inst ?k ?i e" ?k ?i r t]
        inst_after_fire [of ?k "?i\<lparr>i_state := Pending, i_since := t\<rparr>" r t "put_inst ?k ?i e"]
        inst_after_fire [of ?k ?i r t "put_inst ?k ?i e"]
      by (cases "i_state i") (auto simp: judge_inst_def Let_def offline_def)
  qed
  note * = this
  show ?thesis
  proof (cases "map_of (instances (st e)) ?k")
    case None
    then show ?thesis using * [of "new_inst r n [] (Some q) t"] r
      by (simp add: judge_def Let_def new_inst_def) (simp add: offline_def)
  next
    case (Some i)
    then show ?thesis using * [of i] r by (simp add: judge_def Let_def)
  qed
qed

text \<open>The labels of the instances, as the operations keep them.\<close>

definition barfree_store :: "store \<Rightarrow> bool" where
  "barfree_store s \<longleftrightarrow> (\<forall>k i. map_of (instances s) k = Some i \<longrightarrow> barfree (i_rule i) \<and> barfree (i_node i))"

lemma clean_iff: "clean_store s \<longleftrightarrow> wf_store s \<and> barfree_store s"
  by (simp add: clean_store_def barfree_store_def)

lemma barfree_prims:
  "barfree_store (st e) \<Longrightarrow> barfree (i_rule i) \<Longrightarrow> barfree (i_node i) \<Longrightarrow> barfree_store (st (put_inst k i e))"
  "barfree_store (st e) \<Longrightarrow> barfree_store (st (del_inst k e))"
  "barfree_store (st e) \<Longrightarrow> barfree_store (st (snd (tell kd i r t d e)))"
  by (auto simp: barfree_store_def split: if_splits)

lemma barfree_judge_inst:
  assumes "barfree_store (st e)" "barfree (i_rule i)" "barfree (i_node i)"
  shows "barfree_store (st (judge_inst k i r n v t e))"
proof -
  have retell: "barfree_store (st (retell k j r t e'))" if "barfree_store (st e')" "barfree (i_rule j)" "barfree (i_node j)" for j e'
    using that by (simp add: retell_def barfree_prims del: put_inst_simps)
  have fire: "barfree_store (st (fire k j r t e'))" if "barfree_store (st e')" "barfree (i_rule j)" "barfree (i_node j)" for j e'
    using that by (simp add: fire_def Let_def split_beta barfree_prims del: put_inst_simps)
  show ?thesis using assms
    by (simp add: judge_inst_def Let_def barfree_prims retell fire del: put_inst_simps del_inst_simps)
qed

lemma clean_judge:
  assumes "clean_store (st e)" "barfree (r_id r)" "barfree (n_id n)"
  shows "clean_store (st (judge r n sub v t e))"
proof -
  have "barfree_store (st (judge r n sub v t e))"
    using assms barfree_judge_inst [of e]
    by (auto simp: judge_def Let_def clean_store_def new_inst_def barfree_store_def [of "st e"] split: option.split)
  moreover have "good (told_set (st (e\<lparr>outbox := []\<rparr>))) (e\<lparr>outbox := []\<rparr>)"
    using assms by (simp add: good_def clean_store_def)
  then have "wf_store (st (judge r n sub v t (e\<lparr>outbox := []\<rparr>)))" using good_judge by (fastforce simp: good_def)
  moreover have "st (judge r n sub v t (e\<lparr>outbox := []\<rparr>)) = st (judge r n sub v t e)"
    by (simp add: judge_def judge_inst_def retell_def fire_def Let_def split_beta split: option.split)
  ultimately show ?thesis by (simp add: clean_iff)
qed

lemma check_others_offline:
  assumes "clean_store (st e)" "barfree (n_id n)"
  shows "offline (st (check_others n stale t e)) (n_id n) = offline (st e) (n_id n)"
proof -
  let ?k = "inst_key ''offline'' (n_id n) []"
  have "map_of (instances (st (check_others n stale t e))) ?k = map_of (instances (st e)) ?k"
    unfolding check_others_def
  proof (rule fold_invariant [where P = "\<lambda>e'. map_of (instances (st e')) ?k = map_of (instances (st e)) ?k"
        and Q = "\<lambda>(k, i). k = ?k \<longrightarrow> i_rule i = ''offline''"])
    fix x assume "x \<in> set (instances (st e))"
    then obtain k i where x: "x = (k, i)" "(k, i) \<in> set (instances (st e))" by (metis surj_pair)
    then have "map_of (instances (st e)) k = Some i" using assms by (auto simp: clean_store_def wf_store_def)
    with clean_lookup [OF assms(1), of "''offline''" "n_id n" "[]"] assms(2) x(1)
    show "case x of (k, i) \<Rightarrow> k = ?k \<longrightarrow> i_rule i = ''offline''" by (auto simp: barfree_def)
  qed (auto simp: retell_other split: option.split if_splits)
  then show ?thesis by (simp add: offline_def)
qed

text \<open>
  The minute's check: with the offline rule on for a node that pushed before, the node is
  offline afterwards exactly when its last push is as old as five of its intervals (and ten
  minutes) or older.
\<close>

theorem check_decides_offline:
  assumes "clean_store (st e)" "barfree (n_id n)" "n_lastPush n \<noteq> 0"
    and "find (\<lambda>r. r_metric r = ''offline'') (rules e) = Some off" "forNode off n = Some r" "offline_rule r"
    and "\<forall>i. map_of (instances (st e)) (inst_key ''offline'' (n_id n) []) = Some i \<longrightarrow> i_since i \<le> t"
  shows "offline (st (check [n] t e)) (n_id n) \<longleftrightarrow> t - n_lastPush n \<ge> offline_limit (n_interval n)"
proof -
  have "barfree (r_id r)" using assms(6) by (simp add: offline_rule_def barfree_def)
  then have "clean_store (st (judge r n [] (Some q) t e))" for q
    using assms by (intro clean_judge) auto
  then show ?thesis using assms judge_offline [OF assms(6)]
    by (simp add: check_def check_node_def Let_def check_others_offline)
qed

section \<open>Nodes do not touch each other\<close>

definition undisturbed :: "string \<Rightarrow> inst \<Rightarrow> engine \<Rightarrow> bool" where
  "undisturbed k i e \<longleftrightarrow> clean_store (st e) \<and> map_of (instances (st e)) k = Some i"

lemma clean_del: "clean_store s \<Longrightarrow> clean_store (s\<lparr>instances := AList.delete k (instances s)\<rparr>)"
  by (auto simp: clean_store_def split: if_splits)

lemma undisturbed_judge:
  assumes "undisturbed k i e" "barfree (r_id r)" "barfree (n_id n)" "i_node i \<noteq> n_id n"
  shows "undisturbed k i (judge r n sub v t e)"
proof -
  have "k \<noteq> inst_key (r_id r) (n_id n) sub"
    using assms clean_lookup(2) by (fastforce simp: undisturbed_def)
  then show ?thesis using assms by (simp add: undisturbed_def clean_judge judge_other)
qed

lemma undisturbed_endAll:
  assumes "undisturbed k i e" "i_node i \<noteq> n_id n"
  shows "undisturbed k i (endAll r n t e)"
  unfolding endAll_def
proof (rule fold_invariant [where P = "undisturbed k i" and Q = "\<lambda>(k', i'). k' = k \<longrightarrow> i' = i"])
  fix x assume "x \<in> set (instances (st e))"
  moreover have "distinct (map fst (instances (st e)))" "(k, i) \<in> set (instances (st e))"
    using assms(1) by (auto simp: undisturbed_def clean_store_def wf_store_def dest: map_of_SomeD)
  ultimately show "case x of (k', i') \<Rightarrow> k' = k \<longrightarrow> i' = i" by (auto dest: eq_key_imp_eq_value)
qed (use assms in \<open>auto simp: undisturbed_def clean_del\<close>)

lemma undisturbed_eval_rule:
  assumes "undisturbed k i e" "barfree (r_id r)" "barfree (n_id n)" "i_node i \<noteq> n_id n"
  shows "undisturbed k i (eval_rule n v run t r e)"
proof -
  have judge: "undisturbed k i (judge r' n sub w t e')" if "forNode r n = Some r'" "undisturbed k i e'" for r' sub w e'
    using that assms forNode_id [OF that(1)] by (intro undisturbed_judge) auto
  have vals: "undisturbed k i (judge_values r' n vals t e')" if "forNode r n = Some r'" "undisturbed k i e'" for r' vals e'
    unfolding judge_values_def using that judge by (induction vals arbitrary: e') auto
  have "undisturbed k i (fold (\<lambda>(k, j) e'. if i_rule j = r_id r' \<and> i_node j = n_id n \<and> i_sub j \<notin> set seen
      then judge r' n (i_sub j) None t e' else e') xs e')" if "forNode r n = Some r'" "undisturbed k i e'" for r' seen e' and xs :: "(string \<times> inst) list"
    using that judge by (induction xs arbitrary: e') auto
  then have "undisturbed k i (judge_gone r' n seen t e')" if "forNode r n = Some r'" "undisturbed k i e'" for r' seen e'
    unfolding judge_gone_def using that by blast
  then show ?thesis using assms judge vals
    by (auto simp: eval_rule_def Let_def undisturbed_endAll split: option.split)
qed

text \<open>
  A push of one node leaves every alert of every other node as it was: state, value, times
  and what was told of it.
\<close>

theorem push_leaves_other_nodes:
  assumes "clean_store (st e)" "barfree (n_id n)" "\<forall>r \<in> set (rules e). barfree (r_id r)"
    and "map_of (instances (st e)) k = Some i" "i_node i \<noteq> n_id n"
  shows "map_of (instances (st (evaluate n v t e))) k = Some i"
proof -
  have "undisturbed k i (fold (eval_rule n v run t) rs e')" if "undisturbed k i e'" "set rs \<subseteq> set (rules e)" for run rs e'
    using that assms(2,3,5) by (induction rs arbitrary: e') (auto simp: undisturbed_eval_rule)
  moreover have "undisturbed k i (e\<lparr>st := snd (note_running n v (st e))\<rparr>)"
    using assms(1,4) by (simp add: undisturbed_def clean_store_def wf_store_def)
  ultimately show ?thesis
    by (simp add: evaluate_def split_beta undisturbed_def)
qed

section \<open>Badges\<close>

definition told_now :: "engine \<Rightarrow> ms \<Rightarrow> string \<Rightarrow> inst \<Rightarrow> bool" where
  "told_now e t nid i \<longleftrightarrow> i_node i = nid \<and> i_state i = Firing \<and>
     (case find_rule (rules e) (i_rule i) of None \<Rightarrow> False | Some r \<Rightarrow> quiet (st e) i r t = [])"

definition sev_of :: "engine \<Rightarrow> inst \<Rightarrow> severity" where
  "sev_of e i = (case find_rule (rules e) (i_rule i) of None \<Rightarrow> Info | Some r \<Rightarrow> r_severity r)"

definition badge_right :: "engine \<Rightarrow> inst list \<Rightarrow> (nat \<times> severity) option \<Rightarrow> bool" where
  "badge_right e l b \<longleftrightarrow> (case b of None \<Rightarrow> l = [] | Some (c, w) \<Rightarrow> c = length l \<and> l \<noteq> [] \<and>
     w \<in> sev_of e ` set l \<and> (\<forall>i \<in> set l. sev_index w \<le> sev_index (sev_of e i)))"

lemma badge_right_snoc:
  assumes "badge_right e l b" "sev_of e i = s"
    and "(c, w) = (case b of None \<Rightarrow> (0, s) | Some b \<Rightarrow> b)"
  shows "badge_right e (l @ [i]) (Some (Suc c, if sev_index s < sev_index w then s else w))"
  using assms by (auto simp: badge_right_def split: option.splits)

lemma badge_step_told:
  assumes "told_now e t nid i"
  shows "map_of (badge_step e t i out) nid =
    (let (c, w) = (case map_of out nid of None \<Rightarrow> (0, sev_of e i) | Some b \<Rightarrow> b)
     in Some (Suc c, if sev_index (sev_of e i) < sev_index w then sev_of e i else w))"
  using assms by (auto simp: badge_step_def told_now_def sev_of_def split_beta Let_def split: option.splits)

lemma badge_step_other: "\<not> told_now e t nid i \<Longrightarrow> map_of (badge_step e t i out) nid = map_of out nid"
  by (auto simp: badge_step_def told_now_def split_beta Let_def split: option.splits)

lemma badges_of_list:
  "badge_right e (filter (told_now e t nid) xs) (map_of (fold (badge_step e t) xs []) nid)"
proof (induction xs rule: rev_induct)
  case Nil
  then show ?case by (simp add: badge_right_def)
next
  case (snoc i xs)
  then show ?case
    using badge_right_snoc [OF snoc, of i]
    by (cases "told_now e t nid i") (auto simp: badge_step_told badge_step_other Let_def split: prod.split)
qed

text \<open>
  The badge of a node on the page: there is one exactly when an alert of the node fires and
  is not held back; it counts those alerts, and its colour is the worst of their severities.
\<close>

theorem badges_count_told_alerts:
  "case map_of (badges e t) nid of
     None \<Rightarrow> filter (told_now e t nid) (map snd (instances (st e))) = []
   | Some (c, w) \<Rightarrow> c = length (filter (told_now e t nid) (map snd (instances (st e)))) \<and>
       filter (told_now e t nid) (map snd (instances (st e))) \<noteq> [] \<and>
       w \<in> sev_of e ` set (filter (told_now e t nid) (map snd (instances (st e)))) \<and>
       (\<forall>i \<in> set (filter (told_now e t nid) (map snd (instances (st e)))). sev_index w \<le> sev_index (sev_of e i))"
  using badges_of_list [of e t nid "map snd (instances (st e))"]
  unfolding badges_def badge_right_def .

theorem badges_count_told_alerts_witness:
  "map_of (badges demo_offline 700000) (n_id demo_node) = Some (1, Critical) \<and>
   Critical \<in> sev_of demo_offline ` set (filter (told_now demo_offline 700000 (n_id demo_node)) (map snd (instances (st demo_offline))))"
proof -
  have b: "map_of (badges demo_offline 700000) (n_id demo_node) = Some (1, Critical)" by code_simp
  show ?thesis using b badges_count_told_alerts [of demo_offline 700000 "n_id demo_node"] by simp
qed


section \<open>Restarts and the log\<close>

text \<open>
  A restart of the hub with the same or other rules: from every state the engine reaches,
  the new process holds the instances, the containers seen running and the mutes of the old one
  (but for the values, which the next push brings), less the alerts of rules removed or turned
  off and the mutes of rules removed.
\<close>

theorem restart_keeps_state:
  assumes "alerts_inv S e"
  shows "st (restart rs t e) = (strip (st e))
    \<lparr>instances := filter (\<lambda>p. kept rs (snd p)) (instances (strip (st e))),
     mute_rules := filter (\<lambda>(rid, u). find_rule rs rid \<noteq> None) (mute_rules (st e))\<rparr>"
proof -
  have "wf_store (strip (st e))" "disk e = strip (st e)"
    using assms by (auto simp: alerts_inv_def good_def wf_store_strip)
  then have "st (createAlerts rs (disk e) (logfile e) t) = (strip (st e))
    \<lparr>instances := filter (\<lambda>p. kept rs (snd p)) (instances (strip (st e))),
     mute_rules := filter (\<lambda>(rid, u). find_rule rs rid \<noteq> None) (mute_rules (strip (st e)))\<rparr>"
    by (simp add: createAlerts_def prune_store wf_store_def)
  then show ?thesis by (simp add: restart_def Let_def strip_def)
qed

theorem restart_keeps_state_witness:
  "st (restart [] 9 (createAlerts DEFAULT_RULES empty_store [] 0)) = (strip (st (createAlerts DEFAULT_RULES empty_store [] 0)))
    \<lparr>instances := filter (\<lambda>p. kept [] (snd p)) (instances (strip (st (createAlerts DEFAULT_RULES empty_store [] 0)))),
     mute_rules := filter (\<lambda>(rid, u). find_rule [] rid \<noteq> None) (mute_rules (st (createAlerts DEFAULT_RULES empty_store [] 0)))\<rparr>"
  by (rule restart_keeps_state [OF alerts_inv_fresh])

lemma shortlog_log: "length (events e) \<le> LOG_MAX + 100 \<Longrightarrow> length (events (log_event ev e)) \<le> LOG_MAX + 100"
  by (simp add: log_event_def Let_def)

lemma shortlog_prune: "length (events e) \<le> LOG_MAX + 100 \<Longrightarrow> length (events (prune old t e)) \<le> LOG_MAX + 100"
  by (rule shortlog.P_prune_loop) simp_all

lemma shortlog_step: "length (events e) \<le> LOG_MAX + 100 \<Longrightarrow> length (events (alert_step e a)) \<le> LOG_MAX + 100"
  using shortlog.P_evaluate shortlog.P_check shortlog.P_forget_insts [of e]
  by (cases a) (auto simp: mute_op_def setRules_def forget_def Let_def restart_def createAlerts_def
      shortlog_prune shortlog_log split: mute_target.split)

interpretation logs: machine alert_step "\<lambda>e. length (events e) \<le> LOG_MAX + 100"
  by unfold_locales (rule shortlog_step)

text \<open>
  The log in memory never has more than 1100 events, whatever the hub does, so neither do
  the answers made of it.
\<close>

theorem log_bounded:
  "length (events (foldl alert_step (createAlerts rs empty_store [] t) ops)) \<le> 1100"
  using logs.inv_run [of "createAlerts rs empty_store [] t" ops]
    shortlog_prune [of "\<lparr>st = empty_store, rules = rs, events = slice_last LOG_MAX [], disk = empty_store, logfile = [], outbox = []\<rparr>"]
  by (simp add: createAlerts_def LOG_MAX_def)

lemma restart_logfile_empty:
  assumes "instances (disk e) = []"
  shows "logfile (restart rs t e) = logfile e" "length (events (restart rs t e)) \<le> LOG_MAX"
    "instances (disk (restart rs t e)) = []"
  using assms by (simp_all add: restart_def createAlerts_def prune_def Let_def strip_def)

lemma log_restart_cycle:
  assumes "instances (disk e) = []" "length (events e) \<le> LOG_MAX"
  shows "length (logfile (foldl alert_step e [LogNote ev, Restart rs t])) = Suc (length (logfile e))"
    "instances (disk (foldl alert_step e [LogNote ev, Restart rs t])) = []"
    "length (events (foldl alert_step e [LogNote ev, Restart rs t])) \<le> LOG_MAX"
  using assms restart_logfile_empty [of "log_event ev e" rs t]
  by (simp_all add: log_event_def Let_def)

text \<open>
  The log file has no such bound: a start reads the last 1000 events and leaves the file,
  and a process that ends before its list passes 1100 never cuts it, so the file grows past any
  length over restarts.
\<close>

theorem logfile_unbounded:
  "\<exists>ops. length (logfile (foldl alert_step (createAlerts rs empty_store [] t) ops)) = n"
proof -
  let ?e = "createAlerts rs empty_store [] t"
  have "\<exists>ops. length (logfile (foldl alert_step ?e ops)) = n \<and> instances (disk (foldl alert_step ?e ops)) = [] \<and>
      length (events (foldl alert_step ?e ops)) \<le> LOG_MAX"
  proof (induction n)
    case 0
    have "logfile ?e = [] \<and> instances (disk ?e) = [] \<and> events ?e = []"
      by (simp add: createAlerts_def prune_def empty_store_def Let_def strip_def)
    then show ?case by (intro exI [of _ "[]"]) simp
  next
    case (Suc n)
    then obtain ops where ops: "length (logfile (foldl alert_step ?e ops)) = n"
      "instances (disk (foldl alert_step ?e ops)) = []" "length (events (foldl alert_step ?e ops)) \<le> LOG_MAX" by blast
    obtain ev :: event where True by simp
    show ?case
      using log_restart_cycle [OF ops(2,3), of ev rs t] ops(1)
      by (intro exI [of _ "ops @ [LogNote ev, Restart rs t]"]) simp
  qed
  then show ?thesis by blast
qed

section \<open>New rules\<close>

lemma outbox_end_inst:
  "outbox (end_inst k i r t e) = outbox e @ (if i_state i = Firing \<and> i_notified i then [mk_event EResolved i r t True] else [])"
  by (simp add: end_inst_def tell_outbox)

definition ending_rule :: "rule list \<Rightarrow> rule list \<Rightarrow> inst \<Rightarrow> rule" where
  "ending_rule rs old i = (case find_rule rs (i_rule i) of Some r \<Rightarrow> r
     | None \<Rightarrow> (case find_rule old (i_rule i) of Some r \<Rightarrow> r | None \<Rightarrow> bare_rule (i_severity i)))"

lemma outbox_prune:
  "outbox (prune old t e) = outbox e @ map (\<lambda>(k, i). mk_event EResolved i (ending_rule (rules e) old i) t True)
     (filter (\<lambda>(k, i). \<not> kept (rules e) i \<and> i_state i = Firing \<and> i_notified i) (instances (st e)))"
proof -
  let ?f = "\<lambda>(k, i) e'. case find_rule (rules e') (i_rule i) of
             Some r \<Rightarrow> if r_off r then end_inst k i r t e' else e'
           | None \<Rightarrow> end_inst k i (case find_rule old (i_rule i) of Some r \<Rightarrow> r | None \<Rightarrow> bare_rule (i_severity i)) t e'"
  have "outbox (fold ?f xs e') = outbox e' @ map (\<lambda>(k, i). mk_event EResolved i (ending_rule (rules e) old i) t True)
     (filter (\<lambda>(k, i). \<not> kept (rules e) i \<and> i_state i = Firing \<and> i_notified i) xs)"
    if "rules e' = rules e" for xs e'
    using that
  proof (induction xs arbitrary: e')
    case (Cons x xs)
    obtain k i where x: "x = (k, i)" by fastforce
    have "rules (?f x e') = rules e"
      "outbox (?f x e') = outbox e' @ (if \<not> kept (rules e) i \<and> i_state i = Firing \<and> i_notified i
         then [mk_event EResolved i (ending_rule (rules e) old i) t True] else [])"
      using Cons.prems by (auto simp: x kept_def ending_rule_def outbox_end_inst split: option.split)
    with Cons.IH [of "?f x e'"] show ?case by (simp add: x)
  qed simp
  then show ?thesis by (simp add: prune_def Let_def)
qed

text \<open>
  When the rules change, the alerts left are exactly those of rules that are there and on,
  unchanged and in order, and each told alert that goes is told to end, as ended by its rule;
  nothing else is told.
\<close>

theorem setRules_ends_told_alerts:
  assumes "wf_store (st e)"
  shows "instances (st (setRules rs t e)) = filter (\<lambda>p. kept rs (snd p)) (instances (st e)) \<and>
    outbox (setRules rs t e) = outbox e @
      map (\<lambda>(k, i). mk_event EResolved i (ending_rule rs (rules e) i) t True)
        (filter (\<lambda>(k, i). \<not> kept rs i \<and> i_state i = Firing \<and> i_notified i) (instances (st e)))"
  using assms prune_store(1) [of "e\<lparr>rules := rs\<rparr>"] outbox_prune [of "rules e" t "e\<lparr>rules := rs\<rparr>"]
  by (simp add: setRules_def wf_store_def)

end
