(* ===== verification/Alert_Rules.thy ===== *)
theory Alert_Rules
  imports Alerts
begin

text \<open>
  The alert rules a person sets, \<^verbatim>\<open>src/hub/lib/alertrules.js\<close>: \<open>checkRules\<close> reads untrusted JSON and
  gives the clean file or the message of the error it throws; \<open>buildRules\<close> makes the engine's rules
  of a clean file. A clean rule is a change of a default rule (\<open>CDefault\<close>) or one of the person's
  own (\<open>COwn\<close>); \<open>rules_js\<close> is the object the hub writes to \<^verbatim>\<open>rules.json\<close>. JavaScript's coercion of
  a value that is not a string where a name is looked up (a server id as a number, a metric as a
  one-element array) is not modelled: such a value is refused.
\<close>

section \<open>The clean file\<close>

datatype crule =
    CDefault (c_id: string) (cd_threshold: "rat option") (cd_for: "int option") (cd_clear: "rat option option")
      (cd_severity: "severity option") (c_off: bool) (c_overrides: "override list")
  | COwn (c_id: string) (co_name: string) (co_metric: string) (co_op: rel) (co_threshold: rat) (co_scope: scope)
      (co_sub: string) (co_for: int) (co_clear: "rat option") (co_severity: severity) (c_off: bool)
      (c_overrides: "override list")

definition METRICS :: "(string \<times> bool) list" where
  "METRICS = [(''disk.used'', True), (''mem'', False), (''cpu'', False), (''temp'', False),
     (''container.down'', True), (''failed_units'', False), (''reboot_required'', False), (''security_updates'', False)]"

definition OPS :: "(string \<times> rel) list" where
  "OPS = [(''>='', Ge), (''<='', Le), (''=='', Eq)]"

definition YESNO :: "string list" where
  "YESNO = [''reboot_required'', ''container.down'']"

definition SEVERITIES :: "(string \<times> severity) list" where
  "SEVERITIES = [(''critical'', Critical), (''warning'', Warning), (''info'', Info)]"

definition MAX_RULES :: nat where "MAX_RULES = 100"

definition MAX_OVERRIDES :: nat where "MAX_OVERRIDES = 50"

definition WEEK_MIN :: int where "WEEK_MIN = 7 * 24 * 60"

text \<open>\<^verbatim>\<open>/^c_[a-z0-9]{1,16}$/\<close>\<close>

definition is_custom_id :: "string \<Rightarrow> bool" where
  "is_custom_id s \<longleftrightarrow> (case s of c # d # cs \<Rightarrow> c = CHR ''c'' \<and> d = CHR ''_'' \<and> in_class (\<lambda>c. is_lower c \<or> is_digit c) 1 16 cs
     | _ \<Rightarrow> False)"

text \<open>A finite number of at most $10^9$ in size.\<close>

definition rule_num :: "jsval \<Rightarrow> rat option" where
  "rule_num v = (case finite_num v of Some q \<Rightarrow> if \<bar>q\<bar> \<le> 1000000000 then Some q else None | None \<Rightarrow> None)"

definition str_opt :: "jsval \<Rightarrow> string option" where
  "str_opt v = (case v of JStr s \<Rightarrow> Some s | _ \<Rightarrow> None)"

definition lookup_str :: "(string \<times> 'a) list \<Rightarrow> jsval \<Rightarrow> 'a option" where
  "lookup_str tab v = (case v of JStr s \<Rightarrow> map_of tab s | _ \<Rightarrow> None)"

definition has_control :: "string \<Rightarrow> bool" where
  "has_control s = list_ex is_control s"

definition default_rule :: "string \<Rightarrow> rule option" where
  "default_rule i = find_rule DEFAULT_RULES i"

definition known_node :: "string list option \<Rightarrow> jsval \<Rightarrow> string option" where
  "known_node ids v = (case v of
      JStr s \<Rightarrow> if is_node_id s \<and> (case ids of None \<Rightarrow> True | Some l \<Rightarrow> s \<in> set l) then Some s else None
    | _ \<Rightarrow> None)"

definition tag_of :: "jsval \<Rightarrow> string option" where
  "tag_of v = (case v of JStr s \<Rightarrow> if is_tag s then Some s else None | _ \<Rightarrow> None)"

section \<open>Checking\<close>

definition check_scope :: "string \<Rightarrow> string list option \<Rightarrow> jsval \<Rightarrow> string + scope" where
  "check_scope lbl ids v =
    (let s = (if v = JUndef then JObj [] else v) in
     if \<not> is_obj s \<or> (fld ''node'' s \<noteq> JUndef \<and> fld ''tag'' s \<noteq> JUndef)
       then Inl (lbl @ '': scope: all servers, a server or a tag'')
     else if fld ''node'' s \<noteq> JUndef
       then ok_or (lbl @ '': scope: no such server'') (map_option OnNode (known_node ids (fld ''node'' s)))
     else if fld ''tag'' s \<noteq> JUndef
       then ok_or (lbl @ '': scope: a tag is lowercase letters, digits, dot, dash, underscore'')
              (map_option OnTag (tag_of (fld ''tag'' s)))
     else Inr AllNodes)"

definition check_sub :: "string \<Rightarrow> bool \<Rightarrow> jsval \<Rightarrow> string + string" where
  "check_sub lbl allowed v =
    (if v = JUndef \<or> v = JStr [] then Inr []
     else if \<not> allowed then Inl (lbl @ '': sub: only for disks and containers'')
     else bindE (ok_or (lbl @ '': sub: a mount or container name'') (str_opt v)) (\<lambda>s.
       if length s > 200 \<or> has_control s then Inl (lbl @ '': sub: a mount or container name'') else Inr s))"

text \<open>\<^verbatim>\<open>Number.isInteger(f)\<close> with \<^verbatim>\<open>0 <= f <= WEEK_MIN\<close>.\<close>

definition minutes_of :: "jsval \<Rightarrow> int option" where
  "minutes_of v = (case finite_num v of
      Some q \<Rightarrow> if q = of_int \<lfloor>q\<rfloor> \<and> 0 \<le> q \<and> \<lfloor>q\<rfloor> \<le> WEEK_MIN then Some \<lfloor>q\<rfloor> else None
    | None \<Rightarrow> None)"

definition who_name :: "who \<Rightarrow> string" where
  "who_name w = (case w of ForNode i \<Rightarrow> ''server '' @ i | ForTag t \<Rightarrow> ''tag '' @ t)"

definition check_who :: "string \<Rightarrow> string list option \<Rightarrow> jsval \<Rightarrow> string + who" where
  "check_who oat ids v =
    (if \<not> is_obj v \<or> (fld ''node'' v = JUndef) = (fld ''tag'' v = JUndef) then Inl (oat @ '': a server or a tag'')
     else if fld ''node'' v \<noteq> JUndef
       then ok_or (oat @ '': no such server'') (map_option ForNode (known_node ids (fld ''node'' v)))
     else ok_or (oat @ '': a tag is lowercase letters, digits, dot, dash, underscore'')
            (map_option ForTag (tag_of (fld ''tag'' v))))"

definition check_override :: "string \<Rightarrow> string list option \<Rightarrow> string \<Rightarrow> string \<Rightarrow> who list \<Rightarrow> jsval \<Rightarrow> string + override" where
  "check_override oat ids rid metric whos v =
    bindE (check_who oat ids v) (\<lambda>who.
      if who \<in> set whos then Inl (oat @ '': '' @ who_name who @ '' is listed twice'')
      else if fld ''off'' v = JBool True then Inr \<lparr>ov_who = who, ov_threshold = None\<rparr>
      else if rid = ''offline'' then Inl (oat @ '': offline can only be turned off'')
      else if metric \<in> set YESNO then Inl (oat @ '': a true-or-false rule can only be turned off'')
      else bindE (ok_or (oat @ '': a threshold, or off'') (rule_num (fld ''threshold'' v)))
        (\<lambda>q. Inr \<lparr>ov_who = who, ov_threshold = Some q\<rparr>))"

fun check_override_list :: "string \<Rightarrow> string list option \<Rightarrow> string \<Rightarrow> string \<Rightarrow> nat \<Rightarrow> who list \<Rightarrow> jsval list \<Rightarrow> string + override list" where
  "check_override_list lbl ids rid metric k whos [] = Inr []"
| "check_override_list lbl ids rid metric k whos (v # vs) =
    bindE (check_override (lbl @ '': override '' @ show_nat (k + 1)) ids rid metric whos v) (\<lambda>ov.
    bindE (check_override_list lbl ids rid metric (k + 1) (ov_who ov # whos) vs) (\<lambda>ovs.
      Inr (ov # ovs)))"

definition check_overrides :: "string \<Rightarrow> string list option \<Rightarrow> string \<Rightarrow> string \<Rightarrow> jsval \<Rightarrow> string + override list" where
  "check_overrides lbl ids rid metric v =
    (if v = JUndef then Inr []
     else bindE (ok_or (lbl @ '': overrides: a list of at most 50'') (arr_of v)) (\<lambda>vs.
       if length vs > MAX_OVERRIDES then Inl (lbl @ '': overrides: a list of at most 50'')
       else check_override_list lbl ids rid metric 0 [] vs))"

text \<open>The clear value sits on the near side of the threshold, or the alert would end as it fires.\<close>

definition near_side :: "rel \<Rightarrow> rat \<Rightarrow> rat option \<Rightarrow> bool" where
  "near_side op th clear = (case clear of None \<Rightarrow> True
     | Some c \<Rightarrow> (case op of Eq \<Rightarrow> False | Ge \<Rightarrow> c \<le> th | Le \<Rightarrow> c \<ge> th))"

definition near_msg :: "rel \<Rightarrow> string" where
  "near_msg op = (case op of Eq \<Rightarrow> ''none for =='' | Ge \<Rightarrow> ''at most the threshold'' | Le \<Rightarrow> ''at least the threshold'')"

text \<open>Off must be a boolean when it is there.\<close>

definition check_off :: "string \<Rightarrow> jsval \<Rightarrow> string + bool" where
  "check_off lbl v = (case v of JUndef \<Rightarrow> Inr False | JBool b \<Rightarrow> Inr b | _ \<Rightarrow> Inl (lbl @ '': off: true or false''))"

text \<open>\<^verbatim>\<open>clear\<close>: \<open>None\<close> when it is not there, \<open>Some None\<close> for \<^verbatim>\<open>null\<close>.\<close>

definition check_clear :: "string \<Rightarrow> string \<Rightarrow> jsval \<Rightarrow> string + rat option option" where
  "check_clear lbl rid v =
    (if v = JUndef then Inr None
     else if v = JNull then Inr (Some None)
     else if rid = ''offline'' then Inl (lbl @ '': clear: a number'')
     else bindE (ok_or (lbl @ '': clear: a number'') (rule_num v)) (\<lambda>q. Inr (Some (Some q))))"

definition check_severity :: "string \<Rightarrow> jsval \<Rightarrow> string + severity" where
  "check_severity lbl v = ok_or (lbl @ '': severity: one of critical, warning, info'') (lookup_str SEVERITIES v)"

definition check_for :: "string \<Rightarrow> jsval \<Rightarrow> string + int" where
  "check_for lbl v = ok_or (lbl @ '': for: whole minutes, 0 to 10080'') (minutes_of v)"

definition check_threshold :: "string \<Rightarrow> jsval \<Rightarrow> string + rat" where
  "check_threshold lbl v = ok_or (lbl @ '': threshold: a number'') (rule_num v)"

text \<open>A member of a default rule's change that may be left out.\<close>

definition optional :: "('e + 'a) \<Rightarrow> jsval \<Rightarrow> 'e + 'a option" where
  "optional m v = (if v = JUndef then Inr None else bindE m (\<lambda>x. Inr (Some x)))"

text \<open>One rule of the file: a change of the default rule \<open>d\<close>.\<close>

definition check_default :: "string \<Rightarrow> string list option \<Rightarrow> rule \<Rightarrow> jsval \<Rightarrow> string + crule" where
  "check_default lbl ids d r =
    bindE (optional (if r_id d = ''offline'' then Inl (lbl @ '': offline has no threshold'')
                     else check_threshold lbl (fld ''threshold'' r)) (fld ''threshold'' r)) (\<lambda>th.
    bindE (optional (if r_id d = ''offline'' then Inl (lbl @ '': offline's time follows the server's heartbeat'')
                     else check_for lbl (fld ''for'' r)) (fld ''for'' r)) (\<lambda>f.
    bindE (check_clear lbl (r_id d) (fld ''clear'' r)) (\<lambda>cl.
    bindE (optional (check_severity lbl (fld ''severity'' r)) (fld ''severity'' r)) (\<lambda>sev.
    bindE (check_off lbl (fld ''off'' r)) (\<lambda>off.
    bindE (check_overrides lbl ids (r_id d) (r_metric d) (fld ''overrides'' r)) (\<lambda>ovs.
      if r_id d \<noteq> ''offline'' \<and>
         \<not> near_side (r_op d) (case th of Some q \<Rightarrow> q | None \<Rightarrow> r_threshold d) (case cl of Some c \<Rightarrow> c | None \<Rightarrow> r_clear d)
      then Inl (lbl @ '': clear: '' @ near_msg (r_op d))
      else Inr (CDefault (r_id d) th f cl sev off ovs)))))))"

text \<open>A rule of the person's own.\<close>

definition check_name :: "string \<Rightarrow> jsval \<Rightarrow> string + string" where
  "check_name lbl v =
    bindE (ok_or (lbl @ '': name: 1 to 60 characters'') (str_opt v)) (\<lambda>name.
      if js_trim name = [] \<or> length name > 60 \<or> has_control name then Inl (lbl @ '': name: 1 to 60 characters'')
      else Inr (js_trim name))"

definition check_metric :: "string \<Rightarrow> jsval \<Rightarrow> string + string \<times> bool" where
  "check_metric lbl v =
    ok_or (lbl @ '': metric: one of disk.used, mem, cpu, temp, container.down, failed_units, reboot_required, security_updates'')
      (case v of JStr m \<Rightarrow> map_option (Pair m) (map_of METRICS m) | _ \<Rightarrow> None)"

definition check_op :: "string \<Rightarrow> jsval \<Rightarrow> string + rel" where
  "check_op lbl v = ok_or (lbl @ '': op: one of >= <= =='') (lookup_str OPS v)"

definition check_own :: "string \<Rightarrow> string list option \<Rightarrow> string \<Rightarrow> jsval \<Rightarrow> string + crule" where
  "check_own lbl ids rid r =
    bindE (check_name lbl (fld ''name'' r)) (\<lambda>name.
    bindE (check_metric lbl (fld ''metric'' r)) (\<lambda>metric.
    bindE (check_op lbl (fld ''op'' r)) (\<lambda>op.
    bindE (check_threshold lbl (fld ''threshold'' r)) (\<lambda>th.
    bindE (check_scope lbl ids (fld ''scope'' r)) (\<lambda>sc.
    bindE (check_sub lbl (snd metric) (fld ''sub'' r)) (\<lambda>sub.
    bindE (if fld ''for'' r = JUndef then Inr 0 else check_for lbl (fld ''for'' r)) (\<lambda>f.
    bindE (check_clear lbl rid (fld ''clear'' r)) (\<lambda>cl.
    bindE (check_severity lbl (fld ''severity'' r)) (\<lambda>sev.
    bindE (check_off lbl (fld ''off'' r)) (\<lambda>off.
    bindE (check_overrides lbl ids rid (fst metric) (fld ''overrides'' r)) (\<lambda>ovs.
      if \<not> near_side op th (case cl of Some c \<Rightarrow> c | None \<Rightarrow> None) then Inl (lbl @ '': clear: '' @ near_msg op)
      else Inr (COwn rid name (fst metric) op th sc sub f (case cl of Some c \<Rightarrow> c | None \<Rightarrow> None) sev off ovs))))))))))))"

text \<open>The name an error gives a rule: its own name, or its id.\<close>

definition rule_at :: "string \<Rightarrow> jsval \<Rightarrow> string" where
  "rule_at rid r = (case str_opt (fld ''name'' r) of
      Some name \<Rightarrow> if js_trim name \<noteq> [] \<and> default_rule rid = None then take 60 (js_trim name) else rid
    | None \<Rightarrow> rid)"

definition check_rule :: "nat \<Rightarrow> string list option \<Rightarrow> string list \<Rightarrow> jsval \<Rightarrow> string + crule" where
  "check_rule i ids seen r =
    bindE (ok_or (''rule '' @ show_nat (i + 1) @ '': needs an id'') (if is_obj r then str_opt (fld ''id'' r) else None)) (\<lambda>rid.
      if rid \<in> set seen then Inl (rule_at rid r @ '': listed twice'')
      else case default_rule rid of
        Some d \<Rightarrow> check_default (rule_at rid r) ids d r
      | None \<Rightarrow>
          if \<not> is_custom_id rid
          then Inl (rule_at rid r @ '': '' @ rid @ '' is no default rule, and a rule of one's own is c_ and up to 16 letters or digits'')
          else check_own (rule_at rid r) ids rid r)"

fun check_list :: "nat \<Rightarrow> string list option \<Rightarrow> string list \<Rightarrow> jsval list \<Rightarrow> string + crule list" where
  "check_list i ids seen [] = Inr []"
| "check_list i ids seen (r # rs) =
    bindE (check_rule i ids seen r) (\<lambda>c.
    bindE (check_list (i + 1) ids (c_id c # seen) rs) (\<lambda>cs. Inr (c # cs)))"

definition checkRules :: "jsval \<Rightarrow> string list option \<Rightarrow> string + crule list" where
  "checkRules input ids =
    bindE (ok_or ''rules: a list'' (if is_obj input then arr_of (fld ''rules'' input) else None)) (\<lambda>rs.
      if length rs > MAX_RULES then Inl ''rules: at most 100'' else check_list 0 ids [] rs)"

section \<open>Building\<close>

definition edit_default :: "rule \<Rightarrow> crule \<Rightarrow> rule" where
  "edit_default d c = (case c of
      CDefault rid th f cl sev off ovs \<Rightarrow>
        d\<lparr>r_threshold := (case th of Some q \<Rightarrow> q | None \<Rightarrow> r_threshold d),
          r_for := (case f of Some m \<Rightarrow> m * MINUTE | None \<Rightarrow> r_for d),
          r_clear := (case cl of Some x \<Rightarrow> x | None \<Rightarrow> r_clear d),
          r_severity := (case sev of Some x \<Rightarrow> x | None \<Rightarrow> r_severity d),
          r_off := off, r_overrides := ovs\<rparr>
    | _ \<Rightarrow> d)"

definition own_rule :: "crule \<Rightarrow> rule option" where
  "own_rule c = (case c of
      COwn rid name metric op th sc sub f cl sev off ovs \<Rightarrow>
        Some \<lparr>r_id = rid, r_name = name, r_metric = metric, r_op = op, r_threshold = th, r_for = f * MINUTE,
          r_clear = cl, r_severity = sev, r_repeat = DAY, r_off = off, r_scope = sc, r_sub = sub, r_overrides = ovs\<rparr>
    | CDefault _ _ _ _ _ _ _ \<Rightarrow> None)"

definition buildRules :: "crule list \<Rightarrow> rule list" where
  "buildRules cs =
    map (\<lambda>d. case find (\<lambda>c. c_id c = r_id d) cs of Some c \<Rightarrow> edit_default d c | None \<Rightarrow> d) DEFAULT_RULES @
    List.map_filter own_rule (filter (\<lambda>c. default_rule (c_id c) = None) cs)"

section \<open>The file\<close>

definition opt_field :: "string \<Rightarrow> jsval option \<Rightarrow> (string \<times> jsval) list" where
  "opt_field k v = (case v of None \<Rightarrow> [] | Some x \<Rightarrow> [(k, x)])"

definition num_js :: "rat \<Rightarrow> jsval" where
  "num_js q = JNum (Fin q)"

definition clear_js :: "rat option \<Rightarrow> jsval" where
  "clear_js c = (case c of None \<Rightarrow> JNull | Some q \<Rightarrow> num_js q)"

fun rel_js :: "rel \<Rightarrow> jsval" where
  "rel_js Ge = JStr ''>=''" | "rel_js Le = JStr ''<=''" | "rel_js Eq = JStr ''==''"

fun sev_js :: "severity \<Rightarrow> jsval" where
  "sev_js Critical = JStr ''critical''" | "sev_js Warning = JStr ''warning''" | "sev_js Info = JStr ''info''"

fun scope_js :: "scope \<Rightarrow> jsval" where
  "scope_js AllNodes = JObj []"
| "scope_js (OnNode i) = JObj [(''node'', JStr i)]"
| "scope_js (OnTag t) = JObj [(''tag'', JStr t)]"

definition override_js :: "override \<Rightarrow> jsval" where
  "override_js ov = JObj ((case ov_who ov of ForNode i \<Rightarrow> (''node'', JStr i) | ForTag t \<Rightarrow> (''tag'', JStr t)) #
     [case ov_threshold ov of None \<Rightarrow> (''off'', JBool True) | Some q \<Rightarrow> (''threshold'', num_js q)])"

definition tail_js :: "bool \<Rightarrow> override list \<Rightarrow> (string \<times> jsval) list" where
  "tail_js off ovs = opt_field ''off'' (if off then Some (JBool True) else None) @
     opt_field ''overrides'' (if ovs = [] then None else Some (JArr (map override_js ovs)))"

fun crule_js :: "crule \<Rightarrow> jsval" where
  "crule_js (CDefault rid th f cl sev off ovs) = JObj ((''id'', JStr rid) #
     opt_field ''threshold'' (map_option num_js th) @ opt_field ''for'' (map_option (\<lambda>m. num_js (of_int m)) f) @
     opt_field ''clear'' (map_option clear_js cl) @ opt_field ''severity'' (map_option sev_js sev) @ tail_js off ovs)"
| "crule_js (COwn rid name metric op th sc sub f cl sev off ovs) = JObj ([(''id'', JStr rid), (''name'', JStr name),
     (''metric'', JStr metric), (''op'', rel_js op), (''threshold'', num_js th), (''scope'', scope_js sc)] @
     opt_field ''sub'' (if sub = [] then None else Some (JStr sub)) @
     [(''for'', num_js (of_int f)), (''clear'', clear_js cl), (''severity'', sev_js sev)] @ tail_js off ovs)"

definition rules_js :: "crule list \<Rightarrow> jsval" where
  "rules_js cs = JObj [(''rules'', JArr (map crule_js cs))]"

section \<open>What a checked file is\<close>

definition ok_who :: "string list option \<Rightarrow> who \<Rightarrow> bool" where
  "ok_who ids w = (case w of ForNode i \<Rightarrow> known_node ids (JStr i) = Some i | ForTag t \<Rightarrow> is_tag t)"

definition ok_scope :: "string list option \<Rightarrow> scope \<Rightarrow> bool" where
  "ok_scope ids s = (case s of AllNodes \<Rightarrow> True | OnNode i \<Rightarrow> known_node ids (JStr i) = Some i | OnTag t \<Rightarrow> is_tag t)"

definition ok_threshold :: "rat \<Rightarrow> bool" where
  "ok_threshold q \<longleftrightarrow> \<bar>q\<bar> \<le> 1000000000"

definition ok_minutes :: "int \<Rightarrow> bool" where
  "ok_minutes f \<longleftrightarrow> 0 \<le> f \<and> f \<le> WEEK_MIN"

definition ok_override :: "string list option \<Rightarrow> string \<Rightarrow> string \<Rightarrow> override \<Rightarrow> bool" where
  "ok_override ids rid metric ov \<longleftrightarrow> ok_who ids (ov_who ov) \<and>
     (case ov_threshold ov of None \<Rightarrow> True
      | Some q \<Rightarrow> ok_threshold q \<and> rid \<noteq> ''offline'' \<and> metric \<notin> set YESNO)"

definition ok_overrides :: "string list option \<Rightarrow> string \<Rightarrow> string \<Rightarrow> override list \<Rightarrow> bool" where
  "ok_overrides ids rid metric ovs \<longleftrightarrow> length ovs \<le> MAX_OVERRIDES \<and> distinct (map ov_who ovs) \<and>
     list_all (ok_override ids rid metric) ovs"

definition ok_name :: "string \<Rightarrow> bool" where
  "ok_name s \<longleftrightarrow> s \<noteq> [] \<and> js_trim s = s \<and> length s \<le> 60 \<and> \<not> has_control s"

definition ok_sub :: "string \<Rightarrow> string \<Rightarrow> bool" where
  "ok_sub metric s \<longleftrightarrow> s = [] \<or> (map_of METRICS metric = Some True \<and> length s \<le> 200 \<and> \<not> has_control s)"

fun ok_crule :: "string list option \<Rightarrow> crule \<Rightarrow> bool" where
  "ok_crule ids (CDefault rid th f cl sev off ovs) = (case default_rule rid of
      None \<Rightarrow> False
    | Some d \<Rightarrow> pred_option ok_threshold th \<and> pred_option ok_minutes f \<and> pred_option (pred_option ok_threshold) cl \<and>
        (if rid = ''offline'' then th = None \<and> f = None \<and> cl \<in> {None, Some None}
         else near_side (r_op d) (case th of Some q \<Rightarrow> q | None \<Rightarrow> r_threshold d) (case cl of Some c \<Rightarrow> c | None \<Rightarrow> r_clear d)) \<and>
        ok_overrides ids rid (r_metric d) ovs)"
| "ok_crule ids (COwn rid name metric op th sc sub f cl sev off ovs) \<longleftrightarrow>
     default_rule rid = None \<and> is_custom_id rid \<and> ok_name name \<and> map_of METRICS metric \<noteq> None \<and> ok_threshold th \<and>
     ok_scope ids sc \<and> ok_sub metric sub \<and> ok_minutes f \<and> pred_option ok_threshold cl \<and> near_side op th cl \<and>
     ok_overrides ids rid metric ovs"

definition ok_file :: "string list option \<Rightarrow> crule list \<Rightarrow> bool" where
  "ok_file ids cs \<longleftrightarrow> length cs \<le> MAX_RULES \<and> distinct (map c_id cs) \<and> list_all (ok_crule ids) cs"

section \<open>Checking gives a clean file\<close>

lemma rule_num_Some [simp]: "rule_num v = Some q \<longleftrightarrow> v = JNum (Fin q) \<and> ok_threshold q"
  by (cases v rule: finite_num.cases) (auto simp: rule_num_def ok_threshold_def)

lemma minutes_of_Some: "minutes_of v = Some m \<longleftrightarrow> v = JNum (Fin (of_int m)) \<and> ok_minutes m"
  by (cases v rule: finite_num.cases) (auto simp: minutes_of_def ok_minutes_def)

lemma check_threshold_Inr [simp]: "check_threshold lbl v = Inr q \<longleftrightarrow> v = JNum (Fin q) \<and> ok_threshold q"
  by (simp add: check_threshold_def)

lemma check_for_Inr [simp]: "check_for lbl v = Inr m \<longleftrightarrow> v = JNum (Fin (of_int m)) \<and> ok_minutes m"
  by (simp add: check_for_def minutes_of_Some)

lemma optional_Inr [simp]:
  "optional m v = Inr x \<longleftrightarrow> (if v = JUndef then x = None else \<exists>y. m = Inr y \<and> x = Some y)"
  by (auto simp: optional_def)

lemma check_clear_Inr:
  "check_clear lbl rid v = Inr cl \<longleftrightarrow>
     (v = JUndef \<and> cl = None) \<or> (v = JNull \<and> cl = Some None) \<or>
     (rid \<noteq> ''offline'' \<and> (\<exists>q. v = JNum (Fin q) \<and> ok_threshold q \<and> cl = Some (Some q)))"
  by (auto simp: check_clear_def)

lemma known_node_Some: "known_node ids v = Some i \<Longrightarrow> v = JStr i \<and> known_node ids (JStr i) = Some i"
  by (auto simp: known_node_def split: jsval.splits if_splits)

lemma tag_of_Some [simp]: "tag_of v = Some t \<longleftrightarrow> v = JStr t \<and> is_tag t"
  by (auto simp: tag_of_def split: jsval.splits if_splits)

lemma check_scope_ok: "check_scope lbl ids v = Inr sc \<Longrightarrow> ok_scope ids sc"
  by (auto simp: check_scope_def ok_scope_def Let_def dest: known_node_Some split: if_splits)

lemma check_sub_ok: "check_sub lbl subs v = Inr s \<Longrightarrow> map_of METRICS metric = Some subs \<Longrightarrow> ok_sub metric s"
  by (auto simp: check_sub_def ok_sub_def split: if_splits)

lemma check_who_ok: "check_who oat ids v = Inr w \<Longrightarrow> ok_who ids w"
  by (auto simp: check_who_def ok_who_def dest: known_node_Some split: if_splits)

lemma check_override_ok:
  "check_override oat ids rid metric whos v = Inr ov \<Longrightarrow> ok_override ids rid metric ov \<and> ov_who ov \<notin> set whos"
  by (auto simp: check_override_def ok_override_def dest: check_who_ok split: if_splits)

lemma check_override_list_ok:
  "check_override_list lbl ids rid metric k whos vs = Inr ovs \<Longrightarrow>
     length ovs = length vs \<and> distinct (map ov_who ovs) \<and> ov_who ` set ovs \<inter> set whos = {} \<and>
     list_all (ok_override ids rid metric) ovs"
  by (induction vs arbitrary: k whos ovs) (fastforce dest: check_override_ok)+

lemma check_overrides_ok: "check_overrides lbl ids rid metric v = Inr ovs \<Longrightarrow> ok_overrides ids rid metric ovs"
  by (auto simp: check_overrides_def ok_overrides_def dest: check_override_list_ok split: if_splits)

lemma dropWhile_idem [simp]: "dropWhile P (dropWhile P xs) = dropWhile P xs"
  by (induction xs) auto

lemma trim_prefix: "rev (dropWhile P (rev xs)) @ rev (takeWhile P (rev xs)) = xs"
  by (simp flip: rev_append)

lemma js_trim_idem [simp]: "js_trim (js_trim s) = js_trim s"
proof -
  define t where "t = dropWhile is_space s"
  define u where "u = rev (dropWhile is_space (rev t))"
  have t: "u @ rev (takeWhile is_space (rev t)) = t" unfolding u_def by (rule trim_prefix)
  have "\<not> is_space (hd u)" if "u \<noteq> []"
  proof -
    have "hd u = hd t" using t that by (metis hd_append2)
    moreover have "t \<noteq> []" using t that by auto
    ultimately show ?thesis unfolding t_def using hd_dropWhile by metis
  qed
  then have "dropWhile is_space u = u" by (auto simp: dropWhile_eq_self_iff)
  then show ?thesis by (simp add: js_trim_def flip: t_def) (simp add: u_def)
qed

lemma set_js_trim: "set (js_trim s) \<subseteq> set s"
  by (auto simp: js_trim_def dest!: set_dropWhileD)

lemma length_js_trim: "length (js_trim s) \<le> length s"
  unfolding js_trim_def by (metis length_dropWhile_le length_rev order_trans)

lemma check_name_ok: "check_name lbl v = Inr s \<Longrightarrow> ok_name s"
  using set_js_trim length_js_trim
  by (fastforce simp: check_name_def ok_name_def has_control_def list_ex_iff split: if_splits intro: order_trans)

lemma check_metric_Inr [simp]:
  "check_metric lbl v = Inr m \<longleftrightarrow> v = JStr (fst m) \<and> map_of METRICS (fst m) = Some (snd m)"
  by (cases m) (auto simp: check_metric_def split: jsval.splits)

lemma default_rule_id: "default_rule rid = Some d \<Longrightarrow> r_id d = rid"
  by (auto simp: default_rule_def find_rule_def find_Some_iff)

lemma check_default_ok:
  assumes "check_default lbl ids d r = Inr c" "default_rule rid = Some d"
  shows "ok_crule ids c \<and> c_id c = rid"
  using assms default_rule_id [OF assms(2)]
  by (auto simp: check_default_def check_clear_Inr split: if_splits dest: check_overrides_ok)

lemma check_own_ok:
  assumes "check_own lbl ids rid r = Inr c" "default_rule rid = None" "is_custom_id rid"
  shows "ok_crule ids c \<and> c_id c = rid"
  using assms
  by (auto simp: check_own_def check_clear_Inr ok_minutes_def WEEK_MIN_def split: if_splits
      dest: check_overrides_ok check_scope_ok check_sub_ok check_name_ok)

lemma check_rule_ok: "check_rule i ids seen r = Inr c \<Longrightarrow> ok_crule ids c \<and> c_id c \<notin> set seen"
  by (auto simp: check_rule_def split: if_splits option.splits
      dest: check_own_ok check_default_ok)

lemma check_list_ok:
  "check_list i ids seen rs = Inr cs \<Longrightarrow>
     length cs = length rs \<and> distinct (map c_id cs) \<and> c_id ` set cs \<inter> set seen = {} \<and> list_all (ok_crule ids) cs"
  by (induction rs arbitrary: i seen cs) (fastforce dest: check_rule_ok)+

lemma checkRules_ok: "checkRules v ids = Inr cs \<Longrightarrow> ok_file ids cs"
  by (auto simp: checkRules_def ok_file_def dest: check_list_ok split: if_splits)

section \<open>A clean file is read back as it is\<close>

lemma crule_js_id [simp]: "is_obj (crule_js c)" "str_opt (fld ''id'' (crule_js c)) = Some (c_id c)"
  by (cases c; simp add: str_opt_def)+

lemma fld_opt_field:
  "fld k (JObj (opt_field k' v @ r)) = (if k = k' then (case v of Some x \<Rightarrow> x | None \<Rightarrow> fld k (JObj r)) else fld k (JObj r))"
  "fld k (JObj (opt_field k' v)) = (if k = k' then (case v of Some x \<Rightarrow> x | None \<Rightarrow> JUndef) else JUndef)"
  "fld k (JObj ((k', x) # r)) = (if k = k' then x else fld k (JObj r))"
  by (simp_all add: opt_field_def split: option.split)

lemma default_js_fields:
  assumes "c = CDefault rid th f cl sev off ovs"
  shows "fld ''threshold'' (crule_js c) = (case th of None \<Rightarrow> JUndef | Some q \<Rightarrow> JNum (Fin q))"
    "fld ''for'' (crule_js c) = (case f of None \<Rightarrow> JUndef | Some m \<Rightarrow> JNum (Fin (of_int m)))"
    "fld ''clear'' (crule_js c) = (case cl of None \<Rightarrow> JUndef | Some x \<Rightarrow> clear_js x)"
    "fld ''severity'' (crule_js c) = (case sev of None \<Rightarrow> JUndef | Some s \<Rightarrow> sev_js s)"
    "fld ''off'' (crule_js c) = (if off then JBool True else JUndef)"
    "fld ''overrides'' (crule_js c) = (if ovs = [] then JUndef else JArr (map override_js ovs))"
  using assms by (simp_all add: fld_opt_field tail_js_def num_js_def split: option.split del: fld.simps)

lemma own_js_fields:
  assumes "c = COwn rid name metric op th sc sub f cl sev off ovs"
  shows "fld ''name'' (crule_js c) = JStr name" "fld ''metric'' (crule_js c) = JStr metric"
    "fld ''op'' (crule_js c) = rel_js op" "fld ''threshold'' (crule_js c) = JNum (Fin th)"
    "fld ''scope'' (crule_js c) = scope_js sc"
    "fld ''sub'' (crule_js c) = (if sub = [] then JUndef else JStr sub)"
    "fld ''for'' (crule_js c) = JNum (Fin (of_int f))" "fld ''clear'' (crule_js c) = clear_js cl"
    "fld ''severity'' (crule_js c) = sev_js sev"
    "fld ''off'' (crule_js c) = (if off then JBool True else JUndef)"
    "fld ''overrides'' (crule_js c) = (if ovs = [] then JUndef else JArr (map override_js ovs))"
  using assms by (simp_all add: opt_field_def tail_js_def num_js_def)

lemma clear_js_simps [simp]: "clear_js c \<noteq> JUndef" "clear_js c = JNull \<longleftrightarrow> c = None"
  by (auto simp: clear_js_def num_js_def split: option.splits)

lemma check_clear_js: "pred_option ok_threshold c \<Longrightarrow> rid \<noteq> ''offline'' \<or> c = None \<Longrightarrow>
    check_clear lbl rid (clear_js c) = Inr (Some c)"
  by (cases c) (auto simp: check_clear_Inr clear_js_def num_js_def)

lemma check_severity_js [simp]: "check_severity lbl (sev_js s) = Inr s" "sev_js s \<noteq> JUndef"
  by (cases s; simp add: check_severity_def lookup_str_def SEVERITIES_def)+

lemma check_op_js [simp]: "check_op lbl (rel_js r) = Inr r"
  by (cases r) (simp_all add: check_op_def lookup_str_def OPS_def)

lemma check_scope_js: "ok_scope ids sc \<Longrightarrow> check_scope lbl ids (scope_js sc) = Inr sc"
  by (cases sc) (auto simp: check_scope_def ok_scope_def Let_def)

lemma override_js_fields [simp]:
  "is_obj (override_js ov)"
  "fld ''off'' (override_js ov) = (if ov_threshold ov = None then JBool True else JUndef)"
  "fld ''threshold'' (override_js ov) = (case ov_threshold ov of None \<Rightarrow> JUndef | Some q \<Rightarrow> JNum (Fin q))"
  "fld ''node'' (override_js ov) = (case ov_who ov of ForNode i \<Rightarrow> JStr i | ForTag t \<Rightarrow> JUndef)"
  "fld ''tag'' (override_js ov) = (case ov_who ov of ForNode i \<Rightarrow> JUndef | ForTag t \<Rightarrow> JStr t)"
  by (cases "ov_who ov"; cases "ov_threshold ov"; simp add: override_js_def num_js_def)+

lemma check_who_js: "ok_who ids (ov_who ov) \<Longrightarrow> check_who oat ids (override_js ov) = Inr (ov_who ov)"
  by (cases "ov_who ov") (simp_all add: check_who_def ok_who_def)

lemma check_override_js:
  "ok_override ids rid metric ov \<Longrightarrow> ov_who ov \<notin> set whos \<Longrightarrow>
     check_override oat ids rid metric whos (override_js ov) = Inr ov"
  by (cases "ov_threshold ov") (simp_all add: check_override_def ok_override_def check_who_js)

lemma check_override_list_js:
  "list_all (ok_override ids rid metric) ovs \<Longrightarrow> distinct (map ov_who ovs) \<Longrightarrow> ov_who ` set ovs \<inter> set whos = {} \<Longrightarrow>
     check_override_list lbl ids rid metric k whos (map override_js ovs) = Inr ovs"
  by (induction ovs arbitrary: k whos) (auto simp: check_override_js)

lemma check_overrides_js: "ok_overrides ids rid metric ovs \<Longrightarrow>
    check_overrides lbl ids rid metric (JArr (map override_js ovs)) = Inr ovs"
  by (auto simp: check_overrides_def ok_overrides_def check_override_list_js)

lemma check_overrides_undef [simp]: "check_overrides lbl ids rid metric JUndef = Inr []"
  by (simp add: check_overrides_def)

lemma check_name_js: "ok_name s \<Longrightarrow> check_name lbl (JStr s) = Inr s"
  by (simp add: check_name_def ok_name_def str_opt_def)

lemma check_sub_js: "ok_sub metric s \<Longrightarrow> map_of METRICS metric = Some subs \<Longrightarrow> check_sub lbl subs (JStr s) = Inr s"
  by (auto simp: check_sub_def ok_sub_def str_opt_def)

lemma check_sub_undef [simp]: "check_sub lbl subs JUndef = Inr []"
  by (simp add: check_sub_def)

lemma check_off_simps [simp]: "check_off lbl JUndef = Inr False" "check_off lbl (JBool b) = Inr b"
  by (simp_all add: check_off_def)

lemma check_clear_undef [simp]: "check_clear lbl rid JUndef = Inr None"
  by (simp add: check_clear_def)

lemma check_default_js:
  assumes c: "c = CDefault rid th f cl sev off ovs" and ok: "ok_crule ids c" and d: "default_rule rid = Some d"
  shows "check_default lbl ids d (crule_js c) = Inr c"
proof -
  note f = default_js_fields [OF c]
  have rid: "r_id d = rid" using d by (rule default_rule_id)
  have "check_clear lbl rid (fld ''clear'' (crule_js c)) = Inr cl"
    using ok d unfolding c f [unfolded c] by (cases cl) (auto simp: check_clear_js split: if_splits)
  moreover have "check_overrides lbl ids rid (r_metric d) (fld ''overrides'' (crule_js c)) = Inr ovs"
    using ok d unfolding c f [unfolded c] by (simp add: check_overrides_js)
  ultimately show ?thesis
    using ok d unfolding c f [unfolded c] check_default_def rid
    by (cases th; cases f; cases sev) (auto split: if_splits)
qed

lemma check_own_js:
  assumes c: "c = COwn rid name metric op th sc sub f cl sev off ovs" and ok: "ok_crule ids c"
  shows "check_own lbl ids rid (crule_js c) = Inr c"
proof -
  note f = own_js_fields [OF c]
  obtain subs where m: "map_of METRICS metric = Some subs" using ok c by auto
  have "rid \<noteq> ''offline''" using ok c by (auto simp: is_custom_id_def)
  then have "check_clear lbl rid (clear_js cl) = Inr (Some cl)"
    using ok c by (simp add: check_clear_js)
  moreover have "check_overrides lbl ids rid metric (fld ''overrides'' (crule_js c)) = Inr ovs"
    using ok unfolding c f [unfolded c] by (simp add: check_overrides_js)
  moreover have "check_metric lbl (JStr metric) = Inr (metric, subs)"
    using m by simp
  moreover have "check_sub lbl subs (fld ''sub'' (crule_js c)) = Inr sub"
    using ok m check_sub_js [of metric sub subs] unfolding c f [unfolded c] by auto
  moreover have "check_scope lbl ids (scope_js sc) = Inr sc" "check_name lbl (JStr name) = Inr name"
    "check_threshold lbl (JNum (Fin th)) = Inr th" "check_for lbl (JNum (Fin (of_int f))) = Inr f"
    using ok c by (simp_all add: check_scope_js check_name_js)
  ultimately show ?thesis
    using ok unfolding c f [unfolded c] check_own_def by (simp split: if_splits)
qed

lemma check_rule_js:
  assumes "ok_crule ids c" "c_id c \<notin> set seen"
  shows "check_rule i ids seen (crule_js c) = Inr c"
proof (cases c)
  case (CDefault rid th f cl sev off ovs)
  then obtain d where "default_rule rid = Some d" using assms(1) by (auto split: option.splits)
  with check_default_js [OF CDefault assms(1)] CDefault assms(2) show ?thesis by (simp add: check_rule_def del: crule_js.simps fld.simps)
next
  case COwn
  with check_own_js [OF COwn assms(1)] assms show ?thesis by (simp add: check_rule_def del: crule_js.simps fld.simps)
qed

lemma check_list_js:
  "list_all (ok_crule ids) cs \<Longrightarrow> distinct (map c_id cs) \<Longrightarrow> c_id ` set cs \<inter> set seen = {} \<Longrightarrow>
     check_list i ids seen (map crule_js cs) = Inr cs"
  by (induction cs arbitrary: i seen) (auto simp: check_rule_js)

lemma checkRules_js: "ok_file ids cs \<Longrightarrow> checkRules (rules_js cs) ids = Inr cs"
  by (simp add: checkRules_def rules_js_def ok_file_def check_list_js)

section \<open>The engine's rules\<close>

definition steady_rule :: "rule \<Rightarrow> bool" where
  "steady_rule r \<longleftrightarrow> near_side (r_op r) (r_threshold r) (r_clear r)"

lemma steady_rule_steady: "steady_rule r \<Longrightarrow> steady r"
  by (cases "r_op r"; cases "r_clear r") (auto simp: steady_rule_def near_side_def steady_def holds_def over_def)

lemma steady_rule_forNode: "steady_rule r \<Longrightarrow> forNode r n = Some r' \<Longrightarrow> steady_rule r'"
  by (cases "r_op r"; cases "r_clear r")
    (auto simp: forNode_def steady_rule_def near_side_def split: if_splits option.splits)

lemma default_steady: "d \<in> set DEFAULT_RULES \<Longrightarrow> steady_rule d"
  by (auto simp: DEFAULT_RULES_def mk_rule_def steady_rule_def near_side_def)

lemma default_table:
  "list_all (\<lambda>d. default_rule (r_id d) = Some d \<and> barfree (r_id d) \<and> (r_id d = ''offline'' \<longleftrightarrow> offline_rule d) \<and>
     (r_metric d = ''offline'' \<longleftrightarrow> offline_rule d) \<and> r_overrides d = []) DEFAULT_RULES"
  by code_simp

lemma default_facts:
  assumes "d \<in> set DEFAULT_RULES"
  shows "default_rule (r_id d) = Some d" "barfree (r_id d)" "r_id d = ''offline'' \<longleftrightarrow> offline_rule d"
    "r_metric d = ''offline'' \<longleftrightarrow> offline_rule d" "r_overrides d = []"
  using assms default_table by (auto simp: list_all_iff)

lemma edit_default_steady:
  assumes "ok_crule ids c" "c_id c = r_id d" "d \<in> set DEFAULT_RULES"
  shows "steady_rule (edit_default d c)"
proof (cases c)
  case (CDefault rid th f cl sev off ovs)
  have "rid = ''offline'' \<Longrightarrow> r_clear d = None"
    using default_facts(3) [OF assms(3)] assms(2) CDefault by (auto simp: offline_rule_def)
  then show ?thesis
    using assms CDefault default_facts(1) [OF assms(3)]
    by (cases cl) (auto simp: edit_default_def steady_rule_def near_side_def split: if_splits)
next
  case COwn
  with default_steady [OF assms(3)] show ?thesis by (simp add: edit_default_def)
qed

definition edited :: "crule list \<Rightarrow> rule \<Rightarrow> rule" where
  "edited cs d = (case find (\<lambda>c. c_id c = r_id d) cs of Some c \<Rightarrow> edit_default d c | None \<Rightarrow> d)"

lemma edited_steady: "list_all (ok_crule ids) cs \<Longrightarrow> d \<in> set DEFAULT_RULES \<Longrightarrow> steady_rule (edited cs d)"
  by (auto simp: edited_def list_all_iff split: option.splits dest!: find_SomeD intro: default_steady edit_default_steady)

lemma set_buildRules: "r \<in> set (buildRules cs) \<Longrightarrow>
    (\<exists>d \<in> set DEFAULT_RULES. r = edited cs d) \<or> (\<exists>c \<in> set cs. default_rule (c_id c) = None \<and> own_rule c = Some r)"
  by (auto simp: buildRules_def edited_def List.map_filter_def)

lemma own_rule_steady: "ok_crule ids c \<Longrightarrow> own_rule c = Some r \<Longrightarrow> steady_rule r"
  by (cases c) (auto simp: own_rule_def steady_rule_def)

lemma buildRules_steady: "ok_file ids cs \<Longrightarrow> r \<in> set (buildRules cs) \<Longrightarrow> steady_rule r"
  by (auto simp: ok_file_def list_all_iff dest!: set_buildRules intro: edited_steady own_rule_steady)

lemma edited_fields [simp]: "r_id (edited cs d) = r_id d" "r_metric (edited cs d) = r_metric d"
  by (auto simp: edited_def edit_default_def split: option.splits crule.splits)

lemma buildRules_offline:
  assumes "ok_file ids cs"
  shows "\<exists>off. find (\<lambda>r. r_metric r = ''offline'') (buildRules cs) = Some off \<and> offline_rule off"
proof -
  define d where "d = mk_rule ''offline'' ''offline'' 1 0 Critical None"
  have d: "d \<in> set DEFAULT_RULES" by (simp add: d_def DEFAULT_RULES_def)
  have "offline_rule d" by (simp add: d_def mk_rule_def offline_rule_def)
  have "buildRules cs = edited cs d # map (edited cs) (tl DEFAULT_RULES) @
      List.map_filter own_rule (filter (\<lambda>c. default_rule (c_id c) = None) cs)"
    by (simp add: buildRules_def edited_def [abs_def] DEFAULT_RULES_def d_def)
  moreover have "r_metric (edited cs d) = ''offline''" using \<open>offline_rule d\<close> by (simp add: offline_rule_def)
  moreover have "offline_rule (edited cs d)"
  proof (cases "find (\<lambda>c. c_id c = r_id d) cs")
    case None
    with \<open>offline_rule d\<close> show ?thesis by (simp add: edited_def)
  next
    case (Some c)
    then have "ok_crule ids c" "c_id c = ''offline''"
      using assms \<open>offline_rule d\<close> by (auto simp: ok_file_def list_all_iff offline_rule_def dest!: find_SomeD)
    then show ?thesis
      using Some \<open>offline_rule d\<close>
      by (cases c) (auto simp: edited_def edit_default_def offline_rule_def split: option.splits)
  qed
  ultimately show ?thesis by simp
qed

lemma own_rule_of:
  assumes "ok_crule ids c" "default_rule (c_id c) = None"
  shows "is_custom_id (c_id c) \<and> (\<exists>r. own_rule c = Some r \<and> r_id r = c_id c \<and> r_metric r \<noteq> ''offline'')"
  using assms by (cases c) (auto simp: own_rule_def METRICS_def split: option.splits)

lemma edited_offline_overrides:
  assumes "list_all (ok_crule ids) cs" "d \<in> set DEFAULT_RULES" "r_metric d = ''offline''"
  shows "list_all (\<lambda>ov. ov_threshold ov = None) (r_overrides (edited cs d))"
proof (cases "find (\<lambda>c. c_id c = r_id d) cs")
  case None
  with default_facts(5) [OF assms(2)] show ?thesis by (simp add: edited_def)
next
  case (Some c)
  moreover have "r_id d = ''offline''" using default_facts(4) [OF assms(2)] assms(3) by (simp add: offline_rule_def)
  ultimately have "ok_crule ids c" "c_id c = ''offline''"
    using assms(1) by (auto simp: list_all_iff dest!: find_SomeD)
  then show ?thesis
    using Some default_facts(5) [OF assms(2)]
    by (cases c) (auto simp: edited_def edit_default_def ok_overrides_def ok_override_def list_all_iff split: option.splits)
qed

lemma buildRules_offline_forNode:
  assumes "ok_file ids cs" "find (\<lambda>r. r_metric r = ''offline'') (buildRules cs) = Some off" "forNode off n = Some r"
  shows "r = off"
proof -
  have off: "r_metric off = ''offline''" "off \<in> set (buildRules cs)" using assms(2) by (auto dest: find_SomeD)
  have ok: "list_all (ok_crule ids) cs" using assms(1) by (simp add: ok_file_def)
  have "\<exists>d \<in> set DEFAULT_RULES. off = edited cs d"
    using set_buildRules [OF off(2)] off(1) ok own_rule_of [of ids] by (fastforce simp: list_all_iff)
  then have "list_all (\<lambda>ov. ov_threshold ov = None) (r_overrides off)"
    using edited_offline_overrides [OF ok] off(1) by auto
  with assms(3) show ?thesis
    by (auto simp: forNode_def find_override_def list_all_iff split: if_splits option.splits dest!: find_SomeD)
qed

lemma own_ids:
  assumes "list_all (ok_crule ids) cs"
  shows "map r_id (List.map_filter own_rule (filter (\<lambda>c. default_rule (c_id c) = None) cs)) =
    map c_id (filter (\<lambda>c. default_rule (c_id c) = None) cs)"
  using assms by (induction cs) (auto simp: List.map_filter_simps dest: own_rule_of)

lemma custom_id_barfree: "is_custom_id s \<Longrightarrow> barfree s"
  by (auto simp: is_custom_id_def in_class_def list_all_iff barfree_def is_lower_def is_digit_def split: list.splits)

lemma map_r_id_buildRules:
  assumes "ok_file ids cs"
  shows "map r_id (buildRules cs) = map r_id DEFAULT_RULES @ map c_id (filter (\<lambda>c. default_rule (c_id c) = None) cs)"
  using own_ids [of ids cs] assms by (simp add: buildRules_def ok_file_def flip: edited_def)

lemma buildRules_ids:
  assumes "ok_file ids cs"
  shows "distinct (map r_id (buildRules cs)) \<and> list_all (\<lambda>r. barfree (r_id r)) (buildRules cs)"
proof -
  let ?own = "filter (\<lambda>c. default_rule (c_id c) = None) cs"
  have "distinct (map c_id ?own)" using assms by (simp add: ok_file_def distinct_map_filter)
  moreover have "distinct (map r_id DEFAULT_RULES)" by code_simp
  moreover have "r_id d \<noteq> c_id c" if "d \<in> set DEFAULT_RULES" "c \<in> set ?own" for d c
    using default_facts(1) [OF that(1)] that(2) by auto
  moreover have "barfree (c_id c)" if "c \<in> set ?own" for c
    using that assms own_rule_of [of ids c] custom_id_barfree by (simp add: ok_file_def list_all_iff)
  ultimately have "distinct (map r_id (buildRules cs)) \<and> (\<forall>i \<in> set (map r_id (buildRules cs)). barfree i)"
    unfolding map_r_id_buildRules [OF assms] using default_facts(2) by auto
  then show ?thesis by (simp add: list_all_iff)
qed

definition demo_rules :: jsval where
  "demo_rules = JObj [(''rules'', JArr
    [JObj [(''id'', JStr ''disk_full''), (''threshold'', JNum (Fin 80)), (''clear'', JNum (Fin 75)),
       (''overrides'', JArr [JObj [(''tag'', JStr ''db''), (''threshold'', JNum (Fin 60))]])],
     JObj [(''id'', JStr ''offline''), (''overrides'', JArr [JObj [(''tag'', JStr ''lab''), (''off'', JBool True)]])],
     JObj [(''id'', JStr ''c_1''), (''name'', JStr '' hot ''), (''metric'', JStr ''temp''), (''op'', JStr ''>=''),
       (''threshold'', JNum (Fin 70)), (''for'', JNum (Fin 5)), (''clear'', JNum (Fin 65)), (''severity'', JStr ''info'')]])]"

definition demo_clean :: "crule list" where
  "demo_clean =
    [CDefault ''disk_full'' (Some 80) None (Some (Some 75)) None False [\<lparr>ov_who = ForTag ''db'', ov_threshold = Some 60\<rparr>],
     CDefault ''offline'' None None None None False [\<lparr>ov_who = ForTag ''lab'', ov_threshold = None\<rparr>],
     COwn ''c_1'' ''hot'' ''temp'' Ge 70 AllNodes [] 5 (Some 65) Info False []]"

lemma demo_rules_clean: "checkRules demo_rules (Some []) = Inr demo_clean"
  by code_simp

text \<open>
  C7. Saving the rules and reading them back gives the same rules: the clean file \<open>checkRules\<close>
  returns passes \<open>checkRules\<close> again and comes out as it is, so the hub can check \<^verbatim>\<open>rules.json\<close> on
  every start without changing it. The clean file keeps its bounds: at most 100 rules, no id twice,
  every rule well formed.
\<close>

theorem checkRules_roundtrip:
  assumes "checkRules v ids = Inr cs"
  shows "checkRules (rules_js cs) ids = Inr cs \<and> length cs \<le> MAX_RULES \<and> distinct (map c_id cs)"
  using checkRules_ok [OF assms] by (simp add: checkRules_js ok_file_def)

theorem checkRules_roundtrip_witness:
  "checkRules demo_rules (Some []) = Inr demo_clean \<and> checkRules (rules_js demo_clean) (Some []) = Inr demo_clean"
  using checkRules_roundtrip [OF demo_rules_clean] demo_rules_clean by simp

text \<open>
  No rule a person can set flaps: for every rule of a checked file, on every node and with
  its override there, a value that holds the alert never also ends it. (An override moves the
  clear value with the threshold.)
\<close>

theorem checked_rules_steady:
  assumes "checkRules v ids = Inr cs" "r \<in> set (buildRules cs)" "forNode r n = Some r'"
  shows "steady r'"
  using buildRules_steady [OF checkRules_ok [OF assms(1)] assms(2)] assms(3)
  by (blast intro: steady_rule_steady steady_rule_forNode)

theorem checked_rules_steady_witness:
  "\<exists>r \<in> set (buildRules demo_clean). \<exists>r'. forNode r \<lparr>n_id = ''abcdefghijkl'', n_name = ''a'', n_tags = [''db''], n_lastPush = 1,
     n_interval = None\<rparr> = Some r' \<and> r_threshold r' = 60 \<and> r_clear r' = Some 55 \<and> steady r'"
proof -
  let ?r = "edited demo_clean (mk_rule ''disk_full'' ''disk.used'' 90 5 Warning (Some 88))"
  let ?n = "\<lparr>n_id = ''abcdefghijkl'', n_name = ''a'', n_tags = [''db''], n_lastPush = 1, n_interval = None\<rparr>"
  have "?r \<in> set (buildRules demo_clean)" by code_simp
  moreover have "\<exists>r'. forNode ?r ?n = Some r' \<and> r_threshold r' = 60 \<and> r_clear r' = Some 55"
    by (simp add: edited_def demo_clean_def mk_rule_def edit_default_def forNode_def find_override_def in_scope_def)
  ultimately show ?thesis using checked_rules_steady [OF demo_rules_clean] by blast
qed

text \<open>
  C14. Whatever file a person saves, the engine's rules keep what the engine relies on: ids are
  unique and free of the bar that separates an instance's key, the rule for silent servers is
  there as the defaults have it (its threshold, time and clear value cannot be edited), and on a
  node it is either off or that same rule.
\<close>

theorem built_rules_sound:
  assumes "checkRules v ids = Inr cs"
  shows "distinct (map r_id (buildRules cs)) \<and> list_all (\<lambda>r. barfree (r_id r)) (buildRules cs) \<and>
    (\<exists>off. find (\<lambda>r. r_metric r = ''offline'') (buildRules cs) = Some off \<and> offline_rule off \<and>
       (\<forall>n. forNode off n \<in> {None, Some off}))"
proof -
  have ok: "ok_file ids cs" using assms by (rule checkRules_ok)
  obtain off where "find (\<lambda>r. r_metric r = ''offline'') (buildRules cs) = Some off" "offline_rule off"
    using buildRules_offline [OF ok] by blast
  moreover have "forNode off n \<in> {None, Some off}" for n
    using buildRules_offline_forNode [OF ok] calculation(1) by (cases "forNode off n") auto
  ultimately show ?thesis using buildRules_ids [OF ok] by blast
qed

theorem built_rules_sound_witness:
  "distinct (map r_id (buildRules demo_clean)) \<and> list_all (\<lambda>r. barfree (r_id r)) (buildRules demo_clean) \<and>
    (\<exists>off. find (\<lambda>r. r_metric r = ''offline'') (buildRules demo_clean) = Some off \<and> offline_rule off \<and>
       (\<forall>n. forNode off n \<in> {None, Some off}))"
  using built_rules_sound [OF demo_rules_clean] .

end
