(* ===== verification/Snapshot.thy ===== *)
theory Snapshot
  imports Js_Prelude
begin

text \<open>
  Snapshots, \<^verbatim>\<open>src/hub/lib/snapshot.js\<close>: \<open>validate\<close> takes the JSON an agent pushed (any \<open>jsval\<close>) and
  gives the clean snapshot with the paths of the groups it left out, or the path of the required
  part that refuses it; \<open>view\<close> adds what only the hub derives (rates, container CPU, the trend).

  A check of one member is a function of the value and its path (type \<open>check\<close>); \<open>Inl path\<close> is the
  exception \<^verbatim>\<open>Invalid(path)\<close>, and \<open>JUndef\<close> an absent value. The source writes an object's members
  as \<^verbatim>\<open>k: f(x.k, `${p}.k`)\<close> inside \<^verbatim>\<open>clean({...})\<close>: \<open>fields\<close> is that, over the list of keys and checks.
  The locale \<open>checker\<close> is the contract of a check: what it accepted it accepts again as it is, and
  what it gives is tame (numbers finite and bounded, strings short and printable, lists bounded).
\<close>

section \<open>Checks\<close>

type_synonym check = "jsval \<Rightarrow> string \<Rightarrow> string + jsval"

definition MAX_INT :: rat where "MAX_INT = 2 ^ 53"

definition blank_controls :: "string \<Rightarrow> string" where
  "blank_controls s = map (\<lambda>c. if is_control c then CHR '' '' else c) s"

definition str :: "nat \<Rightarrow> bool \<Rightarrow> check" where
  "str mx optional v p = (case v of
      JUndef \<Rightarrow> if optional then Inr JUndef else Inl p
    | JNull \<Rightarrow> if optional then Inr JUndef else Inl p
    | JStr s \<Rightarrow> Inr (JStr (take mx (blank_controls s)))
    | _ \<Rightarrow> Inl p)"

text \<open>The options are \<^verbatim>\<open>optional\<close>, \<^verbatim>\<open>int\<close> and \<^verbatim>\<open>nullable\<close>.\<close>

definition num :: "rat \<Rightarrow> rat \<Rightarrow> bool \<Rightarrow> bool \<Rightarrow> bool \<Rightarrow> check" where
  "num lo hi optional intg nullable v p = (case v of
      JUndef \<Rightarrow> if optional then Inr JUndef else Inl p
    | JNull \<Rightarrow> if nullable \<or> optional then Inr JNull else Inl p
    | JNum (Fin q) \<Rightarrow> if q < lo \<or> q > hi then Inl p else if intg \<and> q \<noteq> of_int \<lfloor>q\<rfloor> then Inl p else Inr v
    | _ \<Rightarrow> Inl p)"

definition oneOf :: "string list \<Rightarrow> check" where
  "oneOf allowed v p = (case v of
      JUndef \<Rightarrow> Inr JUndef
    | JNull \<Rightarrow> Inr JUndef
    | JStr s \<Rightarrow> if s \<in> set allowed then Inr v else Inl p
    | _ \<Rightarrow> Inl p)"

definition counter :: "bool \<Rightarrow> bool \<Rightarrow> check" where
  "counter optional nullable = num 0 MAX_INT optional True nullable"

definition bool_check :: check where
  "bool_check v p = (case v of
      JUndef \<Rightarrow> Inr JUndef
    | JNull \<Rightarrow> Inr JUndef
    | JBool b \<Rightarrow> Inr v
    | _ \<Rightarrow> Inl p)"

fun each_item :: "check \<Rightarrow> string \<Rightarrow> nat \<Rightarrow> jsval list \<Rightarrow> string + jsval list" where
  "each_item f p i [] = Inr []"
| "each_item f p i (v # vs) =
    bindE (f v (p @ ''['' @ show_nat i @ '']'')) (\<lambda>w.
    bindE (each_item f p (Suc i) vs) (\<lambda>ws. Inr (w # ws)))"

definition list_check :: "nat \<Rightarrow> check \<Rightarrow> check" where
  "list_check mx f v p = (case v of
      JUndef \<Rightarrow> Inr JUndef
    | JNull \<Rightarrow> Inr JUndef
    | JArr vs \<Rightarrow> bindE (each_item f p 0 (take mx vs)) (\<lambda>ws. Inr (JArr ws))
    | _ \<Rightarrow> Inl p)"

definition obj_check :: "bool \<Rightarrow> check \<Rightarrow> check" where
  "obj_check optional f v p = (case v of
      JUndef \<Rightarrow> if optional then Inr JUndef else Inl p
    | JNull \<Rightarrow> if optional then Inr JNull else Inl p
    | JObj kvs \<Rightarrow> f v p
    | _ \<Rightarrow> Inl p)"

text \<open>\<^verbatim>\<open>clean({ k: f(x.k, `${p}.k`), ... })\<close>: the members in order, the absent ones left out.\<close>

fun members :: "(string \<times> check) list \<Rightarrow> jsval \<Rightarrow> string \<Rightarrow> string + (string \<times> jsval) list" where
  "members [] x p = Inr []"
| "members ((k, f) # fs) x p =
    bindE (f (fld k x) (p @ ''.'' @ k)) (\<lambda>w.
    bindE (members fs x p) (\<lambda>ws. Inr (if w = JUndef then ws else (k, w) # ws)))"

definition fields :: "(string \<times> check) list \<Rightarrow> check" where
  "fields fs x p = bindE (members fs x p) (\<lambda>ws. Inr (JObj ws))"

section \<open>The groups of a snapshot\<close>

definition traffic :: check where
  "traffic = fields [(''rx'', counter True False), (''tx'', counter True False),
     (''avgRx'', num 0 MAX_INT True False False), (''avgTx'', num 0 MAX_INT True False False)]"

definition bar :: check where
  "bar = obj_check False (fields [(''label'', str 32 True), (''title'', str 32 True),
     (''rx'', counter True False), (''tx'', counter True False)])"

definition stall :: check where
  "stall = obj_check True (fields [(''some'', num 0 100 True False False), (''full'', num 0 100 True False False)])"

definition proc :: check where
  "proc = obj_check False (fields [(''pid'', num 0 (2 ^ 32) True True False), (''name'', str 64 True),
     (''cpuPct'', num 0 100000 True False False), (''rss'', counter True False)])"

definition host_check :: check where
  "host_check = obj_check False (fields [(''name'', str 64 False),
     (''os'', oneOf [''linux'', ''darwin'', ''windows'', ''freebsd'']), (''distro'', str 64 True), (''kernel'', str 64 True),
     (''uptime'', counter True False)])"

definition mem_check :: check where
  "mem_check = obj_check True (fields (map (\<lambda>k. (k, counter True False))
     [''total'', ''used'', ''available'', ''free'', ''cache'', ''swapTotal'', ''swapUsed'']))"

definition cpu_check :: check where
  "cpu_check = obj_check True (fields [(''usage'', num 0 100 True False False), (''cores'', num 1 4096 True True False),
     (''iowait'', num 0 100 True False False), (''steal'', num 0 100 True False False),
     (''per'', list_check 1024 (num 0 100 False False False)),
     (''load'', list_check 3 (num 0 1000000 False False False))])"

definition pressure_check :: check where
  "pressure_check = obj_check True (fields [(''cpu'', stall), (''mem'', stall), (''io'', stall)])"

text \<open>A labelled reading: a temperature sensor, a fan, a voltage.\<close>

definition reading :: "string \<Rightarrow> rat \<Rightarrow> rat \<Rightarrow> check" where
  "reading k lo hi = obj_check False (fields [(''label'', str 128 True), (k, num lo hi False False False)])"

definition temp_check :: check where
  "temp_check = obj_check True (fields [(''package'', num (-50) 150 True False True), (''max'', num (-50) 150 True False True),
     (''sensors'', list_check 64 (reading ''value'' (-50) 150))])"

definition battery_check :: check where
  "battery_check = obj_check True (fields [(''capacity'', num 0 100 True False False), (''status'', str 16 True)])"

definition disk_check :: check where
  "disk_check = obj_check False (fields [(''mount'', str 128 False), (''mounted'', bool_check), (''source'', str 128 True),
     (''model'', str 128 True), (''fstype'', str 128 True), (''rotational'', bool_check), (''size'', counter True False),
     (''used'', counter True False), (''avail'', counter True False), (''pct'', num 0 100 True False False),
     (''device'', str 128 True)])"

definition io_check :: check where
  "io_check = obj_check False (fields [(''device'', str 128 False), (''readBytes'', counter True False),
     (''writeBytes'', counter True False)])"

definition vnstat_check :: check where
  "vnstat_check = obj_check True (fields [(''today'', obj_check True traffic), (''month'', obj_check True traffic),
     (''total'', obj_check True traffic), (''days'', list_check 31 bar), (''hours'', list_check 24 bar)])"

definition net_check :: check where
  "net_check = obj_check True (fields [(''iface'', str 128 True), (''rxBytes'', counter True False),
     (''txBytes'', counter True False), (''vnstat'', vnstat_check)])"

definition health_check :: check where
  "health_check v p = (if v = JNull then Inr JNull else str 32 True v p)"

definition container_check :: check where
  "container_check = obj_check False (fields [(''name'', str 128 False), (''id'', str 128 True), (''state'', str 32 True),
     (''status'', str 128 True), (''health'', health_check), (''cpuUsec'', counter True True), (''mem'', counter True True)])"

definition processes_check :: check where
  "processes_check = obj_check True (fields [(''cpu'', list_check 5 proc), (''mem'', list_check 5 proc)])"

definition ubuntu_check :: check where
  "ubuntu_check = obj_check True (fields [(''updates'', num 0 1000000 True True False),
     (''security'', num 0 1000000 True True False), (''rebootRequired'', bool_check),
     (''rebootPkgs'', list_check 32 (str 128 False)), (''failedUnits'', list_check 32 (str 128 False))])"

text \<open>The members of a snapshot: whether each is an optional group (\<^verbatim>\<open>opt(...)\<close>) and its check.\<close>

definition snapshot_members :: "(string \<times> bool \<times> check) list" where
  "snapshot_members =
    [(''schema'', False, num 1 1 False True False), (''ts'', False, counter False False),
     (''interval'', False, num 5 3600 False True False), (''agent'', True, str 32 True), (''host'', False, host_check),
     (''mem'', True, mem_check), (''cpu'', True, cpu_check), (''pressure'', True, pressure_check),
     (''temp'', True, temp_check), (''fans'', True, list_check 32 (reading ''rpm'' 0 1000000)),
     (''voltages'', True, list_check 32 (reading ''value'' (-1000) 1000)), (''battery'', True, battery_check),
     (''disks'', True, list_check 32 disk_check), (''io'', True, list_check 32 io_check), (''net'', True, net_check),
     (''docker'', True, list_check 200 container_check), (''processes'', True, processes_check),
     (''ubuntu'', True, ubuntu_check)]"

fun build_members :: "(string \<times> bool \<times> check) list \<Rightarrow> jsval \<Rightarrow> string + (string \<times> jsval) list \<times> string list" where
  "build_members [] s = Inr ([], [])"
| "build_members ((k, opt, f) # ms) s = (case f (fld k s) (''$.'' @ k) of
      Inl path \<Rightarrow>
        if opt then bindE (build_members ms s) (\<lambda>(ws, ds). Inr (ws, path # ds)) else Inl path
    | Inr w \<Rightarrow>
        bindE (build_members ms s) (\<lambda>(ws, ds). Inr (if w = JUndef then ws else (k, w) # ws, ds)))"

definition build :: "jsval \<Rightarrow> string + jsval \<times> string list" where
  "build s = (if \<not> is_obj s then Inl ''$'' else
     bindE (build_members snapshot_members s) (\<lambda>(ws, ds). Inr (JObj ws, ds)))"

definition validate :: "jsval \<Rightarrow> string + jsval \<times> string list" where
  "validate s = build s"

section \<open>The view\<close>

text \<open>Arithmetic on a member: \<^verbatim>\<open>undefined\<close> is NaN, \<^verbatim>\<open>null\<close> is 0 (\<open>None\<close> is NaN).\<close>

fun to_num :: "jsval \<Rightarrow> rat option" where
  "to_num (JNum (Fin q)) = Some q"
| "to_num JNull = Some 0"
| "to_num _ = None"

definition num_or_nan :: "rat option \<Rightarrow> jsval" where
  "num_or_nan x = (case x of None \<Rightarrow> JNum NaN | Some q \<Rightarrow> JNum (Fin q))"

definition num_or_null :: "rat option \<Rightarrow> jsval" where
  "num_or_null x = (case x of None \<Rightarrow> JNull | Some q \<Rightarrow> JNum (Fin q))"

definition js_rate :: "jsval \<Rightarrow> jsval \<Rightarrow> rat \<Rightarrow> jsval" where
  "js_rate cur prev dtMs = (case (finite_num cur, finite_num prev) of
      (Some c, Some p) \<Rightarrow>
        if \<not> dtMs > 0 \<or> c < p then JNull else JNum (Fin (of_int (js_round ((c - p) / (dtMs / 1000)))))
    | _ \<Rightarrow> JNull)"

definition TREND_LEN :: nat where "TREND_LEN = 60"

text \<open>\<^verbatim>\<open>m && m.total > 0 ? Math.round(m.used * k / m.total) : null\<close>, with the factor and the
  division after the rounding.\<close>

definition mem_share :: "rat \<Rightarrow> rat \<Rightarrow> jsval \<Rightarrow> jsval" where
  "mem_share k d m = (case finite_num (fld ''total'' m) of
      Some t \<Rightarrow> if t > 0 then num_or_nan (map_option (\<lambda>u. of_int (js_round (u * k / t)) / d) (to_num (fld ''used'' m))) else JNull
    | None \<Rightarrow> JNull)"

definition trendPoint :: "jsval \<Rightarrow> jsval" where
  "trendPoint s = JObj [(''cpu'', num_or_null (finite_num (fld ''usage'' (fld ''cpu'' s)))),
     (''mem'', mem_share 1000 10 (fld ''mem'' s)),
     (''temp'', num_or_null (finite_num (fld ''package'' (fld ''temp'' s))))]"

definition arr_or_empty :: "jsval \<Rightarrow> jsval list" where
  "arr_or_empty v = (case v of JArr xs \<Rightarrow> xs | _ \<Rightarrow> [])"

text \<open>\<^verbatim>\<open>new Map(xs.map((x) => [key(x), x])).get(k)\<close>: the last of the items with the key.\<close>

definition last_with :: "('a \<Rightarrow> 'k) \<Rightarrow> 'a list \<Rightarrow> 'k \<Rightarrow> 'a option" where
  "last_with key xs k = find (\<lambda>x. key x = k) (rev xs)"

definition view_net :: "jsval \<Rightarrow> jsval \<Rightarrow> rat \<Rightarrow> jsval" where
  "view_net cur prev dt =
    (let n = fld ''net'' cur; pn = fld ''net'' prev; v = fld ''vnstat'' n;
         same = truthy pn \<and> fld ''iface'' pn = fld ''iface'' n in
     JObj [(''iface'', fld ''iface'' n),
       (''rateRx'', if same then js_rate (fld ''rxBytes'' n) (fld ''rxBytes'' pn) dt else JNull),
       (''rateTx'', if same then js_rate (fld ''txBytes'' n) (fld ''txBytes'' pn) dt else JNull),
       (''today'', fld ''today'' v), (''month'', fld ''month'' v), (''total'', fld ''total'' v), (''days'', fld ''days'' v),
       (''hours'', fld ''hours'' v)])"

definition view_io :: "jsval list \<Rightarrow> rat \<Rightarrow> jsval \<Rightarrow> jsval" where
  "view_io before dt d = (case last_with (fld ''device'') before (fld ''device'' d) of
      None \<Rightarrow> JObj [(''device'', fld ''device'' d), (''readRate'', JNull), (''writeRate'', JNull)]
    | Some p \<Rightarrow> JObj [(''device'', fld ''device'' d), (''readRate'', js_rate (fld ''readBytes'' d) (fld ''readBytes'' p) dt),
        (''writeRate'', js_rate (fld ''writeBytes'' d) (fld ''writeBytes'' p) dt)])"

definition container_key :: "jsval \<Rightarrow> jsval" where
  "container_key c = (if truthy (fld ''id'' c) then fld ''id'' c else fld ''name'' c)"

definition container_cpu :: "jsval list \<Rightarrow> rat \<Rightarrow> rat \<Rightarrow> jsval \<Rightarrow> jsval" where
  "container_cpu before dt cores c = (case last_with container_key before (container_key c) of
      None \<Rightarrow> JNull
    | Some p \<Rightarrow> (case (finite_num (fld ''cpuUsec'' c), finite_num (fld ''cpuUsec'' p)) of
        (Some a, Some b) \<Rightarrow>
          if dt > 0 \<and> a \<ge> b
          then JNum (Fin (min 100 (of_int (js_round (1000 * (a - b) / (dt * 1000 * cores))) / 10)))
          else JNull
      | _ \<Rightarrow> JNull))"

definition view_container :: "jsval list \<Rightarrow> rat \<Rightarrow> rat \<Rightarrow> jsval \<Rightarrow> jsval" where
  "view_container before dt cores c = (case c of
      JObj kvs \<Rightarrow> JObj (AList.update ''cpu'' (container_cpu before dt cores c) (AList.delete ''cpuUsec'' kvs))
    | _ \<Rightarrow> c)"

definition set_if :: "bool \<Rightarrow> string \<Rightarrow> jsval \<Rightarrow> (string \<times> jsval) list \<Rightarrow> (string \<times> jsval) list" where
  "set_if b k v o' = (if b then AList.update k v o' else o')"

text \<open>\<open>prev\<close> is \<open>JUndef\<close> when there is no earlier snapshot.\<close>

definition view :: "jsval \<Rightarrow> jsval \<Rightarrow> jsval list \<Rightarrow> jsval" where
  "view cur prev trend = (case cur of
      JObj kvs \<Rightarrow>
        let dt = (case (finite_num (fld ''ts'' cur), finite_num (fld ''ts'' prev)) of (Some a, Some b) \<Rightarrow> a - b | _ \<Rightarrow> 0);
            cores = (case finite_num (fld ''cores'' (fld ''cpu'' cur)) of Some c \<Rightarrow> if c = 0 then 1 else c | None \<Rightarrow> 1) in
        JObj (AList.update ''trend'' (JArr (slice_last TREND_LEN (trend @ [trendPoint cur])))
          (set_if (truthy (fld ''docker'' cur)) ''docker''
             (JArr (map (view_container (arr_or_empty (fld ''docker'' prev)) dt cores) (arr_or_empty (fld ''docker'' cur))))
          (set_if (truthy (fld ''io'' cur)) ''io''
             (JArr (map (view_io (arr_or_empty (fld ''io'' prev)) dt) (arr_or_empty (fld ''io'' cur))))
          (set_if (truthy (fld ''net'' cur)) ''net'' (view_net cur prev dt) kvs))))
    | _ \<Rightarrow> cur)"

section \<open>The contract of a check\<close>

text \<open>What may be stored: finite bounded numbers, short printable strings, bounded lists.\<close>

fun tame :: "jsval \<Rightarrow> bool" where
  "tame JUndef = True"
| "tame JNull = True"
| "tame (JBool b) = True"
| "tame (JNum n) = (case n of Fin q \<Rightarrow> \<bar>q\<bar> \<le> MAX_INT | _ \<Rightarrow> False)"
| "tame (JStr s) = (length s \<le> 128 \<and> list_all (\<lambda>c. \<not> is_control c) s)"
| "tame (JArr vs) = (length vs \<le> 1024 \<and> list_all tame vs)"
| "tame (JObj kvs) = list_all (\<lambda>kv. tame (snd kv)) kvs"

locale checker =
  fixes f :: check
  assumes again: "f v p = Inr w \<Longrightarrow> f w q = Inr w"
    and tame: "f v p = Inr w \<Longrightarrow> tame w"
begin

lemma each_item_again: "each_item f p i vs = Inr ws \<Longrightarrow> each_item f q j ws = Inr ws"
  by (induction vs arbitrary: i j ws) (auto dest: again)

lemma each_item_tame: "each_item f p i vs = Inr ws \<Longrightarrow> list_all tame ws"
  by (induction vs arbitrary: i ws) (auto dest: tame)

lemma each_item_length: "each_item f p i vs = Inr ws \<Longrightarrow> length ws = length vs"
  by (induction vs arbitrary: i ws) auto

lemma each_item_take: "each_item f p i (take mx vs) = Inr ws \<Longrightarrow> length ws \<le> mx"
  using each_item_length by fastforce

lemma list_checker:
  assumes "mx \<le> 1024"
  shows "checker (list_check mx f)"
proof
  fix v p w q
  assume *: "list_check mx f v p = Inr w"
  then have "w = JUndef \<or> (\<exists>vs ws. w = JArr ws \<and> each_item f p 0 (take mx vs) = Inr ws)"
    by (auto simp: list_check_def split: jsval.splits)
  then consider "w = JUndef" | vs ws where "w = JArr ws" "each_item f p 0 (take mx vs) = Inr ws" by blast
  then have "list_check mx f w q = Inr w \<and> Snapshot.tame w"
  proof cases
    case 2
    with each_item_take [OF 2(2)] each_item_again [OF 2(2)] each_item_tame [OF 2(2)] assms show ?thesis
      by (simp add: list_check_def)
  qed (simp add: list_check_def)
  then show "list_check mx f w q = Inr w" "Snapshot.tame w" by simp_all
qed

end

text \<open>A check that builds an object, for \<^verbatim>\<open>obj(v, path, build)\<close>.\<close>

locale obj_checker = checker +
  assumes gives_obj: "f v p = Inr w \<Longrightarrow> is_obj w"
begin

lemma obj_check_checker: "checker (obj_check opt f)"
proof
  fix v p w q
  assume "obj_check opt f v p = Inr w"
  then have "opt \<and> w \<in> {JUndef, JNull} \<or> f v p = Inr w"
    by (auto simp: obj_check_def split: jsval.splits if_splits)
  then show "obj_check opt f w q = Inr w" "Snapshot.tame w"
    by (auto simp: obj_check_def is_obj_def again tame dest: gives_obj split: jsval.splits)
qed

end

lemma is_control_space: "\<not> is_control CHR '' ''"
  by (simp add: is_control_def)

lemma blank_controls_printable: "list_all (\<lambda>c. \<not> is_control c) (blank_controls s)"
  by (auto simp: blank_controls_def list_all_iff is_control_space)

lemma blank_controls_id: "list_all (\<lambda>c. \<not> is_control c) s \<Longrightarrow> blank_controls s = s"
  by (induction s) (auto simp: blank_controls_def)

lemma str_checker: "mx \<le> 128 \<Longrightarrow> checker (str mx opt)"
proof
  fix v p w q
  assume "mx \<le> 128" and *: "str mx opt v p = Inr w"
  have pr: "list_all (\<lambda>c. \<not> is_control c) (take mx (blank_controls s))" for s
    using blank_controls_printable [of s] by (auto simp: list_all_iff dest: in_set_takeD)
  show "str mx opt w q = Inr w" "tame w"
    using * pr \<open>mx \<le> 128\<close> blank_controls_id [OF pr]
    by (auto simp: str_def split: jsval.splits if_splits)
qed

lemma num_checker: "- MAX_INT \<le> lo \<Longrightarrow> hi \<le> MAX_INT \<Longrightarrow> checker (num lo hi opt intg nullable)"
  by unfold_locales (auto simp: num_def split: jsval.splits jnum.splits if_splits)

lemma counter_checker: "checker (counter opt nullable)"
  unfolding counter_def by (rule num_checker) (simp_all add: MAX_INT_def)

lemma oneOf_checker: "list_all (\<lambda>s. tame (JStr s)) allowed \<Longrightarrow> checker (oneOf allowed)"
  by unfold_locales (auto simp: oneOf_def list_all_iff split: jsval.splits if_splits)

interpretation bools: checker bool_check
  by unfold_locales (auto simp: bool_check_def split: jsval.splits)

lemma members_ConsD:
  assumes "members ((k, f) # fs) x p = Inr ws"
  shows "\<exists>w ws'. f (fld k x) (p @ ''.'' @ k) = Inr w \<and> members fs x p = Inr ws' \<and>
    ws = (if w = JUndef then ws' else (k, w) # ws')"
  using assms by auto

lemma members_keys: "members fs x p = Inr ws \<Longrightarrow> fst ` set ws \<subseteq> fst ` set fs"
proof (induction fs arbitrary: ws)
  case (Cons kf fs)
  obtain k f where kf: "kf = (k, f)" by (cases kf)
  obtain w ws' where "members fs x p = Inr ws'" and ws: "ws = (if w = JUndef then ws' else (k, w) # ws')"
    using members_ConsD [OF Cons.prems [unfolded kf]] by blast
  then have "fst ` set ws' \<subseteq> fst ` set fs" using Cons.IH by blast
  then show ?case unfolding ws kf by (cases "w = JUndef") auto
qed simp

lemma members_tame:
  "members fs x p = Inr ws \<Longrightarrow> list_all (\<lambda>kf. checker (snd kf)) fs \<Longrightarrow> list_all (\<lambda>kv. tame (snd kv)) ws"
proof (induction fs arbitrary: ws)
  case (Cons kf fs)
  obtain k f where kf: "kf = (k, f)" by (cases kf)
  obtain w ws' where w: "f (fld k x) (p @ ''.'' @ k) = Inr w" "members fs x p = Inr ws'"
    and ws: "ws = (if w = JUndef then ws' else (k, w) # ws')"
    using members_ConsD [OF Cons.prems(1) [unfolded kf]] by blast
  have "tame w" using checker.tame [of f, OF _ w(1)] Cons.prems(2) by (simp add: kf)
  moreover have "list_all (\<lambda>kv. tame (snd kv)) ws'" using Cons.IH [OF w(2)] Cons.prems(2) by simp
  ultimately show ?case unfolding ws by simp
qed simp

lemma fld_none: "k \<notin> fst ` set ws \<Longrightarrow> fld k (JObj ws) = JUndef"
  by (simp add: map_of_eq_None_iff [THEN iffD2])

lemma fld_kept:
  "k \<notin> fst ` set ws \<Longrightarrow> fld k (JObj (if w = JUndef then ws else (k, w) # ws)) = w"
  "k' \<noteq> k \<Longrightarrow> fld k' (JObj (if w = JUndef then ws else (k, w) # ws)) = fld k' (JObj ws)"
  by (auto simp: fld_none simp del: fld.simps) simp_all

lemma members_again:
  "members fs x p = Inr ws \<Longrightarrow> list_all (\<lambda>kf. checker (snd kf)) fs \<Longrightarrow> distinct (map fst fs) \<Longrightarrow>
     \<forall>k \<in> fst ` set fs. fld k y = fld k (JObj ws) \<Longrightarrow> members fs y q = Inr ws"
proof (induction fs arbitrary: ws)
  case (Cons kf fs)
  obtain k f where kf: "kf = (k, f)" by (cases kf)
  obtain w ws' where w: "f (fld k x) (p @ ''.'' @ k) = Inr w" "members fs x p = Inr ws'"
    and ws: "ws = (if w = JUndef then ws' else (k, w) # ws')"
    using members_ConsD [OF Cons.prems(1) [unfolded kf]] by blast
  have k: "k \<notin> fst ` set ws'" using members_keys [OF w(2)] Cons.prems(3) by (auto simp: kf)
  have "f (fld k y) r = Inr w" for r
    using checker.again [of f, OF _ w(1)] Cons.prems(2,4) fld_kept(1) [OF k] by (simp add: kf ws del: fld.simps)
  moreover have "\<forall>k' \<in> fst ` set fs. fld k' y = fld k' (JObj ws')"
  proof
    fix k' assume "k' \<in> fst ` set fs"
    moreover from this have "k' \<noteq> k" using Cons.prems(3) by (auto simp: kf)
    moreover have "fld k' y = fld k' (JObj ws)" using Cons.prems(4) calculation(1) unfolding kf by auto
    ultimately show "fld k' y = fld k' (JObj ws')" using fld_kept(2) [of k' k w ws'] unfolding ws by argo
  qed
  with Cons.IH [OF w(2)] Cons.prems(2,3) have "members fs y q = Inr ws'" by (simp add: kf)
  ultimately show ?case by (simp add: kf ws)
qed simp

lemma fields_checker:
  assumes "list_all (\<lambda>kf. checker (snd kf)) fs" "distinct (map fst fs)"
  shows "obj_checker (fields fs)"
  by unfold_locales
    (auto simp: fields_def members_tame [OF _ assms(1)] simp del: fld.simps intro: members_again [OF _ assms])

lemma obj_fields_checker:
  "list_all (\<lambda>kf. checker (snd kf)) fs \<Longrightarrow> distinct (map fst fs) \<Longrightarrow> checker (obj_check opt (fields fs))"
  by (rule obj_checker.obj_check_checker [OF fields_checker])

lemma health_checker: "checker health_check"
proof -
  have "checker (str 32 True)" by (rule str_checker) simp
  then show ?thesis
    unfolding checker_def by (auto simp: health_check_def str_def split: jsval.splits)
qed

lemmas basic_checkers = str_checker num_checker counter_checker oneOf_checker health_checker
  bools.checker_axioms checker.list_checker

section \<open>Every group keeps the contract\<close>

interpretation traffic_obj: obj_checker traffic
  unfolding traffic_def by (rule fields_checker) (simp_all add: basic_checkers MAX_INT_def)

interpretation bars: checker bar
  unfolding bar_def by (rule obj_fields_checker) (simp_all add: basic_checkers)

interpretation stalls: checker stall
  unfolding stall_def by (rule obj_fields_checker) (simp_all add: basic_checkers MAX_INT_def)

interpretation procs: checker proc
  unfolding proc_def by (rule obj_fields_checker) (simp_all add: basic_checkers MAX_INT_def)

interpretation hosts: checker host_check
  unfolding host_check_def by (rule obj_fields_checker) (simp_all add: basic_checkers is_control_def)

interpretation mems: checker mem_check
  unfolding mem_check_def by (rule obj_fields_checker) (simp_all add: basic_checkers)

interpretation cpus: checker cpu_check
  unfolding cpu_check_def by (rule obj_fields_checker) (simp_all add: basic_checkers MAX_INT_def)

interpretation pressures: checker pressure_check
  unfolding pressure_check_def by (rule obj_fields_checker) (simp_all add: stalls.checker_axioms)

lemma reading_checker: "- MAX_INT \<le> lo \<Longrightarrow> hi \<le> MAX_INT \<Longrightarrow> k \<noteq> ''label'' \<Longrightarrow> checker (reading k lo hi)"
  unfolding reading_def by (rule obj_fields_checker) (simp_all add: basic_checkers)

interpretation temps: checker temp_check
  unfolding temp_check_def by (rule obj_fields_checker) (simp_all add: basic_checkers reading_checker MAX_INT_def)

interpretation batteries: checker battery_check
  unfolding battery_check_def by (rule obj_fields_checker) (simp_all add: basic_checkers MAX_INT_def)

interpretation disks: checker disk_check
  unfolding disk_check_def by (rule obj_fields_checker) (simp_all add: basic_checkers MAX_INT_def)

interpretation ios: checker io_check
  unfolding io_check_def by (rule obj_fields_checker) (simp_all add: basic_checkers)

interpretation vnstats: checker vnstat_check
  unfolding vnstat_check_def
  by (rule obj_fields_checker) (simp_all add: basic_checkers bars.checker_axioms traffic_obj.obj_check_checker)

interpretation nets: checker net_check
  unfolding net_check_def by (rule obj_fields_checker) (simp_all add: basic_checkers vnstats.checker_axioms)

interpretation containers: checker container_check
  unfolding container_check_def by (rule obj_fields_checker) (simp_all add: basic_checkers)

interpretation processes: checker processes_check
  unfolding processes_check_def by (rule obj_fields_checker) (simp_all add: basic_checkers procs.checker_axioms)

interpretation ubuntus: checker ubuntu_check
  unfolding ubuntu_check_def by (rule obj_fields_checker) (simp_all add: basic_checkers MAX_INT_def)

lemma snapshot_checkers: "list_all (\<lambda>(k, opt, f). checker f) snapshot_members"
  by (simp add: snapshot_members_def basic_checkers reading_checker MAX_INT_def hosts.checker_axioms mems.checker_axioms
      cpus.checker_axioms pressures.checker_axioms temps.checker_axioms batteries.checker_axioms disks.checker_axioms
      ios.checker_axioms nets.checker_axioms containers.checker_axioms processes.checker_axioms ubuntus.checker_axioms)

section \<open>Validation as a whole\<close>

definition group_of :: "jsval \<Rightarrow> string \<times> bool \<times> check \<Rightarrow> string + jsval" where
  "group_of s m = (case m of (k, opt, f) \<Rightarrow> f (fld k s) (''$.'' @ k))"

text \<open>One member at a time: refused, left out with its path, or kept.\<close>

lemma build_members_Cons:
  "build_members (m # ms) s = (case group_of s m of
      Inl path \<Rightarrow> if fst (snd m) then bindE (build_members ms s) (\<lambda>r. Inr (fst r, path # snd r)) else Inl path
    | Inr w \<Rightarrow> bindE (build_members ms s) (\<lambda>r. Inr (if w = JUndef then fst r else (fst m, w) # fst r, snd r)))"
  by (cases m; cases "build_members ms s") (auto simp: group_of_def split_beta split: sum.splits)

lemma build_members_ConsD:
  assumes "build_members (m # ms) s = Inr (ws, ds)"
  shows "\<exists>ws' ds'. build_members ms s = Inr (ws', ds') \<and>
    ((\<exists>path. group_of s m = Inl path \<and> fst (snd m) \<and> ws = ws' \<and> ds = path # ds') \<or>
     (\<exists>w. group_of s m = Inr w \<and> ws = (if w = JUndef then ws' else (fst m, w) # ws') \<and> ds = ds'))"
  using assms unfolding build_members_Cons by (cases "group_of s m") (auto split: if_splits)

declare build_members.simps(2) [simp del]

lemma build_members_refuses:
  "isl (build_members ms s) \<longleftrightarrow> (\<exists>m \<in> set ms. \<not> fst (snd m) \<and> isl (group_of s m))"
proof (induction ms)
  case (Cons m ms)
  then show ?case
    by (cases "group_of s m"; cases "build_members ms s") (auto simp: build_members_Cons)
qed simp

lemma distinct_fst_neq: "distinct (map fst (m0 # ms)) \<Longrightarrow> m \<in> set ms \<Longrightarrow> fst m \<noteq> fst m0"
  by (metis distinct.simps(2) imageI list.map(2) list.set_map)

lemma build_members_keys: "build_members ms s = Inr (ws, ds) \<Longrightarrow> fst ` set ws \<subseteq> fst ` set ms"
proof (induction ms arbitrary: ws ds)
  case (Cons m ms)
  from build_members_ConsD [OF Cons.prems] obtain ws' ds' w where
    "build_members ms s = Inr (ws', ds')" "ws = (if w = JUndef then ws' else (fst m, w) # ws')" by metis
  then have "fst ` set ws' \<subseteq> fst ` set ms" "ws = ws' \<or> ws = (fst m, w) # ws'" using Cons.IH by auto
  then show ?case by (elim disjE) auto
qed simp

definition kept_group :: "jsval \<Rightarrow> jsval \<Rightarrow> string list \<Rightarrow> string \<times> bool \<times> check \<Rightarrow> bool" where
  "kept_group s v ds m = (case group_of s m of
      Inl path \<Rightarrow> fst (snd m) \<and> path \<in> set ds \<and> fld (fst m) v = JUndef
    | Inr w \<Rightarrow> fld (fst m) v = w)"

lemma build_members_groups:
  "build_members ms s = Inr (ws, ds) \<Longrightarrow> distinct (map fst ms) \<Longrightarrow> m \<in> set ms \<Longrightarrow> kept_group s (JObj ws) ds m"
proof (induction ms arbitrary: ws ds)
  case (Cons m0 ms)
  obtain ws' ds' where rest: "build_members ms s = Inr (ws', ds')"
    and step: "(\<exists>path. group_of s m0 = Inl path \<and> fst (snd m0) \<and> ws = ws' \<and> ds = path # ds') \<or>
     (\<exists>w. group_of s m0 = Inr w \<and> ws = (if w = JUndef then ws' else (fst m0, w) # ws') \<and> ds = ds')"
    using build_members_ConsD [OF Cons.prems(1)] by blast
  have k0: "fst m0 \<notin> fst ` set ws'" using build_members_keys [OF rest] Cons.prems(2) by auto
  show ?case
  proof (cases "m = m0")
    case True
    from step show ?thesis
      by (auto simp: True kept_group_def fld_none [OF k0] fld_kept(1) [OF k0] simp del: fld.simps)
  next
    case False
    then have "m \<in> set ms" using Cons.prems(3) by simp
    moreover have "fst m \<noteq> fst m0" using distinct_fst_neq [OF Cons.prems(2) calculation] .
    moreover have "fld (fst m) (JObj ws) = fld (fst m) (JObj ws')" "set ds' \<subseteq> set ds"
      using step fld_kept(2) [OF calculation(2)] by (auto simp del: fld.simps)
    moreover have "kept_group s (JObj ws') ds' m" using Cons.IH [OF rest] Cons.prems(2) calculation(1) by simp
    ultimately show ?thesis
      by (auto simp: kept_group_def simp del: fld.simps split: sum.splits)
  qed
qed simp

lemma build_members_again:
  assumes "list_all (\<lambda>m. case group_of y m of Inl _ \<Rightarrow> False | Inr w \<Rightarrow> w = fld (fst m) y) ms"
  shows "build_members ms y = Inr (filter (\<lambda>kv. snd kv \<noteq> JUndef) (map (\<lambda>m. (fst m, fld (fst m) y)) ms), [])"
  using assms by (induction ms) (auto simp: build_members_Cons split: sum.splits)

lemma build_members_list:
  "build_members ms s = Inr (ws, ds) \<Longrightarrow> distinct (map fst ms) \<Longrightarrow>
     ws = filter (\<lambda>kv. snd kv \<noteq> JUndef) (map (\<lambda>m. (fst m, fld (fst m) (JObj ws))) ms)"
proof (induction ms arbitrary: ws ds)
  case (Cons m ms)
  obtain ws' ds' w where rest: "build_members ms s = Inr (ws', ds')" and ws: "ws = (if w = JUndef then ws' else (fst m, w) # ws')"
    using build_members_ConsD [OF Cons.prems(1)] by metis
  have k0: "fst m \<notin> fst ` set ws'" using build_members_keys [OF rest] Cons.prems(2) by auto
  have A: "map (\<lambda>m. (fst m, fld (fst m) (JObj ws))) ms = map (\<lambda>m. (fst m, fld (fst m) (JObj ws'))) ms"
  proof (rule map_cong [OF refl])
    fix m' assume "m' \<in> set ms"
    then have "fst m' \<noteq> fst m" using distinct_fst_neq [OF Cons.prems(2)] by blast
    then show "(fst m', fld (fst m') (JObj ws)) = (fst m', fld (fst m') (JObj ws'))"
      unfolding ws using fld_kept(2) by simp
  qed
  have B: "filter (\<lambda>kv. snd kv \<noteq> JUndef) (map (\<lambda>m. (fst m, fld (fst m) (JObj ws'))) ms) = ws'"
    using Cons.IH [OF rest] Cons.prems(2) by simp
  have C: "fld (fst m) (JObj ws) = w" unfolding ws by (rule fld_kept(1) [OF k0])
  show ?case unfolding list.map(2) A C filter.simps(2) B snd_conv by (simp add: ws)
qed simp

lemma snapshot_keys: "distinct (map fst snapshot_members)"
  by (simp add: snapshot_members_def)

text \<open>A group that is absent is taken as absent: only the required members refuse it.\<close>

lemma optional_absent: "list_all (\<lambda>(k, opt, f). opt \<longrightarrow> (\<forall>p. f JUndef p = Inr JUndef)) snapshot_members"
  by (simp add: snapshot_members_def str_def list_check_def mem_check_def cpu_check_def pressure_check_def temp_check_def
      battery_check_def net_check_def processes_check_def ubuntu_check_def obj_check_def)

lemma kept_group_again:
  assumes "kept_group s v ds m" "checker f" "m = (k, opt, f)" "opt \<longrightarrow> (\<forall>p. f JUndef p = Inr JUndef)"
  shows "group_of v m = Inr (fld k v)"
proof (cases "group_of s m")
  case (Inl path)
  with assms show ?thesis by (simp add: kept_group_def group_of_def del: fld.simps)
next
  case (Inr w)
  then have "fld k v = w" "f (fld k s) (''$.'' @ k) = Inr w"
    using assms(1,3) by (simp_all add: kept_group_def group_of_def del: fld.simps)
  with checker.again [OF assms(2)] assms(3) show ?thesis by (simp add: group_of_def del: fld.simps)
qed

lemma validate_Inr:
  assumes "validate s = Inr (v, ds)"
  obtains ws where "v = JObj ws" "build_members snapshot_members s = Inr (ws, ds)" "is_obj s"
  using assms by (auto simp: validate_def build_def split: if_splits)

lemma validated_groups:
  assumes "validate s = Inr (v, ds)" "m \<in> set snapshot_members"
  shows "kept_group s v ds m" "group_of v m = Inr (fld (fst m) v)"
proof -
  obtain ws where v: "v = JObj ws" "build_members snapshot_members s = Inr (ws, ds)" using assms(1) by (rule validate_Inr)
  show 1: "kept_group s v ds m" unfolding v(1) by (rule build_members_groups [OF v(2) snapshot_keys assms(2)])
  obtain k opt f where m: "m = (k, opt, f)" by (cases m)
  have "checker f" "opt \<longrightarrow> (\<forall>p. f JUndef p = Inr JUndef)"
    using snapshot_checkers optional_absent assms(2) unfolding m list_all_iff by auto
  from kept_group_again [OF 1 this(1) m this(2)] show "group_of v m = Inr (fld (fst m) v)" by (simp add: m)
qed

lemma validated_again:
  assumes "validate s = Inr (v, ds)"
  shows "validate v = Inr (v, [])"
proof -
  obtain ws where v: "v = JObj ws" "build_members snapshot_members s = Inr (ws, ds)" using assms by (rule validate_Inr)
  have "list_all (\<lambda>m. case group_of v m of Inl _ \<Rightarrow> False | Inr w \<Rightarrow> w = fld (fst m) v) snapshot_members"
    using validated_groups(2) [OF assms] by (simp add: list_all_iff)
  from build_members_again [OF this] build_members_list [OF v(2) snapshot_keys]
  show ?thesis by (simp add: validate_def build_def v(1) del: fld.simps)
qed

lemma validated_tame:
  assumes "validate s = Inr (v, ds)"
  shows "tame v"
proof -
  obtain ws where v: "v = JObj ws" "build_members snapshot_members s = Inr (ws, ds)" using assms by (rule validate_Inr)
  have "tame (fld (fst m) v)" if "m \<in> set snapshot_members" for m
  proof -
    obtain k opt f where m: "m = (k, opt, f)" by (cases m)
    have "checker f" using snapshot_checkers that unfolding m list_all_iff by auto
    moreover have "f (fld k v) (''$.'' @ k) = Inr (fld k v)"
      using validated_groups(2) [OF assms that] by (simp add: m group_of_def)
    ultimately show ?thesis unfolding m fst_conv by (rule checker.tame)
  qed
  moreover have "\<exists>m \<in> set snapshot_members. snd kv = fld (fst m) v" if "kv \<in> set ws" for kv
  proof -
    define g where "g m = (fst m, fld (fst m) v)" for m :: "string \<times> bool \<times> check"
    have "ws = filter (\<lambda>kv. snd kv \<noteq> JUndef) (map g snapshot_members)"
      using build_members_list [OF v(2) snapshot_keys] unfolding g_def v(1) .
    then have "kv \<in> set (map g snapshot_members)" using that by (metis filter_is_subset subsetD)
    then obtain m where "m \<in> set snapshot_members" "kv = g m" by auto
    then show ?thesis by (intro bexI [of _ m]) (simp_all add: g_def)
  qed
  ultimately have "tame (snd kv)" if "kv \<in> set ws" for kv using that by metis
  then show ?thesis unfolding v(1) by (simp add: list_all_iff)
qed

section \<open>The view\<close>

definition in_range :: "rat \<Rightarrow> rat \<Rightarrow> jsval \<Rightarrow> bool" where
  "in_range lo hi v = (case v of JNull \<Rightarrow> True | JNum (Fin q) \<Rightarrow> lo \<le> q \<and> q \<le> hi | _ \<Rightarrow> False)"

definition rate_ok :: "jsval \<Rightarrow> bool" where
  "rate_ok v = (case v of JNull \<Rightarrow> True | JNum (Fin q) \<Rightarrow> 0 \<le> q | _ \<Rightarrow> False)"

lemma js_round_nonneg: "0 \<le> x \<Longrightarrow> 0 \<le> js_round x"
  by (simp add: js_round_def)

lemma js_rate_ok [simp]: "rate_ok (js_rate c p dt)"
  by (auto simp: js_rate_def rate_ok_def js_round_nonneg split: option.splits)

lemma container_cpu_range:
  assumes "cores > 0"
  shows "in_range 0 100 (container_cpu before dt cores c)"
  using assms by (auto simp: container_cpu_def in_range_def js_round_nonneg split: option.splits)

lemma members_field: "members fs x p = Inr ws \<Longrightarrow> (k, f) \<in> set fs \<Longrightarrow> \<exists>w. f (fld k x) (p @ ''.'' @ k) = Inr w"
  by (induction fs arbitrary: ws) (auto simp del: fld.simps)

lemma num_Inr_range: "num lo hi opt intg nullable v p = Inr w \<Longrightarrow> finite_num v = Some q \<Longrightarrow> lo \<le> q \<and> q \<le> hi"
  by (cases v rule: finite_num.cases) (auto simp: num_def split: if_splits)

lemma validated_cores:
  assumes "validate s = Inr (v, ds)" "finite_num (fld ''cores'' (fld ''cpu'' v)) = Some q"
  shows "1 \<le> q"
proof -
  have "(''cpu'', True, cpu_check) \<in> set snapshot_members" by (simp add: snapshot_members_def)
  from validated_groups(2) [OF assms(1) this]
  have "cpu_check (fld ''cpu'' v) ''$.cpu'' = Inr (fld ''cpu'' v)" by (simp add: group_of_def del: fld.simps)
  moreover have "is_obj (fld ''cpu'' v)" using assms(2) by (cases "fld ''cpu'' v") (simp_all del: fld.simps, simp_all)
  ultimately obtain w where "num 1 4096 True True False (fld ''cores'' (fld ''cpu'' v)) (''$.cpu'' @ ''.'' @ ''cores'') = Inr w"
    unfolding cpu_check_def obj_check_def fields_def
    by (fastforce simp del: fld.simps members.simps dest: members_field [where k = "''cores''"] split: jsval.splits)
  from num_Inr_range [OF this assms(2)] show ?thesis by simp
qed

lemma set_if_lookup: "map_of (set_if b k v m) k' = (if b \<and> k' = k then Some v else map_of m k')"
  by (simp add: set_if_def)

lemma view_fields:
  assumes "cur = JObj kvs"
  shows "fld ''trend'' (view cur prev trend) = JArr (slice_last TREND_LEN (trend @ [trendPoint cur]))"
    "k \<notin> {''trend'', ''docker'', ''io'', ''net''} \<Longrightarrow> fld k (view cur prev trend) = fld k cur"
  by (simp_all add: view_def assms Let_def set_if_lookup)

lemma view_docker:
  assumes "cur = JObj kvs" "fld ''docker'' cur = JArr cs"
  shows "\<exists>before dt. fld ''docker'' (view cur prev trend) = JArr (map (view_container before dt
    (case finite_num (fld ''cores'' (fld ''cpu'' cur)) of Some c \<Rightarrow> if c = 0 then 1 else c | None \<Rightarrow> 1)) cs)"
  using assms(2) unfolding assms(1) view_def Let_def jsval.case
  by (simp add: set_if_lookup arr_or_empty_def del: fld.simps) (auto simp: set_if_lookup)

lemma view_io_rates: "rate_ok (fld ''readRate'' (view_io before dt d)) \<and> rate_ok (fld ''writeRate'' (view_io before dt d))"
  by (auto simp: view_io_def rate_ok_def [of JNull] split: option.splits)

lemma view_net_rates: "rate_ok (fld ''rateRx'' (view_net cur prev dt)) \<and> rate_ok (fld ''rateTx'' (view_net cur prev dt))"
  by (simp add: view_net_def Let_def rate_ok_def [of JNull])

lemma each_item_mem: "each_item f p i vs = Inr ws \<Longrightarrow> v \<in> set vs \<Longrightarrow> \<exists>q w. f v q = Inr w"
  by (induction vs arbitrary: i ws) auto

lemma validated_containers:
  assumes "validate s = Inr (v, ds)" "fld ''docker'' v = JArr cs" "c \<in> set cs"
  shows "is_obj c"
proof -
  have "(''docker'', True, list_check 200 container_check) \<in> set snapshot_members" by (simp add: snapshot_members_def)
  from validated_groups(2) [OF assms(1) this] assms(2)
  have *: "each_item container_check ''$.docker'' 0 (take 200 cs) = Inr cs"
    by (simp add: group_of_def list_check_def del: fld.simps)
  then have "length cs \<le> 200" by (rule containers.each_item_take)
  then have "c \<in> set (take 200 cs)" using assms(3) by simp
  from each_item_mem [OF * this] obtain q w where "container_check c q = Inr w" by blast
  then show ?thesis by (cases c) (auto simp: container_check_def obj_check_def)
qed

lemma view_container_cpu:
  assumes "is_obj c" "cores > 0"
  shows "in_range 0 100 (fld ''cpu'' (view_container before dt cores c))"
  using assms container_cpu_range [OF assms(2)] by (cases c) (simp_all add: view_container_def)

definition demo_snapshot :: jsval where
  "demo_snapshot = JObj [(''schema'', JNum (Fin 1)), (''ts'', JNum (Fin 60000)), (''interval'', JNum (Fin 60)),
     (''host'', JObj [(''name'', JStr ''web''), (''os'', JStr ''linux''), (''extra'', JNull)]),
     (''cpu'', JObj [(''usage'', JNum (Fin 12)), (''cores'', JNum (Fin 2))]),
     (''temp'', JObj [(''package'', JNum (Fin 900))]),
     (''docker'', JArr [JObj [(''name'', JStr ''db''), (''cpuUsec'', JNum (Fin 90000000))]])]"

definition demo_clean_snapshot :: jsval where
  "demo_clean_snapshot = JObj [(''schema'', JNum (Fin 1)), (''ts'', JNum (Fin 60000)), (''interval'', JNum (Fin 60)),
     (''host'', JObj [(''name'', JStr ''web''), (''os'', JStr ''linux'')]),
     (''cpu'', JObj [(''usage'', JNum (Fin 12)), (''cores'', JNum (Fin 2))]),
     (''docker'', JArr [JObj [(''name'', JStr ''db''), (''cpuUsec'', JNum (Fin 90000000))]])]"

lemma demo_snapshot_valid: "validate demo_snapshot = Inr (demo_clean_snapshot, [''$.temp.package''])"
  by code_simp

text \<open>
  C15. A stored snapshot is safe whatever the agent sent: every number in it is finite and at most
  $2^{53}$ in size, every string is at most 128 characters with no control character, every list at
  most 1024 long; and it is a fixed point: validated again it comes out as it is, with nothing
  left out.
\<close>

theorem validated_snapshot_clean:
  assumes "validate s = Inr (v, ds)"
  shows "tame v \<and> validate v = Inr (v, [])"
  using validated_tame [OF assms] validated_again [OF assms] by simp

theorem validated_snapshot_clean_witness:
  "tame demo_clean_snapshot \<and> validate demo_clean_snapshot = Inr (demo_clean_snapshot, [])"
  by (rule validated_snapshot_clean [OF demo_snapshot_valid])

text \<open>
  One bad sensor never costs the rest: when the schema, time, interval and host are right, the
  snapshot is accepted, every group that passes its check is kept as the check gives it, and every
  group that fails is left out alone, with its path recorded.
\<close>

theorem bad_group_costs_itself:
  assumes "is_obj s"
    and "num 1 1 False True False (fld ''schema'' s) ''$.schema'' = Inr w1" "counter False False (fld ''ts'' s) ''$.ts'' = Inr w2"
    and "num 5 3600 False True False (fld ''interval'' s) ''$.interval'' = Inr w3" "host_check (fld ''host'' s) ''$.host'' = Inr w4"
  shows "\<exists>v ds. validate s = Inr (v, ds) \<and> list_all (kept_group s v ds) snapshot_members"
proof -
  have "\<not> isl (build_members snapshot_members s)"
    unfolding build_members_refuses using assms by (auto simp: snapshot_members_def group_of_def simp del: fld.simps)
  then obtain ws ds where "build_members snapshot_members s = Inr (ws, ds)" by (cases "build_members snapshot_members s") auto
  then have v: "validate s = Inr (JObj ws, ds)" using assms(1) by (simp add: validate_def build_def)
  then show ?thesis using validated_groups(1) [OF v] by (auto simp: list_all_iff)
qed

theorem bad_group_costs_itself_witness:
  "\<exists>v ds. validate demo_snapshot = Inr (v, ds) \<and> list_all (kept_group demo_snapshot v ds) snapshot_members"
  by (rule bad_group_costs_itself [where ?w1.0 = "JNum (Fin 1)" and ?w2.0 = "JNum (Fin 60000)" and ?w3.0 = "JNum (Fin 60)" and
      ?w4.0 = "JObj [(''name'', JStr ''web''), (''os'', JStr ''linux'')]"]) code_simp+

text \<open>
  What the hub derives stays in range whatever the counters did: the view keeps at most 60
  trend points, the newest of them this snapshot's, and a container's CPU share is absent or between
  0 and 100 per cent, also when a counter jumped, restarted or the clocks went backwards.
\<close>

theorem view_in_range:
  assumes "validate s = Inr (cur, ds)" "fld ''docker'' cur = JArr cs"
  shows "\<exists>tr cs'. fld ''trend'' (view cur prev trend) = JArr tr \<and> length tr \<le> TREND_LEN \<and> last tr = trendPoint cur \<and>
    fld ''docker'' (view cur prev trend) = JArr cs' \<and> length cs' = length cs \<and>
    list_all (\<lambda>c. in_range 0 100 (fld ''cpu'' c)) cs'"
proof -
  obtain kvs where cur: "cur = JObj kvs" using assms(1) by (rule validate_Inr)
  let ?cores = "case finite_num (fld ''cores'' (fld ''cpu'' cur)) of Some c \<Rightarrow> if c = 0 then 1 else c | None \<Rightarrow> 1"
  let ?tr = "slice_last TREND_LEN (trend @ [trendPoint cur])"
  have "?cores > 0" using validated_cores [OF assms(1)] by (fastforce split: option.splits)
  obtain before dt where d: "fld ''docker'' (view cur prev trend) = JArr (map (view_container before dt ?cores) cs)"
    using view_docker [OF cur assms(2)] by blast
  have tr: "last ?tr = trendPoint cur" "length ?tr \<le> TREND_LEN" by (simp_all add: slice_last_def TREND_LEN_def)
  have cpu: "list_all (\<lambda>c. in_range 0 100 (fld ''cpu'' c)) (map (view_container before dt ?cores) cs)"
    using view_container_cpu [OF validated_containers [OF assms] \<open>?cores > 0\<close>] by (simp add: list_all_iff del: fld.simps)
  show ?thesis
    by (intro exI [of _ ?tr] exI [of _ "map (view_container before dt ?cores) cs"] conjI)
      (rule view_fields(1) [OF cur] tr d cpu length_map)+
qed

theorem view_in_range_witness:
  "\<exists>tr cs'. fld ''trend'' (view demo_clean_snapshot JUndef []) = JArr tr \<and> length tr \<le> TREND_LEN \<and>
    last tr = trendPoint demo_clean_snapshot \<and> fld ''docker'' (view demo_clean_snapshot JUndef []) = JArr cs' \<and> length cs' = 1 \<and>
    list_all (\<lambda>c. in_range 0 100 (fld ''cpu'' c)) cs'"
proof -
  have "fld ''docker'' demo_clean_snapshot = JArr [JObj [(''name'', JStr ''db''), (''cpuUsec'', JNum (Fin 90000000))]]"
    by code_simp
  from view_in_range [OF demo_snapshot_valid this, of JUndef "[]"] show ?thesis by simp
qed

end
