(* ===== verification/Fleet.thy ===== *)
theory Fleet
  imports Snapshot Alerts
begin

text \<open>
  The fleet cards, \<^verbatim>\<open>src/hub/lib/fleet.js\<close>: \<open>status\<close> of a node from its last push, and \<open>summary\<close>, the
  numbers a card shows of a node's view. The theorem relates the card's state to the limit the
  alert engine goes by, which the source computes a second time in another file.
\<close>

datatype fstatus = Waiting | Online | Stale | Offline

text \<open>\<open>0\<close> and \<open>None\<close> stand for a push that never came and an interval that is not known.\<close>

definition status :: "ms \<Rightarrow> int option \<Rightarrow> ms \<Rightarrow> fstatus" where
  "status at' interval now =
    (if at' = 0 then Waiting
     else let iv = max 5 (case interval of None \<Rightarrow> 60 | Some i \<Rightarrow> if i = 0 then 60 else i) * 1000; age = now - at' in
       if age \<le> 3 * iv then Online
       else if age \<le> max 600000 (5 * iv) then Stale
       else Offline)"

definition pct_of :: "jsval \<Rightarrow> rat option" where
  "pct_of d = finite_num (fld ''pct'' d)"

definition mounted_disks :: "jsval \<Rightarrow> jsval list" where
  "mounted_disks v = filter (\<lambda>d. fld ''mounted'' d \<noteq> JBool False \<and> pct_of d \<noteq> None) (arr_or_empty (fld ''disks'' v))"

text \<open>\<^verbatim>\<open>disks.reduce((a, d) => (!a || d.pct > a.pct ? d : a), null)\<close>\<close>

definition fullest :: "jsval list \<Rightarrow> jsval option" where
  "fullest ds = foldl (\<lambda>a d. case a of None \<Rightarrow> Some d | Some b \<Rightarrow> if the (pct_of d) > the (pct_of b) then Some d else a) None ds"

definition num_field :: "string \<Rightarrow> jsval \<Rightarrow> jsval" where
  "num_field k v = num_or_null (finite_num (fld k v))"

definition summary :: "jsval \<Rightarrow> jsval" where
  "summary v = (if \<not> truthy v then JNull else JObj
    [(''host'', if truthy (fld ''host'' v)
        then JObj [(''name'', fld ''name'' (fld ''host'' v)), (''distro'', fld ''distro'' (fld ''host'' v))] else JNull),
     (''cpu'', num_field ''usage'' (fld ''cpu'' v)), (''iowait'', num_field ''iowait'' (fld ''cpu'' v)),
     (''updates'', num_field ''updates'' (fld ''ubuntu'' v)),
     (''reboot'', JBool (truthy (fld ''rebootRequired'' (fld ''ubuntu'' v)))),
     (''battery'', num_field ''capacity'' (fld ''battery'' v)),
     (''mem'', mem_share 100 1 (fld ''mem'' v)), (''temp'', num_field ''package'' (fld ''temp'' v)),
     (''disk'', case fullest (mounted_disks v) of None \<Rightarrow> JNull
        | Some d \<Rightarrow> JObj [(''mount'', fld ''mount'' d), (''pct'', fld ''pct'' d)]),
     (''containers'', case fld ''docker'' v of JArr cs \<Rightarrow> JNum (Fin (of_nat (length cs))) | _ \<Rightarrow> JNull),
     (''running'', case fld ''docker'' v of
        JArr cs \<Rightarrow> JNum (Fin (of_nat (length (filter (\<lambda>c. fld ''state'' c = JStr ''running'') cs)))) | _ \<Rightarrow> JNull),
     (''trend'', JArr (map (fld ''cpu'') (slice_last 20 (arr_or_empty (fld ''trend'' v)))))])"

section \<open>The fullest disk\<close>

lemma foldl_fullest:
  assumes "list_all (\<lambda>d. pct_of d \<noteq> None) ds" "pct_of a \<noteq> None"
  shows "\<exists>b. foldl (\<lambda>a d. case a of None \<Rightarrow> Some d | Some b \<Rightarrow> if the (pct_of d) > the (pct_of b) then Some d else a) (Some a) ds = Some b \<and>
    b \<in> set (a # ds) \<and> (\<forall>d \<in> set (a # ds). the (pct_of d) \<le> the (pct_of b))"
  using assms
proof (induction ds arbitrary: a)
  case (Cons d ds)
  define c where "c = (if the (pct_of d) > the (pct_of a) then d else a)"
  have c: "c \<in> {a, d}" "the (pct_of a) \<le> the (pct_of c)" "the (pct_of d) \<le> the (pct_of c)" by (auto simp: c_def)
  from Cons.IH [of c] Cons.prems c(1) obtain b where
    b: "foldl (\<lambda>a d. case a of None \<Rightarrow> Some d | Some b \<Rightarrow> if the (pct_of d) > the (pct_of b) then Some d else a) (Some c) ds = Some b"
      "b \<in> set (c # ds)" "\<forall>x \<in> set (c # ds). the (pct_of x) \<le> the (pct_of b)" by auto
  have "\<forall>x \<in> set (a # d # ds). the (pct_of x) \<le> the (pct_of b)"
    using b(3) c(2,3) by auto
  moreover have "b \<in> set (a # d # ds)" using b(2) c(1) by auto
  ultimately show ?case using b(1) by (simp add: c_def if_distrib)
qed simp

lemma fullest_max:
  assumes "list_all (\<lambda>d. pct_of d \<noteq> None) ds"
  shows "case fullest ds of None \<Rightarrow> ds = [] | Some b \<Rightarrow> b \<in> set ds \<and> (\<forall>d \<in> set ds. the (pct_of d) \<le> the (pct_of b))"
proof (cases ds)
  case (Cons a l)
  with assms foldl_fullest [of l a] show ?thesis by (auto simp: fullest_def)
qed (simp add: fullest_def)

text \<open>
  The card and the alert agree: a node's card says offline exactly when the push is older than
  the limit the alert engine uses for its silence, and online never overlaps it, so a card that
  shows offline always has the alert's condition behind it.
\<close>

theorem status_agrees_with_alert_limit:
  "(status at' interval now = Offline \<longleftrightarrow> at' \<noteq> 0 \<and> now - at' > offline_limit interval) \<and>
   (status at' interval now = Online \<and> now - at' \<ge> offline_limit interval \<longleftrightarrow> False)"
  by (auto simp: status_def offline_limit_def MINUTE_def Let_def max_def split: option.splits if_splits)

text \<open>
  The disk on a card is one of the node's mounted disks and none of them is fuller; the card
  shows none exactly when there is no mounted disk with a reading.
\<close>

theorem summary_shows_fullest_disk:
  "(case fullest (mounted_disks v) of
      None \<Rightarrow> mounted_disks v = []
    | Some b \<Rightarrow> b \<in> set (mounted_disks v) \<and> Max ((\<lambda>d. the (pct_of d)) ` set (mounted_disks v)) = the (pct_of b)) \<and>
   (truthy v \<and> fld ''disk'' (summary v) = JNull \<longleftrightarrow> truthy v \<and> mounted_disks v = [])"
proof -
  have "list_all (\<lambda>d. pct_of d \<noteq> None) (mounted_disks v)" by (simp add: mounted_disks_def list_all_iff)
  note m = fullest_max [OF this]
  show ?thesis
  proof (cases "fullest (mounted_disks v)")
    case None
    with m show ?thesis by (simp add: summary_def)
  next
    case (Some b)
    with m have "b \<in> set (mounted_disks v)" "\<forall>d \<in> set (mounted_disks v). the (pct_of d) \<le> the (pct_of b)" by simp_all
    moreover from this have "Max ((\<lambda>d. the (pct_of d)) ` set (mounted_disks v)) = the (pct_of b)"
      by (intro Max_eqI) auto
    ultimately show ?thesis using Some by (auto simp: summary_def)
  qed
qed

end
