(* ===== verification/Nodes.thy ===== *)
theory Nodes
  imports Js_Prelude
begin

text \<open>
  The node registry, \<^verbatim>\<open>src/hub/lib/nodes.js\<close>: \<^verbatim>\<open>nodes.json\<close> and the hub's copy of it. The record
  \<open>nstore\<close> has the variables of \<^verbatim>\<open>createNodeStore\<close> and the file itself (its time and its content,
  \<open>None\<close> when it does not parse), so that an edit by \<^verbatim>\<open>servitals-ctl\<close> is a change of the file between
  two operations. A file that parses holds entries of the documented shape. Every operation is a
  function that gives its result, or the message it throws, and the store after it; random bytes,
  the clock and the time the file system gives a written file are arguments.
\<close>

section \<open>Data\<close>

record nrec =
  nd_name :: string
  nd_secret :: string
  nd_local :: bool
  nd_created :: ms
  nd_tags :: "string list"
  nd_revoked :: bool
  nd_oldSecret :: string
  nd_oldUntil :: ms

text \<open>\<open>nd_oldSecret = []\<close> stands for a member that is not there.\<close>

type_synonym ntable = "(string \<times> nrec) list"

record nstore =
  ns_nodes :: ntable
  ns_mtime :: int
  ns_unreadable :: bool
  ns_file :: "(int \<times> ntable option) option"

definition B32 :: string where
  "B32 = ''abcdefghijklmnopqrstuvwxyz234567''"

text \<open>From 12 random bytes.\<close>

definition newNodeId :: "nat list \<Rightarrow> string" where
  "newNodeId bytes = map (\<lambda>b. B32 ! (b mod 32)) bytes"

definition OVERLAP_MS :: ms where "OVERLAP_MS = 24 * 3600000"

section \<open>Operations\<close>

definition load :: "nstore \<Rightarrow> nstore" where
  "load s = (case ns_file s of
      None \<Rightarrow> s\<lparr>ns_nodes := [], ns_mtime := -1, ns_unreadable := False\<rparr>
    | Some (m, content) \<Rightarrow>
        if m = ns_mtime s then s
        else (case content of
            Some t \<Rightarrow> s\<lparr>ns_nodes := t, ns_mtime := m, ns_unreadable := False\<rparr>
          | None \<Rightarrow> if ns_mtime s = -1 then s\<lparr>ns_unreadable := True\<rparr> else s))"

definition save_nodes :: "int \<Rightarrow> nstore \<Rightarrow> nstore" where
  "save_nodes m s = s\<lparr>ns_file := Some (m, Some (ns_nodes s)), ns_mtime := m\<rparr>"

definition get_node :: "string \<Rightarrow> nstore \<Rightarrow> nrec option" where
  "get_node i s = (case map_of (ns_nodes (load s)) i of
      Some n \<Rightarrow> if nd_revoked n then None else Some n
    | None \<Rightarrow> None)"

definition localId :: "nstore \<Rightarrow> string option" where
  "localId s = map_option fst (find (\<lambda>(i, n). nd_local n \<and> \<not> nd_revoked n) (ns_nodes (load s)))"

definition does_not_parse :: string where
  "does_not_parse = ''nodes.json exists but does not parse; fix or remove it''"

definition put_node :: "string \<Rightarrow> nrec \<Rightarrow> nstore \<Rightarrow> nstore" where
  "put_node i n s = s\<lparr>ns_nodes := AList.update i n (ns_nodes s)\<rparr>"

definition new_node :: "string \<Rightarrow> string \<Rightarrow> bool \<Rightarrow> ms \<Rightarrow> string list \<Rightarrow> nrec" where
  "new_node name secret loc t tags =
    \<lparr>nd_name = name, nd_secret = secret, nd_local = loc, nd_created = t, nd_tags = tags, nd_revoked = False,
     nd_oldSecret = [], nd_oldUntil = 0\<rparr>"

definition ensureLocal :: "string \<Rightarrow> string \<Rightarrow> string \<Rightarrow> ms \<Rightarrow> int \<Rightarrow> nstore \<Rightarrow> (string + string \<times> bool) \<times> nstore" where
  "ensureLocal name newId newSecret t m s =
    (let s1 = load s in
     case localId s of
       Some i \<Rightarrow> (Inr (i, False), s1)
     | None \<Rightarrow>
         if ns_unreadable s1 then (Inl does_not_parse, s1)
         else (Inr (newId, True), save_nodes m (put_node newId (new_node name newSecret True t []) s1)))"

definition checkName :: "string \<Rightarrow> string + string" where
  "checkName name = (let n = js_trim name in
     if is_name64 n then Inr n else Inl ''name: 1-64 printable characters'')"

fun check_tags :: "string list \<Rightarrow> string + unit" where
  "check_tags [] = Inr ()"
| "check_tags (t # ts) =
    (if is_tag t then check_tags ts else Inl (''tag \"'' @ t @ ''\": lowercase letters, digits, dot, dash, underscore''))"

definition check_node_args :: "string \<Rightarrow> string list \<Rightarrow> string + string" where
  "check_node_args name tags = bindE (checkName name) (\<lambda>clean. bindE (check_tags tags) (\<lambda>_. Inr clean))"

text \<open>\<^verbatim>\<open>do { id = newNodeId(); } while (nodes[id])\<close>: the first of the ids drawn that is free; \<open>None\<close> when
  the draws given are used up.\<close>

definition free_id :: "string list \<Rightarrow> ntable \<Rightarrow> string option" where
  "free_id ids t = find (\<lambda>i. map_of t i = None) ids"

definition add_node :: "string \<Rightarrow> string list \<Rightarrow> string \<Rightarrow> string list \<Rightarrow> ms \<Rightarrow> int \<Rightarrow> nstore \<Rightarrow> ((string + string) \<times> nstore) option" where
  "add_node name tags secret ids t m s =
    (case check_node_args name tags of
       Inl e \<Rightarrow> Some (Inl e, s)
     | Inr clean \<Rightarrow>
         if \<not> is_hex64 secret then Some (Inl ''secret: 64 hex characters'', s)
         else let s1 = load s in
           if ns_unreadable s1 then Some (Inl does_not_parse, s1)
           else map_option (\<lambda>i. (Inr i, save_nodes m (put_node i (new_node clean secret False t tags) s1))) (free_id ids (ns_nodes s1)))"

definition change :: "string \<Rightarrow> (nrec \<Rightarrow> string + nrec) \<Rightarrow> int \<Rightarrow> nstore \<Rightarrow> (string + unit) \<times> nstore" where
  "change i fn m s =
    (let s1 = load s in
     case map_of (ns_nodes s1) i of
       None \<Rightarrow> (Inl (''no node '' @ i), s1)
     | Some n \<Rightarrow>
         if nd_revoked n then (Inl (''no node '' @ i), s1)
         else (case fn n of
             Inl e \<Rightarrow> (Inl e, s1)
           | Inr n' \<Rightarrow> (Inr (), save_nodes m (put_node i n' s1))))"

definition rename_fn :: "string \<Rightarrow> nrec \<Rightarrow> string + nrec" where
  "rename_fn name n = bindE (checkName name) (\<lambda>c. Inr (n\<lparr>nd_name := c\<rparr>))"

text \<open>\<open>None\<close>: not a list of strings. \<^verbatim>\<open>[...new Set(tags)]\<close> keeps the first of equal tags.\<close>

definition first_only :: "string list \<Rightarrow> string list" where
  "first_only xs = rev (remdups (rev xs))"

definition setTags_fn :: "string list option \<Rightarrow> nrec \<Rightarrow> string + nrec" where
  "setTags_fn tags n = (case tags of
      None \<Rightarrow> Inl ''tags: a list of words''
    | Some ts \<Rightarrow> bindE (check_node_args (nd_name n) ts) (\<lambda>_. Inr (n\<lparr>nd_tags := first_only ts\<rparr>)))"

definition revoke_fn :: "nrec \<Rightarrow> string + nrec" where
  "revoke_fn n =
    (if nd_local n then Inl ''the local node cannot be revoked''
     else Inr (n\<lparr>nd_revoked := True, nd_secret := [], nd_oldSecret := [], nd_oldUntil := 0\<rparr>))"

definition rotate_fn :: "string \<Rightarrow> ms \<Rightarrow> nrec \<Rightarrow> string + nrec" where
  "rotate_fn secret t n =
    (let n1 = (if nd_oldSecret n \<noteq> [] \<and> nd_oldUntil n > t then n
               else n\<lparr>nd_oldSecret := nd_secret n, nd_oldUntil := t + OVERLAP_MS\<rparr>) in
     Inr (n1\<lparr>nd_secret := secret\<rparr>))"

definition rename_node :: "string \<Rightarrow> string \<Rightarrow> int \<Rightarrow> nstore \<Rightarrow> (string + unit) \<times> nstore" where
  "rename_node i name = change i (rename_fn name)"

definition setTags :: "string \<Rightarrow> string list option \<Rightarrow> int \<Rightarrow> nstore \<Rightarrow> (string + unit) \<times> nstore" where
  "setTags i tags = change i (setTags_fn tags)"

definition revoke :: "string \<Rightarrow> int \<Rightarrow> nstore \<Rightarrow> (string + unit) \<times> nstore" where
  "revoke i = change i revoke_fn"

definition rotate_secret :: "string \<Rightarrow> string \<Rightarrow> ms \<Rightarrow> int \<Rightarrow> nstore \<Rightarrow> (string + unit) \<times> nstore" where
  "rotate_secret i secret t = change i (rotate_fn secret t)"

text \<open>Every node that is not revoked, without secrets: id, name, local, created, tags.\<close>

definition list_nodes :: "nstore \<Rightarrow> (string \<times> string \<times> bool \<times> ms \<times> string list) list" where
  "list_nodes s = map (\<lambda>(i, n). (i, nd_name n, nd_local n, nd_created n, nd_tags n))
     (filter (\<lambda>(i, n). \<not> nd_revoked n) (ns_nodes (load s)))"

text \<open>The secrets the agent API takes for a node at a time.\<close>

definition candidates :: "nrec \<Rightarrow> ms \<Rightarrow> string list" where
  "candidates n t = nd_secret n # (if nd_oldSecret n \<noteq> [] \<and> nd_oldUntil n > t then [nd_oldSecret n] else [])"

section \<open>A store in step with its file\<close>

text \<open>What the hub holds is what the file has, and every entry is one the hub would write.\<close>

definition nrec_ok :: "nrec \<Rightarrow> bool" where
  "nrec_ok n \<longleftrightarrow> is_name64 (nd_name n) \<and> list_all is_tag (nd_tags n) \<and>
     (if nd_revoked n then nd_secret n = [] \<and> nd_oldSecret n = [] \<and> \<not> nd_local n
      else is_hex64 (nd_secret n) \<and> (nd_oldSecret n = [] \<or> is_hex64 (nd_oldSecret n)))"

definition table_ok :: "ntable \<Rightarrow> bool" where
  "table_ok t \<longleftrightarrow> distinct (map fst t) \<and> list_all (\<lambda>(i, n). nrec_ok n) t"

definition store_ok :: "nstore \<Rightarrow> bool" where
  "store_ok s \<longleftrightarrow> table_ok (ns_nodes s) \<and> (case ns_file s of Some (m, Some t) \<Rightarrow> table_ok t \<and> (m = ns_mtime s \<longrightarrow> t = ns_nodes s) | _ \<Rightarrow> True)"

datatype node_op =
    EnsureLocal string string string ms int
  | AddNode string "string list" string "string list" ms int
  | Rename string string int
  | SetTags string "string list option" int
  | Revoke string int
  | Rotate string string ms int
  | Reload

text \<open>
  A step. A random secret is 64 hex digits; the local node's name is the host's, and its random
  id of 60 bits is taken to be free (unlike \<^verbatim>\<open>add\<close>, \<^verbatim>\<open>ensureLocal\<close> does not look).
\<close>

fun node_step :: "nstore \<Rightarrow> node_op \<Rightarrow> nstore" where
  "node_step s (EnsureLocal name i sec t m) = 
    (if is_name64 name \<and> is_hex64 sec \<and> map_of (ns_nodes (load s)) i = None then snd (ensureLocal name i sec t m s) else s)"
| "node_step s (AddNode name tags sec ids t m) = (case add_node name tags sec ids t m s of None \<Rightarrow> s | Some r \<Rightarrow> snd r)"
| "node_step s (Rename i name m) = snd (rename_node i name m s)"
| "node_step s (SetTags i tags m) = snd (setTags i tags m s)"
| "node_step s (Revoke i m) = snd (revoke i m s)"
| "node_step s (Rotate i sec t m) = (if is_hex64 sec then snd (rotate_secret i sec t m s) else s)"
| "node_step s Reload = load s"

lemma load_idem [simp]: "load (load s) = load s"
  by (auto simp: load_def split: option.splits prod.splits)

lemma load_save [simp]: "load (save_nodes m s) = save_nodes m s"
  by (simp add: load_def save_nodes_def)

lemma save_nodes_nodes [simp]: "ns_nodes (save_nodes m s) = ns_nodes s"
  by (simp add: save_nodes_def)

lemma put_node_nodes [simp]: "ns_nodes (put_node i n s) = AList.update i n (ns_nodes s)"
  by (simp add: put_node_def)

text \<open>Every step loads, and then leaves the table or writes it with one entry changed or added.\<close>

definition one_change :: "(nrec option \<Rightarrow> nrec \<Rightarrow> bool) \<Rightarrow> nstore \<Rightarrow> nstore \<Rightarrow> bool" where
  "one_change rel s s' \<longleftrightarrow> s' = load s \<or> s' = s \<or>
     (\<exists>i n m. s' = save_nodes m (put_node i n (load s)) \<and> rel (map_of (ns_nodes (load s)) i) n)"

lemma one_changeI:
  "one_change rel s (load s)" "one_change rel s s"
  "rel (map_of (ns_nodes (load s)) i) n \<Longrightarrow> one_change rel s (save_nodes m (put_node i n (load s)))"
  by (auto simp: one_change_def)

lemma change_one:
  assumes "\<And>n n'. nd_revoked n = False \<Longrightarrow> fn n = Inr n' \<Longrightarrow> rel (Some n) n'"
  shows "one_change rel s (snd (change i fn m s))"
  using assms by (auto simp: change_def Let_def intro!: one_changeI split: option.splits sum.splits)

text \<open>What an entry may become: a new one is not revoked, and a revoked one never changes.\<close>

definition may_become :: "nrec option \<Rightarrow> nrec \<Rightarrow> bool" where
  "may_become old n \<longleftrightarrow> (case old of None \<Rightarrow> nrec_ok n
     | Some o' \<Rightarrow> \<not> nd_revoked o' \<and> (nrec_ok o' \<longrightarrow> nrec_ok n))"

lemma check_tags_Inr: "check_tags ts = Inr u \<Longrightarrow> list_all is_tag ts"
  by (induction ts) (auto split: if_splits)

lemma checkName_Inr: "checkName name = Inr c \<Longrightarrow> is_name64 c"
  by (auto simp: checkName_def Let_def split: if_splits)

lemma check_node_args_Inr: "check_node_args name tags = Inr c \<Longrightarrow> is_name64 c \<and> list_all is_tag tags"
  by (auto simp: check_node_args_def dest: checkName_Inr check_tags_Inr)

lemma free_id_None: "free_id ids t = Some i \<Longrightarrow> map_of t i = None"
  by (auto simp: free_id_def dest: find_SomeD)

lemma new_node_ok: "is_name64 c \<Longrightarrow> list_all is_tag tags \<Longrightarrow> is_hex64 sec \<Longrightarrow> nrec_ok (new_node c sec loc t tags)"
  by (simp add: new_node_def nrec_ok_def)

lemma node_step_one: "one_change may_become s (node_step s op)"
proof (cases op)
  case (EnsureLocal name i sec t m)
  then show ?thesis
    by (auto simp: ensureLocal_def Let_def may_become_def new_node_ok intro!: one_changeI split: option.splits)
next
  case (AddNode name tags sec ids t m)
  then show ?thesis
    by (auto simp: add_node_def Let_def may_become_def new_node_ok dest!: check_node_args_Inr free_id_None
        intro!: one_changeI split: option.splits sum.splits)
next
  case (Rename i name m)
  then show ?thesis
    by (auto simp: rename_node_def rename_fn_def may_become_def nrec_ok_def dest!: checkName_Inr intro!: change_one)
next
  case (SetTags i tags m)
  then show ?thesis
    by (auto simp: setTags_def setTags_fn_def may_become_def nrec_ok_def first_only_def list_all_iff
        dest!: check_node_args_Inr intro!: change_one split: option.splits)
next
  case (Revoke i m)
  then show ?thesis
    by (auto simp: revoke_def revoke_fn_def may_become_def nrec_ok_def intro!: change_one split: if_splits)
next
  case (Rotate i sec t m)
  then show ?thesis
    by (auto simp: rotate_secret_def rotate_fn_def may_become_def nrec_ok_def Let_def intro!: change_one one_changeI
        split: if_splits)
qed (auto intro: one_changeI)

section \<open>Invariants\<close>

lemma table_ok_update: "table_ok t \<Longrightarrow> nrec_ok n \<Longrightarrow> table_ok (AList.update i n t)"
  by (induction t) (auto simp: table_ok_def update_keys)

lemma table_ok_lookup: "table_ok t \<Longrightarrow> map_of t i = Some n \<Longrightarrow> nrec_ok n"
  by (auto simp: table_ok_def list_all_iff dest!: map_of_SomeD)

lemma store_ok_load: "store_ok s \<Longrightarrow> store_ok (load s)"
  by (auto simp: store_ok_def load_def table_ok_def split: option.splits prod.splits)

lemma store_ok_write:
  assumes "store_ok s" "may_become (map_of (ns_nodes (load s)) i) n"
  shows "store_ok (save_nodes m (put_node i n (load s)))"
proof -
  have t: "table_ok (ns_nodes (load s))" using store_ok_load [OF assms(1)] by (simp add: store_ok_def)
  have "nrec_ok n" using assms(2) table_ok_lookup [OF t] by (auto simp: may_become_def split: option.splits)
  with t show ?thesis by (simp add: store_ok_def save_nodes_def table_ok_update)
qed

interpretation registry: machine node_step store_ok
proof
  fix s op assume "store_ok s"
  then show "store_ok (node_step s op)"
    using node_step_one [of s op] by (auto simp: one_change_def store_ok_load store_ok_write)
qed

definition revoked_in :: "string \<Rightarrow> nstore \<Rightarrow> bool" where
  "revoked_in i s \<longleftrightarrow> (\<exists>n. map_of (ns_nodes (load s)) i = Some n \<and> nd_revoked n)"

interpretation revocation: machine node_step "revoked_in i" for i
proof
  fix s op assume "revoked_in i s"
  then show "revoked_in i (node_step s op)"
    using node_step_one [of s op] by (auto simp: one_change_def revoked_in_def may_become_def)
qed

lemma B32_id: "b < 32 \<Longrightarrow> is_lower (B32 ! b) \<or> (50 \<le> (of_char (B32 ! b) :: nat) \<and> (of_char (B32 ! b) :: nat) \<le> 55)"
proof -
  have "list_all (\<lambda>c. is_lower c \<or> (50 \<le> (of_char c :: nat) \<and> (of_char c :: nat) \<le> 55)) B32" "length B32 = 32" by code_simp+
  then show "b < 32 \<Longrightarrow> ?thesis" by (simp add: list_all_length)
qed

lemma newNodeId_ok: "length bytes = 12 \<Longrightarrow> is_node_id (newNodeId bytes)"
  using B32_id by (simp add: newNodeId_def is_node_id_def in_class_def list_all_iff)

lemma change_get:
  assumes "get_node i s = Some n" "fn n = Inr n'"
  shows "change i fn m s = (Inr (), save_nodes m (put_node i n' (load s)))"
proof -
  have "map_of (ns_nodes (load s)) i = Some n" "\<not> nd_revoked n"
    using assms(1) by (auto simp: get_node_def split: option.splits if_splits)
  with assms(2) show ?thesis by (simp add: change_def Let_def)
qed

lemma get_after_put: "get_node i (save_nodes m (put_node i n s)) = (if nd_revoked n then None else Some n)"
  by (simp add: get_node_def)

definition demo_secret :: string where
  "demo_secret = replicate 64 CHR ''a''"

definition demo_store :: nstore where
  "demo_store = \<lparr>ns_nodes = [], ns_mtime = -1, ns_unreadable = False,
     ns_file = Some (5, Some [(''abcdefghijkl'', new_node ''web'' demo_secret False 0 [''eu''])])\<rparr>"

text \<open>
  A revoked node never comes back: once \<open>revoke\<close> has succeeded, no sequence of the registry's
  operations (adding nodes, renaming, rotating, reloading the file) makes its id known again.
\<close>

theorem revoke_is_final:
  assumes "fst (revoke i m s) = Inr ()"
  shows "get_node i (foldl node_step (snd (revoke i m s)) ops) = None"
proof -
  have "revoked_in i (snd (revoke i m s))"
    using assms by (auto simp: revoke_def change_def revoke_fn_def revoked_in_def Let_def split: option.splits if_splits)
  then have "revoked_in i (foldl node_step (snd (revoke i m s)) ops)" by (rule revocation.inv_run)
  then show ?thesis by (auto simp: revoked_in_def get_node_def)
qed

theorem revoke_is_final_witness:
  "get_node ''abcdefghijkl'' demo_store \<noteq> None \<and>
   get_node ''abcdefghijkl'' (foldl node_step (snd (revoke ''abcdefghijkl'' 6 demo_store))
     [Rotate ''abcdefghijkl'' demo_secret 7 7, Reload, Rename ''abcdefghijkl'' ''x'' 8]) = None"
proof
  show "get_node ''abcdefghijkl'' demo_store \<noteq> None" by code_simp
  show "get_node ''abcdefghijkl'' (foldl node_step (snd (revoke ''abcdefghijkl'' 6 demo_store))
     [Rotate ''abcdefghijkl'' demo_secret 7 7, Reload, Rename ''abcdefghijkl'' ''x'' 8]) = None"
    by (rule revoke_is_final) code_simp
qed

text \<open>
  A rotation never locks the server out: the new secret works at once, and beside it for 24
  hours the secret that was in use (when another rotation's window is still open, the original
  secret of that window, to the end of it); after that the new secret alone.
\<close>

theorem rotate_overlap:
  assumes "store_ok s" "get_node i s = Some n"
  shows "\<exists>n'. get_node i (snd (rotate_secret i sec t m s)) = Some n' \<and>
    (\<forall>t'. candidates n' t' = sec #
       (if nd_oldSecret n \<noteq> [] \<and> nd_oldUntil n > t
        then (if t' < nd_oldUntil n then [nd_oldSecret n] else [])
        else (if t' < t + OVERLAP_MS then [nd_secret n] else [])))"
proof -
  define n' where "n' = (if nd_oldSecret n \<noteq> [] \<and> nd_oldUntil n > t then n
     else n\<lparr>nd_oldSecret := nd_secret n, nd_oldUntil := t + OVERLAP_MS\<rparr>)\<lparr>nd_secret := sec\<rparr>"
  have "rotate_fn sec t n = Inr n'" by (simp add: rotate_fn_def n'_def)
  have n: "map_of (ns_nodes (load s)) i = Some n" "\<not> nd_revoked n"
    using assms(2) by (auto simp: get_node_def split: option.splits if_splits)
  have "nrec_ok n" using store_ok_load [OF assms(1)] n(1) by (auto simp: store_ok_def intro: table_ok_lookup)
  then have "nd_secret n \<noteq> []" using n(2) by (auto simp: nrec_ok_def is_hex64_def in_class_def)
  have "get_node i (snd (rotate_secret i sec t m s)) = Some n'"
    using change_get [of i s n "rotate_fn sec t", OF assms(2) \<open>rotate_fn sec t n = Inr n'\<close>] n(2)
    by (simp add: rotate_secret_def get_after_put n'_def)
  then show ?thesis using \<open>nd_secret n \<noteq> []\<close> by (auto simp: candidates_def n'_def)
qed

theorem rotate_overlap_witness:
  "\<exists>n'. get_node ''abcdefghijkl'' (snd (rotate_secret ''abcdefghijkl'' ''new'' 1000 6 demo_store)) = Some n' \<and>
     candidates n' 2000 = [''new'', demo_secret] \<and> candidates n' (1000 + OVERLAP_MS) = [''new'']"
proof -
  have "store_ok demo_store" by code_simp
  moreover have "get_node ''abcdefghijkl'' demo_store = Some (new_node ''web'' demo_secret False 0 [''eu''])" by code_simp
  ultimately show ?thesis
    using rotate_overlap [of demo_store "''abcdefghijkl''" "new_node ''web'' demo_secret False 0 [''eu'']" "''new''" 1000 6]
    by (auto simp: new_node_def OVERLAP_MS_def)
qed

text \<open>
  The registry stays sound: from a sound store every run of its operations gives a sound store,
  so a node that is known has a printable name, proper tags and a secret of 64 hex digits.
\<close>

theorem registry_sound:
  assumes "store_ok s" "get_node i (foldl node_step s ops) = Some n"
  shows "store_ok (foldl node_step s ops) \<and> is_name64 (nd_name n) \<and> list_all is_tag (nd_tags n) \<and> is_hex64 (nd_secret n)"
proof -
  have ok: "store_ok (foldl node_step s ops)" using assms(1) by (rule registry.inv_run)
  have "map_of (ns_nodes (load (foldl node_step s ops))) i = Some n" "\<not> nd_revoked n"
    using assms(2) by (auto simp: get_node_def split: option.splits if_splits)
  moreover from this(1) have "nrec_ok n" using store_ok_load [OF ok] by (auto simp: store_ok_def intro: table_ok_lookup)
  ultimately show ?thesis using ok by (simp add: nrec_ok_def)
qed

theorem registry_sound_witness:
  "let s = foldl node_step demo_store [Rename ''abcdefghijkl'' '' api '' 6] in
   store_ok s \<and> (\<exists>n. get_node ''abcdefghijkl'' s = Some n \<and> nd_name n = ''api'' \<and> is_hex64 (nd_secret n))"
proof -
  let ?s = "foldl node_step demo_store [Rename ''abcdefghijkl'' '' api '' 6]"
  have "store_ok demo_store" by code_simp
  moreover have "get_node ''abcdefghijkl'' ?s = Some (new_node ''api'' demo_secret False 0 [''eu''])" by code_simp
  ultimately show ?thesis
    using registry_sound [of demo_store "''abcdefghijkl''" "[Rename ''abcdefghijkl'' '' api '' 6]"]
    unfolding Let_def by (metis new_node_def nrec.select_convs(1))
qed

end
