(* ===== verification/Agent_Api.thy ===== *)
theory Agent_Api
  imports Snapshot Nodes
begin

text \<open>
  The agent API, \<^verbatim>\<open>src/hub/lib/agentapi.js\<close> with the signatures of \<^verbatim>\<open>src/hub/lib/agentsig.js\<close>: the
  checks of a push or a wait in the protocol's order, the last accepted times with their file, the
  limit on failed authentications, and the long polls. SHA-256, HMAC and \<^verbatim>\<open>JSON.parse\<close> are the record
  \<open>crypto\<close>, an argument of every definition that uses them.

  \<^verbatim>\<open>handle\<close> is an \<^verbatim>\<open>async\<close> function that waits for the request's body in the middle: \<open>arrive\<close> is the part
  before the wait and \<open>finish\<close> the part after it, on the record \<open>pending\<close> of the variables that live
  across it, so that other requests can run in between; \<open>handle\<close> is the two in one go. The node is
  the object \<^verbatim>\<open>nodes.get(id)\<close> gave; \<open>finish\<close> takes the object as it is then. A connection is a number;
  \<open>a_sent\<close> has every answer given, \<open>a_snaps\<close> every call of \<^verbatim>\<open>onSnapshot\<close>, \<open>a_replay\<close> the file
  \<^verbatim>\<open>replayFile\<close>. A file that cannot be written, and the log lines, are left out.
\<close>

section \<open>Data\<close>

record crypto =
  c_sha256hex :: "string \<Rightarrow> string"
  c_hmacHex :: "string \<Rightarrow> string \<Rightarrow> string"
  c_parse :: "string \<Rightarrow> jsval option"

record areq =
  q_conn :: nat
  q_url :: string
  q_method :: string
  q_ip :: string
  q_proto :: string
  q_node :: string
  q_ts :: string
  q_sig :: string
  q_wait :: string
  q_clen :: int

text \<open>What an error answer says besides its code: a header or a member of the body.\<close>

datatype detail = Plain | RetryAfter int | HubMs ms | BadPath string | CloseConn

datatype resp =
    RFail nat string detail
  | RReply nat string string

text \<open>\<open>RReply code body sig\<close> carries the header \<^verbatim>\<open>x-servitals-sig\<close>.\<close>

datatype endpoint = Push | Wait

record pending =
  p_req :: areq
  p_endpoint :: endpoint
  p_path :: string
  p_hubMs :: ms
  p_ts :: int

record waiter =
  w_conn :: nat
  w_secret :: string
  w_ts :: string

record api =
  a_lastTs :: "(string \<times> int) list"
  a_replay :: "(string \<times> int) list"
  a_failures :: "(string \<times> nat \<times> ms) list"
  a_lastPush :: "(string \<times> ms) list"
  a_lastWake :: "(string \<times> ms) list"
  a_waiters :: "(string \<times> waiter) list"
  a_seen :: "string list"
  a_dropped :: "(string \<times> string) list"
  a_pending :: "(nat \<times> pending) list"
  a_snaps :: "(string \<times> jsval) list"
  a_sent :: "(nat \<times> resp) list"

definition MAX_SKEW_MS :: ms where "MAX_SKEW_MS = 120000"
definition PUSH_MIN_MS :: ms where "PUSH_MIN_MS = 5000"
definition WAIT_MAX_S :: int where "WAIT_MAX_S = 55"
definition WAIT_MIN_S :: int where "WAIT_MIN_S = 5"
definition FAIL_LIMIT :: nat where "FAIL_LIMIT = 30"
definition FAIL_WINDOW_MS :: ms where "FAIL_WINDOW_MS = 60000"
definition MAX_BODY :: int where "MAX_BODY = 256 * 1024"

section \<open>Signatures\<close>

definition newline :: string where "newline = [CHR 0x0A]"

definition to_upper :: "char \<Rightarrow> char" where
  "to_upper c = (if is_lower c then char_of ((of_char c :: nat) - 32) else c)"

definition signRequest :: "crypto \<Rightarrow> string \<Rightarrow> string \<Rightarrow> string \<Rightarrow> string \<Rightarrow> string \<Rightarrow> string" where
  "signRequest C secret mth path ts body =
    c_hmacHex C secret (map to_upper mth @ newline @ path @ newline @ ts @ newline @ c_sha256hex C body)"

definition verifyRequest :: "crypto \<Rightarrow> string \<Rightarrow> string \<Rightarrow> string \<Rightarrow> string \<Rightarrow> string \<Rightarrow> string \<Rightarrow> bool" where
  "verifyRequest C secret mth path ts body sig \<longleftrightarrow> is_hex64 sig \<and> signRequest C secret mth path ts body = sig"

definition signReply :: "crypto \<Rightarrow> string \<Rightarrow> string \<Rightarrow> string \<Rightarrow> string" where
  "signReply C secret ts body = c_hmacHex C secret (''reply'' @ newline @ ts @ newline @ c_sha256hex C body)"

section \<open>Parsing\<close>

definition digit_val :: "char \<Rightarrow> int" where
  "digit_val c = of_char c - 48"

definition digits_val :: "string \<Rightarrow> int" where
  "digits_val s = foldl (\<lambda>n c. 10 * n + digit_val c) 0 s"

text \<open>\<^verbatim>\<open>parseInt(v, 10)\<close>: white space, a sign, then the leading digits; \<open>None\<close> is NaN.\<close>

definition js_parseInt :: "string \<Rightarrow> int option" where
  "js_parseInt v =
    (let s = dropWhile is_space v;
         neg = (s \<noteq> [] \<and> hd s = CHR ''-'');
         ds = takeWhile is_digit (if s \<noteq> [] \<and> hd s \<in> {CHR ''-'', CHR ''+''} then tl s else s) in
     if ds = [] then None else Some (if neg then - digits_val ds else digits_val ds))"

definition clampWait :: "string \<Rightarrow> int" where
  "clampWait v = (case js_parseInt v of None \<Rightarrow> WAIT_MAX_S | Some n \<Rightarrow> min WAIT_MAX_S (max WAIT_MIN_S n))"

text \<open>\<^verbatim>\<open>/^\d{1,16}$/.test(tsRaw) ? Number(tsRaw) : NaN\<close>\<close>

definition parse_ts :: "string \<Rightarrow> int option" where
  "parse_ts s = (if in_class is_digit 1 16 s then Some (digits_val s) else None)"

text \<open>The body, in chunks; \<open>None\<close> past the limit. The loop's state: bytes so far, past it or not, chunks.\<close>

definition read_chunk :: "int \<Rightarrow> int \<times> bool \<times> string list \<Rightarrow> string \<Rightarrow> int \<times> bool \<times> string list" where
  "read_chunk mx st c = (case st of (n, over, chunks) \<Rightarrow>
     if over then st
     else if n + int (length c) > mx then (n + int (length c), True, [])
     else (n + int (length c), False, chunks @ [c]))"

definition readLimited :: "int \<Rightarrow> string list \<Rightarrow> string option" where
  "readLimited mx cs = (case foldl (read_chunk mx) (0, False, []) cs of
     (n, over, chunks) \<Rightarrow> if over then None else Some (concat chunks))"

section \<open>Limits\<close>

definition failed :: "string \<Rightarrow> ms \<Rightarrow> api \<Rightarrow> api" where
  "failed ip t s =
    (let fs = (case map_of (a_failures s) ip of
           Some (n, until) \<Rightarrow> if until < t then AList.update ip (1, t + FAIL_WINDOW_MS) (a_failures s)
                             else AList.update ip (n + 1, until) (a_failures s)
         | None \<Rightarrow> AList.update ip (1, t + FAIL_WINDOW_MS) (a_failures s)) in
     s\<lparr>a_failures := (if length fs > 10000 then [] else fs)\<rparr>)"

definition blocked :: "string \<Rightarrow> ms \<Rightarrow> api \<Rightarrow> bool" where
  "blocked ip t s = (case map_of (a_failures s) ip of
      None \<Rightarrow> False
    | Some (n, until) \<Rightarrow> until \<ge> t \<and> n \<ge> FAIL_LIMIT)"

definition acceptTs :: "string \<Rightarrow> int \<Rightarrow> api \<Rightarrow> api" where
  "acceptTs key ts s = (let l = AList.update key ts (a_lastTs s) in s\<lparr>a_lastTs := l, a_replay := l\<rparr>)"

definition send :: "nat \<Rightarrow> resp \<Rightarrow> api \<Rightarrow> api" where
  "send c r s = s\<lparr>a_sent := a_sent s @ [(c, r)]\<rparr>"

definition fail_resp :: "nat \<Rightarrow> nat \<Rightarrow> string \<Rightarrow> api \<Rightarrow> api" where
  "fail_resp c code err s = send c (RFail code err Plain) s"

definition reply :: "crypto \<Rightarrow> nat \<Rightarrow> nat \<Rightarrow> string \<Rightarrow> string \<Rightarrow> string \<Rightarrow> api \<Rightarrow> api" where
  "reply C c code secret ts body s = send c (RReply code body (signReply C secret ts body)) s"

section \<open>The handler\<close>

definition api_key :: "string \<Rightarrow> endpoint \<Rightarrow> string" where
  "api_key i e = i @ '' '' @ (case e of Push \<Rightarrow> ''push'' | Wait \<Rightarrow> ''wait'')"

definition url_path :: "string \<Rightarrow> string" where
  "url_path url = takeWhile (\<lambda>c. c \<noteq> CHR ''?'') url"

definition endpoint_of :: "string \<Rightarrow> endpoint option" where
  "endpoint_of path =
    (if path = ''/api/v1/agent/push'' then Some Push else if path = ''/api/v1/agent/wait'' then Some Wait else None)"

definition last_ts :: "string \<Rightarrow> api \<Rightarrow> int" where
  "last_ts key s = (case map_of (a_lastTs s) key of None \<Rightarrow> 0 | Some t \<Rightarrow> t)"

text \<open>\<open>node\<close> is what \<^verbatim>\<open>nodes.get\<close> gives for the id of the request.\<close>

definition arrive :: "areq \<Rightarrow> nrec option \<Rightarrow> ms \<Rightarrow> api \<Rightarrow> api" where
  "arrive q node now s =
    (let c = q_conn q; path = url_path (q_url q) in
     case endpoint_of path of
       None \<Rightarrow> fail_resp c 404 ''not_found'' s
     | Some ep \<Rightarrow>
       if q_method q \<noteq> (case ep of Push \<Rightarrow> ''POST'' | Wait \<Rightarrow> ''GET'') then fail_resp c 405 ''method_not_allowed'' s
       else if CHR ''?'' \<in> set (q_url q) then fail_resp c 400 ''query_not_allowed'' s
       else let ip = (if q_ip q = [] then ''?'' else q_ip q); slowDown = send c (RFail 429 ''rate_limited'' (RetryAfter 60)) in
       if q_proto q \<noteq> ''1'' then fail_resp c 426 ''unsupported_protocol'' s
       else if \<not> is_node_id (q_node q) \<or> node = None then
         (if blocked ip now s then slowDown s else fail_resp c 401 ''unknown_node'' (failed ip now s))
       else let who = ip @ '' '' @ q_node q in
         if blocked who now s then slowDown s
         else case parse_ts (q_ts q) of
           None \<Rightarrow> send c (RFail 401 ''clock_skew'' (HubMs now)) (failed who now s)
         | Some ts \<Rightarrow>
           if \<bar>now - ts\<bar> > MAX_SKEW_MS then send c (RFail 401 ''clock_skew'' (HubMs now)) (failed who now s)
           else if ts \<le> last_ts (api_key (q_node q) ep) s then fail_resp c 401 ''replay'' s
           else if q_clen q > MAX_BODY then send c (RFail 413 ''too_large'' CloseConn) s
           else s\<lparr>a_pending := AList.update c
             \<lparr>p_req = q, p_endpoint = ep, p_path = path, p_hubMs = now, p_ts = ts\<rparr> (a_pending s)\<rparr>)"

definition finishWait :: "crypto \<Rightarrow> string \<Rightarrow> waiter \<Rightarrow> nat \<Rightarrow> api \<Rightarrow> api" where
  "finishWait C i w code s =
    (let s1 = (if map_of (a_waiters s) i = Some w then s\<lparr>a_waiters := AList.delete i (a_waiters s)\<rparr> else s) in
     if w_conn w \<in> fst ` set (a_sent s1) then s1
     else reply C (w_conn w) code (w_secret w) (w_ts w) (if code = 200 then ''{\"sample\":true}'' else []) s1)"

definition join_with :: "string \<Rightarrow> string list \<Rightarrow> string" where
  "join_with sep xs = (case xs of [] \<Rightarrow> [] | y # ys \<Rightarrow> foldl (\<lambda>a x. a @ sep @ x) y ys)"

text \<open>\<^verbatim>\<open>JSON.stringify({ ok: true, dropped })\<close>: the paths have no character that JSON escapes.\<close>

definition ok_body :: "string list \<Rightarrow> string" where
  "ok_body ds = (if ds = [] then ''{\"ok\":true}''
     else ''{\"ok\":true,\"dropped\":['' @ join_with '','' (map (\<lambda>d. ''\"'' @ d @ ''\"'') ds) @ '']}'')"

definition ceil_s :: "ms \<Rightarrow> int" where
  "ceil_s t = \<lceil>(of_int t / 1000 :: rat)\<rceil>"

definition push_ok :: "crypto \<Rightarrow> pending \<Rightarrow> string \<Rightarrow> string \<Rightarrow> api \<Rightarrow> api" where
  "push_ok C p secret body s =
    (let q = p_req p; c = q_conn q; i = q_node q;
         since = p_hubMs p - (case map_of (a_lastPush s) i of None \<Rightarrow> 0 | Some t \<Rightarrow> t) in
     if since < PUSH_MIN_MS then send c (RFail 429 ''rate_limited'' (RetryAfter (ceil_s (PUSH_MIN_MS - since)))) s
     else case validate (case c_parse C body of Some v \<Rightarrow> v | None \<Rightarrow> JUndef) of
       Inl path \<Rightarrow> send c (RFail 422 ''invalid_snapshot'' (BadPath path)) s
     | Inr (v, ds) \<Rightarrow>
         let s1 = acceptTs (api_key i Push) (p_ts p) s;
             s2 = s1\<lparr>a_lastPush := AList.update i (p_hubMs p) (a_lastPush s1), a_seen := List.insert i (a_seen s1),
                     a_snaps := a_snaps s1 @ [(i, v)],
                     a_dropped := (if ds = [] then AList.delete i (a_dropped s1) else AList.update i (join_with '' '' ds) (a_dropped s1))\<rparr> in
         reply C c 200 secret (q_ts q) (ok_body ds) s2)"

definition wait_ok :: "crypto \<Rightarrow> pending \<Rightarrow> string \<Rightarrow> api \<Rightarrow> api" where
  "wait_ok C p secret s =
    (let q = p_req p; i = q_node q; s1 = acceptTs (api_key i Wait) (p_ts p) s;
         s2 = (case map_of (a_waiters s1) i of None \<Rightarrow> s1 | Some prev \<Rightarrow> finishWait C i prev 204 s1) in
     s2\<lparr>a_waiters := AList.update i \<lparr>w_conn = q_conn q, w_secret = secret, w_ts = q_ts q\<rparr> (a_waiters s2)\<rparr>)"

text \<open>The first candidate whose signature matches; an empty one counts as none (\<^verbatim>\<open>if (!secret)\<close>).\<close>

definition matching_secret :: "crypto \<Rightarrow> nrec \<Rightarrow> pending \<Rightarrow> string \<Rightarrow> string option" where
  "matching_secret C node p body =
    (case find (\<lambda>sec. verifyRequest C sec (q_method (p_req p)) (p_path p) (q_ts (p_req p)) body (q_sig (p_req p)))
            (candidates node (p_hubMs p)) of
       Some sec \<Rightarrow> if sec = [] then None else Some sec
     | None \<Rightarrow> None)"

text \<open>\<open>body\<close> is what \<open>readLimited\<close> resolved with, \<open>now\<close> the time then (for the failure count).\<close>

definition finish :: "crypto \<Rightarrow> pending \<Rightarrow> nrec \<Rightarrow> string option \<Rightarrow> ms \<Rightarrow> api \<Rightarrow> api" where
  "finish C p node body now s0 =
    (let q = p_req p; c = q_conn q; s = s0\<lparr>a_pending := AList.delete c (a_pending s0)\<rparr> in
     case body of
       None \<Rightarrow> send c (RFail 413 ''too_large'' CloseConn) s
     | Some b \<Rightarrow> (case matching_secret C node p b of
           None \<Rightarrow> fail_resp c 401 ''bad_signature'' (failed ((if q_ip q = [] then ''?'' else q_ip q) @ '' '' @ q_node q) now s)
         | Some secret \<Rightarrow> (case p_endpoint p of
               Push \<Rightarrow> push_ok C p secret b s
             | Wait \<Rightarrow> wait_ok C p secret s)))"

text \<open>The two parts with nothing in between.\<close>

definition handle :: "crypto \<Rightarrow> areq \<Rightarrow> nrec option \<Rightarrow> string list \<Rightarrow> ms \<Rightarrow> api \<Rightarrow> api" where
  "handle C q node chunks now s =
    (let s1 = arrive q node now s in
     case (map_of (a_pending s1) (q_conn q), node) of
       (Some p, Some n) \<Rightarrow> finish C p n (readLimited MAX_BODY chunks) now s1
     | _ \<Rightarrow> s1)"

definition wake :: "crypto \<Rightarrow> string \<Rightarrow> ms \<Rightarrow> api \<Rightarrow> bool \<times> api" where
  "wake C i t s = (case map_of (a_waiters s) i of
      None \<Rightarrow> (False, s)
    | Some w \<Rightarrow> (True, finishWait C i w 200 (s\<lparr>a_lastWake := AList.update i t (a_lastWake s)\<rparr>)))"

text \<open>\<^verbatim>\<open>res.on("close")\<close>.\<close>

definition conn_closed :: "nat \<Rightarrow> api \<Rightarrow> api" where
  "conn_closed c s = s\<lparr>a_waiters := filter (\<lambda>(i, w). w_conn w \<noteq> c) (a_waiters s)\<rparr>"

definition close_api :: "crypto \<Rightarrow> api \<Rightarrow> api" where
  "close_api C s = foldl (\<lambda>s (i, w). finishWait C i w 204 s) s (a_waiters s)"

definition lastPushAt :: "string \<Rightarrow> api \<Rightarrow> ms" where
  "lastPushAt i s = (case map_of (a_lastPush s) i of None \<Rightarrow> 0 | Some t \<Rightarrow> t)"

definition lastWakeAt :: "string \<Rightarrow> api \<Rightarrow> ms" where
  "lastWakeAt i s = (case map_of (a_lastWake s) i of None \<Rightarrow> 0 | Some t \<Rightarrow> t)"

text \<open>A process that starts, with the replay file it finds.\<close>

definition createAgentApi :: "(string \<times> int) list \<Rightarrow> api" where
  "createAgentApi file = \<lparr>a_lastTs = file, a_replay = file, a_failures = [], a_lastPush = [], a_lastWake = [], a_waiters = [],
     a_seen = [], a_dropped = [], a_pending = [], a_snaps = [], a_sent = []\<rparr>"

section \<open>Runs\<close>

definition conn_used :: "nat \<Rightarrow> api \<Rightarrow> bool" where
  "conn_used c s \<longleftrightarrow> c \<in> fst ` set (a_sent s) \<or> c \<in> fst ` set (a_pending s) \<or> c \<in> (\<lambda>(i, w). w_conn w) ` set (a_waiters s)"

definition restart_api :: "api \<Rightarrow> api" where
  "restart_api s = (createAgentApi (a_replay s))\<lparr>a_sent := a_sent s, a_snaps := a_snaps s\<rparr>"

datatype api_op =
    Arrive areq "nrec option" ms
  | BodyRead nat nrec "string list option" ms
  | Wake string ms
  | TimedOut string
  | Closed nat
  | CloseAll
  | RestartApi

text \<open>A request has a connection of its own; a body is read for a request that waits for it
  (\<open>None\<close>: the connection failed).\<close>

fun api_step :: "crypto \<Rightarrow> api \<Rightarrow> api_op \<Rightarrow> api" where
  "api_step C s (Arrive q node now) = (if conn_used (q_conn q) s then s else arrive q node now s)"
| "api_step C s (BodyRead c node chunks now) = (case map_of (a_pending s) c of
      None \<Rightarrow> s
    | Some p \<Rightarrow> finish C p node (case chunks of None \<Rightarrow> None | Some cs \<Rightarrow> readLimited MAX_BODY cs) now s)"
| "api_step C s (Wake i t) = snd (wake C i t s)"
| "api_step C s (TimedOut i) = (case map_of (a_waiters s) i of None \<Rightarrow> s | Some w \<Rightarrow> finishWait C i w 204 s)"
| "api_step C s (Closed c) = conn_closed c s"
| "api_step C s CloseAll = close_api C s"
| "api_step C s RestartApi = restart_api s"

lemma read_chunk_simps [simp]:
  "read_chunk mx (n, True, acc) c = (n, True, acc)"
  "read_chunk mx (n, False, acc) c = (if n + int (length c) > mx then (n + int (length c), True, []) else (n + int (length c), False, acc @ [c]))"
  by (simp_all add: read_chunk_def)

lemma readLimited_over: "foldl (read_chunk mx) (n, True, []) cs = (n, True, [])"
  by (induction cs) simp_all

lemma readLimited_foldl:
  "n = int (length (concat acc)) \<Longrightarrow> n \<le> mx \<Longrightarrow>
   (case foldl (read_chunk mx) (n, False, acc) cs of (n, over, chunks) \<Rightarrow> if over then None else Some (concat chunks)) =
   (if int (length (concat (acc @ cs))) > mx then None else Some (concat (acc @ cs)))"
proof (induction cs arbitrary: n acc)
  case (Cons c cs)
  show ?case
  proof (cases "n + int (length c) > mx")
    case True
    with Cons.prems(1) show ?thesis by (simp add: readLimited_over)
  next
    case False
    with Cons.IH [of "n + int (length c)" "acc @ [c]"] Cons.prems(1) show ?thesis by simp
  qed
qed simp

lemma readLimited_eq: "0 \<le> mx \<Longrightarrow> readLimited mx cs = (if int (length (concat cs)) > mx then None else Some (concat cs))"
  using readLimited_foldl [of 0 "[]" mx cs] by (simp add: readLimited_def)

lemma send_fields [simp]:
  "a_lastTs (send c r s) = a_lastTs s" "a_replay (send c r s) = a_replay s" "a_snaps (send c r s) = a_snaps s"
  "a_pending (send c r s) = a_pending s" "a_waiters (send c r s) = a_waiters s" "a_failures (send c r s) = a_failures s"
  "a_sent (send c r s) = a_sent s @ [(c, r)]"
  by (simp_all add: send_def)

lemma failed_fields [simp]:
  "a_lastTs (failed ip t s) = a_lastTs s" "a_replay (failed ip t s) = a_replay s" "a_snaps (failed ip t s) = a_snaps s"
  "a_pending (failed ip t s) = a_pending s" "a_waiters (failed ip t s) = a_waiters s" "a_sent (failed ip t s) = a_sent s"
  by (simp_all add: failed_def Let_def)

lemma finishWait_fields [simp]:
  "a_lastTs (finishWait C i w code s) = a_lastTs s" "a_replay (finishWait C i w code s) = a_replay s"
  "a_snaps (finishWait C i w code s) = a_snaps s" "a_pending (finishWait C i w code s) = a_pending s"
  "a_failures (finishWait C i w code s) = a_failures s"
  "a_waiters (finishWait C i w code s) =
     (if map_of (a_waiters s) i = Some w then AList.delete i (a_waiters s) else a_waiters s)"
  by (simp_all add: finishWait_def reply_def Let_def)

lemma arrive_fields [simp]:
  "a_lastTs (arrive q node now s) = a_lastTs s" "a_replay (arrive q node now s) = a_replay s"
  "a_snaps (arrive q node now s) = a_snaps s" "a_waiters (arrive q node now s) = a_waiters s"
  by (simp_all add: arrive_def fail_resp_def Let_def split: option.splits)

lemma close_fields [simp]:
  "a_lastTs (close_api C s) = a_lastTs s" "a_replay (close_api C s) = a_replay s" "a_snaps (close_api C s) = a_snaps s"
  "a_pending (close_api C s) = a_pending s" "a_failures (close_api C s) = a_failures s"
proof -
  have "a_lastTs (foldl (\<lambda>s (i, w). finishWait C i w 204 s) s ws) = a_lastTs s \<and>
      a_replay (foldl (\<lambda>s (i, w). finishWait C i w 204 s) s ws) = a_replay s \<and>
      a_snaps (foldl (\<lambda>s (i, w). finishWait C i w 204 s) s ws) = a_snaps s \<and>
      a_pending (foldl (\<lambda>s (i, w). finishWait C i w 204 s) s ws) = a_pending s \<and>
      a_failures (foldl (\<lambda>s (i, w). finishWait C i w 204 s) s ws) = a_failures s" for ws
    by (induction ws arbitrary: s) auto
  then show "a_lastTs (close_api C s) = a_lastTs s" "a_replay (close_api C s) = a_replay s" "a_snaps (close_api C s) = a_snaps s"
    "a_pending (close_api C s) = a_pending s" "a_failures (close_api C s) = a_failures s"
    by (simp_all add: close_api_def)
qed

lemma conn_closed_fields [simp]:
  "a_lastTs (conn_closed c s) = a_lastTs s" "a_replay (conn_closed c s) = a_replay s" "a_snaps (conn_closed c s) = a_snaps s"
  "a_pending (conn_closed c s) = a_pending s" "a_failures (conn_closed c s) = a_failures s" "a_sent (conn_closed c s) = a_sent s"
  by (simp_all add: conn_closed_def)

lemma restart_fields [simp]:
  "a_lastTs (restart_api s) = a_replay s" "a_replay (restart_api s) = a_replay s" "a_snaps (restart_api s) = a_snaps s"
  "a_pending (restart_api s) = []" "a_waiters (restart_api s) = []" "a_sent (restart_api s) = a_sent s"
  by (simp_all add: restart_api_def createAgentApi_def)

lemma acceptTs_fields [simp]:
  "a_lastTs (acceptTs k t s) = AList.update k t (a_lastTs s)" "a_replay (acceptTs k t s) = AList.update k t (a_lastTs s)"
  "a_snaps (acceptTs k t s) = a_snaps s" "a_pending (acceptTs k t s) = a_pending s" "a_waiters (acceptTs k t s) = a_waiters s"
  "a_sent (acceptTs k t s) = a_sent s"
  by (simp_all add: acceptTs_def Let_def)

lemma push_ok_fields:
  "a_pending (push_ok C p sec b s) = a_pending s" "a_waiters (push_ok C p sec b s) = a_waiters s"
  by (simp_all add: push_ok_def reply_def Let_def split: sum.splits prod.splits)

text \<open>What \<open>push_ok\<close> can do: refuse, or accept the time and the snapshot.\<close>

lemma push_ok_cases:
  "(a_lastTs (push_ok C p sec b s) = a_lastTs s \<and> a_replay (push_ok C p sec b s) = a_replay s \<and> a_snaps (push_ok C p sec b s) = a_snaps s) \<or>
   (a_lastTs (push_ok C p sec b s) = AList.update (api_key (q_node (p_req p)) Push) (p_ts p) (a_lastTs s) \<and>
    a_replay (push_ok C p sec b s) = a_lastTs (push_ok C p sec b s) \<and>
    (\<exists>raw v ds. c_parse C b = Some raw \<and> validate raw = Inr (v, ds) \<and> a_snaps (push_ok C p sec b s) = a_snaps s @ [(q_node (p_req p), v)]))"
proof -
  have "isl (validate JUndef)" by (simp add: validate_def build_def)
  then show ?thesis
    by (auto simp: push_ok_def reply_def Let_def split: sum.splits prod.splits option.splits)
qed

lemma wait_ok_fields:
  "a_lastTs (wait_ok C p sec s) = AList.update (api_key (q_node (p_req p)) Wait) (p_ts p) (a_lastTs s)"
  "a_replay (wait_ok C p sec s) = a_lastTs (wait_ok C p sec s)"
  "a_snaps (wait_ok C p sec s) = a_snaps s" "a_pending (wait_ok C p sec s) = a_pending s"
  by (simp_all add: wait_ok_def Let_def split: option.splits)

section \<open>Only authentic requests are accepted\<close>

text \<open>What is known of a request that waits for its body.\<close>

definition pend_ok :: "nat \<Rightarrow> pending \<Rightarrow> bool" where
  "pend_ok c p \<longleftrightarrow> q_conn (p_req p) = c \<and> is_node_id (q_node (p_req p)) \<and> parse_ts (q_ts (p_req p)) = Some (p_ts p) \<and>
     \<bar>p_hubMs p - p_ts p\<bar> \<le> MAX_SKEW_MS \<and> endpoint_of (p_path p) = Some (p_endpoint p)"

definition pends_ok :: "api \<Rightarrow> bool" where
  "pends_ok s \<longleftrightarrow> (\<forall>c p. map_of (a_pending s) c = Some p \<longrightarrow> pend_ok c p)"

text \<open>What \<open>arrive\<close> can do: answer at once, count a failure and answer, or wait for the body.\<close>

definition starts :: "areq \<Rightarrow> nrec option \<Rightarrow> ms \<Rightarrow> api \<Rightarrow> pending \<Rightarrow> bool" where
  "starts q node now s p \<longleftrightarrow> pend_ok (q_conn q) p \<and> p_req p = q \<and> p_hubMs p = now \<and> node \<noteq> None \<and>
     endpoint_of (url_path (q_url q)) = Some (p_endpoint p) \<and> p_ts p > last_ts (api_key (q_node q) (p_endpoint p)) s"

lemma arrive_rule:
  assumes "\<And>r. P (send (q_conn q) r s)" "\<And>r ip. P (send (q_conn q) r (failed ip now s))"
    and "\<And>p. starts q node now s p \<Longrightarrow> P (s\<lparr>a_pending := AList.update (q_conn q) p (a_pending s)\<rparr>)"
  shows "P (arrive q node now s)"
proof -
  define ip where "ip = (if q_ip q = [] then ''?'' else q_ip q)"
  show ?thesis
    unfolding arrive_def fail_resp_def Let_def ip_def [symmetric]
    by (simp add: assms(1,2) split: option.split) (auto simp: starts_def pend_ok_def intro!: assms(3))
qed

lemma arrive_pending:
  "a_pending (arrive q node now s) = a_pending s \<or>
   (\<exists>p. a_pending (arrive q node now s) = AList.update (q_conn q) p (a_pending s) \<and> starts q node now s p \<and>
      a_sent (arrive q node now s) = a_sent s)"
  by (rule arrive_rule) auto

lemma finish_pending: "a_pending (finish C p node body now s) = AList.delete (q_conn (p_req p)) (a_pending s)"
  by (auto simp: finish_def Let_def fail_resp_def push_ok_fields wait_ok_fields split: option.splits endpoint.splits)

lemma finish_effect:
  "(a_snaps (finish C p node body now s) = a_snaps s \<and> a_lastTs (finish C p node body now s) = a_lastTs s \<and>
    a_replay (finish C p node body now s) = a_replay s) \<or>
   (\<exists>b sec. body = Some b \<and> matching_secret C node p b = Some sec \<and>
    a_lastTs (finish C p node body now s) = AList.update (api_key (q_node (p_req p)) (p_endpoint p)) (p_ts p) (a_lastTs s) \<and>
    a_replay (finish C p node body now s) = a_lastTs (finish C p node body now s) \<and>
    (a_snaps (finish C p node body now s) = a_snaps s \<or>
     (\<exists>raw v ds. c_parse C b = Some raw \<and> validate raw = Inr (v, ds) \<and>
        a_snaps (finish C p node body now s) = a_snaps s @ [(q_node (p_req p), v)])))"
proof -
  let ?s = "s\<lparr>a_pending := AList.delete (q_conn (p_req p)) (a_pending s)\<rparr>"
  show ?thesis
  proof (cases "\<exists>b sec. body = Some b \<and> matching_secret C node p b = Some sec")
    case False
    then show ?thesis
      by (intro disjI1) (auto simp: finish_def Let_def fail_resp_def split: option.splits)
  next
    case True
    then obtain b sec where b: "body = Some b" "matching_secret C node p b = Some sec" by blast
    show ?thesis
    proof (cases "p_endpoint p")
      case Push
      then have "finish C p node body now s = push_ok C p sec b ?s" by (simp add: finish_def b Let_def)
      with push_ok_cases [of C p sec b ?s] Push b show ?thesis by auto
    next
      case Wait
      then have "finish C p node body now s = wait_ok C p sec ?s" by (simp add: finish_def b Let_def)
      with Wait b show ?thesis by (simp add: wait_ok_fields)
    qed
  qed
qed

definition api_inv :: "api \<Rightarrow> bool" where
  "api_inv s \<longleftrightarrow> pends_ok s \<and> a_replay s = a_lastTs s"

interpretation pends: machine "api_step C" api_inv for C
proof
  fix s op assume ok: "api_inv s"
  show "api_inv (api_step C s op)"
  proof (cases op)
    case (Arrive q node now)
    then show ?thesis using ok arrive_pending [of q node now s]
      by (auto simp: api_inv_def pends_ok_def starts_def split: if_splits)
  next
    case (BodyRead c node chunks now)
    show ?thesis
    proof (cases "map_of (a_pending s) c")
      case (Some p)
      let ?b = "case chunks of None \<Rightarrow> None | Some cs \<Rightarrow> readLimited MAX_BODY cs"
      have "a_replay (finish C p node ?b now s) = a_lastTs (finish C p node ?b now s)"
        using finish_effect [of C p node ?b now s] ok by (auto simp: api_inv_def)
      then show ?thesis using ok BodyRead Some by (auto simp: api_inv_def pends_ok_def finish_pending)
    qed (use ok BodyRead in simp)
  qed (use ok in \<open>auto simp: api_inv_def pends_ok_def wake_def split: option.splits\<close>)
qed

lemma api_inv_create: "api_inv (createAgentApi file)"
  by (simp add: api_inv_def pends_ok_def createAgentApi_def)

lemma matching_secretD:
  "matching_secret C node p b = Some sec \<Longrightarrow> sec \<noteq> [] \<and> sec \<in> set (candidates node (p_hubMs p)) \<and>
     verifyRequest C sec (q_method (p_req p)) (p_path p) (q_ts (p_req p)) b (q_sig (p_req p))"
  by (auto simp: matching_secret_def dest!: find_SomeD split: option.splits if_splits)

lemma step_effect:
  assumes "api_inv s" "a_snaps (api_step C s op) \<noteq> a_snaps s \<or> a_lastTs (api_step C s op) \<noteq> a_lastTs s"
  obtains c node cs now p where "op = BodyRead c node (Some cs) now" "map_of (a_pending s) c = Some p" "pend_ok c p"
    "api_step C s op = finish C p node (readLimited MAX_BODY cs) now s"
proof (cases op)
  case (BodyRead c node chunks now)
  then obtain p where p: "map_of (a_pending s) c = Some p" using assms(2) by (auto split: option.splits)
  moreover have "chunks \<noteq> None"
  proof
    assume "chunks = None"
    with BodyRead p assms(2) show False by (auto simp: finish_def Let_def)
  qed
  ultimately show ?thesis using that BodyRead assms(1) by (auto simp: api_inv_def pends_ok_def)
qed (use assms in \<open>auto simp: api_inv_def wake_def split: option.splits if_splits\<close>)

section \<open>One request at a time\<close>

datatype seq_op = Handle areq "nrec option" "string list" ms | Pause api_op

fun seq_step :: "crypto \<Rightarrow> api \<Rightarrow> seq_op \<Rightarrow> api" where
  "seq_step C s (Handle q node chunks now) = (if conn_used (q_conn q) s then s else handle C q node chunks now s)"
| "seq_step C s (Pause op) = (case op of Arrive _ _ _ \<Rightarrow> s | BodyRead _ _ _ _ \<Rightarrow> s | _ \<Rightarrow> api_step C s op)"

definition seq_inv :: "api \<Rightarrow> bool" where
  "seq_inv s \<longleftrightarrow> a_pending s = [] \<and> a_replay s = a_lastTs s"

lemma last_ts_cong: "a_lastTs s' = a_lastTs s \<Longrightarrow> last_ts k s' = last_ts k s"
  by (simp add: last_ts_def)

lemma last_ts_update: "a_lastTs s' = AList.update k t (a_lastTs s) \<Longrightarrow> last_ts k' s' = (if k' = k then t else last_ts k' s)"
  by (simp add: last_ts_def)

definition accepts :: "api \<Rightarrow> api \<Rightarrow> bool" where
  "accepts s s' \<longleftrightarrow> a_snaps s' \<noteq> a_snaps s \<or> a_lastTs s' \<noteq> a_lastTs s"

definition req_key :: "areq \<Rightarrow> string" where
  "req_key q = api_key (q_node q) (case endpoint_of (url_path (q_url q)) of Some e \<Rightarrow> e | None \<Rightarrow> Push)"

lemma handle_effect:
  assumes "seq_inv s"
  shows "seq_inv (handle C q node chunks now s) \<and>
    (\<not> accepts s (handle C q node chunks now s) \<or>
     (\<exists>ts. parse_ts (q_ts q) = Some ts \<and> ts > last_ts (req_key q) s \<and>
        a_lastTs (handle C q node chunks now s) = AList.update (req_key q) ts (a_lastTs s)))"
proof -
  have nil: "a_pending s = []" and sync: "a_replay s = a_lastTs s" using assms by (simp_all add: seq_inv_def)
  let ?s1 = "arrive q node now s"
  show ?thesis
  proof (cases "a_pending ?s1 = []")
    case True
    then have "handle C q node chunks now s = ?s1" by (simp add: handle_def Let_def)
    then show ?thesis using True sync by (simp add: accepts_def seq_inv_def)
  next
    case False
    with arrive_pending [of q node now s] nil obtain p where
      p: "a_pending ?s1 = [(q_conn q, p)]" "starts q node now s p" by auto
    have key: "api_key (q_node q) (p_endpoint p) = req_key q" using p(2) by (simp add: starts_def req_key_def)
    obtain n where n: "node = Some n" using p(2) by (auto simp: starts_def)
    have h: "handle C q node chunks now s = finish C p n (readLimited MAX_BODY chunks) now ?s1"
      using p(1) n by (simp add: handle_def Let_def)
    have q: "p_req p = q" using p(2) by (simp add: starts_def)
    have "a_pending (handle C q node chunks now s) = []" by (simp add: h finish_pending p(1) q)
    then show ?thesis
      using finish_effect [of C p n "readLimited MAX_BODY chunks" now ?s1] p(2) q sync
      by (auto simp: h seq_inv_def accepts_def key pend_ok_def starts_def)
  qed
qed

lemma pause_effect:
  assumes "seq_inv s"
  shows "seq_inv (seq_step C s (Pause op)) \<and> \<not> accepts s (seq_step C s (Pause op))"
  using assms by (cases op) (auto simp: seq_inv_def accepts_def wake_def split: option.splits)

lemma seq_step_mono:
  assumes "seq_inv s"
  shows "seq_inv (seq_step C s op) \<and> last_ts k s \<le> last_ts k (seq_step C s op)"
proof (cases op)
  case (Handle q node chunks now)
  show ?thesis
    using handle_effect [OF assms, of C q node chunks now] assms last_ts_cong [of "handle C q node chunks now s" s k]
      last_ts_update [of "handle C q node chunks now s" "req_key q" _ s k]
    by (auto simp: Handle accepts_def)
next
  case (Pause op)
  then show ?thesis using pause_effect [OF assms, of C op] last_ts_cong [of "seq_step C s (Pause op)" s k]
    by (simp add: accepts_def)
qed

interpretation seqs: machine "seq_step C" "\<lambda>s. seq_inv s \<and> b \<le> last_ts k s" for C b k
  by unfold_locales (use seq_step_mono in \<open>blast intro: order_trans\<close>)

section \<open>One answer per connection\<close>

definition conns :: "api \<Rightarrow> nat list" where
  "conns s = map fst (a_sent s) @ map fst (a_pending s) @ map (\<lambda>iw. w_conn (snd iw)) (a_waiters s)"

text \<open>Every connection is answered, waits for its body or is a long poll, and only one of these.\<close>

definition one_answer :: "api \<Rightarrow> bool" where
  "one_answer s \<longleftrightarrow> distinct (conns s) \<and> distinct (map fst (a_waiters s)) \<and> pends_ok s"

lemma conn_used_conns: "conn_used c s \<longleftrightarrow> c \<in> set (conns s)"
  by (auto simp: conn_used_def conns_def split_beta)

lemma conns_cong:
  "a_sent s' = a_sent s \<Longrightarrow> a_pending s' = a_pending s \<Longrightarrow> a_waiters s' = a_waiters s \<Longrightarrow> conns s' = conns s \<and> one_answer s' = one_answer s"
  by (simp add: conns_def one_answer_def pends_ok_def)

lemma one_answer_send: "one_answer s \<Longrightarrow> c \<notin> set (conns s) \<Longrightarrow> one_answer (send c r s)"
  by (auto simp: one_answer_def conns_def pends_ok_def)

lemma one_answer_failed [simp]: "one_answer (failed ip t s) = one_answer s" "conns (failed ip t s) = conns s"
  using conns_cong [of "failed ip t s" s] by simp_all

lemma map_fst_update_fresh: "k \<notin> fst ` set m \<Longrightarrow> AList.update k v m = m @ [(k, v)]"
  by (induction m) auto

lemma one_answer_arrive:
  assumes "one_answer s" "q_conn q \<notin> set (conns s)"
  shows "one_answer (arrive q node now s)"
proof -
  have "q_conn q \<notin> fst ` set (a_pending s)" using assms(2) by (simp add: conns_def)
  then have "one_answer (s\<lparr>a_pending := AList.update (q_conn q) p (a_pending s)\<rparr>)" if "pend_ok (q_conn q) p" for p
    using that assms by (auto simp: one_answer_def conns_def pends_ok_def map_fst_update_fresh split: if_splits)
  then show ?thesis by (intro arrive_rule [of "one_answer"] one_answer_send) (simp_all add: assms starts_def)
qed

lemma one_answer_drop_pending:
  assumes "one_answer s" "map_of (a_pending s) c = Some p"
  defines "s' \<equiv> s\<lparr>a_pending := AList.delete c (a_pending s)\<rparr>"
  shows "one_answer s'" "c \<notin> set (conns s')"
proof -
  have "c \<in> fst ` set (a_pending s)" using assms(2) by (force dest: map_of_SomeD)
  then show "one_answer s'" "c \<notin> set (conns s')"
    using assms(1) by (auto simp: s'_def one_answer_def conns_def pends_ok_def set_delete AList.distinct_delete)
qed

lemma distinct_map_delete: "distinct (map f m) \<Longrightarrow> distinct (map f (AList.delete k m))"
  by (simp add: AList.delete_eq distinct_map_filter)

lemma one_answer_drop_waiter:
  assumes "one_answer s" "map_of (a_waiters s) i = Some w"
  defines "s' \<equiv> s\<lparr>a_waiters := AList.delete i (a_waiters s)\<rparr>"
  shows "one_answer s'" "w_conn w \<notin> set (conns s')"
proof -
  have w: "(i, w) \<in> set (a_waiters s)" using assms(2) by (rule map_of_SomeD)
  have inj: "inj_on (\<lambda>iw. w_conn (snd iw)) (set (a_waiters s))"
    using assms(1) by (simp add: one_answer_def conns_def distinct_map)
  have "w_conn w' \<noteq> w_conn w" if "(j, w') \<in> set (a_waiters s)" "j \<noteq> i" for j w'
    using inj_onD [OF inj _ that(1) w] that(2) by auto
  then have "w_conn w \<notin> (\<lambda>iw. w_conn (snd iw)) ` set (AList.delete i (a_waiters s))"
    unfolding set_delete by force
  moreover have "w_conn w \<in> (\<lambda>iw. w_conn (snd iw)) ` set (a_waiters s)"
    using imageI [OF w, of "\<lambda>iw. w_conn (snd iw)"] by simp
  ultimately show "w_conn w \<notin> set (conns s')"
    using assms(1) by (auto simp: s'_def one_answer_def conns_def)
  show "one_answer s'"
    using assms(1) by (auto simp: s'_def one_answer_def conns_def pends_ok_def set_delete distinct_map_delete)
qed

lemma one_answer_finishWait:
  assumes "one_answer s" "map_of (a_waiters s) i = Some w"
  shows "one_answer (finishWait C i w code s)"
  using one_answer_drop_waiter [OF assms] assms(2)
  by (auto simp: finishWait_def reply_def Let_def conns_def intro!: one_answer_send)

lemma conns_finishWait:
  assumes "map_of (a_waiters s) i = Some w" "c \<notin> set (conns s)"
  shows "c \<notin> set (conns (finishWait C i w code s))"
proof -
  have "w_conn w \<in> (\<lambda>iw. w_conn (snd iw)) ` set (a_waiters s)"
    using imageI [OF map_of_SomeD [OF assms(1)], of "\<lambda>iw. w_conn (snd iw)"] by simp
  with assms show ?thesis by (auto simp: finishWait_def reply_def Let_def conns_def set_delete)
qed

lemma one_answer_wait_ok:
  assumes "one_answer s" "q_conn (p_req p) \<notin> set (conns s)"
  shows "one_answer (wait_ok C p sec s)"
proof -
  let ?i = "q_node (p_req p)"
  define s1 where "s1 = acceptTs (api_key ?i Wait) (p_ts p) s"
  define s2 where "s2 = (case map_of (a_waiters s1) ?i of None \<Rightarrow> s1 | Some prev \<Rightarrow> finishWait C ?i prev 204 s1)"
  have 1: "one_answer s1" "q_conn (p_req p) \<notin> set (conns s1)" using conns_cong [of s1 s] assms by (simp_all add: s1_def)
  have 2: "one_answer s2 \<and> q_conn (p_req p) \<notin> set (conns s2) \<and> map_of (a_waiters s2) ?i = None"
    using 1 by (auto simp: s2_def one_answer_finishWait conns_finishWait split: option.splits)
  then have "?i \<notin> fst ` set (a_waiters s2)" by (simp add: map_of_eq_None_iff)
  moreover have "wait_ok C p sec s = s2\<lparr>a_waiters := AList.update ?i \<lparr>w_conn = q_conn (p_req p), w_secret = sec, w_ts = q_ts (p_req p)\<rparr> (a_waiters s2)\<rparr>"
    unfolding wait_ok_def Let_def s2_def s1_def ..
  ultimately show ?thesis using 2 by (auto simp: one_answer_def conns_def pends_ok_def map_fst_update_fresh)
qed

lemma one_answer_push_ok:
  assumes "one_answer s" "q_conn (p_req p) \<notin> set (conns s)"
  shows "one_answer (push_ok C p sec b s)"
proof -
  have "one_answer (send (q_conn (p_req p)) r s')" if "a_sent s' = a_sent s" "a_pending s' = a_pending s" "a_waiters s' = a_waiters s" for r s'
    using conns_cong [OF that] assms one_answer_send by metis
  then show ?thesis by (auto simp: push_ok_def reply_def Let_def split: sum.splits prod.splits)
qed

lemma one_answer_finish:
  assumes "one_answer s" "map_of (a_pending s) c = Some p"
  shows "one_answer (finish C p node body now s)"
proof -
  have "q_conn (p_req p) = c" using assms by (auto simp: one_answer_def pends_ok_def pend_ok_def)
  with one_answer_drop_pending [OF assms] show ?thesis
    by (auto simp: finish_def Let_def fail_resp_def split: option.splits endpoint.splits
        intro!: one_answer_send one_answer_push_ok one_answer_wait_ok)
qed

lemma one_answer_close:
  assumes "one_answer s" "distinct (map fst ws)" "\<forall>(i, w) \<in> set ws. map_of (a_waiters s) i = Some w"
  shows "one_answer (foldl (\<lambda>s (i, w). finishWait C i w 204 s) s ws)"
  using assms
proof (induction ws arbitrary: s)
  case (Cons iw ws)
  obtain i w where iw: "iw = (i, w)" by (cases iw)
  with Cons.prems have "one_answer (finishWait C i w 204 s)" by (auto intro: one_answer_finishWait)
  moreover have "\<forall>(j, v) \<in> set ws. map_of (a_waiters (finishWait C i w 204 s)) j = Some v"
    using Cons.prems by (force simp: iw)
  ultimately show ?case using Cons.IH Cons.prems(2) by (simp add: iw)
qed simp

interpretation answers: machine "api_step C" one_answer for C
proof
  fix s op assume ok: "one_answer s"
  show "one_answer (api_step C s op)"
  proof (cases op)
    case (Arrive q node now)
    then show ?thesis using ok by (simp add: conn_used_conns one_answer_arrive)
  next
    case (BodyRead c node chunks now)
    then show ?thesis using ok by (auto intro: one_answer_finish split: option.splits)
  next
    case (Wake i t)
    then show ?thesis
      using ok conns_cong [of "s\<lparr>a_lastWake := AList.update i t (a_lastWake s)\<rparr>" s]
      by (auto simp: wake_def intro!: one_answer_finishWait split: option.splits)
  next
    case (TimedOut i)
    then show ?thesis using ok by (auto intro: one_answer_finishWait split: option.splits)
  next
    case (Closed c)
    then show ?thesis using ok by (auto simp: conn_closed_def one_answer_def conns_def pends_ok_def distinct_map_filter split_beta)
  next
    case CloseAll
    have "\<forall>(i, w) \<in> set (a_waiters s). map_of (a_waiters s) i = Some w" using ok by (auto simp: one_answer_def)
    moreover have "distinct (map fst (a_waiters s))" using ok by (simp add: one_answer_def)
    ultimately show ?thesis using one_answer_close [OF ok] CloseAll by (simp add: close_api_def)
  next
    case RestartApi
    then show ?thesis using ok by (auto simp: one_answer_def conns_def pends_ok_def)
  qed
qed

section \<open>The limit on failures\<close>

lemma length_update: "length (AList.update k v m) = (if k \<in> fst ` set m then length m else Suc (length m))"
  by (induction m) auto

lemma failed_first:
  assumes "map_of (a_failures s) who = None" "length (a_failures s) < 10000"
  shows "map_of (a_failures (failed who t s)) k = (if k = who then Some (1, t + FAIL_WINDOW_MS) else map_of (a_failures s) k)"
    "length (a_failures (failed who t s)) \<le> 10000"
  using assms by (simp_all add: failed_def Let_def length_update)

lemma failed_again:
  assumes "map_of (a_failures s) who = Some (n, until)" "length (a_failures s) \<le> 10000" "t \<le> until"
  shows "map_of (a_failures (failed who t s)) k = (if k = who then Some (n + 1, until) else map_of (a_failures s) k)"
    "length (a_failures (failed who t s)) \<le> 10000"
proof -
  have "who \<in> fst ` set (a_failures s)" using assms(1) by (force dest: map_of_SomeD)
  with assms show "map_of (a_failures (failed who t s)) k = (if k = who then Some (n + 1, until) else map_of (a_failures s) k)"
    "length (a_failures (failed who t s)) \<le> 10000"
    by (simp_all add: failed_def Let_def length_update)
qed

lemma failed_run:
  assumes "map_of (a_failures s) who = Some (n, until)" "length (a_failures s) \<le> 10000" "list_all (\<lambda>t. t \<le> until) ts"
  shows "map_of (a_failures (foldl (\<lambda>s t. failed who t s) s ts)) k =
    (if k = who then Some (n + length ts, until) else map_of (a_failures s) k)"
  using assms
proof (induction ts arbitrary: s n)
  case (Cons t ts)
  then have t: "t \<le> until" by simp
  note f = failed_again [OF Cons.prems(1,2) t]
  show ?case using Cons.IH [of "failed who t s" "n + 1"] f Cons.prems(3) by simp
qed simp

section \<open>A small example\<close>

text \<open>A stand-in for the hash functions and the parser, and a node with a push of it.\<close>

definition demo_crypto :: crypto where
  "demo_crypto = \<lparr>c_sha256hex = (\<lambda>b. b), c_hmacHex = (\<lambda>k m. if k = demo_secret then replicate 64 CHR ''b'' else replicate 64 CHR ''c''),
     c_parse = (\<lambda>_. Some demo_snapshot)\<rparr>"

definition demo_nrec :: nrec where
  "demo_nrec = new_node ''web'' demo_secret False 0 []"

definition demo_push :: "nat \<Rightarrow> areq" where
  "demo_push c = \<lparr>q_conn = c, q_url = ''/api/v1/agent/push'', q_method = ''POST'', q_ip = ''192.0.2.7'', q_proto = ''1'',
     q_node = ''abcdefghijkl'', q_ts = ''100000'', q_sig = replicate 64 CHR ''b'', q_wait = [], q_clen = 2\<rparr>"

definition demo_api :: api where
  "demo_api = foldl (api_step demo_crypto) (createAgentApi []) [Arrive (demo_push 1) (Some demo_nrec) 100500]"

section \<open>Properties\<close>

text \<open>
  C3. Nothing gets in unsigned: in any interleaving of requests, from any start, the hub takes a
  snapshot or a new time only at the end of a request whose body is within the limit, whose time was
  within 120 seconds of the hub's, and whose signature is the HMAC, under a secret of the node that
  is valid at that time, of exactly its method, path, time and body; and the snapshot it takes is
  the validated body.
\<close>

theorem accepted_is_authentic:
  assumes "s = foldl (api_step C) (createAgentApi file) ops" "accepts s (api_step C s op)"
  shows "\<exists>c node cs now p sec. op = BodyRead c node (Some cs) now \<and> map_of (a_pending s) c = Some p \<and>
    int (length (concat cs)) \<le> MAX_BODY \<and> \<bar>p_hubMs p - p_ts p\<bar> \<le> MAX_SKEW_MS \<and> parse_ts (q_ts (p_req p)) = Some (p_ts p) \<and>
    sec \<noteq> [] \<and> sec \<in> set (candidates node (p_hubMs p)) \<and>
    q_sig (p_req p) = signRequest C sec (q_method (p_req p)) (p_path p) (q_ts (p_req p)) (concat cs) \<and>
    (a_snaps (api_step C s op) = a_snaps s \<or>
     (\<exists>raw v ds. c_parse C (concat cs) = Some raw \<and> validate raw = Inr (v, ds) \<and>
        a_snaps (api_step C s op) = a_snaps s @ [(q_node (p_req p), v)]))"
proof -
  have inv: "api_inv s" unfolding assms(1) by (rule pends.inv_run [OF api_inv_create])
  obtain c node cs now p where step: "op = BodyRead c node (Some cs) now" "map_of (a_pending s) c = Some p" "pend_ok c p"
    "api_step C s op = finish C p node (readLimited MAX_BODY cs) now s"
    using step_effect [OF inv] assms(2) unfolding accepts_def by blast
  obtain b sec where b: "readLimited MAX_BODY cs = Some b" "matching_secret C node p b = Some sec"
    "a_snaps (api_step C s op) = a_snaps s \<or> (\<exists>raw v ds. c_parse C b = Some raw \<and> validate raw = Inr (v, ds) \<and>
        a_snaps (api_step C s op) = a_snaps s @ [(q_node (p_req p), v)])"
    using finish_effect [of C p node "readLimited MAX_BODY cs" now s] assms(2) unfolding accepts_def step(4) by auto
  have "b = concat cs" "int (length (concat cs)) \<le> MAX_BODY" using b(1) by (auto simp: readLimited_eq MAX_BODY_def split: if_splits)
  moreover note matching_secretD [OF b(2)]
  moreover have "\<bar>p_hubMs p - p_ts p\<bar> \<le> MAX_SKEW_MS" "parse_ts (q_ts (p_req p)) = Some (p_ts p)"
    using step(3) by (simp_all add: pend_ok_def)
  ultimately show ?thesis using step(1,2) b(3) unfolding verifyRequest_def by auto
qed

theorem accepted_is_authentic_witness:
  "\<exists>sec. sec \<in> set (candidates demo_nrec 100500) \<and>
     q_sig (demo_push 1) = signRequest demo_crypto sec ''POST'' ''/api/v1/agent/push'' ''100000'' ''{}''"
proof -
  let ?op = "BodyRead 1 demo_nrec (Some [''{'', ''}'']) 100600"
  have "accepts demo_api (api_step demo_crypto demo_api ?op)" by code_simp
  from accepted_is_authentic [OF demo_api_def this] obtain p sec where
    *: "map_of (a_pending demo_api) 1 = Some p" "sec \<in> set (candidates demo_nrec (p_hubMs p))"
      "q_sig (p_req p) = signRequest demo_crypto sec (q_method (p_req p)) (p_path p) (q_ts (p_req p)) (concat [''{'', ''}''])"
    by auto
  have "map_of (a_pending demo_api) 1 = Some \<lparr>p_req = demo_push 1, p_endpoint = Push, p_path = ''/api/v1/agent/push'',
      p_hubMs = 100500, p_ts = 100000\<rparr>" by code_simp
  with * show ?thesis by (auto simp: demo_push_def)
qed

text \<open>
  C16. One request at a time, nothing is taken twice: once a request was accepted, a request with
  the same node, endpoint and time is never accepted again, whatever other requests, wakes, closed
  connections and restarts of the hub come in between.
\<close>

theorem no_replay_in_sequence:
  assumes "seq_inv s" "accepts s (seq_step C s (Handle q node chunks now))"
    and "q_node q' = q_node q" "q_url q' = q_url q" "q_ts q' = q_ts q"
  shows "let s' = foldl (seq_step C) (seq_step C s (Handle q node chunks now)) ops in
    \<not> accepts s' (seq_step C s' (Handle q' node' chunks' now'))"
proof -
  let ?s1 = "seq_step C s (Handle q node chunks now)"
  define s' where "s' = foldl (seq_step C) ?s1 ops"
  have key: "req_key q' = req_key q" using assms(3,4) by (simp add: req_key_def)
  have "?s1 = handle C q node chunks now s" using assms(2) by (auto simp: accepts_def split: if_splits)
  with handle_effect [OF assms(1), of C q node chunks now] assms(2) obtain ts where
    ts: "parse_ts (q_ts q) = Some ts" "a_lastTs ?s1 = AList.update (req_key q) ts (a_lastTs s)" "seq_inv ?s1" by auto
  have "ts \<le> last_ts (req_key q) ?s1" using last_ts_update [OF ts(2)] by simp
  then have "seq_inv s'" "ts \<le> last_ts (req_key q) s'"
    using seqs.inv_run [of ?s1 ts "req_key q" C ops] ts(3) by (simp_all add: s'_def)
  then have "\<not> accepts s' (seq_step C s' (Handle q' node' chunks' now'))"
    using handle_effect [of s' C q' node' chunks' now'] ts(1) assms(5) key by (auto simp: accepts_def)
  then show ?thesis by (simp add: s'_def Let_def)
qed

theorem no_replay_in_sequence_witness:
  "let s = seq_step demo_crypto (createAgentApi []) (Handle (demo_push 1) (Some demo_nrec) [''{}''] 100500) in
   a_snaps s = [(''abcdefghijkl'', demo_clean_snapshot)] \<and>
   \<not> accepts (foldl (seq_step demo_crypto) s [Pause RestartApi])
     (seq_step demo_crypto (foldl (seq_step demo_crypto) s [Pause RestartApi]) (Handle (demo_push 2) (Some demo_nrec) [''{}''] 110000))"
proof -
  have "seq_inv (createAgentApi [])" by code_simp
  moreover have "accepts (createAgentApi []) (seq_step demo_crypto (createAgentApi []) (Handle (demo_push 1) (Some demo_nrec) [''{}''] 100500))"
    by code_simp
  moreover have "q_node (demo_push 2) = q_node (demo_push 1)" "q_url (demo_push 2) = q_url (demo_push 1)" "q_ts (demo_push 2) = q_ts (demo_push 1)"
    by (simp_all add: demo_push_def)
  ultimately have "let s' = foldl (seq_step demo_crypto) (seq_step demo_crypto (createAgentApi []) (Handle (demo_push 1) (Some demo_nrec) [''{}''] 100500)) [Pause RestartApi] in
    \<not> accepts s' (seq_step demo_crypto s' (Handle (demo_push 2) (Some demo_nrec) [''{}''] 110000))"
    by (rule no_replay_in_sequence)
  moreover have "a_snaps (seq_step demo_crypto (createAgentApi []) (Handle (demo_push 1) (Some demo_nrec) [''{}''] 100500)) =
      [(''abcdefghijkl'', demo_clean_snapshot)]" by code_simp
  ultimately show ?thesis unfolding Let_def by blast
qed


text \<open>
  Guessing is slowed down: after 30 failed authentications of one address for one node within
  a minute, the pair is refused for the rest of that minute before anything else of a request is
  read; and those failures do not touch any other pair, so a broken agent never locks out a
  healthy one behind the same address.
\<close>

theorem thirty_failures_block:
  assumes "map_of (a_failures s) who = None" "length (a_failures s) < 10000"
    and "list_all (\<lambda>t. t \<le> t0 + FAIL_WINDOW_MS) ts" "length ts + 1 \<ge> FAIL_LIMIT" "now \<le> t0 + FAIL_WINDOW_MS" "other \<noteq> who"
  shows "blocked who now (foldl (\<lambda>s t. failed who t s) (failed who t0 s) ts) \<and>
    blocked other now (foldl (\<lambda>s t. failed who t s) (failed who t0 s) ts) = blocked other now s"
proof -
  note f = failed_first [OF assms(1,2), of t0]
  have "map_of (a_failures (foldl (\<lambda>s t. failed who t s) (failed who t0 s) ts)) k =
      (if k = who then Some (1 + length ts, t0 + FAIL_WINDOW_MS) else map_of (a_failures s) k)" for k
    using failed_run [of "failed who t0 s" who 1 "t0 + FAIL_WINDOW_MS" ts k] f assms(3) by simp
  then show ?thesis using assms(4,5,6) by (simp add: blocked_def)
qed

theorem thirty_failures_block_witness:
  "blocked ''192.0.2.7 abcdefghijkl'' 60000 (foldl (\<lambda>s t. failed ''192.0.2.7 abcdefghijkl'' t s)
     (failed ''192.0.2.7 abcdefghijkl'' 0 (createAgentApi [])) (replicate 29 1000))"
  using thirty_failures_block [of "createAgentApi []" "''192.0.2.7 abcdefghijkl''" 0 "replicate 29 1000" 60000 "[]"]
  by (simp add: createAgentApi_def FAIL_WINDOW_MS_def FAIL_LIMIT_def list_all_iff)

text \<open>
  No connection is answered twice and every wake reaches its agent: in any interleaving each
  connection has at most one answer, and waking a node whose agent waits answers exactly that
  agent's connection, once, with the signed call for a sample.
\<close>

theorem wake_answers_once:
  assumes "s = foldl (api_step C) (createAgentApi file) ops" "map_of (a_waiters s) i = Some w"
  shows "distinct (map fst (a_sent (snd (wake C i t s)))) \<and>
    a_sent (snd (wake C i t s)) = a_sent s @
      [(w_conn w, RReply 200 ''{\"sample\":true}'' (signReply C (w_secret w) (w_ts w) ''{\"sample\":true}''))] \<and>
    map_of (a_waiters (snd (wake C i t s))) i = None"
proof -
  have start: "one_answer (createAgentApi file)" by (simp add: one_answer_def conns_def pends_ok_def createAgentApi_def)
  have ok: "one_answer s" unfolding assms(1) by (rule answers.inv_run [OF start])
  have "one_answer (api_step C s (Wake i t))" using ok by (rule answers.inv_step)
  then have "distinct (map fst (a_sent (snd (wake C i t s))))" by (simp add: one_answer_def conns_def)
  moreover have "w_conn w \<notin> fst ` set (a_sent s)"
    using one_answer_drop_waiter(2) [OF ok assms(2)] by (simp add: conns_def)
  ultimately show ?thesis using assms(2) by (simp add: wake_def finishWait_def reply_def Let_def)
qed

definition demo_wait :: areq where
  "demo_wait = (demo_push 3)\<lparr>q_url := ''/api/v1/agent/wait'', q_method := ''GET'', q_clen := 0\<rparr>"

theorem wake_answers_once_witness:
  "\<exists>s w. map_of (a_waiters s) ''abcdefghijkl'' = Some w \<and> w_conn w = 3 \<and>
     a_sent (snd (wake demo_crypto ''abcdefghijkl'' 5 s)) = a_sent s @
      [(3, RReply 200 ''{\"sample\":true}'' (signReply demo_crypto demo_secret ''100000'' ''{\"sample\":true}''))]"
proof -
  define s where "s = foldl (api_step demo_crypto) (createAgentApi [])
    [Arrive demo_wait (Some demo_nrec) 100500, BodyRead 3 demo_nrec (Some []) 100600]"
  have w: "map_of (a_waiters s) ''abcdefghijkl'' = Some \<lparr>w_conn = 3, w_secret = demo_secret, w_ts = ''100000''\<rparr>"
    unfolding s_def by code_simp
  from wake_answers_once [OF s_def w, of 5] w show ?thesis
    by (intro exI [of _ s] exI [of _ "\<lparr>w_conn = 3, w_secret = demo_secret, w_ts = ''100000''\<rparr>"]) simp
qed

end
