(* ===== verification/Link.thy ===== *)
theory Link
  imports Js_Prelude
begin

text \<open>
  Code-based linking, \<^verbatim>\<open>src/hub/lib/link.js\<close>: an agent starts a request and polls with a long device
  code; a person approves or denies it with a short user code. A request is one object that both
  maps refer to, so requests live on a heap (\<open>k_heap\<close>, never shrinking) and the maps \<open>k_byDevice\<close> and
  \<open>k_byUser\<close> hold addresses; the operations change the object in place as the code does. The hash is
  an argument \<open>H\<close>; the random codes, the clock and what \<^verbatim>\<open>onApprove\<close> returns are arguments of the
  operations.
\<close>

section \<open>Data\<close>

datatype lstatus = LPending | LDenied | LApproved | LSpent

record lreq =
  l_device :: string
  l_user :: string
  l_code :: string
  l_secret :: string
  l_host :: string
  l_os :: string
  l_agent :: string
  l_ip :: string
  l_key :: string
  l_started :: ms
  l_expires :: ms
  l_status :: lstatus
  l_lastPoll :: ms
  l_result :: string

type_synonym times = "(string \<times> ms list) list"

text \<open>\<open>k_lastSweep = None\<close> stands for \<^verbatim>\<open>-Infinity\<close>.\<close>

record links =
  k_heap :: "lreq list"
  k_byDevice :: "(string \<times> nat) list"
  k_byUser :: "(string \<times> nat) list"
  k_starts :: times
  k_entries :: times
  k_lastSweep :: "ms option"

definition TTL_MS :: ms where "TTL_MS = 600000"
definition INTERVAL_S :: int where "INTERVAL_S = 5"
definition KEEP_MS :: ms where "KEEP_MS = 2 * TTL_MS"
definition MAX_PENDING :: nat where "MAX_PENDING = 100"
definition PENDING_PER_ADDRESS :: nat where "PENDING_PER_ADDRESS = 5"
definition START_LIMIT :: nat where "START_LIMIT = 20"
definition START_WINDOW_MS :: ms where "START_WINDOW_MS = 3600000"
definition ENTRY_LIMIT :: nat where "ENTRY_LIMIT = 10"
definition ENTRY_WINDOW_MS :: ms where "ENTRY_WINDOW_MS = 600000"
definition MAX_TRACKED :: nat where "MAX_TRACKED = 10000"
definition SWEEP_EVERY_MS :: ms where "SWEEP_EVERY_MS = 1000"

definition ALPHABET :: string where
  "ALPHABET = ''ABCDEFGHJKLMNPQRSTUVWXYZ23456789''"

definition upper :: "char \<Rightarrow> char" where
  "upper c = (if is_lower c then char_of ((of_char c :: nat) - 32) else c)"

definition lower :: "char \<Rightarrow> char" where
  "lower c = (if is_upper c then char_of ((of_char c :: nat) + 32) else c)"

definition normalizeCode :: "string \<Rightarrow> string" where
  "normalizeCode s = filter (\<lambda>c. is_upper c \<or> is_digit c) (map upper s)"

definition showCode :: "string \<Rightarrow> string" where
  "showCode c = take 4 c @ ''-'' @ drop 4 c"

text \<open>From 8 random bytes.\<close>

definition newUserCode :: "nat list \<Rightarrow> string" where
  "newUserCode bytes = map (\<lambda>b. ALPHABET ! (b mod 32)) bytes"

section \<open>The address a limit counts for\<close>

text \<open>\<^verbatim>\<open>/^\d{1,3}(?:\.\d{1,3}){3}$/\<close>\<close>

definition is_dotted :: "string \<Rightarrow> bool" where
  "is_dotted s = (let ps = split_on CHR ''.'' s in length ps = 4 \<and> list_all (in_class is_digit 1 3) ps)"

text \<open>\<^verbatim>\<open>s.split("::")\<close>: what is before the first and between it and the next.\<close>

fun split_dcolon :: "string \<Rightarrow> string list" where
  "split_dcolon (a # b # cs) =
     (if a = CHR '':'' \<and> b = CHR '':'' then [] # split_dcolon cs
      else case split_dcolon (b # cs) of [] \<Rightarrow> [[a]] | p # ps \<Rightarrow> (a # p) # ps)"
| "split_dcolon cs = [cs]"

text \<open>\<^verbatim>\<open>g.replace(/^0+(?=.)/, "")\<close>: leading zeros, but not the last character.\<close>

definition strip_zeros :: "string \<Rightarrow> string" where
  "strip_zeros g = (let r = dropWhile (\<lambda>c. c = CHR ''0'') g in if r = [] then drop (length g - 1) g else r)"

fun join_colon :: "string list \<Rightarrow> string" where
  "join_colon [] = []"
| "join_colon [x] = x"
| "join_colon (x # y # ys) = x @ '':'' @ join_colon (y # ys)"

definition addressKey :: "string \<Rightarrow> string" where
  "addressKey ip =
    (let s = map lower ip; v4 = (if starts_with ''::ffff:'' s then drop 7 s else s) in
     if is_dotted v4 then v4
     else if CHR '':'' \<notin> set s then (if s = [] then ''?'' else s)
     else let ps = split_dcolon s; head = ps ! 0; tail = (if length ps > 1 then ps ! 1 else []);
              a = (if head = [] then [] else split_on CHR '':'' head); b = (if tail = [] then [] else split_on CHR '':'' tail);
              groups = a @ replicate (8 - length a - length b) ''0'' @ b in
       join_colon (map strip_zeros (take 4 groups)) @ ''::/64'')"

section \<open>Limits\<close>

definition recent_times :: "times \<Rightarrow> string \<Rightarrow> ms \<Rightarrow> ms \<Rightarrow> ms list" where
  "recent_times m key window now = filter (\<lambda>x. now - x < window) (case map_of m key of None \<Rightarrow> [] | Some l \<Rightarrow> l)"

definition record_time :: "times \<Rightarrow> string \<Rightarrow> ms \<Rightarrow> ms \<Rightarrow> times" where
  "record_time m key window now =
    (if map_of m key = None \<and> length m \<ge> MAX_TRACKED then m
     else AList.update key (recent_times m key window now @ [now]) m)"

definition obj_at :: "links \<Rightarrow> nat \<Rightarrow> lreq" where
  "obj_at s a = k_heap s ! a"

definition set_obj :: "nat \<Rightarrow> lreq \<Rightarrow> links \<Rightarrow> links" where
  "set_obj a r s = s\<lparr>k_heap := (k_heap s)[a := r]\<rparr>"

text \<open>One entry of \<^verbatim>\<open>byDevice\<close> in the sweep: it may go, and its user code with it.\<close>

definition sweep_one :: "ms \<Rightarrow> links \<Rightarrow> string \<times> nat \<Rightarrow> links" where
  "sweep_one t s ka =
    (let r = obj_at s (snd ka);
         s1 = (if t > l_expires r + KEEP_MS then s\<lparr>k_byDevice := AList.delete (fst ka) (k_byDevice s)\<rparr> else s) in
     if t > l_expires r \<or> l_status r \<noteq> LPending then s1\<lparr>k_byUser := AList.delete (l_user r) (k_byUser s1)\<rparr> else s1)"

definition sweep_times :: "ms \<Rightarrow> times \<Rightarrow> times" where
  "sweep_times t m = filter (\<lambda>(k, v). list_ex (\<lambda>x. t - x < START_WINDOW_MS) v) m"

definition sweep :: "ms \<Rightarrow> links \<Rightarrow> links" where
  "sweep t s =
    (if (case k_lastSweep s of None \<Rightarrow> False | Some l \<Rightarrow> t - l < SWEEP_EVERY_MS) then s
     else let s1 = foldl (sweep_one t) (s\<lparr>k_lastSweep := Some t\<rparr>) (k_byDevice s) in
       s1\<lparr>k_starts := sweep_times t (k_starts s1), k_entries := sweep_times t (k_entries s1)\<rparr>)"

section \<open>The agent's side\<close>

datatype lresp = LFail nat string | LStarted string string | LGranted string | LWait

definition is_os :: "string \<Rightarrow> bool" where
  "is_os = in_class (\<lambda>c. is_lower c \<or> is_upper c \<or> is_digit c \<or> c \<in> {CHR ''.'', CHR ''_'', CHR ''-''}) 1 32"

definition is_agent :: "string \<Rightarrow> bool" where
  "is_agent = in_class (\<lambda>c. is_lower c \<or> is_upper c \<or> is_digit c \<or> c \<in> {CHR ''.'', CHR ''_'', CHR ''/'', CHR ''+'', CHR ''-''}) 1 32"

definition waiting_for :: "string \<Rightarrow> ms \<Rightarrow> links \<Rightarrow> nat" where
  "waiting_for key t s = length (filter (\<lambda>(u, a). let r = obj_at s a in
     l_key r = key \<and> l_status r = LPending \<and> t \<le> l_expires r) (k_byUser s))"

record start_args =
  g_secret :: string
  g_host :: string
  g_os :: string
  g_agent :: string
  g_ip :: string

definition new_req :: "(string \<Rightarrow> string) \<Rightarrow> start_args \<Rightarrow> string \<Rightarrow> string \<Rightarrow> ms \<Rightarrow> lreq" where
  "new_req H g device code t =
    \<lparr>l_device = H device, l_user = H code, l_code = code, l_secret = g_secret g, l_host = g_host g, l_os = g_os g,
     l_agent = g_agent g, l_ip = g_ip g, l_key = addressKey (g_ip g), l_started = t, l_expires = t + TTL_MS, l_status = LPending,
     l_lastPoll = 0, l_result = []\<rparr>"

definition enter_req :: "(string \<Rightarrow> string) \<Rightarrow> start_args \<Rightarrow> string \<Rightarrow> string \<Rightarrow> ms \<Rightarrow> links \<Rightarrow> links" where
  "enter_req H g device code t s =
    (let a = length (k_heap s) in
     s\<lparr>k_starts := record_time (k_starts s) (addressKey (g_ip g)) START_WINDOW_MS t,
       k_heap := k_heap s @ [new_req H g device code t],
       k_byDevice := AList.update (H device) a (k_byDevice s), k_byUser := AList.update (H code) a (k_byUser s)\<rparr>)"

text \<open>\<open>codes\<close> are the user codes drawn, one after the other until one is free; \<open>None\<close> when none of them is.\<close>

definition start :: "(string \<Rightarrow> string) \<Rightarrow> start_args \<Rightarrow> string \<Rightarrow> string list \<Rightarrow> ms \<Rightarrow> links \<Rightarrow> (lresp \<times> links) option" where
  "start H g device codes t s0 =
    (if \<not> is_hex64 (g_secret g) \<or> \<not> is_name64 (g_host g) \<or> \<not> is_os (g_os g) \<or> \<not> is_agent (g_agent g)
     then Some (LFail 400 ''invalid_request'', s0)
     else let s = sweep t s0; key = addressKey (g_ip g) in
       if length (k_byUser s) \<ge> MAX_PENDING \<or> (length (k_starts s) \<ge> MAX_TRACKED \<and> map_of (k_starts s) key = None)
       then Some (LFail 503 ''busy'', s)
       else if waiting_for key t s \<ge> PENDING_PER_ADDRESS \<or> length (recent_times (k_starts s) key START_WINDOW_MS t) \<ge> START_LIMIT
       then Some (LFail 429 ''rate_limited'', s)
       else case find (\<lambda>c. map_of (k_byUser s) (H c) = None) codes of
         None \<Rightarrow> None
       | Some code \<Rightarrow> Some (LStarted device (showCode code), enter_req H g device code t s))"

definition poll :: "(string \<Rightarrow> string) \<Rightarrow> string \<Rightarrow> ms \<Rightarrow> links \<Rightarrow> lresp \<times> links" where
  "poll H device t s0 =
    (if length device > 64 then (LFail 400 ''invalid_request'', s0)
     else let s = sweep t s0 in
       case map_of (k_byDevice s) (H device) of
         None \<Rightarrow> (LFail 410 ''expired'', s)
       | Some a \<Rightarrow>
         (let r = obj_at s a in
          case l_status r of
            LSpent \<Rightarrow> (LFail 410 ''expired'', s)
          | LDenied \<Rightarrow> (LFail 410 ''denied'', s)
          | LApproved \<Rightarrow> (LGranted (l_result r), set_obj a (r\<lparr>l_status := LSpent, l_secret := []\<rparr>) s)
          | LPending \<Rightarrow>
              if t > l_expires r then (LFail 410 ''expired'', s)
              else (if t - l_lastPoll r < (INTERVAL_S - 1) * 1000 then LFail 429 ''slow_down'' else LWait,
                    set_obj a (r\<lparr>l_lastPoll := t\<rparr>) s)))"

section \<open>The person's side\<close>

definition entry_keys :: "string \<Rightarrow> string \<Rightarrow> string list" where
  "entry_keys ip account = [''ip:'' @ addressKey ip, ''account:'' @ (if account = [] then ''?'' else account)]"

datatype found = TooMany | Unknown | Found nat

definition find_code :: "(string \<Rightarrow> string) \<Rightarrow> string \<Rightarrow> string \<Rightarrow> string \<Rightarrow> ms \<Rightarrow> links \<Rightarrow> found \<times> links" where
  "find_code H code ip account t s0 =
    (let keys = entry_keys ip account in
     if list_ex (\<lambda>k. length (recent_times (k_entries s0) k ENTRY_WINDOW_MS t) \<ge> ENTRY_LIMIT) keys then (TooMany, s0)
     else let s = sweep t s0; c = normalizeCode code;
              ok = (\<lambda>a. l_status (obj_at s a) = LPending \<and> \<not> t > l_expires (obj_at s a)) in
       case (if length c = 8 then map_of (k_byUser s) (H c) else None) of
         Some a \<Rightarrow> if ok a then (Found a, s)
           else (Unknown, s\<lparr>k_entries := foldl (\<lambda>m k. record_time m k ENTRY_WINDOW_MS t) (k_entries s) keys\<rparr>)
       | None \<Rightarrow> (Unknown, s\<lparr>k_entries := foldl (\<lambda>m k. record_time m k ENTRY_WINDOW_MS t) (k_entries s) keys\<rparr>))"

datatype looked = LookErr found | LookOk string string string string string ms ms

definition lookup :: "(string \<Rightarrow> string) \<Rightarrow> string \<Rightarrow> string \<Rightarrow> string \<Rightarrow> ms \<Rightarrow> links \<Rightarrow> looked \<times> links" where
  "lookup H code ip account t s0 = (case find_code H code ip account t s0 of
      (Found a, s) \<Rightarrow> (let r = obj_at s a in
        (LookOk (showCode (l_code r)) (l_host r) (l_os r) (l_agent r) (l_ip r) (l_started r) (l_expires r), s))
    | (e, s) \<Rightarrow> (LookErr e, s))"

text \<open>\<open>onApprove\<close> gets the request and gives what the agent gets, or throws; then the exception
  leaves \<open>decide\<close> with the user code already used up and the request pending.\<close>

datatype decided = DecErr found | DecThrew string | Denied string string | Approved string string string

definition decide :: "(string \<Rightarrow> string) \<Rightarrow> string \<Rightarrow> bool \<Rightarrow> string \<Rightarrow> string \<Rightarrow> (lreq \<Rightarrow> string + string) \<Rightarrow> ms \<Rightarrow> links \<Rightarrow> decided \<times> links" where
  "decide H code approve ip account onApprove t s0 = (case find_code H code ip account t s0 of
      (Found a, s) \<Rightarrow>
        (let r = obj_at s a; s1 = s\<lparr>k_byUser := AList.delete (l_user r) (k_byUser s)\<rparr> in
         if \<not> approve then (Denied (l_host r) (l_ip r), set_obj a (r\<lparr>l_status := LDenied, l_secret := []\<rparr>) s1)
         else case onApprove r of
           Inl e \<Rightarrow> (DecThrew e, s1)
         | Inr res \<Rightarrow> (Approved (l_host r) (l_ip r) res, set_obj a (r\<lparr>l_result := res, l_status := LApproved\<rparr>) s1))
    | (e, s) \<Rightarrow> (DecErr e, s))"

definition tracked :: "links \<Rightarrow> nat" where
  "tracked s = length (k_starts s) + length (k_entries s)"

definition createLinks :: links where
  "createLinks = \<lparr>k_heap = [], k_byDevice = [], k_byUser = [], k_starts = [], k_entries = [], k_lastSweep = None\<rparr>"

section \<open>Runs\<close>

datatype link_op =
    Start start_args string "string list" ms
  | Poll string ms
  | Lookup string string string ms
  | Decide string bool string string "lreq \<Rightarrow> string + string" ms

fun link_step :: "(string \<Rightarrow> string) \<Rightarrow> links \<Rightarrow> link_op \<Rightarrow> links" where
  "link_step H s (Start g device codes t) = (case start H g device codes t s of None \<Rightarrow> s | Some r \<Rightarrow> snd r)"
| "link_step H s (Poll device t) = snd (poll H device t s)"
| "link_step H s (Lookup code ip account t) = snd (lookup H code ip account t s)"
| "link_step H s (Decide code approve ip account f t) = snd (decide H code approve ip account f t s)"

section \<open>The invariant\<close>

text \<open>
  Every user code that can still be decided belongs to one pending request, at most 100 of them; the
  maps point into the heap; a request that was denied or delivered no longer has its secret.
\<close>

definition link_ok :: "links \<Rightarrow> bool" where
  "link_ok s \<longleftrightarrow> length (k_byUser s) \<le> MAX_PENDING \<and> distinct (map fst (k_byUser s)) \<and>
     (\<forall>u a. map_of (k_byUser s) u = Some a \<longrightarrow> a < length (k_heap s) \<and> l_user (k_heap s ! a) = u \<and> l_status (k_heap s ! a) = LPending) \<and>
     (\<forall>d a. map_of (k_byDevice s) d = Some a \<longrightarrow> a < length (k_heap s) \<and> l_device (k_heap s ! a) = d) \<and>
     (\<forall>r \<in> set (k_heap s). l_status r \<in> {LDenied, LSpent} \<longrightarrow> l_secret r = [])"

lemma link_okI [intro]:
  assumes "length (k_byUser s) \<le> MAX_PENDING" "distinct (map fst (k_byUser s))"
    and "\<And>u a. map_of (k_byUser s) u = Some a \<Longrightarrow> a < length (k_heap s) \<and> l_user (k_heap s ! a) = u \<and> l_status (k_heap s ! a) = LPending"
    and "\<And>d a. map_of (k_byDevice s) d = Some a \<Longrightarrow> a < length (k_heap s) \<and> l_device (k_heap s ! a) = d"
    and "\<And>r. r \<in> set (k_heap s) \<Longrightarrow> l_status r \<in> {LDenied, LSpent} \<Longrightarrow> l_secret r = []"
  shows "link_ok s"
  using assms by (simp add: link_ok_def)

lemma link_okD:
  assumes "link_ok s"
  shows "length (k_byUser s) \<le> MAX_PENDING" "distinct (map fst (k_byUser s))"
    "map_of (k_byUser s) u = Some a \<Longrightarrow> a < length (k_heap s) \<and> l_user (k_heap s ! a) = u \<and> l_status (k_heap s ! a) = LPending"
    "map_of (k_byDevice s) d = Some b \<Longrightarrow> b < length (k_heap s) \<and> l_device (k_heap s ! b) = d"
    "r \<in> set (k_heap s) \<Longrightarrow> l_status r \<in> {LDenied, LSpent} \<Longrightarrow> l_secret r = []"
  using assms by (auto simp: link_ok_def)

text \<open>A step that only takes entries out of the maps.\<close>

definition fewer :: "links \<Rightarrow> links \<Rightarrow> bool" where
  "fewer s s' \<longleftrightarrow> k_heap s' = k_heap s \<and> length (k_byUser s') \<le> length (k_byUser s) \<and>
     (distinct (map fst (k_byUser s)) \<longrightarrow> distinct (map fst (k_byUser s'))) \<and>
     map_of (k_byUser s') \<subseteq>\<^sub>m map_of (k_byUser s) \<and> map_of (k_byDevice s') \<subseteq>\<^sub>m map_of (k_byDevice s)"

lemma fewer_refl: "fewer s s"
  by (simp add: fewer_def)

lemma fewer_trans [trans]: "fewer s s' \<Longrightarrow> fewer s' s'' \<Longrightarrow> fewer s s''"
  by (auto simp: fewer_def intro: map_le_trans)

lemma link_ok_fewer: "link_ok s \<Longrightarrow> fewer s s' \<Longrightarrow> link_ok s'"
proof -
  assume ok: "link_ok s" and f: "fewer s s'"
  have u: "map_of (k_byUser s) u = Some a" if "map_of (k_byUser s') u = Some a" for u a
    using f that by (force simp: fewer_def map_le_def dom_def)
  have d: "map_of (k_byDevice s) u = Some a" if "map_of (k_byDevice s') u = Some a" for u a
    using f that by (force simp: fewer_def map_le_def dom_def)
  have h: "k_heap s' = k_heap s" "length (k_byUser s') \<le> MAX_PENDING" "distinct (map fst (k_byUser s'))"
    using f link_okD(1,2) [OF ok] by (simp_all add: fewer_def)
  show ?thesis
  proof (rule link_okI)
    show "a < length (k_heap s') \<and> l_user (k_heap s' ! a) = v \<and> l_status (k_heap s' ! a) = LPending"
      if "map_of (k_byUser s') v = Some a" for v a
      unfolding h(1) using u [OF that] by (rule link_okD(3) [OF ok])
    show "a < length (k_heap s') \<and> l_device (k_heap s' ! a) = v" if "map_of (k_byDevice s') v = Some a" for v a
      unfolding h(1) using d [OF that] by (rule link_okD(4) [OF ok])
    show "l_secret r = []" if "r \<in> set (k_heap s')" "l_status r \<in> {LDenied, LSpent}" for r
      using that unfolding h(1) by (rule link_okD(5) [OF ok])
  qed (rule h(2,3))+
qed

lemma map_of_delete_le: "map_of (AList.delete k m) \<subseteq>\<^sub>m map_of m"
  by (auto simp: map_le_def split: if_splits)

lemma length_delete: "length (AList.delete k m) \<le> length m"
  by (simp add: AList.delete_eq)

lemma fewer_delete:
  "fewer s (s\<lparr>k_byDevice := AList.delete k (k_byDevice s)\<rparr>)" "fewer s (s\<lparr>k_byUser := AList.delete k (k_byUser s)\<rparr>)"
  by (simp_all add: fewer_def map_of_delete_le length_delete)

lemma fewer_sweep_one: "fewer s (sweep_one t s ka)"
proof -
  define s1 where "s1 = (if t > l_expires (obj_at s (snd ka)) + KEEP_MS then s\<lparr>k_byDevice := AList.delete (fst ka) (k_byDevice s)\<rparr> else s)"
  have "fewer s s1" by (simp add: s1_def fewer_delete fewer_refl)
  moreover have "sweep_one t s ka = s1 \<or> sweep_one t s ka = s1\<lparr>k_byUser := AList.delete (l_user (obj_at s (snd ka))) (k_byUser s1)\<rparr>"
    by (simp add: sweep_one_def Let_def s1_def)
  ultimately show ?thesis using fewer_delete(2) [of s1] fewer_trans by metis
qed

lemma fewer_foldl_sweep: "fewer s (foldl (sweep_one t) s kas)"
  by (induction kas arbitrary: s) (auto intro: fewer_refl fewer_trans fewer_sweep_one)

lemma fewer_maps: "k_heap s' = k_heap s \<Longrightarrow> k_byUser s' = k_byUser s \<Longrightarrow> k_byDevice s' = k_byDevice s \<Longrightarrow> fewer s s'"
  by (simp add: fewer_def)

lemma fewer_sweep: "fewer s (sweep t s)"
proof (cases "case k_lastSweep s of None \<Rightarrow> False | Some l \<Rightarrow> t - l < SWEEP_EVERY_MS")
  case False
  let ?s0 = "s\<lparr>k_lastSweep := Some t\<rparr>"
  have "fewer s ?s0" by (rule fewer_maps) simp_all
  also have "fewer ?s0 (foldl (sweep_one t) ?s0 (k_byDevice s))" by (rule fewer_foldl_sweep)
  also have "fewer (foldl (sweep_one t) ?s0 (k_byDevice s)) (sweep t s)"
    using False by (intro fewer_maps) (simp_all add: sweep_def Let_def)
  finally show ?thesis .
qed (simp add: sweep_def fewer_refl)

lemma link_ok_sweep: "link_ok s \<Longrightarrow> link_ok (sweep t s)"
  by (rule link_ok_fewer [OF _ fewer_sweep])

lemma find_code_state: "fewer s (snd (find_code H code ip account t s))"
proof -
  have m: "fewer (sweep t s) (sweep t s\<lparr>k_entries := m\<rparr>)" for m by (rule fewer_maps) simp_all
  have "snd (find_code H code ip account t s) \<in> {s, sweep t s} \<union> range (\<lambda>m. sweep t s\<lparr>k_entries := m\<rparr>)"
    by (simp add: find_code_def Let_def split: option.split)
  then show ?thesis
    using fewer_refl fewer_sweep [of s t] fewer_trans [OF fewer_sweep [of s t] m] by auto
qed

lemma find_code_found:
  assumes "find_code H code ip account t s0 = (Found a, s)"
  shows "map_of (k_byUser s) (H (normalizeCode code)) = Some a \<and> l_status (obj_at s a) = LPending \<and> t \<le> l_expires (obj_at s a)"
  using assms by (auto simp: find_code_def Let_def split: option.splits if_splits)

lemma set_obj_fields [simp]:
  "k_byUser (set_obj a r s) = k_byUser s" "k_byDevice (set_obj a r s) = k_byDevice s" "k_heap (set_obj a r s) = (k_heap s)[a := r]"
  by (simp_all add: set_obj_def)

lemma link_ok_set_obj:
  assumes "link_ok s" "a < length (k_heap s)" "l_user r = l_user (obj_at s a)" "l_device r = l_device (obj_at s a)"
    and "l_status r \<in> {LDenied, LSpent} \<Longrightarrow> l_secret r = []"
    and "l_status r = LPending \<or> (\<forall>u. map_of (k_byUser s) u \<noteq> Some a)"
  shows "link_ok (set_obj a r s)"
proof
  fix u b assume "map_of (k_byUser (set_obj a r s)) u = Some b"
  then show "b < length (k_heap (set_obj a r s)) \<and> l_user (k_heap (set_obj a r s) ! b) = u \<and> l_status (k_heap (set_obj a r s) ! b) = LPending"
    using link_okD(3) [OF assms(1), of u b] assms(2,3,6) by (auto simp: nth_list_update obj_at_def)
next
  fix d b assume "map_of (k_byDevice (set_obj a r s)) d = Some b"
  then show "b < length (k_heap (set_obj a r s)) \<and> l_device (k_heap (set_obj a r s) ! b) = d"
    using link_okD(4) [OF assms(1), of d b] assms(2,4) by (auto simp: nth_list_update obj_at_def)
next
  fix r' assume "r' \<in> set (k_heap (set_obj a r s))" "l_status r' \<in> {LDenied, LSpent}"
  moreover from this(1) have "r' = r \<or> r' \<in> set (k_heap s)" using set_update_subset_insert by fastforce
  ultimately show "l_secret r' = []" using assms(5) link_okD(5) [OF assms(1)] by blast
qed (use link_okD(1,2) [OF assms(1)] in simp_all)

text \<open>A request only moves on: pending, then denied, or approved and then delivered.\<close>

definition moves :: "lreq \<Rightarrow> lreq \<Rightarrow> bool" where
  "moves r r' \<longleftrightarrow> l_device r' = l_device r \<and>
     (case l_status r of
        LPending \<Rightarrow> True
      | LDenied \<Rightarrow> l_status r' = LDenied
      | LApproved \<Rightarrow> l_status r' \<in> {LApproved, LSpent} \<and> l_result r' = l_result r
      | LSpent \<Rightarrow> l_status r' = LSpent \<and> l_result r' = l_result r)"

definition heap_moves :: "links \<Rightarrow> links \<Rightarrow> bool" where
  "heap_moves s s' \<longleftrightarrow> length (k_heap s) \<le> length (k_heap s') \<and>
     (\<forall>a < length (k_heap s). moves (k_heap s ! a) (k_heap s' ! a))"

lemma moves_refl: "moves r r"
  by (simp add: moves_def split: lstatus.split)

lemma moves_trans: "moves r r' \<Longrightarrow> moves r' r'' \<Longrightarrow> moves r r''"
  by (auto simp: moves_def split: lstatus.splits)

lemma heap_moves_same: "k_heap s' = k_heap s \<Longrightarrow> heap_moves s s'"
  by (simp add: heap_moves_def moves_refl)

lemma heap_moves_trans: "heap_moves s s' \<Longrightarrow> heap_moves s' s'' \<Longrightarrow> heap_moves s s''"
  unfolding heap_moves_def by (meson moves_trans order_less_le_trans order_trans)

lemma heap_moves_set_obj: "moves (obj_at s a) r \<Longrightarrow> heap_moves s (set_obj a r s)"
proof -
  assume m: "moves (obj_at s a) r"
  have "moves (k_heap s ! b) ((k_heap s)[a := r] ! b)" if "b < length (k_heap s)" for b
    using m that by (cases "b = a") (simp_all add: obj_at_def moves_refl)
  then show ?thesis by (simp add: heap_moves_def)
qed

lemma fewer_heap: "fewer s s' \<Longrightarrow> k_heap s' = k_heap s"
  by (simp add: fewer_def)

lemma start_cases:
  assumes "start H g device codes t s0 = Some (resp, s')"
  obtains "s' = s0" | "s' = sweep t s0" |
    code where "map_of (k_byUser (sweep t s0)) (H code) = None" "length (k_byUser (sweep t s0)) < MAX_PENDING"
      "s' = enter_req H g device code t (sweep t s0)"
proof -
  let ?s = "sweep t s0"
  define c1 where "c1 \<longleftrightarrow> \<not> is_hex64 (g_secret g) \<or> \<not> is_name64 (g_host g) \<or> \<not> is_os (g_os g) \<or> \<not> is_agent (g_agent g)"
  define c2 where "c2 \<longleftrightarrow> length (k_byUser ?s) \<ge> MAX_PENDING \<or>
    (length (k_starts ?s) \<ge> MAX_TRACKED \<and> map_of (k_starts ?s) (addressKey (g_ip g)) = None)"
  define c3 where "c3 \<longleftrightarrow> waiting_for (addressKey (g_ip g)) t ?s \<ge> PENDING_PER_ADDRESS \<or>
    length (recent_times (k_starts ?s) (addressKey (g_ip g)) START_WINDOW_MS t) \<ge> START_LIMIT"
  note eq = assms [unfolded start_def Let_def, folded c1_def c2_def c3_def]
  show ?thesis
  proof (cases "c1 \<or> c2 \<or> c3")
    case True
    with eq that(1,2) show ?thesis by (auto split: if_splits)
  next
    case False
    then have c: "\<not> c1" "\<not> c2" "\<not> c3" by simp_all
    define fc where "fc = find (\<lambda>c. map_of (k_byUser ?s) (H c) = None) codes"
    have "(case fc of None \<Rightarrow> None | Some code \<Rightarrow> Some (LStarted device (showCode code), enter_req H g device code t ?s)) = Some (resp, s')"
      using eq unfolding fc_def if_not_P [OF c(1)] if_not_P [OF c(2)] if_not_P [OF c(3)] .
    then obtain code where "fc = Some code" "s' = enter_req H g device code t ?s" by (cases fc) simp_all
    moreover have "length (k_byUser ?s) < MAX_PENDING" using False by (simp add: c2_def)
    moreover have "map_of (k_byUser ?s) (H code) = None" using find_SomeD [OF calculation(1) [unfolded fc_def]] by blast
    ultimately show ?thesis using that(3) by blast
  qed
qed

lemma enter_req_fields [simp]:
  "k_heap (enter_req H g device code t s) = k_heap s @ [new_req H g device code t]"
  "k_byDevice (enter_req H g device code t s) = AList.update (H device) (length (k_heap s)) (k_byDevice s)"
  "k_byUser (enter_req H g device code t s) = AList.update (H code) (length (k_heap s)) (k_byUser s)"
  by (simp_all add: enter_req_def Let_def)

lemma new_req_fields [simp]:
  "l_device (new_req H g device code t) = H device" "l_user (new_req H g device code t) = H code"
  "l_status (new_req H g device code t) = LPending" "l_expires (new_req H g device code t) = t + TTL_MS"
  by (simp_all add: new_req_def)

lemma length_update_le: "length (AList.update k v m) \<le> Suc (length m)"
  by (induction m) auto

lemma link_ok_start:
  assumes "link_ok s" "start H g device codes t s = Some (resp, s')"
  shows "link_ok s' \<and> heap_moves s s'"
  using assms(2)
proof (cases rule: start_cases)
  case 1
  with assms(1) show ?thesis by (simp add: heap_moves_same)
next
  case 2
  with assms(1) show ?thesis by (simp add: link_ok_sweep heap_moves_same fewer_heap [OF fewer_sweep])
next
  case (3 code)
  let ?s = "sweep t s"
  have ok: "link_ok ?s" using assms(1) by (rule link_ok_sweep)
  have "link_ok s'"
  proof (rule link_okI)
    show "length (k_byUser s') \<le> MAX_PENDING" using length_update_le [of "H code" "length (k_heap ?s)" "k_byUser ?s"] 3(2,3) by simp
    show "distinct (map fst (k_byUser s'))" using link_okD(2) [OF ok] 3(3) by simp
    show "a < length (k_heap s') \<and> l_user (k_heap s' ! a) = u \<and> l_status (k_heap s' ! a) = LPending"
      if "map_of (k_byUser s') u = Some a" for u a
    proof (cases "u = H code")
      case True
      with that 3(3) have "a = length (k_heap ?s)" by simp
      with True 3(3) show ?thesis by (simp add: nth_append)
    next
      case False
      with that 3(3) have "map_of (k_byUser ?s) u = Some a" by simp
      from link_okD(3) [OF ok this] 3(3) show ?thesis by (simp add: nth_append)
    qed
    show "a < length (k_heap s') \<and> l_device (k_heap s' ! a) = d" if "map_of (k_byDevice s') d = Some a" for d a
    proof (cases "d = H device")
      case True
      with that 3(3) have "a = length (k_heap ?s)" by simp
      with True 3(3) show ?thesis by (simp add: nth_append)
    next
      case False
      with that 3(3) have "map_of (k_byDevice ?s) d = Some a" by simp
      from link_okD(4) [OF ok this] 3(3) show ?thesis by (simp add: nth_append)
    qed
    show "l_secret r = []" if "r \<in> set (k_heap s')" "l_status r \<in> {LDenied, LSpent}" for r
      using that link_okD(5) [OF ok, of r] 3(3) by auto
  qed
  moreover have "heap_moves s s'"
    using 3(3) fewer_heap [OF fewer_sweep [of s t]] by (simp add: heap_moves_def nth_append moves_refl)
  ultimately show ?thesis ..
qed

text \<open>What a poll does to the request it is for.\<close>

lemma link_ok_poll:
  assumes "link_ok s"
  shows "link_ok (snd (poll H device t s)) \<and> heap_moves s (snd (poll H device t s))"
proof -
  let ?s = "sweep t s"
  have ok: "link_ok ?s" using assms by (rule link_ok_sweep)
  have hm: "heap_moves s ?s" by (rule heap_moves_same [OF fewer_heap [OF fewer_sweep]])
  have step: "link_ok (set_obj a r ?s) \<and> heap_moves s (set_obj a r ?s)"
    if "map_of (k_byDevice ?s) d = Some a" "moves (obj_at ?s a) r" "l_user r = l_user (obj_at ?s a)"
      "l_status r \<in> {LDenied, LSpent} \<Longrightarrow> l_secret r = []"
      "l_status (obj_at ?s a) = LPending \<longrightarrow> l_status r = LPending" for d a r
  proof -
    have "l_status r = LPending \<or> (\<forall>u. map_of (k_byUser ?s) u \<noteq> Some a)"
      using that(5) link_okD(3) [OF ok] by (auto simp: obj_at_def)
    moreover have "l_device r = l_device (obj_at ?s a)" using that(2) by (simp add: moves_def)
    ultimately show ?thesis
      using link_okD(4) [OF ok that(1)] that(3,4)
        heap_moves_trans [OF hm heap_moves_set_obj [OF that(2)]] by (intro conjI link_ok_set_obj [OF ok]) auto
  qed
  show ?thesis
  proof (cases "length device > 64 \<or> map_of (k_byDevice ?s) (H device) = None")
    case True
    then show ?thesis using assms ok hm by (auto simp: poll_def Let_def heap_moves_same)
  next
    case False
    then obtain a where a: "\<not> length device > 64" "map_of (k_byDevice ?s) (H device) = Some a" by auto
    show ?thesis
      using ok hm
      by (cases "l_status (obj_at ?s a)")
        (auto simp: poll_def Let_def a moves_def intro!: step [OF a(2), THEN conjunct1] step [OF a(2), THEN conjunct2])
  qed
qed

lemma lookup_state: "snd (lookup H code ip account t s) = snd (find_code H code ip account t s)"
  by (simp add: lookup_def Let_def split: prod.split found.split)

text \<open>A decision either leaves the requests or settles the one the code stands for.\<close>

lemma decide_cases:
  obtains "snd (decide H code approve ip account f t s0) = snd (find_code H code ip account t s0)" |
    a s s1 where "find_code H code ip account t s0 = (Found a, s)" "s1 = s\<lparr>k_byUser := AList.delete (l_user (obj_at s a)) (k_byUser s)\<rparr>"
      "snd (decide H code approve ip account f t s0) = s1" |
    a s s1 r where "find_code H code ip account t s0 = (Found a, s)" "s1 = s\<lparr>k_byUser := AList.delete (l_user (obj_at s a)) (k_byUser s)\<rparr>"
      "snd (decide H code approve ip account f t s0) = set_obj a r s1"
      "r = (obj_at s a)\<lparr>l_status := LDenied, l_secret := []\<rparr> \<or>
       (approve \<and> (\<exists>res. f (obj_at s a) = Inr res \<and> r = (obj_at s a)\<lparr>l_result := res, l_status := LApproved\<rparr>))"
proof (cases "find_code H code ip account t s0")
  case (Pair x s)
  show ?thesis
  proof (cases x)
    case (Found a)
    show ?thesis
    proof (cases "approve \<and> isl (f (obj_at s a))")
      case True
      then show ?thesis using that(2) [of a s] Pair Found by (auto simp: decide_def Let_def isl_def)
    next
      case False
      then show ?thesis
        using that(3) [of a s] Pair Found
        by (cases approve; cases "f (obj_at s a)") (auto simp: decide_def Let_def)
    qed
  qed (use that(1) Pair in \<open>simp_all add: decide_def\<close>)
qed

lemma link_ok_decide:
  assumes "link_ok s0"
  shows "link_ok (snd (decide H code approve ip account f t s0)) \<and> heap_moves s0 (snd (decide H code approve ip account f t s0))"
proof (cases rule: decide_cases [of H code approve ip account f t s0])
  case 1
  then show ?thesis
    using link_ok_fewer [OF assms find_code_state] heap_moves_same [OF fewer_heap [OF find_code_state]] by simp
next
  case (2 a s s1)
  have "fewer s0 s" using find_code_state [of s0 H code ip account t] 2(1) by simp
  then have "fewer s0 s1" unfolding 2(2) by (rule fewer_trans [OF _ fewer_delete(2)])
  then show ?thesis using assms 2(3) by (simp add: link_ok_fewer heap_moves_same fewer_heap)
next
  case (3 a s s1 r)
  have f0: "fewer s0 s" using find_code_state [of s0 H code ip account t] 3(1) by simp
  then have ok: "link_ok s" using assms by (rule link_ok_fewer [rotated])
  have f1: "fewer s0 s1" unfolding 3(2) using f0 by (rule fewer_trans [OF _ fewer_delete(2)])
  then have ok1: "link_ok s1" using assms by (rule link_ok_fewer [rotated])
  note u = find_code_found [OF 3(1)]
  have a: "a < length (k_heap s1)" "l_user (obj_at s a) = H (normalizeCode code)" "obj_at s1 a = obj_at s a"
    using link_okD(3) [OF ok, of "H (normalizeCode code)" a] u 3(2) by (simp_all add: obj_at_def)
  have free: "map_of (k_byUser s1) v \<noteq> Some a" for v
    using link_okD(3) [OF ok, of v a] a(2) unfolding 3(2) by (auto simp: obj_at_def)
  have m: "moves (obj_at s1 a) r" using 3(4) u by (auto simp: moves_def a(3))
  have "link_ok (set_obj a r s1)"
    using 3(4) free by (intro link_ok_set_obj [OF ok1 a(1)]) (auto simp: a(3))
  moreover have "heap_moves s0 (set_obj a r s1)"
    using heap_moves_trans [OF heap_moves_same [OF fewer_heap [OF f1]] heap_moves_set_obj [OF m]] .
  ultimately show ?thesis unfolding 3(3) ..
qed

lemma link_step_ok: "link_ok s \<Longrightarrow> link_ok (link_step H s op) \<and> heap_moves s (link_step H s op)"
proof (cases op)
  case (Start g device codes t)
  assume "link_ok s"
  then show ?thesis
    using link_ok_start [of s H g device codes t] heap_moves_same [of s s] by (auto simp: Start split: option.split)
next
  case (Lookup code ip account t)
  assume "link_ok s"
  then show ?thesis
    using link_ok_fewer [OF _ find_code_state] heap_moves_same [OF fewer_heap [OF find_code_state]] by (simp add: Lookup lookup_state)
qed (simp_all add: link_ok_poll link_ok_decide)

interpretation linking: machine "link_step H" link_ok for H
  by unfold_locales (simp add: link_step_ok)

lemma link_ok_create: "link_ok createLinks"
  by (auto simp: createLinks_def)

section \<open>Delivered once, and only if approved\<close>

definition same_device :: "(string \<Rightarrow> string) \<Rightarrow> string \<Rightarrow> link_op \<Rightarrow> bool" where
  "same_device H device op = (case op of Start g d codes t \<Rightarrow> H d = H device | _ \<Rightarrow> False)"

definition delivered :: "(string \<Rightarrow> string) \<Rightarrow> string \<Rightarrow> links \<Rightarrow> bool" where
  "delivered H device s \<longleftrightarrow> (case map_of (k_byDevice s) (H device) of None \<Rightarrow> True | Some a \<Rightarrow> l_status (obj_at s a) = LSpent)"

lemma device_map_step:
  assumes "\<not> same_device H device op" "map_of (k_byDevice (link_step H s op)) (H device) = Some a"
  shows "map_of (k_byDevice s) (H device) = Some a"
proof -
  have le: "map_of (k_byDevice s) (H device) = Some a" if "fewer s s'" "map_of (k_byDevice s') (H device) = Some a" for s'
    using that by (force simp: fewer_def map_le_def dom_def)
  show ?thesis
  proof (cases op)
    case (Start g d codes t)
    show ?thesis
    proof (cases "start H g d codes t s")
      case (Some r)
      obtain resp s' where r: "r = (resp, s')" by (cases r)
      from Some r have "start H g d codes t s = Some (resp, s')" by simp
      then show ?thesis
        using assms le [OF fewer_sweep [of s t]]
        by (cases rule: start_cases) (auto simp: Start Some r same_device_def split: if_splits)
    qed (use assms in \<open>simp add: Start\<close>)
  next
    case (Poll d t)
    with assms(2) le [OF fewer_refl] le [OF fewer_sweep [of s t]] show ?thesis
      by (auto simp: poll_def Let_def split: if_splits option.splits lstatus.splits)
  next
    case (Lookup code ip account t)
    with assms(2) le [OF find_code_state] show ?thesis by (simp add: lookup_state)
  next
    case (Decide code approve ip account f t)
    show ?thesis
      using assms(2) le [OF find_code_state [of s H code ip account t]]
      by (cases rule: decide_cases [of H code approve ip account f t s]) (auto simp: Decide)
  qed
qed

lemma delivered_step:
  assumes "link_ok s" "delivered H device s" "\<not> same_device H device op"
  shows "delivered H device (link_step H s op)"
proof (cases "map_of (k_byDevice (link_step H s op)) (H device)")
  case (Some a)
  then have "map_of (k_byDevice s) (H device) = Some a" using device_map_step assms(3) by blast
  moreover from this have "l_status (k_heap s ! a) = LSpent" "a < length (k_heap s)"
    using assms(1,2) link_okD(4) [OF assms(1)] by (auto simp: delivered_def obj_at_def)
  ultimately have "l_status (obj_at (link_step H s op) a) = LSpent"
    using link_step_ok [OF assms(1), of H op] by (auto simp: heap_moves_def moves_def obj_at_def)
  then show ?thesis by (simp add: delivered_def Some)
qed (simp add: delivered_def)

lemma delivered_run:
  assumes "link_ok s" "delivered H device s" "list_all (\<lambda>op. \<not> same_device H device op) ops"
  shows "delivered H device (foldl (link_step H) s ops) \<and> link_ok (foldl (link_step H) s ops)"
  using assms by (induction ops arbitrary: s) (auto simp: delivered_step link_step_ok)

lemma poll_granted:
  assumes "poll H device t s = (LGranted res, s')"
  obtains a where "map_of (k_byDevice (sweep t s)) (H device) = Some a" "l_status (obj_at (sweep t s) a) = LApproved"
    "res = l_result (obj_at (sweep t s) a)" "s' = set_obj a ((obj_at (sweep t s) a)\<lparr>l_status := LSpent, l_secret := []\<rparr>) (sweep t s)"
  using assms by (auto simp: poll_def Let_def split: if_splits option.splits lstatus.splits)

lemma poll_cases:
  obtains "snd (poll H device t s) \<in> {s, sweep t s}" |
    a r where "map_of (k_byDevice (sweep t s)) (H device) = Some a" "snd (poll H device t s) = set_obj a r (sweep t s)"
      "(l_status (obj_at (sweep t s) a) = LPending \<and> r = (obj_at (sweep t s) a)\<lparr>l_lastPoll := t\<rparr>) \<or>
       (l_status (obj_at (sweep t s) a) = LApproved \<and> r = (obj_at (sweep t s) a)\<lparr>l_status := LSpent, l_secret := []\<rparr>)"
proof (cases "length device > 64 \<or> map_of (k_byDevice (sweep t s)) (H device) = None")
  case True
  then show ?thesis using that(1) by (auto simp: poll_def Let_def)
next
  case False
  then obtain a where a: "\<not> length device > 64" "map_of (k_byDevice (sweep t s)) (H device) = Some a" by auto
  show ?thesis
    using that(1) that(2) [OF a(2)]
    by (cases "l_status (obj_at (sweep t s) a)"; cases "t > l_expires (obj_at (sweep t s) a)") (simp_all add: poll_def Let_def a)
qed

lemma delivered_poll:
  assumes "delivered H device s"
  shows "fst (poll H device t s) \<noteq> LGranted res"
proof
  assume "fst (poll H device t s) = LGranted res"
  then obtain s' where "poll H device t s = (LGranted res, s')" by (cases "poll H device t s") simp
  then obtain a where a: "map_of (k_byDevice (sweep t s)) (H device) = Some a" "l_status (obj_at (sweep t s) a) = LApproved"
    by (rule poll_granted)
  have f: "fewer s (sweep t s)" by (rule fewer_sweep)
  then have "map_of (k_byDevice s) (H device) = Some a" using a(1) by (force simp: fewer_def map_le_def dom_def)
  moreover have "obj_at s a = obj_at (sweep t s) a" using fewer_heap [OF f] by (simp add: obj_at_def)
  ultimately show False using assms a(2) by (simp add: delivered_def)
qed

text \<open>Which decision a request's result comes from.\<close>

definition approved_by :: "link_op list \<Rightarrow> lreq \<Rightarrow> bool" where
  "approved_by ops r \<longleftrightarrow> (\<exists>code ip account f t r0. Decide code True ip account f t \<in> set ops \<and> f r0 = Inr (l_result r) \<and>
     l_device r0 = l_device r)"

definition settled :: "lreq \<Rightarrow> bool" where
  "settled r \<longleftrightarrow> l_status r \<in> {LApproved, LSpent}"

lemma approved_byI:
  "Decide code True ip account f t \<in> set ops \<Longrightarrow> f r0 = Inr (l_result r) \<Longrightarrow> l_device r0 = l_device r \<Longrightarrow> approved_by ops r"
  unfolding approved_by_def by blast

lemma approved_by_mono: "approved_by ops r \<Longrightarrow> approved_by (ops @ [op]) r"
  unfolding approved_by_def set_append by blast

lemma approved_by_cong: "approved_by ops r \<Longrightarrow> l_result r' = l_result r \<Longrightarrow> l_device r' = l_device r \<Longrightarrow> approved_by ops r'"
  by (simp add: approved_by_def)

lemma set_obj_settled:
  assumes "\<forall>r \<in> set (k_heap s). settled r \<longrightarrow> P r" "settled r' \<longrightarrow> P r'"
  shows "\<forall>r \<in> set (k_heap (set_obj a r' s)). settled r \<longrightarrow> P r"
  using assms set_update_subset_insert [of "k_heap s" a r'] by auto

lemma approved_step:
  assumes "link_ok s" "\<forall>r \<in> set (k_heap s). settled r \<longrightarrow> approved_by ops r"
  shows "\<forall>r \<in> set (k_heap (link_step H s op)). settled r \<longrightarrow> approved_by (ops @ [op]) r"
proof (cases op)
  case (Start g d codes t)
  show ?thesis
  proof (cases "start H g d codes t s")
    case (Some r)
    obtain resp s' where r: "r = (resp, s')" by (cases r)
    from Some r have "start H g d codes t s = Some (resp, s')" by simp
    then show ?thesis
      using assms(2) fewer_heap [OF fewer_sweep [of s t]]
      by (cases rule: start_cases) (auto simp: Start Some r settled_def approved_by_mono)
  qed (use assms in \<open>auto simp: Start approved_by_mono\<close>)
next
  case (Poll d t)
  let ?s = "sweep t s"
  have old: "\<forall>r \<in> set (k_heap ?s). settled r \<longrightarrow> approved_by (ops @ [op]) r"
    using assms(2) fewer_heap [OF fewer_sweep [of s t]] by (auto simp: approved_by_mono)
  have obj: "settled (obj_at ?s a) \<Longrightarrow> approved_by (ops @ [op]) (obj_at ?s a)" if "map_of (k_byDevice ?s) x = Some a" for a x
    using old link_okD(4) [OF link_ok_sweep [OF assms(1)] that] by (auto simp: obj_at_def)
  have same: "\<forall>r \<in> set (k_heap s). settled r \<longrightarrow> approved_by (ops @ [op]) r" using assms(2) by (auto simp: approved_by_mono)
  show ?thesis
  proof (cases rule: poll_cases [of H d t s])
    case 1
    with old same show ?thesis by (auto simp: Poll)
  next
    case (2 a r)
    have "settled r \<longrightarrow> approved_by (ops @ [op]) r"
      using 2(3) obj [OF 2(1)] by (auto simp: settled_def intro: approved_by_cong)
    then show ?thesis using set_obj_settled [OF old] unfolding Poll link_step.simps 2(2) by blast
  qed
next
  case (Lookup code ip account t)
  then show ?thesis
    using assms(2) fewer_heap [OF find_code_state [of s H code ip account t]] by (auto simp: lookup_state approved_by_mono)
next
  case (Decide code approve ip account f t)
  have h: "k_heap (snd (find_code H code ip account t s)) = k_heap s" by (rule fewer_heap [OF find_code_state])
  have same: "\<forall>r \<in> set (k_heap s). settled r \<longrightarrow> approved_by (ops @ [op]) r" using assms(2) by (auto simp: approved_by_mono)
  show ?thesis
  proof (cases rule: decide_cases [of H code approve ip account f t s])
    case 1
    with same h show ?thesis by (simp add: Decide)
  next
    case (2 a s' s1)
    with same h show ?thesis by (simp add: Decide)
  next
    case (3 a s' s1 r)
    have "settled r \<longrightarrow> approved_by (ops @ [op]) r"
      using 3(4) approved_byI [of code ip account f t "ops @ [op]" "obj_at s' a" r] by (auto simp: settled_def Decide)
    moreover have "k_heap s1 = k_heap s" using h 3(1,2) by simp
    ultimately show ?thesis using same set_obj_settled [of s1 _ r a] by (simp add: Decide 3(3) del: set_obj_fields)
  qed
qed

lemma approved_run:
  "\<forall>r \<in> set (k_heap (foldl (link_step H) createLinks ops)). settled r \<longrightarrow> approved_by ops r"
proof (induction ops rule: rev_induct)
  case (snoc op ops)
  have "link_ok (foldl (link_step H) createLinks ops)" by (rule linking.inv_run [OF link_ok_create])
  from approved_step [OF this snoc] show ?case by simp
qed (simp add: createLinks_def)

section \<open>Guesses\<close>

definition guess :: "(string \<Rightarrow> string) \<Rightarrow> string \<Rightarrow> string \<Rightarrow> links \<times> nat \<Rightarrow> string \<times> ms \<Rightarrow> links \<times> nat" where
  "guess H ip account sn ct = (case lookup H (fst ct) ip account (snd ct) (fst sn) of
     (res, s') \<Rightarrow> (s', snd sn + (if res = LookErr Unknown then 1 else 0)))"

definition times_of :: "times \<Rightarrow> string \<Rightarrow> ms list" where
  "times_of m k = (case map_of m k of None \<Rightarrow> [] | Some l \<Rightarrow> l)"

definition since :: "ms \<Rightarrow> times \<Rightarrow> string \<Rightarrow> nat" where
  "since t0 m k = length (filter (\<lambda>x. t0 \<le> x) (times_of m k))"

text \<open>The entries of other addresses and accounts.\<close>

definition others :: "string set \<Rightarrow> times \<Rightarrow> times" where
  "others K m = filter (\<lambda>kv. fst kv \<notin> K) m"

definition room :: "string \<Rightarrow> string \<Rightarrow> times \<Rightarrow> bool" where
  "room k1 k2 m \<longleftrightarrow> distinct (map fst m) \<and> length (others {k1, k2} m) + 2 \<le> MAX_TRACKED"

lemma length_others:
  assumes "distinct (map fst m)" "k \<notin> fst ` set m"
  shows "length m \<le> length (others {k', k} m) + 1"
proof -
  let ?in = "filter (\<lambda>kv. fst kv \<in> {k', k}) m"
  have "length m = length (others {k', k} m) + length ?in"
    using sum_length_filter_compl [of "\<lambda>kv. fst kv \<in> {k', k}" m] by (simp add: others_def)
  moreover have "length ?in \<le> 1"
  proof -
    have "distinct (map fst ?in)" using assms(1) by (rule distinct_map_filter)
    moreover have "set (map fst ?in) \<subseteq> {k'}" using assms(2) by auto
    ultimately have "length (map fst ?in) \<le> card {k'}" by (metis card_mono distinct_card finite.simps)
    then show ?thesis by simp
  qed
  ultimately show ?thesis by simp
qed

lemma others_update: "k \<in> K \<Longrightarrow> others K (AList.update k v m) = others K m"
  by (induction m) (auto simp: others_def)

lemma record_time_room:
  assumes "room k1 k2 m" "k \<in> {k1, k2}"
  shows "room k1 k2 (record_time m k w t)"
  using assms by (simp add: room_def record_time_def others_update)

lemma record_time_map:
  assumes "room k1 k2 m" "k \<in> {k1, k2}"
  shows "map_of (record_time m k w t) k' = (if k' = k then Some (recent_times m k w t @ [t]) else map_of m k')"
proof -
  have "length m < MAX_TRACKED" if "map_of m k = None"
  proof -
    have "k \<notin> fst ` set m" using that by (simp add: map_of_eq_None_iff)
    then have "length m \<le> length (others {k1, k2} m) + 1"
      using length_others [of m k k1] length_others [of m k k2] assms unfolding room_def by (metis insertE insert_commute singletonD)
    then show ?thesis using assms(1) by (simp add: room_def)
  qed
  then show ?thesis by (auto simp: record_time_def)
qed

lemma since_record:
  assumes "room k1 k2 m" "k \<in> {k1, k2}" "t0 \<le> t" "t < t0 + w"
  shows "since t0 (record_time m k w t) k' = (if k' = k then since t0 m k + 1 else since t0 m k')"
proof -
  have f: "filter (\<lambda>x. t0 \<le> x) (filter (\<lambda>x. t - x < w) l) = filter (\<lambda>x. t0 \<le> x) l" for l
    using assms(4) unfolding filter_filter by (intro filter_cong) auto
  show ?thesis
    using assms(3) record_time_map [OF assms(1,2), of w t k']
    by (simp add: since_def times_of_def recent_times_def f del: filter_filter)
qed

lemma since_recent: "t < t0 + w \<Longrightarrow> since t0 m k \<le> length (recent_times m k w t)"
proof -
  assume "t < t0 + w"
  then have "filter (\<lambda>x. t0 \<le> x) l = filter (\<lambda>x. t0 \<le> x) (filter (\<lambda>x. t - x < w) l)" for l
    by (auto intro!: filter_cong)
  then show ?thesis unfolding since_def times_of_def recent_times_def by (metis length_filter_le)
qed

lemma sweep_times_since:
  assumes "t < t0 + START_WINDOW_MS" "distinct (map fst m)"
  shows "since t0 (sweep_times t m) k = since t0 m k"
proof (cases "map_of m k")
  case None
  then have "map_of (sweep_times t m) k = None" by (auto simp: map_of_eq_None_iff sweep_times_def)
  with None show ?thesis by (simp add: since_def times_of_def)
next
  case (Some l)
  show ?thesis
  proof (cases "list_ex (\<lambda>x. t - x < START_WINDOW_MS) l")
    case True
    then have "(k, l) \<in> set (sweep_times t m)" using map_of_SomeD [OF Some] by (simp add: sweep_times_def)
    then have "map_of (sweep_times t m) k = Some l" using assms(2) by (simp add: sweep_times_def distinct_map_filter)
    with Some show ?thesis by (simp add: since_def times_of_def)
  next
    case False
    have "b = l" if "(k, b) \<in> set m" for b
      using eq_key_imp_eq_value [OF assms(2) that map_of_SomeD [OF Some]] .
    then have "map_of (sweep_times t m) k = None"
      using False by (auto simp: map_of_eq_None_iff sweep_times_def)
    moreover have "filter (\<lambda>x. t0 \<le> x) l = []"
      using False assms(1) by (auto simp: filter_empty_conv list_ex_iff)
    ultimately show ?thesis using Some by (simp add: since_def times_of_def)
  qed
qed

lemma others_filter: "others K (filter q m) = filter q (others K m)"
  by (induction m) (auto simp: others_def)

lemma sweep_times_room: "room k1 k2 m \<Longrightarrow> room k1 k2 (sweep_times t m)"
proof -
  assume r: "room k1 k2 m"
  have "length (others {k1, k2} (sweep_times t m)) \<le> length (others {k1, k2} m)"
    unfolding sweep_times_def others_filter by (rule length_filter_le)
  with r show ?thesis by (simp add: room_def sweep_times_def distinct_map_filter)
qed

lemma sweep_one_entries: "k_entries (sweep_one t s ka) = k_entries s"
  by (simp add: sweep_one_def Let_def)

lemma sweep_entries: "k_entries (sweep t s) \<in> {k_entries s, sweep_times t (k_entries s)}"
proof -
  have "k_entries (foldl (sweep_one t) s' kas) = k_entries s'" for s' kas
    by (induction kas arbitrary: s') (simp_all add: sweep_one_entries)
  then show ?thesis by (simp add: sweep_def Let_def)
qed

lemma find_code_entries:
  assumes "find_code H code ip account t s = (res, s')" "entry_keys ip account = [k1, k2]"
  shows "(res = TooMany \<and> s' = s) \<or> (res \<noteq> Unknown \<and> k_entries s' = k_entries (sweep t s)) \<or>
    (res = Unknown \<and> k_entries s' = record_time (record_time (k_entries (sweep t s)) k1 ENTRY_WINDOW_MS t) k2 ENTRY_WINDOW_MS t \<and>
     length (recent_times (k_entries s) k2 ENTRY_WINDOW_MS t) < ENTRY_LIMIT)"
  using assms by (auto simp: find_code_def Let_def not_le split: if_splits option.splits)

lemma guess_step:
  assumes "entry_keys ip account = [k1, k2]" "k1 \<noteq> k2" "t0 \<le> t" "t < t0 + ENTRY_WINDOW_MS"
    and "room k1 k2 (k_entries s)" "n \<le> since t0 (k_entries s) k2" "n \<le> ENTRY_LIMIT"
  shows "case guess H ip account (s, n) (code, t) of (s', n') \<Rightarrow>
    room k1 k2 (k_entries s') \<and> n' \<le> since t0 (k_entries s') k2 \<and> n' \<le> ENTRY_LIMIT"
proof -
  obtain res s' where f: "find_code H code ip account t s = (res, s')" by (cases "find_code H code ip account t s")
  have g: "guess H ip account (s, n) (code, t) = (s', n + (if res = Unknown then 1 else 0))"
    by (cases res) (simp_all add: guess_def lookup_def f Let_def)
  have w: "t < t0 + START_WINDOW_MS" using assms(4) by (simp add: ENTRY_WINDOW_MS_def START_WINDOW_MS_def)
  have d: "distinct (map fst (k_entries s))" using assms(5) by (simp add: room_def)
  have sw: "room k1 k2 (k_entries (sweep t s))" "since t0 (k_entries (sweep t s)) k2 = since t0 (k_entries s) k2"
    using sweep_entries [of t s] assms(5) sweep_times_room [OF assms(5)] sweep_times_since [OF w d] by auto
  consider "res = TooMany" "s' = s" | "res \<noteq> Unknown" "k_entries s' = k_entries (sweep t s)" |
    "res = Unknown" "k_entries s' = record_time (record_time (k_entries (sweep t s)) k1 ENTRY_WINDOW_MS t) k2 ENTRY_WINDOW_MS t"
      "length (recent_times (k_entries s) k2 ENTRY_WINDOW_MS t) < ENTRY_LIMIT"
    using find_code_entries [OF f assms(1)] by blast
  then show ?thesis
  proof cases
    case 1
    then show ?thesis using assms(5,6,7) by (simp add: g)
  next
    case 2
    then show ?thesis using assms(6,7) sw by (simp add: g)
  next
    case 3
    let ?m = "k_entries (sweep t s)"
    have r1: "room k1 k2 (record_time ?m k1 ENTRY_WINDOW_MS t)" by (rule record_time_room [OF sw(1)]) simp
    have "room k1 k2 (k_entries s')" unfolding 3(2) by (rule record_time_room [OF r1]) simp
    moreover have "since t0 (k_entries s') k2 = since t0 (k_entries s) k2 + 1"
      using since_record [OF r1, of k2 t0 t ENTRY_WINDOW_MS k2] since_record [OF sw(1), of k1 t0 t ENTRY_WINDOW_MS k2] assms(2,3,4)
      by (simp add: 3(2) sw(2))
    moreover have "n + 1 \<le> ENTRY_LIMIT"
      using assms(6) since_recent [OF assms(4), of "k_entries s" k2] 3(3) by simp
    ultimately show ?thesis using assms(6) 3(1) by (simp add: g)
  qed
qed

lemma guess_run:
  assumes "entry_keys ip account = [k1, k2]" "k1 \<noteq> k2" "list_all (\<lambda>(code, t). t0 \<le> t \<and> t < t0 + ENTRY_WINDOW_MS) cts"
    and "room k1 k2 (k_entries s)" "n \<le> since t0 (k_entries s) k2" "n \<le> ENTRY_LIMIT"
  shows "snd (foldl (guess H ip account) (s, n) cts) \<le> ENTRY_LIMIT"
  using assms(3-6)
proof (induction cts arbitrary: s n)
  case (Cons ct cts)
  obtain code t where ct: "ct = (code, t)" by (cases ct)
  obtain s' n' where g: "guess H ip account (s, n) (code, t) = (s', n')" by (cases "guess H ip account (s, n) (code, t)")
  have "t0 \<le> t" "t < t0 + ENTRY_WINDOW_MS" using Cons.prems(1) by (simp_all add: ct)
  from guess_step [OF assms(1,2) this Cons.prems(2-4), of H code] g
  have "room k1 k2 (k_entries s')" "n' \<le> since t0 (k_entries s') k2" "n' \<le> ENTRY_LIMIT" by simp_all
  then show ?case using Cons.IH [of s' n'] Cons.prems(1) by (simp add: ct g)
qed simp

section \<open>A small example\<close>

definition demo_start :: start_args where
  "demo_start = \<lparr>g_secret = replicate 64 CHR ''a'', g_host = ''web'', g_os = ''linux'', g_agent = ''1.0'', g_ip = ''192.0.2.7''\<rparr>"

definition demo_hash :: "string \<Rightarrow> string" where
  "demo_hash s = CHR ''#'' # s"

definition demo_links :: "link_op list" where
  "demo_links = [Start demo_start ''dev'' [''ABCDEFGH''] 1000, Decide ''abcd-efgh'' True ''192.0.2.9'' ''admin'' (\<lambda>r. Inr ''granted'') 2000]"

section \<open>Properties\<close>


text \<open>
  What an approval gives is delivered once: after a poll got it, no later poll with the same
  device code gets it again, whatever starts, polls and decisions come in between (as long as no
  new request happens to draw a device code with the same hash).
\<close>

theorem granted_once:
  assumes "link_ok s" "poll H device t s = (LGranted res, s')" "list_all (\<lambda>op. \<not> same_device H device op) ops"
  shows "fst (poll H device t' (foldl (link_step H) s' ops)) \<noteq> LGranted res'"
proof -
  have ok: "link_ok s'" using link_ok_poll [OF assms(1), of H device t] assms(2) by simp
  from assms(2) obtain a where a: "map_of (k_byDevice (sweep t s)) (H device) = Some a"
    "s' = set_obj a ((obj_at (sweep t s) a)\<lparr>l_status := LSpent, l_secret := []\<rparr>) (sweep t s)" by (rule poll_granted)
  have "a < length (k_heap (sweep t s))" using link_okD(4) [OF link_ok_sweep [OF assms(1)] a(1)] by simp
  then have "delivered H device s'" using a by (simp add: delivered_def obj_at_def)
  from delivered_run [OF ok this assms(3)] delivered_poll show ?thesis by blast
qed

text \<open>
  C11. Nothing is granted that no person approved: whenever a poll gets a result, there was a decision
  to approve in the run before, and the result is what that approval gave for a request with this
  device code.
\<close>

theorem granted_only_if_approved:
  assumes "poll H device t (foldl (link_step H) createLinks ops) = (LGranted res, s')"
  shows "\<exists>code ip account f t0 r0. Decide code True ip account f t0 \<in> set ops \<and> f r0 = Inr res \<and> l_device r0 = H device"
proof -
  let ?s = "foldl (link_step H) createLinks ops"
  from assms obtain a where a: "map_of (k_byDevice (sweep t ?s)) (H device) = Some a" "l_status (obj_at (sweep t ?s) a) = LApproved"
    "res = l_result (obj_at (sweep t ?s) a)" by (rule poll_granted)
  have ok: "link_ok (sweep t ?s)" by (rule link_ok_sweep [OF linking.inv_run [OF link_ok_create]])
  have "obj_at (sweep t ?s) a \<in> set (k_heap ?s)" "l_device (obj_at (sweep t ?s) a) = H device"
    using link_okD(4) [OF ok a(1)] fewer_heap [OF fewer_sweep [of ?s t]] by (simp_all add: obj_at_def)
  moreover from this(1) have "approved_by ops (obj_at (sweep t ?s) a)"
    using approved_run [of H ops] a(2) by (auto simp: settled_def)
  ultimately show ?thesis unfolding approved_by_def a(3) by auto
qed

theorem granted_only_if_approved_witness:
  "\<exists>code ip account f t0 r0. Decide code True ip account f t0 \<in> set demo_links \<and> f r0 = Inr ''granted'' \<and> l_device r0 = demo_hash ''dev''"
proof -
  let ?s = "foldl (link_step demo_hash) createLinks demo_links"
  have "fst (poll demo_hash ''dev'' 3000 ?s) = LGranted ''granted''" by code_simp
  then have "poll demo_hash ''dev'' 3000 ?s = (LGranted ''granted'', snd (poll demo_hash ''dev'' 3000 ?s))"
    by (metis prod.collapse)
  then show ?thesis by (rule granted_only_if_approved)
qed

text \<open>
  A person or a script that guesses codes gets at most ten tries: of all the codes one account
  enters within ten minutes, at most ten are looked at and found wrong; after that every code is
  refused unread. (As long as fewer than 9,999 other addresses and accounts are being counted.)
\<close>

theorem ten_wrong_codes:
  assumes "list_all (\<lambda>(code, t). t0 \<le> t \<and> t < t0 + ENTRY_WINDOW_MS) cts"
    and "distinct (map fst (k_entries s))" "length (k_entries s) + 2 \<le> MAX_TRACKED"
  shows "snd (foldl (guess H ip account) (s, 0) cts) \<le> ENTRY_LIMIT"
proof -
  obtain k1 k2 where k: "entry_keys ip account = [k1, k2]" "k1 \<noteq> k2" by (simp add: entry_keys_def)
  have "length (others {k1, k2} (k_entries s)) \<le> length (k_entries s)" by (simp add: others_def)
  then have "room k1 k2 (k_entries s)" using assms(2,3) by (simp add: room_def)
  then show ?thesis using guess_run [OF k assms(1)] by simp
qed

theorem ten_wrong_codes_witness:
  "snd (foldl (guess demo_hash ''192.0.2.9'' ''admin'') (createLinks, 0) (replicate 40 (''WRONGONE'', 5))) \<le> ENTRY_LIMIT"
  by (rule ten_wrong_codes [of 0]) (simp_all add: createLinks_def MAX_TRACKED_def ENTRY_WINDOW_MS_def list_all_iff)

end
