(* ===== verification/Client_Ip.thy ===== *)
theory Client_Ip
  imports Js_Prelude "HOL-Library.Word"
begin

text \<open>
  Who the client is, \<^verbatim>\<open>src/hub/lib/clientip.js\<close>, and the origin checks of \<^verbatim>\<open>src/hub/lib/origin.js\<close>. IPv4
  addresses and masks are 32-bit words, as the bit operators of JavaScript see them. \<^verbatim>\<open>net.isIPv4\<close>,
  \<^verbatim>\<open>net.isIPv6\<close> and \<^verbatim>\<open>Number\<close> of a string are modelled; \<^verbatim>\<open>new URL(...).host\<close> is an argument of the
  definitions that use it.
\<close>

unbundle bit_operations_syntax

section \<open>Strings of the network\<close>

definition dec_val :: "string \<Rightarrow> int" where
  "dec_val s = foldl (\<lambda>n c. 10 * n + (of_char c - 48)) 0 s"

definition lower_char :: "char \<Rightarrow> char" where
  "lower_char c = (if is_upper c then char_of ((of_char c :: nat) + 32) else c)"

definition lower_case :: "string \<Rightarrow> string" where
  "lower_case s = map lower_char s"

text \<open>An octet: 0 to 255 without leading zeros.\<close>

definition is_octet :: "string \<Rightarrow> bool" where
  "is_octet s \<longleftrightarrow> in_class is_digit 1 3 s \<and> dec_val s \<le> 255 \<and> (length s = 1 \<or> hd s \<noteq> CHR ''0'')"

definition isIPv4 :: "string \<Rightarrow> bool" where
  "isIPv4 s = (let ps = split_on CHR ''.'' s in length ps = 4 \<and> list_all is_octet ps)"

definition is_hex :: "char \<Rightarrow> bool" where
  "is_hex c \<longleftrightarrow> is_digit c \<or> (97 \<le> (of_char c :: nat) \<and> (of_char c :: nat) \<le> 102) \<or> (65 \<le> (of_char c :: nat) \<and> (of_char c :: nat) \<le> 70)"

text \<open>The groups of a part of an IPv6 address, and how many of the eight they are: the last one may
  be an IPv4 address, which counts for two.\<close>

definition v6_groups :: "bool \<Rightarrow> string \<Rightarrow> nat option" where
  "v6_groups last_part s =
    (if s = [] then Some 0
     else let gs = split_on CHR '':'' s in
       if list_all (in_class is_hex 1 4) gs then Some (length gs)
       else if last_part \<and> list_all (in_class is_hex 1 4) (butlast gs) \<and> isIPv4 (last gs) then Some (length gs + 1)
       else None)"

fun split_double :: "string \<Rightarrow> string list" where
  "split_double (a # b # cs) =
     (if a = CHR '':'' \<and> b = CHR '':'' then [] # split_double cs
      else case split_double (b # cs) of [] \<Rightarrow> [[a]] | p # ps \<Rightarrow> (a # p) # ps)"
| "split_double cs = [cs]"

definition isIPv6 :: "string \<Rightarrow> bool" where
  "isIPv6 s =
    (let addr = takeWhile (\<lambda>c. c \<noteq> CHR ''%'') s; zone = drop (length addr) s in
     (zone = [] \<or> (length zone \<ge> 2 \<and> list_all (\<lambda>c. is_digit c \<or> is_lower c \<or> is_upper c \<or> c \<in> {CHR ''-'', CHR ''.'', CHR '':''}) (tl zone))) \<and>
     (case split_double addr of
        [a] \<Rightarrow> v6_groups True a = Some 8
      | [a, b] \<Rightarrow> (case (v6_groups False a, v6_groups True b) of (Some m, Some n) \<Rightarrow> m + n \<le> 7 | _ \<Rightarrow> False)
      | _ \<Rightarrow> False))"

definition isIP :: "string \<Rightarrow> bool" where
  "isIP s \<longleftrightarrow> isIPv4 s \<or> isIPv6 s"

text \<open>
  \<^verbatim>\<open>Number(s)\<close> of a string: white space around it is dropped, nothing is 0, then a literal in base 16,
  8 or 2, or a decimal one with a sign, a fraction and an exponent. \<open>None\<close> is NaN or an infinity.
\<close>

definition base_val :: "int \<Rightarrow> string \<Rightarrow> rat option" where
  "base_val b ds =
    (let dig = (\<lambda>c. if is_digit c then of_char c - 48 else of_char (lower_char c) - 87 :: int) in
     if ds \<noteq> [] \<and> list_all (\<lambda>c. is_hex c \<and> dig c < b) ds then Some (of_int (foldl (\<lambda>n c. b * n + dig c) 0 ds)) else None)"

definition pow10 :: "int \<Rightarrow> rat" where
  "pow10 e = (if e \<ge> 0 then 10 ^ nat e else 1 / 10 ^ nat (- e))"

definition signed_digits :: "string \<Rightarrow> int option" where
  "signed_digits s =
    (let neg = (s \<noteq> [] \<and> hd s = CHR ''-''); ds = (if s \<noteq> [] \<and> hd s \<in> {CHR ''-'', CHR ''+''} then tl s else s) in
     if ds \<noteq> [] \<and> list_all is_digit ds then Some (if neg then - dec_val ds else dec_val ds) else None)"

definition decimal_val :: "string \<Rightarrow> rat option" where
  "decimal_val s =
    (let neg = (s \<noteq> [] \<and> hd s = CHR ''-''); u = (if s \<noteq> [] \<and> hd s \<in> {CHR ''-'', CHR ''+''} then tl s else s);
         ip = takeWhile is_digit u; r1 = drop (length ip) u;
         fp = (if r1 \<noteq> [] \<and> hd r1 = CHR ''.'' then takeWhile is_digit (tl r1) else []);
         r2 = (if r1 \<noteq> [] \<and> hd r1 = CHR ''.'' then drop (length fp + 1) r1 else r1);
         e = (if r2 = [] then Some 0 else if hd r2 \<in> {CHR ''e'', CHR ''E''} then signed_digits (tl r2) else None) in
     if ip @ fp = [] then None
     else map_option (\<lambda>x. (if neg then -1 else 1) * of_int (dec_val (ip @ fp)) * pow10 (x - int (length fp))) e)"

definition js_Number :: "string \<Rightarrow> rat option" where
  "js_Number s =
    (let t = js_trim s in
     if t = [] then Some 0
     else if starts_with ''0x'' (lower_case t) then base_val 16 (drop 2 t)
     else if starts_with ''0o'' (lower_case t) then base_val 8 (drop 2 t)
     else if starts_with ''0b'' (lower_case t) then base_val 2 (drop 2 t)
     else decimal_val t)"

section \<open>Addresses and lists\<close>

definition normalizeIp :: "string \<Rightarrow> string option" where
  "normalizeIp raw =
    (let ip = js_trim raw;
         ip' = (if starts_with ''::ffff:'' (lower_case ip) \<and> isIPv4 (drop 7 ip) then drop 7 ip else ip) in
     if isIP ip' then Some (lower_case ip') else None)"

definition v4ToInt :: "string \<Rightarrow> 32 word" where
  "v4ToInt ip =
    (let p = map dec_val (split_on CHR ''.'' ip) in
     push_bit 24 (word_of_int (p ! 0)) + push_bit 16 (word_of_int (p ! 1)) + push_bit 8 (word_of_int (p ! 2)) + word_of_int (p ! 3))"

datatype cidr = V4 (c_net: "32 word") (c_mask: "32 word") | V6 string

text \<open>\<^verbatim>\<open>bits === 0 ? 0 : (~0 << (32 - bits)) >>> 0\<close>\<close>

definition mask_of :: "nat \<Rightarrow> 32 word" where
  "mask_of bits = (if bits = 0 then 0 else push_bit (32 - bits) (NOT 0))"

definition parse_entry :: "string \<Rightarrow> cidr option" where
  "parse_entry raw =
    (let s = js_trim raw in
     if s = [] \<or> hd s = CHR ''#'' then None
     else let ps = split_on CHR ''/'' s; bitsStr = (if length ps > 1 then Some (ps ! 1) else None) in
       case normalizeIp (hd ps) of
         None \<Rightarrow> None
       | Some ip \<Rightarrow>
           if isIPv4 ip then
             (case (case bitsStr of None \<Rightarrow> Some 32 | Some b \<Rightarrow> js_Number b) of
                None \<Rightarrow> None
              | Some q \<Rightarrow>
                  if q \<noteq> of_int \<lfloor>q\<rfloor> \<or> q < 0 \<or> q > 32 then None
                  else let mk = mask_of (nat \<lfloor>q\<rfloor>) in Some (V4 (v4ToInt ip AND mk) mk))
           else if bitsStr = None \<or> bitsStr = Some ''128'' then Some (V6 ip)
           else None)"

text \<open>\<^verbatim>\<open>s.split(/[\s,]+/)\<close>: the words between runs of white space and commas (an empty word is skipped later).\<close>

definition split_words :: "string \<Rightarrow> string list" where
  "split_words s = split_on CHR '','' (map (\<lambda>c. if is_space c then CHR '','' else c) s)"

definition parseCidrList :: "string list \<Rightarrow> cidr list" where
  "parseCidrList items = List.map_filter parse_entry items"

definition matches_entry :: "string \<Rightarrow> cidr \<Rightarrow> bool" where
  "matches_entry ip e = (case e of
      V4 n m \<Rightarrow> isIPv4 ip \<and> v4ToInt ip AND m = n
    | V6 a \<Rightarrow> \<not> isIPv4 ip \<and> a = ip)"

definition matchesAny :: "string option \<Rightarrow> cidr list \<Rightarrow> bool" where
  "matchesAny ip es = (case ip of None \<Rightarrow> False | Some i \<Rightarrow> i \<noteq> [] \<and> list_ex (matches_entry i) es)"

section \<open>The client of a request\<close>

record http_req =
  h_remote :: "string option"
  h_xff :: "string option"
  h_cf :: "string option"
  h_host :: "string option"
  h_xfhost :: "string option"
  h_xfproto :: "string option"
  h_origin :: "string option"
  h_tls :: bool

datatype fwd_header = XForwardedFor | CfConnectingIp

definition norm_opt :: "string option \<Rightarrow> string option" where
  "norm_opt v = (case v of None \<Rightarrow> None | Some s \<Rightarrow> normalizeIp s)"

definition forwardedIp :: "http_req \<Rightarrow> fwd_header \<Rightarrow> string option" where
  "forwardedIp q hd' = (case hd' of
      CfConnectingIp \<Rightarrow> norm_opt (h_cf q)
    | XForwardedFor \<Rightarrow> (case h_xff q of
          None \<Rightarrow> None
        | Some x \<Rightarrow> if x = [] then None else normalizeIp (last (split_on CHR '','' x))))"

record client =
  cl_ip :: "string option"
  cl_peer :: "string option"
  cl_peerTrusted :: bool
  cl_viaProxy :: bool
  cl_proxyOnly :: bool

definition resolveClient :: "cidr list \<Rightarrow> fwd_header \<Rightarrow> http_req \<Rightarrow> client" where
  "resolveClient trusted hd' q =
    (let peer = norm_opt (h_remote q) in
     if matchesAny peer trusted then
       (case forwardedIp q hd' of
          Some f \<Rightarrow> \<lparr>cl_ip = Some f, cl_peer = peer, cl_peerTrusted = True, cl_viaProxy = True, cl_proxyOnly = False\<rparr>
        | None \<Rightarrow> \<lparr>cl_ip = peer, cl_peer = peer, cl_peerTrusted = True, cl_viaProxy = False, cl_proxyOnly = True\<rparr>)
     else \<lparr>cl_ip = peer, cl_peer = peer, cl_peerTrusted = False, cl_viaProxy = False, cl_proxyOnly = False\<rparr>)"

definition isWhitelisted :: "client \<Rightarrow> cidr list \<Rightarrow> bool" where
  "isWhitelisted c es \<longleftrightarrow> \<not> cl_proxyOnly c \<and> matchesAny (cl_ip c) es"

section \<open>Origins\<close>

definition lastHeaderValue :: "string option \<Rightarrow> string" where
  "lastHeaderValue v = (case v of None \<Rightarrow> [] | Some x \<Rightarrow> if x = [] then [] else lower_case (js_trim (last (split_on CHR '','' x))))"

definition present :: "string option \<Rightarrow> bool" where
  "present v = (case v of None \<Rightarrow> False | Some x \<Rightarrow> x \<noteq> [])"

text \<open>\<open>url_host\<close> is \<^verbatim>\<open>new URL(u).host\<close>, \<open>None\<close> when it throws.\<close>

definition expectedHosts :: "(string \<Rightarrow> string option) \<Rightarrow> http_req \<Rightarrow> string \<Rightarrow> bool \<Rightarrow> string list" where
  "expectedHosts url_host q publicUrl peerTrusted =
    (if present (h_host q) then [lower_case (the (h_host q))] else []) @
    (if peerTrusted \<and> present (h_xfhost q) then [lastHeaderValue (h_xfhost q)] else []) @
    (if publicUrl = [] then [] else case url_host publicUrl of None \<Rightarrow> [] | Some h \<Rightarrow> [lower_case h])"

definition originAllowed :: "(string \<Rightarrow> string option) \<Rightarrow> http_req \<Rightarrow> string \<Rightarrow> bool \<Rightarrow> bool" where
  "originAllowed url_host q publicUrl peerTrusted = (case h_origin q of
      None \<Rightarrow> False
    | Some origin \<Rightarrow>
        if origin = [] \<or> origin = ''null'' then False
        else case url_host origin of
          None \<Rightarrow> False
        | Some h \<Rightarrow> lower_case h \<noteq> [] \<and> lower_case h \<in> set (expectedHosts url_host q publicUrl peerTrusted))"

definition requestIsHttps :: "http_req \<Rightarrow> string \<Rightarrow> bool \<Rightarrow> bool" where
  "requestIsHttps q publicUrl peerTrusted \<longleftrightarrow>
     h_tls q \<or> starts_with ''https:'' (lower_case publicUrl) \<or> (peerTrusted \<and> lastHeaderValue (h_xfproto q) = ''https'')"

section \<open>Properties\<close>

lemma bit_mask_of: "bits \<le> 32 \<Longrightarrow> bit (mask_of bits) i \<longleftrightarrow> 32 - bits \<le> i \<and> i < 32"
  by (auto simp: mask_of_def bit_push_bit_iff bit_not_iff bit_mask_iff dest: bit_imp_le_length)

lemma and_mask_prefix:
  fixes a b :: "32 word"
  assumes "bits \<le> 32"
  shows "a AND mask_of bits = b AND mask_of bits \<longleftrightarrow> drop_bit (32 - bits) a = drop_bit (32 - bits) b"
proof -
  have "a AND mask_of bits = b AND mask_of bits \<longleftrightarrow> (\<forall>i. 32 - bits \<le> i \<and> i < 32 \<longrightarrow> bit a i = bit b i)"
    using bit_mask_of [OF assms] by (auto simp: bit_eq_iff bit_and_iff)
  also have "\<dots> \<longleftrightarrow> (\<forall>i. 32 - bits \<le> i \<longrightarrow> bit a i = bit b i)"
    using bit_imp_le_length [of a] bit_imp_le_length [of b] by auto
  also have "\<dots> \<longleftrightarrow> drop_bit (32 - bits) a = drop_bit (32 - bits) b"
    using bit_imp_le_length [of a] bit_imp_le_length [of b] unfolding bit_eq_iff bit_drop_bit_eq o_def by (force dest!: le_Suc_ex)
  finally show ?thesis .
qed

lemma split_on_comma: "CHR '','' \<notin> set x \<Longrightarrow> last (split_on CHR '','' (forged @ '','' @ x)) = x"
  using last_split_on [of "CHR '',''" x forged] by simp

text \<open>
  C18. A client cannot choose its address: whatever it puts in front of a forwarding header, only the
  entry the last proxy appended counts; a peer that is not a trusted proxy is known by its own
  address alone; and a request is on a whitelist only by the address of an untrusted peer itself or
  by the one a trusted proxy vouches for, never by the proxy's own.
\<close>

theorem forged_headers_ignored:
  assumes "x \<noteq> []" "CHR '','' \<notin> set x"
  shows "resolveClient trusted XForwardedFor (q\<lparr>h_xff := Some (forged @ '','' @ x)\<rparr>) =
      resolveClient trusted XForwardedFor (q\<lparr>h_xff := Some x\<rparr>) \<and>
    (cl_peerTrusted (resolveClient trusted hd' q) \<or> cl_ip (resolveClient trusted hd' q) = norm_opt (h_remote q)) \<and>
    (isWhitelisted (resolveClient trusted hd' q) es \<longleftrightarrow>
      (if matchesAny (norm_opt (h_remote q)) trusted then matchesAny (forwardedIp q hd') es
       else matchesAny (norm_opt (h_remote q)) es))"
proof -
  have "forwardedIp (q\<lparr>h_xff := Some (forged @ '','' @ x)\<rparr>) XForwardedFor = forwardedIp (q\<lparr>h_xff := Some x\<rparr>) XForwardedFor"
    using assms split_on_comma [OF assms(2), of forged] split_on_no_sep [OF assms(2)] by (simp add: forwardedIp_def)
  then show ?thesis
    by (auto simp: resolveClient_def isWhitelisted_def matchesAny_def [of None] Let_def split: option.splits)
qed

definition demo_req :: http_req where
  "demo_req = \<lparr>h_remote = Some ''::ffff:127.0.0.1'', h_xff = None, h_cf = None, h_host = None, h_xfhost = None, h_xfproto = None,
     h_origin = None, h_tls = False\<rparr>"

theorem forged_headers_ignored_witness:
  "let trusted = parseCidrList [''127.0.0.1'', ''::1'']; forge = demo_req\<lparr>h_xff := Some (''10.0.0.1'' @ '','' @ '' 192.0.2.7'')\<rparr> in
   cl_ip (resolveClient trusted XForwardedFor forge) = Some ''192.0.2.7'' \<and>
   resolveClient trusted XForwardedFor forge = resolveClient trusted XForwardedFor (demo_req\<lparr>h_xff := Some '' 192.0.2.7''\<rparr>)"
proof -
  let ?tr = "parseCidrList [''127.0.0.1'', ''::1'']"
  have "cl_ip (resolveClient ?tr XForwardedFor (demo_req\<lparr>h_xff := Some (''10.0.0.1'' @ '','' @ '' 192.0.2.7'')\<rparr>)) = Some ''192.0.2.7''"
    by code_simp
  moreover have "'' 192.0.2.7'' \<noteq> []" "CHR '','' \<notin> set '' 192.0.2.7''" by simp_all
  ultimately show ?thesis
    using forged_headers_ignored [of "'' 192.0.2.7''", where trusted = ?tr and q = demo_req and forged = "''10.0.0.1''"] unfolding Let_def by blast
qed

text \<open>
  The mask arithmetic is prefix matching: an IPv4 address matches an entry of \<^verbatim>\<open>bits\<close> bits exactly
  when its first \<^verbatim>\<open>bits\<close> bits are the entry's, for every length from 0 to 32.
\<close>

theorem cidr_is_prefix_match:
  assumes "isIPv4 ip" "bits \<le> 32"
  shows "matches_entry ip (V4 (n AND mask_of bits) (mask_of bits)) \<longleftrightarrow> drop_bit (32 - bits) (v4ToInt ip) = drop_bit (32 - bits) n"
  using assms and_mask_prefix [OF assms(2)] by (simp add: matches_entry_def)

theorem cidr_is_prefix_match_witness:
  "matches_entry ''10.200.3.4'' (V4 (v4ToInt ''10.1.1.1'' AND mask_of 8) (mask_of 8)) \<longleftrightarrow>
   drop_bit (32 - 8) (v4ToInt ''10.200.3.4'') = drop_bit (32 - 8) (v4ToInt ''10.1.1.1'')"
proof -
  have "isIPv4 ''10.200.3.4''" by code_simp
  then show ?thesis by (rule cidr_is_prefix_match) simp
qed

text \<open>
  A prefix length that was left out after the slash matches everything: \<^verbatim>\<open>Number("")\<close> is 0, so the
  entry \<^verbatim>\<open>10.0.0.1/\<close> in a list of trusted proxies or of whitelisted addresses takes in every IPv4
  address.
\<close>

theorem bare_slash_matches_all:
  assumes "isIPv4 ip"
  shows "matchesAny (Some ip) (parseCidrList [''10.0.0.1/''])"
proof -
  have "parse_entry ''10.0.0.1/'' = Some (V4 0 0)" by code_simp
  moreover have "ip \<noteq> []" using assms by (auto simp: isIPv4_def)
  ultimately show ?thesis using assms by (simp add: parseCidrList_def List.map_filter_simps matchesAny_def matches_entry_def)
qed

end
