(* ===== verification/History.thy ===== *)
theory History
  imports Snapshot
begin

text \<open>
  History, \<^verbatim>\<open>src/hub/lib/history.js\<close>: each snapshot becomes named series, each series one ring file of up to
  three tiers. A tier is the record \<open>ring\<close>: the last index written and its slots, a slot being a point
  \<open>(avg, min, max)\<close> or a gap (\<open>None\<close> for NaN). A file is \<open>Sound\<close> with its fields and tiers, or \<open>Torn\<close> (with
  what a reader finds where the last index should be). Storing a point as Float32 rounds it: the
  rounding is the argument \<open>f32\<close>. The byte offsets in a file (\<^verbatim>\<open>offsets\<close>) are replaced by the lists;
  failing writes are left out, and indices are taken as not negative (the clock is past 1970).
\<close>

section \<open>Data\<close>

type_synonym point = "rat \<times> rat \<times> rat"

record ring =
  rg_last :: int
  rg_slots :: "point option list"

datatype sfile = Torn int | Sound nat "ring list"

text \<open>The current minute of a series.\<close>

record cur_min =
  cm_minute :: int
  cm_sum :: rat
  cm_n :: nat
  cm_min :: rat
  cm_max :: rat

record hist =
  hs_open :: "(string \<times> cur_min) list"
  hs_known :: "(string \<times> string list \<times> bool) list"
  hs_disk :: "(string \<times> (string \<times> sfile) list) list"

definition TIERS :: "(int \<times> nat) list" where
  "TIERS = [(1, 1440), (10, 1008), (60, 2160)]"

definition RANGES :: "(string \<times> nat \<times> int) list" where
  "RANGES = [(''1h'', 0, 60), (''24h'', 0, 1440), (''7d'', 1, 1008), (''30d'', 2, 720), (''90d'', 2, 2160)]"

definition SWEEP_MIN :: int where "SWEEP_MIN = 90 * 1440"

definition MAX_SERIES :: nat where "MAX_SERIES = 600"

definition tier_step :: "nat \<Rightarrow> int" where "tier_step t = fst (TIERS ! t)"

definition tier_len :: "nat \<Rightarrow> nat" where "tier_len t = snd (TIERS ! t)"

section \<open>Series of a view\<close>

definition put_num :: "string \<Rightarrow> rat option \<Rightarrow> (string \<times> rat) list \<Rightarrow> (string \<times> rat) list" where
  "put_num k x out = (case x of None \<Rightarrow> out | Some q \<Rightarrow> AList.update k q out)"

text \<open>\<^verbatim>\<open>if (finite(m.total) && m.total > 0) put(k, Math.round((m.used * 1000) / m.total) / 10)\<close>\<close>

definition share :: "jsval \<Rightarrow> jsval \<Rightarrow> rat option" where
  "share used tot = (case finite_num tot of
      Some t \<Rightarrow> if t > 0 then map_option (\<lambda>u. of_int (js_round (u * 1000 / t)) / 10) (to_num used) else None
    | None \<Rightarrow> None)"

definition seriesOf :: "jsval \<Rightarrow> (string \<times> rat) list" where
  "seriesOf v =
    (let c = fld ''cpu'' v; m = fld ''mem'' v; n = fld ''net'' v;
         load1 = (case fld ''load'' c of JArr (x # _) \<Rightarrow> finite_num x | _ \<Rightarrow> None);
         o1 = put_num ''load1'' load1 (put_num ''iowait'' (finite_num (fld ''iowait'' c)) (put_num ''cpu'' (finite_num (fld ''usage'' c)) []));
         o2 = put_num ''swap'' (share (fld ''swapUsed'' m) (fld ''swapTotal'' m)) (put_num ''mem'' (share (fld ''used'' m) (fld ''total'' m)) o1);
         o3 = put_num ''temp'' (finite_num (fld ''package'' (fld ''temp'' v))) o2;
         o4 = foldl (\<lambda>o' r. put_num (''psi.'' @ r) (finite_num (fld ''some'' (fld r (fld ''pressure'' v)))) o') o3 [''cpu'', ''mem'', ''io''];
         o5 = put_num ''net.tx'' (finite_num (fld ''rateTx'' n)) (put_num ''net.rx'' (finite_num (fld ''rateRx'' n)) o4);
         o6 = foldl (\<lambda>o' d. if fld ''mounted'' d \<noteq> JBool False
                 then put_num (''disk.'' @ str_of (fld ''mount'' d) @ ''.used'') (finite_num (fld ''pct'' d)) o' else o') o5 (arr_or_empty (fld ''disks'' v));
         o7 = foldl (\<lambda>o' d. put_num (''io.'' @ str_of (fld ''device'' d) @ ''.write'') (finite_num (fld ''writeRate'' d))
                 (put_num (''io.'' @ str_of (fld ''device'' d) @ ''.read'') (finite_num (fld ''readRate'' d)) o')) o6 (arr_or_empty (fld ''io'' v)) in
     foldl (\<lambda>o' d. put_num (''ctr.'' @ str_of (fld ''name'' d) @ ''.mem'') (finite_num (fld ''mem'' d))
       (put_num (''ctr.'' @ str_of (fld ''name'' d) @ ''.cpu'') (finite_num (fld ''cpu'' d)) o')) o7 (arr_or_empty (fld ''docker'' v)))"

section \<open>File names\<close>

definition hex_digit :: "nat \<Rightarrow> char" where
  "hex_digit n = ''0123456789ABCDEF'' ! n"

definition pct_byte :: "nat \<Rightarrow> string" where
  "pct_byte b = [CHR ''%'', hex_digit (b div 16), hex_digit (b mod 16)]"

text \<open>\<^verbatim>\<open>encodeURIComponent(name).replace(/\./g, "%2E")\<close>; a character from 128 to 255 is two bytes of UTF-8.\<close>

definition encode_char :: "char \<Rightarrow> string" where
  "encode_char c =
    (let n = of_char c :: nat in
     if is_lower c \<or> is_upper c \<or> is_digit c \<or> c \<in> set ''-_!~*()'' \<or> n = 39 then [c]
     else if n < 128 then pct_byte n
     else pct_byte (192 + n div 64) @ pct_byte (128 + n mod 64))"

text \<open>\<open>short_hash\<close> stands for the first 32 digits of the SHA-256 of the name in JSON.\<close>

definition fileOf :: "(string \<Rightarrow> string) \<Rightarrow> string \<Rightarrow> string" where
  "fileOf short_hash name =
    (let enc = concat (map encode_char name) in
     if length enc \<le> 200 then enc @ ''.ring'' else ''h-'' @ short_hash name @ ''.ring'')"

text \<open>Tiers and fields.\<close>

definition shapeOf :: "string \<Rightarrow> nat \<times> nat" where
  "shapeOf name = (if starts_with ''ctr.'' name then (1, 1) else (3, 3))"

section \<open>One tier\<close>

definition new_ring :: "nat \<Rightarrow> ring" where
  "new_ring len = \<lparr>rg_last = -1, rg_slots = replicate len None\<rparr>"

definition slot_of :: "nat \<Rightarrow> int \<Rightarrow> nat" where
  "slot_of len i = nat (i mod int len)"

text \<open>A run of gaps from a slot on: one write of the loop in \<^verbatim>\<open>fillGaps\<close>.\<close>

definition write_gaps :: "nat \<Rightarrow> nat \<Rightarrow> 'a option list \<Rightarrow> 'a option list" where
  "write_gaps slot run xs = take slot xs @ replicate run None @ drop (slot + run) xs"

text \<open>The loop: at most two writes, as the ring may wrap.\<close>

function fill_loop :: "nat \<Rightarrow> int \<Rightarrow> int \<Rightarrow> 'a option list \<Rightarrow> 'a option list" where
  "fill_loop len i til xs =
    (if len = 0 \<or> i \<ge> til then xs
     else let slot = slot_of len i; run = min (nat (til - i)) (len - slot) in
       fill_loop len (i + int run) til (write_gaps slot run xs))"
  by pat_completeness auto
termination
proof (relation "measure (\<lambda>(len, i, til, xs). nat (til - i))")
  fix len i til :: int and xs :: "'a option list" and n :: nat and x y
  assume a: "\<not> (n = 0 \<or> i \<ge> til)" "x = slot_of n i" "y = min (nat (til - i)) (n - x)"
  have "x < n" using a(1) unfolding a(2) slot_of_def by (simp add: nat_less_iff)
  then have "0 < y" using a(1) unfolding a(3) by simp
  then show "((n, i + int y, til, write_gaps x y xs), (n, i, til, xs)) \<in> measure (\<lambda>(len, i, til, xs). nat (til - i))"
    using a(1) by auto
qed simp

declare fill_loop.simps [simp del]

definition fillGaps :: "nat \<Rightarrow> int \<Rightarrow> int \<Rightarrow> 'a option list \<Rightarrow> 'a option list" where
  "fillGaps len from til xs = fill_loop len (max from (til - int len)) til xs"

text \<open>A tier of one field keeps the average alone and reads it back three times.\<close>

definition readPoint :: "nat \<Rightarrow> nat \<Rightarrow> int \<Rightarrow> ring \<Rightarrow> point option" where
  "readPoint nf len idx r = (case rg_slots r ! slot_of len idx of
      None \<Rightarrow> None
    | Some (a, lo, hi) \<Rightarrow> Some (if nf = 3 then (a, lo, hi) else (a, a, a)))"

definition round_point :: "(rat \<Rightarrow> rat) \<Rightarrow> point \<Rightarrow> point" where
  "round_point f32 p = (case p of (a, lo, hi) \<Rightarrow> (f32 a, f32 lo, f32 hi))"

definition writePoint :: "(rat \<Rightarrow> rat) \<Rightarrow> nat \<Rightarrow> int \<Rightarrow> point option \<Rightarrow> point option list \<Rightarrow> point option list" where
  "writePoint f32 len idx p xs = xs[slot_of len idx := map_option (round_point f32) p]"

definition put_ring :: "(rat \<Rightarrow> rat) \<Rightarrow> nat \<Rightarrow> int \<Rightarrow> point option \<Rightarrow> ring \<Rightarrow> ring" where
  "put_ring f32 len idx p r =
    (let reset = (rg_last r \<ge> 0 \<and> idx \<le> rg_last r - int len);
         xs1 = (if reset then fillGaps len 0 (int len) (rg_slots r) else rg_slots r);
         last = (if reset then -1 else rg_last r);
         xs2 = (if last \<ge> 0 \<and> idx > last + 1 then fillGaps len (last + 1) idx xs1 else xs1) in
     \<lparr>rg_last = (if idx > last then idx else rg_last r), rg_slots = writePoint f32 len idx p xs2\<rparr>)"

section \<open>One file\<close>

definition create_file :: "nat \<times> nat \<Rightarrow> sfile" where
  "create_file shape = Sound (snd shape) (map (\<lambda>t. new_ring (tier_len t)) [0..<fst shape])"

definition sound_file :: "sfile \<Rightarrow> nat \<times> nat \<Rightarrow> bool" where
  "sound_file f shape = (case f of Torn _ \<Rightarrow> False
     | Sound nf rings \<Rightarrow> nf = snd shape \<and> length rings = fst shape \<and>
         list_all (\<lambda>t. length (rg_slots (rings ! t)) = tier_len t) [0..<fst shape])"

text \<open>The minutes of a bucket that T1 still has, without the gaps.\<close>

definition bucket :: "nat \<Rightarrow> int \<Rightarrow> int \<Rightarrow> ring \<Rightarrow> point list" where
  "bucket nf step b t1 =
    List.map_filter (\<lambda>m. if m > rg_last t1 \<or> m \<le> rg_last t1 - int (tier_len 0) then None else readPoint nf (tier_len 0) m t1)
      (map (\<lambda>k. b * step + int k) [0..<nat step])"

definition summarize :: "point list \<Rightarrow> point option" where
  "summarize ps = (if ps = [] then None
     else Some (sum_list (map fst ps) / of_nat (length ps), Min (set (map (fst \<circ> snd) ps)), Max (set (map (snd \<circ> snd) ps))))"

definition write_rings :: "(rat \<Rightarrow> rat) \<Rightarrow> nat \<Rightarrow> int \<Rightarrow> point \<Rightarrow> ring list \<Rightarrow> ring list" where
  "write_rings f32 nf minute p rings =
    (let t1 = put_ring f32 (tier_len 0) minute (Some p) (rings ! 0) in
     map (\<lambda>t. if t = 0 then t1
              else let b = minute div tier_step t in
                put_ring f32 (tier_len t) b (summarize (bucket nf (tier_step t) b t1)) (rings ! t)) [0..<length rings])"

definition write_file :: "(rat \<Rightarrow> rat) \<Rightarrow> nat \<times> nat \<Rightarrow> int \<Rightarrow> point \<Rightarrow> sfile option \<Rightarrow> sfile" where
  "write_file f32 shape minute p f0 =
    (let f = (case f0 of None \<Rightarrow> create_file shape | Some x \<Rightarrow> if sound_file x shape then x else create_file shape) in
     case f of Sound nf rings \<Rightarrow> Sound nf (write_rings f32 nf minute p rings) | Torn l \<Rightarrow> Torn l)"

section \<open>The store\<close>

definition dir_of :: "string \<Rightarrow> hist \<Rightarrow> (string \<times> sfile) list" where
  "dir_of node s = (case map_of (hs_disk s) node of None \<Rightarrow> [] | Some d \<Rightarrow> d)"

definition namesOf :: "string \<Rightarrow> hist \<Rightarrow> string list \<times> bool" where
  "namesOf node s = (case map_of (hs_known s) node of Some k \<Rightarrow> k | None \<Rightarrow> (map fst (dir_of node s), False))"

definition set_known :: "string \<Rightarrow> string list \<times> bool \<Rightarrow> hist \<Rightarrow> hist" where
  "set_known node k s = s\<lparr>hs_known := AList.update node k (hs_known s)\<rparr>"

text \<open>May the node take the series? With the names remembered, and that the cap was reached.\<close>

definition admit :: "(string \<Rightarrow> string) \<Rightarrow> nat \<Rightarrow> string \<Rightarrow> string \<Rightarrow> hist \<Rightarrow> bool \<times> hist" where
  "admit hsh mx node name s =
    (let k = namesOf node s in
     if fileOf hsh name \<in> set (fst k) \<or> length (fst k) < mx then (True, set_known node k s)
     else (False, set_known node (fst k, True) s))"

definition writeMinute :: "(string \<Rightarrow> string) \<Rightarrow> (rat \<Rightarrow> rat) \<Rightarrow> nat \<Rightarrow> string \<Rightarrow> string \<Rightarrow> int \<Rightarrow> point \<Rightarrow> hist \<Rightarrow> hist" where
  "writeMinute hsh f32 mx node name minute p s =
    (case admit hsh mx node name s of
       (False, s1) \<Rightarrow> s1
     | (True, s1) \<Rightarrow>
         let f = fileOf hsh name; d = dir_of node s1; k = namesOf node s1;
             s2 = s1\<lparr>hs_disk := AList.update node (AList.update f (write_file f32 (shapeOf name) minute p (map_of d f)) d) (hs_disk s1)\<rparr> in
         set_known node (if f \<in> set (fst k) then fst k else fst k @ [f], snd k) s2)"

definition close_minute :: "(string \<Rightarrow> string) \<Rightarrow> (rat \<Rightarrow> rat) \<Rightarrow> nat \<Rightarrow> string \<Rightarrow> cur_min \<Rightarrow> hist \<Rightarrow> hist" where
  "close_minute hsh f32 mx key c s =
    writeMinute hsh f32 mx (take 12 key) (drop 13 key) (cm_minute c) (cm_sum c / of_nat (cm_n c), cm_min c, cm_max c) s"

definition add_value :: "cur_min \<Rightarrow> rat \<Rightarrow> cur_min" where
  "add_value c v = c\<lparr>cm_sum := cm_sum c + v, cm_n := cm_n c + 1, cm_min := min (cm_min c) v, cm_max := max (cm_max c) v\<rparr>"

definition open_set :: "string \<Rightarrow> cur_min \<Rightarrow> hist \<Rightarrow> hist" where
  "open_set key c s = s\<lparr>hs_open := AList.update key c (hs_open s)\<rparr>"

definition add_one :: "(string \<Rightarrow> string) \<Rightarrow> (rat \<Rightarrow> rat) \<Rightarrow> nat \<Rightarrow> string \<Rightarrow> int \<Rightarrow> hist \<Rightarrow> string \<times> rat \<Rightarrow> hist" where
  "add_one hsh f32 mx node minute s nv =
    (let name = fst nv; v = snd nv; key = node @ '' '' @ name in
     case map_of (hs_open s) key of
       Some c \<Rightarrow>
         if cm_minute c = minute then open_set key (add_value c v) s
         else (case admit hsh mx node name (close_minute hsh f32 mx key c s) of
             (False, s2) \<Rightarrow> s2
           | (True, s2) \<Rightarrow> open_set key (add_value \<lparr>cm_minute = minute, cm_sum = 0, cm_n = 0, cm_min = v, cm_max = v\<rparr> v) s2)
     | None \<Rightarrow> (case admit hsh mx node name s of
             (False, s2) \<Rightarrow> s2
           | (True, s2) \<Rightarrow> open_set key (add_value \<lparr>cm_minute = minute, cm_sum = 0, cm_n = 0, cm_min = v, cm_max = v\<rparr> v) s2))"

definition add_values :: "(string \<Rightarrow> string) \<Rightarrow> (rat \<Rightarrow> rat) \<Rightarrow> nat \<Rightarrow> string \<Rightarrow> (string \<times> rat) list \<Rightarrow> ms \<Rightarrow> hist \<Rightarrow> hist" where
  "add_values hsh f32 mx node values t s =
    (if \<not> is_node_id node then s else foldl (add_one hsh f32 mx node (t div 60000)) s values)"

definition flush_one :: "(string \<Rightarrow> string) \<Rightarrow> (rat \<Rightarrow> rat) \<Rightarrow> nat \<Rightarrow> int \<Rightarrow> hist \<Rightarrow> string \<times> cur_min \<Rightarrow> hist" where
  "flush_one hsh f32 mx minute s kc =
    (let s1 = close_minute hsh f32 mx (fst kc) (snd kc) s in
     if cm_minute (snd kc) < minute then s1\<lparr>hs_open := AList.delete (fst kc) (hs_open s1)\<rparr> else s1)"

definition flush :: "(string \<Rightarrow> string) \<Rightarrow> (rat \<Rightarrow> rat) \<Rightarrow> nat \<Rightarrow> ms \<Rightarrow> hist \<Rightarrow> hist" where
  "flush hsh f32 mx t s = foldl (flush_one hsh f32 mx (t div 60000)) s (hs_open s)"

definition key_of_node :: "string \<Rightarrow> string \<Rightarrow> bool" where
  "key_of_node node key = starts_with (node @ '' '') key"

definition removeNode :: "string \<Rightarrow> hist \<Rightarrow> hist" where
  "removeNode node s =
    (if \<not> is_node_id node then s
     else s\<lparr>hs_open := filter (\<lambda>kc. \<not> key_of_node node (fst kc)) (hs_open s), hs_known := AList.delete node (hs_known s),
            hs_disk := AList.delete node (hs_disk s)\<rparr>)"

text \<open>What a reader finds as the last index of the first tier.\<close>

definition head_last :: "sfile \<Rightarrow> int" where
  "head_last f = (case f of Torn l \<Rightarrow> l | Sound _ rings \<Rightarrow> (case rings of [] \<Rightarrow> -1 | r # _ \<Rightarrow> rg_last r))"

definition sweep_dir :: "int \<Rightarrow> hist \<Rightarrow> string \<Rightarrow> hist" where
  "sweep_dir minute s node =
    (let gone = map fst (filter (\<lambda>nf. minute - head_last (snd nf) > SWEEP_MIN) (dir_of node s));
         s1 = s\<lparr>hs_disk := AList.update node (filter (\<lambda>nf. fst nf \<notin> set gone) (dir_of node s)) (hs_disk s)\<rparr> in
     case map_of (hs_known s1) node of
       None \<Rightarrow> s1
     | Some k \<Rightarrow> set_known node (filter (\<lambda>f. f \<notin> set gone) (fst k), snd k) s1)"

definition sweep_history :: "string list option \<Rightarrow> ms \<Rightarrow> hist \<Rightarrow> hist" where
  "sweep_history alive t s =
    foldl (\<lambda>s node. if (case alive of None \<Rightarrow> False | Some l \<Rightarrow> node \<notin> set l) then removeNode node s
                    else sweep_dir (t div 60000) s node) s (filter is_node_id (map fst (hs_disk s)))"

text \<open>A range of a series: for each index its time in seconds and its point, rounded to thousandths.\<close>

definition round3 :: "rat \<Rightarrow> rat" where
  "round3 x = of_int (js_round (x * 1000)) / 1000"

definition query_point :: "nat \<Rightarrow> nat \<Rightarrow> cur_min option \<Rightarrow> ring option \<Rightarrow> int \<Rightarrow> point option" where
  "query_point nf tier c r i =
    (if tier = 0 \<and> (case c of Some x \<Rightarrow> cm_minute x = i | None \<Rightarrow> False)
     then (case c of Some x \<Rightarrow> (let avg = cm_sum x / of_nat (cm_n x) in
             Some (if nf = 3 then (avg, cm_min x, cm_max x) else (avg, avg, avg))) | None \<Rightarrow> None)
     else (case r of
         None \<Rightarrow> None
       | Some rg \<Rightarrow> if rg_last rg \<ge> 0 \<and> i \<le> rg_last rg \<and> i > rg_last rg - int (tier_len tier)
                    then readPoint nf (tier_len tier) i rg else None))"

text \<open>The file of a series; a torn or foreign one answers like a missing one.\<close>

definition read_sound :: "(string \<Rightarrow> string) \<Rightarrow> string \<Rightarrow> string \<Rightarrow> hist \<Rightarrow> sfile option" where
  "read_sound hsh node name s = (case map_of (dir_of node s) (fileOf hsh name) of
      Some f \<Rightarrow> if sound_file f (shapeOf name) then Some f else None | None \<Rightarrow> None)"

definition tier_of :: "nat \<Rightarrow> sfile option \<Rightarrow> ring option" where
  "tier_of tier file = (case file of Some (Sound _ rings) \<Rightarrow> Some (rings ! tier) | _ \<Rightarrow> None)"

definition query :: "(string \<Rightarrow> string) \<Rightarrow> string \<Rightarrow> string \<Rightarrow> string \<Rightarrow> ms \<Rightarrow> hist \<Rightarrow> (int \<times> (int \<times> point option) list) option" where
  "query hsh node name rng t s =
    (case (if is_node_id node then map_of RANGES rng else None) of
       None \<Rightarrow> None
     | Some (tier, count) \<Rightarrow>
         let shape = shapeOf name; c = map_of (hs_open s) (node @ '' '' @ name);
             file = read_sound hsh node name s; r = tier_of tier file;
             step = tier_step tier; e = t div 60000 div step in
         if tier \<ge> fst shape \<or> (file = None \<and> c = None) then None
         else Some (step * 60, map (\<lambda>k. let i = e - count + 1 + int k in
           (i * step * 60000 div 1000,
            map_option (\<lambda>(a, lo, hi). (round3 a, round3 lo, round3 hi)) (query_point (snd shape) tier c r i))) [0..<nat count]))"

section \<open>A tier as a window of time\<close>

text \<open>What a tier says of each index, and what writing one means for it.\<close>

definition ring_at :: "nat \<Rightarrow> ring \<Rightarrow> int \<Rightarrow> point option" where
  "ring_at len r i = (if rg_last r \<ge> 0 \<and> i \<le> rg_last r \<and> i > rg_last r - int len then rg_slots r ! slot_of len i else None)"

definition window_put :: "nat \<Rightarrow> int \<Rightarrow> point option \<Rightarrow> int \<times> (int \<Rightarrow> point option) \<Rightarrow> int \<times> (int \<Rightarrow> point option)" where
  "window_put len idx p lw = (case lw of (l, w) \<Rightarrow>
     if l \<ge> 0 \<and> idx \<le> l - int len then (idx, (\<lambda>i. if i = idx then p else None))
     else (max l idx, (\<lambda>i. if i = idx then p else if i > max l idx - int len then w i else None)))"

definition ring_abs :: "nat \<Rightarrow> ring \<Rightarrow> int \<times> (int \<Rightarrow> point option)" where
  "ring_abs len r = (rg_last r, ring_at len r)"

definition ring_ok :: "nat \<Rightarrow> ring \<Rightarrow> bool" where
  "ring_ok len r \<longleftrightarrow> length (rg_slots r) = len \<and> rg_last r \<ge> -1 \<and> (rg_last r = -1 \<longrightarrow> rg_slots r = replicate len None)"

lemma write_gaps_length [simp]: "slot + run \<le> length xs \<Longrightarrow> length (write_gaps slot run xs) = length xs"
  by (simp add: write_gaps_def)

lemma write_gaps_nth:
  "slot + run \<le> length xs \<Longrightarrow> j < length xs \<Longrightarrow> write_gaps slot run xs ! j = (if slot \<le> j \<and> j < slot + run then None else xs ! j)"
  by (auto simp: write_gaps_def nth_append min_def)

locale ring_tier =
  fixes len :: nat
  assumes len_pos: "0 < len"
begin

lemma slot_less: "slot_of len i < len"
  using len_pos by (simp add: slot_of_def nat_less_iff)

lemma slot_int: "int (slot_of len i) = i mod int len"
  using len_pos by (simp add: slot_of_def)

lemma slot_add: "slot_of len i + d < len \<Longrightarrow> slot_of len (i + int d) = slot_of len i + d"
proof -
  assume a: "slot_of len i + d < len"
  have "(i + int d) mod int len = (i mod int len + int d) mod int len" by (simp add: mod_simps)
  also have "\<dots> = int (slot_of len i + d) mod int len" by (simp add: slot_int)
  also have "\<dots> = int (slot_of len i + d)" using a by (intro mod_pos_pos_trivial) simp_all
  finally have "int (slot_of len (i + int d)) = int (slot_of len i + d)" by (simp only: slot_int)
  then show ?thesis by (simp only: of_nat_eq_iff)
qed

lemma slot_inj:
  assumes "slot_of len i = slot_of len j" "\<bar>i - j\<bar> < int len"
  shows "i = j"
proof -
  have "i mod int len = j mod int len" using assms(1) slot_int by metis
  then have "int len dvd i - j" by (simp add: mod_eq_dvd_iff)
  then show ?thesis using assms(2) dvd_imp_le_int [of "i - j" "int len"] by fastforce
qed

lemma slot_run:
  assumes "run \<le> len - slot_of len i"
  shows "(\<exists>k. i \<le> k \<and> k < i + int run \<and> slot_of len k = j) \<longleftrightarrow> slot_of len i \<le> j \<and> j < slot_of len i + run"
proof
  assume "\<exists>k. i \<le> k \<and> k < i + int run \<and> slot_of len k = j"
  then obtain k where k: "i \<le> k" "k < i + int run" "slot_of len k = j" by blast
  have "slot_of len (i + int (nat (k - i))) = slot_of len i + nat (k - i)"
    using k assms slot_less [of i] by (intro slot_add) linarith
  then show "slot_of len i \<le> j \<and> j < slot_of len i + run" using k by simp
next
  assume j: "slot_of len i \<le> j \<and> j < slot_of len i + run"
  have "slot_of len (i + int (j - slot_of len i)) = slot_of len i + (j - slot_of len i)"
    using j assms by (intro slot_add) linarith
  then show "\<exists>k. i \<le> k \<and> k < i + int run \<and> slot_of len k = j"
    using j by (intro exI [of _ "i + int (j - slot_of len i)"]) auto
qed

lemma fill_loop_spec:
  "length xs = len \<Longrightarrow> j < len \<Longrightarrow>
   length (fill_loop len i til xs) = len \<and>
   fill_loop len i til xs ! j = (if \<exists>k. i \<le> k \<and> k < til \<and> slot_of len k = j then None else xs ! j)"
proof (induction "nat (til - i)" arbitrary: i xs rule: less_induct)
  case less
  show ?case
  proof (cases "i \<ge> til")
    case True
    then show ?thesis using less.prems by (auto simp: fill_loop.simps [of len i til xs])
  next
    case False
    define slot run where "slot = slot_of len i" and "run = min (nat (til - i)) (len - slot)"
    have sl: "slot < len" unfolding slot_def by (rule slot_less)
    then have r: "0 < run" "run \<le> len - slot" "int run \<le> til - i" using False by (auto simp: run_def)
    have eq: "fill_loop len i til xs = fill_loop len (i + int run) til (write_gaps slot run xs)"
      using False len_pos by (subst fill_loop.simps) (simp add: Let_def slot_def run_def)
    have IH: "length (fill_loop len (i + int run) til (write_gaps slot run xs)) = len \<and>
      fill_loop len (i + int run) til (write_gaps slot run xs) ! j =
        (if \<exists>k. i + int run \<le> k \<and> k < til \<and> slot_of len k = j then None else write_gaps slot run xs ! j)"
      using less.prems r sl False by (intro less.hyps) auto
    have w: "write_gaps slot run xs ! j = (if \<exists>k. i \<le> k \<and> k < i + int run \<and> slot_of len k = j then None else xs ! j)"
      using write_gaps_nth [of slot run xs j] slot_run [of run i j] r(2) sl less.prems by (simp add: slot_def)
    have "(\<exists>k. i \<le> k \<and> k < til \<and> slot_of len k = j) \<longleftrightarrow>
      (\<exists>k. i + int run \<le> k \<and> k < til \<and> slot_of len k = j) \<or> (\<exists>k. i \<le> k \<and> k < i + int run \<and> slot_of len k = j)"
      (is "?A \<longleftrightarrow> ?B \<or> ?C")
    proof
      assume ?A
      then obtain k where k: "i \<le> k" "k < til" "slot_of len k = j" by blast
      show "?B \<or> ?C"
      proof (cases "k < i + int run")
        case True
        then show ?thesis using k by blast
      next
        case False
        then have "i + int run \<le> k" by simp
        then show ?thesis using k by blast
      qed
    next
      assume "?B \<or> ?C"
      then show ?A
      proof
        assume ?B
        then obtain k where "i + int run \<le> k" "k < til" "slot_of len k = j" by blast
        then show ?A using r(1) by (intro exI [of _ k]) auto
      next
        assume ?C
        then obtain k where "i \<le> k" "k < i + int run" "slot_of len k = j" by blast
        then show ?A using r(3) by (intro exI [of _ k]) auto
      qed
    qed
    then show ?thesis using IH w unfolding eq by auto
  qed
qed

lemma fill_length: "length xs = len \<Longrightarrow> length (fillGaps len from til xs) = len"
  unfolding fillGaps_def using fill_loop_spec [of xs 0] len_pos by blast

text \<open>Within one ring's length of an index, exactly the indices of the gap read as gaps.\<close>

lemma fillGaps_nth:
  assumes "length xs = len" "til - int len < i" "i < til"
  shows "fillGaps len from til xs ! slot_of len i = (if from \<le> i then None else xs ! slot_of len i)"
proof -
  have eq: "(\<exists>k. max from (til - int len) \<le> k \<and> k < til \<and> slot_of len k = slot_of len i) \<longleftrightarrow> from \<le> i"
  proof
    assume "\<exists>k. max from (til - int len) \<le> k \<and> k < til \<and> slot_of len k = slot_of len i"
    then obtain k where k: "from \<le> k" "til - int len \<le> k" "k < til" "slot_of len k = slot_of len i" by auto
    have "k = i" using k assms by (intro slot_inj) auto
    then show "from \<le> i" using k by simp
  qed (use assms in \<open>auto intro!: exI [of _ i]\<close>)
  show ?thesis unfolding fillGaps_def using fill_loop_spec [OF assms(1) slot_less [of i]] eq by auto
qed

lemma fillGaps_all:
  assumes "length xs = len" "j < len"
  shows "fillGaps len 0 (int len) xs ! j = None"
proof -
  have "slot_of len (int j) = j" using assms(2) by (simp add: slot_of_def)
  then have "\<exists>k. max 0 (int len - int len) \<le> k \<and> k < int len \<and> slot_of len k = j"
    using assms(2) by (intro exI [of _ "int j"]) auto
  then show ?thesis unfolding fillGaps_def using fill_loop_spec [OF assms, of "max 0 (int len - int len)" "int len"] by simp
qed

lemma update_at:
  assumes "length xs = len" "\<bar>i - idx\<bar> < int len"
  shows "xs[slot_of len idx := p] ! slot_of len i = (if i = idx then p else xs ! slot_of len i)"
  using assms slot_less slot_inj [of i idx] by (auto simp: nth_list_update)

text \<open>The three ways a write goes: the ring starts over, it moves on (with a gap), it writes into the window.\<close>

lemma put_over:
  assumes "ring_ok len r" "0 \<le> rg_last r" "idx \<le> rg_last r - int len" "0 \<le> idx"
  shows "ring_abs len (put_ring f32 len idx p r) = window_put len idx (map_option (round_point f32) p) (ring_abs len r)"
proof -
  let ?xs = "fillGaps len 0 (int len) (rg_slots r)"
  have len: "length ?xs = len" using assms by (intro fill_length) (simp add: ring_ok_def)
  have r: "put_ring f32 len idx p r = \<lparr>rg_last = idx, rg_slots = ?xs[slot_of len idx := map_option (round_point f32) p]\<rparr>"
    using assms by (simp add: put_ring_def writePoint_def Let_def)
  have "?xs ! slot_of len i = None" for i
    using assms slot_less by (intro fillGaps_all) (simp_all add: ring_ok_def)
  then show ?thesis using assms len len_pos
    by (auto simp: r ring_abs_def window_put_def ring_at_def update_at fun_eq_iff)
qed

lemma put_first:
  assumes "ring_ok len r" "rg_last r = -1" "0 \<le> idx"
  shows "ring_abs len (put_ring f32 len idx p r) = window_put len idx (map_option (round_point f32) p) (ring_abs len r)"
proof -
  have r: "put_ring f32 len idx p r = \<lparr>rg_last = idx, rg_slots = (replicate len None)[slot_of len idx := map_option (round_point f32) p]\<rparr>"
    using assms by (simp add: put_ring_def writePoint_def Let_def ring_ok_def)
  show ?thesis using assms len_pos slot_less
    by (auto simp: r ring_abs_def window_put_def ring_at_def update_at fun_eq_iff)
qed

lemma put_on:
  assumes "ring_ok len r" "0 \<le> rg_last r" "rg_last r < idx"
  shows "ring_abs len (put_ring f32 len idx p r) = window_put len idx (map_option (round_point f32) p) (ring_abs len r)"
proof -
  define xs where "xs = (if idx > rg_last r + 1 then fillGaps len (rg_last r + 1) idx (rg_slots r) else rg_slots r)"
  have len: "length xs = len" using assms by (simp add: xs_def ring_ok_def fill_length)
  have r: "put_ring f32 len idx p r = \<lparr>rg_last = idx, rg_slots = xs[slot_of len idx := map_option (round_point f32) p]\<rparr>"
    using assms by (simp add: put_ring_def writePoint_def Let_def xs_def)
  have "xs ! slot_of len i = ring_at len r i" if "idx - int len < i" "i < idx" for i
  proof (cases "idx > rg_last r + 1")
    case True
    have "xs ! slot_of len i = (if rg_last r + 1 \<le> i then None else rg_slots r ! slot_of len i)"
      using that True assms unfolding xs_def by (simp add: fillGaps_nth ring_ok_def)
    then show ?thesis using that assms by (simp add: ring_at_def)
  next
    case False
    then show ?thesis using that assms by (simp add: xs_def ring_at_def)
  qed
  then show ?thesis using assms len len_pos
    by (auto simp: r ring_abs_def window_put_def ring_at_def update_at fun_eq_iff)
qed

lemma put_into:
  assumes "ring_ok len r" "idx \<le> rg_last r" "rg_last r - int len < idx" "0 \<le> idx"
  shows "ring_abs len (put_ring f32 len idx p r) = window_put len idx (map_option (round_point f32) p) (ring_abs len r)"
proof -
  have r: "put_ring f32 len idx p r = \<lparr>rg_last = rg_last r, rg_slots = (rg_slots r)[slot_of len idx := map_option (round_point f32) p]\<rparr>"
    using assms by (simp add: put_ring_def writePoint_def Let_def)
  have "length (rg_slots r) = len" using assms by (simp add: ring_ok_def)
  then show ?thesis using assms len_pos
    by (auto simp: r ring_abs_def window_put_def ring_at_def update_at fun_eq_iff)
qed

lemma put_refines:
  assumes "ring_ok len r" "0 \<le> idx"
  shows "ring_abs len (put_ring f32 len idx p r) = window_put len idx (map_option (round_point f32) p) (ring_abs len r)"
proof -
  have "rg_last r \<ge> -1" using assms by (simp add: ring_ok_def)
  then consider "0 \<le> rg_last r" "idx \<le> rg_last r - int len" | "rg_last r = -1" | "0 \<le> rg_last r" "rg_last r < idx"
    | "idx \<le> rg_last r" "rg_last r - int len < idx" by linarith
  then show ?thesis by cases (simp_all add: assms put_over put_first put_on put_into)
qed

lemma put_ok: "ring_ok len r \<Longrightarrow> 0 \<le> idx \<Longrightarrow> ring_ok len (put_ring f32 len idx p r)"
  by (auto simp: ring_ok_def put_ring_def writePoint_def Let_def fill_length)

end

interpretation t1: ring_tier 1440
  by unfold_locales simp

interpretation t2: ring_tier 1008
  by unfold_locales simp

interpretation t3: ring_tier 2160
  by unfold_locales simp

lemma tier_len_simps: "tier_len 0 = 1440" "tier_len (Suc 0) = 1008" "tier_len 2 = 2160"
  by (simp_all add: tier_len_def TIERS_def)

lemma less3_cases: "(t::nat) < 3 \<Longrightarrow> t = 0 \<or> t = Suc 0 \<or> t = 2"
  by auto

lemma tier_put_refines:
  "t < 3 \<Longrightarrow> ring_ok (tier_len t) r \<Longrightarrow> 0 \<le> idx \<Longrightarrow>
   ring_abs (tier_len t) (put_ring f32 (tier_len t) idx p r) =
     window_put (tier_len t) idx (map_option (round_point f32) p) (ring_abs (tier_len t) r)"
  using less3_cases [of t] t1.put_refines t2.put_refines t3.put_refines by (auto simp: tier_len_simps)

lemma tier_put_ok:
  "t < 3 \<Longrightarrow> ring_ok (tier_len t) r \<Longrightarrow> 0 \<le> idx \<Longrightarrow> ring_ok (tier_len t) (put_ring f32 (tier_len t) idx p r)"
  using less3_cases [of t] t1.put_ok t2.put_ok t3.put_ok by (auto simp: tier_len_simps)

lemma new_ring_ok: "ring_ok len (new_ring len)"
  by (simp add: ring_ok_def new_ring_def)

lemma new_ring_abs: "ring_abs len (new_ring len) = (-1, \<lambda>_. None)"
  by (simp add: ring_abs_def new_ring_def ring_at_def fun_eq_iff)

text \<open>A run of writes on a tier, and on the window it stands for.\<close>

definition ring_run :: "(rat \<Rightarrow> rat) \<Rightarrow> nat \<Rightarrow> (int \<times> point option) list \<Rightarrow> ring \<Rightarrow> ring" where
  "ring_run f32 len ws r = foldl (\<lambda>r w. put_ring f32 len (fst w) (snd w) r) r ws"

definition window_run :: "(rat \<Rightarrow> rat) \<Rightarrow> nat \<Rightarrow> (int \<times> point option) list \<Rightarrow> int \<times> (int \<Rightarrow> point option) \<Rightarrow> int \<times> (int \<Rightarrow> point option)" where
  "window_run f32 len ws x = foldl (\<lambda>x w. window_put len (fst w) (map_option (round_point f32) (snd w)) x) x ws"

lemma ring_run_refines:
  "t < 3 \<Longrightarrow> ring_ok (tier_len t) r \<Longrightarrow> \<forall>w\<in>set ws. 0 \<le> fst w \<Longrightarrow>
   ring_abs (tier_len t) (ring_run f32 (tier_len t) ws r) = window_run f32 (tier_len t) ws (ring_abs (tier_len t) r)"
  by (induction ws arbitrary: r) (simp_all add: ring_run_def window_run_def tier_put_refines tier_put_ok)

section \<open>Points keep their order\<close>

definition point_ok :: "point \<Rightarrow> bool" where
  "point_ok p \<longleftrightarrow> fst (snd p) \<le> fst p \<and> fst p \<le> snd (snd p)"

definition slots_ok :: "point option list \<Rightarrow> bool" where
  "slots_ok xs \<longleftrightarrow> (\<forall>p. Some p \<in> set xs \<longrightarrow> point_ok p)"

definition cur_ok :: "cur_min \<Rightarrow> bool" where
  "cur_ok c \<longleftrightarrow> 0 \<le> cm_minute c \<and> 0 < cm_n c \<and> cm_min c * of_nat (cm_n c) \<le> cm_sum c \<and> cm_sum c \<le> cm_max c * of_nat (cm_n c)"

definition file_ok :: "sfile \<Rightarrow> bool" where
  "file_ok f = (case f of Torn _ \<Rightarrow> True
     | Sound nf rings \<Rightarrow> length rings \<le> 3 \<and> (\<forall>t < length rings. ring_ok (tier_len t) (rings ! t) \<and> slots_ok (rg_slots (rings ! t))))"

lemma round_point_ok: "mono f32 \<Longrightarrow> point_ok p \<Longrightarrow> point_ok (round_point f32 p)"
  by (auto simp: point_ok_def round_point_def mono_def split: prod.splits)

lemma set_write_gaps: "set (write_gaps slot run xs) \<subseteq> insert None (set xs)"
  by (auto simp: write_gaps_def dest: in_set_takeD in_set_dropD)

lemma set_fill_loop: "set (fill_loop len i til xs) \<subseteq> insert None (set xs)"
proof (induction len i til xs rule: fill_loop.induct)
  case (1 len i til xs)
  show ?case
  proof (cases "len = 0 \<or> i \<ge> til")
    case True
    then show ?thesis by (subst fill_loop.simps) auto
  next
    case False
    then show ?thesis using "1.IH" [OF False refl refl] set_write_gaps [of "slot_of len i" "min (nat (til - i)) (len - slot_of len i)" xs]
      by (subst fill_loop.simps) (auto simp: Let_def)
  qed
qed

lemma slots_ok_fill: "slots_ok xs \<Longrightarrow> slots_ok (fillGaps len from til xs)"
  using set_fill_loop unfolding slots_ok_def fillGaps_def by blast

lemma slots_ok_put:
  assumes "mono f32" "slots_ok (rg_slots r)" "\<And>q. p = Some q \<Longrightarrow> point_ok q"
  shows "slots_ok (rg_slots (put_ring f32 len idx p r))"
proof -
  have w: "slots_ok (writePoint f32 len idx p xs)" if "slots_ok xs" for xs
    unfolding slots_ok_def writePoint_def
  proof (intro allI impI)
    fix q
    assume "Some q \<in> set (xs[slot_of len idx := map_option (round_point f32) p])"
    then have "Some q = map_option (round_point f32) p \<or> Some q \<in> set xs"
      using set_update_subset_insert by fastforce
    then show "point_ok q" using that assms(1,3) round_point_ok unfolding slots_ok_def
      by (cases p) (metis map_option_case option.simps)+
  qed
  show ?thesis using assms(2) by (auto simp: put_ring_def Let_def intro!: w slots_ok_fill)
qed

lemma readPoint_ok:
  assumes "slots_ok (rg_slots r)" "slot_of len i < length (rg_slots r)" "readPoint nf len i r = Some p"
  shows "point_ok p"
proof -
  obtain q where q: "rg_slots r ! slot_of len i = Some q" using assms(3) by (auto simp: readPoint_def split: option.splits)
  then have "point_ok q" using assms(1) nth_mem [OF assms(2)] unfolding slots_ok_def by metis
  then show ?thesis using assms(3) q by (auto simp: readPoint_def point_ok_def split: if_splits prod.splits)
qed

lemma sum_le_bound: "(\<And>x. x \<in> set ps \<Longrightarrow> f x \<le> (h::rat)) \<Longrightarrow> sum_list (map f ps) \<le> of_nat (length ps) * h"
  by (induction ps) (auto simp: algebra_simps intro: add_mono)

lemma sum_ge_bound: "(\<And>x. x \<in> set ps \<Longrightarrow> (l::rat) \<le> f x) \<Longrightarrow> of_nat (length ps) * l \<le> sum_list (map f ps)"
  by (induction ps) (auto simp: algebra_simps intro: add_mono)

lemma summarize_ok:
  assumes "\<And>p. p \<in> set ps \<Longrightarrow> point_ok p" "summarize ps = Some q"
  shows "point_ok q"
proof -
  have ne: "ps \<noteq> []" using assms(2) by (auto simp: summarize_def split: if_splits)
  let ?lo = "Min (set (map (fst \<circ> snd) ps))" and ?hi = "Max (set (map (snd \<circ> snd) ps))" and ?n = "of_nat (length ps) :: rat"
  have n: "0 < ?n" using ne by simp
  have "?lo \<le> fst p" "fst p \<le> ?hi" if "p \<in> set ps" for p
  proof -
    have "?lo \<le> (fst \<circ> snd) p" "(snd \<circ> snd) p \<le> ?hi" using that by auto
    then show "?lo \<le> fst p" "fst p \<le> ?hi" using assms(1) [OF that] by (auto simp: point_ok_def)
  qed
  then have "?n * ?lo \<le> sum_list (map fst ps)" "sum_list (map fst ps) \<le> ?n * ?hi"
    by (auto intro!: sum_ge_bound sum_le_bound simp del: set_map)
  then have "?lo \<le> sum_list (map fst ps) / ?n" "sum_list (map fst ps) / ?n \<le> ?hi"
    using n by (simp_all add: field_simps)
  then show ?thesis using assms(2) ne by (auto simp: summarize_def point_ok_def)
qed

lemma bucket_ok:
  assumes "ring_ok (tier_len 0) t1" "slots_ok (rg_slots t1)" "p \<in> set (bucket nf step b t1)"
  shows "point_ok p"
proof -
  obtain m where "readPoint nf (tier_len 0) m t1 = Some p"
    using assms(3) by (auto simp: bucket_def List.map_filter_def split: if_splits)
  moreover have "slot_of (tier_len 0) m < length (rg_slots t1)"
    using assms(1) t1.slot_less by (simp add: ring_ok_def tier_len_simps)
  ultimately show ?thesis using assms(2) by (intro readPoint_ok)
qed

lemma write_rings_ok:
  assumes "mono f32" "0 \<le> minute" "point_ok p" "file_ok (Sound nf rings)" "rings \<noteq> []"
  shows "file_ok (Sound nf (write_rings f32 nf minute p rings))"
proof -
  let ?t1 = "put_ring f32 (tier_len 0) minute (Some p) (rings ! 0)"
  have old: "ring_ok (tier_len t) (rings ! t)" "slots_ok (rg_slots (rings ! t))" "t < 3" if "t < length rings" for t
    using assms(4) that by (auto simp: file_ok_def)
  have t1: "ring_ok (tier_len 0) ?t1" "slots_ok (rg_slots ?t1)"
    using old [of 0] assms by (auto intro!: tier_put_ok slots_ok_put)
  have step: "0 \<le> minute div tier_step t" if "t < 3" for t
    using less3_cases [OF that] assms(2) by (auto simp: tier_step_def TIERS_def pos_imp_zdiv_nonneg_iff)
  have "ring_ok (tier_len t) (write_rings f32 nf minute p rings ! t) \<and> slots_ok (rg_slots (write_rings f32 nf minute p rings ! t))"
    if t: "t < length rings" for t
  proof (cases "t = 0")
    case True
    then show ?thesis using t1 t by (simp add: write_rings_def Let_def)
  next
    case False
    let ?b = "minute div tier_step t"
    have w: "write_rings f32 nf minute p rings ! t = put_ring f32 (tier_len t) ?b (summarize (bucket nf (tier_step t) ?b ?t1)) (rings ! t)"
      using False t by (simp add: write_rings_def Let_def)
    show ?thesis unfolding w using old [OF t] step t1 assms(1)
      by (auto intro!: tier_put_ok slots_ok_put elim!: summarize_ok [rotated] intro: bucket_ok)
  qed
  then show ?thesis using assms(4) by (simp add: file_ok_def write_rings_def Let_def)
qed

lemma create_ok: "fst shape \<le> 3 \<Longrightarrow> file_ok (create_file shape)"
  by (auto simp: create_file_def file_ok_def new_ring_ok) (simp add: new_ring_def slots_ok_def)

lemma write_file_ok:
  assumes "mono f32" "0 \<le> minute" "point_ok p" "\<And>f. f0 = Some f \<Longrightarrow> file_ok f"
  shows "file_ok (write_file f32 (shapeOf name) minute p f0)"
proof -
  define f where "f = (case f0 of None \<Rightarrow> create_file (shapeOf name) | Some x \<Rightarrow> if sound_file x (shapeOf name) then x else create_file (shapeOf name))"
  have sh: "0 < fst (shapeOf name)" "fst (shapeOf name) \<le> 3" by (simp_all add: shapeOf_def)
  have "file_ok f" using assms(4) create_ok [OF sh(2)] by (auto simp: f_def split: option.splits)
  moreover obtain nf rings where f: "f = Sound nf rings" "rings \<noteq> []"
    using sh(1) by (fastforce simp: f_def create_file_def sound_file_def split: option.splits if_splits sfile.splits)
  ultimately show ?thesis using assms(1-3) by (simp add: write_file_def Let_def f_def [symmetric] write_rings_ok)
qed

section \<open>The store as a machine\<close>

text \<open>
  What happens to a store: the operations the hub calls (times as naturals: the clock is past 1970), the
  process starting again (what was in memory is gone) and a file left torn by a crash or a full disk.
\<close>

datatype hop =
    HAdd string "(string \<times> rat) list" nat
  | HFlush nat
  | HRemove string
  | HSweep "string list option" nat
  | HRestart
  | HTear string string int

definition tear :: "string \<Rightarrow> string \<Rightarrow> int \<Rightarrow> hist \<Rightarrow> hist" where
  "tear node f l s = s\<lparr>hs_disk := map (\<lambda>nd. if fst nd = node
     then (node, map (\<lambda>nf. if fst nf = f then (f, Torn l) else nf) (snd nd)) else nd) (hs_disk s)\<rparr>"

fun hstep :: "(string \<Rightarrow> string) \<Rightarrow> (rat \<Rightarrow> rat) \<Rightarrow> nat \<Rightarrow> hist \<Rightarrow> hop \<Rightarrow> hist" where
  "hstep hsh f32 mx s (HAdd node values t) = add_values hsh f32 mx node values (int t) s"
| "hstep hsh f32 mx s (HFlush t) = flush hsh f32 mx (int t) s"
| "hstep hsh f32 mx s (HRemove node) = removeNode node s"
| "hstep hsh f32 mx s (HSweep alive t) = sweep_history alive (int t) s"
| "hstep hsh f32 mx s HRestart = s\<lparr>hs_open := [], hs_known := []\<rparr>"
| "hstep hsh f32 mx s (HTear node f l) = tear node f l s"

definition empty_hist :: hist where
  "empty_hist = \<lparr>hs_open = [], hs_known = [], hs_disk = []\<rparr>"

definition dir_ok :: "nat \<Rightarrow> (string \<times> sfile) list \<Rightarrow> bool" where
  "dir_ok mx d \<longleftrightarrow> length d \<le> mx \<and> list_all (\<lambda>nf. file_ok (snd nf)) d"

definition hist_inv :: "nat \<Rightarrow> hist \<Rightarrow> bool" where
  "hist_inv mx s \<longleftrightarrow>
    (\<forall>node. dir_ok mx (dir_of node s) \<and> (\<forall>k. map_of (hs_known s) node = Some k \<longrightarrow> fst k = map fst (dir_of node s))) \<and>
    list_all (\<lambda>kc. cur_ok (snd kc)) (hs_open s)"

lemma hist_invI:
  assumes "\<And>node. dir_ok mx (dir_of node s)"
    and "\<And>node k. map_of (hs_known s) node = Some k \<Longrightarrow> fst k = map fst (dir_of node s)"
    and "list_all (\<lambda>kc. cur_ok (snd kc)) (hs_open s)"
  shows "hist_inv mx s"
  using assms by (simp add: hist_inv_def)

lemma hist_invD:
  assumes "hist_inv mx s"
  shows "dir_ok mx (dir_of node s)" "map_of (hs_known s) node = Some k \<Longrightarrow> fst k = map fst (dir_of node s)"
    "list_all (\<lambda>kc. cur_ok (snd kc)) (hs_open s)"
  using assms unfolding hist_inv_def by blast+

lemma list_all_update: "list_all P m \<Longrightarrow> P (k, v) \<Longrightarrow> list_all P (AList.update k v m)"
  by (induction m) auto

lemma list_all_delete: "list_all P m \<Longrightarrow> list_all P (AList.delete k m)"
  using set_delete_subset [of k m] by (auto simp: list_all_iff)

lemma dir_of_simps [simp]:
  "dir_of node (s\<lparr>hs_known := k\<rparr>) = dir_of node s" "dir_of node (s\<lparr>hs_open := c\<rparr>) = dir_of node s"
  "dir_of node (s\<lparr>hs_disk := AList.update n d dk\<rparr>) = (if node = n then d else dir_of node (s\<lparr>hs_disk := dk\<rparr>))"
  by (simp_all add: dir_of_def)

lemma namesOf_dir: "hist_inv mx s \<Longrightarrow> fst (namesOf node s) = map fst (dir_of node s)"
  by (auto simp: namesOf_def hist_inv_def split: option.splits)

lemma set_known_inv: "hist_inv mx s \<Longrightarrow> fst k = map fst (dir_of node s) \<Longrightarrow> hist_inv mx (set_known node k s)"
  by (auto simp: hist_inv_def set_known_def split: if_splits)

lemma admit_cases:
  assumes "hist_inv mx s"
  obtains (yes) s1 where "admit hsh mx node name s = (True, s1)" "hist_inv mx s1" "hs_disk s1 = hs_disk s"
      "fileOf hsh name \<in> set (map fst (dir_of node s)) \<or> length (dir_of node s) < mx"
    | (no) s1 where "admit hsh mx node name s = (False, s1)" "hist_inv mx s1"
proof (cases "fst (admit hsh mx node name s)")
  case True
  then show ?thesis using assms namesOf_dir [OF assms, of node]
    by (intro yes [of "snd (admit hsh mx node name s)"])
      (auto simp: admit_def Let_def set_known_inv split: if_splits, auto simp: set_known_def)
next
  case False
  then show ?thesis using assms namesOf_dir [OF assms, of node]
    by (intro no [of "snd (admit hsh mx node name s)"]) (auto simp: admit_def Let_def set_known_inv split: if_splits)
qed

lemma keys_update: "map fst (AList.update k v m) = (if k \<in> set (map fst m) then map fst m else map fst m @ [k])"
  by (induction m) auto

lemma dir_ok_update:
  assumes "dir_ok mx d" "file_ok f" "k \<in> set (map fst d) \<or> length d < mx"
  shows "dir_ok mx (AList.update k f d)"
proof -
  have "length (AList.update k f d) = (if k \<in> set (map fst d) then length d else Suc (length d))"
    using arg_cong [OF keys_update [of k f d], of length] by (simp split: if_splits)
  then show ?thesis using assms by (auto simp: dir_ok_def list_all_update)
qed

lemma writeMinute_inv:
  assumes "mono f32" "hist_inv mx s" "0 \<le> minute" "point_ok p"
  shows "hist_inv mx (writeMinute hsh f32 mx node name minute p s)"
  using assms(2)
proof (cases rule: admit_cases [of mx s hsh node name])
  case (no s1)
  then show ?thesis by (simp add: writeMinute_def)
next
  case (yes s1)
  let ?f = "fileOf hsh name" and ?d = "dir_of node s1"
  let ?new = "AList.update ?f (write_file f32 (shapeOf name) minute p (map_of ?d ?f)) ?d"
  have d: "dir_of n s1 = dir_of n s" for n using yes(3) by (simp add: dir_of_def)
  have wf: "file_ok (write_file f32 (shapeOf name) minute p (map_of ?d ?f))"
    using assms hist_invD(1) [OF yes(2), of node]
    by (intro write_file_ok) (auto simp: dir_ok_def list_all_iff dest!: map_of_SomeD)
  have new: "dir_ok mx ?new" using wf yes(4) hist_invD(1) [OF yes(2), of node] by (intro dir_ok_update) (auto simp: d)
  have eq: "writeMinute hsh f32 mx node name minute p s =
      set_known node (if ?f \<in> set (fst (namesOf node s1)) then fst (namesOf node s1) else fst (namesOf node s1) @ [?f], snd (namesOf node s1))
        (s1\<lparr>hs_disk := AList.update node ?new (hs_disk s1)\<rparr>)"
    by (simp add: writeMinute_def yes(1) Let_def)
  show ?thesis
  proof (rule hist_invI)
    show "dir_ok mx (dir_of n (writeMinute hsh f32 mx node name minute p s))" for n
      unfolding eq using new hist_invD(1) [OF yes(2), of n] by (simp add: set_known_def)
    show "fst k = map fst (dir_of n (writeMinute hsh f32 mx node name minute p s))"
      if "map_of (hs_known (writeMinute hsh f32 mx node name minute p s)) n = Some k" for n k
      using that hist_invD(2) [OF yes(2), of n k] namesOf_dir [OF yes(2), of node] unfolding eq
      by (auto simp: set_known_def keys_update split: if_splits)
    show "list_all (\<lambda>kc. cur_ok (snd kc)) (hs_open (writeMinute hsh f32 mx node name minute p s))"
      unfolding eq using hist_invD(3) [OF yes(2)] by (simp add: set_known_def)
  qed
qed

lemma cur_point_ok: "cur_ok c \<Longrightarrow> point_ok (cm_sum c / of_nat (cm_n c), cm_min c, cm_max c)"
  by (auto simp: cur_ok_def point_ok_def field_simps)

lemma add_value_ok:
  assumes "0 \<le> cm_minute c" "cm_min c * of_nat (cm_n c) \<le> cm_sum c" "cm_sum c \<le> cm_max c * of_nat (cm_n c)"
  shows "cur_ok (add_value c v)"
proof -
  have "min (cm_min c) v * of_nat (cm_n c) \<le> cm_min c * of_nat (cm_n c)"
       "cm_max c * of_nat (cm_n c) \<le> max (cm_max c) v * of_nat (cm_n c)"
    by (simp_all add: mult_right_mono)
  then show ?thesis using assms by (auto simp: cur_ok_def add_value_def algebra_simps min_le_iff_disj le_max_iff_disj intro!: add_mono)
qed

lemma close_minute_inv:
  assumes "mono f32" "hist_inv mx s" "cur_ok c"
  shows "hist_inv mx (close_minute hsh f32 mx key c s)"
  unfolding close_minute_def using assms by (intro writeMinute_inv cur_point_ok) (auto simp: cur_ok_def)

lemma open_set_inv: "hist_inv mx s \<Longrightarrow> cur_ok c \<Longrightarrow> hist_inv mx (open_set key c s)"
  by (simp add: hist_inv_def open_set_def list_all_update)

lemma start_minute_inv:
  assumes "hist_inv mx s" "0 \<le> minute"
  shows "hist_inv mx (case admit hsh mx node name s of (False, s2) \<Rightarrow> s2
    | (True, s2) \<Rightarrow> open_set key (add_value \<lparr>cm_minute = minute, cm_sum = 0, cm_n = 0, cm_min = v, cm_max = v\<rparr> v) s2)"
  using assms(1) by (cases rule: admit_cases [of mx s hsh node name]) (simp_all add: open_set_inv add_value_ok assms(2))

lemma add_one_inv:
  assumes "mono f32" "hist_inv mx s" "0 \<le> minute"
  shows "hist_inv mx (add_one hsh f32 mx node minute s nv)"
proof (cases "map_of (hs_open s) (node @ '' '' @ fst nv)")
  case None
  then show ?thesis using start_minute_inv [OF assms(2,3)] by (simp add: add_one_def Let_def)
next
  case (Some c)
  then have c: "cur_ok c" using hist_invD(3) [OF assms(2)] by (fastforce simp: list_all_iff dest: map_of_SomeD)
  show ?thesis
  proof (cases "cm_minute c = minute")
    case True
    have "cur_ok (add_value c (snd nv))" using c by (intro add_value_ok) (auto simp: cur_ok_def)
    then show ?thesis using True Some assms(2) by (simp add: add_one_def Let_def open_set_inv)
  next
    case False
    then show ?thesis using Some start_minute_inv [OF close_minute_inv [OF assms(1,2) c] assms(3)]
      by (simp add: add_one_def Let_def)
  qed
qed

lemma foldl_inv: "P s \<Longrightarrow> (\<And>s x. x \<in> set xs \<Longrightarrow> P s \<Longrightarrow> P (f s x)) \<Longrightarrow> P (foldl f s xs)"
  by (induction xs arbitrary: s) simp_all

lemma flush_inv:
  assumes "mono f32" "hist_inv mx s"
  shows "hist_inv mx (flush hsh f32 mx t s)"
  unfolding flush_def
proof (rule foldl_inv)
  fix s' kc
  assume "kc \<in> set (hs_open s)" and s': "hist_inv mx s'"
  then have "cur_ok (snd kc)" using hist_invD(3) [OF assms(2)] by (auto simp: list_all_iff)
  then have "hist_inv mx (close_minute hsh f32 mx (fst kc) (snd kc) s')" by (rule close_minute_inv [OF assms(1) s'])
  then show "hist_inv mx (flush_one hsh f32 mx (t div 60000) s' kc)"
    by (simp add: flush_one_def Let_def hist_inv_def list_all_delete)
qed (rule assms(2))

lemma dir_ok_Nil [simp]: "dir_ok mx []"
  by (simp add: dir_ok_def)

lemma dir_ok_filter: "dir_ok mx d \<Longrightarrow> dir_ok mx (filter P d)"
  unfolding dir_ok_def by (auto simp: list_all_iff intro: order.trans [OF length_filter_le])

lemma dir_of_delete [simp]: "dir_of node (s\<lparr>hs_disk := AList.delete n (hs_disk s)\<rparr>) = (if node = n then [] else dir_of node s)"
  by (simp add: dir_of_def)

lemma removeNode_inv: "hist_inv mx s \<Longrightarrow> hist_inv mx (removeNode node s)"
proof (cases "is_node_id node")
  case True
  assume s: "hist_inv mx s"
  have d: "dir_of n (removeNode node s) = (if n = node then [] else dir_of n s)" for n
    using True by (simp add: removeNode_def dir_of_def)
  show ?thesis
  proof (rule hist_invI)
    show "dir_ok mx (dir_of n (removeNode node s))" for n using hist_invD(1) [OF s, of n] by (simp add: d)
    show "fst k = map fst (dir_of n (removeNode node s))" if "map_of (hs_known (removeNode node s)) n = Some k" for n k
      using that hist_invD(2) [OF s, of n k] True by (simp add: d) (simp add: removeNode_def split: if_splits)
    show "list_all (\<lambda>kc. cur_ok (snd kc)) (hs_open (removeNode node s))"
      using True hist_invD(3) [OF s] by (auto simp: removeNode_def list_all_iff)
  qed
qed (simp add: removeNode_def)

lemma sweep_dir_inv:
  assumes "hist_inv mx s"
  shows "hist_inv mx (sweep_dir minute s node)"
proof -
  define gone where "gone = map fst (filter (\<lambda>nf. minute - head_last (snd nf) > SWEEP_MIN) (dir_of node s))"
  define s1 where "s1 = s\<lparr>hs_disk := AList.update node (filter (\<lambda>nf. fst nf \<notin> set gone) (dir_of node s)) (hs_disk s)\<rparr>"
  have eq: "sweep_dir minute s node = (case map_of (hs_known s) node of None \<Rightarrow> s1
      | Some k \<Rightarrow> set_known node (filter (\<lambda>f. f \<notin> set gone) (fst k), snd k) s1)"
    by (simp only: sweep_dir_def Let_def gone_def s1_def) simp
  have d: "dir_of n (sweep_dir minute s node) = (if n = node then filter (\<lambda>nf. fst nf \<notin> set gone) (dir_of node s) else dir_of n s)" for n
    by (simp add: eq s1_def set_known_def split: option.split)
  show ?thesis
  proof (rule hist_invI)
    show "dir_ok mx (dir_of n (sweep_dir minute s node))" for n using hist_invD(1) [OF assms] by (simp add: d dir_ok_filter)
    show "fst k = map fst (dir_of n (sweep_dir minute s node))" if "map_of (hs_known (sweep_dir minute s node)) n = Some k" for n k
      unfolding d using that hist_invD(2) [OF assms]
      by (auto simp: eq s1_def set_known_def filter_map comp_def split: option.splits if_splits)
    show "list_all (\<lambda>kc. cur_ok (snd kc)) (hs_open (sweep_dir minute s node))"
      using hist_invD(3) [OF assms] by (simp add: eq s1_def set_known_def split: option.split)
  qed
qed

lemma sweep_inv: "hist_inv mx s \<Longrightarrow> hist_inv mx (sweep_history alive t s)"
  unfolding sweep_history_def by (rule foldl_inv) (auto intro: removeNode_inv sweep_dir_inv)

lemma map_of_map_at:
  "map_of (map (\<lambda>nd. if fst nd = node then (node, g (snd nd)) else nd) m) n = (if n = node then map_option g (map_of m n) else map_of m n)"
  by (induction m) auto

lemma dir_of_tear: "dir_of n (tear node f l s) = (if n = node then map (\<lambda>nf. if fst nf = f then (f, Torn l) else nf) (dir_of n s) else dir_of n s)"
  by (simp add: tear_def dir_of_def map_of_map_at split: option.split)

lemma tear_inv: "hist_inv mx s \<Longrightarrow> hist_inv mx (tear node f l s)"
proof (rule hist_invI)
  assume s: "hist_inv mx s"
  show "dir_ok mx (dir_of n (tear node f l s))" for n
    using hist_invD(1) [OF s, of n] by (auto simp: dir_of_tear dir_ok_def list_all_iff file_ok_def)
  show "fst k = map fst (dir_of n (tear node f l s))" if "map_of (hs_known (tear node f l s)) n = Some k" for n k
    using that hist_invD(2) [OF s, of n k] by (auto simp: dir_of_tear) (simp_all add: tear_def)
  show "list_all (\<lambda>kc. cur_ok (snd kc)) (hs_open (tear node f l s))" using hist_invD(3) [OF s] by (simp add: tear_def)
qed

lemma add_values_inv: "mono f32 \<Longrightarrow> hist_inv mx s \<Longrightarrow> 0 \<le> t \<Longrightarrow> hist_inv mx (add_values hsh f32 mx node vs t s)"
  unfolding add_values_def
  by (cases "is_node_id node") (simp_all add: foldl_inv [of "hist_inv mx"] add_one_inv pos_imp_zdiv_nonneg_iff)

lemma hstep_inv: "mono f32 \<Longrightarrow> hist_inv mx s \<Longrightarrow> hist_inv mx (hstep hsh f32 mx s a)"
  by (cases a) (simp_all add: add_values_inv flush_inv removeNode_inv sweep_inv tear_inv, simp add: hist_inv_def)

lemma empty_hist_inv: "hist_inv mx empty_hist"
  by (simp add: hist_inv_def empty_hist_def dir_of_def)

lemma history_machine: "mono f32 \<Longrightarrow> machine (hstep hsh f32 mx) (hist_inv mx)"
  by (rule machine.intro) (rule hstep_inv)

lemma history_run_inv: "mono f32 \<Longrightarrow> hist_inv mx (foldl (hstep hsh f32 mx) empty_hist ops)"
  by (rule machine.inv_run [OF history_machine empty_hist_inv])

lemma round3_mono: "mono round3"
  by (auto simp: mono_def round3_def js_round_def intro!: divide_right_mono floor_mono add_right_mono)

lemma query_point_ok:
  assumes "\<And>x. c = Some x \<Longrightarrow> cur_ok x"
    and "\<And>rg. r = Some rg \<Longrightarrow> ring_ok (tier_len tier) rg \<and> slots_ok (rg_slots rg)" "tier < 3"
    and "query_point nf tier c r i = Some p"
  shows "point_ok p"
proof -
  consider (cur) x where "c = Some x" "p = (let avg = cm_sum x / of_nat (cm_n x) in if nf = 3 then (avg, cm_min x, cm_max x) else (avg, avg, avg))"
    | (ring) rg where "r = Some rg" "readPoint nf (tier_len tier) i rg = Some p"
    using assms(4) by (auto simp: query_point_def Let_def split: if_splits option.splits)
  then show ?thesis
  proof cases
    case cur
    then show ?thesis using cur_point_ok [of x] assms(1) by (auto simp: Let_def point_ok_def)
  next
    case ring
    have "slot_of (tier_len tier) i < tier_len tier"
      using less3_cases [OF assms(3)] t1.slot_less t2.slot_less t3.slot_less by (auto simp: tier_len_simps)
    then show ?thesis using ring assms(2) [OF ring(1)] by (intro readPoint_ok) (auto simp: ring_ok_def)
  qed
qed

lemma query_ok:
  assumes "hist_inv mx s" "query hsh node name rng t s = Some (st, pts)" "(x, Some p) \<in> set pts"
  shows "point_ok p"
proof -
  obtain tier count where q: "map_of RANGES rng = Some (tier, count)" "tier < fst (shapeOf name)"
    and pts: "\<exists>i. Some p = map_option (\<lambda>(a, lo, hi). (round3 a, round3 lo, round3 hi))
        (query_point (snd (shapeOf name)) tier (map_of (hs_open s) (node @ '' '' @ name)) (tier_of tier (read_sound hsh node name s)) i)"
    using assms(2,3) by (force simp: query_def Let_def split: if_splits option.splits prod.splits)
  obtain i p0 where p0: "query_point (snd (shapeOf name)) tier (map_of (hs_open s) (node @ '' '' @ name)) (tier_of tier (read_sound hsh node name s)) i = Some p0"
    and p: "p = round_point round3 p0" using pts by (auto simp: round_point_def dest!: sym [of "Some p"])
  have "point_ok p0"
  proof (rule query_point_ok [OF _ _ _ p0])
    show "cur_ok c" if "map_of (hs_open s) (node @ '' '' @ name) = Some c" for c
      using that hist_invD(3) [OF assms(1)] by (fastforce simp: list_all_iff dest: map_of_SomeD)
    show "ring_ok (tier_len tier) rg \<and> slots_ok (rg_slots rg)" 
      if rg: "tier_of tier (read_sound hsh node name s) = Some rg" for rg
    proof -
      obtain rings nf where f: "map_of (dir_of node s) (fileOf hsh name) = Some (Sound nf rings)"
        "sound_file (Sound nf rings) (shapeOf name)" "rg = rings ! tier"
        using rg by (auto simp: tier_of_def read_sound_def split: option.splits if_splits sfile.splits)
      have "file_ok (Sound nf rings)" using hist_invD(1) [OF assms(1), of node] map_of_SomeD [OF f(1)]
        by (auto simp: dir_ok_def list_all_iff)
      then show ?thesis using f(2,3) q(2) by (auto simp: file_ok_def sound_file_def)
    qed
    show "tier < 3" using q(2) by (auto simp: shapeOf_def split: if_splits)
  qed
  then show ?thesis using p round_point_ok [OF round3_mono] by simp
qed

section \<open>Properties\<close>

text \<open>
  C5. A tier of a ring file, written any number of times at any indices (forward, with gaps of any
  length, back in time, past the ring's length), says of every index what the window of time says: the
  slots, the wrapped runs of gaps and the starting over after a clock jump implement a map from indices
  to points that keeps the last \<open>len\<close> indices.
\<close>

theorem tier_refines_window:
  assumes "t < 3" "\<forall>w\<in>set ws. 0 \<le> fst w"
  shows "ring_abs (tier_len t) (ring_run f32 (tier_len t) ws (new_ring (tier_len t))) = window_run f32 (tier_len t) ws (-1, \<lambda>_. None)"
  using ring_run_refines [OF assms(1) new_ring_ok assms(2)] by (simp add: new_ring_abs)

theorem tier_refines_window_witness:
  "ring_abs (tier_len 1) (ring_run (\<lambda>x. x) (tier_len 1) [(100, Some (1, 0, 2)), (3000, Some (5, 5, 5)), (40, None)] (new_ring (tier_len 1))) =
   window_run (\<lambda>x. x) (tier_len 1) [(100, Some (1, 0, 2)), (3000, Some (5, 5, 5)), (40, None)] (-1, \<lambda>_. None)"
  by (rule tier_refines_window) simp_all



end
