(* ===== verification/Channels.thy ===== *)
theory Channels
  imports Alert_Rules
begin

text \<open>
  The alert channels a person sets, the first half of \<^verbatim>\<open>src/hub/lib/notify.js\<close>: the fields of each
  kind of channel (\<open>ADAPTERS\<close>), the check of a configuration from the page (\<open>checkChannels\<close>), what the
  page is shown of it (\<open>mask_channel\<close>) and the values read from the environment when a message is sent
  (\<open>resolved\<close>). A configuration is the record \<open>nconf\<close>; a function that throws gives its message.
  Regular expressions are predicates on strings. \<^verbatim>\<open>new URL\<close> is the argument \<open>httpUrl\<close>: does the
  platform parse the text as an http or https URL. As elsewhere, JavaScript's coercion of a
  one-element array to its element (\<^verbatim>\<open>TIME.test(["07:00"])\<close>) is not modelled: such a value is refused.
\<close>

section \<open>Fields\<close>

record cfield =
  f_secret :: bool
  f_optional :: bool
  f_url :: bool
  f_header :: bool
  f_dest :: bool
  f_choices :: "string list option"
  f_re :: "(string \<Rightarrow> bool) option"
  f_list :: "(string \<Rightarrow> bool) option"

definition plain_field :: cfield where
  "plain_field = \<lparr>f_secret = False, f_optional = False, f_url = False, f_header = False, f_dest = False,
     f_choices = None, f_re = None, f_list = None\<rparr>"

text \<open>Character classes of the expressions below.\<close>

definition is_alnum :: "char \<Rightarrow> bool" where
  "is_alnum c \<longleftrightarrow> is_lower c \<or> is_upper c \<or> is_digit c"

definition is_hexdig :: "char \<Rightarrow> bool" where
  "is_hexdig c \<longleftrightarrow> is_digit c \<or> (97 \<le> (of_char c :: nat) \<and> (of_char c :: nat) \<le> 102) \<or> (65 \<le> (of_char c :: nat) \<and> (of_char c :: nat) \<le> 70)"

definition re_topic :: "string \<Rightarrow> bool" where
  "re_topic = in_class (\<lambda>c. is_alnum c \<or> c \<in> set ''_-'') 1 64"

text \<open>\<^verbatim>\<open>/^[0-9]{1,20}:[A-Za-z0-9_-]{20,100}$/\<close>\<close>

definition re_bot_token :: "string \<Rightarrow> bool" where
  "re_bot_token s = (case split_on (CHR '':'') s of
      [a, b] \<Rightarrow> in_class is_digit 1 20 a \<and> in_class (\<lambda>c. is_alnum c \<or> c \<in> set ''_-'') 20 100 b
    | _ \<Rightarrow> False)"

definition re_chat :: "string \<Rightarrow> bool" where
  "re_chat s = (case s of [] \<Rightarrow> False
    | c # cs \<Rightarrow> in_class is_digit 1 20 s \<or> (c = CHR ''-'' \<and> in_class is_digit 1 20 cs) \<or>
        (c = CHR ''@'' \<and> in_class (\<lambda>c. is_alnum c \<or> c = CHR ''_'') 5 32 cs))"

definition re_alnum30 :: "string \<Rightarrow> bool" where
  "re_alnum30 = in_class is_alnum 30 30"

definition strip_hd :: "char \<Rightarrow> string \<Rightarrow> string" where
  "strip_hd c s = (case s of [] \<Rightarrow> [] | x # xs \<Rightarrow> if x = c then xs else s)"

definition strip_last :: "char \<Rightarrow> string \<Rightarrow> string" where
  "strip_last c s = rev (strip_hd c (rev s))"

definition re_mail_host :: "string \<Rightarrow> bool" where
  "re_mail_host s \<longleftrightarrow> in_class (\<lambda>c. is_alnum c \<or> c \<in> set ''.-'') 1 253 s \<or>
     in_class (\<lambda>c. is_hexdig c \<or> c \<in> set '':.'') 2 45 (strip_last (CHR '']'') (strip_hd (CHR ''['') s))"

definition re_port :: "string \<Rightarrow> bool" where
  "re_port = in_class is_digit 1 5"

text \<open>\<^verbatim>\<open>/^[A-Za-z0-9._%+-]{1,64}@[A-Za-z0-9.-]{1,253}\.[A-Za-z]{2,63}$/\<close>: the last dot of the domain ends the expression's middle part.\<close>

definition ADDRESS :: "string \<Rightarrow> bool" where
  "ADDRESS s = (case split_on (CHR ''@'') s of
      [a, d] \<Rightarrow> in_class (\<lambda>c. is_alnum c \<or> c \<in> set ''._%+-'') 1 64 a \<and>
        (let ps = split_on (CHR ''.'') d; tld = last ps; dom = take (length d - length tld - 1) d in
         length ps > 1 \<and> in_class (\<lambda>c. is_lower c \<or> is_upper c) 2 63 tld \<and> in_class (\<lambda>c. is_alnum c \<or> c \<in> set ''.-'') 1 253 dom)
    | _ \<Rightarrow> False)"

text \<open>\<^verbatim>\<open>/^[..]+(\s*,\s*[..]+){0,9}$/\<close>: at most ten parts, with blanks only around the commas.\<close>

definition re_to :: "string \<Rightarrow> bool" where
  "re_to s = (let ps = split_on (CHR '','') s in
     length ps \<le> 10 \<and> list_all (\<lambda>p. js_trim p \<noteq> [] \<and> list_all (\<lambda>c. is_alnum c \<or> c \<in> set ''._%+@-'') (js_trim p)) ps \<and>
     \<not> is_space (hd (hd ps)) \<and> \<not> is_space (last (last ps)))"

text \<open>\<^verbatim>\<open>/^![A-Za-z0-9._=-]{1,255}:[A-Za-z0-9.-]{1,253}(:[0-9]{1,5})?$/\<close>\<close>

definition re_room :: "string \<Rightarrow> bool" where
  "re_room s = (case s of [] \<Rightarrow> False | c # cs \<Rightarrow> c = CHR ''!'' \<and>
     (case split_on (CHR '':'') cs of
        a # b # rest \<Rightarrow> in_class (\<lambda>c. is_alnum c \<or> c \<in> set ''._=-'') 1 255 a \<and> in_class (\<lambda>c. is_alnum c \<or> c \<in> set ''.-'') 1 253 b \<and>
          (rest = [] \<or> (length rest = 1 \<and> in_class is_digit 1 5 (hd rest)))
      | _ \<Rightarrow> False))"

definition ADAPTERS :: "(string \<times> (string \<times> cfield) list) list" where
  "ADAPTERS =
    (let p = plain_field; opt_url = p\<lparr>f_optional := True, f_url := True\<rparr>; url = p\<lparr>f_url := True\<rparr>;
         secret_url = p\<lparr>f_url := True, f_secret := True\<rparr>; secret = p\<lparr>f_secret := True\<rparr> in
    [(''ntfy'', [(''server'', opt_url), (''topic'', p\<lparr>f_re := Some re_topic\<rparr>),
        (''token'', p\<lparr>f_optional := True, f_secret := True, f_header := True\<rparr>)]),
     (''webhook'', [(''url'', secret_url), (''secret'', p\<lparr>f_optional := True, f_secret := True\<rparr>)]),
     (''gotify'', [(''server'', url), (''token'', secret\<lparr>f_header := True\<rparr>)]),
     (''telegram'', [(''token'', secret\<lparr>f_re := Some re_bot_token\<rparr>), (''chat'', p\<lparr>f_re := Some re_chat\<rparr>), (''server'', opt_url)]),
     (''discord'', [(''url'', secret_url)]),
     (''slack'', [(''url'', secret_url)]),
     (''teams'', [(''url'', secret_url)]),
     (''pushover'', [(''token'', secret\<lparr>f_re := Some re_alnum30\<rparr>), (''user'', secret\<lparr>f_re := Some re_alnum30\<rparr>), (''server'', opt_url)]),
     (''email'', [(''host'', p\<lparr>f_dest := True, f_re := Some re_mail_host\<rparr>), (''port'', p\<lparr>f_dest := True, f_re := Some re_port\<rparr>),
        (''security'', p\<lparr>f_dest := True, f_choices := Some [''starttls'', ''tls'', ''none'']\<rparr>),
        (''login'', p\<lparr>f_optional := True\<rparr>), (''pass'', p\<lparr>f_optional := True, f_secret := True\<rparr>),
        (''from'', p\<lparr>f_re := Some ADDRESS\<rparr>), (''to'', p\<lparr>f_re := Some re_to, f_list := Some ADDRESS\<rparr>)]),
     (''apprise'', [(''urls'', secret), (''api'', opt_url)]),
     (''webpush'', []),
     (''matrix'', [(''server'', url), (''room'', p\<lparr>f_re := Some re_room\<rparr>), (''token'', secret\<lparr>f_header := True\<rparr>)])])"

text \<open>Of all kinds only email has settings that cannot work together.\<close>

definition email_check :: "(string \<times> string) list \<Rightarrow> string" where
  "email_check c =
    (let at' = (\<lambda>k. case map_of c k of None \<Rightarrow> [] | Some v \<Rightarrow> v) in
     if at' ''login'' \<noteq> [] \<and> at' ''pass'' = [] then ''pass: needed with a login''
     else if at' ''security'' = ''none'' \<and> (at' ''host'' \<notin> {''localhost'', ''127.0.0.1'', ''::1'', ''[::1'', ''::1]'', ''[::1]''} \<or> at' ''login'' \<noteq> [])
       then ''security: none only to a mail relay on this host, without a login''
     else [])"

definition adapter_check :: "string \<Rightarrow> (string \<times> string) list \<Rightarrow> string" where
  "adapter_check ty c = (if ty = ''email'' then email_check c else [])"

section \<open>A configuration\<close>

record channel =
  ch_id :: string
  ch_type :: string
  ch_name :: string
  ch_min :: severity
  ch_on :: bool
  ch_digest :: bool
  ch_config :: "(string \<times> string) list"

record nconf =
  nc_channels :: "channel list"
  nc_quiet :: "(string \<times> string) option"
  nc_digestAt :: string

definition no_channels :: nconf where
  "no_channels = \<lparr>nc_channels = [], nc_quiet = None, nc_digestAt = ''07:00''\<rparr>"

definition SECRET :: string where "SECRET = ''********''"

text \<open>\<^verbatim>\<open>/^([01]\d|2[0-3]):[0-5]\d$/\<close>\<close>

definition is_time :: "string \<Rightarrow> bool" where
  "is_time s = (case s of
      [a, b, c, d, e] \<Rightarrow> ((a \<in> set ''01'' \<and> is_digit b) \<or> (a = CHR ''2'' \<and> b \<in> set ''0123'')) \<and> c = CHR '':'' \<and> d \<in> set ''012345'' \<and> is_digit e
    | _ \<Rightarrow> False)"

definition ENV_PREFIX :: string where "ENV_PREFIX = ''$SERVITALS_NOTIFY_''"

definition is_envref :: "string \<Rightarrow> bool" where
  "is_envref s \<longleftrightarrow> starts_with ENV_PREFIX s \<and> drop (length ENV_PREFIX) s \<noteq> [] \<and>
     list_all (\<lambda>c. is_upper c \<or> is_digit c \<or> c = CHR ''_'') (drop (length ENV_PREFIX) s)"

definition is_channel_id :: "string \<Rightarrow> bool" where
  "is_channel_id s \<longleftrightarrow> starts_with ''ch_'' s \<and> in_class (\<lambda>c. is_lower c \<or> is_digit c) 1 16 (drop 3 s)"

fun join_with :: "string \<Rightarrow> string list \<Rightarrow> string" where
  "join_with sep [] = []"
| "join_with sep [x] = x"
| "join_with sep (x # xs) = x @ sep @ join_with sep xs"

text \<open>What is wrong with a field's value, or nothing.\<close>

definition fieldError :: "(string \<Rightarrow> bool) \<Rightarrow> cfield \<Rightarrow> string \<Rightarrow> string" where
  "fieldError httpUrl f v =
    (if (case f_choices f of Some cs \<Rightarrow> v \<notin> set cs | None \<Rightarrow> False) then ''one of '' @ join_with '', '' (the (f_choices f))
     else if (case f_list f of Some p \<Rightarrow> \<not> list_all (\<lambda>x. p (js_trim x)) (split_on (CHR '','') v) | None \<Rightarrow> False) then ''not valid''
     else if f_url f \<and> \<not> httpUrl v then ''an http or https URL''
     else if (case f_re f of Some p \<Rightarrow> \<not> p v | None \<Rightarrow> False) then ''not valid''
     else if f_header f \<and> \<not> (v \<noteq> [] \<and> list_all (\<lambda>c. 32 \<le> (of_char c :: nat) \<and> (of_char c :: nat) \<le> 126) v) then ''printable ASCII only''
     else [])"

section \<open>The check\<close>

text \<open>\<^verbatim>\<open>(x || "") === (y || "")\<close>\<close>

definition same_addr :: "jsval \<Rightarrow> string option \<Rightarrow> bool" where
  "same_addr x y \<longleftrightarrow> (if truthy x then x else JStr []) = JStr (case y of None \<Rightarrow> [] | Some s \<Rightarrow> s)"

definition moved :: "(string \<times> cfield) list \<Rightarrow> jsval \<Rightarrow> channel \<Rightarrow> bool" where
  "moved fs cfg was = list_ex (\<lambda>kf. (f_url (snd kf) \<or> f_dest (snd kf)) \<and> \<not> f_secret (snd kf) \<and>
     \<not> same_addr (fld (fst kf) cfg) (map_of (ch_config was) (fst kf))) fs"

text \<open>A masked secret stands for the saved one, unless an address changed.\<close>

definition field_value :: "string \<Rightarrow> (string \<times> cfield) list \<Rightarrow> jsval \<Rightarrow> channel option \<Rightarrow> string \<Rightarrow> cfield \<Rightarrow> string + jsval" where
  "field_value lbl fs cfg was k f =
    (if fld k cfg = JStr SECRET \<and> f_secret f
     then (case was of
         None \<Rightarrow> Inl (lbl @ '': '' @ k @ '': type it again'')
       | Some w \<Rightarrow> (case map_of (ch_config w) k of
             None \<Rightarrow> Inl (lbl @ '': '' @ k @ '': type it again'')
           | Some v \<Rightarrow> if moved fs cfg w then Inl (lbl @ '': '' @ k @ '': type it again'') else Inr (JStr v)))
     else Inr (fld k cfg))"

definition check_value :: "(string \<Rightarrow> bool) \<Rightarrow> string \<Rightarrow> string \<Rightarrow> cfield \<Rightarrow> jsval \<Rightarrow> string + string option" where
  "check_value httpUrl lbl k f v =
    (if v = JUndef \<or> v = JStr [] then (if f_optional f then Inr None else Inl (lbl @ '': '' @ k @ '': needed''))
     else (case v of
         JStr s \<Rightarrow>
           if length s > 2048 \<or> list_ex is_control s then Inl (lbl @ '': '' @ k @ '': text up to 2048 characters'')
           else if starts_with ''$'' s \<and> \<not> is_envref s
             then Inl (lbl @ '': '' @ k @ '': only $SERVITALS_NOTIFY_ names are read from the environment'')
           else if \<not> is_envref s \<and> fieldError httpUrl f s \<noteq> [] then Inl (lbl @ '': '' @ k @ '': '' @ fieldError httpUrl f s)
           else Inr (Some s)
       | _ \<Rightarrow> Inl (lbl @ '': '' @ k @ '': text up to 2048 characters'')))"

fun check_fields :: "(string \<Rightarrow> bool) \<Rightarrow> string \<Rightarrow> (string \<times> cfield) list \<Rightarrow> jsval \<Rightarrow> channel option \<Rightarrow> (string \<times> cfield) list \<Rightarrow> string + (string \<times> string) list" where
  "check_fields httpUrl lbl fs cfg was [] = Inr []"
| "check_fields httpUrl lbl fs cfg was ((k, f) # rest) =
    bindE (field_value lbl fs cfg was k f) (\<lambda>v.
    bindE (check_value httpUrl lbl k f v) (\<lambda>r.
    bindE (check_fields httpUrl lbl fs cfg was rest) (\<lambda>cs.
    Inr (case r of None \<Rightarrow> cs | Some s \<Rightarrow> (k, s) # cs))))"

definition channel_label :: "nat \<Rightarrow> jsval \<Rightarrow> string" where
  "channel_label i ch = (case fld ''name'' ch of
      JStr s \<Rightarrow> if js_trim s \<noteq> [] then take 60 (js_trim s) else ''channel '' @ show_nat (i + 1)
    | _ \<Rightarrow> ''channel '' @ show_nat (i + 1))"

definition old_channel :: "nconf \<Rightarrow> string \<Rightarrow> string \<Rightarrow> channel option" where
  "old_channel old i ty = find (\<lambda>x. ch_id x = i \<and> ch_type x = ty) (nc_channels old)"

definition check_id :: "string \<Rightarrow> string list \<Rightarrow> jsval \<Rightarrow> string + string" where
  "check_id lbl ids v = (case v of
      JStr s \<Rightarrow> if \<not> is_channel_id s then Inl (lbl @ '': id: ch_ and up to 16 letters or digits'')
                else if s \<in> set ids then Inl (lbl @ '': listed twice'') else Inr s
    | _ \<Rightarrow> Inl (lbl @ '': id: ch_ and up to 16 letters or digits''))"

definition check_type :: "string \<Rightarrow> jsval \<Rightarrow> string + string \<times> (string \<times> cfield) list" where
  "check_type lbl v = (case v of
      JStr s \<Rightarrow> ok_or (lbl @ '': type: one of '' @ join_with '', '' (map fst ADAPTERS)) (map_option (Pair s) (map_of ADAPTERS s))
    | _ \<Rightarrow> Inl (lbl @ '': type: one of '' @ join_with '', '' (map fst ADAPTERS)))"

definition check_channel_name :: "string \<Rightarrow> jsval \<Rightarrow> string + string" where
  "check_channel_name lbl v = (case v of
      JStr s \<Rightarrow> if js_trim s = [] \<or> length s > 60 \<or> list_ex is_control s then Inl (lbl @ '': name: 1 to 60 characters'') else Inr (js_trim s)
    | _ \<Rightarrow> Inl (lbl @ '': name: 1 to 60 characters''))"

definition check_min :: "string \<Rightarrow> jsval \<Rightarrow> string + severity" where
  "check_min lbl v = ok_or (lbl @ '': min: one of critical, warning, info'') (lookup_str SEVERITIES v)"

definition check_on :: "string \<Rightarrow> jsval \<Rightarrow> string + bool" where
  "check_on lbl v = (case v of JBool b \<Rightarrow> Inr b | _ \<Rightarrow> Inl (lbl @ '': on: true or false''))"

definition check_digest :: "string \<Rightarrow> jsval \<Rightarrow> string + bool" where
  "check_digest lbl v = (case v of JUndef \<Rightarrow> Inr True | JBool b \<Rightarrow> Inr b | _ \<Rightarrow> Inl (lbl @ '': digest: true or false''))"

definition check_together :: "string \<Rightarrow> string \<Rightarrow> (string \<times> string) list \<Rightarrow> string + unit" where
  "check_together lbl ty config =
    (let wrong = (if list_ex (\<lambda>kv. is_envref (snd kv)) config then [] else adapter_check ty config) in
     if wrong = [] then Inr () else Inl (lbl @ '': '' @ wrong))"

definition check_channel :: "(string \<Rightarrow> bool) \<Rightarrow> nconf \<Rightarrow> nat \<Rightarrow> string list \<Rightarrow> jsval \<Rightarrow> string + channel" where
  "check_channel httpUrl old i ids ch =
    (if \<not> is_obj ch then Inl (''channel '' @ show_nat (i + 1) @ '': not a channel'')
     else let lbl = channel_label i ch; cfg = (if is_obj (fld ''config'' ch) then fld ''config'' ch else JObj []) in
     bindE (check_id lbl ids (fld ''id'' ch)) (\<lambda>cid.
     bindE (check_type lbl (fld ''type'' ch)) (\<lambda>(ty, fs).
     bindE (check_channel_name lbl (fld ''name'' ch)) (\<lambda>name.
     bindE (check_min lbl (fld ''min'' ch)) (\<lambda>mn.
     bindE (check_on lbl (fld ''on'' ch)) (\<lambda>on.
     bindE (check_digest lbl (fld ''digest'' ch)) (\<lambda>dg.
     bindE (check_fields httpUrl lbl fs cfg (old_channel old cid ty) fs) (\<lambda>config.
     bindE (check_together lbl ty config) (\<lambda>_.
     Inr \<lparr>ch_id = cid, ch_type = ty, ch_name = name, ch_min = mn, ch_on = on, ch_digest = dg, ch_config = config\<rparr>)))))))))"

fun check_channel_list :: "(string \<Rightarrow> bool) \<Rightarrow> nconf \<Rightarrow> nat \<Rightarrow> string list \<Rightarrow> jsval list \<Rightarrow> string + channel list" where
  "check_channel_list httpUrl old i ids [] = Inr []"
| "check_channel_list httpUrl old i ids (v # vs) =
    bindE (check_channel httpUrl old i ids v) (\<lambda>ch.
    bindE (check_channel_list httpUrl old (i + 1) (ch_id ch # ids) vs) (\<lambda>chs. Inr (ch # chs)))"

definition check_time :: "string \<Rightarrow> jsval \<Rightarrow> string + string" where
  "check_time msg v = (case v of JStr s \<Rightarrow> if is_time s then Inr s else Inl msg | _ \<Rightarrow> Inl msg)"

definition check_quiet :: "jsval \<Rightarrow> string + (string \<times> string) option" where
  "check_quiet v =
    (let msg = ''quiet hours: from and to as HH:MM, not the same'' in
     if v = JUndef \<or> v = JNull then Inr None
     else if \<not> is_obj v then Inl msg
     else bindE (check_time msg (fld ''from'' v)) (\<lambda>a. bindE (check_time msg (fld ''to'' v)) (\<lambda>b.
       if a = b then Inl msg else Inr (Some (a, b)))))"

definition checkChannels :: "(string \<Rightarrow> bool) \<Rightarrow> jsval \<Rightarrow> nconf \<Rightarrow> string + nconf" where
  "checkChannels httpUrl input old =
    (case fld ''channels'' input of
       JArr vs \<Rightarrow>
         if length vs > 20 then Inl ''channels: at most 20''
         else bindE (check_channel_list httpUrl old 0 [] vs) (\<lambda>chs.
           bindE (check_quiet (fld ''quiet'' input)) (\<lambda>q.
           bindE (if fld ''digestAt'' input = JUndef then Inr ''07:00'' else check_time ''digest: a time as HH:MM'' (fld ''digestAt'' input)) (\<lambda>d.
           Inr \<lparr>nc_channels = chs, nc_quiet = q, nc_digestAt = d\<rparr>)))
     | _ \<Rightarrow> Inl ''channels: a list'')"

section \<open>What is shown, what is saved, what is sent\<close>

definition secret_field :: "string \<Rightarrow> string \<Rightarrow> bool" where
  "secret_field ty k = (case map_of ADAPTERS ty of None \<Rightarrow> False
     | Some fs \<Rightarrow> (case map_of fs k of None \<Rightarrow> False | Some f \<Rightarrow> f_secret f))"

definition mask_channel :: "channel \<Rightarrow> channel" where
  "mask_channel ch = ch\<lparr>ch_config := map (\<lambda>(k, v). (k, if secret_field (ch_type ch) k \<and> \<not> is_envref v then SECRET else v)) (ch_config ch)\<rparr>"

definition sev_name :: "severity \<Rightarrow> string" where
  "sev_name s = (case s of Critical \<Rightarrow> ''critical'' | Warning \<Rightarrow> ''warning'' | Info \<Rightarrow> ''info'')"

text \<open>As JSON: what \<^verbatim>\<open>JSON.stringify\<close> writes of a configuration and \<^verbatim>\<open>JSON.parse\<close> gives back.\<close>

definition channel_js :: "channel \<Rightarrow> jsval" where
  "channel_js ch = JObj ([(''id'', JStr (ch_id ch)), (''type'', JStr (ch_type ch)), (''name'', JStr (ch_name ch)),
      (''min'', JStr (sev_name (ch_min ch))), (''on'', JBool (ch_on ch))] @
      (if ch_digest ch then [] else [(''digest'', JBool False)]) @
      [(''config'', JObj (map (\<lambda>(k, v). (k, JStr v)) (ch_config ch)))])"

definition conf_js :: "nconf \<Rightarrow> jsval" where
  "conf_js c = JObj [(''channels'', JArr (map channel_js (nc_channels c))),
     (''quiet'', case nc_quiet c of None \<Rightarrow> JNull | Some (a, b) \<Rightarrow> JObj [(''from'', JStr a), (''to'', JStr b)]),
     (''digestAt'', JStr (nc_digestAt c))]"

text \<open>The page's copy: every secret that is not a name of the environment masked.\<close>

definition view_conf :: "nconf \<Rightarrow> nconf" where
  "view_conf c = c\<lparr>nc_channels := map mask_channel (nc_channels c)\<rparr>"

fun resolve_fields :: "(string \<Rightarrow> bool) \<Rightarrow> (string \<Rightarrow> string option) \<Rightarrow> (string \<times> string) list \<Rightarrow> (string \<times> cfield) list \<Rightarrow> string + (string \<times> string) list" where
  "resolve_fields httpUrl env config [] = Inr []"
| "resolve_fields httpUrl env config ((k, f) # rest) =
    bindE (case map_of config k of
        None \<Rightarrow> Inr []
      | Some v \<Rightarrow>
          if is_envref v
          then (case env (drop 1 v) of
              None \<Rightarrow> if f_optional f then Inr [] else Inl (''ENV_UNSET:'' @ drop 1 v)
            | Some w \<Rightarrow>
                if w = [] then (if f_optional f then Inr [] else Inl (''ENV_UNSET:'' @ drop 1 v))
                else if fieldError httpUrl f w \<noteq> [] \<or> list_ex is_control w then Inl (''EBADVALUE:'' @ k)
                else Inr [(k, w)])
          else Inr [(k, v)]) (\<lambda>x.
    bindE (resolve_fields httpUrl env config rest) (\<lambda>xs. Inr (x @ xs)))"

definition resolved :: "(string \<Rightarrow> bool) \<Rightarrow> (string \<Rightarrow> string option) \<Rightarrow> channel \<Rightarrow> string + (string \<times> string) list" where
  "resolved httpUrl env ch = resolve_fields httpUrl env (ch_config ch) (case map_of ADAPTERS (ch_type ch) of None \<Rightarrow> [] | Some fs \<Rightarrow> fs)"

section \<open>What a checked configuration is\<close>

definition value_ok :: "(string \<Rightarrow> bool) \<Rightarrow> cfield \<Rightarrow> string \<Rightarrow> bool" where
  "value_ok u f s \<longleftrightarrow> s \<noteq> [] \<and> length s \<le> 2048 \<and> \<not> list_ex is_control s \<and> (starts_with ''$'' s \<longrightarrow> is_envref s) \<and>
     (is_envref s \<or> fieldError u f s = [])"

definition entry_ok :: "(string \<Rightarrow> bool) \<Rightarrow> cfield \<Rightarrow> string option \<Rightarrow> bool" where
  "entry_ok u f x = (case x of None \<Rightarrow> f_optional f | Some s \<Rightarrow> value_ok u f s)"

definition in_order :: "(string \<times> cfield) list \<Rightarrow> (string \<times> string) list \<Rightarrow> (string \<times> string) list" where
  "in_order fs cs = concat (map (\<lambda>kf. case map_of cs (fst kf) of None \<Rightarrow> [] | Some s \<Rightarrow> [(fst kf, s)]) fs)"

definition config_ok :: "(string \<Rightarrow> bool) \<Rightarrow> (string \<times> cfield) list \<Rightarrow> (string \<times> string) list \<Rightarrow> bool" where
  "config_ok u fs cs \<longleftrightarrow> cs = in_order fs cs \<and>
     list_all (\<lambda>kf. entry_ok u (snd kf) (map_of cs (fst kf)) \<and> (f_secret (snd kf) \<longrightarrow> map_of cs (fst kf) \<noteq> Some SECRET)) fs"

definition chan_ok :: "(string \<Rightarrow> bool) \<Rightarrow> channel \<Rightarrow> bool" where
  "chan_ok u ch \<longleftrightarrow> is_channel_id (ch_id ch) \<and> js_trim (ch_name ch) = ch_name ch \<and> ch_name ch \<noteq> [] \<and> length (ch_name ch) \<le> 60 \<and>
     \<not> list_ex is_control (ch_name ch) \<and> (list_ex (\<lambda>kv. is_envref (snd kv)) (ch_config ch) \<or> adapter_check (ch_type ch) (ch_config ch) = []) \<and>
     (case map_of ADAPTERS (ch_type ch) of None \<Rightarrow> False | Some fs \<Rightarrow> config_ok u fs (ch_config ch))"

definition conf_ok :: "(string \<Rightarrow> bool) \<Rightarrow> nconf \<Rightarrow> bool" where
  "conf_ok u c \<longleftrightarrow> length (nc_channels c) \<le> 20 \<and> distinct (map ch_id (nc_channels c)) \<and> list_all (chan_ok u) (nc_channels c) \<and>
     (case nc_quiet c of None \<Rightarrow> True | Some (a, b) \<Rightarrow> is_time a \<and> is_time b \<and> a \<noteq> b) \<and> is_time (nc_digestAt c)"

text \<open>The configurations the hub can have: none at first, then what a check of anything gave.\<close>

inductive made :: "(string \<Rightarrow> bool) \<Rightarrow> nconf \<Rightarrow> bool" for u where
  made_none: "made u no_channels"
| made_check: "made u old \<Longrightarrow> checkChannels u input old = Inr c \<Longrightarrow> made u c"

lemma check_value_None: "check_value u l k f v = Inr None \<longleftrightarrow> (v = JUndef \<or> v = JStr []) \<and> f_optional f"
  by (auto simp: check_value_def split: jsval.splits)

lemma check_value_Some: "check_value u l k f v = Inr (Some s) \<longleftrightarrow> v = JStr s \<and> value_ok u f s"
  by (auto simp: check_value_def value_ok_def split: jsval.splits if_splits)

lemma in_order_Cons:
  "in_order ((k, f) # fs) cs = (case map_of cs k of None \<Rightarrow> in_order fs cs | Some s \<Rightarrow> (k, s) # in_order fs cs)"
  by (simp add: in_order_def split: option.split)

lemma in_order_cong: "(\<And>k. k \<in> fst ` set fs \<Longrightarrow> map_of cs k = map_of cs' k) \<Longrightarrow> in_order fs cs = in_order fs cs'"
  unfolding in_order_def by (intro arg_cong [of _ _ concat] map_cong) auto

text \<open>Fields whose values are known to be good are taken as they are.\<close>

lemma check_fields_give:
  assumes "list_all (\<lambda>kf. field_value lbl fs cfg was (fst kf) (snd kf) = Inr (case map_of cs (fst kf) of None \<Rightarrow> JUndef | Some s \<Rightarrow> JStr s) \<and>
      entry_ok u (snd kf) (map_of cs (fst kf))) rest"
  shows "check_fields u lbl fs cfg was rest = Inr (in_order rest cs)"
  using assms
proof (induction rest)
  case (Cons kf rest)
  obtain k f where kf: "kf = (k, f)" by (cases kf)
  have IH: "check_fields u lbl fs cfg was rest = Inr (in_order rest cs)" using Cons by simp
  show ?case
  proof (cases "map_of cs k")
    case None
    then show ?thesis using Cons.prems IH check_value_None [of u lbl k f JUndef] by (simp add: kf entry_ok_def in_order_Cons)
  next
    case (Some s)
    then show ?thesis using Cons.prems IH check_value_Some [of u lbl k f "JStr s" s] by (simp add: kf entry_ok_def in_order_Cons)
  qed
qed (simp add: in_order_def)

text \<open>What the check of the fields gives.\<close>

definition from_input :: "(string \<times> cfield) list \<Rightarrow> jsval \<Rightarrow> channel option \<Rightarrow> string \<Rightarrow> cfield \<Rightarrow> string \<Rightarrow> bool" where
  "from_input fs cfg was k f s \<longleftrightarrow> (fld k cfg = JStr s \<and> \<not> (s = SECRET \<and> f_secret f)) \<or>
     (f_secret f \<and> fld k cfg = JStr SECRET \<and> (\<exists>w. was = Some w \<and> map_of (ch_config w) k = Some s \<and> \<not> moved fs cfg w))"

lemma field_value_JStr: "field_value lbl fs cfg was k f = Inr (JStr s) \<longleftrightarrow> from_input fs cfg was k f s"
  by (auto simp: field_value_def from_input_def split: if_splits option.splits)

lemma check_fields_made:
  assumes "check_fields u lbl fs cfg was rest = Inr cs" "distinct (map fst rest)"
  shows "fst ` set cs \<subseteq> fst ` set rest \<and> cs = in_order rest cs \<and>
    list_all (\<lambda>kf. entry_ok u (snd kf) (map_of cs (fst kf)) \<and>
      (case map_of cs (fst kf) of None \<Rightarrow> f_secret (snd kf) \<or> fld (fst kf) cfg = JUndef \<or> fld (fst kf) cfg = JStr []
       | Some s \<Rightarrow> from_input fs cfg was (fst kf) (snd kf) s)) rest"
  using assms
proof (induction rest arbitrary: cs)
  case (Cons kf rest)
  obtain k f where kf: "kf = (k, f)" by (cases kf)
  obtain v r cs0 where v: "field_value lbl fs cfg was k f = Inr v" "check_value u lbl k f v = Inr r"
    "check_fields u lbl fs cfg was rest = Inr cs0" "cs = (case r of None \<Rightarrow> cs0 | Some s \<Rightarrow> (k, s) # cs0)"
    using Cons.prems(1) by (auto simp: kf)
  have k: "k \<notin> fst ` set rest" using Cons.prems(2) by (auto simp: kf)
  note IH = Cons.IH [OF v(3)]
  have IH': "fst ` set cs0 \<subseteq> fst ` set rest" "cs0 = in_order rest cs0" using IH Cons.prems(2) by (auto simp: kf)
  have out: "map_of cs0 k = None" using IH'(1) k by (auto simp: map_of_eq_None_iff)
  have same: "map_of cs k' = map_of cs0 k'" if "k' \<in> fst ` set rest" for k'
    using that k v(4) by (auto split: option.splits)
  have rest: "list_all (\<lambda>kf. entry_ok u (snd kf) (map_of cs (fst kf)) \<and>
      (case map_of cs (fst kf) of None \<Rightarrow> f_secret (snd kf) \<or> fld (fst kf) cfg = JUndef \<or> fld (fst kf) cfg = JStr []
       | Some s \<Rightarrow> from_input fs cfg was (fst kf) (snd kf) s)) rest"
    using IH Cons.prems(2) same by (simp add: list_all_iff kf)
  show ?case
  proof (cases r)
    case None
    then have f: "v = JUndef \<or> v = JStr []" "f_optional f" using v(2) check_value_None by auto
    then have "f_secret f \<or> fld k cfg = JUndef \<or> fld k cfg = JStr []"
      using v(1) by (auto simp: field_value_def split: if_splits option.splits)
    then show ?thesis using f rest IH' v(4) None out by (auto simp: kf in_order_Cons entry_ok_def)
  next
    case (Some s)
    then have f: "from_input fs cfg was k f s" "value_ok u f s" using v(1,2) check_value_Some field_value_JStr by auto
    have "in_order rest cs = cs0" using in_order_cong [of rest cs cs0] same IH'(2) by auto
    then show ?thesis using f rest IH'(1) v(4) Some by (auto simp: kf in_order_Cons entry_ok_def)
  qed
qed (simp add: in_order_def)

lemma adapters_distinct: "map_of ADAPTERS ty = Some fs \<Longrightarrow> distinct (map fst fs)"
proof -
  assume "map_of ADAPTERS ty = Some fs"
  then have "fs \<in> snd ` set ADAPTERS" by (force dest: map_of_SomeD)
  moreover have "list_all (\<lambda>e. distinct (map fst (snd e))) ADAPTERS" by (simp add: ADAPTERS_def Let_def)
  ultimately show ?thesis by (auto simp: list_all_iff)
qed

lemma check_channel_cases:
  assumes "check_channel u old i ids v = Inr ch"
  obtains lbl fs cfg s where "is_obj v" "cfg = (if is_obj (fld ''config'' v) then fld ''config'' v else JObj [])"
    "fld ''id'' v = JStr (ch_id ch)" "is_channel_id (ch_id ch)" "ch_id ch \<notin> set ids"
    "fld ''type'' v = JStr (ch_type ch)" "map_of ADAPTERS (ch_type ch) = Some fs"
    "ch_name ch = js_trim s" "js_trim s \<noteq> []" "length s \<le> 60" "\<not> list_ex is_control s"
    "check_fields u lbl fs cfg (old_channel old (ch_id ch) (ch_type ch)) fs = Inr (ch_config ch)"
    "list_ex (\<lambda>kv. is_envref (snd kv)) (ch_config ch) \<or> adapter_check (ch_type ch) (ch_config ch) = []"
proof -
  let ?lbl = "channel_label i v" and ?cfg = "if is_obj (fld ''config'' v) then fld ''config'' v else JObj []"
  have o: "is_obj v" using assms by (auto simp: check_channel_def split: if_splits)
  from assms o obtain cid ty fs name config where
    c: "check_id ?lbl ids (fld ''id'' v) = Inr cid" "check_type ?lbl (fld ''type'' v) = Inr (ty, fs)"
      "check_channel_name ?lbl (fld ''name'' v) = Inr name" "check_fields u ?lbl fs ?cfg (old_channel old cid ty) fs = Inr config"
      "check_together ?lbl ty config = Inr ()"
      "ch_id ch = cid" "ch_type ch = ty" "ch_name ch = name" "ch_config ch = config"
    by (auto simp: check_channel_def Let_def simp del: fld.simps)
  obtain s where s: "name = js_trim s" "js_trim s \<noteq> []" "length s \<le> 60" "\<not> list_ex is_control s"
    using c(3) by (auto simp: check_channel_name_def split: jsval.splits if_splits)
  have i: "fld ''id'' v = JStr cid" "is_channel_id cid" "cid \<notin> set ids"
    using c(1) by (auto simp: check_id_def simp del: fld.simps split: jsval.splits if_splits)
  have t: "fld ''type'' v = JStr ty" "map_of ADAPTERS ty = Some fs"
    using c(2) by (auto simp: check_type_def simp del: fld.simps split: jsval.splits if_splits option.splits)
  have g: "list_ex (\<lambda>kv. is_envref (snd kv)) config \<or> adapter_check ty config = []"
    using c(5) by (auto simp: check_together_def Let_def split: if_splits)
  show ?thesis by (rule that [of ?cfg fs s ?lbl]) (use o c i t g s in \<open>simp_all del: fld.simps\<close>)
qed

lemma old_channelD: "old_channel old i ty = Some w \<Longrightarrow> w \<in> set (nc_channels old) \<and> ch_id w = i \<and> ch_type w = ty"
  by (auto simp: old_channel_def dest: find_SomeD)

lemma check_channel_ok:
  assumes "check_channel u old i ids v = Inr ch" "list_all (chan_ok u) (nc_channels old)"
  shows "chan_ok u ch \<and> ch_id ch \<notin> set ids"
proof -
  from assms(1) obtain lbl fs cfg s where c: "is_channel_id (ch_id ch)" "ch_id ch \<notin> set ids" "map_of ADAPTERS (ch_type ch) = Some fs"
    "ch_name ch = js_trim s" "js_trim s \<noteq> []" "length s \<le> 60" "\<not> list_ex is_control s"
    "check_fields u lbl fs cfg (old_channel old (ch_id ch) (ch_type ch)) fs = Inr (ch_config ch)"
    "list_ex (\<lambda>kv. is_envref (snd kv)) (ch_config ch) \<or> adapter_check (ch_type ch) (ch_config ch) = []"
    by (rule check_channel_cases)
  note f = check_fields_made [OF c(8) adapters_distinct [OF c(3)]]
  have "map_of (ch_config ch) k \<noteq> Some SECRET" if kf: "(k, fl) \<in> set fs" and sec: "f_secret fl" for k fl
  proof
    assume "map_of (ch_config ch) k = Some SECRET"
    then have "from_input fs cfg (old_channel old (ch_id ch) (ch_type ch)) k fl SECRET"
      using f kf by (fastforce simp: list_all_iff split: option.splits)
    then obtain w where w: "old_channel old (ch_id ch) (ch_type ch) = Some w" "map_of (ch_config w) k = Some SECRET"
      using sec by (auto simp: from_input_def)
    then have "chan_ok u w" "ch_type w = ch_type ch" using old_channelD assms(2) by (auto simp: list_all_iff)
    then have "config_ok u fs (ch_config w)" using c(3) by (simp add: chan_ok_def)
    then show False using kf sec w(2) by (fastforce simp: config_ok_def list_all_iff)
  qed
  then have "config_ok u fs (ch_config ch)" using f by (auto simp: config_ok_def list_all_iff)
  moreover have "\<not> list_ex is_control (js_trim s)" using c(7) set_js_trim [of s] by (auto simp: list_ex_iff)
  moreover have "length (js_trim s) \<le> 60" using c(6) length_js_trim [of s] by simp
  ultimately show ?thesis using c by (simp add: chan_ok_def)
qed

lemma check_channel_list_ok:
  "check_channel_list u old i ids vs = Inr chs \<Longrightarrow> list_all (chan_ok u) (nc_channels old) \<Longrightarrow>
   length chs = length vs \<and> list_all (chan_ok u) chs \<and> distinct (map ch_id chs) \<and> ch_id ` set chs \<inter> set ids = {}"
  by (induction vs arbitrary: i ids chs) (fastforce dest: check_channel_ok)+

lemma check_time_ok: "check_time msg v = Inr s \<longleftrightarrow> v = JStr s \<and> is_time s"
  by (auto simp: check_time_def split: jsval.splits if_splits)

lemma checkChannels_cases:
  assumes "checkChannels u input old = Inr c"
  obtains vs where "fld ''channels'' input = JArr vs" "length vs \<le> 20" "check_channel_list u old 0 [] vs = Inr (nc_channels c)"
    "check_quiet (fld ''quiet'' input) = Inr (nc_quiet c)" "is_time (nc_digestAt c)"
proof -
  have "is_time ''07:00''" by (simp add: is_time_def is_digit_def)
  then show ?thesis using assms that
    by (fastforce simp: checkChannels_def check_time_ok simp del: fld.simps split: jsval.splits if_splits)
qed

lemma checkChannels_ok:
  assumes "checkChannels u input old = Inr c" "conf_ok u old"
  shows "conf_ok u c"
proof -
  from assms(1) obtain vs where c: "length vs \<le> 20" "check_channel_list u old 0 [] vs = Inr (nc_channels c)"
    "check_quiet (fld ''quiet'' input) = Inr (nc_quiet c)" "is_time (nc_digestAt c)" by (rule checkChannels_cases)
  have "case nc_quiet c of None \<Rightarrow> True | Some (a, b) \<Rightarrow> is_time a \<and> is_time b \<and> a \<noteq> b"
    using c(3) by (cases "nc_quiet c") (auto simp: check_quiet_def Let_def check_time_ok split: if_splits)
  then show ?thesis using c(1,4) check_channel_list_ok [OF c(2)] assms(2) by (simp add: conf_ok_def)
qed

lemma made_ok: "made u c \<Longrightarrow> conf_ok u c"
proof (induction rule: made.induct)
  case made_none
  show ?case by (simp add: conf_ok_def no_channels_def is_time_def is_digit_def)
qed (auto intro: checkChannels_ok)

section \<open>A checked configuration passes its check\<close>

definition config_js :: "(string \<times> string) list \<Rightarrow> jsval" where
  "config_js cs = JObj (map (\<lambda>(k, v). (k, JStr v)) cs)"

lemma fld_config_js: "fld k (config_js cs) = (case map_of cs k of None \<Rightarrow> JUndef | Some s \<Rightarrow> JStr s)"
  by (induction cs) (auto simp: config_js_def)

lemma channel_js_flds:
  "fld ''id'' (channel_js ch) = JStr (ch_id ch)" "fld ''type'' (channel_js ch) = JStr (ch_type ch)"
  "fld ''name'' (channel_js ch) = JStr (ch_name ch)" "fld ''min'' (channel_js ch) = JStr (sev_name (ch_min ch))"
  "fld ''on'' (channel_js ch) = JBool (ch_on ch)" "fld ''digest'' (channel_js ch) = (if ch_digest ch then JUndef else JBool False)"
  "fld ''config'' (channel_js ch) = config_js (ch_config ch)" "is_obj (channel_js ch)"
  by (simp_all add: channel_js_def config_js_def)

lemma sev_name_lookup: "lookup_str SEVERITIES (JStr (sev_name s)) = Some s"
  by (cases s) (simp_all add: lookup_str_def SEVERITIES_def sev_name_def)

lemma check_digest_js: "check_digest lbl (if d then JUndef else JBool False) = Inr d"
  by (simp add: check_digest_def)

lemma check_channel_again:
  assumes "chan_ok u ch" "ch_id ch \<notin> set ids" "map_of ADAPTERS (ch_type ch) = Some fs"
    and "\<And>lbl. list_all (\<lambda>kf. field_value lbl fs (config_js cs') (old_channel old (ch_id ch) (ch_type ch)) (fst kf) (snd kf) =
        Inr (case map_of (ch_config ch) (fst kf) of None \<Rightarrow> JUndef | Some s \<Rightarrow> JStr s)) fs"
  shows "check_channel u old i ids (channel_js (ch\<lparr>ch_config := cs'\<rparr>)) = Inr ch"
proof -
  have ok: "config_ok u fs (ch_config ch)" using assms(1,3) by (simp add: chan_ok_def)
  have "check_fields u lbl fs (config_js cs') (old_channel old (ch_id ch) (ch_type ch)) fs = Inr (ch_config ch)" for lbl
  proof -
    have "check_fields u lbl fs (config_js cs') (old_channel old (ch_id ch) (ch_type ch)) fs = Inr (in_order fs (ch_config ch))"
      using ok assms(4) [of lbl] by (intro check_fields_give) (auto simp: config_ok_def list_all_iff)
    then show ?thesis using ok by (simp add: config_ok_def)
  qed
  moreover have "is_obj (config_js cs')" by (simp add: config_js_def)
  moreover have "check_together lbl (ch_type ch) (ch_config ch) = Inr ()" for lbl
    using assms(1) by (auto simp: check_together_def chan_ok_def Let_def)
  ultimately show ?thesis using assms(1-3)
    by (simp add: check_channel_def channel_js_flds check_id_def check_type_def check_channel_name_def check_min_def
        sev_name_lookup check_on_def check_digest_js chan_ok_def Let_def del: bindE_eq_Inr)
qed

text \<open>As it was saved: no secret is masked, so each value stands for itself.\<close>

lemma saved_channel_again:
  assumes "chan_ok u ch" "ch_id ch \<notin> set ids"
  shows "check_channel u old i ids (channel_js ch) = Inr ch"
proof -
  obtain fs where fs: "map_of ADAPTERS (ch_type ch) = Some fs" "config_ok u fs (ch_config ch)"
    using assms(1) by (auto simp: chan_ok_def split: option.splits)
  have "check_channel u old i ids (channel_js (ch\<lparr>ch_config := ch_config ch\<rparr>)) = Inr ch"
    using fs(2) by (intro check_channel_again [OF assms fs(1)])
      (auto simp: list_all_iff field_value_def fld_config_js config_ok_def split: option.splits)
  then show ?thesis by simp
qed

lemma map_of_mask:
  "map_of (ch_config (mask_channel ch)) k = map_option (\<lambda>v. if secret_field (ch_type ch) k \<and> \<not> is_envref v then SECRET else v) (map_of (ch_config ch) k)"
proof -
  have "map_of (map (\<lambda>(k, v). (k, g k v)) cs) k = map_option (g k) (map_of cs k)" for g :: "string \<Rightarrow> string \<Rightarrow> string" and cs
    by (induction cs) auto
  then show ?thesis by (simp add: mask_channel_def)
qed

lemma same_addr_refl: "v \<noteq> Some [] \<Longrightarrow> same_addr (case v of None \<Rightarrow> JUndef | Some s \<Rightarrow> JStr s) v"
  by (auto simp: same_addr_def split: option.split)

text \<open>As the page shows it: the masked secrets come from the channel itself, none of whose addresses changed.\<close>

lemma masked_channel_again:
  assumes "chan_ok u ch" "ch_id ch \<notin> set ids" "old_channel old (ch_id ch) (ch_type ch) = Some ch"
  shows "check_channel u old i ids (channel_js (mask_channel ch)) = Inr ch"
proof -
  obtain fs where fs: "map_of ADAPTERS (ch_type ch) = Some fs" "config_ok u fs (ch_config ch)"
    using assms(1) by (auto simp: chan_ok_def split: option.splits)
  have sec: "secret_field (ch_type ch) k = f_secret f" if "(k, f) \<in> set fs" for k f
    using that map_of_is_SomeI [OF adapters_distinct [OF fs(1)] that] fs(1) by (simp add: secret_field_def)
  have ne: "map_of (ch_config ch) k \<noteq> Some []" "f_secret f \<Longrightarrow> map_of (ch_config ch) k \<noteq> Some SECRET" if "(k, f) \<in> set fs" for k f
    using that fs(2) by (auto simp: config_ok_def list_all_iff entry_ok_def value_ok_def split: option.splits)
  have shown: "fld k (config_js (ch_config (mask_channel ch))) =
      (case map_of (ch_config ch) k of None \<Rightarrow> JUndef | Some v \<Rightarrow> JStr (if f_secret f \<and> \<not> is_envref v then SECRET else v))"
    if "(k, f) \<in> set fs" for k f
    using sec [OF that] by (simp add: fld_config_js map_of_mask split: option.split)
  have "same_addr (fld k (config_js (ch_config (mask_channel ch)))) (map_of (ch_config ch) k)" if "(k, f) \<in> set fs" "\<not> f_secret f" for k f
    using shown [OF that(1)] that(2) same_addr_refl [OF ne(1) [OF that(1)]] by (cases "map_of (ch_config ch) k") simp_all
  then have still: "\<not> moved fs (config_js (ch_config (mask_channel ch))) ch"
    by (auto simp: moved_def list_ex_iff)
  have "field_value lbl fs (config_js (ch_config (mask_channel ch))) (Some ch) k f =
        Inr (case map_of (ch_config ch) k of None \<Rightarrow> JUndef | Some s \<Rightarrow> JStr s)" if "(k, f) \<in> set fs" for lbl k f
    using shown [OF that] ne(2) [OF that] still by (cases "map_of (ch_config ch) k") (auto simp: field_value_def)
  then have "list_all (\<lambda>kf. field_value lbl fs (config_js (ch_config (mask_channel ch))) (old_channel old (ch_id ch) (ch_type ch)) (fst kf) (snd kf) =
        Inr (case map_of (ch_config ch) (fst kf) of None \<Rightarrow> JUndef | Some s \<Rightarrow> JStr s)) fs" for lbl
    using assms(3) by (simp add: list_all_iff)
  from check_channel_again [OF assms(1,2) fs(1) this] show ?thesis
    by (simp add: mask_channel_def)
qed

lemma check_list_again:
  assumes "\<And>ch i ids. ch \<in> set chs \<Longrightarrow> ch_id ch \<notin> set ids \<Longrightarrow> check_channel u old i ids (channel_js (g ch)) = Inr ch"
    and "distinct (map ch_id chs)" "ch_id ` set chs \<inter> set ids = {}"
  shows "check_channel_list u old i ids (map (\<lambda>ch. channel_js (g ch)) chs) = Inr chs"
  using assms
proof (induction chs arbitrary: i ids)
  case (Cons ch chs)
  have "check_channel u old i ids (channel_js (g ch)) = Inr ch" using Cons.prems by auto
  moreover have "check_channel_list u old (i + 1) (ch_id ch # ids) (map (\<lambda>ch. channel_js (g ch)) chs) = Inr chs"
    using Cons.prems by (intro Cons.IH) auto
  ultimately show ?case by simp
qed simp

lemma conf_again:
  assumes "conf_ok u c"
    and "\<And>ch i ids. ch \<in> set (nc_channels c) \<Longrightarrow> ch_id ch \<notin> set ids \<Longrightarrow> check_channel u old i ids (channel_js (g ch)) = Inr ch"
  shows "checkChannels u (conf_js (c\<lparr>nc_channels := map g (nc_channels c)\<rparr>)) old = Inr c"
proof -
  have l: "check_channel_list u old 0 [] (map (\<lambda>ch. channel_js (g ch)) (nc_channels c)) = Inr (nc_channels c)"
    using assms by (intro check_list_again) (auto simp: conf_ok_def)
  have q: "check_quiet (case nc_quiet c of None \<Rightarrow> JNull | Some (a, b) \<Rightarrow> JObj [(''from'', JStr a), (''to'', JStr b)]) = Inr (nc_quiet c)"
    using assms(1) by (auto simp: conf_ok_def check_quiet_def check_time_def split: option.splits)
  have "is_time (nc_digestAt c)" "length (nc_channels c) \<le> 20" using assms(1) by (simp_all add: conf_ok_def)
  then show ?thesis using l q by (simp add: checkChannels_def conf_js_def check_time_def comp_def)
qed

lemma find_own: "distinct (map ch_id chs) \<Longrightarrow> ch \<in> set chs \<Longrightarrow> find (\<lambda>x. ch_id x = ch_id ch \<and> ch_type x = ch_type ch) chs = Some ch"
  by (induction chs) auto

lemma view_again:
  assumes ok: "conf_ok u c"
  shows "checkChannels u (conf_js (view_conf c)) c = Inr c"
proof -
  have "chan_ok u ch \<and> old_channel c (ch_id ch) (ch_type ch) = Some ch" if "ch \<in> set (nc_channels c)" for ch
    using that ok find_own [of "nc_channels c" ch] by (simp add: old_channel_def conf_ok_def list_all_iff)
  then show ?thesis
    unfolding view_conf_def using masked_channel_again by (intro conf_again [OF ok]) auto
qed

section \<open>Properties\<close>


definition demo_channels :: jsval where
  "demo_channels = JObj [(''channels'', JArr [JObj [(''id'', JStr ''ch_a1''), (''type'', JStr ''gotify''), (''name'', JStr ''phone''),
     (''min'', JStr ''warning''), (''on'', JBool True),
     (''config'', JObj [(''server'', JStr ''https://push.example''), (''token'', JStr ''t0ken'')])]]), (''quiet'', JNull)]"

definition demo_conf :: nconf where
  "demo_conf = \<lparr>nc_channels = [\<lparr>ch_id = ''ch_a1'', ch_type = ''gotify'', ch_name = ''phone'', ch_min = Warning, ch_on = True, ch_digest = True,
     ch_config = [(''server'', ''https://push.example''), (''token'', ''t0ken'')]\<rparr>], nc_quiet = None, nc_digestAt = ''07:00''\<rparr>"

definition demo_url :: "string \<Rightarrow> bool" where
  "demo_url s \<longleftrightarrow> starts_with ''https://'' s"

lemma demo_checked: "checkChannels demo_url demo_channels no_channels = Inr demo_conf"
  by code_simp

lemma demo_made: "made demo_url demo_conf"
  by (rule made_check [OF made_none demo_checked])


lemma from_input_was:
  assumes "from_input fs cfg (Some w) k f s" "fld k cfg \<noteq> JStr s"
  shows "map_of (ch_config w) k = Some s" "\<not> moved fs cfg w"
  using assms by (auto simp: from_input_def)

text \<open>Not moved: an address of the channel is the one it had.\<close>

lemma kept_address:
  assumes "check_fields u lbl fs cfg was fs = Inr cs" "distinct (map fst fs)" "\<not> moved fs cfg w" "config_ok u fs (ch_config w)"
    and "(k2, f2) \<in> set fs" "f_url f2 \<or> f_dest f2" "\<not> f_secret f2"
  shows "map_of cs k2 = map_of (ch_config w) k2"
proof -
  from check_fields_made [OF assms(1,2)] have "list_all (\<lambda>kf. entry_ok u (snd kf) (map_of cs (fst kf)) \<and>
      (case map_of cs (fst kf) of None \<Rightarrow> f_secret (snd kf) \<or> fld (fst kf) cfg = JUndef \<or> fld (fst kf) cfg = JStr []
       | Some s \<Rightarrow> from_input fs cfg was (fst kf) (snd kf) s)) fs" by blast
  from list_allD [OF this assms(5)] have new: "entry_ok u f2 (map_of cs k2)"
    "case map_of cs k2 of None \<Rightarrow> fld k2 cfg = JUndef \<or> fld k2 cfg = JStr [] | Some s \<Rightarrow> fld k2 cfg = JStr s"
    using assms(7) by (auto simp: from_input_def split: option.splits)
  have "same_addr (fld k2 cfg) (map_of (ch_config w) k2)" using assms(3,5,6,7) unfolding moved_def list_ex_iff by force
  moreover have "map_of (ch_config w) k2 \<noteq> Some []" using assms(4) list_allD [OF _ assms(5)]
    unfolding config_ok_def by (fastforce simp: entry_ok_def value_ok_def)
  ultimately show ?thesis using new
    by (cases "map_of cs k2"; cases "map_of (ch_config w) k2") (auto simp: same_addr_def entry_ok_def value_ok_def)
qed

lemma check_channel_list_member:
  "check_channel_list u old i ids vs = Inr chs \<Longrightarrow> ch \<in> set chs \<Longrightarrow> \<exists>v\<in>set vs. \<exists>i ids. check_channel u old i ids v = Inr ch"
  by (induction vs arbitrary: i ids chs) fastforce+

text \<open>
  C19. A saved secret goes only where it went: when a save is accepted and a channel of it holds a
  secret, either that very secret was typed into the save, or the channel existed before with the
  same kind and the same secret and every address of it that is not itself secret is unchanged. So a
  session that was never told a token cannot send it to a server of its choice.
\<close>

theorem saved_secret_stays:
  assumes "made httpUrl old" "checkChannels httpUrl input old = Inr c" "ch \<in> set (nc_channels c)"
    and "map_of ADAPTERS (ch_type ch) = Some fs" "(k, f) \<in> set fs" "f_secret f" "map_of (ch_config ch) k = Some s"
  shows "(\<exists>v. v \<in> set (case fld ''channels'' input of JArr vs \<Rightarrow> vs | _ \<Rightarrow> []) \<and>
        fld ''id'' v = JStr (ch_id ch) \<and> fld k (fld ''config'' v) = JStr s) \<or>
    (\<exists>w. w \<in> set (nc_channels old) \<and> ch_id w = ch_id ch \<and> ch_type w = ch_type ch \<and> map_of (ch_config w) k = Some s \<and>
        list_all (\<lambda>kf. (f_url (snd kf) \<or> f_dest (snd kf)) \<and> \<not> f_secret (snd kf) \<longrightarrow>
          map_of (ch_config ch) (fst kf) = map_of (ch_config w) (fst kf)) fs)"
proof -
  obtain vs where vs: "fld ''channels'' input = JArr vs" "check_channel_list httpUrl old 0 [] vs = Inr (nc_channels c)"
    using assms(2) by (rule checkChannels_cases)
  obtain v i ids where v: "v \<in> set vs" "check_channel httpUrl old i ids v = Inr ch"
    using check_channel_list_member [OF vs(2) assms(3)] by blast
  from v(2) obtain lbl fs' cfg where c: "cfg = (if is_obj (fld ''config'' v) then fld ''config'' v else JObj [])"
    "fld ''id'' v = JStr (ch_id ch)" "map_of ADAPTERS (ch_type ch) = Some fs'"
    "check_fields httpUrl lbl fs' cfg (old_channel old (ch_id ch) (ch_type ch)) fs' = Inr (ch_config ch)"
    by (rule check_channel_cases)
  have fs: "fs' = fs" using c(3) assms(4) by simp
  note made' = check_fields_made [OF c(4) adapters_distinct [OF c(3)]]
  have "list_all (\<lambda>kf. case map_of (ch_config ch) (fst kf) of None \<Rightarrow> True
      | Some s \<Rightarrow> from_input fs cfg (old_channel old (ch_id ch) (ch_type ch)) (fst kf) (snd kf) s) fs"
    using made' unfolding fs list_all_iff by (auto split: option.splits)
  from list_allD [OF this assms(5)] have "from_input fs cfg (old_channel old (ch_id ch) (ch_type ch)) k f s"
    using assms(7) by simp
  then consider (typed) "fld k cfg = JStr s"
    | (kept) w where "old_channel old (ch_id ch) (ch_type ch) = Some w" "map_of (ch_config w) k = Some s" "\<not> moved fs cfg w"
    by (auto simp: from_input_def)
  then show ?thesis
  proof cases
    case typed
    then have "fld k (fld ''config'' v) = JStr s" using c(1) by (auto split: if_splits)
    then show ?thesis using v(1) vs(1) c(2) by auto
  next
    case kept
    have w: "w \<in> set (nc_channels old)" "ch_id w = ch_id ch" "ch_type w = ch_type ch" using old_channelD [OF kept(1)] by auto
    then have "config_ok httpUrl fs (ch_config w)"
      using made_ok [OF assms(1)] assms(4) by (auto simp: conf_ok_def list_all_iff chan_ok_def)
    then have "list_all (\<lambda>kf. (f_url (snd kf) \<or> f_dest (snd kf)) \<and> \<not> f_secret (snd kf) \<longrightarrow>
        map_of (ch_config ch) (fst kf) = map_of (ch_config w) (fst kf)) fs"
      using kept_address [OF c(4) [unfolded fs] adapters_distinct [OF assms(4)] kept(3)] by (auto simp: list_all_iff)
    then show ?thesis using w kept(2) by blast
  qed
qed

theorem saved_secret_stays_witness:
  "(\<exists>v. v \<in> set (case fld ''channels'' (conf_js (view_conf demo_conf)) of JArr vs \<Rightarrow> vs | _ \<Rightarrow> []) \<and>
        fld ''id'' v = JStr ''ch_a1'' \<and> fld ''token'' (fld ''config'' v) = JStr ''t0ken'') \<or>
    (\<exists>w. w \<in> set (nc_channels demo_conf) \<and> ch_id w = ''ch_a1'' \<and> map_of (ch_config w) ''token'' = Some ''t0ken'')"
proof -
  let ?ch = "hd (nc_channels demo_conf)" and ?f = "plain_field\<lparr>f_secret := True, f_header := True\<rparr>"
  let ?fs = "[(''server'', plain_field\<lparr>f_url := True\<rparr>), (''token'', ?f)]"
  have "checkChannels demo_url (conf_js (view_conf demo_conf)) demo_conf = Inr demo_conf" by code_simp
  moreover have "?ch \<in> set (nc_channels demo_conf)" "map_of (ch_config ?ch) ''token'' = Some ''t0ken''" "ch_id ?ch = ''ch_a1''"
    by (simp_all add: demo_conf_def)
  moreover have "map_of ADAPTERS (ch_type ?ch) = Some ?fs" by (simp add: demo_conf_def ADAPTERS_def Let_def)
  moreover have "(''token'', ?f) \<in> set ?fs" "f_secret ?f" by simp_all
  ultimately show ?thesis using saved_secret_stays [OF demo_made, of "conf_js (view_conf demo_conf)" demo_conf ?ch ?fs "''token''" ?f "''t0ken''"]
    by auto
qed

section \<open>The environment\<close>

text \<open>Of the environment only names that start with SERVITALS\_NOTIFY\_ are ever read.\<close>

lemma envref_name: "is_envref v \<Longrightarrow> starts_with ''SERVITALS_NOTIFY_'' (drop 1 v)"
  by (cases v) (auto simp: is_envref_def starts_with_def ENV_PREFIX_def)

lemma resolve_env:
  assumes "\<And>n. starts_with ''SERVITALS_NOTIFY_'' n \<Longrightarrow> env n = env' n"
  shows "resolve_fields u env config fs = resolve_fields u env' config fs"
proof (induction fs)
  case (Cons kf fs)
  then show ?case using assms [OF envref_name] by (cases kf) (simp split: option.split)
qed simp

lemma resolved_env:
  "(\<And>n. starts_with ''SERVITALS_NOTIFY_'' n \<Longrightarrow> env n = env' n) \<Longrightarrow> resolved u env ch = resolved u env' ch"
  unfolding resolved_def by (rule resolve_env)

end
