(* ===== verification/Notify.thy ===== *)
theory Notify
  imports Channels History "HOL-Library.Sublist"
begin

text \<open>
  Where alerts go, the second half of \<^verbatim>\<open>src/hub/lib/notify.js\<close>: the messages (\<open>line\<close>, \<open>alertMessage\<close>,
  cut with \<open>cut\<close> and \<open>fit\<close>), the request each kind of channel makes of one (\<open>outgoing\<close>), and the
  notifier: quiet hours, the digest, the queues and the retries. The few strings of
  \<^verbatim>\<open>src/hub/lib/i18n.js\<close> that messages use are \<open>STRINGS\<close>, filled by \<open>tr\<close>. One \<open>char\<close> is one code point
  below 256; \<open>ELLIPSIS\<close> stands for U+2026. The hub's local time is the argument \<open>lt\<close>: minutes since
  midnight and the name of the day. What JavaScript runs asynchronously (the sends of a channel) are
  steps of their own: \<open>queue_take\<close> takes the next message of a queue, \<open>sent\<close> is the end of one try.
\<close>

section \<open>Words\<close>

definition is_word :: "char \<Rightarrow> bool" where
  "is_word c \<longleftrightarrow> is_alnum c \<or> c = CHR ''_''"

text \<open>\<^verbatim>\<open>s.replace(/\{(\w+)\}/g, ...)\<close>\<close>

function fill :: "(string \<times> string) list \<Rightarrow> string \<Rightarrow> string" where
  "fill vars [] = []"
| "fill vars (c # cs) =
    (let w = takeWhile is_word cs; rest = dropWhile is_word cs in
     if c = CHR ''{'' \<and> w \<noteq> [] \<and> rest \<noteq> [] \<and> hd rest = CHR ''}''
     then (case map_of vars w of Some v \<Rightarrow> v | None \<Rightarrow> c # w @ ''}'') @ fill vars (tl rest)
     else c # fill vars cs)"
  by pat_completeness auto
termination
proof (relation "measure (\<lambda>(vars, s). length s)")
  fix vars :: "(string \<times> string) list" and c cs w rest
  assume "rest = dropWhile is_word cs"
  then have "length (tl rest) \<le> length cs" using length_dropWhile_le [of is_word cs] by simp
  then show "((vars, tl rest), vars, c # cs) \<in> measure (\<lambda>(vars, s). length s)" by simp
qed simp_all

definition STRINGS :: "(string \<times> string) list" where
  "STRINGS =
   [(''alert.sev.critical'', ''critical''), (''alert.sev.warning'', ''warning''), (''alert.sev.info'', ''info''),
    (''alert.kind.firing'', ''fired''), (''alert.kind.resolved'', ''resolved''), (''alert.kind.repeat'', ''still firing''),
    (''alert.kind.ended'', ''no longer watched''),
    (''alert.rule.offline'', ''offline''), (''alert.rule.diskFull'', ''disk full''), (''alert.rule.diskCritical'', ''disk critical''),
    (''alert.rule.memory'', ''memory''), (''alert.rule.cpu'', ''cpu''), (''alert.rule.temperature'', ''temperature''),
    (''alert.rule.containerDown'', ''container down''), (''alert.rule.failedUnits'', ''failed units''),
    (''alert.rule.rebootRequired'', ''reboot required''), (''alert.rule.securityUpdates'', ''security updates''),
    (''notify.title'', ''{head}: {what} on {node}''), (''notify.line'', ''{kind}: {what} on {node}''),
    (''notify.value'', ''value {value}''), (''notify.since'', ''since {time}''),
    (''notify.summaryTitle'', ''after quiet hours: {n} held''), (''notify.digestTitle'', ''daily digest: {n} events''),
    (''notify.testTitle'', ''servitals test''), (''notify.testText'', ''This channel works.''),
    (''notify.more'', ''+{n} more in the alert log'')]"

definition tr :: "string \<Rightarrow> (string \<times> string) list \<Rightarrow> string" where
  "tr key vars = fill vars (case map_of STRINGS key of Some s \<Rightarrow> s | None \<Rightarrow> key)"

section \<open>Cutting texts\<close>

definition ELLIPSIS :: char where "ELLIPSIS = CHR 0x85"

definition cut :: "string \<Rightarrow> nat \<Rightarrow> string" where
  "cut s n = (if length s > n then take (n - 1) s @ [ELLIPSIS] else s)"

abbreviation NL :: char where "NL \<equiv> CHR 10"

definition more_line :: "nat \<Rightarrow> string" where
  "more_line n = tr ''notify.more'' [(''n'', show_nat n)]"

text \<open>The loop of \<^verbatim>\<open>fit\<close>: the lines that still leave room for the line that counts the rest.\<close>

fun fit_lines :: "nat \<Rightarrow> nat \<Rightarrow> string list \<Rightarrow> string list" where
  "fit_lines n len [] = []"
| "fit_lines n len (l # ls) =
    (if len + length l + 1 + length (more_line (length (l # ls))) + 1 > n then []
     else l # fit_lines n (len + length l + 1) ls)"

definition fit :: "string \<Rightarrow> nat \<Rightarrow> string" where
  "fit text n =
    (if length text \<le> n then text
     else let ls = split_on NL text; out = fit_lines n 0 ls in
       if out = [] then cut text n
       else join_with [NL] out @ [NL] @ more_line (length ls - length out))"

section \<open>Messages\<close>

definition upper_of :: "char \<Rightarrow> char" where
  "upper_of c = char_of ((of_char c :: nat) - 32)"

text \<open>\<^verbatim>\<open>String(e.rule).replace(/_([a-z])/g, (m, c) => c.toUpperCase())\<close>\<close>

fun camel :: "string \<Rightarrow> string" where
  "camel [] = []"
| "camel [c] = [c]"
| "camel (c # d # cs) = (if c = CHR ''_'' \<and> is_lower d then upper_of d # camel cs else c # camel (d # cs))"

definition what :: "event \<Rightarrow> string" where
  "what e =
    (let k = camel (e_rule e); word = map_of STRINGS (''alert.rule.'' @ k) in
     (if e_name e \<noteq> [] then e_name e else case word of Some w \<Rightarrow> w | None \<Rightarrow> e_rule e) @
     (if e_sub e \<noteq> [] then '' '' @ e_sub e else []))"

definition UNIT :: "(string \<times> string) list" where
  "UNIT = [(''disk.used'', ''%''), (''mem'', ''%''), (''cpu'', ''%''), (''temp'', '' '' @ [CHR 0xB0, CHR ''C''])]"

text \<open>A number of tenths as JavaScript prints it.\<close>

definition show_tenths :: "int \<Rightarrow> string" where
  "show_tenths k = (let a = nat \<bar>k\<bar>; whole = show_nat (a div 10) in
     (if k < 0 then ''-'' else []) @ whole @ (if a mod 10 = 0 then [] else ''.'' @ show_nat (a mod 10)))"

definition valueOf :: "event \<Rightarrow> string" where
  "valueOf e = (case e_value e of
      None \<Rightarrow> []
    | Some v \<Rightarrow> if (if e_metric e \<noteq> [] then e_metric e else e_rule e) \<in> {''reboot_required'', ''container.down'', ''offline''} then []
        else show_tenths (js_round (v * 10)) @ (case map_of UNIT (e_metric e) of None \<Rightarrow> [] | Some u \<Rightarrow> u))"

type_synonym localtime = "ms \<Rightarrow> nat \<times> string"

definition pad2 :: "nat \<Rightarrow> string" where
  "pad2 n = (if n < 10 then ''0'' @ show_nat n else show_nat n)"

definition clock :: "localtime \<Rightarrow> ms \<Rightarrow> string" where
  "clock lt t = pad2 (fst (lt t) div 60) @ '':'' @ pad2 (fst (lt t) mod 60)"

definition kind_name :: "event \<Rightarrow> string" where
  "kind_name e = (if e_ended e then ''ended'' else case e_kind e of EResolved \<Rightarrow> ''resolved'' | ERepeat \<Rightarrow> ''repeat'' | EFiring \<Rightarrow> ''firing'')"

definition node_label :: "event \<Rightarrow> string" where
  "node_label e = (if e_nodeName e \<noteq> [] then e_nodeName e else e_node e)"

definition line :: "event \<Rightarrow> string" where
  "line e = tr ''notify.line'' [(''kind'', tr (''alert.kind.'' @ kind_name e) []), (''what'', what e), (''node'', node_label e)] @
     (if valueOf e \<noteq> [] then [CHR '' '', CHR 0xB7, CHR '' ''] @ valueOf e else [])"

record nmsg =
  m_kind :: string
  m_severity :: severity
  m_resolved :: bool
  m_title :: string
  m_text :: string
  m_event :: "event option"
  m_txn :: string

definition alertMessage :: "localtime \<Rightarrow> event \<Rightarrow> nmsg" where
  "alertMessage lt e =
    (let kind = kind_name e;
         title = tr ''notify.title'' [(''head'', if kind = ''firing'' then tr (''alert.sev.'' @ sev_name (e_severity e)) [] else tr (''alert.kind.'' @ kind) []),
                   (''what'', what e), (''node'', node_label e)];
         v = valueOf e;
         text = (if v \<noteq> [] then tr ''notify.value'' [(''value'', v)] @ [NL] else []) @
                tr ''notify.since'' [(''time'', clock lt (if e_since e \<noteq> 0 then e_since e else e_at e))] in
     \<lparr>m_kind = ''alert'', m_severity = e_severity e, m_resolved = (e_kind e = EResolved), m_title = title, m_text = text,
      m_event = Some e, m_txn = []\<rparr>)"

section \<open>Requests\<close>

text \<open>What a try sends: an HTTP request (its body as JSON), an email, a run of the apprise program, or a
  push to every browser that subscribed.\<close>

datatype outgo =
    OHttp (o_method: string) (o_url: string) (o_headers: "(string \<times> string) list") (o_body: jsval)
  | OMail (o_host: string) (o_port: string) (o_security: string) (o_user: string) (o_pass: string) (o_from: string) (o_to: "string list")
      (o_subject: string) (o_text: string)
  | OExec (o_args: "string list") (o_env: string)
  | OPush (o_payload: jsval) (o_urgency: string)

text \<open>\<^verbatim>\<open>String(u).replace(/\/+$/, "")\<close>\<close>

definition base_url :: "string \<Rightarrow> string" where
  "base_url u = rev (dropWhile (\<lambda>c. c = CHR ''/'') (rev u))"

text \<open>Markdown as plain text.\<close>

definition md :: "string \<Rightarrow> string" where
  "md s = concat (map (\<lambda>c. if c \<in> set ''*_~`[]()>#|'' \<or> c = CHR 0x5C then [CHR 0x5C, c] else [c]) s)"

definition pri :: "severity \<Rightarrow> rat \<Rightarrow> rat \<Rightarrow> rat \<Rightarrow> jsval" where
  "pri s crit warn info = JNum (Fin (case s of Critical \<Rightarrow> crit | Warning \<Rightarrow> warn | Info \<Rightarrow> info))"

definition slack_esc :: "string \<Rightarrow> string" where
  "slack_esc s = concat (map (\<lambda>c. if c = CHR ''&'' then ''&amp;'' else if c = CHR ''<'' then ''&lt;'' else if c = CHR ''>'' then ''&gt;'' else [c]) s)"

definition cfg_or :: "(string \<times> string) list \<Rightarrow> string \<Rightarrow> string \<Rightarrow> string" where
  "cfg_or c k d = (case map_of c k of None \<Rightarrow> d | Some v \<Rightarrow> if v = [] then d else v)"

definition JSON :: "string \<times> string" where "JSON = (''content-type'', ''application/json'')"

definition build_ntfy :: "(string \<times> string) list \<Rightarrow> nmsg \<Rightarrow> outgo" where
  "build_ntfy c m =
    (let tags = (if m_kind m = ''test'' then ''white_check_mark'' else if m_resolved m then ''white_check_mark''
                 else if m_severity m = Critical then ''rotating_light'' else ''warning'') in
     OHttp ''POST'' (base_url (cfg_or c ''server'' ''https://ntfy.sh'') @ ''/'')
       (JSON # (if cfg_or c ''token'' [] \<noteq> [] then [(''authorization'', ''Bearer '' @ cfg_or c ''token'' [])] else []))
       (JObj [(''topic'', JStr (cfg_or c ''topic'' [])), (''title'', JStr (m_title m)), (''message'', JStr (m_text m)),
          (''priority'', pri (m_severity m) 5 4 3), (''tags'', JArr [JStr tags])]))"

text \<open>\<open>event_js\<close> is the event as JSON, \<open>hmac\<close> the HMAC of a body under a key.\<close>

definition build_webhook :: "(event \<Rightarrow> jsval) \<Rightarrow> (string \<Rightarrow> jsval \<Rightarrow> string) \<Rightarrow> (string \<times> string) list \<Rightarrow> nmsg \<Rightarrow> outgo" where
  "build_webhook event_js hmac c m =
    (let body = JObj ([(''kind'', JStr (m_kind m)), (''severity'', JStr (sev_name (m_severity m))), (''title'', JStr (m_title m)),
            (''text'', JStr (m_text m))] @ (case m_event m of None \<Rightarrow> [] | Some e \<Rightarrow> [(''event'', event_js e)])) in
     OHttp ''POST'' (cfg_or c ''url'' [])
       (JSON # (if cfg_or c ''secret'' [] \<noteq> [] then [(''x-servitals-signature'', ''sha256='' @ hmac (cfg_or c ''secret'' []) body)] else [])) body)"

definition build_gotify :: "(string \<times> string) list \<Rightarrow> nmsg \<Rightarrow> outgo" where
  "build_gotify c m = OHttp ''POST'' (base_url (cfg_or c ''server'' []) @ ''/message'') [JSON, (''x-gotify-key'', cfg_or c ''token'' [])]
     (JObj [(''title'', JStr (cut (m_title m) 250)), (''message'', JStr (fit (m_text m) 3500)), (''priority'', pri (m_severity m) 8 5 2)])"

definition build_telegram :: "(string \<times> string) list \<Rightarrow> nmsg \<Rightarrow> outgo" where
  "build_telegram c m = OHttp ''POST''
     (base_url (cfg_or c ''server'' ''https://api.telegram.org'') @ ''/bot'' @ cfg_or c ''token'' [] @ ''/sendMessage'') [JSON]
     (JObj [(''chat_id'', JStr (cfg_or c ''chat'' [])), (''text'', JStr (cut (m_title m) 250 @ [NL] @ fit (m_text m) 3200)),
        (''disable_web_page_preview'', JBool True)])"

definition build_discord :: "(string \<times> string) list \<Rightarrow> nmsg \<Rightarrow> outgo" where
  "build_discord c m = OHttp ''POST'' (cfg_or c ''url'' []) [JSON]
     (JObj [(''allowed_mentions'', JObj [(''parse'', JArr [])]),
        (''embeds'', JArr [JObj [(''title'', JStr (md (cut (m_title m) 200))), (''description'', JStr (md (fit (m_text m) 3000))),
           (''color'', pri (m_severity m) 0xd03030 0xe0a020 0x3070d0)]])])"

definition build_slack :: "(string \<times> string) list \<Rightarrow> nmsg \<Rightarrow> outgo" where
  "build_slack c m = OHttp ''POST'' (cfg_or c ''url'' []) [JSON]
     (JObj [(''text'', JStr (''*'' @ slack_esc (cut (m_title m) 250) @ ''*'' @ [NL] @ slack_esc (fit (m_text m) 3200)))])"

definition teams_block :: "string \<Rightarrow> bool \<Rightarrow> jsval" where
  "teams_block text bold = JObj ([(''type'', JStr ''TextBlock''), (''text'', JStr (md text)), (''wrap'', JBool True)] @
     (if bold then [(''weight'', JStr ''Bolder'')] else []))"

definition build_teams :: "(string \<times> string) list \<Rightarrow> nmsg \<Rightarrow> outgo" where
  "build_teams c m = OHttp ''POST'' (cfg_or c ''url'' []) [JSON]
     (JObj [(''type'', JStr ''message''), (''attachments'', JArr [JObj [(''contentType'', JStr ''application/vnd.microsoft.card.adaptive''),
        (''content'', JObj [(''type'', JStr ''AdaptiveCard''), (''$schema'', JStr ''http://adaptivecards.io/schemas/adaptive-card.json''),
           (''version'', JStr ''1.4''), (''body'', JArr [teams_block (cut (m_title m) 250) True, teams_block (fit (m_text m) 3200) False])])]])])"

definition build_pushover :: "(string \<times> string) list \<Rightarrow> nmsg \<Rightarrow> outgo" where
  "build_pushover c m = OHttp ''POST'' (base_url (cfg_or c ''server'' ''https://api.pushover.net'') @ ''/1/messages.json'') [JSON]
     (JObj [(''token'', JStr (cfg_or c ''token'' [])), (''user'', JStr (cfg_or c ''user'' [])), (''title'', JStr (cut (m_title m) 250)),
        (''message'', JStr (fit (m_text m) 1000)), (''priority'', pri (m_severity m) 1 0 (-1))])"

definition build_matrix :: "(string \<times> string) list \<Rightarrow> nmsg \<Rightarrow> outgo" where
  "build_matrix c m = OHttp ''PUT''
     (base_url (cfg_or c ''server'' []) @ ''/_matrix/client/v3/rooms/'' @
        concat (map (\<lambda>ch. if ch = CHR ''.'' then [ch] else encode_char ch) (cfg_or c ''room'' [])) @ ''/send/m.room.message/'' @ m_txn m)
     [JSON, (''authorization'', ''Bearer '' @ cfg_or c ''token'' [])]
     (JObj [(''msgtype'', JStr ''m.text''), (''body'', JStr (cut (m_title m) 250 @ [NL] @ fit (m_text m) 3200))])"

definition send_email :: "(string \<times> string) list \<Rightarrow> nmsg \<Rightarrow> outgo" where
  "send_email c m = OMail (strip_last (CHR '']'') (strip_hd (CHR ''['') (cfg_or c ''host'' []))) (cfg_or c ''port'' []) (cfg_or c ''security'' [])
     (cfg_or c ''login'' []) (cfg_or c ''pass'' []) (cfg_or c ''from'' []) (map js_trim (split_on (CHR '','') (cfg_or c ''to'' [])))
     (cut (m_title m) 200) (fit (m_text m) 20000 @ [NL, NL] @ ''-- '' @ [NL] @ ''servitals'')"

definition send_apprise :: "(string \<times> string) list \<Rightarrow> nmsg \<Rightarrow> outgo" where
  "send_apprise c m =
    (let ty = (if m_resolved m \<or> m_kind m = ''test'' then ''success''
               else case m_severity m of Critical \<Rightarrow> ''failure'' | Warning \<Rightarrow> ''warning'' | Info \<Rightarrow> ''info'') in
     if cfg_or c ''api'' [] \<noteq> []
     then OHttp ''POST'' (base_url (cfg_or c ''api'' []) @ ''/notify/'') [JSON]
       (JObj [(''urls'', JStr (cfg_or c ''urls'' [])), (''title'', JStr (cut (m_title m) 250)), (''body'', JStr (fit (m_text m) 3200)), (''type'', JStr ty)])
     else OExec [''-n'', ty, ''-t'', cut (m_title m) 250, ''-b'', fit (m_text m) 3200] (cfg_or c ''urls'' []))"

definition push_payload :: "nmsg \<Rightarrow> nat \<Rightarrow> jsval" where
  "push_payload m n = JObj [(''title'', JStr (cut (m_title m) 120)), (''body'', JStr (fit (m_text m) n)),
     (''severity'', JStr (sev_name (m_severity m))),
     (''tag'', JStr (case m_event m of Some e \<Rightarrow> take 200 (e_rule e @ ''|'' @ e_node e @ ''|'' @ e_sub e) | None \<Rightarrow> m_kind m)),
     (''url'', JStr (case m_event m of Some e \<Rightarrow> if is_node_id (e_node e) then ''/#node='' @ e_node e else ''/'' | None \<Rightarrow> ''/''))]"

text \<open>Cut until it fits one push; \<open>bytes\<close> gives the length in UTF-8. The limit goes down each time, so the loop ends.\<close>

function shrink :: "(jsval \<Rightarrow> nat) \<Rightarrow> nmsg \<Rightarrow> nat \<Rightarrow> jsval" where
  "shrink bytes m n = (if bytes (push_payload m n) > 3800 \<and> n > 50 then shrink bytes m (n * 7 div 10) else push_payload m n)"
  by pat_completeness auto
termination
  by (relation "measure (\<lambda>(bytes, m, n). n)") auto

declare shrink.simps [simp del]

definition send_webpush :: "(jsval \<Rightarrow> nat) \<Rightarrow> nmsg \<Rightarrow> outgo" where
  "send_webpush bytes m = OPush (shrink bytes m 1500) (if m_severity m = Info then ''normal'' else ''high'')"

record sender =
  s_httpUrl :: "string \<Rightarrow> bool"
  s_env :: "string \<Rightarrow> string option"
  s_event_js :: "event \<Rightarrow> jsval"
  s_hmac :: "string \<Rightarrow> jsval \<Rightarrow> string"
  s_bytes :: "jsval \<Rightarrow> nat"

text \<open>The request of one try, or the code of the error before anything is sent.\<close>

definition outgoing :: "sender \<Rightarrow> channel \<Rightarrow> nmsg \<Rightarrow> string + outgo" where
  "outgoing S ch m = bindE (resolved (s_httpUrl S) (s_env S) ch) (\<lambda>c. Inr
     (if ch_type ch = ''ntfy'' then build_ntfy c m else if ch_type ch = ''webhook'' then build_webhook (s_event_js S) (s_hmac S) c m
      else if ch_type ch = ''gotify'' then build_gotify c m else if ch_type ch = ''telegram'' then build_telegram c m
      else if ch_type ch = ''discord'' then build_discord c m else if ch_type ch = ''slack'' then build_slack c m
      else if ch_type ch = ''teams'' then build_teams c m else if ch_type ch = ''pushover'' then build_pushover c m
      else if ch_type ch = ''email'' then send_email c m else if ch_type ch = ''apprise'' then send_apprise c m
      else if ch_type ch = ''webpush'' then send_webpush (s_bytes S) m else build_matrix c m))"

section \<open>The notifier\<close>

record nqueue =
  q_items :: "nmsg list"
  q_running :: bool
  q_sending :: "(channel \<times> nmsg \<times> nat) option"

record chstat =
  cs_lastOk :: "ms option"
  cs_lastError :: "(string \<times> ms) option"

text \<open>
  \<open>nt_file\<close> and \<open>nt_stfile\<close> are the two files; \<open>nt_told\<close> and \<open>nt_begun\<close> record what was put into each channel's
  queue and what was begun to be sent (they are read by nothing).
\<close>

record notifier =
  nt_cfg :: nconf
  nt_ignored :: string
  nt_held :: "event list"
  nt_digestLog :: "event list"
  nt_digestDay :: "string option"
  nt_status :: "(string \<times> chstat) list"
  nt_queues :: "(string \<times> nqueue) list"
  nt_file :: "nconf option"
  nt_stfile :: "event list \<times> event list \<times> string option"
  nt_told :: "(string \<times> nmsg) list"
  nt_begun :: "(string \<times> nmsg) list"

definition MAX_QUEUE :: nat where "MAX_QUEUE = 100"

definition RETRIES :: "ms list" where "RETRIES = [2000, 10000, 30000]"

definition MAX_HELD :: nat where "MAX_HELD = 500"

definition MAX_DIGEST :: nat where "MAX_DIGEST = 500"

text \<open>The file \<^verbatim>\<open>channels.json\<close>: not there (\<open>None\<close>), unreadable (\<open>Inl\<close> the message), or its JSON.\<close>

definition createNotifier :: "(string \<Rightarrow> bool) \<Rightarrow> (string + jsval) option \<Rightarrow> event list \<times> event list \<times> string option \<Rightarrow> notifier" where
  "createNotifier httpUrl file stfile =
    (let read = (case file of None \<Rightarrow> Inr no_channels | Some r \<Rightarrow> bindE r (\<lambda>v. checkChannels httpUrl v no_channels)) in
     \<lparr>nt_cfg = (case read of Inr c \<Rightarrow> c | Inl _ \<Rightarrow> no_channels), nt_ignored = (case read of Inr _ \<Rightarrow> [] | Inl e \<Rightarrow> e),
      nt_held = fst stfile, nt_digestLog = fst (snd stfile), nt_digestDay = snd (snd stfile), nt_status = [], nt_queues = [],
      nt_file = (case read of Inr c \<Rightarrow> (if file = None then None else Some c) | Inl _ \<Rightarrow> None), nt_stfile = stfile, nt_told = [], nt_begun = []\<rparr>)"

definition save_state :: "notifier \<Rightarrow> notifier" where
  "save_state s = s\<lparr>nt_stfile := (nt_held s, nt_digestLog s, nt_digestDay s)\<rparr>"

definition mins :: "string \<Rightarrow> nat" where
  "mins hhmm = (let d = (\<lambda>i. (of_char (hhmm ! i) :: nat) - 48) in (d 0 * 10 + d 1) * 60 + (d 3 * 10 + d 4))"

definition inQuiet :: "localtime \<Rightarrow> nconf \<Rightarrow> ms \<Rightarrow> bool" where
  "inQuiet lt cfg t = (case nc_quiet cfg of
      None \<Rightarrow> False
    | Some (from_t, to_t) \<Rightarrow> let m = fst (lt t); a = mins from_t; b = mins to_t in
        if a < b then m \<ge> a \<and> m < b else m \<ge> a \<or> m < b)"

definition queue_of :: "string \<Rightarrow> notifier \<Rightarrow> nqueue" where
  "queue_of i s = (case map_of (nt_queues s) i of Some q \<Rightarrow> q | None \<Rightarrow> \<lparr>q_items = [], q_running = False, q_sending = None\<rparr>)"

definition set_queue :: "string \<Rightarrow> nqueue \<Rightarrow> notifier \<Rightarrow> notifier" where
  "set_queue i q s = s\<lparr>nt_queues := AList.update i q (nt_queues s)\<rparr>"

text \<open>One channel gets the message; \<open>txn\<close> gives the random transaction id. A queue over its length loses its oldest.\<close>

definition enqueue :: "(string \<Rightarrow> string) \<Rightarrow> nmsg \<Rightarrow> notifier \<Rightarrow> channel \<Rightarrow> notifier" where
  "enqueue txn m s ch =
    (let q = queue_of (ch_id ch) s; m1 = m\<lparr>m_txn := txn (ch_id ch)\<rparr>; items = q_items q @ [m1] in
     (set_queue (ch_id ch) (q\<lparr>q_items := (if length items > MAX_QUEUE then tl items else items), q_running := True\<rparr>) s)
       \<lparr>nt_told := nt_told s @ [(ch_id ch, m1)]\<rparr>)"

definition deliver :: "(string \<Rightarrow> string) \<Rightarrow> nmsg \<Rightarrow> (channel \<Rightarrow> bool) \<Rightarrow> notifier \<Rightarrow> notifier" where
  "deliver txn m to s = foldl (enqueue txn m) s (filter (\<lambda>c. ch_on c \<and> to c) (nc_channels (nt_cfg s)))"

text \<open>The loop of a queue, one turn: the next message, unless its channel is gone or off by now.\<close>

definition queue_take :: "string \<Rightarrow> notifier \<Rightarrow> notifier" where
  "queue_take i s =
    (let q = queue_of i s in
     if \<not> q_running q \<or> q_sending q \<noteq> None then s
     else (case q_items q of
         [] \<Rightarrow> set_queue i (q\<lparr>q_running := False\<rparr>) s
       | m # rest \<Rightarrow> (case find (\<lambda>c. ch_id c = i \<and> ch_on c) (nc_channels (nt_cfg s)) of
             None \<Rightarrow> set_queue i (q\<lparr>q_items := rest\<rparr>) s
           | Some cur \<Rightarrow> (set_queue i (q\<lparr>q_items := rest, q_sending := Some (cur, m, 0)\<rparr>) s)\<lparr>nt_begun := nt_begun s @ [(i, m)]\<rparr>)))"

definition set_status :: "string \<Rightarrow> (chstat \<Rightarrow> chstat) \<Rightarrow> notifier \<Rightarrow> notifier" where
  "set_status i f s = s\<lparr>nt_status := AList.update i
     (f (case map_of (nt_status s) i of Some x \<Rightarrow> x | None \<Rightarrow> \<lparr>cs_lastOk = None, cs_lastError = None\<rparr>)) (nt_status s)\<rparr>"

text \<open>A failure a second try cannot fix.\<close>

definition FINAL_CODES :: "string list" where
  "FINAL_CODES = [''ENV_UNSET'', ''EBADVALUE'', ''EURL'', ''ETLSREQUIRED'', ''EADDRESS'', ''APPRISE_MISSING'', ''EPUSH_NONE'', ''EPUSH_OFF'',
     ''ERR_TLS_CERT'', ''DEPTH_ZERO_SELF_SIGNED'', ''SELF_SIGNED_CERT'', ''UNABLE_TO_VERIFY'', ''CERT_'']"

definition final_error :: "string \<Rightarrow> bool" where
  "final_error code \<longleftrightarrow>
    (starts_with ''HTTP_4'' code \<and> length code = 8 \<and> list_all is_digit (drop 6 code) \<and> code \<noteq> ''HTTP_408'' \<and> code \<noteq> ''HTTP_429'') \<or>
    starts_with ''SMTP_5'' code \<or> list_ex (\<lambda>p. starts_with p code) FINAL_CODES"

text \<open>The end of one try of the message being sent: \<open>None\<close> when it was taken, else the error's code.\<close>

definition sent :: "string \<Rightarrow> string option \<Rightarrow> ms \<Rightarrow> notifier \<Rightarrow> notifier" where
  "sent i res t s =
    (let q = queue_of i s in
     case q_sending q of
       None \<Rightarrow> s
     | Some (ch, m, k) \<Rightarrow> (case res of
           None \<Rightarrow> set_queue i (q\<lparr>q_sending := None\<rparr>) (set_status i (\<lambda>x. x\<lparr>cs_lastOk := Some t\<rparr>) s)
         | Some code \<Rightarrow>
             let s1 = set_status i (\<lambda>x. x\<lparr>cs_lastError := Some (code, t)\<rparr>) s in
             if k \<ge> length RETRIES \<or> final_error code then set_queue i (q\<lparr>q_sending := None\<rparr>) s1
             else set_queue i (q\<lparr>q_sending := Some (ch, m, k + 1)\<rparr>) s1))"

text \<open>A whole \<^verbatim>\<open>send\<close>: try \<open>k\<close> gives \<open>res k\<close>. The result, the tries made and the time slept.\<close>

function send_loop :: "(nat \<Rightarrow> string option) \<Rightarrow> nat \<Rightarrow> bool \<times> nat \<times> ms" where
  "send_loop res k = (case res k of
      None \<Rightarrow> (True, k + 1, 0)
    | Some code \<Rightarrow>
        if k \<ge> length RETRIES \<or> final_error code then (False, k + 1, 0)
        else (case send_loop res (k + 1) of (ok, n, slept) \<Rightarrow> (ok, n, RETRIES ! k + slept)))"
  by pat_completeness auto
termination
  by (relation "measure (\<lambda>(res, k). length RETRIES - k)") auto

declare send_loop.simps [simp del]

definition rank_le :: "severity \<Rightarrow> severity \<Rightarrow> bool" where
  "rank_le a b \<longleftrightarrow> sev_index a \<le> sev_index b"

definition alert_key :: "event \<Rightarrow> string" where
  "alert_key e = e_rule e @ ''|'' @ e_node e @ ''|'' @ e_sub e"

definition last_of_each :: "event list \<Rightarrow> (string \<times> event) list" where
  "last_of_each es = foldl (\<lambda>m e. AList.update (alert_key e) e m) [] es"

definition fired_inside :: "event list \<Rightarrow> string list" where
  "fired_inside es = map alert_key (filter (\<lambda>e. e_kind e = EFiring) es)"

definition summary_lines :: "event list \<Rightarrow> string list" where
  "summary_lines held = map (\<lambda>ke. line (snd ke))
     (filter (\<lambda>ke. e_kind (snd ke) \<noteq> EResolved \<or> fst ke \<notin> set (fired_inside held)) (last_of_each held))"

definition plain_msg :: "string \<Rightarrow> severity \<Rightarrow> string \<Rightarrow> string \<Rightarrow> nmsg" where
  "plain_msg k sev title text = \<lparr>m_kind = k, m_severity = sev, m_resolved = False, m_title = title, m_text = text, m_event = None, m_txn = []\<rparr>"

definition releaseHeld :: "(string \<Rightarrow> string) \<Rightarrow> notifier \<Rightarrow> notifier" where
  "releaseHeld txn s =
    (let ls = summary_lines (nt_held s); s1 = s\<lparr>nt_held := []\<rparr> in
     if ls = [] then s1
     else deliver txn (plain_msg ''summary'' Warning (tr ''notify.summaryTitle'' [(''n'', show_nat (length ls))]) (join_with [NL] ls))
       (\<lambda>c. rank_le Warning (ch_min c)) s1)"

text \<open>What is kept of an event: everything but why it was quiet.\<close>

definition slim :: "event \<Rightarrow> event" where
  "slim e = e\<lparr>e_quiet := []\<rparr>"

definition onEvent :: "localtime \<Rightarrow> (string \<Rightarrow> string) \<Rightarrow> event \<Rightarrow> ms \<Rightarrow> notifier \<Rightarrow> notifier" where
  "onEvent lt txn e t s =
    (let s1 = (if nt_held s \<noteq> [] \<and> \<not> inQuiet lt (nt_cfg s) t then releaseHeld txn s else s) in
     if sev_index (e_severity e) \<ge> 2 then save_state (s1\<lparr>nt_digestLog := slice_last MAX_DIGEST (nt_digestLog s1 @ [slim e])\<rparr>)
     else if e_severity e \<noteq> Critical \<and> inQuiet lt (nt_cfg s) t then save_state (s1\<lparr>nt_held := slice_last MAX_HELD (nt_held s1 @ [slim e])\<rparr>)
     else deliver txn (alertMessage lt e) (\<lambda>c. rank_le (e_severity e) (ch_min c)) s1)"

definition tick_digest :: "localtime \<Rightarrow> (string \<Rightarrow> string) \<Rightarrow> ms \<Rightarrow> notifier \<Rightarrow> notifier" where
  "tick_digest lt txn t s =
    (if fst (lt t) \<ge> mins (nc_digestAt (nt_cfg s)) \<and> nt_digestDay s \<noteq> Some (snd (lt t))
     then (let es = nt_digestLog s; s1 = s\<lparr>nt_digestDay := Some (snd (lt t))\<rparr>;
             s2 = (if es = [] then s1
                   else deliver txn (plain_msg ''digest'' Info (tr ''notify.digestTitle'' [(''n'', show_nat (length es))]) (join_with [NL] (map line es)))
                     ch_digest s1) in
           s2\<lparr>nt_digestLog := []\<rparr>)
     else s)"

definition tick :: "localtime \<Rightarrow> (string \<Rightarrow> string) \<Rightarrow> (string \<Rightarrow> string) \<Rightarrow> ms \<Rightarrow> notifier \<Rightarrow> notifier" where
  "tick lt txn txn' t s =
    (let s1 = (if nt_held s \<noteq> [] \<and> \<not> inQuiet lt (nt_cfg s) t then releaseHeld txn s else s) in
     save_state (tick_digest lt txn' t s1))"

text \<open>The test from the page: one try, whose result \<open>res\<close> is given.\<close>

definition test_channel :: "string \<Rightarrow> (channel \<Rightarrow> nmsg \<Rightarrow> string option) \<Rightarrow> ms \<Rightarrow> notifier \<Rightarrow> (string option \<times> notifier)" where
  "test_channel i try t s = (case find (\<lambda>c. ch_id c = i) (nc_channels (nt_cfg s)) of
      None \<Rightarrow> (Some ''no such channel'', s)
    | Some ch \<Rightarrow> (case try ch (plain_msg ''test'' Info (tr ''notify.testTitle'' []) (tr ''notify.testText'' [])) of
          None \<Rightarrow> (None, set_status i (\<lambda>x. x\<lparr>cs_lastOk := Some t\<rparr>) s)
        | Some code \<Rightarrow> (Some code, set_status i (\<lambda>x. x\<lparr>cs_lastError := Some (code, t)\<rparr>) s)))"

definition setConfig :: "(string \<Rightarrow> bool) \<Rightarrow> jsval \<Rightarrow> notifier \<Rightarrow> string + notifier" where
  "setConfig httpUrl input s = bindE (checkChannels httpUrl input (nt_cfg s)) (\<lambda>c.
     Inr (s\<lparr>nt_cfg := c, nt_ignored := [], nt_file := Some c,
       nt_status := filter (\<lambda>kv. list_ex (\<lambda>ch. ch_id ch = fst kv) (nc_channels c)) (nt_status s)\<rparr>))"

definition webpush_channel :: "string \<Rightarrow> channel" where
  "webpush_channel name = \<lparr>ch_id = ''ch_webpush'', ch_type = ''webpush'', ch_name = name, ch_min = Warning, ch_on = True, ch_digest = True, ch_config = []\<rparr>"

definition ensureWebPush :: "(string \<Rightarrow> bool) \<Rightarrow> string \<Rightarrow> notifier \<Rightarrow> string + bool \<times> notifier" where
  "ensureWebPush httpUrl name s =
    (if list_ex (\<lambda>c. ch_type c = ''webpush'') (nc_channels (nt_cfg s)) then Inr (False, s)
     else bindE (setConfig httpUrl (conf_js ((nt_cfg s)\<lparr>nc_channels := nc_channels (nt_cfg s) @ [webpush_channel name]\<rparr>)) s)
       (\<lambda>s1. Inr (True, s1)))"

definition view_notifier :: "notifier \<Rightarrow> nconf \<times> (string \<times> chstat) list \<times> string" where
  "view_notifier s = (view_conf (nt_cfg s), nt_status s, nt_ignored s)"

section \<open>A text cut to a length\<close>

lemma more_line_eq: "more_line n = ''+'' @ show_nat n @ '' more in the alert log''"
  by (simp add: more_line_def tr_def STRINGS_def is_word_def is_alnum_def is_lower_def is_upper_def is_digit_def)

lemma length_show_nat_mono: "m \<le> n \<Longrightarrow> length (show_nat m) \<le> length (show_nat n)"
proof (induction n arbitrary: m rule: less_induct)
  case (less n)
  show ?case
  proof (cases "n < 10 \<or> m < 10")
    case True
    have "length (show_nat n) \<ge> 1" by (subst show_nat.simps) simp
    then show ?thesis using True less.prems by (auto simp: show_nat.simps [of m])
  next
    case False
    have "length (show_nat (m div 10)) \<le> length (show_nat (n div 10))"
      using less.prems False by (intro less.IH) (auto simp: div_le_mono)
    then show ?thesis using False by (simp add: show_nat.simps [of m] show_nat.simps [of n])
  qed
qed

lemma length_more_mono: "m \<le> n \<Longrightarrow> length (more_line m) \<le> length (more_line n)"
  using length_show_nat_mono by (simp add: more_line_eq)

lemma length_join_NL: "xs \<noteq> [] \<Longrightarrow> length (join_with [NL] xs) + 1 = sum_list (map (\<lambda>x. length x + 1) xs)"
  by (induction "[NL]" xs rule: join_with.induct) simp_all

lemma fit_lines_room:
  "fit_lines n len ls \<noteq> [] \<Longrightarrow>
   len + sum_list (map (\<lambda>x. length x + 1) (fit_lines n len ls)) + length (more_line (length ls - length (fit_lines n len ls) + 1)) + 1 \<le> n \<and>
   length (fit_lines n len ls) \<le> length ls"
proof (induction n len ls rule: fit_lines.induct)
  case (2 n len l ls)
  have room: "len + length l + 1 + length (more_line (length (l # ls))) + 1 \<le> n" using 2 by (auto split: if_splits)
  show ?case
  proof (cases "fit_lines n (len + length l + 1) ls = []")
    case True
    then show ?thesis using room by simp
  next
    case False
    then show ?thesis using "2.IH" room by simp
  qed
qed simp

lemma fit_bounded: "length (fit text n) \<le> max n 1"
proof -
  let ?ls = "split_on NL text" and ?out = "fit_lines n 0 (split_on NL text)"
  consider "length text \<le> n" | "?out = []" "length text > n" | "?out \<noteq> []" "length text > n" by linarith
  then show ?thesis
  proof cases
    case 3
    have "length (more_line (length ?ls - length ?out)) \<le> length (more_line (length ?ls - length ?out + 1))" by (rule length_more_mono) simp
    then show ?thesis using fit_lines_room [OF 3(1)] length_join_NL [OF 3(1)] 3 by (simp add: fit_def Let_def)
  qed (auto simp: fit_def cut_def)
qed

section \<open>What an operation tells\<close>

definition with_txn :: "(string \<Rightarrow> string) \<Rightarrow> nmsg \<Rightarrow> channel \<Rightarrow> string \<times> nmsg" where
  "with_txn txn m c = (ch_id c, m\<lparr>m_txn := txn (ch_id c)\<rparr>)"

lemma enqueue_simps [simp]:
  "nt_cfg (enqueue txn m s c) = nt_cfg s" "nt_held (enqueue txn m s c) = nt_held s" "nt_digestLog (enqueue txn m s c) = nt_digestLog s"
  "nt_digestDay (enqueue txn m s c) = nt_digestDay s" "nt_told (enqueue txn m s c) = nt_told s @ [with_txn txn m c]"
  "nt_begun (enqueue txn m s c) = nt_begun s"
  by (simp_all add: enqueue_def set_queue_def with_txn_def Let_def)

lemma enqueue_all:
  "nt_cfg (foldl (enqueue txn m) s cs) = nt_cfg s \<and> nt_held (foldl (enqueue txn m) s cs) = nt_held s \<and>
   nt_digestLog (foldl (enqueue txn m) s cs) = nt_digestLog s \<and> nt_digestDay (foldl (enqueue txn m) s cs) = nt_digestDay s \<and>
   nt_told (foldl (enqueue txn m) s cs) = nt_told s @ map (with_txn txn m) cs \<and> nt_begun (foldl (enqueue txn m) s cs) = nt_begun s"
  by (induction cs arbitrary: s) simp_all

lemma deliver_simps [simp]:
  "nt_cfg (deliver txn m to s) = nt_cfg s" "nt_held (deliver txn m to s) = nt_held s" "nt_digestLog (deliver txn m to s) = nt_digestLog s"
  "nt_digestDay (deliver txn m to s) = nt_digestDay s" "nt_begun (deliver txn m to s) = nt_begun s"
  "nt_told (deliver txn m to s) = nt_told s @ map (with_txn txn m) (filter (\<lambda>c. ch_on c \<and> to c) (nc_channels (nt_cfg s)))"
  using enqueue_all by (simp_all add: deliver_def)

lemma releaseHeld_simps [simp]:
  "nt_cfg (releaseHeld txn s) = nt_cfg s" "nt_held (releaseHeld txn s) = []" "nt_digestLog (releaseHeld txn s) = nt_digestLog s"
  "nt_digestDay (releaseHeld txn s) = nt_digestDay s" "nt_begun (releaseHeld txn s) = nt_begun s"
  by (simp_all add: releaseHeld_def Let_def)

lemma save_state_simps [simp]:
  "nt_cfg (save_state s) = nt_cfg s" "nt_held (save_state s) = nt_held s" "nt_told (save_state s) = nt_told s"
  "nt_digestLog (save_state s) = nt_digestLog s" "nt_begun (save_state s) = nt_begun s" "nt_queues (save_state s) = nt_queues s"
  by (simp_all add: save_state_def)

section \<open>The summary after quiet hours\<close>

text \<open>The events the summary has a line for.\<close>

definition summary_events :: "event list \<Rightarrow> event list" where
  "summary_events held = map snd (filter (\<lambda>ke. e_kind (snd ke) \<noteq> EResolved \<or> fst ke \<notin> set (fired_inside held)) (last_of_each held))"

lemma summary_lines_events: "summary_lines held = map line (summary_events held)"
  by (simp add: summary_lines_def summary_events_def comp_def)

lemma last_of_each_snoc: "last_of_each (es @ [e]) = AList.update (alert_key e) e (last_of_each es)"
  by (simp add: last_of_each_def)

lemma last_of_each_find: "map_of (last_of_each es) k = find (\<lambda>e. alert_key e = k) (rev es)"
proof (induction es rule: rev_induct)
  case Nil
  show ?case by (simp add: last_of_each_def)
qed (auto simp: last_of_each_snoc)

lemma update_mem: "set (AList.update k v m) \<subseteq> insert (k, v) (set m)"
  by (induction m) auto

lemma last_of_each_keys: "distinct (map fst (last_of_each es)) \<and> (\<forall>(k, e) \<in> set (last_of_each es). k = alert_key e)"
proof (induction es rule: rev_induct)
  case Nil
  show ?case by (simp add: last_of_each_def)
next
  case (snoc e es)
  then show ?case using update_mem [of "alert_key e" e "last_of_each es"] by (auto simp: last_of_each_snoc)
qed

lemma summary_events_spec:
  "distinct (map alert_key (summary_events held)) \<and>
   (e \<in> set (summary_events held) \<longleftrightarrow>
     find (\<lambda>x. alert_key x = alert_key e) (rev held) = Some e \<and>
     (e_kind e = EResolved \<longrightarrow> \<not> list_ex (\<lambda>x. alert_key x = alert_key e \<and> e_kind x = EFiring) held))"
proof -
  let ?l = "last_of_each held"
  have keys: "distinct (map fst ?l)" "\<And>k e. (k, e) \<in> set ?l \<Longrightarrow> k = alert_key e" using last_of_each_keys by fast+
  then have eq: "map alert_key (map snd ?l) = map fst ?l" by (auto simp: comp_def intro!: map_cong)
  have "distinct (map alert_key (map snd ?l))" using keys(1) by (simp only: eq)
  then have "distinct (map alert_key (summary_events held))"
    unfolding summary_events_def map_map by (rule distinct_map_filter)
  moreover have "e \<in> set (summary_events held) \<longleftrightarrow> (alert_key e, e) \<in> set ?l \<and> (e_kind e \<noteq> EResolved \<or> alert_key e \<notin> set (fired_inside held))"
    (is "?L \<longleftrightarrow> ?R")
  proof
    assume ?L
    then obtain k where "(k, e) \<in> set ?l" "e_kind e \<noteq> EResolved \<or> k \<notin> set (fired_inside held)" by (auto simp: summary_events_def)
    then show ?R using keys(2) by metis
  next
    assume ?R
    then show ?L unfolding summary_events_def set_map set_filter by (intro image_eqI [of _ _ "(alert_key e, e)"]) simp_all
  qed
  moreover have "(alert_key e, e) \<in> set ?l \<longleftrightarrow> find (\<lambda>x. alert_key x = alert_key e) (rev held) = Some e"
    using map_of_iff_mem [OF keys(1), of "alert_key e" e] by (simp add: last_of_each_find)
  moreover have "alert_key e \<in> set (fired_inside held) \<longleftrightarrow> list_ex (\<lambda>x. alert_key x = alert_key e \<and> e_kind x = EFiring) held"
    unfolding fired_inside_def list_ex_iff set_map set_filter image_iff by auto
  ultimately show ?thesis by blast
qed

section \<open>The order of a channel's messages\<close>

datatype nop =
    NEvent event ms "string \<Rightarrow> string"
  | NTick ms "string \<Rightarrow> string" "string \<Rightarrow> string"
  | NTake string
  | NSent string "string option" ms
  | NSet jsval
  | NTest string "channel \<Rightarrow> nmsg \<Rightarrow> string option" ms
  | NWebPush string

definition or_same :: "notifier \<Rightarrow> string + notifier \<Rightarrow> notifier" where
  "or_same s r = (case r of Inl _ \<Rightarrow> s | Inr x \<Rightarrow> x)"

fun nstep :: "localtime \<Rightarrow> (string \<Rightarrow> bool) \<Rightarrow> notifier \<Rightarrow> nop \<Rightarrow> notifier" where
  "nstep lt u s (NEvent e t txn) = onEvent lt txn e t s"
| "nstep lt u s (NTick t txn txn') = tick lt txn txn' t s"
| "nstep lt u s (NTake i) = queue_take i s"
| "nstep lt u s (NSent i res t) = sent i res t s"
| "nstep lt u s (NSet input) = or_same s (setConfig u input s)"
| "nstep lt u s (NTest i try t) = snd (test_channel i try t s)"
| "nstep lt u s (NWebPush name) = or_same s (bindE (ensureWebPush u name s) (\<lambda>r. Inr (snd r)))"

definition of_channel :: "string \<Rightarrow> (string \<times> nmsg) list \<Rightarrow> nmsg list" where
  "of_channel i l = map snd (filter (\<lambda>x. fst x = i) l)"

lemma of_channel_append [simp]: "of_channel i (l @ l') = of_channel i l @ of_channel i l'"
  by (simp add: of_channel_def)

lemma of_channel_one [simp]: "of_channel i [(j, m)] = (if j = i then [m] else [])"
  by (simp add: of_channel_def)

definition sending_ok :: "string \<Rightarrow> nmsg list \<Rightarrow> (channel \<times> nmsg \<times> nat) option \<Rightarrow> bool" where
  "sending_ok i begun x \<longleftrightarrow> (case x of None \<Rightarrow> True
     | Some (ch, m, k) \<Rightarrow> ch_id ch = i \<and> k \<le> length RETRIES \<and> begun \<noteq> [] \<and> last begun = m)"

lemma sending_ok_simps [simp]:
  "sending_ok i b None" "sending_ok i b (Some (ch, m, k)) \<longleftrightarrow> ch_id ch = i \<and> k \<le> length RETRIES \<and> b \<noteq> [] \<and> last b = m"
  by (simp_all add: sending_ok_def)

definition queue_ok :: "notifier \<Rightarrow> string \<Rightarrow> bool" where
  "queue_ok s i \<longleftrightarrow> subseq (of_channel i (nt_begun s) @ q_items (queue_of i s)) (of_channel i (nt_told s)) \<and>
     length (q_items (queue_of i s)) \<le> MAX_QUEUE \<and>
     sending_ok i (of_channel i (nt_begun s)) (q_sending (queue_of i s))"

definition notify_ok :: "notifier \<Rightarrow> bool" where
  "notify_ok s \<longleftrightarrow> (\<forall>i. queue_ok s i)"

text \<open>What does not touch the queues keeps their order.\<close>

lemma notify_ok_cong:
  "nt_queues s' = nt_queues s \<Longrightarrow> nt_told s' = nt_told s \<Longrightarrow> nt_begun s' = nt_begun s \<Longrightarrow> notify_ok s \<Longrightarrow> notify_ok s'"
proof -
  assume a: "nt_queues s' = nt_queues s" "nt_told s' = nt_told s" "nt_begun s' = nt_begun s" "notify_ok s"
  have "queue_of i s' = queue_of i s" for i using a(1) by (simp add: queue_of_def)
  then have "queue_ok s' i = queue_ok s i" for i using a(2,3) by (simp add: queue_ok_def)
  then show "notify_ok s'" using a(4) by (simp add: notify_ok_def)
qed

lemma queue_of_set [simp]: "queue_of j (set_queue i q s) = (if j = i then q else queue_of j s)"
  by (simp add: queue_of_def set_queue_def)

lemma set_queue_simps [simp]:
  "nt_told (set_queue i q s) = nt_told s" "nt_begun (set_queue i q s) = nt_begun s" "nt_cfg (set_queue i q s) = nt_cfg s"
  by (simp_all add: set_queue_def)

lemma queue_of_logs [simp]:
  "queue_of i (s\<lparr>nt_told := l\<rparr>) = queue_of i s" "queue_of i (s\<lparr>nt_begun := l\<rparr>) = queue_of i s" "queue_of i (s\<lparr>nt_status := l'\<rparr>) = queue_of i s"
  by (simp_all add: queue_of_def)

lemma subseq_tl_mid: "subseq (a @ b) c \<Longrightarrow> subseq (a @ tl b) c"
proof -
  assume "subseq (a @ b) c"
  moreover have "subseq (a @ tl b) (a @ b)" by (cases b) (auto intro: list_emb_append_mono)
  ultimately show ?thesis by (rule subseq_order.trans [rotated])
qed

lemma enqueue_ok: "notify_ok s \<Longrightarrow> notify_ok (enqueue txn m s ch)"
proof -
  assume ok: "notify_ok s"
  let ?i = "ch_id ch" and ?q = "queue_of (ch_id ch) s" and ?m = "m\<lparr>m_txn := txn (ch_id ch)\<rparr>"
  let ?items = "q_items ?q @ [?m]"
  have "subseq ((of_channel ?i (nt_begun s) @ q_items ?q) @ [?m]) (of_channel ?i (nt_told s) @ [?m])"
    using ok by (intro list_emb_append_mono) (simp_all add: notify_ok_def queue_ok_def)
  then have sub: "subseq (of_channel ?i (nt_begun s) @ ?items) (of_channel ?i (nt_told s) @ [?m])" by simp
  then have "queue_ok (enqueue txn m s ch) ?i"
    using ok subseq_tl_mid [OF sub] by (auto simp: notify_ok_def queue_ok_def enqueue_def Let_def split: option.splits)
  moreover have "queue_ok (enqueue txn m s ch) j" if "j \<noteq> ?i" for j
    using ok that by (simp add: notify_ok_def queue_ok_def enqueue_def Let_def)
  ultimately show ?thesis unfolding notify_ok_def by metis
qed

lemma deliver_ok: "notify_ok s \<Longrightarrow> notify_ok (deliver txn m to s)"
  unfolding deliver_def by (rule foldl_inv) (auto intro: enqueue_ok)

lemma releaseHeld_ok: "notify_ok s \<Longrightarrow> notify_ok (releaseHeld txn s)"
  by (auto simp: releaseHeld_def Let_def intro!: deliver_ok intro: notify_ok_cong [of _ s])

lemma onEvent_ok: "notify_ok s \<Longrightarrow> notify_ok (onEvent lt txn e t s)"
  by (auto simp: onEvent_def Let_def intro!: deliver_ok releaseHeld_ok intro: notify_ok_cong [of _ s] notify_ok_cong [of _ "releaseHeld txn s"])

lemma tick_ok: "notify_ok s \<Longrightarrow> notify_ok (tick lt txn txn' t s)"
proof -
  assume s: "notify_ok s"
  define s1 where "s1 = (if nt_held s \<noteq> [] \<and> \<not> inQuiet lt (nt_cfg s) t then releaseHeld txn s else s)"
  have "notify_ok s1" using s releaseHeld_ok by (simp add: s1_def)
  then have "notify_ok (tick_digest lt txn' t s1)"
    by (auto simp: tick_digest_def Let_def intro: notify_ok_cong [of _ s1] notify_ok_cong [OF _ _ _ deliver_ok [OF notify_ok_cong [of _ s1]]])
  then show ?thesis unfolding tick_def s1_def [symmetric] Let_def
    by (rule notify_ok_cong [rotated 3]) (simp_all add: save_state_def)
qed

lemma queue_ok_other: "queue_of j s' = queue_of j s \<Longrightarrow> of_channel j (nt_told s') = of_channel j (nt_told s) \<Longrightarrow>
   of_channel j (nt_begun s') = of_channel j (nt_begun s) \<Longrightarrow> queue_ok s' j = queue_ok s j"
  by (simp add: queue_ok_def)

lemma take_ok: "notify_ok s \<Longrightarrow> notify_ok (queue_take i s)"
proof -
  assume ok: "notify_ok s"
  let ?q = "queue_of i s"
  have "queue_ok (queue_take i s) j" for j
  proof (cases "\<not> q_running ?q \<or> q_sending ?q \<noteq> None \<or> q_items ?q = []")
    case True
    have "queue_ok s i" "queue_ok s j" using ok by (simp_all add: notify_ok_def)
    then show ?thesis using True by (auto simp: queue_take_def Let_def queue_ok_def split: list.split)
  next
    case False
    then obtain m rest where q3: "q_items ?q = m # rest" by (cases "q_items ?q") auto
    have q: "q_running ?q" "q_sending ?q = None" "q_items ?q = m # rest" using False q3 by blast+
    show ?thesis
    proof (cases "j = i")
      case True
      have sub: "subseq (of_channel i (nt_begun s) @ m # rest) (of_channel i (nt_told s))" "length (m # rest) \<le> MAX_QUEUE"
        using ok q(3) unfolding notify_ok_def queue_ok_def by metis+
      show ?thesis
      proof (cases "find (\<lambda>c. ch_id c = i \<and> ch_on c) (nc_channels (nt_cfg s))")
        case None
        then show ?thesis using True q sub subseq_tl_mid [OF sub(1)] by (simp add: queue_take_def queue_ok_def)
      next
        case (Some cur)
        then have "ch_id cur = i" by (auto dest: find_SomeD)
        then show ?thesis using True q sub Some by (simp add: queue_take_def queue_ok_def)
      qed
    next
      case False
      then show ?thesis using ok q
        by (subst queue_ok_other [of j _ s]) (simp_all add: queue_take_def notify_ok_def Let_def split: option.split)
    qed
  qed
  then show ?thesis by (simp add: notify_ok_def)
qed

lemma queue_of_status [simp]: "queue_of i (set_status j f s) = queue_of i s"
  "nt_told (set_status j f s) = nt_told s" "nt_begun (set_status j f s) = nt_begun s"
  by (simp_all add: set_status_def)

lemma sent_ok: "notify_ok s \<Longrightarrow> notify_ok (sent i res t s)"
proof -
  assume ok: "notify_ok s"
  have "queue_ok (sent i res t s) j" for j
  proof (cases "q_sending (queue_of i s)")
    case None
    then show ?thesis using ok by (simp add: sent_def notify_ok_def)
  next
    case (Some x)
    obtain ch m k where x: "x = (ch, m, k)" by (cases x) auto
    have i: "queue_ok s i" "queue_ok s j" using ok by (simp_all add: notify_ok_def)
    show ?thesis
    proof (cases "j = i")
      case True
      then show ?thesis using i Some x by (auto simp: sent_def queue_ok_def Let_def split: option.split)
    next
      case False
      then show ?thesis using i(2) Some x
        by (subst queue_ok_other [of j _ s]) (simp_all add: sent_def Let_def split: option.split)
    qed
  qed
  then show ?thesis by (simp add: notify_ok_def)
qed

lemma setConfig_ok: "notify_ok s \<Longrightarrow> setConfig u input s = Inr s' \<Longrightarrow> notify_ok s'"
  by (auto simp: setConfig_def intro: notify_ok_cong [of _ s])

lemma nstep_ok: "notify_ok s \<Longrightarrow> notify_ok (nstep lt u s a)"
proof (cases a)
  case (NTest i tst t)
  assume "notify_ok s"
  then show ?thesis using NTest by (auto simp: test_channel_def set_status_def intro: notify_ok_cong [of _ s] split: option.split)
next
  case (NWebPush name)
  assume "notify_ok s"
  then show ?thesis using NWebPush setConfig_ok [of s u]
    by (auto simp: or_same_def ensureWebPush_def split: sum.splits if_splits)
qed (auto simp: or_same_def onEvent_ok tick_ok take_ok sent_ok setConfig_ok split: sum.split)

interpretation notifying: machine "nstep lt u" notify_ok for lt u
  by unfold_locales (rule nstep_ok)

lemma created_ok: "notify_ok (createNotifier u file stfile)"
  by (simp add: notify_ok_def queue_ok_def createNotifier_def queue_of_def Let_def of_channel_def)

lemma tick_digest_told: "\<exists>rest. nt_told (tick_digest lt txn t s) = nt_told s @ rest"
  unfolding tick_digest_def Let_def by simp

section \<open>Properties\<close>

text \<open>
  Quiet hours keep their promise: while they last an event that is not critical tells no channel
  anything (a warning is kept for the summary, the last 500 of them; an info goes to the digest), and a
  critical one is put at once into the queue of every channel that is on, whatever its minimum. When
  they are over, the next event or the minute's tick first empties what is held, and the one message
  it makes of it has a line for exactly the alerts that still matter: each by its last event, left out
  only when it both fired and ended inside the window.
\<close>

theorem quiet_hours:
  assumes "inQuiet lt (nt_cfg s) t" "\<not> inQuiet lt (nt_cfg s) t2"
  shows "(e_severity e \<noteq> Critical \<longrightarrow> nt_told (onEvent lt txn e t s) = nt_told s) \<and>
    (e_severity e = Warning \<longrightarrow> nt_held (onEvent lt txn e t s) = slice_last MAX_HELD (nt_held s @ [slim e])) \<and>
    (e_severity e = Critical \<longrightarrow> nt_told (onEvent lt txn e t s) =
       nt_told s @ map (with_txn txn (alertMessage lt e)) (filter ch_on (nc_channels (nt_cfg s)))) \<and>
    nt_held (tick lt txn txn' t2 s) = [] \<and>
    (\<exists>es rest. nt_told (tick lt txn txn' t2 s) = nt_told s @ (if es = [] then [] else
         map (with_txn txn (plain_msg ''summary'' Warning (tr ''notify.summaryTitle'' [(''n'', show_nat (length es))]) (join_with [NL] (map line es))))
           (filter (\<lambda>c. ch_on c \<and> rank_le Warning (ch_min c)) (nc_channels (nt_cfg s)))) @ rest \<and>
       (nt_held s = [] \<longrightarrow> es = []) \<and> distinct (map alert_key es) \<and>
       (\<forall>x. x \<in> set es \<longleftrightarrow> find (\<lambda>y. alert_key y = alert_key x) (rev (nt_held s)) = Some x \<and>
          (e_kind x = EResolved \<longrightarrow> \<not> list_ex (\<lambda>y. alert_key y = alert_key x \<and> e_kind y = EFiring) (nt_held s))))"
proof -
  let ?es = "summary_events (nt_held s)"
  define s1 where "s1 = (if nt_held s \<noteq> [] \<and> \<not> inQuiet lt (nt_cfg s) t2 then releaseHeld txn s else s)"
  have empty: "summary_events [] = []" by (simp add: summary_events_def last_of_each_def)
  have held: "nt_held (tick lt txn txn' t2 s) = []"
    using assms(2) unfolding tick_def s1_def [symmetric] Let_def by (simp add: tick_digest_def Let_def s1_def)
  have told1: "nt_told s1 = nt_told s @ (if ?es = [] then [] else
         map (with_txn txn (plain_msg ''summary'' Warning (tr ''notify.summaryTitle'' [(''n'', show_nat (length ?es))]) (join_with [NL] (map line ?es))))
           (filter (\<lambda>c. ch_on c \<and> rank_le Warning (ch_min c)) (nc_channels (nt_cfg s))))"
    using assms(2) empty by (auto simp: s1_def releaseHeld_def summary_lines_events Let_def)
  obtain rest where "nt_told (tick lt txn txn' t2 s) = nt_told s1 @ rest"
    using tick_digest_told [of lt txn' t2 s1] unfolding tick_def s1_def [symmetric] Let_def by auto
  then have "\<exists>es rest. nt_told (tick lt txn txn' t2 s) = nt_told s @ (if es = [] then [] else
         map (with_txn txn (plain_msg ''summary'' Warning (tr ''notify.summaryTitle'' [(''n'', show_nat (length es))]) (join_with [NL] (map line es))))
           (filter (\<lambda>c. ch_on c \<and> rank_le Warning (ch_min c)) (nc_channels (nt_cfg s)))) @ rest \<and>
       (nt_held s = [] \<longrightarrow> es = []) \<and> distinct (map alert_key es) \<and>
       (\<forall>x. x \<in> set es \<longleftrightarrow> find (\<lambda>y. alert_key y = alert_key x) (rev (nt_held s)) = Some x \<and>
          (e_kind x = EResolved \<longrightarrow> \<not> list_ex (\<lambda>y. alert_key y = alert_key x \<and> e_kind y = EFiring) (nt_held s)))"
    using summary_events_spec [of "nt_held s"] told1 empty by (intro exI [of _ ?es] exI [of _ rest]) auto
  moreover have "rank_le Critical x" for x by (simp add: rank_le_def)
  ultimately show ?thesis using assms(1) held
    by (auto simp: onEvent_def Let_def)
qed

definition demo_lt :: localtime where
  "demo_lt t = (nat (t div 60000) mod 1440, ''day'')"

definition demo_event :: "severity \<Rightarrow> event" where
  "demo_event sev = \<lparr>e_kind = EFiring, e_rule = ''disk_full'', e_name = [], e_metric = ''disk.used'', e_severity = sev, e_node = ''abcdefghijkl'',
     e_nodeName = ''nas'', e_sub = ''/srv'', e_value = Some 92, e_at = 82800000, e_since = 82800000, e_ended = False, e_quiet = []\<rparr>"

definition demo_notifier :: notifier where
  "demo_notifier = (createNotifier demo_url None ([demo_event Warning], [], None))
     \<lparr>nt_cfg := demo_conf\<lparr>nc_quiet := Some (''22:00'', ''07:00'')\<rparr>\<rparr>"

theorem quiet_hours_witness:
  "nt_told (onEvent demo_lt (\<lambda>_. ''t1'') (demo_event Warning) 82800000 demo_notifier) = [] \<and>
   nt_told (onEvent demo_lt (\<lambda>_. ''t1'') (demo_event Critical) 82800000 demo_notifier) =
     [(''ch_a1'', (alertMessage demo_lt (demo_event Critical))\<lparr>m_txn := ''t1''\<rparr>)] \<and>
   nt_held (tick demo_lt (\<lambda>_. ''t1'') (\<lambda>_. ''t2'') 28800000 demo_notifier) = []"
proof -
  have q: "inQuiet demo_lt (nt_cfg demo_notifier) 82800000" by code_simp
  have nq: "\<not> inQuiet demo_lt (nt_cfg demo_notifier) 28800000" by code_simp
  have "nt_told demo_notifier = []" by code_simp
  moreover have "filter ch_on (nc_channels (nt_cfg demo_notifier)) = nc_channels demo_conf" by code_simp
  moreover have "map (with_txn (\<lambda>_. ''t1'') (alertMessage demo_lt (demo_event Critical))) (nc_channels demo_conf) =
      [(''ch_a1'', (alertMessage demo_lt (demo_event Critical))\<lparr>m_txn := ''t1''\<rparr>)]"
    by (simp add: demo_conf_def with_txn_def)
  moreover have "e_severity (demo_event Warning) = Warning" "e_severity (demo_event Critical) = Critical" by (simp_all add: demo_event_def)
  ultimately show ?thesis
    using quiet_hours [OF q nq, of "demo_event Warning" "\<lambda>_. ''t1''" "\<lambda>_. ''t2''"] quiet_hours [OF q nq, of "demo_event Critical" "\<lambda>_. ''t1''" "\<lambda>_. ''t2''"]
    by simp
qed

text \<open>With twenty channels none of which is Web Push, subscribing a browser throws: there is no room for its channel.\<close>

lemma ensureWebPush_full:
  "length (nc_channels (nt_cfg s)) = 20 \<Longrightarrow> \<not> list_ex (\<lambda>c. ch_type c = ''webpush'') (nc_channels (nt_cfg s)) \<Longrightarrow>
   ensureWebPush u name s = Inl ''channels: at most 20''"
  by (simp add: ensureWebPush_def setConfig_def checkChannels_def conf_js_def)

text \<open>
  An end never overtakes its start: whatever happens (events, ticks, saves of the channels, tests,
  tries that fail or succeed in any order of the channels), the messages a channel begins to send are,
  in order, among those put into its queue, at most 100 of which wait; and a message being tried again
  is the last one begun, on its fourth try at most.
\<close>

theorem channel_order:
  "let s = foldl (nstep lt httpUrl) (createNotifier httpUrl file stfile) ops in
   subseq (of_channel i (nt_begun s) @ q_items (queue_of i s)) (of_channel i (nt_told s)) \<and>
   length (q_items (queue_of i s)) \<le> MAX_QUEUE \<and> sending_ok i (of_channel i (nt_begun s)) (q_sending (queue_of i s))"
  using notifying.inv_run [OF created_ok] by (auto simp: notify_ok_def queue_ok_def Let_def)

lemma send_loop_run:
  "k \<le> 3 \<Longrightarrow> send_loop res k = (ok, n, slept) \<Longrightarrow>
   k < n \<and> n \<le> 4 \<and> slept \<le> sum_list (drop k RETRIES) \<and> (ok \<longleftrightarrow> res (n - 1) = None) \<and>
   (\<forall>j. k \<le> j \<longrightarrow> j < n - 1 \<longrightarrow> (\<exists>c. res j = Some c \<and> \<not> final_error c)) \<and>
   (\<not> ok \<longrightarrow> n = 4 \<or> (\<exists>c. res (n - 1) = Some c \<and> final_error c))"
proof (induction "3 - k" arbitrary: k ok n slept)
  case 0
  then have "k = 3" by simp
  then show ?case using "0.prems" by (auto simp: send_loop.simps [of res 3] RETRIES_def split: option.splits)
next
  case (Suc d)
  show ?case
  proof (cases "res k = None \<or> final_error (the (res k))")
    case True
    have "0 \<le> sum_list (drop k RETRIES)" by (intro sum_list_nonneg) (auto simp: RETRIES_def dest!: in_set_dropD)
    then show ?thesis using Suc.prems True by (auto simp: send_loop.simps [of res k] RETRIES_def split: option.splits if_splits)
  next
    case False
    then obtain c where c: "res k = Some c" "\<not> final_error c" by auto
    have k: "k < 3" using Suc by simp
    obtain ok' n' slept' where r: "send_loop res (k + 1) = (ok', n', slept')" by (metis prod_cases3)
    have eq: "ok = ok'" "n = n'" "slept = RETRIES ! k + slept'"
      using Suc.prems(2) c k r by (simp_all add: send_loop.simps [of res k] RETRIES_def)
    have IH: "k + 1 < n' \<and> n' \<le> 4 \<and> slept' \<le> sum_list (drop (k + 1) RETRIES) \<and> (ok' \<longleftrightarrow> res (n' - 1) = None) \<and>
       (\<forall>j. k + 1 \<le> j \<longrightarrow> j < n' - 1 \<longrightarrow> (\<exists>c. res j = Some c \<and> \<not> final_error c)) \<and>
       (\<not> ok' \<longrightarrow> n' = 4 \<or> (\<exists>c. res (n' - 1) = Some c \<and> final_error c))"
      using Suc.hyps(2) k by (intro Suc.hyps(1) [OF _ _ r]) simp_all
    have "sum_list (drop k RETRIES) = RETRIES ! k + sum_list (drop (k + 1) RETRIES)"
      using k by (subst Cons_nth_drop_Suc [symmetric]) (simp_all add: RETRIES_def)
    moreover have "\<exists>c. res j = Some c \<and> \<not> final_error c" if "k \<le> j" "j < n' - 1" for j
      using that IH c by (cases "j = k") auto
    ultimately show ?thesis using IH by (simp add: eq)
  qed
qed

text \<open>
  Sending ends: a message is tried at most four times with 42 seconds of waiting in all, whatever
  the other end does; it is delivered exactly when its last try was taken, every try before the last
  failed with an error worth another try, and it is given up only after the fourth or on a final error.
\<close>

theorem send_ends:
  "case send_loop res 0 of (ok, n, slept) \<Rightarrow>
     0 < n \<and> n \<le> 4 \<and> slept \<le> 42000 \<and> (ok \<longleftrightarrow> res (n - 1) = None) \<and>
     (\<forall>j < n - 1. \<exists>c. res j = Some c \<and> \<not> final_error c) \<and>
     (\<not> ok \<longrightarrow> n = 4 \<or> (\<exists>c. res (n - 1) = Some c \<and> final_error c))"
  using send_loop_run [of 0 res] by (auto simp: RETRIES_def split: prod.split)

theorem send_ends_witness:
  "send_loop (\<lambda>_. Some ''HTTP_500'') 0 = (False, 4, 42000) \<and> \<not> final_error ''HTTP_500''"
proof -
  have r: "send_loop (\<lambda>_. Some ''HTTP_500'') 0 = (False, 4, 42000)" by code_simp
  have "\<forall>j < 3::nat. \<exists>c. Some ''HTTP_500'' = Some c \<and> \<not> final_error c"
    using send_ends [of "\<lambda>_. Some ''HTTP_500''"] by (simp add: r)
  then have "\<not> final_error ''HTTP_500''" by (drule_tac x = 0 in spec) simp
  then show ?thesis using r by simp
qed

end
