(* ===== verification/Login.thy ===== *)
theory Login
  imports Client_Ip
begin

text \<open>
  Who may use the pages of the hub: password hashes (\<^verbatim>\<open>src/hub/lib/password.js\<close>), the admin login file
  (\<^verbatim>\<open>src/hub/lib/admin.js\<close>), and of \<^verbatim>\<open>src/hub/server.js\<close> the bans, the session cookie, the login form
  and the change of the account. Scrypt, SHA-256, HMAC, base64 and JSON parsing of a cookie are the
  record \<open>lcrypto\<close>; a digest or a key is a string of bytes. \<^verbatim>\<open>admin.json\<close> and \<^verbatim>\<open>bans.json\<close> are fields of the
  state \<open>gate\<close>, so a write another program makes is a change of that field. The settings of the
  environment are the record \<open>lenv\<close>; times are in ms.
\<close>

section \<open>Password hashes\<close>

record lcrypto =
  k_sha256 :: "string \<Rightarrow> string"
  k_scrypt :: "string \<Rightarrow> string \<Rightarrow> nat \<Rightarrow> int \<Rightarrow> int \<Rightarrow> int \<Rightarrow> string"
  k_unbase64 :: "string \<Rightarrow> string"
  k_base64 :: "string \<Rightarrow> string"
  k_unhex :: "string \<Rightarrow> string"
  k_sign :: "string \<Rightarrow> string"
  k_encode :: "string \<Rightarrow> int \<Rightarrow> ms \<Rightarrow> string"
  k_decode :: "string \<Rightarrow> jsval option"

definition MAX_MEM :: int where "MAX_MEM = 64 * 1024 * 1024"

text \<open>\<^verbatim>\<open>Number.isInteger(Number(s))\<close>, with the integer.\<close>

definition js_integer :: "string \<Rightarrow> int option" where
  "js_integer s = (case js_Number s of None \<Rightarrow> None | Some q \<Rightarrow> if q = of_int \<lfloor>q\<rfloor> then Some \<lfloor>q\<rfloor> else None)"

text \<open>\<^verbatim>\<open>(n & (n - 1)) !== 0\<close>, on the low 32 bits as JavaScript does.\<close>

definition not_power2 :: "int \<Rightarrow> bool" where
  "not_power2 n \<longleftrightarrow> (word_of_int n :: 32 word) AND word_of_int (n - 1) \<noteq> 0"

record scrypt_hash =
  sh_n :: int
  sh_r :: int
  sh_p :: int
  sh_salt :: string
  sh_hash :: string

definition parseScrypt :: "lcrypto \<Rightarrow> string \<Rightarrow> scrypt_hash option" where
  "parseScrypt C stored =
    (case split_on (CHR '':'') stored of
       [a, ns, rs, ps, ss, hs] \<Rightarrow>
         if a \<noteq> ''scrypt'' then None
         else (case (js_integer ns, js_integer rs, js_integer ps) of
             (Some n, Some r, Some p) \<Rightarrow>
               if n < 16384 \<or> not_power2 n then None
               else if r < 1 \<or> r > 16 then None
               else if p < 1 \<or> p > 4 then None
               else if 128 * n * r > MAX_MEM div 2 then None
               else let salt = k_unbase64 C ss; h = k_unbase64 C hs in
                 if length salt < 16 \<or> length h < 16 then None
                 else Some \<lparr>sh_n = n, sh_r = r, sh_p = p, sh_salt = salt, sh_hash = h\<rparr>
           | _ \<Rightarrow> None)
     | _ \<Rightarrow> None)"

datatype hkind = HInvalid | HSha256 | HScrypt

definition describeHash :: "lcrypto \<Rightarrow> string \<Rightarrow> hkind" where
  "describeHash C stored =
    (if stored = [] then HInvalid
     else if in_class is_hex 64 64 stored then HSha256
     else if parseScrypt C stored \<noteq> None then HScrypt else HInvalid)"

definition verifyPassword :: "lcrypto \<Rightarrow> string \<Rightarrow> string \<Rightarrow> bool" where
  "verifyPassword C plain stored =
    (case describeHash C stored of
       HSha256 \<Rightarrow> k_sha256 C plain = k_unhex C stored
     | HInvalid \<Rightarrow> False
     | HScrypt \<Rightarrow> (case parseScrypt C stored of
           None \<Rightarrow> False
         | Some s \<Rightarrow> k_scrypt C plain (sh_salt s) (length (sh_hash s)) (sh_n s) (sh_r s) (sh_p s) = sh_hash s))"

text \<open>A fresh hash; the salt is drawn by the caller.\<close>

definition hashPassword :: "lcrypto \<Rightarrow> string \<Rightarrow> string \<Rightarrow> string" where
  "hashPassword C salt plain =
    ''scrypt:32768:8:1:'' @ k_base64 C salt @ '':'' @ k_base64 C (k_scrypt C plain salt 32 32768 8 1)"

section \<open>The admin login\<close>

record login =
  lg_user :: string
  lg_hash :: string
  lg_plain :: string
  lg_gen :: int

definition USER_RE :: "string \<Rightarrow> bool" where
  "USER_RE = in_class (\<lambda>c. is_lower c \<or> is_upper c \<or> is_digit c \<or> c \<in> set ''._-'') 1 64"

definition validAdmin :: "lcrypto \<Rightarrow> jsval \<Rightarrow> login option" where
  "validAdmin C a = (case (fld ''user'' a, fld ''hash'' a, finite_num (fld ''gen'' a)) of
      (JStr u, JStr h, Some g) \<Rightarrow>
        if USER_RE u \<and> describeHash C h = HScrypt \<and> g = of_int \<lfloor>g\<rfloor> \<and> g \<ge> 0
        then Some \<lparr>lg_user = u, lg_hash = h, lg_plain = [], lg_gen = \<lfloor>g\<rfloor>\<rparr> else None
    | _ \<Rightarrow> None)"

text \<open>The file with its modification time (its JSON, \<open>None\<close> when it does not parse), and the copy the hub keeps.\<close>

record admin_store =
  ad_file :: "(int \<times> jsval option) option"
  ad_cached :: "login option"
  ad_mtime :: "int option"
  ad_broken :: bool

definition load_admin :: "lcrypto \<Rightarrow> admin_store \<Rightarrow> admin_store" where
  "load_admin C s = (case ad_file s of
      None \<Rightarrow> s\<lparr>ad_cached := None, ad_mtime := None, ad_broken := False\<rparr>
    | Some (t, j) \<Rightarrow>
        if ad_mtime s = Some t then s
        else (case (case j of None \<Rightarrow> None | Some v \<Rightarrow> validAdmin C v) of
            Some a \<Rightarrow> s\<lparr>ad_mtime := Some t, ad_cached := Some a, ad_broken := False\<rparr>
          | None \<Rightarrow> s\<lparr>ad_mtime := Some t, ad_broken := True\<rparr>))"

definition admin_js :: "string \<Rightarrow> string \<Rightarrow> int \<Rightarrow> jsval" where
  "admin_js u h g = JObj [(''user'', JStr u), (''hash'', JStr h), (''gen'', JNum (Fin (of_int g)))]"

definition save_admin :: "lcrypto \<Rightarrow> string \<Rightarrow> string \<Rightarrow> int \<Rightarrow> int \<Rightarrow> admin_store \<Rightarrow> string + admin_store" where
  "save_admin C u h g mtime s =
    (if validAdmin C (admin_js u h g) = None then Inl ''invalid admin record''
     else Inr (s\<lparr>ad_file := Some (mtime, Some (admin_js u h g)), ad_mtime := None\<rparr>))"

definition isBroken :: "lcrypto \<Rightarrow> admin_store \<Rightarrow> bool" where
  "isBroken C s = ad_broken (load_admin C s)"

section \<open>Bans and failures\<close>

record lenv =
  le_user :: string
  le_pass :: string
  le_passHash :: string
  le_maxFails :: int
  le_banMs :: ms
  le_sessionMs :: ms

record ban =
  bn_at :: ms
  bn_until :: ms
  bn_fails :: int

record gate =
  g_admin :: admin_store
  g_bans :: "(string \<times> ban) list"
  g_fails :: "(string \<times> (int \<times> ms)) list"

text \<open>An address that did not parse (\<open>None\<close>) is never banned and never counted.\<close>

definition banInfo :: "string option \<Rightarrow> ms \<Rightarrow> gate \<Rightarrow> ban option \<times> gate" where
  "banInfo ip t s = (case ip of
      None \<Rightarrow> (None, s)
    | Some a \<Rightarrow> if a = [] then (None, s)
        else (case map_of (g_bans s) a of
            None \<Rightarrow> (None, s)
          | Some b \<Rightarrow> if bn_until b \<noteq> 0 \<and> t > bn_until b then (None, s\<lparr>g_bans := AList.delete a (g_bans s)\<rparr>) else (Some b, s)))"

definition recordFail :: "lenv \<Rightarrow> string option \<Rightarrow> ms \<Rightarrow> gate \<Rightarrow> (bool \<times> int) \<times> gate" where
  "recordFail E ip t s = (case ip of
      None \<Rightarrow> ((False, le_maxFails E), s)
    | Some a \<Rightarrow> if a = [] then ((False, le_maxFails E), s)
        else let n = (case map_of (g_fails s) a of None \<Rightarrow> 0 | Some (k, _) \<Rightarrow> k) + 1;
                 s1 = s\<lparr>g_fails := AList.update a (n, t) (g_fails s)\<rparr> in
          if n \<ge> le_maxFails E
          then ((True, 0), s1\<lparr>g_bans := AList.update a \<lparr>bn_at = t, bn_until = (if le_banMs E > 0 then t + le_banMs E else 0), bn_fails = n\<rparr> (g_bans s1),
                  g_fails := AList.delete a (g_fails s1)\<rparr>)
          else ((False, le_maxFails E - n), s1))"

definition clearFails :: "string option \<Rightarrow> gate \<Rightarrow> gate" where
  "clearFails ip s = (case ip of None \<Rightarrow> s | Some a \<Rightarrow> s\<lparr>g_fails := AList.delete a (g_fails s)\<rparr>)"

section \<open>Sessions\<close>

definition same_text :: "lcrypto \<Rightarrow> string \<Rightarrow> string \<Rightarrow> bool" where
  "same_text C a b \<longleftrightarrow> k_sha256 C a = k_sha256 C b"

definition creds :: "lcrypto \<Rightarrow> lenv \<Rightarrow> gate \<Rightarrow> login" where
  "creds C E s = (case ad_cached (load_admin C (g_admin s)) of
      Some a \<Rightarrow> a
    | None \<Rightarrow> \<lparr>lg_user = le_user E, lg_hash = le_passHash E, lg_plain = le_pass E, lg_gen = 0\<rparr>)"

text \<open>Every look at the login first reads the file again when it changed.\<close>

definition refresh :: "lcrypto \<Rightarrow> gate \<Rightarrow> gate" where
  "refresh C s = s\<lparr>g_admin := load_admin C (g_admin s)\<rparr>"

definition makeCookie :: "lcrypto \<Rightarrow> lenv \<Rightarrow> ms \<Rightarrow> gate \<Rightarrow> string" where
  "makeCookie C E t s = (let c = creds C E s; payload = k_encode C (lg_user c) (lg_gen c) (t + le_sessionMs E) in
     payload @ ''.'' @ k_sign C payload)"

definition live_session :: "lcrypto \<Rightarrow> lenv \<Rightarrow> string \<Rightarrow> ms \<Rightarrow> gate \<Rightarrow> bool" where
  "live_session C E payload t s = (case k_decode C payload of
      None \<Rightarrow> False
    | Some v \<Rightarrow> (case finite_num (fld ''exp'' v) of None \<Rightarrow> False | Some e \<Rightarrow> e > of_int t) \<and>
        fld ''u'' v = JStr (lg_user (creds C E s)) \<and>
        (if truthy (fld ''g'' v) then fld ''g'' v else JNum (Fin 0)) = JNum (Fin (of_int (lg_gen (creds C E s)))))"

definition validCookie :: "lcrypto \<Rightarrow> lenv \<Rightarrow> string option \<Rightarrow> ms \<Rightarrow> gate \<Rightarrow> bool" where
  "validCookie C E cookie t s = (case cookie of
      None \<Rightarrow> False
    | Some c \<Rightarrow> (case split_on (CHR ''.'') c of
          payload # mac # _ \<Rightarrow> payload \<noteq> [] \<and> mac \<noteq> [] \<and> same_text C mac (k_sign C payload) \<and> live_session C E payload t s
        | _ \<Rightarrow> False))"

definition checkPass :: "lcrypto \<Rightarrow> lenv \<Rightarrow> string \<Rightarrow> string \<Rightarrow> gate \<Rightarrow> bool" where
  "checkPass C E u p s = (let c = creds C E s in
     same_text C u (lg_user c) \<and> (if lg_hash c \<noteq> [] then verifyPassword C p (lg_hash c) else same_text C p (lg_plain c)))"

section \<open>The login form and the account\<close>

datatype lresult = LoggedIn string | WrongPassword int | NowBanned ban | StillBanned ban

text \<open>
  A try in two steps, as the code awaits the password check and 0.8 s between them: first the ban is looked up,
  then the password is checked and a failure recorded. \<open>wl\<close> says the client is whitelisted.
\<close>

definition login_begin :: "string option \<Rightarrow> bool \<Rightarrow> ms \<Rightarrow> gate \<Rightarrow> ban option \<times> gate" where
  "login_begin ip wl t s = (if wl then (None, s) else banInfo ip t s)"

definition login_finish :: "lcrypto \<Rightarrow> lenv \<Rightarrow> string option \<Rightarrow> bool \<Rightarrow> string \<Rightarrow> string \<Rightarrow> ms \<Rightarrow> gate \<Rightarrow> lresult \<times> gate" where
  "login_finish C E ip wl u p t s0 =
    (let s = refresh C s0 in
     if checkPass C E u p s
     then (let s1 = clearFails ip s in (LoggedIn (makeCookie C E t s1), s1))
     else if wl then (WrongPassword (-1), s)
     else (case recordFail E ip t s of
         ((banned, left), s1) \<Rightarrow>
           if banned
           then (NowBanned (case fst (banInfo ip t s1) of Some b \<Rightarrow> b | None \<Rightarrow> \<lparr>bn_at = 0, bn_until = 0, bn_fails = 0\<rparr>), snd (banInfo ip t s1))
           else (WrongPassword left, s1)))"

definition login_request :: "lcrypto \<Rightarrow> lenv \<Rightarrow> string option \<Rightarrow> bool \<Rightarrow> string \<Rightarrow> string \<Rightarrow> ms \<Rightarrow> ms \<Rightarrow> gate \<Rightarrow> lresult \<times> gate" where
  "login_request C E ip wl u p t t2 s =
    (case login_begin ip wl t s of
       (Some b, s1) \<Rightarrow> (StillBanned b, s1)
     | (None, s1) \<Rightarrow> login_finish C E ip wl u p t2 s1)"

datatype aresult = ABad string | ADenied | AFailed string | ASaved string string

definition account_post :: "lcrypto \<Rightarrow> lenv \<Rightarrow> string option \<Rightarrow> bool \<Rightarrow> jsval option \<Rightarrow> string \<Rightarrow> int \<Rightarrow> ms \<Rightarrow> gate \<Rightarrow> aresult \<times> gate" where
  "account_post C E ip wl body salt mtime t s0 =
    (case body of
       None \<Rightarrow> (ABad ''invalid json'', s0)
     | Some b \<Rightarrow>
         let s = refresh C s0; current = creds C E s;
             user = (case fld ''user'' b of JStr u \<Rightarrow> if u \<noteq> [] then u else lg_user current | _ \<Rightarrow> lg_user current);
             password = str_of (fld ''password'' b) in
         if \<not> USER_RE user then (ABad ''name: 1-64 letters, digits, dot, dash or underscore'', s)
         else if password \<noteq> [] \<and> length password < 8 then (ABad ''password: at least 8 characters'', s)
         else if \<not> checkPass C E (lg_user current) (str_of (fld ''current'' b)) s
           then (ADenied, if wl then s else snd (recordFail E ip t s))
         else if password = [] \<and> lg_hash current \<noteq> [] \<and> describeHash C (lg_hash current) \<noteq> HScrypt
           then (ABad ''choose a new password: the current one is stored in an old format'', s)
         else let hsh = (if password \<noteq> [] then hashPassword C salt password
                         else if lg_hash current \<noteq> [] then lg_hash current else hashPassword C salt (lg_plain current)) in
           (case save_admin C user hsh (lg_gen current + 1) mtime (g_admin s) of
              Inl e \<Rightarrow> (AFailed e, s)
            | Inr ad \<Rightarrow> (let s1 = refresh C (s\<lparr>g_admin := ad\<rparr>) in (ASaved user (makeCookie C E t s1), s1))))"

section \<open>Reading the login\<close>

lemma load_admin_idem [simp]: "load_admin C (load_admin C a) = load_admin C a"
  by (auto simp: load_admin_def split: option.splits)

lemma refresh_simps [simp]:
  "g_bans (refresh C s) = g_bans s" "g_fails (refresh C s) = g_fails s" "g_admin (refresh C s) = load_admin C (g_admin s)"
  by (simp_all add: refresh_def)

lemma creds_cong: "load_admin C (g_admin s) = load_admin C (g_admin s') \<Longrightarrow> creds C E s = creds C E s'"
  by (simp add: creds_def)

lemma checkPass_cong: "load_admin C (g_admin s) = load_admin C (g_admin s') \<Longrightarrow> checkPass C E u p s = checkPass C E u p s'"
  using creds_cong [of C s s' E] by (simp add: checkPass_def)

section \<open>A run of wrong passwords\<close>

lemma banInfo_frame [simp]:
  "ip \<noteq> Some a \<Longrightarrow> map_of (g_bans (snd (banInfo ip t s))) a = map_of (g_bans s) a"
  "g_fails (snd (banInfo ip t s)) = g_fails s" "g_admin (snd (banInfo ip t s)) = g_admin s"
  by (auto simp: banInfo_def split: option.split)

lemma recordFail_frame [simp]:
  "ip \<noteq> Some a \<Longrightarrow> map_of (g_bans (snd (recordFail E ip t s))) a = map_of (g_bans s) a"
  "ip \<noteq> Some a \<Longrightarrow> map_of (g_fails (snd (recordFail E ip t s))) a = map_of (g_fails s) a"
  "g_admin (snd (recordFail E ip t s)) = g_admin s"
  by (auto simp: recordFail_def Let_def split: option.split)

lemma checkPass_refresh [simp]: "checkPass C E u p (refresh C s) = checkPass C E u p s"
  by (rule checkPass_cong) simp

lemma login_finish_wrong:
  assumes "\<not> checkPass C E u p s"
  obtains "snd (login_finish C E ip False u p t s) = snd (recordFail E ip t (refresh C s))"
    | "snd (login_finish C E ip False u p t s) = snd (banInfo ip t (snd (recordFail E ip t (refresh C s))))"
proof -
  obtain banned left s1 where r: "recordFail E ip t (refresh C s) = ((banned, left), s1)" by (metis prod.collapse)
  show ?thesis using assms that by (cases banned) (simp_all add: login_finish_def Let_def r)
qed

text \<open>One guess of a run: who, the name and password, and the two times.\<close>

type_synonym guess = "string option \<times> string \<times> string \<times> ms \<times> ms"

definition guess_step :: "lcrypto \<Rightarrow> lenv \<Rightarrow> gate \<times> (string option \<times> lresult) list \<Rightarrow> guess \<Rightarrow> gate \<times> (string option \<times> lresult) list" where
  "guess_step C E x g = (case g of (ip, u, p, t, t2) \<Rightarrow>
     (let r = login_request C E ip False u p t t2 (fst x) in (snd r, snd x @ [(ip, fst r)])))"

definition was_checked :: "lresult \<Rightarrow> bool" where
  "was_checked r = (case r of StillBanned _ \<Rightarrow> False | _ \<Rightarrow> True)"

definition checked_count :: "string \<Rightarrow> (string option \<times> lresult) list \<Rightarrow> int" where
  "checked_count a rs = int (length (filter (\<lambda>r. fst r = Some a \<and> was_checked (snd r)) rs))"

text \<open>What is known of an address after \<open>n\<close> of its guesses were checked.\<close>

definition struck :: "lenv \<Rightarrow> ms \<Rightarrow> string \<Rightarrow> int \<Rightarrow> gate \<Rightarrow> bool" where
  "struck E t0 a n s \<longleftrightarrow>
    (n < le_maxFails E \<and> map_of (g_bans s) a = None \<and> (case map_of (g_fails s) a of None \<Rightarrow> n = 0 | Some (k, _) \<Rightarrow> k = n)) \<or>
    (n = le_maxFails E \<and> (\<exists>b. map_of (g_bans s) a = Some b \<and> (if le_banMs E > 0 then bn_until b \<ge> t0 + le_banMs E else bn_until b = 0)))"

lemma login_finish_frame:
  assumes "\<not> checkPass C E u p s"
  shows "ip \<noteq> Some a \<Longrightarrow> map_of (g_bans (snd (login_finish C E ip False u p t s))) a = map_of (g_bans s) a"
    "ip \<noteq> Some a \<Longrightarrow> map_of (g_fails (snd (login_finish C E ip False u p t s))) a = map_of (g_fails s) a"
    "g_admin (snd (login_finish C E ip False u p t s)) = load_admin C (g_admin s)"
  by (rule login_finish_wrong [OF assms, of ip t]; simp)+

lemma login_request_cases:
  obtains b where "fst (banInfo ip t s) = Some b" "login_request C E ip False u p t t2 s = (StillBanned b, snd (banInfo ip t s))"
    | "fst (banInfo ip t s) = None" "login_request C E ip False u p t t2 s = login_finish C E ip False u p t2 (snd (banInfo ip t s))"
  by (cases "banInfo ip t s"; cases "fst (banInfo ip t s)") (auto simp: login_request_def login_begin_def)

lemma checkPass_ban [simp]: "checkPass C E u p (snd (banInfo ip t s)) = checkPass C E u p s"
  by (rule checkPass_cong) simp

lemma login_wrong_frame:
  assumes "\<not> checkPass C E u p s"
  shows "ip \<noteq> Some a \<Longrightarrow> map_of (g_bans (snd (login_request C E ip False u p t t2 s))) a = map_of (g_bans s) a"
    "ip \<noteq> Some a \<Longrightarrow> map_of (g_fails (snd (login_request C E ip False u p t t2 s))) a = map_of (g_fails s) a"
    "load_admin C (g_admin (snd (login_request C E ip False u p t t2 s))) = load_admin C (g_admin s)"
  by (rule login_request_cases [of ip t s C E u p t2]; use assms in \<open>simp add: login_finish_frame\<close>)+

lemma recordFail_self:
  assumes "a \<noteq> []" "n = (case map_of (g_fails s) a of None \<Rightarrow> 0 | Some (k, _) \<Rightarrow> k)"
  shows "recordFail E (Some a) t s =
    (if n + 1 \<ge> le_maxFails E
     then ((True, 0), s\<lparr>g_fails := AList.delete a (AList.update a (n + 1, t) (g_fails s)),
             g_bans := AList.update a \<lparr>bn_at = t, bn_until = (if le_banMs E > 0 then t + le_banMs E else 0), bn_fails = n + 1\<rparr> (g_bans s)\<rparr>)
     else ((False, le_maxFails E - (n + 1)), s\<lparr>g_fails := AList.update a (n + 1, t) (g_fails s)\<rparr>))"
  using assms by (simp add: recordFail_def Let_def)

text \<open>One wrong guess of the address itself: it is checked and counted, or the address is banned by then.\<close>

lemma login_wrong_self:
  assumes "struck E t0 a n s" "\<not> checkPass C E u p s" "a \<noteq> []" "0 \<le> t0" "t0 \<le> t2" "le_banMs E > 0 \<longrightarrow> t \<le> t0 + le_banMs E"
  shows "\<exists>n'. struck E t0 a n' (snd (login_request C E (Some a) False u p t t2 s)) \<and>
    n' = n + (if was_checked (fst (login_request C E (Some a) False u p t t2 s)) then 1 else 0)"
proof (cases "map_of (g_bans s) a")
  case (Some b)
  then have b: "n = le_maxFails E" "if le_banMs E > 0 then bn_until b \<ge> t0 + le_banMs E else bn_until b = 0"
    using assms(1) by (auto simp: struck_def)
  then have "banInfo (Some a) t s = (Some b, s)" using Some assms(3,6) by (auto simp: banInfo_def split: if_splits)
  then show ?thesis using assms(1) by (auto simp: login_request_def login_begin_def was_checked_def)
next
  case None
  then have n: "n < le_maxFails E" "n = (case map_of (g_fails s) a of None \<Rightarrow> 0 | Some (k, _) \<Rightarrow> k)"
    using assms(1) by (auto simp: struck_def split: option.splits)
  let ?s = "refresh C s"
  have "banInfo (Some a) t s = (None, s)" using None assms(3) by (simp add: banInfo_def)
  then have r: "login_request C E (Some a) False u p t t2 s = login_finish C E (Some a) False u p t2 s"
    by (simp add: login_request_def login_begin_def)
  have rec: "recordFail E (Some a) t2 ?s =
    (if n + 1 \<ge> le_maxFails E
     then ((True, 0), ?s\<lparr>g_fails := AList.delete a (AList.update a (n + 1, t2) (g_fails s)),
             g_bans := AList.update a \<lparr>bn_at = t2, bn_until = (if le_banMs E > 0 then t2 + le_banMs E else 0), bn_fails = n + 1\<rparr> (g_bans s)\<rparr>)
     else ((False, le_maxFails E - (n + 1)), ?s\<lparr>g_fails := AList.update a (n + 1, t2) (g_fails s)\<rparr>))"
    using recordFail_self [OF assms(3), of n ?s E t2] n(2) by simp
  show ?thesis
  proof (cases "n + 1 \<ge> le_maxFails E")
    case True
    then show ?thesis using assms(2,3,5) n(1) rec unfolding r
      by (auto simp: login_finish_def Let_def banInfo_def was_checked_def struck_def)
  next
    case False
    then show ?thesis using assms(2) None rec unfolding r
      by (auto simp: login_finish_def Let_def was_checked_def struck_def)
  qed
qed

section \<open>Properties\<close>

lemma struck_le: "struck E t0 a n s \<Longrightarrow> n \<le> le_maxFails E"
  by (auto simp: struck_def)

lemma checked_count_snoc:
  "checked_count a (rs @ [(ip, r)]) = checked_count a rs + (if ip = Some a \<and> was_checked r then 1 else 0)"
  by (simp add: checked_count_def)

lemma wrong_run:
  assumes "list_all (\<lambda>(ip, u, p, t, t2). \<not> checkPass C E u p s0 \<and> (ip = Some a \<longrightarrow> t0 \<le> t2 \<and> (le_banMs E > 0 \<longrightarrow> t \<le> t0 + le_banMs E))) gs"
    and "struck E t0 a (checked_count a rs) s" "load_admin C (g_admin s) = load_admin C (g_admin s0)" "a \<noteq> []" "0 \<le> t0"
  shows "struck E t0 a (checked_count a (snd (foldl (guess_step C E) (s, rs) gs))) (fst (foldl (guess_step C E) (s, rs) gs))"
  using assms
proof (induction gs arbitrary: s rs)
  case (Cons g gs)
  obtain ip u p t t2 where g: "g = (ip, u, p, t, t2)" by (metis prod_cases5)
  let ?r = "login_request C E ip False u p t t2 s"
  have wrong: "\<not> checkPass C E u p s" using Cons.prems(1,3) checkPass_cong [of C s s0 E u p] by (simp add: g)
  have "struck E t0 a (checked_count a (rs @ [(ip, fst ?r)])) (snd ?r)"
  proof (cases "ip = Some a")
    case True
    have "\<exists>n'. struck E t0 a n' (snd ?r) \<and> n' = checked_count a rs + (if was_checked (fst ?r) then 1 else 0)"
      using Cons.prems(1) wrong unfolding True
      by (intro login_wrong_self [OF Cons.prems(2) _ Cons.prems(4,5)]) (simp_all add: g True)
    then show ?thesis using True by (simp add: checked_count_snoc)
  next
    case False
    have "map_of (g_bans (snd ?r)) a = map_of (g_bans s) a" "map_of (g_fails (snd ?r)) a = map_of (g_fails s) a"
      by (rule login_wrong_frame(1) [OF wrong False], rule login_wrong_frame(2) [OF wrong False])
    then have "struck E t0 a n (snd ?r) = struck E t0 a n s" for n by (simp add: struck_def)
    then show ?thesis using Cons.prems(2) False by (simp add: checked_count_snoc)
  qed
  then have st: "struck E t0 a (checked_count a (rs @ [(ip, fst ?r)])) (snd ?r)" .
  have la: "load_admin C (g_admin (snd ?r)) = load_admin C (g_admin s0)"
    using login_wrong_frame(3) [OF wrong, of ip t t2] Cons.prems(3) by simp
  have gs: "list_all (\<lambda>(ip, u, p, t, t2). \<not> checkPass C E u p s0 \<and> (ip = Some a \<longrightarrow> t0 \<le> t2 \<and> (le_banMs E > 0 \<longrightarrow> t \<le> t0 + le_banMs E))) gs"
    using Cons.prems(1) by simp
  have "guess_step C E (s, rs) g = (snd ?r, rs @ [(ip, fst ?r)])" by (simp add: guess_step_def g Let_def)
  then show ?case using Cons.IH [OF gs st la Cons.prems(4,5)] by simp
qed simp

text \<open>
  C20. Wrong passwords run out: of all the requests an address that is not on the whitelist sends one
  after another to the login form with wrong names or passwords, at most \<open>MAX_FAILS\<close> have their
  password looked at while the ban lasts (for good, when \<open>BAN_HOURS\<close> is 0); all others are answered
  as banned. Requests of other addresses in between change nothing of it.
\<close>

theorem wrong_passwords_run_out:
  assumes "list_all (\<lambda>(ip, u, p, t, t2). \<not> checkPass C E u p s \<and> (ip = Some a \<longrightarrow> t0 \<le> t2 \<and> (le_banMs E > 0 \<longrightarrow> t \<le> t0 + le_banMs E))) gs"
    and "map_of (g_bans s) a = None" "map_of (g_fails s) a = None" "a \<noteq> []" "0 \<le> t0" "0 < le_maxFails E"
  shows "checked_count a (snd (foldl (guess_step C E) (s, []) gs)) \<le> le_maxFails E"
proof -
  have "struck E t0 a (checked_count a []) s" using assms by (simp add: struck_def checked_count_def)
  from struck_le [OF wrong_run [OF assms(1) this refl assms(4,5)]] show ?thesis .
qed

definition demo_lcrypto :: lcrypto where
  "demo_lcrypto = \<lparr>k_sha256 = (\<lambda>s. s), k_scrypt = (\<lambda>p s l n r q. p), k_unbase64 = (\<lambda>s. s), k_base64 = (\<lambda>s. s), k_unhex = (\<lambda>s. s),
     k_sign = (\<lambda>s. ''mac'' @ s), k_encode = (\<lambda>u g e. ''session-'' @ u), k_decode = (\<lambda>s. None)\<rparr>"

definition demo_lenv :: lenv where
  "demo_lenv = \<lparr>le_user = ''admin'', le_pass = ''right horse'', le_passHash = [], le_maxFails = 3, le_banMs = 0, le_sessionMs = 2592000000\<rparr>"

definition demo_gate :: gate where
  "demo_gate = \<lparr>g_admin = \<lparr>ad_file = None, ad_cached = None, ad_mtime = None, ad_broken = False\<rparr>, g_bans = [], g_fails = []\<rparr>"

theorem wrong_passwords_run_out_witness:
  "checked_count ''192.0.2.7'' (snd (foldl (guess_step demo_lcrypto demo_lenv) (demo_gate, [])
     (replicate 9 (Some ''192.0.2.7'', ''admin'', ''wrong'', 5, 6)))) \<le> 3"
proof -
  let ?gs = "replicate 9 (Some ''192.0.2.7'', ''admin'', ''wrong'', 5::int, 6::int)"
  have wrong: "\<not> checkPass demo_lcrypto demo_lenv ''admin'' ''wrong'' demo_gate" by code_simp
  have "list_all (\<lambda>(ip, u, p, t, t2). \<not> checkPass demo_lcrypto demo_lenv u p demo_gate \<and>
      (ip = Some ''192.0.2.7'' \<longrightarrow> 0 \<le> t2 \<and> (le_banMs demo_lenv > 0 \<longrightarrow> t \<le> 0 + le_banMs demo_lenv))) ?gs"
    using wrong by (simp add: demo_lenv_def list_all_iff)
  moreover have "map_of (g_bans demo_gate) ''192.0.2.7'' = None" "map_of (g_fails demo_gate) ''192.0.2.7'' = None" "0 < le_maxFails demo_lenv"
    by (simp_all add: demo_gate_def demo_lenv_def)
  ultimately have "checked_count ''192.0.2.7'' (snd (foldl (guess_step demo_lcrypto demo_lenv) (demo_gate, []) ?gs)) \<le> le_maxFails demo_lenv"
    by (intro wrong_passwords_run_out [where ?t0.0 = 0]) simp_all
  then show ?thesis by (simp add: demo_lenv_def)
qed

text \<open>Requests at the same time: each looks up the ban when it comes, and is checked later.\<close>

datatype login_op = LBegin nat "string option" bool ms | LFinish nat string string ms

record logins =
  lo_gate :: gate
  lo_open :: "(nat \<times> (string option \<times> bool)) list"
  lo_results :: "(nat \<times> lresult) list"

fun login_op_step :: "lcrypto \<Rightarrow> lenv \<Rightarrow> logins \<Rightarrow> login_op \<Rightarrow> logins" where
  "login_op_step C E s (LBegin i ip wl t) = (case login_begin ip wl t (lo_gate s) of
      (Some b, g) \<Rightarrow> s\<lparr>lo_gate := g, lo_results := lo_results s @ [(i, StillBanned b)]\<rparr>
    | (None, g) \<Rightarrow> s\<lparr>lo_gate := g, lo_open := AList.update i (ip, wl) (lo_open s)\<rparr>)"
| "login_op_step C E s (LFinish i u p t) = (case map_of (lo_open s) i of
      None \<Rightarrow> s
    | Some (ip, wl) \<Rightarrow> (let r = login_finish C E ip wl u p t (lo_gate s) in
        s\<lparr>lo_gate := snd r, lo_open := AList.delete i (lo_open s), lo_results := lo_results s @ [(i, fst r)]\<rparr>))"

text \<open>
  At the same time they do not run out: the ban is looked up when a request comes and the failure
  recorded when its check is done, so of five requests sent together with three failures allowed, all
  five have their password checked, and the fifth, with the right one, logs in although its address is
  banned by then.
\<close>

theorem parallel_tries_escape_ban:
  "let s = foldl (login_op_step demo_lcrypto demo_lenv) \<lparr>lo_gate = demo_gate, lo_open = [], lo_results = []\<rparr>
      [LBegin 1 (Some ''192.0.2.7'') False 1, LBegin 2 (Some ''192.0.2.7'') False 2, LBegin 3 (Some ''192.0.2.7'') False 3,
       LBegin 4 (Some ''192.0.2.7'') False 4, LBegin 5 (Some ''192.0.2.7'') False 5,
       LFinish 1 ''admin'' ''a'' 801, LFinish 2 ''admin'' ''b'' 802, LFinish 3 ''admin'' ''c'' 803, LFinish 4 ''admin'' ''d'' 804,
       LFinish 5 ''admin'' ''right horse'' 805] in
   map_of (g_bans (lo_gate s)) ''192.0.2.7'' \<noteq> None \<and>
   list_all (\<lambda>r. was_checked (snd r)) (lo_results s) \<and> length (lo_results s) = 5 \<and>
   map_of (lo_results s) 5 = Some (LoggedIn (makeCookie demo_lcrypto demo_lenv 805 demo_gate))"
  by code_simp

lemma split_on_pair: "c \<notin> set a \<Longrightarrow> c \<notin> set b \<Longrightarrow> split_on c (a @ c # b) = [a, b]"
proof (induction a)
  case Nil
  then show ?case using split_on_no_sep [of c b] by simp
next
  case (Cons x a)
  then have "x \<noteq> c" "split_on c (a @ c # b) = [a, b]" by auto
  then show ?case by simp
qed

lemma validAdmin_js:
  assumes "validAdmin C (admin_js u h g) \<noteq> None"
  shows "validAdmin C (admin_js u h g) = Some \<lparr>lg_user = u, lg_hash = h, lg_plain = [], lg_gen = g\<rparr>"
  using assms by (simp add: validAdmin_def admin_js_def split: if_splits)

lemma saved_login:
  assumes "save_admin C u h g mtime ad = Inr ad'"
  shows "ad_cached (load_admin C ad') = Some \<lparr>lg_user = u, lg_hash = h, lg_plain = [], lg_gen = g\<rparr>"
proof -
  have v: "validAdmin C (admin_js u h g) \<noteq> None" "ad' = ad\<lparr>ad_file := Some (mtime, Some (admin_js u h g)), ad_mtime := None\<rparr>"
    using assms by (auto simp: save_admin_def split: if_splits)
  show ?thesis using v(2) validAdmin_js [OF v(1)] by (simp add: load_admin_def)
qed

lemma creds_refresh [simp]: "creds C E (refresh C s) = creds C E s"
  by (simp add: creds_def)

text \<open>A saved change: the login is the new one, its generation one higher, and the cookie is made for it.\<close>

lemma account_saved:
  assumes "account_post C E ip wl body salt mtime t s = (ASaved u c, s')"
  shows "lg_user (creds C E s') = u \<and> lg_gen (creds C E s') = lg_gen (creds C E s) + 1 \<and> c = makeCookie C E t s'"
proof -
  obtain b where b: "body = Some b" using assms by (cases body) (simp_all add: account_post_def)
  let ?s = "refresh C s" and ?cur = "creds C E s"
  let ?u = "case fld ''user'' b of JStr u \<Rightarrow> if u \<noteq> [] then u else lg_user ?cur | _ \<Rightarrow> lg_user ?cur"
  let ?pw = "str_of (fld ''password'' b)"
  let ?h = "if ?pw \<noteq> [] then hashPassword C salt ?pw else if lg_hash ?cur \<noteq> [] then lg_hash ?cur else hashPassword C salt (lg_plain ?cur)"
  have "(case save_admin C ?u ?h (lg_gen ?cur + 1) mtime (g_admin ?s) of
      Inl e \<Rightarrow> (AFailed e, ?s)
    | Inr ad \<Rightarrow> (let s1 = refresh C (?s\<lparr>g_admin := ad\<rparr>) in (ASaved ?u (makeCookie C E t s1), s1))) = (ASaved u c, s')"
    using assms unfolding b account_post_def option.case Let_def creds_refresh by (simp only: split: if_splits) simp_all
  then obtain ad where ad: "save_admin C ?u ?h (lg_gen ?cur + 1) mtime (g_admin ?s) = Inr ad"
      and u: "u = ?u" and s': "s' = refresh C (?s\<lparr>g_admin := ad\<rparr>)" and c: "c = makeCookie C E t s'"
    by (cases "save_admin C ?u ?h (lg_gen ?cur + 1) mtime (g_admin ?s)") (auto simp: Let_def)
  have "creds C E s' = \<lparr>lg_user = u, lg_hash = ?h, lg_plain = [], lg_gen = lg_gen ?cur + 1\<rparr>"
    unfolding s' creds_refresh using saved_login [OF ad] by (simp only: creds_def u) simp
  then show ?thesis using c by simp
qed

lemma validCookie_gen:
  assumes "validCookie C E (Some old) t s"
  shows "\<exists>p v. hd (split_on CHR ''.'' old) = p \<and> k_decode C p = Some v \<and>
    (if truthy (fld ''g'' v) then fld ''g'' v else JNum (Fin 0)) = JNum (Fin (of_int (lg_gen (creds C E s))))"
  using assms by (auto simp: validCookie_def live_session_def Let_def split: list.splits option.splits)

text \<open>
  A change of the account ends every other session: after a saved change of the name or password,
  no cookie that was good before (at any time) is good again under the new login, and the cookie the
  answer sets is good until its own end. The encoded payload is a text without a dot that decodes to
  what was encoded.
\<close>

theorem account_change:
  fixes C E s
  defines "pay \<equiv> \<lambda>u e. k_encode C u (lg_gen (creds C E s) + 1) e"
  assumes "account_post C E ip wl body salt mtime t s = (ASaved u c, s')"
    and "0 \<le> lg_gen (creds C E s)"
    and "pay u (t + le_sessionMs E) \<noteq> []" "CHR ''.'' \<notin> set (pay u (t + le_sessionMs E))"
    and "k_sign C (pay u (t + le_sessionMs E)) \<noteq> []" "CHR ''.'' \<notin> set (k_sign C (pay u (t + le_sessionMs E)))"
    and "k_decode C (pay u (t + le_sessionMs E)) = Some (JObj [(''u'', JStr u),
      (''g'', JNum (Fin (of_int (lg_gen (creds C E s) + 1)))), (''exp'', JNum (Fin (of_int (t + le_sessionMs E))))])"
  shows "(validCookie C E (Some old) t1 s \<longrightarrow> \<not> validCookie C E (Some old) t2 s') \<and>
    (t' < t + le_sessionMs E \<longrightarrow> validCookie C E (Some c) t' s')"
proof -
  have s': "lg_user (creds C E s') = u" "lg_gen (creds C E s') = lg_gen (creds C E s) + 1" "c = makeCookie C E t s'"
    using account_saved [OF assms(2)] by simp_all
  have "\<not> validCookie C E (Some old) t2 s'" if "validCookie C E (Some old) t1 s"
    using validCookie_gen [OF that] validCookie_gen [of C E old t2 s'] s'(2) by auto
  moreover have "validCookie C E (Some c) t' s'" if "t' < t + le_sessionMs E"
  proof -
    let ?p = "pay u (t + le_sessionMs E)"
    have "c = ?p @ CHR ''.'' # k_sign C ?p" using s' by (simp add: makeCookie_def pay_def Let_def)
    then have "split_on CHR ''.'' c = [?p, k_sign C ?p]" using split_on_pair assms(5,7) by simp
    moreover have "live_session C E ?p t' s'"
      using that s' assms(3,8) by (simp add: live_session_def)
    ultimately show ?thesis using assms(4,6) by (simp add: validCookie_def same_text_def)
  qed
  ultimately show ?thesis by simp
qed

definition demo_account_crypto :: lcrypto where
  "demo_account_crypto = demo_lcrypto\<lparr>k_scrypt := (\<lambda>p s l n r q. p @ ''0123456789abcdef''),
     k_encode := (\<lambda>u g e. ''session-of-root''),
     k_decode := (\<lambda>p. if p = ''session-of-root''
       then Some (JObj [(''u'', JStr ''root''), (''g'', JNum (Fin 1)), (''exp'', JNum (Fin 2592000007))]) else None)\<rparr>"

definition demo_change :: "aresult \<times> gate" where
  "demo_change = account_post demo_account_crypto demo_lenv (Some ''192.0.2.7'') False
     (Some (JObj [(''user'', JStr ''root''), (''password'', JStr ''better horse''), (''current'', JStr ''right horse'')]))
     ''fedcba9876543210'' 6 7 demo_gate"

lemma demo_change_saved: "fst demo_change = ASaved ''root'' ''session-of-root.macsession-of-root''"
  by code_simp

theorem account_change_witness:
  "validCookie demo_account_crypto demo_lenv (Some ''session-of-root.macsession-of-root'') 8 (snd demo_change)"
proof -
  have e: "account_post demo_account_crypto demo_lenv (Some ''192.0.2.7'') False
     (Some (JObj [(''user'', JStr ''root''), (''password'', JStr ''better horse''), (''current'', JStr ''right horse'')]))
     ''fedcba9876543210'' 6 7 demo_gate = (ASaved ''root'' ''session-of-root.macsession-of-root'', snd demo_change)"
    using demo_change_saved by (metis demo_change_def prod.collapse)
  have g: "lg_gen (creds demo_account_crypto demo_lenv demo_gate) = 0" by code_simp
  have k: "k_encode demo_account_crypto = (\<lambda>u g e. ''session-of-root'')" "k_sign demo_account_crypto = (\<lambda>s. ''mac'' @ s)"
    "k_decode demo_account_crypto ''session-of-root'' =
      Some (JObj [(''u'', JStr ''root''), (''g'', JNum (Fin 1)), (''exp'', JNum (Fin 2592000007))])"
    by (simp_all add: demo_account_crypto_def demo_lcrypto_def)
  have l: "le_sessionMs demo_lenv = 2592000000" by (simp add: demo_lenv_def)
  show ?thesis using account_change [OF e, of "[]" 0 0 8] by (simp add: g k l)
qed

end
