(* ===== verification/Confd.thy ===== *)
theory Confd
  imports Js_Prelude "HOL-Library.List_Lexorder" "HOL-Library.Char_ord"
begin

text \<open>
  Config as code (\<^verbatim>\<open>src/hub/lib/confd.js\<close>): the files of \<^verbatim>\<open>conf.d\<close> are read in name order, a file
  with any mistake is skipped whole, later files win key by key, and the hub keeps its copy for two
  seconds. The directory is a value (what \<^verbatim>\<open>readdirSync\<close>, \<^verbatim>\<open>statSync\<close>, \<^verbatim>\<open>readFileSync\<close> and
  \<^verbatim>\<open>JSON.parse\<close> answer); a JSON object is its list of members, each key once. How a number is
  written in a message (\<open>shownum\<close>) is an argument.
\<close>

section \<open>The checks of a file\<close>

type_synonym ccheck = "jsval \<Rightarrow> string \<Rightarrow> string + jsval"

definition CHECK_EVERY_MS :: ms where "CHECK_EVERY_MS = 2000"

definition MAX_BYTES :: int where "MAX_BYTES = 256 * 1024"

definition PANELS :: "string list" where
  "PANELS = [''mem'', ''cpu'', ''temp'', ''storage'', ''network'', ''docker'', ''clocks'', ''weather'']"

definition fail :: "string \<Rightarrow> string \<Rightarrow> string + 'a" where
  "fail place what = Inl (place @ '': '' @ what)"

fun comma_list :: "string list \<Rightarrow> string" where
  "comma_list [] = []"
| "comma_list [x] = x"
| "comma_list (x # xs) = x @ '', '' @ comma_list xs"

fun onlyKeys :: "(string \<times> jsval) list \<Rightarrow> string \<Rightarrow> string list \<Rightarrow> string + unit" where
  "onlyKeys [] place allowed = Inr ()"
| "onlyKeys ((k, v) # kvs) place allowed =
     (if k \<in> set allowed then onlyKeys kvs place allowed else fail place (''unknown key '' @ [CHR 0x22] @ k @ [CHR 0x22]))"

definition one_of :: "string list \<Rightarrow> ccheck" where
  "one_of choices v place = (if v \<in> JStr ` set choices then Inr v else fail place (''one of '' @ comma_list choices))"

definition true_false :: ccheck where
  "true_false v place = (case v of JBool _ \<Rightarrow> Inr v | _ \<Rightarrow> fail place ''true or false'')"

definition in_between :: "nat \<Rightarrow> nat \<Rightarrow> ccheck" where
  "in_between lo hi v place = (case finite_num v of
      Some q \<Rightarrow> if q < of_nat lo \<or> q > of_nat hi then fail place (''a number from '' @ show_nat lo @ '' to '' @ show_nat hi) else Inr v
    | None \<Rightarrow> fail place (''a number from '' @ show_nat lo @ '' to '' @ show_nat hi))"

definition listOf :: "string list \<Rightarrow> string \<Rightarrow> ccheck" where
  "listOf choices what v place = (case v of
      JArr xs \<Rightarrow> if list_all (\<lambda>x. x \<in> JStr ` set choices) xs then Inr v
        else fail place (''a list of '' @ (if what \<noteq> [] then what else comma_list choices))
    | _ \<Rightarrow> fail place (''a list of '' @ (if what \<noteq> [] then what else comma_list choices)))"

definition is_str :: "jsval \<Rightarrow> bool" where
  "is_str v = (case v of JStr _ \<Rightarrow> True | _ \<Rightarrow> False)"

definition words :: ccheck where
  "words v place = (case v of
      JArr xs \<Rightarrow> if list_all is_str xs then Inr v else fail place ''a list of words''
    | _ \<Rightarrow> fail place ''a list of words'')"

text \<open>Every member of an object through the check of its key, in order; the first refusal is the answer.\<close>

fun each_member :: "(string \<Rightarrow> jsval \<Rightarrow> string + 'a) \<Rightarrow> (string \<times> jsval) list \<Rightarrow> string + (string \<times> 'a) list" where
  "each_member f [] = Inr []"
| "each_member f ((k, v) # kvs) = bindE (f k v) (\<lambda>x. bindE (each_member f kvs) (\<lambda>xs. Inr ((k, x) # xs)))"

definition table_check :: "string list \<Rightarrow> (string \<Rightarrow> ccheck) \<Rightarrow> ccheck" where
  "table_check ks check v place = (case v of
      JObj kvs \<Rightarrow> bindE (onlyKeys kvs place ks) (\<lambda>_.
        bindE (each_member (\<lambda>k x. check k x (place @ ''.'' @ k)) kvs) (\<lambda>out. Inr (JObj out)))
    | _ \<Rightarrow> fail place ''an object'')"

text \<open>The checks of a table whose keys have checks of their own.\<close>

definition by_key :: "(string \<times> ccheck) list \<Rightarrow> string \<Rightarrow> ccheck" where
  "by_key cs k = (case map_of cs k of Some c \<Rightarrow> c | None \<Rightarrow> (\<lambda>v place. Inr v))"

definition units_checks :: "(string \<times> ccheck) list" where
  "units_checks = [(''temp'', one_of [''c'', ''f'']), (''size'', one_of [''binary'', ''decimal'']),
     (''rate'', one_of [''bytes'', ''bits'']), (''clock'', one_of [''auto'', ''24h'', ''12h''])]"

definition fleet_checks :: "(string \<times> ccheck) list" where
  "fleet_checks = [(''sort'', one_of [''name'', ''status'', ''cpu'', ''mem'', ''temp'', ''disk'']), (''group'', true_false),
     (''card'', listOf [''cpu'', ''mem'', ''temp'', ''disk'', ''containers''] []), (''pinned'', words), (''hidden'', words)]"

definition title_check :: ccheck where
  "title_check v place = (case v of JStr s \<Rightarrow> if is_name64 s then Inr v else fail place ''1-64 characters'' | _ \<Rightarrow> fail place ''1-64 characters'')"

definition style_check :: ccheck where
  "style_check v place = (case v of
      JStr s \<Rightarrow> if in_class (\<lambda>c. is_lower c \<or> is_digit c \<or> c = CHR ''-'') 1 32 s then Inr v else fail place ''a style name''
    | _ \<Rightarrow> fail place ''a style name'')"

definition SETTINGS :: "(string \<times> ccheck) list" where
  "SETTINGS = [
    (''title'', title_check),
    (''refreshSec'', in_between 5 900),
    (''kioskSec'', in_between 5 600),
    (''kiosk'', true_false),
    (''style'', style_check),
    (''mode'', one_of [''system'', ''light'', ''dark'']),
    (''density'', one_of [''compact'', ''comfortable'', ''large'']),
    (''units'', table_check [''temp'', ''size'', ''rate'', ''clock''] (by_key units_checks)),
    (''fleet'', table_check [''sort'', ''group'', ''card'', ''pinned'', ''hidden''] (by_key fleet_checks)),
    (''panels'', table_check PANELS (\<lambda>_. true_false)),
    (''panelSize'', table_check PANELS (\<lambda>_. one_of [''normal'', ''wide'', ''full''])),
    (''panelOrder'', listOf PANELS ''panel names'')]"

definition NESTED :: "string list" where
  "NESTED = [''units'', ''fleet'', ''panels'', ''panelSize'']"

text \<open>A value inside a template string.\<close>

fun js_show :: "(jnum \<Rightarrow> string) \<Rightarrow> jsval \<Rightarrow> string" where
  "js_show f (JStr s) = s"
| "js_show f (JNum n) = f n"
| "js_show f (JBool b) = (if b then ''true'' else ''false'')"
| "js_show f JNull = ''null''"
| "js_show f JUndef = ''undefined''"
| "js_show f (JObj _) = ''[object Object]''"
| "js_show f (JArr xs) = concat (case map (\<lambda>x. if x = JNull \<or> x = JUndef then [] else js_show f x) xs of [] \<Rightarrow> [] | y # ys \<Rightarrow> y # concat (map (\<lambda>z. ['','', z]) ys))"

fun check_conf_tags :: "(jnum \<Rightarrow> string) \<Rightarrow> string \<Rightarrow> jsval list \<Rightarrow> string + unit" where
  "check_conf_tags f place [] = Inr ()"
| "check_conf_tags f place (t # ts) =
     (if is_str t \<and> is_tag (str_of t) then check_conf_tags f place ts
      else fail (place @ ''.tags'') (''tag '' @ [CHR 0x22] @ js_show f t @ [CHR 0x22] @ '': lowercase letters, digits, dot, dash, underscore''))"

text \<open>\<^verbatim>\<open>[...new Set(xs)]\<close>: the first of equal entries stays.\<close>

definition first_of :: "'a list \<Rightarrow> 'a list" where
  "first_of xs = rev (remdups (rev xs))"

definition conf_tags :: "(jnum \<Rightarrow> string) \<Rightarrow> string \<Rightarrow> jsval \<Rightarrow> string + (string \<times> jsval) list" where
  "conf_tags f place v = (case v of
      JUndef \<Rightarrow> Inr []
    | JArr ts \<Rightarrow> bindE (check_conf_tags f place ts) (\<lambda>_. Inr [(''tags'', JArr (first_of ts))])
    | _ \<Rightarrow> fail (place @ ''.tags'') ''a list'')"

definition conf_name :: "string \<Rightarrow> jsval \<Rightarrow> string + (string \<times> jsval) list" where
  "conf_name place v = (case v of
      JUndef \<Rightarrow> Inr []
    | JStr s \<Rightarrow> if is_name64 (js_trim s) then Inr [(''name'', JStr (js_trim s))] else fail (place @ ''.name'') ''1-64 characters''
    | _ \<Rightarrow> fail (place @ ''.name'') ''1-64 characters'')"

definition checkNode :: "(jnum \<Rightarrow> string) \<Rightarrow> string \<Rightarrow> jsval \<Rightarrow> string + (string \<times> jsval) list" where
  "checkNode f key v = (let place = ''nodes.'' @ key in
    if \<not> is_node_id key \<and> \<not> is_name64 key then fail ''nodes'' ''a node id or name for each entry''
    else case v of
      JObj kvs \<Rightarrow> bindE (onlyKeys kvs place [''tags'', ''name'']) (\<lambda>_.
        bindE (conf_tags f place (fld ''tags'' v)) (\<lambda>ts. bindE (conf_name place (fld ''name'' v)) (\<lambda>n. Inr (ts @ n))))
    | _ \<Rightarrow> fail place ''an object'')"

definition setting_check :: "string \<Rightarrow> jsval \<Rightarrow> string + jsval" where
  "setting_check k v = by_key SETTINGS k v (''settings.'' @ k)"

definition parse_settings :: "jsval \<Rightarrow> string + (string \<times> jsval) list" where
  "parse_settings v = (case v of
      JUndef \<Rightarrow> Inr []
    | JObj kvs \<Rightarrow> bindE (onlyKeys kvs ''settings'' (map fst SETTINGS)) (\<lambda>_. each_member setting_check kvs)
    | _ \<Rightarrow> fail ''settings'' ''an object'')"

definition parse_nodes :: "(jnum \<Rightarrow> string) \<Rightarrow> jsval \<Rightarrow> string + (string \<times> (string \<times> jsval) list) list" where
  "parse_nodes f v = (case v of
      JUndef \<Rightarrow> Inr []
    | JObj kvs \<Rightarrow> each_member (checkNode f) kvs
    | _ \<Rightarrow> fail ''nodes'' ''an object'')"

text \<open>\<open>parseFile\<close> gets what \<^verbatim>\<open>JSON.parse\<close> answered: its message, or the value.\<close>

definition parseFile :: "(jnum \<Rightarrow> string) \<Rightarrow> string + jsval \<Rightarrow> string + (string \<times> jsval) list \<times> (string \<times> (string \<times> jsval) list) list" where
  "parseFile f text = (case text of
      Inl m \<Rightarrow> Inl (''not valid JSON: '' @ m)
    | Inr (JObj kvs) \<Rightarrow> bindE (onlyKeys kvs ''file'' [''settings'', ''nodes'']) (\<lambda>_.
        bindE (parse_settings (fld ''settings'' (JObj kvs))) (\<lambda>s. bindE (parse_nodes f (fld ''nodes'' (JObj kvs))) (\<lambda>n. Inr (s, n))))
    | Inr _ \<Rightarrow> Inl (''an object with '' @ [CHR 0x22] @ ''settings'' @ [CHR 0x22] @ '' and/or '' @ [CHR 0x22] @ ''nodes'' @ [CHR 0x22]))"

section \<open>The directory\<close>

text \<open>An entry: not a file, an error of \<^verbatim>\<open>stat\<close>, or a file: modification time, size, and the read (an error code, or what it parses to).\<close>

datatype centry = NotFile | StatErr string | CFile int int "string + (string + jsval)"

datatype cdir = NoDir | DirErr string | CDir "(string \<times> centry) list"

definition ends_with :: "string \<Rightarrow> string \<Rightarrow> bool" where
  "ends_with q s \<longleftrightarrow> drop (length s - length q) s = q"

definition json_name :: "string \<Rightarrow> bool" where
  "json_name n \<longleftrightarrow> ends_with ''.json'' n \<and> \<not> starts_with ''.'' n"

definition jsonFiles :: "cdir \<Rightarrow> (string \<times> centry) list" where
  "jsonFiles d = (case d of
      NoDir \<Rightarrow> []
    | DirErr e \<Rightarrow> [(''(directory)'', StatErr e)]
    | CDir es \<Rightarrow> filter (\<lambda>e. snd e \<noteq> NotFile) (sort_key fst (filter (\<lambda>e. json_name (fst e)) es)))"

record conf =
  cf_settings :: "(string \<times> jsval) list"
  cf_nodes :: "(string \<times> (string \<times> jsval) list) list"
  cf_managed :: "string list"
  cf_files :: "(string \<times> string option) list"

text \<open>\<^verbatim>\<open>{ ...a, ...b }\<close>.\<close>

definition spread :: "(string \<times> 'a) list \<Rightarrow> (string \<times> 'a) list \<Rightarrow> (string \<times> 'a) list" where
  "spread a b = foldl (\<lambda>m (k, v). AList.update k v m) a b"

definition members_of :: "jsval \<Rightarrow> (string \<times> jsval) list" where
  "members_of v = (case v of JObj kvs \<Rightarrow> kvs | _ \<Rightarrow> [])"

definition merge_setting :: "(string \<times> jsval) list \<Rightarrow> string \<times> jsval \<Rightarrow> (string \<times> jsval) list" where
  "merge_setting s kv = (case kv of (k, v) \<Rightarrow>
     AList.update k (if k \<in> set NESTED then JObj (spread (members_of (fld k (JObj s))) (members_of v)) else v) s)"

definition merge_node :: "(string \<times> (string \<times> jsval) list) list \<Rightarrow> string \<times> (string \<times> jsval) list \<Rightarrow> (string \<times> (string \<times> jsval) list) list" where
  "merge_node s kv = (case kv of (k, v) \<Rightarrow> AList.update k (spread (case map_of s k of None \<Rightarrow> [] | Some old \<Rightarrow> old) v) s)"

definition read_entry :: "(jnum \<Rightarrow> string) \<Rightarrow> centry \<Rightarrow> string + (string \<times> jsval) list \<times> (string \<times> (string \<times> jsval) list) list" where
  "read_entry f e = (case e of
      NotFile \<Rightarrow> Inl []
    | StatErr m \<Rightarrow> Inl (''could not read: '' @ m)
    | CFile _ n r \<Rightarrow> if n > MAX_BYTES then Inl ''larger than 256 KB''
        else (case r of Inl m \<Rightarrow> Inl (''could not read: '' @ m) | Inr text \<Rightarrow> parseFile f text))"

definition read_one :: "(jnum \<Rightarrow> string) \<Rightarrow> conf \<Rightarrow> string \<times> centry \<Rightarrow> conf" where
  "read_one f c e = (case read_entry f (snd e) of
      Inl m \<Rightarrow> c\<lparr>cf_files := cf_files c @ [(fst e, Some m)]\<rparr>
    | Inr (s, n) \<Rightarrow> c\<lparr>cf_settings := foldl merge_setting (cf_settings c) s, cf_nodes := foldl merge_node (cf_nodes c) n,
        cf_files := cf_files c @ [(fst e, None)]\<rparr>)"

definition managed_of :: "(string \<times> jsval) list \<Rightarrow> string list" where
  "managed_of s = sort (concat (map (\<lambda>(k, v). if k \<in> set NESTED then map (\<lambda>m. k @ ''.'' @ fst m) (members_of v) else [k]) s))"

definition no_conf :: conf where
  "no_conf = \<lparr>cf_settings = [], cf_nodes = [], cf_managed = [], cf_files = []\<rparr>"

definition readConfd :: "(jnum \<Rightarrow> string) \<Rightarrow> cdir \<Rightarrow> conf" where
  "readConfd f d = (let c = foldl (read_one f) no_conf (jsonFiles d) in c\<lparr>cf_managed := managed_of (cf_settings c)\<rparr>)"

section \<open>The copy the hub keeps\<close>

text \<open>What the signature of a file tells: its name and error, or name, time and size (the code joins them into one string).\<close>

definition sign_entry :: "string \<times> centry \<Rightarrow> string \<times> (string + int \<times> int)" where
  "sign_entry e = (fst e, case snd e of NotFile \<Rightarrow> Inl [] | StatErr m \<Rightarrow> Inl m | CFile t n _ \<Rightarrow> Inr (t, n))"

record confd =
  cd_current :: "conf option"
  cd_checked :: "ms option"
  cd_sig :: "(string \<times> (string + int \<times> int)) list"
  cd_logged :: "(string \<times> string) list"
  cd_warned :: "(string \<times> string) list"

definition new_confd :: confd where
  "new_confd = \<lparr>cd_current = None, cd_checked = None, cd_sig = [], cd_logged = [], cd_warned = []\<rparr>"

definition warn_bad :: "confd \<Rightarrow> string \<times> string option \<Rightarrow> confd" where
  "warn_bad s e = (case e of
      (n, Some m) \<Rightarrow> if (n, m) \<in> set (cd_logged s) then s else s\<lparr>cd_logged := (n, m) # cd_logged s, cd_warned := cd_warned s @ [(n, m)]\<rparr>
    | (n, None) \<Rightarrow> s)"

definition confd_get :: "(jnum \<Rightarrow> string) \<Rightarrow> cdir \<Rightarrow> ms \<Rightarrow> confd \<Rightarrow> conf \<times> confd" where
  "confd_get f d t s = (case (cd_current s, cd_checked s) of
      (Some c, Some l) \<Rightarrow>
        if t - l < CHECK_EVERY_MS then (c, s)
        else if map sign_entry (jsonFiles d) = cd_sig s then (c, s\<lparr>cd_checked := Some t\<rparr>)
        else (let c' = readConfd f d in (c', foldl warn_bad (s\<lparr>cd_checked := Some t, cd_sig := map sign_entry (jsonFiles d), cd_current := Some c'\<rparr>) (cf_files c')))
    | _ \<Rightarrow> (let c' = readConfd f d in (c', foldl warn_bad (s\<lparr>cd_checked := Some t, cd_sig := map sign_entry (jsonFiles d), cd_current := Some c'\<rparr>) (cf_files c'))))"

section \<open>What the files set\<close>

text \<open>
  A path is a key, or a key of a nested table and a key in it. \<open>path_map\<close> reads settings as the
  map from paths to values.
\<close>

definition path_map :: "(string \<times> jsval) list \<Rightarrow> string \<times> string option \<Rightarrow> jsval option" where
  "path_map s p = (case p of
      (k, None) \<Rightarrow> if k \<in> set NESTED then None else map_of s k
    | (k, Some n) \<Rightarrow> if k \<in> set NESTED then map_of (members_of (fld k (JObj s))) n else None)"

text \<open>Each key once, as in every JavaScript object.\<close>

definition unique_keys :: "(string \<times> jsval) list \<Rightarrow> bool" where
  "unique_keys s \<longleftrightarrow> distinct (map fst s) \<and> list_all (\<lambda>kv. distinct (map fst (members_of (snd kv)))) s"

lemma map_of_spread: "map_of (spread a b) = map_of a ++ map_of (rev b)"
  unfolding spread_def
proof (induction b arbitrary: a)
  case (Cons x b)
  obtain k v where x: "x = (k, v)" by (cases x)
  have "map_of (AList.update k v a) ++ map_of (rev b) = map_of a ++ (map_of [(k, v)] ++ map_of (rev b))"
    by (simp add: AList.update_conv')
  then show ?case using Cons.IH [of "AList.update k v a"] by (simp add: x del: map_of_update)
qed simp

lemma map_of_rev_distinct: "distinct (map fst b) \<Longrightarrow> map_of (rev b) = map_of b"
  by (subst map_of_inject_set) (simp_all add: rev_map [symmetric])

lemma members_of_simps [simp]: "members_of (JObj kvs) = kvs" "members_of JUndef = []"
  by (simp_all add: members_of_def)

lemma spread_distinct: "distinct (map fst b) \<Longrightarrow> map_of (spread a b) = map_of a ++ map_of b"
  by (simp add: map_of_spread map_of_rev_distinct)

lemma path_merge_one:
  assumes "distinct (map fst (members_of v))"
  shows "path_map (merge_setting s (k, v)) = path_map s ++ path_map [(k, v)]"
proof (rule ext)
  fix p :: "string \<times> string option"
  obtain k' n where p: "p = (k', n)" by (cases p)
  show "path_map (merge_setting s (k, v)) p = (path_map s ++ path_map [(k, v)]) p"
    using assms by (cases n; cases "k' = k"; cases "k' \<in> set NESTED") (simp_all add: p path_map_def merge_setting_def map_add_def spread_distinct split: option.splits)
qed

lemma path_cons: "k \<notin> fst ` set kvs \<Longrightarrow> path_map ((k, v) # kvs) = path_map [(k, v)] ++ path_map kvs"
proof (rule ext)
  fix p :: "string \<times> string option"
  assume "k \<notin> fst ` set kvs"
  then have n: "map_of kvs k = None" by (simp add: map_of_eq_None_iff)
  obtain k' m where p: "p = (k', m)" by (cases p)
  show "path_map ((k, v) # kvs) p = (path_map [(k, v)] ++ path_map kvs) p"
    using n by (cases m; cases "k' = k"; cases "k' \<in> set NESTED") (simp_all add: p path_map_def map_add_def split: option.splits)
qed

lemma path_merge: "unique_keys kvs \<Longrightarrow> path_map (foldl merge_setting s kvs) = path_map s ++ path_map kvs"
proof (induction kvs arbitrary: s)
  case Nil
  then show ?case by (simp add: path_map_def map_add_def members_of_def fun_eq_iff split: option.splits prod.splits)
next
  case (Cons kv kvs)
  obtain k v where kv: "kv = (k, v)" by (cases kv)
  have d: "unique_keys kvs" "k \<notin> fst ` set kvs" "distinct (map fst (members_of v))"
    using Cons.prems by (auto simp: unique_keys_def kv)
  show ?case using Cons.IH [OF d(1), of "merge_setting s kv"] by (simp add: kv path_merge_one [OF d(3)] path_cons [OF d(2)])
qed

text \<open>What one entry sets: nothing when it cannot be read or has any mistake.\<close>

definition good_entry :: "(jnum \<Rightarrow> string) \<Rightarrow> string \<times> centry \<Rightarrow> bool" where
  "good_entry f e = (case read_entry f (snd e) of Inl _ \<Rightarrow> False | Inr _ \<Rightarrow> True)"

definition entry_settings :: "(jnum \<Rightarrow> string) \<Rightarrow> string \<times> centry \<Rightarrow> (string \<times> jsval) list" where
  "entry_settings f e = (case read_entry f (snd e) of Inl _ \<Rightarrow> [] | Inr (s, _) \<Rightarrow> s)"

lemma read_one_settings: "cf_settings (read_one f c e) = foldl merge_setting (cf_settings c) (entry_settings f e)"
  by (auto simp: read_one_def entry_settings_def split: sum.split)

lemma read_one_skips:
  "\<not> good_entry f e \<Longrightarrow> cf_settings (read_one f c e) = cf_settings c \<and> cf_nodes (read_one f c e) = cf_nodes c"
  by (auto simp: read_one_def good_entry_def split: sum.splits)

lemma read_one_cong:
  "cf_settings c = cf_settings c' \<Longrightarrow> cf_nodes c = cf_nodes c' \<Longrightarrow>
    cf_settings (read_one f c e) = cf_settings (read_one f c' e) \<and> cf_nodes (read_one f c e) = cf_nodes (read_one f c' e)"
  by (auto simp: read_one_def split: sum.splits)

lemma read_all_skips:
  "cf_settings c = cf_settings c' \<Longrightarrow> cf_nodes c = cf_nodes c' \<Longrightarrow>
    cf_settings (foldl (read_one f) c es) = cf_settings (foldl (read_one f) c' (filter (good_entry f) es)) \<and>
    cf_nodes (foldl (read_one f) c es) = cf_nodes (foldl (read_one f) c' (filter (good_entry f) es))"
proof (induction es arbitrary: c c')
  case (Cons e es)
  show ?case
  proof (cases "good_entry f e")
    case True
    then show ?thesis using Cons.IH [of "read_one f c e" "read_one f c' e"] read_one_cong [OF Cons.prems, of f e] by simp
  next
    case False
    then show ?thesis using Cons.IH [of "read_one f c e" c'] read_one_skips [OF False, of c] Cons.prems by simp
  qed
qed simp

lemma jsonFiles_filter:
  "jsonFiles (CDir (filter P es)) = filter P (jsonFiles (CDir es))"
  by (simp add: jsonFiles_def filter_sort conj_ac)

section \<open>What is merged stays checked\<close>

text \<open>A check answers the value it was given, or refuses it.\<close>

definition keeps :: "ccheck \<Rightarrow> bool" where
  "keeps c \<longleftrightarrow> (\<forall>v p x. c v p = Inr x \<longrightarrow> x = v)"

lemma keepsD: "keeps c \<Longrightarrow> c v p = Inr x \<Longrightarrow> x = v"
  by (simp add: keeps_def)

lemma fail_not_Inr [simp]: "fail p m \<noteq> Inr x"
  by (simp add: fail_def)

lemma keeps_simple [intro, simp]:
  "keeps (one_of cs)" "keeps true_false" "keeps (in_between lo hi)" "keeps (listOf cs w)" "keeps words"
  "keeps title_check" "keeps style_check"
  by (auto simp: keeps_def one_of_def true_false_def in_between_def listOf_def words_def title_check_def style_check_def
      split: if_splits jsval.splits option.splits)

lemma each_member_keeps:
  "(\<And>k v x. f k v = Inr x \<Longrightarrow> x = v) \<Longrightarrow>
    each_member f kvs = Inr out \<longleftrightarrow> out = kvs \<and> list_all (\<lambda>(k, v). f k v = Inr v) kvs"
proof (induction kvs arbitrary: out)
  case (Cons kv kvs)
  obtain k v where kv: "kv = (k, v)" by (cases kv)
  show ?case using Cons.IH [OF Cons.prems] Cons.prems [of k v] by (auto simp: kv)
qed auto

lemma onlyKeys_ok: "onlyKeys kvs p ks = Inr u \<longleftrightarrow> list_all (\<lambda>(k, v). k \<in> set ks) kvs"
  by (induction kvs p ks rule: onlyKeys.induct) auto

lemma table_ok:
  assumes "\<And>k. keeps (ch k)"
  shows "table_check ks ch v p = Inr w \<longleftrightarrow> w = v \<and>
    (\<exists>kvs. v = JObj kvs \<and> list_all (\<lambda>(k, x). k \<in> set ks \<and> ch k x (p @ ''.'' @ k) = Inr x) kvs)"
proof (cases v)
  case (JObj kvs)
  have "each_member (\<lambda>k x. ch k x (p @ ''.'' @ k)) kvs = Inr out \<longleftrightarrow>
      out = kvs \<and> list_all (\<lambda>(k, x). ch k x (p @ ''.'' @ k) = Inr x) kvs" for out
    by (rule each_member_keeps) (rule keepsD [OF assms])
  then show ?thesis by (auto simp: JObj table_check_def onlyKeys_ok list_all_iff)
qed (simp_all add: table_check_def)

lemma by_key_keeps: "list_all (\<lambda>kc. keeps (snd kc)) cs \<Longrightarrow> keeps (by_key cs k)"
proof (cases "map_of cs k")
  case (Some c)
  then show "list_all (\<lambda>kc. keeps (snd kc)) cs \<Longrightarrow> ?thesis" using map_of_SomeD [OF Some] by (auto simp: by_key_def list_all_iff)
qed (simp add: by_key_def keeps_def)

lemma table_checks [simp]: "keeps (by_key units_checks k)" "keeps (by_key fleet_checks k)"
  by (simp_all add: by_key_keeps units_checks_def fleet_checks_def)

lemma keeps_table [simp]: "(\<And>k. keeps (ch k)) \<Longrightarrow> keeps (table_check ks ch)"
  using table_ok unfolding keeps_def by metis

lemma keeps_setting: "keeps (by_key SETTINGS k)"
  by (rule by_key_keeps) (simp add: SETTINGS_def)

lemma set_spread: "set (spread a b) \<subseteq> set a \<union> set b"
proof -
  have "set (foldl (\<lambda>m (k, v). AList.update k v m) a b) \<subseteq> set a \<union> set b" for a :: "(string \<times> 'a) list"
  proof (induction b arbitrary: a)
    case (Cons x b)
    obtain k v where x: "x = (k, v)" by (cases x)
    have "set (AList.update k v a) \<subseteq> insert (k, v) (set a)" by (induction a) auto
    then show ?case using Cons.IH [of "AList.update k v a"] by (auto simp: x)
  qed simp
  then show ?thesis by (simp add: spread_def)
qed

text \<open>The checks of the nested settings are tables.\<close>

lemma nested_settings:
  "by_key SETTINGS ''units'' = table_check [''temp'', ''size'', ''rate'', ''clock''] (by_key units_checks)"
  "by_key SETTINGS ''fleet'' = table_check [''sort'', ''group'', ''card'', ''pinned'', ''hidden''] (by_key fleet_checks)"
  "by_key SETTINGS ''panels'' = table_check PANELS (\<lambda>_. true_false)"
  "by_key SETTINGS ''panelSize'' = table_check PANELS (\<lambda>_. one_of [''normal'', ''wide'', ''full''])"
  unfolding by_key_def [of SETTINGS] by (simp_all add: SETTINGS_def)

lemma nested_table:
  assumes "k \<in> set NESTED"
  obtains ks ch where "by_key SETTINGS k = table_check ks ch" "\<And>k. keeps (ch k)" "list_all (\<lambda>n. CHR ''.'' \<notin> set n) ks"
proof -
  have "k = ''units'' \<or> k = ''fleet'' \<or> k = ''panels'' \<or> k = ''panelSize''" using assms by (simp add: NESTED_def)
  then show ?thesis
  proof (elim disjE)
    assume "k = ''units''"
    then show ?thesis by (intro that [of "[''temp'', ''size'', ''rate'', ''clock'']" "by_key units_checks"]) (simp_all add: nested_settings)
  next
    assume "k = ''fleet''"
    then show ?thesis by (intro that [of "[''sort'', ''group'', ''card'', ''pinned'', ''hidden'']" "by_key fleet_checks"]) (simp_all add: nested_settings)
  next
    assume "k = ''panels''"
    then show ?thesis by (intro that [of PANELS "\<lambda>_. true_false"]) (simp_all add: nested_settings PANELS_def)
  next
    assume "k = ''panelSize''"
    then show ?thesis by (intro that [of PANELS "\<lambda>_. one_of [''normal'', ''wide'', ''full'']"]) (simp_all add: nested_settings PANELS_def)
  qed
qed

definition setting_ok :: "string \<times> jsval \<Rightarrow> bool" where
  "setting_ok kv = (case kv of (k, v) \<Rightarrow> k \<in> set (map fst SETTINGS) \<and> setting_check k v = Inr v)"

lemma merged_ok:
  assumes "setting_check k (JObj a) = Inr (JObj a)" "setting_check k v = Inr v" "k \<in> set NESTED"
  shows "setting_check k (JObj (spread a (members_of v))) = Inr (JObj (spread a (members_of v)))"
proof -
  obtain ks ch where t: "by_key SETTINGS k = table_check ks ch" "\<And>k. keeps (ch k)"
    by (rule nested_table [OF assms(3)]) (rule that)
  note ok = table_ok [of ch, OF t(2)]
  show ?thesis using assms(1,2) set_spread [of a "members_of v"]
    by (force simp: setting_check_def t(1) ok members_of_def list_all_iff)
qed

lemma merged_empty:
  assumes "setting_check k v = Inr v" "k \<in> set NESTED"
  shows "setting_check k (JObj []) = Inr (JObj [])"
proof -
  obtain ks ch where t: "by_key SETTINGS k = table_check ks ch" "\<And>k. keeps (ch k)"
    by (rule nested_table [OF assms(2)]) (rule that)
  show ?thesis by (simp add: setting_check_def t(1) table_ok [of ch, OF t(2)])
qed

lemma nested_obj:
  assumes "setting_check k v = Inr v" "k \<in> set NESTED"
  shows "\<exists>kvs. v = JObj kvs"
proof -
  obtain ks ch where t: "by_key SETTINGS k = table_check ks ch" "\<And>k. keeps (ch k)"
    by (rule nested_table [OF assms(2)]) (rule that)
  show ?thesis using assms(1) by (auto simp: setting_check_def t(1) table_ok [of ch, OF t(2)])
qed

lemma update_all: "list_all P m \<Longrightarrow> P (k, v) \<Longrightarrow> list_all P (AList.update k v m)"
  by (induction m) auto

lemma merge_setting_ok:
  assumes "list_all setting_ok s" "setting_ok (k, v)"
  shows "list_all setting_ok (merge_setting s (k, v))"
proof -
  have "setting_ok (k, JObj (spread (members_of (fld k (JObj s))) (members_of v)))" if n: "k \<in> set NESTED"
  proof -
    have c: "setting_check k v = Inr v" using assms(2) by (simp add: setting_ok_def)
    have "setting_check k (JObj (members_of (fld k (JObj s)))) = Inr (JObj (members_of (fld k (JObj s))))"
    proof (cases "map_of s k")
      case None
      then show ?thesis using merged_empty [OF c n] by (simp add: members_of_def)
    next
      case (Some w)
      then have "setting_check k w = Inr w" using assms(1) map_of_SomeD [OF Some] by (auto simp: list_all_iff setting_ok_def)
      moreover obtain kvs where "w = JObj kvs" using nested_obj [OF calculation n] by auto
      ultimately show ?thesis using Some by (simp add: members_of_def)
    qed
    then show ?thesis using merged_ok [OF _ c n] assms(2) by (simp add: setting_ok_def)
  qed
  then show ?thesis using update_all [OF assms(1)] assms(2) by (simp add: merge_setting_def)
qed

lemma merge_settings_ok: "list_all setting_ok s \<Longrightarrow> list_all setting_ok kvs \<Longrightarrow> list_all setting_ok (foldl merge_setting s kvs)"
  by (induction kvs arbitrary: s) (auto intro: merge_setting_ok)

lemma parse_settings_ok: "parse_settings v = Inr s \<Longrightarrow> list_all setting_ok s"
proof (cases v)
  case (JObj kvs)
  assume p: "parse_settings v = Inr s"
  then have "list_all (\<lambda>(k, v). k \<in> set (map fst SETTINGS)) kvs" "each_member setting_check kvs = Inr s"
    by (auto simp: JObj parse_settings_def onlyKeys_ok)
  moreover have "each_member setting_check kvs = Inr s \<longleftrightarrow> s = kvs \<and> list_all (\<lambda>(k, v). setting_check k v = Inr v) kvs"
    unfolding setting_check_def by (rule each_member_keeps) (rule keepsD [OF keeps_setting])
  ultimately show ?thesis by (auto simp: list_all_iff setting_ok_def)
qed (auto simp: parse_settings_def)

lemma entry_settings_ok: "list_all setting_ok (entry_settings f e)"
proof (cases "read_entry f (snd e)")
  case (Inr sn)
  then obtain tx where "parseFile f tx = Inr sn" by (cases "snd e") (auto simp: read_entry_def split: sum.splits if_splits)
  then obtain kvs where "parseFile f (Inr (JObj kvs)) = Inr sn" unfolding parseFile_def
    by (cases tx; cases "projr tx") auto
  then have "\<exists>v. parse_settings v = Inr (fst sn)" by (auto simp: parseFile_def simp del: fld.simps)
  then show ?thesis using parse_settings_ok Inr by (auto simp: entry_settings_def split: prod.splits)
qed (simp add: entry_settings_def)

lemma read_all_ok: "list_all setting_ok (cf_settings c) \<Longrightarrow> list_all setting_ok (cf_settings (foldl (read_one f) c es))"
proof (induction es arbitrary: c)
  case (Cons e es)
  have "list_all setting_ok (cf_settings (read_one f c e))"
    unfolding read_one_settings using merge_settings_ok [OF Cons.prems entry_settings_ok] .
  then show ?case using Cons.IH by simp
qed simp

section \<open>Keys\<close>

lemma spread_keys: "distinct (map fst a) \<Longrightarrow> distinct (map fst (spread a b))"
  unfolding spread_def by (induction b arbitrary: a) auto

text \<open>The settings that result have each key once, and so have their tables.\<close>

definition keys_once :: "(string \<times> jsval) list \<Rightarrow> bool" where
  "keys_once s \<longleftrightarrow> distinct (map fst s) \<and> list_all (\<lambda>(k, v). k \<in> set NESTED \<longrightarrow> distinct (map fst (members_of v))) s"

lemma merge_keys: "keys_once s \<Longrightarrow> keys_once (merge_setting s kv)"
proof -
  assume s: "keys_once s"
  obtain k v where kv: "kv = (k, v)" by (cases kv)
  have "distinct (map fst (members_of (fld k (JObj s))))" if "k \<in> set NESTED"
  proof (cases "map_of s k")
    case (Some x)
    then show ?thesis using s that map_of_SomeD [OF Some] by (auto simp: keys_once_def list_all_iff)
  qed (simp add: members_of_def)
  then have "k \<in> set NESTED \<longrightarrow> distinct (map fst (members_of (JObj (spread (members_of (fld k (JObj s))) (members_of v)))))"
    using spread_keys by (auto simp: members_of_def [of "JObj (spread a b)" for a b])
  then show ?thesis using s update_all [of _ s k] by (auto simp: kv merge_setting_def keys_once_def)
qed

lemma merges_keys: "keys_once s \<Longrightarrow> keys_once (foldl merge_setting s kvs)"
  by (induction kvs arbitrary: s) (auto intro: merge_keys)

lemma read_all_keys: "keys_once (cf_settings c) \<Longrightarrow> keys_once (cf_settings (foldl (read_one f) c es))"
  by (induction es arbitrary: c) (simp_all add: read_one_settings merges_keys)

lemma readConfd_keys: "keys_once (cf_settings (readConfd f d))"
  using read_all_keys [of no_conf f "jsonFiles d"] by (simp add: readConfd_def Let_def no_conf_def keys_once_def)

lemma readConfd_ok: "list_all setting_ok (cf_settings (readConfd f d))"
  using read_all_ok [of no_conf f "jsonFiles d"] by (simp add: readConfd_def Let_def no_conf_def)

lemma readConfd_managed: "cf_managed (readConfd f d) = managed_of (cf_settings (readConfd f d))"
  by (simp add: readConfd_def Let_def)

lemma setting_okD: "setting_ok (k, v) \<Longrightarrow> k \<in> set (map fst SETTINGS)" "setting_ok (k, v) \<Longrightarrow> setting_check k v = Inr v"
  unfolding setting_ok_def by simp_all

lemma no_dots_keys: "list_all (\<lambda>n. CHR ''.'' \<notin> set n) (map fst SETTINGS)"
  by (simp add: SETTINGS_def)

lemma no_dots:
  assumes "setting_ok (k, v)"
  shows "CHR ''.'' \<notin> set k" "k \<in> set NESTED \<Longrightarrow> (n, x) \<in> set (members_of v) \<Longrightarrow> CHR ''.'' \<notin> set n"
proof -
  show "CHR ''.'' \<notin> set k" by (rule list_allD [OF no_dots_keys setting_okD(1) [OF assms]])
  assume n: "k \<in> set NESTED" "(n, x) \<in> set (members_of v)"
  obtain ks ch where t: "by_key SETTINGS k = table_check ks ch" "\<And>k. keeps (ch k)" "list_all (\<lambda>n. CHR ''.'' \<notin> set n) ks"
    by (rule nested_table [OF n(1)]) (rule that)
  have "table_check ks ch v (''settings.'' @ k) = Inr v" using setting_okD(2) [OF assms] by (simp only: setting_check_def t(1))
  then obtain kvs where "v = JObj kvs" "list_all (\<lambda>(k', x). k' \<in> set ks \<and> ch k' x ((''settings.'' @ k) @ ''.'' @ k') = Inr x) kvs"
    unfolding table_ok [of ch, OF t(2)] by blast
  then have "n \<in> set ks" using n(2) unfolding members_of_def list_all_iff by auto
  then show "CHR ''.'' \<notin> set n" by (rule list_allD [OF t(3)])
qed

section \<open>Properties\<close>

text \<open>
  A file with any mistake is skipped whole: the settings, the nodes and the list of managed
  values are those of the directory without the files that cannot be read, are too large or fail any
  check.
\<close>

theorem bad_file_skipped:
  "let all = readConfd f (CDir es); good = readConfd f (CDir (filter (good_entry f) es)) in
     cf_settings all = cf_settings good \<and> cf_nodes all = cf_nodes good \<and> cf_managed all = cf_managed good"
  using read_all_skips [of no_conf no_conf f "jsonFiles (CDir es)"]
  by (simp add: readConfd_def Let_def jsonFiles_filter)

lemma read_paths:
  assumes "list_all (\<lambda>e. unique_keys (entry_settings f e)) es"
  shows "path_map (cf_settings (foldl (read_one f) c es)) = foldl (\<lambda>m e. m ++ path_map (entry_settings f e)) (path_map (cf_settings c)) es"
  using assms by (induction es arbitrary: c) (simp_all add: read_one_settings path_merge)

text \<open>
  C12. What the files set is always valid: whatever the directory holds, every setting that results has
  a known key and passes the check of its key, also a table merged from several files.
\<close>

theorem settings_valid: "list_all setting_ok (cf_settings (readConfd f d))"
  by (rule readConfd_ok)

text \<open>
  Later files win, value by value: the settings of the directory, read as a map from paths (a key,
  or a table's key and a key in it) to values, are the files' maps laid over one another in name order.
\<close>

theorem later_files_win:
  assumes "list_all (\<lambda>e. unique_keys (entry_settings f e)) (jsonFiles d)"
  shows "path_map (cf_settings (readConfd f d)) = foldl (\<lambda>m e. m ++ path_map (entry_settings f e)) Map.empty (jsonFiles d)"
proof -
  have "path_map (cf_settings no_conf) = Map.empty"
    by (auto simp: path_map_def no_conf_def members_of_def fun_eq_iff split: option.splits)
  then show ?thesis using read_paths [OF assms, of no_conf] by (simp add: readConfd_def Let_def)
qed

definition demo_dir :: cdir where
  "demo_dir = CDir [
    (''20-local.json'', CFile 2 60 (Inr (Inr (JObj [(''settings'', JObj [(''units'', JObj [(''temp'', JStr ''f'')]), (''kiosk'', JBool True)])])))),
    (''10-base.json'', CFile 1 80 (Inr (Inr (JObj [(''settings'', JObj [(''units'', JObj [(''temp'', JStr ''c''), (''clock'', JStr ''24h'')])])])))),
    (''30-bad.json'', CFile 3 50 (Inr (Inr (JObj [(''settings'', JObj [(''kiosk'', JBool False), (''mode'', JStr ''pink'')])])))),
    (''notes.txt'', CFile 4 9 (Inr (Inl ''Unexpected token'')))]"

theorem later_files_win_witness:
  "path_map (cf_settings (readConfd (\<lambda>_. []) demo_dir)) (''units'', Some ''temp'') = Some (JStr ''f'') \<and>
   path_map (cf_settings (readConfd (\<lambda>_. []) demo_dir)) (''kiosk'', None) = Some (JBool True)"
proof -
  have d: "list_all (\<lambda>e. unique_keys (entry_settings (\<lambda>_. []) e)) (jsonFiles demo_dir)" by code_simp
  have "foldl (\<lambda>m e. m ++ path_map (entry_settings (\<lambda>_. []) e)) Map.empty (jsonFiles demo_dir) (''units'', Some ''temp'') = Some (JStr ''f'')"
    "foldl (\<lambda>m e. m ++ path_map (entry_settings (\<lambda>_. []) e)) Map.empty (jsonFiles demo_dir) (''kiosk'', None) = Some (JBool True)"
    by code_simp+
  then show ?thesis using later_files_win [OF d] by simp
qed

end
