(* ===== verification/Web_Push.thy ===== *)
theory Web_Push
  imports Js_Prelude
begin

text \<open>
  The browsers that subscribed to Web Push: the store and the checks of \<^verbatim>\<open>src/hub/lib/webpush.js\<close>, and
  \<^verbatim>\<open>sendAll\<close> of \<^verbatim>\<open>src/hub/server.js\<close>, which sends to all of them and drops the ones that are gone. The
  URL parser, base64, the curve and SHA-256 are the record \<open>pcrypto\<close>; what the push services answer is
  an argument. The encryption itself (\<^verbatim>\<open>vapidHeader\<close>, \<^verbatim>\<open>encrypt\<close>) is not modelled.
\<close>

section \<open>Subscriptions\<close>

record purl =
  pu_protocol :: string
  pu_href :: string
  pu_host :: string

record pcrypto =
  pc_url :: "string \<Rightarrow> purl option"
  pc_unb64u :: "string \<Rightarrow> string"
  pc_on_curve :: "string \<Rightarrow> bool"
  pc_hash12 :: "string \<Rightarrow> string"

record psub =
  ps_endpoint :: string
  ps_p256dh :: string
  ps_auth :: string
  ps_label :: string
  ps_created :: ms
  ps_origin :: string

text \<open>\<open>ps_origin = []\<close> stands for a member that is not there; \<open>pt_file\<close> is what was last written.\<close>

record pstore =
  pt_subs :: "psub list"
  pt_file :: "psub list"

definition MAX_DEVICES :: nat where "MAX_DEVICES = 50"

text \<open>\<^verbatim>\<open>/^[A-Za-z0-9_-]+={0,2}$/\<close>\<close>

definition is_b64u :: "jsval \<Rightarrow> bool" where
  "is_b64u v = (case v of
      JStr s \<Rightarrow> let b = rev (dropWhile (\<lambda>c. c = CHR ''='') (rev s)) in
        length s - length b \<le> 2 \<and> b \<noteq> [] \<and> list_all (\<lambda>c. is_lower c \<or> is_upper c \<or> is_digit c \<or> c \<in> set ''_-'') b
    | _ \<Rightarrow> False)"

definition checkSubscription :: "pcrypto \<Rightarrow> jsval \<Rightarrow> string + string \<times> string \<times> string" where
  "checkSubscription C s = (case fld ''endpoint'' s of
      JStr e \<Rightarrow>
        if length e > 2048 then Inl ''subscription: an endpoint''
        else (case pc_url C e of
            None \<Rightarrow> Inl ''subscription: an endpoint''
          | Some u \<Rightarrow>
              if pu_protocol u \<noteq> ''https:'' then Inl ''subscription: an https endpoint''
              else let p = fld ''p256dh'' (fld ''keys'' s); a = fld ''auth'' (fld ''keys'' s) in
                if \<not> is_b64u p \<or> length (pc_unb64u C (str_of p)) \<noteq> 65 \<or> \<not> is_b64u a \<or> length (pc_unb64u C (str_of a)) \<noteq> 16
                then Inl ''subscription: its keys''
                else if \<not> pc_on_curve C (pc_unb64u C (str_of p)) then Inl ''subscription: its keys''
                else Inr (pu_href u, str_of p, str_of a))
    | _ \<Rightarrow> Inl ''subscription: an endpoint'')"

text \<open>\<^verbatim>\<open>/^https:\/\/[^\s/]+\/?$/\<close>, without the last slash.\<close>

definition https_origin :: "string option \<Rightarrow> string" where
  "https_origin o' = (case o' of
      None \<Rightarrow> []
    | Some s \<Rightarrow> let r = drop 8 s; b = (if r \<noteq> [] \<and> last r = CHR ''/'' then butlast r else r) in
        if starts_with ''https://'' s \<and> b \<noteq> [] \<and> list_all (\<lambda>c. \<not> is_space c \<and> c \<noteq> CHR ''/'') b then ''https://'' @ b else [])"

definition push_label :: "jsval \<Rightarrow> string" where
  "push_label v = (case v of JStr s \<Rightarrow> take 60 (filter (\<lambda>c. \<not> is_control c) s) | _ \<Rightarrow> [])"

definition push_origin :: "pstore \<Rightarrow> string" where
  "push_origin s = (let l = filter (\<lambda>x. x \<noteq> []) (map ps_origin (pt_subs s)) in if l = [] then [] else last l)"

definition push_add :: "pcrypto \<Rightarrow> jsval \<Rightarrow> jsval \<Rightarrow> string option \<Rightarrow> ms \<Rightarrow> pstore \<Rightarrow> (string + string) \<times> pstore" where
  "push_add C sub label o' t s = (case checkSubscription C sub of
      Inl m \<Rightarrow> (Inl m, s)
    | Inr (e, p, a) \<Rightarrow>
        let rest = filter (\<lambda>x. ps_endpoint x \<noteq> e) (pt_subs s) in
        if length rest \<ge> MAX_DEVICES then (Inl ''at most 50 devices'', s\<lparr>pt_subs := rest\<rparr>)
        else let subs = rest @ [\<lparr>ps_endpoint = e, ps_p256dh = p, ps_auth = a, ps_label = push_label label, ps_created = t, ps_origin = https_origin o'\<rparr>] in
          (Inr (pc_hash12 C e), s\<lparr>pt_subs := subs, pt_file := subs\<rparr>))"

text \<open>By the endpoint, or by the id the page has.\<close>

definition push_remove :: "pcrypto \<Rightarrow> string \<Rightarrow> pstore \<Rightarrow> bool \<times> pstore" where
  "push_remove C e s =
    (let rest = filter (\<lambda>x. ps_endpoint x \<noteq> e \<and> pc_hash12 C (ps_endpoint x) \<noteq> e) (pt_subs s) in
     if length rest \<noteq> length (pt_subs s) then (True, s\<lparr>pt_subs := rest, pt_file := rest\<rparr>) else (False, s\<lparr>pt_subs := rest\<rparr>))"

text \<open>What the page is told of a device: its id, label, time and push service.\<close>

definition push_devices :: "pcrypto \<Rightarrow> pstore \<Rightarrow> (string \<times> string \<times> ms \<times> string) list" where
  "push_devices C s = map (\<lambda>x. (pc_hash12 C (ps_endpoint x), ps_label x, ps_created x,
     case pc_url C (ps_endpoint x) of None \<Rightarrow> [] | Some u \<Rightarrow> pu_host u)) (pt_subs s)"

text \<open>\<^verbatim>\<open>/^(mailto:\S+@\S+|https:\/\/\S+)$/\<close>\<close>

definition is_subject :: "string \<Rightarrow> bool" where
  "is_subject c \<longleftrightarrow> list_all (\<lambda>x. \<not> is_space x) c \<and>
    (if starts_with ''mailto:'' c then CHR ''@'' \<in> set (butlast (drop 8 c)) else starts_with ''https://'' c \<and> length c > 8)"

definition vapidSubject :: "string list \<Rightarrow> string" where
  "vapidSubject cs = (case find is_subject cs of
      Some s \<Rightarrow> rev (dropWhile (\<lambda>c. c = CHR ''/'') (rev s))
    | None \<Rightarrow> ''mailto:servitals@localhost'')"

section \<open>One message to every device\<close>

text \<open>The answers, one for each device in the list's order: an error, or the status.\<close>

definition GONE :: "nat list" where "GONE = [404, 410, 401, 403]"

definition note_answer :: "pcrypto \<Rightarrow> nat \<times> string option \<times> pstore \<Rightarrow> psub \<times> (string + nat) \<Rightarrow> nat \<times> string option \<times> pstore" where
  "note_answer C x r = (case x of (ok, lst, s) \<Rightarrow> (case r of
      (_, Inl e) \<Rightarrow> (ok, Some e, s)
    | (d, Inr st) \<Rightarrow>
        if st \<in> set GONE then (ok, lst, snd (push_remove C (ps_endpoint d) s))
        else if 200 \<le> st \<and> st < 300 then (ok + 1, lst, s)
        else (ok, Some (''HTTP_'' @ show_nat st), s)))"

text \<open>\<open>None\<close>: some device took it; otherwise the code of the error it throws.\<close>

definition sendAll :: "pcrypto \<Rightarrow> bool \<Rightarrow> (psub \<Rightarrow> string + nat) \<Rightarrow> pstore \<Rightarrow> string option \<times> pstore" where
  "sendAll C vapid answer s =
    (if \<not> vapid then (Some ''EPUSH_OFF'', s)
     else if pt_subs s = [] then (Some ''EPUSH_NONE'', s)
     else case foldl (note_answer C) (0, None, s) (map (\<lambda>d. (d, answer d)) (pt_subs s)) of
       (ok, lst, s1) \<Rightarrow> (if ok > 0 then None else Some (case lst of Some e \<Rightarrow> e | None \<Rightarrow> ''EPUSH_NONE''), s1))"

section \<open>What a store keeps\<close>

definition store_fine :: "pstore \<Rightarrow> bool" where
  "store_fine s \<longleftrightarrow> length (pt_subs s) \<le> MAX_DEVICES \<and> distinct (map ps_endpoint (pt_subs s))"

datatype push_op = PAdd jsval jsval "string option" ms | PRemove string | PSend bool "psub \<Rightarrow> string + nat"

fun push_step :: "pcrypto \<Rightarrow> pstore \<Rightarrow> push_op \<Rightarrow> pstore" where
  "push_step C s (PAdd sub label o' t) = snd (push_add C sub label o' t s)"
| "push_step C s (PRemove e) = snd (push_remove C e s)"
| "push_step C s (PSend v answer) = snd (sendAll C v answer s)"

lemma length_filter_sub: "length xs \<le> n \<Longrightarrow> length (filter P xs) \<le> n"
  by (rule le_trans [OF length_filter_le])

lemma push_remove_subs: "pt_subs (snd (push_remove C e s)) = filter (\<lambda>x. ps_endpoint x \<noteq> e \<and> pc_hash12 C (ps_endpoint x) \<noteq> e) (pt_subs s)"
  by (simp add: push_remove_def Let_def)

lemma push_remove_fine: "store_fine s \<Longrightarrow> store_fine (snd (push_remove C e s))"
  unfolding store_fine_def push_remove_subs by (simp add: length_filter_sub distinct_map_filter)

lemma push_add_fine:
  assumes "store_fine s"
  shows "store_fine (snd (push_add C sub label o' t s))"
proof (cases "checkSubscription C sub")
  case (Inr r)
  obtain e p a where r: "r = (e, p, a)" by (cases r)
  let ?rest = "filter (\<lambda>x. ps_endpoint x \<noteq> e) (pt_subs s)"
  have rest: "length ?rest \<le> MAX_DEVICES" "distinct (map ps_endpoint ?rest)" "e \<notin> ps_endpoint ` set ?rest"
    using assms by (auto simp: store_fine_def length_filter_sub distinct_map_filter)
  then show ?thesis by (auto simp: push_add_def Inr r Let_def store_fine_def)
qed (simp add: push_add_def assms)

lemma note_answer_fine: "store_fine (snd (snd x)) \<Longrightarrow> store_fine (snd (snd (note_answer C x r)))"
  by (auto simp: note_answer_def push_remove_fine split: prod.split sum.split)

lemma notes_fine: "store_fine (snd (snd x)) \<Longrightarrow> store_fine (snd (snd (foldl (note_answer C) x rs)))"
proof (induction rs arbitrary: x)
  case (Cons r rs)
  then show ?case using Cons.IH [OF note_answer_fine [OF Cons.prems]] by simp
qed simp

lemma sendAll_fine: "store_fine s \<Longrightarrow> store_fine (snd (sendAll C v answer s))"
  using notes_fine [of "(0, None, s)" C "map (\<lambda>d. (d, answer d)) (pt_subs s)"]
  by (auto simp: sendAll_def split: prod.split)

interpretation devices: machine "push_step C" store_fine for C
proof
  show "store_fine s \<Longrightarrow> store_fine (push_step C s a)" for s a
    by (cases a) (simp_all add: push_add_fine push_remove_fine sendAll_fine)
qed

text \<open>Devices are told apart by their endpoints; an id of one is the endpoint of none.\<close>

lemma notes_subs:
  "pt_subs (snd (snd (foldl (note_answer C) x rs))) =
    filter (\<lambda>d. \<not> list_ex (\<lambda>r. (case snd r of Inl _ \<Rightarrow> False | Inr st \<Rightarrow> st \<in> set GONE) \<and>
      (ps_endpoint d = ps_endpoint (fst r) \<or> pc_hash12 C (ps_endpoint d) = ps_endpoint (fst r))) rs) (pt_subs (snd (snd x)))"
proof (induction rs arbitrary: x)
  case (Cons r rs)
  have "pt_subs (snd (snd (note_answer C x r))) =
      filter (\<lambda>d. \<not> ((case snd r of Inl _ \<Rightarrow> False | Inr st \<Rightarrow> st \<in> set GONE) \<and>
        (ps_endpoint d = ps_endpoint (fst r) \<or> pc_hash12 C (ps_endpoint d) = ps_endpoint (fst r)))) (pt_subs (snd (snd x)))"
    by (cases x; cases r) (auto simp: note_answer_def push_remove_subs split: sum.split intro!: filter_cong)
  then show ?case using Cons.IH [of "note_answer C x r"] by (auto simp: conj_ac intro!: filter_cong)
qed simp

lemma notes_ok:
  "fst (foldl (note_answer C) x rs) = fst x + length (filter (\<lambda>r. case snd r of Inl _ \<Rightarrow> False | Inr st \<Rightarrow> 200 \<le> st \<and> st < 300) rs)"
proof (induction rs arbitrary: x)
  case (Cons r rs)
  have "fst (note_answer C x r) = fst x + (case snd r of Inl _ \<Rightarrow> 0 | Inr st \<Rightarrow> if 200 \<le> st \<and> st < 300 then 1 else 0)"
    by (cases x; cases r) (auto simp: note_answer_def GONE_def split: sum.split)
  then show ?case using Cons.IH [of "note_answer C x r"] by (auto split: sum.splits)
qed simp

section \<open>Properties\<close>

text \<open>
  A push to all devices drops exactly the gone ones: after \<^verbatim>\<open>sendAll\<close> the store holds, in order,
  every device but those whose service answered 404, 410, 401 or 403, whatever the others answered, and
  it reports an error exactly when no device took the message. (The endpoints differ and no id is an
  endpoint.)
\<close>

theorem push_drops_gone_only:
  assumes "store_fine s" "pt_subs s \<noteq> []"
    and "list_all (\<lambda>d. list_all (\<lambda>d'. pc_hash12 C (ps_endpoint d) \<noteq> ps_endpoint d') (pt_subs s)) (pt_subs s)"
  shows "pt_subs (snd (sendAll C True answer s)) = filter (\<lambda>d. \<not> (\<exists>st \<in> set GONE. answer d = Inr st)) (pt_subs s) \<and>
    (fst (sendAll C True answer s) = None \<longleftrightarrow> list_ex (\<lambda>d. case answer d of Inl _ \<Rightarrow> False | Inr st \<Rightarrow> 200 \<le> st \<and> st < 300) (pt_subs s))"
proof -
  let ?rs = "map (\<lambda>d. (d, answer d)) (pt_subs s)" and ?x = "(0, None, s) :: nat \<times> string option \<times> pstore"
  have same: "d = d'" if "d \<in> set (pt_subs s)" "d' \<in> set (pt_subs s)" "ps_endpoint d = ps_endpoint d'" for d d'
    using that assms(1) by (auto simp: store_fine_def distinct_map dest: inj_onD)
  have "list_ex (\<lambda>r. (case snd r of Inl _ \<Rightarrow> False | Inr st \<Rightarrow> st \<in> set GONE) \<and>
      (ps_endpoint d = ps_endpoint (fst r) \<or> pc_hash12 C (ps_endpoint d) = ps_endpoint (fst r))) ?rs \<longleftrightarrow>
      (\<exists>st \<in> set GONE. answer d = Inr st)" if d: "d \<in> set (pt_subs s)" for d
  proof -
    have e: "(ps_endpoint d = ps_endpoint d' \<or> pc_hash12 C (ps_endpoint d) = ps_endpoint d') = (d = d')" if "d' \<in> set (pt_subs s)" for d'
      using assms(3) d that same by (auto simp: list_all_iff)
    show ?thesis using d e by (force simp: list_ex_iff split: sum.splits)
  qed
  then have "pt_subs (snd (snd (foldl (note_answer C) ?x ?rs))) = filter (\<lambda>d. \<not> (\<exists>st \<in> set GONE. answer d = Inr st)) (pt_subs s)"
    by (simp add: notes_subs cong: filter_cong)
  moreover have "fst (foldl (note_answer C) ?x ?rs) > 0 \<longleftrightarrow>
      list_ex (\<lambda>d. case answer d of Inl _ \<Rightarrow> False | Inr st \<Rightarrow> 200 \<le> st \<and> st < 300) (pt_subs s)"
    by (auto simp: notes_ok filter_empty_conv list_ex_iff)
  moreover obtain ok lst s1 where "foldl (note_answer C) ?x ?rs = (ok, lst, s1)" by (metis prod_cases3)
  ultimately show ?thesis using assms(2) by (simp add: sendAll_def)
qed

definition demo_sub :: "string \<Rightarrow> psub" where
  "demo_sub e = \<lparr>ps_endpoint = e, ps_p256dh = [], ps_auth = [], ps_label = ''phone'', ps_created = 1, ps_origin = []\<rparr>"

definition demo_pcrypto :: pcrypto where
  "demo_pcrypto = \<lparr>pc_url = (\<lambda>s. None), pc_unb64u = (\<lambda>s. s), pc_on_curve = (\<lambda>s. True), pc_hash12 = (\<lambda>s. ''id'')\<rparr>"

theorem push_drops_gone_only_witness:
  "let s = \<lparr>pt_subs = [demo_sub ''https://a/1'', demo_sub ''https://b/2'', demo_sub ''https://c/3''], pt_file = []\<rparr>;
       answer = (\<lambda>d. if ps_endpoint d = ''https://a/1'' then Inr 410 else if ps_endpoint d = ''https://b/2'' then Inr 201 else Inl ''ETIMEDOUT'') in
   map ps_endpoint (pt_subs (snd (sendAll demo_pcrypto True answer s))) = [''https://b/2'', ''https://c/3''] \<and>
   fst (sendAll demo_pcrypto True answer s) = None"
proof -
  let ?s = "\<lparr>pt_subs = [demo_sub ''https://a/1'', demo_sub ''https://b/2'', demo_sub ''https://c/3''], pt_file = []\<rparr>"
  let ?a = "\<lambda>d. if ps_endpoint d = ''https://a/1'' then Inr 410 else if ps_endpoint d = ''https://b/2'' then Inr 201 else Inl ''ETIMEDOUT''"
  have "store_fine ?s" "pt_subs ?s \<noteq> []"
    "list_all (\<lambda>d. list_all (\<lambda>d'. pc_hash12 demo_pcrypto (ps_endpoint d) \<noteq> ps_endpoint d') (pt_subs ?s)) (pt_subs ?s)"
    by (simp_all add: store_fine_def MAX_DEVICES_def demo_sub_def demo_pcrypto_def)
  from push_drops_gone_only [OF this, of ?a] show ?thesis by (simp add: demo_sub_def GONE_def)
qed

end
