(* ===== verification/Hub.thy ===== *)
theory Hub
  imports Alert_Rules Snapshot Fleet Nodes Agent_Api Link Client_Ip History Notify Login Confd Web_Push
begin

text \<open>
  The hub as a whole: the state its parts keep together (\<open>hub\<close>) and the code of \<^verbatim>\<open>src/hub/server.js\<close> that
  wires them: a push of an agent goes to the latest snapshots, the history and the alerts, what the alerts tell
  goes to the notifier, once a minute silent nodes are judged. Everything outside the process (the clock, the files of
  \<^verbatim>\<open>conf.d\<close> and the whitelist as they are now, random draws, parsers, crypto, the answers of Docker and
  of a channel) is one record \<open>world\<close>, given to each step.
\<close>

section \<open>State\<close>

record snaprec =
  sr_snap :: jsval
  sr_view :: jsval
  sr_at :: ms

text \<open>
  \<open>hb_snapfiles\<close> is the directory \<^verbatim>\<open>snapshots\<close>, \<open>hb_config\<close> what \<^verbatim>\<open>config.json\<close> parses to (\<open>None\<close>: missing or
  not JSON), \<open>hb_docker\<close> the calls made to Docker, in order.
\<close>

record hub =
  hb_gate :: gate
  hb_nodes :: nstore
  hb_api :: api
  hb_links :: links
  hb_latest :: "(string \<times> snaprec) list"
  hb_snapfiles :: "(string \<times> snaprec) list"
  hb_alerts :: engine
  hb_notify :: notifier
  hb_hist :: hist
  hb_rules :: "crule list"
  hb_ignored :: string
  hb_config :: "jsval option"
  hb_push :: pstore
  hb_confd :: confd
  hb_docker :: "(string \<times> string) list"

record world =
  w_now :: ms
  w_start :: ms
  w_whitelist :: "string list"
  w_trusted :: "cidr list"
  w_fwd :: fwd_header
  w_public :: string
  w_url_host :: "string \<Rightarrow> string option"
  w_lan_only :: bool
  w_loopback :: bool
  w_lenv :: lenv
  w_lcrypto :: lcrypto
  w_agent :: crypto
  w_pcrypto :: pcrypto
  w_dir :: cdir
  w_show :: "jnum \<Rightarrow> string"
  w_lt :: localtime
  w_txn :: "nat \<Rightarrow> string \<Rightarrow> string"
  w_http_url :: "string \<Rightarrow> bool"
  w_mtime :: int
  w_salt :: string
  w_hash :: "string \<Rightarrow> string"
  w_ids :: "string list"
  w_device :: string
  w_codes :: "string list"
  w_try :: "channel \<Rightarrow> nmsg \<Rightarrow> string option"
  w_docker :: "string \<Rightarrow> string \<Rightarrow> nat \<times> string"
  w_vapid :: "string option"
  w_short :: "string \<Rightarrow> string"
  w_f32 :: "rat \<Rightarrow> rat"
  w_name_of :: "string \<Rightarrow> string option"
  w_decode :: "string \<Rightarrow> string option"
  w_utf8 :: "string \<Rightarrow> string"
  w_collate :: "string \<Rightarrow> string"

section \<open>Alerts and what they tell\<close>

text \<open>\<^verbatim>\<open>onEvent\<close>: each event the engine tells, in order, to the notifier.\<close>

definition tell_events :: "world \<Rightarrow> event list \<Rightarrow> notifier \<Rightarrow> notifier" where
  "tell_events w evs n = snd (foldl (\<lambda>(k, n) ev. (k + 1, onEvent (w_lt w) (w_txn w k) ev (w_now w) n)) (0, n) evs)"

definition alerts_do :: "world \<Rightarrow> (engine \<Rightarrow> engine) \<Rightarrow> hub \<Rightarrow> hub" where
  "alerts_do w op h = (let e = hb_alerts h; e' = op e in
     h\<lparr>hb_alerts := e', hb_notify := tell_events w (drop (length (outbox e)) (outbox e')) (hb_notify h)\<rparr>)"

section \<open>Nodes as the page and the alerts see them\<close>

definition nodeName :: "string \<Rightarrow> nstore \<Rightarrow> string" where
  "nodeName i s = (case get_node i s of Some n \<Rightarrow> if nd_name n \<noteq> [] then nd_name n else i | None \<Rightarrow> i)"

definition node_tags :: "string \<Rightarrow> nstore \<Rightarrow> string list" where
  "node_tags i s = (case get_node i s of Some n \<Rightarrow> nd_tags n | None \<Rightarrow> [])"

definition snap_interval :: "snaprec \<Rightarrow> int option" where
  "snap_interval r = map_option (\<lambda>q. \<lfloor>q\<rfloor>) (finite_num (fld ''interval'' (sr_snap r)))"

definition nodeStatus :: "world \<Rightarrow> hub \<Rightarrow> string \<Rightarrow> fstatus" where
  "nodeStatus w h i = (case map_of (hb_latest h) i of
      None \<Rightarrow> status 0 None (w_now w)
    | Some r \<Rightarrow> status (sr_at r) (snap_interval r) (w_now w))"

text \<open>A node with what \<^verbatim>\<open>conf.d\<close> sets of it, and the list of what is set there.\<close>

record fnode =
  fn_id :: string
  fn_name :: string
  fn_local :: bool
  fn_created :: ms
  fn_tags :: "string list"
  fn_managed :: "string list"

definition strs_of :: "jsval \<Rightarrow> string list" where
  "strs_of v = (case v of JArr xs \<Rightarrow> map str_of xs | _ \<Rightarrow> [])"

definition withFile :: "conf \<Rightarrow> string \<times> string \<times> bool \<times> ms \<times> string list \<Rightarrow> fnode" where
  "withFile c n = (case n of (i, name, loc, created, tags) \<Rightarrow>
     (let byName = map_of (cf_nodes c) name; byId = map_of (cf_nodes c) i in
      if byName = None \<and> byId = None
      then \<lparr>fn_id = i, fn_name = name, fn_local = loc, fn_created = created, fn_tags = tags, fn_managed = []\<rparr>
      else let f = spread (case byName of Some x \<Rightarrow> x | None \<Rightarrow> []) (case byId of Some x \<Rightarrow> x | None \<Rightarrow> []) in
        \<lparr>fn_id = i, fn_name = (case map_of f ''name'' of Some v \<Rightarrow> str_of v | None \<Rightarrow> name), fn_local = loc, fn_created = created,
         fn_tags = (case map_of f ''tags'' of Some v \<Rightarrow> strs_of v | None \<Rightarrow> tags),
         fn_managed = sort (remdups (map fst f @ (if byName \<noteq> None then [''name''] else [])))\<rparr>))"

text \<open>The directory is read at most every two seconds; the copy is part of the state.\<close>

definition conf_of :: "world \<Rightarrow> hub \<Rightarrow> conf" where
  "conf_of w h = fst (confd_get (w_show w) (w_dir w) (w_now w) (hb_confd h))"

definition conf_seen :: "world \<Rightarrow> hub \<Rightarrow> hub" where
  "conf_seen w h = h\<lparr>hb_confd := snd (confd_get (w_show w) (w_dir w) (w_now w) (hb_confd h))\<rparr>"

section \<open>A push, and the clock\<close>

definition onSnapshot :: "world \<Rightarrow> string \<times> jsval \<Rightarrow> hub \<Rightarrow> hub" where
  "onSnapshot w ps h = (case ps of (i, snap) \<Rightarrow>
     (let prev = map_of (hb_latest h) i;
          v = (case prev of None \<Rightarrow> view snap JUndef [] | Some r \<Rightarrow> view snap (sr_snap r) (arr_or_empty (fld ''trend'' (sr_view r))));
          rec = \<lparr>sr_snap = snap, sr_view = v, sr_at = w_now w\<rparr>;
          h1 = h\<lparr>hb_latest := AList.update i rec (hb_latest h)\<rparr>;
          h2 = h1\<lparr>hb_hist := add_values (w_short w) (w_f32 w) MAX_SERIES i (seriesOf v) (w_now w) (hb_hist h1)\<rparr>;
          h3 = alerts_do w (evaluate \<lparr>n_id = i, n_name = nodeName i (hb_nodes h), n_tags = node_tags i (hb_nodes h),
                 n_lastPush = 0, n_interval = None\<rparr> v (w_now w)) h2 in
      h3\<lparr>hb_snapfiles := AList.update i rec (hb_snapfiles h3)\<rparr>))"

text \<open>A step of the agent API, and the snapshots it accepts.\<close>

definition api_do :: "world \<Rightarrow> (api \<Rightarrow> api) \<Rightarrow> hub \<Rightarrow> hub" where
  "api_do w op h = (let a = hb_api h; a' = op a in
     foldl (\<lambda>h ps. onSnapshot w ps h) (h\<lparr>hb_api := a'\<rparr>) (drop (length (a_snaps a)) (a_snaps a')))"

definition agent_arrives :: "world \<Rightarrow> areq \<Rightarrow> hub \<Rightarrow> hub" where
  "agent_arrives w q h = h\<lparr>hb_api := api_step (w_agent w) (hb_api h) (Arrive q (get_node (q_node q) (hb_nodes h)) (w_now w))\<rparr>"

text \<open>
  The code holds on to the node's object while the body comes, and the store changes that object in
  place: what is checked is the entry as it is when the body is there, also one revoked meanwhile. (An edit
  of the file by another program in between would make a new object; that is left out.)
\<close>

definition agent_body :: "world \<Rightarrow> nat \<Rightarrow> string list option \<Rightarrow> hub \<Rightarrow> hub" where
  "agent_body w c chunks h = (case map_of (a_pending (hb_api h)) c of
      None \<Rightarrow> h
    | Some p \<Rightarrow> (case map_of (ns_nodes (load (hb_nodes h))) (q_node (p_req p)) of
          None \<Rightarrow> h
        | Some n \<Rightarrow> api_do w (\<lambda>a. api_step (w_agent w) a (BodyRead c n chunks (w_now w))) h))"

text \<open>A long poll that times out, a connection that closes.\<close>

definition agent_timeout :: "world \<Rightarrow> string \<Rightarrow> hub \<Rightarrow> hub" where
  "agent_timeout w i h = h\<lparr>hb_api := api_step (w_agent w) (hb_api h) (TimedOut i)\<rparr>"

definition agent_closed :: "world \<Rightarrow> nat \<Rightarrow> hub \<Rightarrow> hub" where
  "agent_closed w c h = h\<lparr>hb_api := api_step (w_agent w) (hb_api h) (Closed c)\<rparr>"

definition wakeNode :: "world \<Rightarrow> string \<Rightarrow> hub \<Rightarrow> (bool \<times> bool) \<times> hub" where
  "wakeNode w i h =
    (let fresh = w_now w - lastPushAt i (hb_api h) < 5000; pending = w_now w - lastWakeAt i (hb_api h) < 5000 in
     if fresh \<or> pending then ((fresh, False), h)
     else (case wake (w_agent w) i (w_now w) (hb_api h) of (woke, a) \<Rightarrow> ((fresh, woke), h\<lparr>hb_api := a\<rparr>)))"

text \<open>Once a minute: every node with its last push, counted from the hub's start at the earliest.\<close>

definition check_args :: "world \<Rightarrow> hub \<Rightarrow> node list" where
  "check_args w h = map (\<lambda>(i, name, loc, created, tags). (case map_of (hb_latest h) i of
       None \<Rightarrow> \<lparr>n_id = i, n_name = name, n_tags = tags, n_lastPush = 0, n_interval = None\<rparr>
     | Some r \<Rightarrow> \<lparr>n_id = i, n_name = name, n_tags = tags, n_lastPush = max (sr_at r) (w_start w), n_interval = snap_interval r\<rparr>))
     (list_nodes (hb_nodes h))"

definition minute_tick :: "world \<Rightarrow> hub \<Rightarrow> hub" where
  "minute_tick w h = (let h1 = alerts_do w (Alerts.check (check_args w h) (w_now w)) h in
     h1\<lparr>hb_notify := tick (w_lt w) (w_txn w 0) (w_txn w 1) (w_now w) (hb_notify h1)\<rparr>)"

definition historyFlush :: "world \<Rightarrow> hub \<Rightarrow> hub" where
  "historyFlush w h = h\<lparr>hb_hist := flush (w_short w) (w_f32 w) MAX_SERIES (w_now w) (hb_hist h)\<rparr>"

definition historySweep :: "world \<Rightarrow> hub \<Rightarrow> hub" where
  "historySweep w h = h\<lparr>hb_hist := sweep_history (Some (map fst (list_nodes (hb_nodes h)))) (w_now w) (hb_hist h)\<rparr>"

end
