(* ===== verification/Server.thy ===== *)
theory Server
  imports Hub
begin

text \<open>
  The requests of people, \<^verbatim>\<open>handle\<close> of \<^verbatim>\<open>src/hub/server.js\<close> and the routes it dispatches to, one definition each,
  as functions from the hub's state to the answer and the state after. An answer carries the values a
  page is given, not its HTML or JSON text. A request comes with what the standard library read of it: its
  JSON body (\<open>None\<close> when it does not parse), its form and query members, its session cookie. The login
  is one step here; theory \<open>Login\<close> has its two parts apart.
\<close>

section \<open>Requests and answers\<close>

record request =
  rq_http :: http_req
  rq_method :: string
  rq_url :: string
  rq_cookie :: "string option"
  rq_json :: "jsval option"
  rq_form :: "string \<Rightarrow> string option"
  rq_query :: "string \<Rightarrow> string option"
  rq_forwarded :: bool

record card =
  cd_node :: fnode
  cd_status :: fstatus
  cd_seen :: "ms option"
  cd_interval :: "int option"
  cd_summary :: jsval
  cd_alerts :: "(nat \<times> severity) option"

datatype link_page = CodeForm string | AskForm looked string | LinkedPage string | DeniedPage

datatype answer =
    Banned ban
  | LoginPage nat string string "int option"
  | PlainText nat string
  | Redirect string string
  | Static
  | Err nat string
  | Ok "(string \<times> jsval) list"
  | Account string string
  | Data nat jsval
  | LinkAnswer lresp string
  | LinkPage link_page
  | AlertsView "(inst \<times> severity option \<times> string \<times> bool) list" "event list" "(string \<times> rat) list \<times> (string \<times> rat) list" "(string \<times> string \<times> string) list"
  | RulesView "crule list" string
  | ChannelsView "nconf \<times> (string \<times> chstat) list \<times> string"
  | TestView "string option"
  | PushView "string option" "(string \<times> string \<times> ms \<times> string) list" bool
  | SeriesView "int \<times> (int \<times> point option) list"
  | SeriesList "string list"
  | NodesView "card list"
  | NodeView jsval fnode fstatus ms
  | NodeWaiting fnode
  | WhoView "string option" bool bool string
  | AgentApi

definition err :: "nat \<Rightarrow> string \<Rightarrow> hub \<Rightarrow> answer \<times> hub" where
  "err code m h = (Err code m, h)"

definition done_ok :: "hub \<Rightarrow> answer \<times> hub" where
  "done_ok h = (Ok [(''ok'', JBool True)], h)"

text \<open>\<^verbatim>\<open>Number(v)\<close>\<close>

fun num_of :: "jsval \<Rightarrow> jnum" where
  "num_of JUndef = NaN"
| "num_of JNull = Fin 0"
| "num_of (JBool b) = Fin (if b then 1 else 0)"
| "num_of (JNum n) = n"
| "num_of (JStr s) = (case js_Number s of None \<Rightarrow> NaN | Some q \<Rightarrow> Fin q)"
| "num_of (JArr xs) = (case xs of [] \<Rightarrow> Fin 0 | [x] \<Rightarrow> (case x of JUndef \<Rightarrow> Fin 0 | JNull \<Rightarrow> Fin 0 | JBool _ \<Rightarrow> NaN | _ \<Rightarrow> num_of x) | _ \<Rightarrow> NaN)"
| "num_of (JObj _) = NaN"

definition is_plain_obj :: "jsval option \<Rightarrow> bool" where
  "is_plain_obj b = (case b of Some v \<Rightarrow> is_obj v | None \<Rightarrow> False)"

section \<open>Linking\<close>

text \<open>\<open>rq_forwarded\<close>: the request has any of the headers of \<^verbatim>\<open>FORWARDING\<close>, or the proxy header.\<close>

definition linkTransportOk :: "world \<Rightarrow> request \<Rightarrow> client \<Rightarrow> bool" where
  "linkTransportOk w q c = (let p = rq_http q in
     if h_tls p then True
     else if cl_peerTrusted c \<and> present (h_xfproto p) then lastHeaderValue (h_xfproto p) = ''https''
     else w_loopback w \<and> h_remote p \<in> {Some ''127.0.0.1'', Some ''::1'', Some ''::ffff:127.0.0.1''} \<and> \<not> rq_forwarded q)"

definition publicBase :: "world \<Rightarrow> request \<Rightarrow> client \<Rightarrow> string" where
  "publicBase w q c = (let p = rq_http q; host = lower_case (case h_host p of None \<Rightarrow> [] | Some x \<Rightarrow> x);
      https = h_tls p \<or> (cl_peerTrusted c \<and> lastHeaderValue (h_xfproto p) = ''https'') in
    if w_public w \<noteq> [] then rev (dropWhile (\<lambda>x. x = CHR ''/'') (rev (w_public w)))
    else if in_class (\<lambda>x. is_lower x \<or> is_digit x \<or> x \<in> set ''.:[]-'') 1 255 host
    then (if https then ''https'' else ''http'') @ ''://'' @ host else [])"

definition accountLabel :: "world \<Rightarrow> request \<Rightarrow> client \<Rightarrow> hub \<Rightarrow> string" where
  "accountLabel w q c h = (let u = lg_user (creds (w_lcrypto w) (w_lenv w) (hb_gate h));
      masked = (if length u \<le> 2 then take 1 u @ ''***'' else take 1 u @ ''***'' @ [last u]);
      host = (case w_url_host w (publicBase w q c) of None \<Rightarrow> [] | Some x \<Rightarrow> x) in
    if host \<noteq> [] then masked @ '' on '' @ host else masked)"

definition ip_str :: "client \<Rightarrow> string" where
  "ip_str c = (case cl_ip c of None \<Rightarrow> [] | Some a \<Rightarrow> a)"

definition link_args :: "jsval \<Rightarrow> client \<Rightarrow> start_args" where
  "link_args b c = \<lparr>g_secret = str_of (fld ''secret'' b), g_host = str_of (fld ''host'' b), g_os = str_of (fld ''os'' b),
     g_agent = str_of (fld ''agent'' b), g_ip = ip_str c\<rparr>"

text \<open>An agent's side. A device code that is not a string is refused as a long one is.\<close>

definition handleLinkApi :: "world \<Rightarrow> request \<Rightarrow> client \<Rightarrow> hub \<Rightarrow> answer \<times> hub" where
  "handleLinkApi w q c h = (let path = url_path (rq_url q) in
     if path \<noteq> ''/api/v1/link/start'' \<and> path \<noteq> ''/api/v1/link/poll'' then err 404 ''not_found'' h
     else if rq_method q \<noteq> ''POST'' then err 405 ''method_not_allowed'' h
     else if \<not> linkTransportOk w q c then err 403 ''https_required'' h
     else (case rq_json q of
         Some (JObj b) \<Rightarrow>
           if path = ''/api/v1/link/start''
           then (case start (w_hash w) (link_args (JObj b) c) (w_device w) (w_codes w) (w_now w) (hb_links h) of
               Some (r, l) \<Rightarrow> (LinkAnswer r (publicBase w q c @ ''/link''), h\<lparr>hb_links := l\<rparr>)
             | None \<Rightarrow> err 503 ''busy'' h)
           else (case fld ''device_code'' (JObj b) of
               JStr d \<Rightarrow> (case poll (w_hash w) d (w_now w) (hb_links h) of (r, l) \<Rightarrow> (LinkAnswer r [], h\<lparr>hb_links := l\<rparr>))
             | _ \<Rightarrow> (LinkAnswer (LFail 400 ''invalid_request'') [], h))
       | _ \<Rightarrow> err 400 ''invalid_request'' h))"

definition form :: "request \<Rightarrow> string \<Rightarrow> string" where
  "form q k = (case rq_form q k of None \<Rightarrow> [] | Some v \<Rightarrow> v)"

definition asked :: "looked \<Rightarrow> string \<Rightarrow> answer" where
  "asked r m = (case r of LookErr e \<Rightarrow> LinkPage (CodeForm (if e = TooMany then ''too_many'' else ''unknown'')) | _ \<Rightarrow> LinkPage (AskForm r m))"

definition link_error :: "found \<Rightarrow> answer" where
  "link_error e = LinkPage (CodeForm (if e = TooMany then ''too_many'' else ''unknown''))"

text \<open>The node an approval adds, for the request's secret; the answer is the agent's JSON, written by \<open>granted\<close>.\<close>

definition approve_add :: "world \<Rightarrow> string \<Rightarrow> string list \<Rightarrow> nstore \<Rightarrow> lreq \<Rightarrow> (string + string) \<times> nstore" where
  "approve_add w name tags ns r = (case add_node name tags (l_secret r) (w_ids w) (w_now w) (w_mtime w) ns of
      None \<Rightarrow> (Inl ''no free id'', ns) | Some x \<Rightarrow> x)"

definition granted :: "string \<Rightarrow> string \<Rightarrow> string \<Rightarrow> string" where
  "granted i account name = i @ [CHR 0x0A] @ account @ [CHR 0x0A] @ name"

definition link_tags :: "request \<Rightarrow> string list" where
  "link_tags q = filter (\<lambda>x. x \<noteq> []) (split_words (form q ''tags''))"

definition linkRoute :: "world \<Rightarrow> request \<Rightarrow> client \<Rightarrow> hub \<Rightarrow> answer \<times> hub" where
  "linkRoute w q c h =
    (let H = w_hash w; t = w_now w; ip = ip_str c; account = lg_user (creds (w_lcrypto w) (w_lenv w) (hb_gate h)); code = form q ''code'' in
     if rq_method q \<noteq> ''POST'' then (LinkPage (CodeForm []), h)
     else if form q ''step'' \<noteq> ''decide''
     then (case Link.lookup H code ip account t (hb_links h) of (r, l) \<Rightarrow> (asked r [], h\<lparr>hb_links := l\<rparr>))
     else if form q ''action'' = ''deny''
     then (case decide H code False ip account (\<lambda>_. Inl []) t (hb_links h) of
         (Denied _ _, l) \<Rightarrow> (LinkPage DeniedPage, h\<lparr>hb_links := l\<rparr>)
       | (DecErr e, l) \<Rightarrow> (link_error e, h\<lparr>hb_links := l\<rparr>)
       | (_, l) \<Rightarrow> (LinkPage (CodeForm []), h\<lparr>hb_links := l\<rparr>))
     else (case check_node_args (form q ''name'') (link_tags q) of
         Inl m \<Rightarrow> (case Link.lookup H code ip account t (hb_links h) of (r, l) \<Rightarrow> (asked r m, h\<lparr>hb_links := l\<rparr>))
       | Inr name \<Rightarrow>
           (let add = approve_add w name (link_tags q) (hb_nodes h);
                give = (\<lambda>r. map_sum (\<lambda>e. e) (\<lambda>i. granted i (accountLabel w q c h) name) (fst (add r)));
                ns = (case find_code H code ip account t (hb_links h) of (Found a, l) \<Rightarrow> snd (add (obj_at l a)) | _ \<Rightarrow> hb_nodes h) in
            case decide H code True ip account give t (hb_links h) of
              (Approved _ _ _, l) \<Rightarrow> (LinkPage (LinkedPage name), h\<lparr>hb_links := l, hb_nodes := ns\<rparr>)
            | (DecThrew e, l) \<Rightarrow> (LinkPage (CodeForm e), h\<lparr>hb_links := l, hb_nodes := ns\<rparr>)
            | (DecErr e, l) \<Rightarrow> (link_error e, h\<lparr>hb_links := l\<rparr>)
            | (Denied _ _, l) \<Rightarrow> (LinkPage DeniedPage, h\<lparr>hb_links := l\<rparr>))))"

section \<open>Routes of the page\<close>

definition wake_one :: "world \<Rightarrow> nat \<times> hub \<Rightarrow> string \<Rightarrow> nat \<times> hub" where
  "wake_one w x i = (let r = wakeNode w i (snd x) in (fst x + (if snd (fst r) then 1 else 0), snd r))"

definition ctl_refresh :: "world \<Rightarrow> request \<Rightarrow> hub \<Rightarrow> answer \<times> hub" where
  "ctl_refresh w q h =
    (if rq_query q ''node'' = Some ''all''
     then (case foldl (wake_one w) (0, h) (map fst (list_nodes (hb_nodes h))) of
         (n, h') \<Rightarrow> (Ok [(''ok'', JBool True), (''woke'', JNum (Fin (of_nat n)))], h'))
     else (case (case rq_query q ''node'' of Some i \<Rightarrow> if i \<noteq> [] then Some i else localId (hb_nodes h) | None \<Rightarrow> localId (hb_nodes h)) of
         None \<Rightarrow> err 404 ''no such node'' h
       | Some i \<Rightarrow>
           if get_node i (hb_nodes h) = None then err 404 ''no such node'' h
           else (case wakeNode w i h of ((fresh, woke), h') \<Rightarrow> (Ok [(''ok'', JBool True), (''woke'', JBool woke), (''fresh'', JBool fresh)], h'))))"

definition YEAR :: ms where "YEAR = 366 * 86400000"

text \<open>The rule or node a mute names, and until when; \<open>None\<close> when the body is refused.\<close>

definition mute_request :: "world \<Rightarrow> jsval option \<Rightarrow> hub \<Rightarrow> (mute_target \<times> rat) option" where
  "mute_request w body h =
    (let b = (case body of Some v \<Rightarrow> v | None \<Rightarrow> JUndef); t = w_now w;
         unmute = (fld ''for'' b = JUndef \<and> (case num_of (fld ''until'' b) of Fin q \<Rightarrow> q \<le> of_int t | NegInf \<Rightarrow> True | _ \<Rightarrow> False));
         rule = (case fld ''rule'' b of
             JStr r \<Rightarrow> if r \<in> set (ruleIds (hb_alerts h)) \<or> (unmute \<and> in_class (\<lambda>c. is_lower c \<or> is_digit c \<or> c = CHR ''_'') 1 32 r) then Some r else None
           | _ \<Rightarrow> None);
         nd = (case fld ''node'' b of JStr n \<Rightarrow> if get_node n (hb_nodes h) \<noteq> None then Some n else None | _ \<Rightarrow> None);
         okFor = (fld ''for'' b = JUndef \<or> (case finite_num (fld ''for'' b) of Some q \<Rightarrow> q > 0 \<and> q \<le> of_int YEAR | None \<Rightarrow> False));
         until = (if fld ''for'' b \<noteq> JUndef then map_option (\<lambda>q. of_int t + q) (finite_num (fld ''for'' b))
                  else (case num_of (fld ''until'' b) of Fin q \<Rightarrow> Some q | _ \<Rightarrow> None)) in
     if (rule = None \<and> nd = None) \<or> (fld ''rule'' b \<noteq> JUndef \<and> rule = None) \<or> (fld ''node'' b \<noteq> JUndef \<and> nd = None)
        \<or> \<not> okFor \<or> (fld ''for'' b \<noteq> JUndef \<and> fld ''until'' b \<noteq> JUndef)
     then None
     else (case until of
         None \<Rightarrow> None
       | Some u \<Rightarrow> if u > of_int (t + YEAR) then None
           else Some (case rule of Some r \<Rightarrow> MuteRule r | None \<Rightarrow> MuteNode (the nd), u)))"

definition ctl_mute :: "world \<Rightarrow> request \<Rightarrow> hub \<Rightarrow> answer \<times> hub" where
  "ctl_mute w q h = (case mute_request w (rq_json q) h of
      None \<Rightarrow> err 400 ''mute needs a known rule or node, and for (ms, at most a year) or until (ms, at most a year ahead)'' h
    | Some (tg, u) \<Rightarrow> done_ok (alerts_do w (\<lambda>e. case mute_op (Some tg) u (w_now w) e of Some e' \<Rightarrow> e' | None \<Rightarrow> e) h))"

text \<open>The nodes the saved rules name.\<close>

definition named_nodes :: "crule list \<Rightarrow> string list" where
  "named_nodes rs = concat (map (\<lambda>r. (case r of COwn _ _ _ _ _ (OnNode n) _ _ _ _ _ _ \<Rightarrow> [n] | _ \<Rightarrow> []) @
     concat (map (\<lambda>x. case ov_who x of ForNode n \<Rightarrow> [n] | _ \<Rightarrow> []) (c_overrides r))) rs)"

definition ctl_rules :: "world \<Rightarrow> request \<Rightarrow> hub \<Rightarrow> answer \<times> hub" where
  "ctl_rules w q h = (case rq_json q of
      None \<Rightarrow> err 400 ''invalid json'' h
    | Some body \<Rightarrow> (case checkRules body (Some (map fst (list_nodes (hb_nodes h)) @ named_nodes (hb_rules h))) of
          Inl m \<Rightarrow> err 400 m h
        | Inr clean \<Rightarrow> done_ok (alerts_do w (setRules (buildRules clean) (w_now w)) (h\<lparr>hb_ignored := [], hb_rules := clean\<rparr>))))"

definition ctl_channels :: "world \<Rightarrow> request \<Rightarrow> hub \<Rightarrow> answer \<times> hub" where
  "ctl_channels w q h = (case rq_json q of
      None \<Rightarrow> err 400 ''invalid json'' h
    | Some body \<Rightarrow> (case setConfig (w_http_url w) body (hb_notify h) of
          Inl m \<Rightarrow> err 400 m h
        | Inr n \<Rightarrow> done_ok (h\<lparr>hb_notify := n\<rparr>)))"

definition ctl_test :: "world \<Rightarrow> request \<Rightarrow> hub \<Rightarrow> answer \<times> hub" where
  "ctl_test w q h = (case rq_json q of
      None \<Rightarrow> err 400 ''invalid json'' h
    | Some body \<Rightarrow> (case test_channel (str_of (fld ''id'' body)) (w_try w) (w_now w) (hb_notify h) of
          (r, n) \<Rightarrow> (TestView r, h\<lparr>hb_notify := n\<rparr>)))"

text \<open>A subscription first enters the store; then the channel is added, which may throw (500).\<close>

definition ctl_push :: "world \<Rightarrow> request \<Rightarrow> bool \<Rightarrow> hub \<Rightarrow> answer \<times> hub" where
  "ctl_push w q unsubscribe h = (case rq_json q of
      None \<Rightarrow> err 400 ''invalid json'' h
    | Some body \<Rightarrow>
        if \<not> (is_obj body \<or> arr_of body \<noteq> None) then err 400 ''invalid json'' h
        else if unsubscribe
        then (case fld ''endpoint'' body of
            JStr e \<Rightarrow> (case push_remove (w_pcrypto w) e (hb_push h) of (gone, p) \<Rightarrow> (Ok [(''ok'', JBool True), (''removed'', JBool gone)], h\<lparr>hb_push := p\<rparr>))
          | _ \<Rightarrow> (Ok [(''ok'', JBool True), (''removed'', JBool False)], h))
        else if w_vapid w = None then err 503 ''web push is off: vapid.json cannot be read'' h
        else (case push_add (w_pcrypto w) (fld ''subscription'' body) (fld ''label'' body) (h_origin (rq_http q)) (w_now w) (hb_push h) of
            (Inl m, p) \<Rightarrow> err 400 m (h\<lparr>hb_push := p\<rparr>)
          | (Inr i, p) \<Rightarrow> (case ensureWebPush (w_http_url w) (tr ''notify.webpushName'' []) (hb_notify h) of
                Inl m \<Rightarrow> err 500 ''internal error'' (h\<lparr>hb_push := p\<rparr>)
              | Inr (added, n) \<Rightarrow> (Ok [(''ok'', JBool True), (''id'', JStr i), (''channelAdded'', JBool added)], h\<lparr>hb_push := p, hb_notify := n\<rparr>))))"

text \<open>The names of a node's series: of its files (\<open>name_of\<close> reads one), and of the minutes still open.\<close>

definition history_series :: "(string \<Rightarrow> string option) \<Rightarrow> string \<Rightarrow> hist \<Rightarrow> string list" where
  "history_series name_of i s = (if \<not> is_node_id i then []
     else first_of (List.map_filter name_of (map fst (dir_of i s)) @ map (\<lambda>kc. drop 13 (fst kc)) (filter (\<lambda>kc. key_of_node i (fst kc)) (hs_open s))))"

definition ctl_history :: "world \<Rightarrow> request \<Rightarrow> hub \<Rightarrow> answer \<times> hub" where
  "ctl_history w q h =
    (case (case rq_query q ''node'' of Some i \<Rightarrow> if i \<noteq> [] then Some i else localId (hb_nodes h) | None \<Rightarrow> localId (hb_nodes h)) of
       None \<Rightarrow> err 404 ''no such node'' h
     | Some i \<Rightarrow>
         let series = (case rq_query q ''series'' of None \<Rightarrow> [] | Some x \<Rightarrow> x);
             rng = (case rq_query q ''range'' of None \<Rightarrow> ''24h'' | Some x \<Rightarrow> if x = [] then ''24h'' else x) in
         if get_node i (hb_nodes h) = None then err 404 ''no such node'' h
         else if series = ''list'' then (SeriesList (history_series (w_name_of w) i (hb_hist h)), h)
         else if rng \<notin> {''1h'', ''24h'', ''7d'', ''30d'', ''90d''} then err 400 ''range is 1h, 24h, 7d, 30d or 90d'' h
         else (case query (w_short w) i series rng (w_now w) (hb_hist h) of
             Some r \<Rightarrow> (SeriesView r, h) | None \<Rightarrow> err 404 ''no such series'' h))"

definition card_of :: "world \<Rightarrow> hub \<Rightarrow> fnode \<Rightarrow> card" where
  "card_of w h n = (let r = map_of (hb_latest h) (fn_id n) in
    \<lparr>cd_node = n, cd_status = nodeStatus w h (fn_id n), cd_seen = map_option sr_at r,
     cd_interval = (case r of None \<Rightarrow> None | Some x \<Rightarrow> snap_interval x), cd_summary = (case r of None \<Rightarrow> JNull | Some x \<Rightarrow> summary (sr_view x)),
     cd_alerts = map_of (badges (hb_alerts h) (w_now w)) (fn_id n)\<rparr>)"

text \<open>The hub's own node first, then by name (\<open>w_collate\<close> gives a name's key in the order of \<^verbatim>\<open>localeCompare\<close>).\<close>

definition ctl_nodes :: "world \<Rightarrow> hub \<Rightarrow> answer \<times> hub" where
  "ctl_nodes w h0 = (let h = conf_seen w h0 in
    (NodesView (sort_key (\<lambda>c. (if fn_local (cd_node c) then CHR ''0'' else CHR ''1'') # w_collate w (fn_name (cd_node c)))
       (map (\<lambda>n. card_of w h (withFile (conf_of w h0) n)) (list_nodes (hb_nodes h)))), h))"

definition ctl_node :: "world \<Rightarrow> string \<Rightarrow> hub \<Rightarrow> answer \<times> hub" where
  "ctl_node w i h0 = (let h = conf_seen w h0 in
     case find (\<lambda>n. fst n = i) (list_nodes (hb_nodes h)) of
       None \<Rightarrow> err 404 ''no such node'' h
     | Some n \<Rightarrow> (case map_of (hb_latest h) i of
           None \<Rightarrow> (NodeWaiting (withFile (conf_of w h0) n), h)
         | Some r \<Rightarrow> (NodeView (sr_view r) (withFile (conf_of w h0) n) (nodeStatus w h i) (sr_at r), h)))"

text \<open>Revoking a node: the store, its snapshot and its file, its history, its alerts.\<close>

definition ctl_revoke :: "world \<Rightarrow> bool \<Rightarrow> string \<Rightarrow> hub \<Rightarrow> answer \<times> hub" where
  "ctl_revoke w wl i h =
    (if w_lan_only w \<and> \<not> wl then err 403 ''revoking a node is LAN-only'' h
     else (case revoke i (w_mtime w) (hb_nodes h) of
         (Inl m, s) \<Rightarrow> err 400 m (h\<lparr>hb_nodes := s\<rparr>)
       | (Inr _, s) \<Rightarrow> done_ok (alerts_do w (forget i (w_now w))
           (h\<lparr>hb_nodes := s, hb_latest := AList.delete i (hb_latest h), hb_snapfiles := AList.delete i (hb_snapfiles h),
              hb_hist := removeNode i (hb_hist h)\<rparr>))))"

text \<open>The name and the tags a change asks for, both checked before either is changed.\<close>

definition wanted_name :: "world \<Rightarrow> jsval \<Rightarrow> nrec \<Rightarrow> string + string" where
  "wanted_name w b n = (if fld ''name'' b = JUndef then Inr (nd_name n)
     else checkName (if truthy (fld ''name'' b) then js_show (w_show w) (fld ''name'' b) else []))"

definition wanted_tags :: "jsval \<Rightarrow> string \<Rightarrow> string + string list option" where
  "wanted_tags b name = (case fld ''tags'' b of
      JUndef \<Rightarrow> Inr None
    | JArr xs \<Rightarrow> if list_all is_str xs then bindE (check_node_args name (map str_of xs)) (\<lambda>_. Inr (Some (map str_of xs))) else Inl ''tags: a list of words''
    | _ \<Rightarrow> Inl ''tags: a list of words'')"

definition change_node :: "world \<Rightarrow> string \<Rightarrow> jsval \<Rightarrow> nrec \<Rightarrow> nstore \<Rightarrow> (string + unit) \<times> nstore" where
  "change_node w i b n s = (case bindE (wanted_name w b n) (\<lambda>name. bindE (wanted_tags b name) (\<lambda>ts. Inr (name, ts))) of
      Inl m \<Rightarrow> (Inl m, s)
    | Inr (name, ts) \<Rightarrow>
        (case (if fld ''name'' b \<noteq> JUndef then rename_node i name (w_mtime w) s else (Inr (), s)) of
           (Inl m, s1) \<Rightarrow> (Inl m, s1)
         | (Inr _, s1) \<Rightarrow> (case ts of None \<Rightarrow> (Inr (), s1) | Some l \<Rightarrow> setTags i (Some l) (w_mtime w + 1) s1)))"

definition ctl_change :: "world \<Rightarrow> request \<Rightarrow> string \<Rightarrow> nrec \<Rightarrow> hub \<Rightarrow> answer \<times> hub" where
  "ctl_change w q i n h0 = (case rq_json q of
      Some (JObj kvs) \<Rightarrow>
        (let b = JObj kvs; h = conf_seen w h0;
             managed = (case find (\<lambda>x. fst x = i) (list_nodes (hb_nodes h)) of None \<Rightarrow> [] | Some x \<Rightarrow> fn_managed (withFile (conf_of w h0) x)) in
         if fld ''tags'' b \<noteq> JUndef \<and> ''tags'' \<in> set managed then err 409 ''tags are managed by a file in conf.d'' h
         else if fld ''name'' b \<noteq> JUndef \<and> ''name'' \<in> set managed then err 409 ''the name is managed by a file in conf.d'' h
         else (case change_node w i b n (hb_nodes h) of
             (Inl m, s) \<Rightarrow> err 400 m (h\<lparr>hb_nodes := s\<rparr>)
           | (Inr _, s) \<Rightarrow> done_ok (h\<lparr>hb_nodes := s\<rparr>)))
    | _ \<Rightarrow> err 400 ''invalid json'' h0)"

definition ctl_account :: "world \<Rightarrow> request \<Rightarrow> client \<Rightarrow> bool \<Rightarrow> hub \<Rightarrow> answer \<times> hub" where
  "ctl_account w q c wl h =
    (case account_post (w_lcrypto w) (w_lenv w) (cl_ip c) wl (rq_json q) (w_salt w) (w_mtime w) (w_now w) (hb_gate h) of
       (ABad m, g) \<Rightarrow> (Err 400 m, h\<lparr>hb_gate := g\<rparr>)
     | (ADenied, g) \<Rightarrow> (Err 403 ''current password is wrong'', h\<lparr>hb_gate := g\<rparr>)
     | (AFailed m, g) \<Rightarrow> (Err 500 (''could not save the login: '' @ m), h\<lparr>hb_gate := g\<rparr>)
     | (ASaved u cookie, g) \<Rightarrow> (Account u cookie, h\<lparr>hb_gate := g\<rparr>))"

section \<open>The dashboard's settings\<close>

text \<open>One managed value of a save: what was saved before stays, and what was not there stays away.\<close>

definition keep_managed :: "jsval \<Rightarrow> (string \<times> jsval) list \<Rightarrow> string \<Rightarrow> (string \<times> jsval) list" where
  "keep_managed before obj p = (case split_on (CHR ''.'') p of
      [k] \<Rightarrow> if fld k before \<noteq> JUndef then AList.update k (fld k before) obj else AList.delete k obj
    | k # sub # _ \<Rightarrow> (case map_of obj k of
          Some (JObj t) \<Rightarrow> (let was = fld sub (fld k before) in
            AList.update k (JObj (if was \<noteq> JUndef then AList.update sub was t else AList.delete sub t)) obj)
        | _ \<Rightarrow> obj)
    | [] \<Rightarrow> obj)"

text \<open>\<^verbatim>\<open>/^data:image\/[a-z.+-]+;base64,[A-Za-z0-9+/=]+$/\<close>\<close>

definition is_favicon :: "string \<Rightarrow> bool" where
  "is_favicon s = (let p = (\<lambda>c. is_lower c \<or> c \<in> set ''.+-''); r = drop 11 s; b = drop 8 (dropWhile p r) in
     starts_with ''data:image/'' s \<and> takeWhile p r \<noteq> [] \<and> starts_with '';base64,'' (dropWhile p r) \<and>
     b \<noteq> [] \<and> list_all (\<lambda>c. is_lower c \<or> is_upper c \<or> is_digit c \<or> c \<in> set ''+/='') b)"

text \<open>\<^verbatim>\<open>/^https?:\/\/[^\s"'<>]+$/i\<close>\<close>

definition is_web_url :: "string \<Rightarrow> bool" where
  "is_web_url s = (let l = lower_case s; r = (if starts_with ''https://'' l then drop 8 s else drop 7 s) in
     (starts_with ''https://'' l \<or> starts_with ''http://'' l) \<and> r \<noteq> [] \<and>
     list_all (\<lambda>c. \<not> is_space c \<and> c \<notin> {CHR 0x22, CHR 0x27, CHR ''<'', CHR ''>''}) r)"

definition ctl_config :: "world \<Rightarrow> request \<Rightarrow> hub \<Rightarrow> answer \<times> hub" where
  "ctl_config w q h0 = (case rq_json q of
      None \<Rightarrow> err 400 ''invalid json'' h0
    | Some (JObj kvs) \<Rightarrow>
        (let h = conf_seen w h0; before = (case hb_config h of None \<Rightarrow> JObj [] | Some v \<Rightarrow> v);
             obj = foldl (keep_managed before) (AList.delete ''_managed'' kvs) (cf_managed (conf_of w h0)); o' = JObj obj in
         if truthy (fld ''favicon'' o') \<and> \<not> is_favicon (js_show (w_show w) (fld ''favicon'' o')) then err 400 ''favicon must be a base64 data:image URI'' h
         else if truthy (fld ''portainerUrl'' o') \<and> \<not> is_web_url (js_show (w_show w) (fld ''portainerUrl'' o')) then err 400 ''portainerUrl must be an http(s) URL'' h
         else done_ok (h\<lparr>hb_config := Some o'\<rparr>))
    | Some _ \<Rightarrow> err 400 ''not an object'' h0)"

text \<open>What the page reads: the saved settings, the files' values on top.\<close>

definition overlay :: "(string \<times> jsval) list \<Rightarrow> string \<times> jsval \<Rightarrow> (string \<times> jsval) list" where
  "overlay out kv = (case kv of (k, v) \<Rightarrow>
     AList.update k (case (v, map_of out k) of (JObj t, Some (JObj u)) \<Rightarrow> JObj (spread u t) | _ \<Rightarrow> v) out)"

definition get_config :: "world \<Rightarrow> hub \<Rightarrow> answer \<times> hub" where
  "get_config w h =
    (let out = (case hb_config h of Some (JObj kvs) \<Rightarrow> kvs | _ \<Rightarrow> []); c = conf_of w h in
     (Data 200 (JObj (AList.update ''_managed'' (JArr (map JStr (cf_managed c))) (foldl overlay out (cf_settings c)))), conf_seen w h))"

definition get_data :: "hub \<Rightarrow> answer \<times> hub" where
  "get_data h = (case (case localId (hb_nodes h) of None \<Rightarrow> None | Some i \<Rightarrow> map_of (hb_latest h) i) of
      Some r \<Rightarrow> (Data 200 (sr_view r), h)
    | None \<Rightarrow> err 503 ''no snapshot yet'' h)"

section \<open>Containers of the hub's own host\<close>

text \<open>\<^verbatim>\<open>/^[a-zA-Z0-9][a-zA-Z0-9_.-]{0,80}$/\<close>\<close>

definition SAFE_NAME :: "string \<Rightarrow> bool" where
  "SAFE_NAME s = (case s of [] \<Rightarrow> False | c # r \<Rightarrow> is_alnum c \<and> in_class (\<lambda>x. is_alnum x \<or> x \<in> set ''_.-'') 0 80 r)"

text \<open>The log stream of a container without a terminal: frames of a header of 8 bytes and a payload.\<close>

definition byte :: "char \<Rightarrow> nat" where "byte c = of_char c"

definition frame_head :: "string \<Rightarrow> bool" where
  "frame_head b \<longleftrightarrow> byte (b ! 0) \<le> 2 \<and> byte (b ! 1) = 0 \<and> byte (b ! 2) = 0 \<and> byte (b ! 3) = 0"

definition frame_len :: "string \<Rightarrow> nat" where
  "frame_len b = ((byte (b ! 4) * 256 + byte (b ! 5)) * 256 + byte (b ! 6)) * 256 + byte (b ! 7)"

function demux_frames :: "string \<Rightarrow> string list" where
  "demux_frames b = (if length b < 8 \<or> \<not> frame_head b then []
     else take (frame_len b) (drop 8 b) # demux_frames (drop (8 + frame_len b) b))"
  by pat_completeness auto
termination by (relation "measure length") auto

declare demux_frames.simps [simp del]

text \<open>\<^verbatim>\<open>s.replace(re, "")\<close> with \<open>m\<close> giving what follows a match at the start.\<close>

function strip_by :: "(string \<Rightarrow> string option) \<Rightarrow> string \<Rightarrow> string" where
  "strip_by m s = (case s of
      [] \<Rightarrow> []
    | c # cs \<Rightarrow> (case m s of
          None \<Rightarrow> c # strip_by m cs
        | Some r \<Rightarrow> if length r < length s then strip_by m r else c # strip_by m cs))"
  by pat_completeness auto
termination by (relation "measure (length \<circ> snd)") auto

declare strip_by.simps [simp del]

definition between :: "nat \<Rightarrow> nat \<Rightarrow> char \<Rightarrow> bool" where
  "between lo hi c \<longleftrightarrow> lo \<le> byte c \<and> byte c \<le> hi"

definition match_csi :: "string \<Rightarrow> string option" where
  "match_csi s = (if take 2 s = [CHR 0x1B, CHR ''['']
     then (case dropWhile (between 32 47) (dropWhile (\<lambda>c. is_digit c \<or> c \<in> set '';?'') (drop 2 s)) of
         c # r \<Rightarrow> if between 64 126 c then Some r else None | [] \<Rightarrow> None)
     else None)"

definition match_osc :: "string \<Rightarrow> string option" where
  "match_osc s = (if take 2 s = [CHR 0x1B, CHR '']'']
     then (case dropWhile (\<lambda>c. c \<noteq> CHR 0x07 \<and> c \<noteq> CHR 0x1B) (drop 2 s) of
         [] \<Rightarrow> None
       | c # r \<Rightarrow> if c = CHR 0x07 then Some r else if take 1 r = [CHR 0x5C] then Some (drop 1 r) else None)
     else None)"

definition match_esc :: "string \<Rightarrow> string option" where
  "match_esc s = (case s of a # b # r \<Rightarrow> if a = CHR 0x1B \<and> b \<in> set ''=>'' then Some r else None | _ \<Rightarrow> None)"

definition stripAnsi :: "string \<Rightarrow> string" where
  "stripAnsi s = strip_by match_esc (strip_by match_osc (strip_by match_csi s))"

definition demuxLogs :: "(string \<Rightarrow> string) \<Rightarrow> string \<Rightarrow> string" where
  "demuxLogs utf8 b = (if length b < 8 then utf8 b
     else if \<not> frame_head b then stripAnsi (utf8 b)
     else stripAnsi (concat (map utf8 (demux_frames b))))"

definition docker_call :: "world \<Rightarrow> string \<Rightarrow> string \<Rightarrow> hub \<Rightarrow> (nat \<times> string) \<times> hub" where
  "docker_call w m path h = (w_docker w m path, h\<lparr>hb_docker := hb_docker h @ [(m, path)]\<rparr>)"

definition ctl_container :: "world \<Rightarrow> request \<Rightarrow> bool \<Rightarrow> string \<Rightarrow> string \<Rightarrow> hub \<Rightarrow> answer \<times> hub" where
  "ctl_container w q wl raw action h =
    (if (case rq_query q ''node'' of None \<Rightarrow> False | Some t \<Rightarrow> t \<noteq> [] \<and> Some t \<noteq> localId (hb_nodes h))
     then err 403 ''container controls work only on the hub's own host'' h
     else if w_lan_only w \<and> \<not> wl then err 403 ''container controls are LAN-only'' h
     else (case w_decode w raw of
         None \<Rightarrow> err 500 ''internal error'' h
       | Some name \<Rightarrow>
           if \<not> SAFE_NAME name then err 400 ''bad name'' h
           else if action = ''logs''
           then (case docker_call w ''GET'' (''/containers/'' @ name @ ''/logs?stdout=1&stderr=1&tail=200&timestamps=0'') h of
               ((sc, b), h1) \<Rightarrow> (if sc = 200 then PlainText 200 (let x = demuxLogs (w_utf8 w) b in if x = [] then ''(no output)'' else x) else PlainText sc (w_utf8 w b), h1))
           else if rq_method q \<noteq> ''POST'' then err 405 ''POST only'' h
           else (case docker_call w ''POST'' (''/containers/'' @ name @ ''/'' @ action @ ''?t=10'') h of
               ((sc, b), h1) \<Rightarrow> (if sc < 300 then Ok [(''ok'', JBool True), (''action'', JStr action), (''name'', JStr name)]
                 else Err sc (if w_utf8 w b = [] then ''docker '' @ show_nat sc else w_utf8 w b), h1))))"

section \<open>The dispatch\<close>

text \<open>\<^verbatim>\<open>/^\/__ctl\/node\/([a-z2-7]{12})(\/revoke)?$/\<close> and the container paths.\<close>

datatype ctl_target = NodePath string | RevokePath string | ContainerPath string string | OtherPath

definition ctl_path :: "string \<Rightarrow> ctl_target" where
  "ctl_path p = (case split_on (CHR ''/'') p of
      [a, b, c, i] \<Rightarrow> if a = [] \<and> b = ''__ctl'' \<and> c = ''node'' \<and> is_node_id i then NodePath i else OtherPath
    | [a, b, c, i, d] \<Rightarrow>
        if a = [] \<and> b = ''__ctl'' \<and> c = ''node'' \<and> is_node_id i \<and> d = ''revoke'' then RevokePath i
        else if a = [] \<and> b = ''__ctl'' \<and> c = ''container'' \<and> i \<noteq> [] \<and> d \<in> {''restart'', ''start'', ''stop'', ''logs''} then ContainerPath i d
        else OtherPath
    | _ \<Rightarrow> OtherPath)"

definition ctl_get :: "world \<Rightarrow> request \<Rightarrow> client \<Rightarrow> string \<Rightarrow> hub \<Rightarrow> (answer \<times> hub) option" where
  "ctl_get w q c p h =
    (if p = ''/__ctl/alerts'' then Some (AlertsView (firing (hb_alerts h) (w_now w)) (recent 50 (hb_alerts h)) (mutes (w_now w) (hb_alerts h)) (ruleInfo (hb_alerts h)), h)
     else if p = ''/__ctl/alerts/rules'' then Some (RulesView (hb_rules h) (hb_ignored h), h)
     else if p = ''/__ctl/alerts/channels'' then Some (ChannelsView (view_notifier (hb_notify h)), h)
     else if p = ''/__ctl/push'' then Some (PushView (w_vapid w) (push_devices (w_pcrypto w) (hb_push h)) (requestIsHttps (rq_http q) (w_public w) (cl_peerTrusted c)), h)
     else if p = ''/__ctl/history'' then Some (ctl_history w q h)
     else if p = ''/__ctl/nodes'' then Some (ctl_nodes w h)
     else (case ctl_path p of NodePath i \<Rightarrow> Some (ctl_node w i h) | _ \<Rightarrow> None))"

definition ctl_post :: "world \<Rightarrow> request \<Rightarrow> client \<Rightarrow> bool \<Rightarrow> string \<Rightarrow> hub \<Rightarrow> (answer \<times> hub) option" where
  "ctl_post w q c wl p h =
    (if p = ''/__ctl/refresh'' then Some (ctl_refresh w q h)
     else if p = ''/__ctl/alerts/mute'' then Some (ctl_mute w q h)
     else if p = ''/__ctl/alerts/rules'' then Some (ctl_rules w q h)
     else if p = ''/__ctl/alerts/channels'' then Some (ctl_channels w q h)
     else if p = ''/__ctl/alerts/channels/test'' then Some (ctl_test w q h)
     else if p = ''/__ctl/push/subscribe'' then Some (ctl_push w q False h)
     else if p = ''/__ctl/push/unsubscribe'' then Some (ctl_push w q True h)
     else (case ctl_path p of
         NodePath i \<Rightarrow> Some (case get_node i (hb_nodes h) of None \<Rightarrow> err 404 ''no such node'' h | Some n \<Rightarrow> ctl_change w q i n h)
       | RevokePath i \<Rightarrow> Some (case get_node i (hb_nodes h) of None \<Rightarrow> err 404 ''no such node'' h | Some n \<Rightarrow> ctl_revoke w wl i h)
       | _ \<Rightarrow> if rq_url q = ''/__ctl/account'' then Some (ctl_account w q c wl h)
              else if rq_url q = ''/__ctl/config'' then Some (ctl_config w q h) else None))"

definition ctl :: "world \<Rightarrow> request \<Rightarrow> client \<Rightarrow> bool \<Rightarrow> hub \<Rightarrow> answer \<times> hub" where
  "ctl w q c wl h = (let p = url_path (rq_url q) in
     case (if rq_method q = ''GET'' then ctl_get w q c p h else if rq_method q = ''POST'' then ctl_post w q c wl p h else None) of
       Some r \<Rightarrow> r
     | None \<Rightarrow>
         if rq_url q = ''/__ctl/whoami'' then (WhoView (cl_ip c) wl (\<not> w_lan_only w \<or> wl) (lg_user (creds (w_lcrypto w) (w_lenv w) (hb_gate h))), h)
         else (case ctl_path p of ContainerPath raw action \<Rightarrow> ctl_container w q wl raw action h | _ \<Rightarrow> err 404 ''unknown control'' h))"

definition PUBLIC_FILES :: "string list" where
  "PUBLIC_FILES = [''/manifest.webmanifest'', ''/icons/icon-192.png'', ''/icons/icon-512.png'', ''/icons/icon-maskable-512.png'']"

definition state_change :: "request \<Rightarrow> bool" where
  "state_change q \<longleftrightarrow> rq_method q = ''POST'' \<and> (rq_url q = ''/__auth/login'' \<or> rq_url q = ''/__auth/logout'' \<or>
     starts_with ''/__ctl/'' (rq_url q) \<or> url_path (rq_url q) = ''/link'')"

definition own_origin :: "world \<Rightarrow> request \<Rightarrow> client \<Rightarrow> bool" where
  "own_origin w q c = originAllowed (w_url_host w) (rq_http q) (w_public w) (cl_peerTrusted c)"

definition authed :: "world \<Rightarrow> request \<Rightarrow> hub \<Rightarrow> bool" where
  "authed w q h = validCookie (w_lcrypto w) (w_lenv w) (rq_cookie q) (w_now w) (hb_gate h)"

text \<open>The mode of a wall screen goes through the login.\<close>

definition kioskValue :: "string option \<Rightarrow> string" where
  "kioskValue v = (case v of None \<Rightarrow> [] | Some s \<Rightarrow> if lower_case s \<in> {''0'', ''false'', ''no'', ''off''} then ''0'' else ''1'')"

text \<open>\<^verbatim>\<open>/[?&]kiosk(?:=([^&#]*))?(?:[&#]|$)/\<close>, the first place it matches.\<close>

fun kioskFromUrl :: "string \<Rightarrow> string" where
  "kioskFromUrl [] = []"
| "kioskFromUrl (c # cs) =
    (if c \<in> set ''?&'' \<and> starts_with ''kiosk'' cs
     then (case drop 5 cs of
         [] \<Rightarrow> ''1''
       | d # ds \<Rightarrow> if d = CHR ''='' then kioskValue (Some (takeWhile (\<lambda>x. x \<notin> set ''&#'') ds))
           else if d \<in> set ''&#'' then ''1'' else kioskFromUrl cs)
     else kioskFromUrl cs)"

definition nextValue :: "string option \<Rightarrow> string" where
  "nextValue v = (if v = Some ''link'' then ''link'' else [])"

definition login_answer :: "request \<Rightarrow> lresult \<Rightarrow> answer" where
  "login_answer q r = (let kiosk = kioskValue (rq_form q ''kiosk''); nxt = nextValue (rq_form q ''next'') in
     case r of
       LoggedIn cookie \<Rightarrow> Redirect (if nxt \<noteq> [] then ''/link'' else if kiosk \<noteq> [] then ''/?kiosk='' @ kiosk else ''/'') cookie
     | NowBanned b \<Rightarrow> Banned b
     | StillBanned b \<Rightarrow> Banned b
     | WrongPassword left \<Rightarrow> LoginPage 401 kiosk nxt (Some left))"

definition post_login :: "world \<Rightarrow> request \<Rightarrow> client \<Rightarrow> bool \<Rightarrow> hub \<Rightarrow> answer \<times> hub" where
  "post_login w q c wl h = (case login_finish (w_lcrypto w) (w_lenv w) (cl_ip c) wl (form q ''username'') (form q ''password'') (w_now w) (hb_gate h) of
      (r, g) \<Rightarrow> (login_answer q r, h\<lparr>hb_gate := g\<rparr>))"

text \<open>The pages, after the login form and the logout.\<close>

definition pages :: "world \<Rightarrow> request \<Rightarrow> client \<Rightarrow> bool \<Rightarrow> hub \<Rightarrow> answer \<times> hub" where
  "pages w q c wl h = (let p = url_path (rq_url q); a = authed w q h in
     if rq_method q = ''GET'' \<and> p \<in> set PUBLIC_FILES then (Static, h)
     else if p = ''/link'' then
       (if a then linkRoute w q c h else if rq_method q = ''POST'' then (PlainText 401 ''login required'', h) else (LoginPage 200 [] ''link'' None, h))
     else if a \<and> rq_method q = ''GET'' \<and> p = ''/config.json'' then get_config w h
     else if a \<and> rq_method q = ''GET'' \<and> p = ''/data.json'' then get_data h
     else if starts_with ''/__ctl/'' (rq_url q) then (if a then ctl w q c wl h else (PlainText 401 ''login required'', h))
     else if a then (Static, h)
     else (LoginPage 200 (kioskFromUrl (rq_url q)) [] None, h))"

text \<open>
  \<^verbatim>\<open>handle\<close>. The agents' requests other than linking are the steps \<open>agent_arrives\<close> and \<open>agent_body\<close>.
\<close>

definition handle_request :: "world \<Rightarrow> request \<Rightarrow> hub \<Rightarrow> answer \<times> hub" where
  "handle_request w q h0 =
    (let c = resolveClient (w_trusted w) (w_fwd w) (rq_http q); wl = isWhitelisted c (parseCidrList (w_whitelist w)) in
     if starts_with ''/api/v1/link/'' (rq_url q) then handleLinkApi w q c h0
     else if starts_with ''/api/v1/'' (rq_url q) then (AgentApi, h0)
     else case (if wl then (None, hb_gate h0) else banInfo (cl_ip c) (w_now w) (hb_gate h0)) of
       (Some b, g) \<Rightarrow> (Banned b, h0\<lparr>hb_gate := g\<rparr>)
     | (None, g) \<Rightarrow> (let h = h0\<lparr>hb_gate := g\<rparr> in
         if rq_url q = ''/__auth/health'' then (PlainText 200 ''ok'', h)
         else if state_change q \<and> \<not> own_origin w q c then (PlainText 403 ''cross-origin request refused'', h)
         else if rq_method q = ''POST'' \<and> rq_url q = ''/__auth/login'' then post_login w q c wl h
         else if rq_url q = ''/__auth/logout'' then (if rq_method q \<noteq> ''POST'' then (PlainText 405 ''POST only'', h) else (Redirect ''/'' [], h))
         else pages w q c wl h))"

section \<open>A world and a hub to try things on\<close>

definition demo_world :: world where
  "demo_world = \<lparr>w_now = 1000, w_start = 0, w_whitelist = [''192.168.0.0/16''], w_trusted = [], w_fwd = XForwardedFor,
     w_public = [], w_url_host = (\<lambda>u. Some (drop 7 u)), w_lan_only = True, w_loopback = False, w_lenv = demo_lenv, w_lcrypto = demo_lcrypto,
     w_agent = demo_crypto, w_pcrypto = demo_pcrypto, w_dir = NoDir, w_show = (\<lambda>_. []), w_lt = (\<lambda>t. (0, [])),
     w_txn = (\<lambda>k s. s), w_http_url = (\<lambda>_. True), w_mtime = 6, w_salt = [], w_hash = (\<lambda>s. s), w_ids = [], w_device = [], w_codes = [],
     w_try = (\<lambda>c m. None), w_docker = (\<lambda>m p. (204, [])), w_vapid = None, w_short = (\<lambda>s. s), w_f32 = (\<lambda>x. x),
     w_name_of = (\<lambda>s. None), w_decode = Some, w_utf8 = (\<lambda>s. s), w_collate = (\<lambda>s. s)\<rparr>"

definition demo_hub :: hub where
  "demo_hub = \<lparr>hb_gate = demo_gate, hb_nodes = demo_store, hb_api = createAgentApi [], hb_links = createLinks,
     hb_latest = [(''abcdefghijkl'', \<lparr>sr_snap = JObj [], sr_view = JObj [], sr_at = 900\<rparr>)],
     hb_snapfiles = [(''abcdefghijkl'', \<lparr>sr_snap = JObj [], sr_view = JObj [], sr_at = 900\<rparr>)],
     hb_alerts = createAlerts DEFAULT_RULES \<lparr>instances = [], running = [], mute_rules = [], mute_nodes = []\<rparr> [] 0,
     hb_notify = createNotifier (\<lambda>_. True) None ([], [], None), hb_hist = empty_hist, hb_rules = [], hb_ignored = [],
     hb_config = None, hb_push = \<lparr>pt_subs = [], pt_file = []\<rparr>, hb_confd = new_confd, hb_docker = []\<rparr>"

definition demo_request :: "string \<Rightarrow> string \<Rightarrow> jsval \<Rightarrow> request" where
  "demo_request m u b = \<lparr>rq_http = demo_req, rq_method = m, rq_url = u, rq_cookie = None, rq_json = Some b,
     rq_form = (\<lambda>_. None), rq_query = (\<lambda>_. None), rq_forwarded = False\<rparr>"

end
