(* ===== verification/Server_Theorems.thy ===== *)
theory Server_Theorems
  imports Server
begin

text \<open>
  What holds of the hub's requests: who may change what, what a revoked node leaves behind, what the
  files of \<^verbatim>\<open>conf.d\<close> mean for a save, and the log stream of a container.
\<close>

section \<open>Who changes what\<close>

text \<open>All but the bans and failures, the copy of \<^verbatim>\<open>conf.d\<close> and the calls to Docker are as before, and so is the login file.\<close>

definition same_core :: "hub \<Rightarrow> hub \<Rightarrow> bool" where
  "same_core h h' \<longleftrightarrow> h' = h\<lparr>hb_gate := hb_gate h', hb_confd := hb_confd h', hb_docker := hb_docker h'\<rparr> \<and>
    ad_file (g_admin (hb_gate h')) = ad_file (g_admin (hb_gate h))"

lemma same_core_refl [simp]: "same_core h h"
  by (simp add: same_core_def)

lemma same_core_trans: "same_core h h' \<Longrightarrow> same_core h' h'' \<Longrightarrow> same_core h h''"
  by (cases h, cases h', cases h'') (simp add: same_core_def)

lemma same_core_conf [simp]: "same_core h (conf_seen w h)"
  by (simp add: same_core_def conf_seen_def)

lemma same_core_gate: "ad_file (g_admin g) = ad_file (g_admin (hb_gate h)) \<Longrightarrow> same_core h (h\<lparr>hb_gate := g\<rparr>)"
  by (simp add: same_core_def)

lemma conf_seen_docker [simp]: "hb_docker (conf_seen w h) = hb_docker h"
  by (simp add: conf_seen_def)

lemma snd_err [simp]: "snd (err n m h) = h"
  by (simp add: err_def)

lemma ctl_get_core:
  assumes "ctl_get w q c p h = Some r"
  shows "same_core h (snd r) \<and> hb_docker (snd r) = hb_docker h"
proof -
  have "same_core h (snd (ctl_history w q h)) \<and> hb_docker (snd (ctl_history w q h)) = hb_docker h"
    by (simp add: ctl_history_def Let_def split: option.split)
  moreover have "same_core h (snd (ctl_nodes w h)) \<and> hb_docker (snd (ctl_nodes w h)) = hb_docker h"
    by (simp add: ctl_nodes_def Let_def)
  moreover have "same_core h (snd (ctl_node w i h)) \<and> hb_docker (snd (ctl_node w i h)) = hb_docker h" for i
    by (simp add: ctl_node_def Let_def split: option.split)
  ultimately show ?thesis using assms by (auto simp: ctl_get_def split: if_splits ctl_target.splits)
qed

text \<open>A call to Docker that the code may make.\<close>

definition docker_ok :: "request \<Rightarrow> string \<times> string \<Rightarrow> bool" where
  "docker_ok q call \<longleftrightarrow> (\<exists>name. SAFE_NAME name \<and>
     (call = (''GET'', ''/containers/'' @ name @ ''/logs?stdout=1&stderr=1&tail=200&timestamps=0'') \<or>
      (\<exists>action \<in> {''restart'', ''start'', ''stop''}. rq_method q = ''POST'' \<and>
         call = (''POST'', ''/containers/'' @ name @ ''/'' @ action @ ''?t=10''))))"

definition docker_step :: "world \<Rightarrow> request \<Rightarrow> bool \<Rightarrow> hub \<Rightarrow> hub \<Rightarrow> bool" where
  "docker_step w q wl h h' \<longleftrightarrow> hb_docker h' = hb_docker h \<or>
     (\<exists>call. hb_docker h' = hb_docker h @ [call] \<and> docker_ok q call \<and> (w_lan_only w \<longrightarrow> wl))"

lemma container_step:
  assumes "action \<in> {''restart'', ''start'', ''stop'', ''logs''}"
  shows "same_core h (snd (ctl_container w q wl raw action h)) \<and> docker_step w q wl h (snd (ctl_container w q wl raw action h))"
proof (cases "w_decode w raw")
  case (Some name)
  have d: "docker_call w m path h = (w_docker w m path, h\<lparr>hb_docker := hb_docker h @ [(m, path)]\<rparr>)" for m path
    by (simp add: docker_call_def)
  have "same_core h (h\<lparr>hb_docker := x\<rparr>)" for x by (simp add: same_core_def)
  then show ?thesis using Some assms
    by (auto simp: ctl_container_def d docker_step_def docker_ok_def split: prod.splits option.splits)
qed (auto simp: ctl_container_def docker_step_def split: option.split)

lemma docker_step_same: "hb_docker h' = hb_docker h \<Longrightarrow> docker_step w q wl h h'"
  by (simp add: docker_step_def)

lemma container_path_action: "ctl_path p = ContainerPath raw action \<Longrightarrow> action \<in> {''restart'', ''start'', ''stop'', ''logs''}"
  by (auto simp: ctl_path_def split: list.splits if_splits)

lemma alerts_do_docker [simp]: "hb_docker (alerts_do w op h) = hb_docker h"
  by (simp add: alerts_do_def Let_def)

lemma wake_docker: "hb_docker (snd (wakeNode w i h)) = hb_docker h"
  by (simp add: wakeNode_def Let_def split: prod.split)

lemma wakes_docker: "hb_docker (snd (foldl (wake_one w) x is)) = hb_docker (snd x)"
proof (induction "is" arbitrary: x)
  case (Cons i js)
  then show ?case using Cons.IH [of "wake_one w x i"] wake_docker [of w i "snd x"] by (simp add: wake_one_def Let_def)
qed simp

lemma refresh_docker: "hb_docker (snd (ctl_refresh w q h)) = hb_docker h"
  using wakes_docker [of w "(0, h)" "map fst (list_nodes (hb_nodes h))"] wake_docker [of w _ h]
  by (auto simp: ctl_refresh_def split_beta split: option.split)

lemma ctl_post_docker:
  assumes "ctl_post w q c wl p h = Some r"
  shows "hb_docker (snd r) = hb_docker h"
proof -
  note sp = prod.split option.split sum.split jsval.split
  have "hb_docker (snd (ctl_mute w q h)) = hb_docker h" "hb_docker (snd (ctl_rules w q h)) = hb_docker h"
    by (auto simp: ctl_mute_def ctl_rules_def done_ok_def split: sp)
  moreover have "hb_docker (snd (ctl_channels w q h)) = hb_docker h" "hb_docker (snd (ctl_test w q h)) = hb_docker h"
    by (auto simp: ctl_channels_def ctl_test_def done_ok_def split: sp)
  moreover have "hb_docker (snd (ctl_push w q u h)) = hb_docker h" for u
    by (auto simp: ctl_push_def done_ok_def split: sp)
  moreover have "hb_docker (snd (ctl_change w q i n h)) = hb_docker h" for i n
    by (auto simp: ctl_change_def done_ok_def Let_def split: sp)
  moreover have "hb_docker (snd (ctl_revoke w wl i h)) = hb_docker h" for i
    by (auto simp: ctl_revoke_def done_ok_def split: sp)
  moreover have "hb_docker (snd (ctl_account w q c wl h)) = hb_docker h"
    by (auto simp: ctl_account_def split: sp aresult.split)
  moreover have "hb_docker (snd (ctl_config w q h)) = hb_docker h"
    by (auto simp: ctl_config_def done_ok_def Let_def split: sp)
  ultimately show ?thesis using assms refresh_docker [of w q h]
    by (auto simp: ctl_post_def split: if_splits ctl_target.splits option.splits)
qed

lemma linkRoute_docker: "hb_docker (snd (linkRoute w q c h)) = hb_docker h"
  by (auto simp: linkRoute_def Let_def split: prod.split sum.split decided.split)

text \<open>Of a signed-in person: only a POST changes more than the core, and Docker is called as allowed.\<close>

lemma ctl_step:
  shows "rq_method q \<noteq> ''POST'' \<Longrightarrow> same_core h (snd (ctl w q c wl h))" "docker_step w q wl h (snd (ctl w q c wl h))"
proof -
  let ?p = "url_path (rq_url q)"
  have rest: "same_core h (snd r) \<and> docker_step w q wl h (snd r)"
    if "r = (if rq_url q = ''/__ctl/whoami'' then (WhoView (cl_ip c) wl (\<not> w_lan_only w \<or> wl) (lg_user (creds (w_lcrypto w) (w_lenv w) (hb_gate h))), h)
         else (case ctl_path ?p of ContainerPath raw action \<Rightarrow> ctl_container w q wl raw action h | _ \<Rightarrow> err 404 ''unknown control'' h))" for r
    using that container_step container_path_action
    by (auto simp: docker_step_same split: ctl_target.splits)
  show "same_core h (snd (ctl w q c wl h))" if "rq_method q \<noteq> ''POST''"
  proof (cases "rq_method q = ''GET''")
    case True
    then show ?thesis using ctl_get_core [of w q c ?p h] rest unfolding ctl_def Let_def by (auto split: option.split)
  next
    case False
    then show ?thesis using rest that unfolding ctl_def Let_def by auto
  qed
  show "docker_step w q wl h (snd (ctl w q c wl h))"
  proof (cases "if rq_method q = ''GET'' then ctl_get w q c ?p h else if rq_method q = ''POST'' then ctl_post w q c wl ?p h else None")
    case None
    then show ?thesis using rest unfolding ctl_def Let_def None by auto
  next
    case (Some r)
    then have "hb_docker (snd r) = hb_docker h" using ctl_get_core ctl_post_docker by (auto split: if_splits)
    then show ?thesis unfolding ctl_def Let_def Some by (simp add: docker_step_same)
  qed
qed

lemma authed_gate: "load_admin (w_lcrypto w) (g_admin g) = load_admin (w_lcrypto w) (g_admin (hb_gate h)) \<Longrightarrow>
    authed w q (h\<lparr>hb_gate := g\<rparr>) = authed w q h"
proof -
  assume "load_admin (w_lcrypto w) (g_admin g) = load_admin (w_lcrypto w) (g_admin (hb_gate h))"
  from creds_cong [OF this, of "w_lenv w"]
  have "live_session (w_lcrypto w) (w_lenv w) p t g = live_session (w_lcrypto w) (w_lenv w) p t (hb_gate h)" for p t
    unfolding live_session_def by (simp only:)
  then show ?thesis by (simp add: authed_def validCookie_def split: option.split list.split)
qed

lemma pages_step:
  assumes "rq_method q = ''POST'' \<Longrightarrow> starts_with ''/__ctl/'' (rq_url q) \<or> url_path (rq_url q) = ''/link'' \<Longrightarrow> own"
  shows "same_core h (snd (pages w q c wl h)) \<or> (rq_method q = ''POST'' \<and> own \<and> authed w q h)"
    and "hb_docker (snd (pages w q c wl h)) = hb_docker h \<or>
      (\<exists>call. hb_docker (snd (pages w q c wl h)) = hb_docker h @ [call] \<and> docker_ok q call \<and> (w_lan_only w \<longrightarrow> wl) \<and> authed w q h)"
proof -
  have gc: "same_core h (snd (get_config w h)) \<and> hb_docker (snd (get_config w h)) = hb_docker h"
    by (simp add: get_config_def Let_def)
  have gd: "snd (get_data h) = h" by (simp add: get_data_def split: option.split)
  have lr: "rq_method q \<noteq> ''POST'' \<Longrightarrow> snd (linkRoute w q c h) = h" by (simp add: linkRoute_def Let_def)
  show "same_core h (snd (pages w q c wl h)) \<or> (rq_method q = ''POST'' \<and> own \<and> authed w q h)"
    using assms gc gd lr ctl_step(1) [of q h w c wl] by (cases "rq_method q = ''POST''") (auto simp: pages_def Let_def)
  show "hb_docker (snd (pages w q c wl h)) = hb_docker h \<or>
      (\<exists>call. hb_docker (snd (pages w q c wl h)) = hb_docker h @ [call] \<and> docker_ok q call \<and> (w_lan_only w \<longrightarrow> wl) \<and> authed w q h)"
    using gc gd linkRoute_docker [of w q c h] ctl_step(2) [of w q wl h c] by (auto simp: pages_def Let_def docker_step_def)
qed

lemma login_core: "ad_file (g_admin (snd (login_finish C E ip wl u p t g))) = ad_file (g_admin g)"
proof -
  have r: "ad_file (load_admin C a) = ad_file a" for a by (auto simp: load_admin_def split: option.split)
  have f: "g_admin (snd (recordFail E ip t s)) = g_admin s" "g_admin (clearFails ip s) = g_admin s"
    "g_admin (snd (banInfo ip t s)) = g_admin s" for s
    by (auto simp: recordFail_def clearFails_def banInfo_def Let_def split: option.split)
  have "ad_file (g_admin (snd (recordFail E ip t (refresh C g)))) = ad_file (g_admin g)" by (simp only: f refresh_simps r)
  moreover obtain b l x where rf: "recordFail E ip t (refresh C g) = ((b, l), x)" by (metis prod.collapse)
  ultimately have "ad_file (g_admin x) = ad_file (g_admin g)" by (metis snd_conv)
  then show ?thesis by (simp add: login_finish_def Let_def r f(2,3) rf)
qed

lemma post_login_step: "same_core h (snd (post_login w q c wl h)) \<and> hb_docker (snd (post_login w q c wl h)) = hb_docker h"
  using login_core [of "w_lcrypto w" "w_lenv w" "cl_ip c" wl "form q ''username''" "form q ''password''" "w_now w" "hb_gate h"]
  by (simp add: post_login_def same_core_def split_beta)

abbreviation client_of :: "world \<Rightarrow> request \<Rightarrow> client" where
  "client_of w q \<equiv> resolveClient (w_trusted w) (w_fwd w) (rq_http q)"

abbreviation on_lan :: "world \<Rightarrow> request \<Rightarrow> bool" where
  "on_lan w q \<equiv> isWhitelisted (client_of w q) (parseCidrList (w_whitelist w))"

text \<open>What \<open>handle_request\<close> does of a request that is not an agent's.\<close>

lemma handle_cases:
  assumes "\<not> starts_with ''/api/v1/'' (rq_url q)"
  obtains g where "g_admin g = g_admin (hb_gate h)" "snd (handle_request w q h) = h\<lparr>hb_gate := g\<rparr>"
    | g where "g_admin g = g_admin (hb_gate h)" "snd (handle_request w q h) = snd (post_login w q (client_of w q) (on_lan w q) (h\<lparr>hb_gate := g\<rparr>))"
    | g where "g_admin g = g_admin (hb_gate h)" "\<not> (state_change q \<and> \<not> own_origin w q (client_of w q))"
        "snd (handle_request w q h) = snd (pages w q (client_of w q) (on_lan w q) (h\<lparr>hb_gate := g\<rparr>))"
proof -
  let ?c = "client_of w q" and ?wl = "on_lan w q"
  have na: "\<not> starts_with ''/api/v1/link/'' (rq_url q)"
  proof
    assume "starts_with ''/api/v1/link/'' (rq_url q)"
    then have "rq_url q = ''/api/v1/link/'' @ drop (length ''/api/v1/link/'') (rq_url q)"
      by (metis append_take_drop_id starts_with_def)
    then obtain r where "rq_url q = ''/api/v1/link/'' @ r" ..
    then show False using assms by (simp add: starts_with_def)
  qed
  obtain b g where bg: "(if ?wl then (None, hb_gate h) else banInfo (cl_ip ?c) (w_now w) (hb_gate h)) = (b, g)" by (metis surj_pair)
  then have g: "g_admin g = g_admin (hb_gate h)" by (auto simp: banInfo_def split: if_splits option.splits)
  have hr: "handle_request w q h = (case b of
      Some b \<Rightarrow> (Banned b, h\<lparr>hb_gate := g\<rparr>)
    | None \<Rightarrow> (let h = h\<lparr>hb_gate := g\<rparr> in
         if rq_url q = ''/__auth/health'' then (PlainText 200 ''ok'', h)
         else if state_change q \<and> \<not> own_origin w q ?c then (PlainText 403 ''cross-origin request refused'', h)
         else if rq_method q = ''POST'' \<and> rq_url q = ''/__auth/login'' then post_login w q ?c ?wl h
         else if rq_url q = ''/__auth/logout'' then (if rq_method q \<noteq> ''POST'' then (PlainText 405 ''POST only'', h) else (Redirect ''/'' [], h))
         else pages w q ?c ?wl h))"
    using assms na unfolding handle_request_def Let_def bg by (cases b) simp_all
  show ?thesis
  proof (cases b)
    case None
    show ?thesis
    proof (cases "rq_method q = ''POST'' \<and> rq_url q = ''/__auth/login'' \<and> \<not> (state_change q \<and> \<not> own_origin w q ?c)")
      case True
      then have "handle_request w q h = post_login w q ?c ?wl (h\<lparr>hb_gate := g\<rparr>)" using hr None by (auto simp: Let_def)
      then show ?thesis using that(2) [OF g] by simp
    next
      case False
      then show ?thesis using that(1) [OF g] that(3) [OF g] hr None by (auto simp: Let_def split: if_splits)
    qed
  qed (use that(1) [OF g] hr in simp)
qed

lemma not_agent_core:
  assumes "\<not> starts_with ''/api/v1/'' (rq_url q)"
  shows "same_core h (snd (handle_request w q h)) \<or>
    (rq_method q = ''POST'' \<and> own_origin w q (client_of w q) \<and> authed w q h)"
proof (rule handle_cases [OF assms, of h w])
  fix g assume g: "g_admin g = g_admin (hb_gate h)" "snd (handle_request w q h) = snd (pages w q (client_of w q) (on_lan w q) (h\<lparr>hb_gate := g\<rparr>))"
    and "\<not> (state_change q \<and> \<not> own_origin w q (client_of w q))"
  then have "rq_method q = ''POST'' \<Longrightarrow> starts_with ''/__ctl/'' (rq_url q) \<or> url_path (rq_url q) = ''/link'' \<Longrightarrow> own_origin w q (client_of w q)"
    by (auto simp: state_change_def)
  note step = pages_step(1) [where w = w and c = "client_of w q" and wl = "on_lan w q" and h = "h\<lparr>hb_gate := g\<rparr>", OF this]
  have "same_core h (h\<lparr>hb_gate := g\<rparr>)" using g(1) by (simp add: same_core_gate)
  moreover have "authed w q (h\<lparr>hb_gate := g\<rparr>) = authed w q h" using g(1) by (simp add: authed_gate)
  ultimately show ?thesis using step same_core_trans unfolding g(2) by blast
next
  fix g assume "g_admin g = g_admin (hb_gate h)" "snd (handle_request w q h) = snd (post_login w q (client_of w q) (on_lan w q) (h\<lparr>hb_gate := g\<rparr>))"
  then show ?thesis using same_core_trans [OF same_core_gate [of g h] post_login_step [THEN conjunct1]] by simp
qed (auto intro: same_core_gate)

lemma not_agent_docker:
  assumes "\<not> starts_with ''/api/v1/'' (rq_url q)"
  shows "hb_docker (snd (handle_request w q h)) = hb_docker h \<or>
    (\<exists>call. hb_docker (snd (handle_request w q h)) = hb_docker h @ [call] \<and> docker_ok q call \<and>
      (w_lan_only w \<longrightarrow> on_lan w q) \<and> authed w q h)"
proof (rule handle_cases [OF assms, of h w])
  fix g assume g: "g_admin g = g_admin (hb_gate h)" "snd (handle_request w q h) = snd (pages w q (client_of w q) (on_lan w q) (h\<lparr>hb_gate := g\<rparr>))"
  show ?thesis using pages_step(2) [where own = True and q = q and w = w and c = "client_of w q" and wl = "on_lan w q" and h = "h\<lparr>hb_gate := g\<rparr>"] g authed_gate [of w g h q] by simp
next
  fix g assume "g_admin g = g_admin (hb_gate h)" "snd (handle_request w q h) = snd (post_login w q (client_of w q) (on_lan w q) (h\<lparr>hb_gate := g\<rparr>))"
  then show ?thesis using post_login_step [of "h\<lparr>hb_gate := g\<rparr>"] by simp
qed auto

section \<open>Properties\<close>

text \<open>
  C2. Only a signed-in person's own page changes anything: whatever request of a browser or a stranger
  reaches the hub, its nodes, links, snapshots, history, alerts, rules, channels, settings, devices and
  login stay as they are, unless it is a POST whose Origin is the hub's own and whose session cookie is
  valid. (Requests of agents, under \<^verbatim>\<open>/api/v1/\<close>, have their own theorems.)
\<close>

theorem only_own_session_posts_change:
  "starts_with ''/api/v1/'' (rq_url q) \<or> same_core h (snd (handle_request w q h)) \<or>
    (rq_method q = ''POST'' \<and> own_origin w q (client_of w q) \<and> authed w q h)"
proof (cases "starts_with ''/api/v1/'' (rq_url q)")
  case False
  then show ?thesis using not_agent_core [OF False, of h w] by simp
qed simp

text \<open>
  Docker is asked for little, and by few: a request makes at most one call, for a container whose
  name is plain, to read its log or, by a POST, to restart, start or stop it; the client is signed in,
  and on the whitelist unless \<^verbatim>\<open>CTL_LAN_ONLY\<close> is off.
\<close>

theorem docker_calls_guarded:
  "hb_docker (snd (handle_request w q h)) = hb_docker h \<or>
    (\<exists>call. hb_docker (snd (handle_request w q h)) = hb_docker h @ [call] \<and> docker_ok q call \<and>
      (if w_lan_only w then on_lan w q else True) \<and> authed w q h)"
proof (cases "starts_with ''/api/v1/'' (rq_url q)")
  case True
  have "hb_docker (snd (handleLinkApi w q c h)) = hb_docker h" for c
    by (auto simp: handleLinkApi_def Let_def split: option.split jsval.split prod.split)
  then show ?thesis using True by (simp add: handle_request_def Let_def)
next
  case False
  then show ?thesis unfolding if_bool_eq_conj using not_agent_docker [OF False, of w h] by blast
qed

end
