(* ===== verification/Settings_Theorems.thy ===== *)
theory Settings_Theorems
  imports Server
begin

text \<open>
  The dashboard's settings and the files of \<^verbatim>\<open>conf.d\<close>: what a save keeps of a value a file sets
  (\<^verbatim>\<open>POST /__ctl/config\<close>), and what the page then reads (\<^verbatim>\<open>GET /config.json\<close>), both in
  \<^verbatim>\<open>src/hub/server.js\<close>.
\<close>

section \<open>Paths of managed values\<close>

definition path_of :: "string \<Rightarrow> string \<times> string option" where
  "path_of p = (case split_on (CHR ''.'') p of [] \<Rightarrow> ([], None) | [k] \<Rightarrow> (k, None) | k # n # _ \<Rightarrow> (k, Some n))"

lemma path_of_key: "CHR ''.'' \<notin> set k \<Longrightarrow> path_of k = (k, None)"
  by (simp add: path_of_def split_on_no_sep)

lemma path_of_nested: "CHR ''.'' \<notin> set k \<Longrightarrow> CHR ''.'' \<notin> set n \<Longrightarrow> path_of (k @ ''.'' @ n) = (k, Some n)"
  using split_on_pair [of "CHR ''.''" k n] by (simp add: path_of_def)

lemma split_on_dot_cases:
  obtains k where "split_on (CHR ''.'') p = [k]" "path_of p = (k, None)"
    | k n r where "split_on (CHR ''.'') p = k # n # r" "path_of p = (k, Some n)"
  by (cases "split_on (CHR ''.'') p"; cases "tl (split_on (CHR ''.'') p)") (auto simp: path_of_def)

lemma managed_paths:
  assumes "list_all setting_ok s" "p \<in> set (managed_of s)"
  shows "\<exists>k v. (k, v) \<in> set s \<and> (if k \<in> set NESTED then \<exists>n x. (n, x) \<in> set (members_of v) \<and> path_of p = (k, Some n) else path_of p = (k, None))"
proof -
  obtain k v where kv: "(k, v) \<in> set s" "p \<in> set (if k \<in> set NESTED then map (\<lambda>m. k @ ''.'' @ fst m) (members_of v) else [k])"
    using assms(2) by (auto simp: managed_of_def)
  have ok: "setting_ok (k, v)" using list_allD [OF assms(1) kv(1)] .
  note dots = no_dots [OF ok]
  show ?thesis
  proof (cases "k \<in> set NESTED")
    case True
    then obtain n x where "(n, x) \<in> set (members_of v)" "p = k @ ''.'' @ n" using kv(2) by auto
    then show ?thesis using kv(1) True path_of_nested [OF dots(1) dots(2) [OF True]] by auto
  next
    case False
    then show ?thesis using kv path_of_key [OF dots(1)] by auto
  qed
qed

lemma managed_has:
  assumes "list_all setting_ok s" "(k, v) \<in> set s"
  shows "k \<notin> set NESTED \<Longrightarrow> (k, None) \<in> path_of ` set (managed_of s)"
    "k \<in> set NESTED \<Longrightarrow> (n, x) \<in> set (members_of v) \<Longrightarrow> (k, Some n) \<in> path_of ` set (managed_of s)"
proof -
  note dots = no_dots [OF list_allD [OF assms]]
  show "(k, None) \<in> path_of ` set (managed_of s)" if "k \<notin> set NESTED"
  proof -
    have "k \<in> set (managed_of s)" using that assms(2) by (force simp: managed_of_def)
    then show ?thesis using path_of_key [OF dots(1)] by (metis imageI)
  qed
  show "(k, Some n) \<in> path_of ` set (managed_of s)" if "k \<in> set NESTED" "(n, x) \<in> set (members_of v)"
  proof -
    have "k @ ''.'' @ n \<in> set (managed_of s)" using that assms(2) by (force simp: managed_of_def)
    then show ?thesis using path_of_nested [OF dots(1) dots(2) [OF that]] by (metis imageI)
  qed
qed

section \<open>What a save keeps\<close>

definition old_at :: "string \<Rightarrow> jsval \<Rightarrow> jsval option" where
  "old_at k before = (if fld k before = JUndef then None else Some (fld k before))"

lemma keep_key:
  assumes "path_of p = (k, None)"
  shows "map_of (keep_managed before obj p) k = old_at k before" "k' \<noteq> k \<Longrightarrow> map_of (keep_managed before obj p) k' = map_of obj k'"
  using assms by (cases rule: split_on_dot_cases [of p]; simp add: keep_managed_def old_at_def)+

lemma keep_nested:
  assumes "path_of p = (k, Some n)"
  shows "k' \<noteq> k \<Longrightarrow> map_of (keep_managed before obj p) k' = map_of obj k'"
    "map_of obj k = Some (JObj t) \<Longrightarrow> \<exists>t'. map_of (keep_managed before obj p) k = Some (JObj t') \<and>
       map_of t' n = old_at n (fld k before) \<and> (\<forall>n'. n' \<noteq> n \<longrightarrow> map_of t' n' = map_of t n')"
  using assms by (cases rule: split_on_dot_cases [of p]; auto simp: keep_managed_def old_at_def Let_def split: option.split jsval.split)+

lemma keeps_key:
  assumes "(k, None) \<in> path_of ` set ps" "\<And>n. (k, Some n) \<notin> path_of ` set ps"
  shows "map_of (foldl (keep_managed before) obj ps) k = old_at k before"
  using assms
proof (induction ps rule: rev_induct)
  case (snoc p ps)
  show ?case
  proof (cases "path_of p = (k, None)")
    case True
    then show ?thesis using keep_key(1) by simp
  next
    case False
    then have "map_of (foldl (keep_managed before) obj ps) k = old_at k before" using snoc.IH snoc.prems by force
    moreover obtain k' m where p: "path_of p = (k', m)" by (cases "path_of p")
    moreover have "k' \<noteq> k" using False snoc.prems(2) p by (cases m) force+
    ultimately show ?thesis using keep_key(2) [of p k' k] keep_nested(1) [of p k' _ k] by (cases m) simp_all
  qed
qed simp

lemma keeps_nested:
  assumes "(k, None) \<notin> path_of ` set ps" "map_of obj k = Some (JObj t)"
  shows "\<exists>t'. map_of (foldl (keep_managed before) obj ps) k = Some (JObj t') \<and>
    (\<forall>n. (k, Some n) \<in> path_of ` set ps \<longrightarrow> map_of t' n = old_at n (fld k before))"
  using assms
proof (induction ps rule: rev_induct)
  case (snoc p ps)
  obtain t1 where t1: "map_of (foldl (keep_managed before) obj ps) k = Some (JObj t1)"
      "\<forall>n. (k, Some n) \<in> path_of ` set ps \<longrightarrow> map_of t1 n = old_at n (fld k before)"
    using snoc by auto
  obtain k' m where p: "path_of p = (k', m)" by (cases "path_of p")
  show ?case
  proof (cases "k' = k")
    case False
    then have "map_of (keep_managed before (foldl (keep_managed before) obj ps) p) k = Some (JObj t1)"
      using t1(1) keep_key(2) [of p k' k] keep_nested(1) [of p k' _ k] p by (cases m) simp_all
    then show ?thesis using t1(2) p False by auto
  next
    case True
    then obtain n where m: "m = Some n" using snoc.prems(1) p by (cases m) auto
    obtain t2 where "map_of (keep_managed before (foldl (keep_managed before) obj ps) p) k = Some (JObj t2)"
        "map_of t2 n = old_at n (fld k before)" "\<forall>n'. n' \<noteq> n \<longrightarrow> map_of t2 n' = map_of t1 n'"
      using keep_nested(2) [of p k n _ t1] t1(1) p True m by blast
    then show ?thesis using t1(2) p True m by auto
  qed
qed simp

section \<open>What the page reads\<close>

lemma confd_again: "fst (confd_get f d t (snd (confd_get f d t s))) = fst (confd_get f d t s)"
proof -
  have w: "cd_current (foldl warn_bad x es) = cd_current x \<and> cd_checked (foldl warn_bad x es) = cd_checked x" for x es
  proof (induction es arbitrary: x)
    case (Cons e es)
    have "cd_current (warn_bad x e) = cd_current x \<and> cd_checked (warn_bad x e) = cd_checked x"
      by (simp add: warn_bad_def split: prod.split option.split)
    then show ?case using Cons.IH [of "warn_bad x e"] by simp
  qed simp
  show ?thesis
  proof (cases "cd_current s = None \<or> cd_checked s = None")
    case True
    then show ?thesis by (cases "cd_current s"; cases "cd_checked s") (simp_all add: confd_get_def Let_def w CHECK_EVERY_MS_def)
  next
    case False
    then obtain c l where "cd_current s = Some c" "cd_checked s = Some l" by auto
    then show ?thesis by (simp add: confd_get_def Let_def w CHECK_EVERY_MS_def)
  qed
qed

lemma conf_of_seen: "hb_confd h' = hb_confd (conf_seen w h) \<Longrightarrow> conf_of w h' = conf_of w h"
  by (simp add: conf_of_def conf_seen_def confd_again)

definition laid_over :: "jsval \<Rightarrow> jsval option \<Rightarrow> jsval" where
  "laid_over v u = (case (v, u) of (JObj t, Some (JObj u)) \<Rightarrow> JObj (spread u t) | _ \<Rightarrow> v)"

lemma overlay_at: "distinct (map fst s) \<Longrightarrow> map_of (foldl overlay out s) k = (case map_of s k of None \<Rightarrow> map_of out k | Some v \<Rightarrow> Some (laid_over v (map_of out k)))"
proof (induction s arbitrary: out)
  case (Cons kv s)
  obtain k1 v1 where kv: "kv = (k1, v1)" by (cases kv)
  have o': "map_of (overlay out kv) k = (if k = k1 then Some (laid_over v1 (map_of out k)) else map_of out k)"
    by (simp add: kv overlay_def laid_over_def)
  have "map_of s k1 = None" using Cons.prems by (simp add: kv map_of_eq_None_iff)
  then show ?case using Cons.IH [of "overlay out kv"] Cons.prems o' by (cases "k = k1") (simp_all add: kv split: option.split)
qed simp

lemma plain_setting: "setting_ok (k, JObj t) \<Longrightarrow> k \<in> set NESTED"
proof -
  assume ok: "setting_ok (k, JObj t)"
  have plain: "list_all (\<lambda>kc. fst kc \<in> set NESTED \<or> (\<forall>p x. snd kc (JObj t) p \<noteq> Inr x)) SETTINGS"
    by (simp add: SETTINGS_def NESTED_def title_check_def style_check_def in_between_def true_false_def listOf_def one_of_def image_iff)
  obtain c where c: "map_of SETTINGS k = Some c" using setting_okD(1) [OF ok] by (metis map_of_eq_None_iff not_None_eq set_map)
  have "c (JObj t) (''settings.'' @ k) = Inr (JObj t)"
    using setting_okD(2) [OF ok] by (simp add: setting_check_def by_key_def c)
  then show ?thesis using list_allD [OF plain map_of_SomeD [OF c]] by auto
qed

section \<open>Properties\<close>

text \<open>The value of a key, or of a key in a table.\<close>

definition at_path :: "jsval \<Rightarrow> string \<times> string option \<Rightarrow> jsval" where
  "at_path v p = (case p of (k, None) \<Rightarrow> fld k v | (k, Some n) \<Rightarrow> fld n (fld k v))"

definition config_or_empty :: "hub \<Rightarrow> jsval" where
  "config_or_empty h = (case hb_config h of None \<Rightarrow> JObj [] | Some v \<Rightarrow> v)"

lemma config_saved:
  assumes "fst (ctl_config w q h) = Ok r" "rq_json q = Some (JObj body)"
  shows "snd (ctl_config w q h) = (conf_seen w h)\<lparr>hb_config := Some (JObj
    (foldl (keep_managed (config_or_empty h)) (AList.delete ''_managed'' body) (cf_managed (conf_of w h))))\<rparr>"
proof -
  let ?o = "foldl (keep_managed (config_or_empty h)) (AList.delete ''_managed'' body) (cf_managed (conf_of w h))"
  have c: "hb_config (conf_seen w h) = hb_config h" by (simp add: conf_seen_def)
  obtain A B m1 m2 where "ctl_config w q h = (if A then err 400 m1 (conf_seen w h) else if B then err 400 m2 (conf_seen w h)
      else done_ok ((conf_seen w h)\<lparr>hb_config := Some (JObj ?o)\<rparr>))"
    unfolding ctl_config_def assms(2) option.case jsval.case Let_def c config_or_empty_def by blast
  then show ?thesis using assms(1) by (cases A; cases B) (simp_all add: err_def done_ok_def)
qed

text \<open>The paths the files set, with their values.\<close>

definition set_by_files :: "conf \<Rightarrow> string \<times> string option \<Rightarrow> jsval \<Rightarrow> bool" where
  "set_by_files c p x \<longleftrightarrow> (case p of
      (k, None) \<Rightarrow> k \<notin> set NESTED \<and> (k, x) \<in> set (cf_settings c)
    | (k, Some n) \<Rightarrow> k \<in> set NESTED \<and> (\<exists>v. (k, v) \<in> set (cf_settings c) \<and> (n, x) \<in> set (members_of v)))"

text \<open>
  What a file of \<^verbatim>\<open>conf.d\<close> sets never comes from a save: after a save from the page, the file on disk
  has for each managed value what it had before, not what the page sent (for a value in a table, when the page
  sent that table), and what the page reads next is the value of the file.
\<close>

theorem managed_values_survive_save:
  assumes "fst (ctl_config w q h) = Ok r" "rq_json q = Some (JObj body)"
    and "conf_of w h = readConfd (w_show w) d" "set_by_files (conf_of w h) p x"
    and "snd p \<noteq> None \<longrightarrow> is_obj (fld (fst p) (JObj body))"
  shows "at_path (config_or_empty (snd (ctl_config w q h))) p = at_path (config_or_empty h) p \<and>
    (\<exists>out. fst (get_config w (snd (ctl_config w q h))) = Data 200 out \<and> at_path out p = x)"
proof -
  let ?s = "cf_settings (conf_of w h)" and ?h = "snd (ctl_config w q h)" and ?before = "config_or_empty h"
  define obj where "obj = foldl (keep_managed ?before) (AList.delete ''_managed'' body) (managed_of ?s)"
  have ok: "list_all setting_ok ?s" and once: "keys_once ?s" and man: "cf_managed (conf_of w h) = managed_of ?s"
    using readConfd_ok readConfd_keys readConfd_managed by (simp_all add: assms(3))
  have h': "?h = (conf_seen w h)\<lparr>hb_config := Some (JObj obj)\<rparr>"
    using config_saved [OF assms(1,2)] by (simp add: obj_def man)
  have dist: "distinct (map fst ?s)" using once by (simp add: keys_once_def)
  define out where "out = JObj (AList.update ''_managed'' (JArr (map JStr (managed_of ?s))) (foldl overlay obj ?s))"
  have "conf_of w ?h = conf_of w h" by (rule conf_of_seen) (simp add: h')
  then have out: "fst (get_config w ?h) = Data 200 out"
    by (simp add: get_config_def Let_def h' out_def man)
  obtain k n where p: "p = (k, n)" by (cases p)
  obtain v where v: "(k, v) \<in> set ?s" using assms(4) by (cases n) (auto simp: p set_by_files_def)
  have nm: "k \<noteq> ''_managed''" using setting_okD(1) [OF list_allD [OF ok v]] by (auto simp: SETTINGS_def)
  have look: "map_of ?s k = Some v" using v dist by simp
  have read: "fld k out = laid_over v (map_of obj k)" using nm overlay_at [OF dist, of obj k] by (simp add: out_def look)
  have saved: "config_or_empty ?h = JObj obj" by (simp add: h' config_or_empty_def)
  show ?thesis
  proof (cases n)
    case None
    then have kx: "k \<notin> set NESTED" "v = x" using assms(4) v dist by (auto simp: p set_by_files_def dest: eq_key_imp_eq_value)
    have "(k, Some m) \<notin> path_of ` set (managed_of ?s)" for m using managed_paths [OF ok] kx(1) by (fastforce split: if_splits)
    then have "map_of obj k = old_at k ?before"
      unfolding obj_def by (rule keeps_key [OF managed_has(1) [OF ok v kx(1)]])
    moreover have "laid_over v u = v" for u using plain_setting list_allD [OF ok v] kx(1) by (auto simp: laid_over_def split: jsval.split)
    ultimately show ?thesis using out read kx(2) by (auto simp: p None at_path_def saved old_at_def)
  next
    case (Some m)
    then have kn: "k \<in> set NESTED" "(m, x) \<in> set (members_of v)"
      using assms(4) v dist by (auto simp: p set_by_files_def dest: eq_key_imp_eq_value)
    have dv: "distinct (map fst (members_of v))" using once v kn(1) by (auto simp: keys_once_def list_all_iff)
    obtain t0 where t0: "map_of (AList.delete ''_managed'' body) k = Some (JObj t0)"
      using assms(5) nm by (auto simp: p Some is_obj_def split: option.splits jsval.splits)
    have "(k, None) \<notin> path_of ` set (managed_of ?s)" using managed_paths [OF ok] kn(1) by (fastforce split: if_splits)
    from keeps_nested [OF this t0, of ?before] obtain t where t: "map_of obj k = Some (JObj t)" "map_of t m = old_at m (fld k ?before)"
      using managed_has(2) [OF ok v kn] unfolding obj_def by blast
    obtain kvs where kvs: "v = JObj kvs" using nested_obj [OF setting_okD(2) [OF list_allD [OF ok v]] kn(1)] by blast
    have "fld m (fld k out) = x" using kn(2) dv by (simp add: read t(1) kvs laid_over_def spread_distinct map_add_def)
    then show ?thesis using out t by (auto simp: p Some at_path_def saved old_at_def)
  qed
qed

theorem managed_values_survive_save_witness:
  "let w = demo_world\<lparr>w_dir := demo_dir\<rparr>; h = demo_hub\<lparr>hb_config := Some (JObj [(''units'', JObj [(''temp'', JStr ''c'')])])\<rparr>;
       q = demo_request ''POST'' ''/__ctl/config'' (JObj [(''units'', JObj [(''temp'', JStr ''f''), (''rate'', JStr ''bits'')]), (''title'', JStr ''home'')]) in
   at_path (config_or_empty (snd (ctl_config w q h))) (''units'', Some ''temp'') = JStr ''c'' \<and>
   (\<exists>out. fst (get_config w (snd (ctl_config w q h))) = Data 200 out \<and> at_path out (''units'', Some ''temp'') = JStr ''f'')"
proof -
  let ?w = "demo_world\<lparr>w_dir := demo_dir\<rparr>" and ?h = "demo_hub\<lparr>hb_config := Some (JObj [(''units'', JObj [(''temp'', JStr ''c'')])])\<rparr>"
  let ?b = "[(''units'', JObj [(''temp'', JStr ''f''), (''rate'', JStr ''bits'')]), (''title'', JStr ''home'')]"
  let ?q = "demo_request ''POST'' ''/__ctl/config'' (JObj ?b)"
  have ok: "fst (ctl_config ?w ?q ?h) = Ok [(''ok'', JBool True)]" by code_simp
  have b: "rq_json ?q = Some (JObj ?b)" by (simp add: demo_request_def)
  have c: "conf_of ?w ?h = readConfd (w_show ?w) demo_dir"
    by (simp add: conf_of_def confd_get_def new_confd_def demo_hub_def demo_world_def Let_def)
  have "set_by_files (readConfd (w_show ?w) demo_dir) (''units'', Some ''temp'') (JStr ''f'')"
  proof -
    have "cf_settings (readConfd (\<lambda>_. []) demo_dir) = [(''units'', JObj [(''temp'', JStr ''f''), (''clock'', JStr ''24h'')]), (''kiosk'', JBool True)]"
      by code_simp
    then show ?thesis by (simp add: set_by_files_def demo_world_def NESTED_def)
  qed
  then have "set_by_files (conf_of ?w ?h) (''units'', Some ''temp'') (JStr ''f'')" by (simp only: c)
  from managed_values_survive_save [OF ok b c this] show ?thesis
    by (simp add: at_path_def config_or_empty_def demo_hub_def)
qed

end
