(* ===== verification/Hub_Runs.thy ===== *)
theory Hub_Runs
  imports Server
begin

text \<open>
  The hub over time: one step is a request of a person, a part of an agent's request, or one of the
  clock's jobs, each with the world as it is then. The theorem follows a revoked node through every
  sequence of steps.
\<close>

section \<open>Steps\<close>

datatype hub_op =
    Request world request
  | AgentArrives world areq
  | AgentBody world nat "string list option"
  | AgentTimeout world string
  | AgentClosed world nat
  | Minute world
  | Flush world
  | Sweep world

fun hub_step :: "hub \<Rightarrow> hub_op \<Rightarrow> hub" where
  "hub_step h (Request w q) = snd (handle_request w q h)"
| "hub_step h (AgentArrives w q) = agent_arrives w q h"
| "hub_step h (AgentBody w c chunks) = agent_body w c chunks h"
| "hub_step h (AgentTimeout w i) = agent_timeout w i h"
| "hub_step h (AgentClosed w c) = agent_closed w c h"
| "hub_step h (Minute w) = minute_tick w h"
| "hub_step h (Flush w) = historyFlush w h"
| "hub_step h (Sweep w) = historySweep w h"

section \<open>What a request does to the nodes and the snapshots\<close>

definition nodes_run :: "nstore \<Rightarrow> nstore \<Rightarrow> bool" where
  "nodes_run s s' \<longleftrightarrow> (\<exists>ops. s' = foldl node_step s ops)"

lemma nodes_run_refl [simp, intro]: "nodes_run s s"
  by (auto simp: nodes_run_def intro: exI [of _ "[]"])

lemma nodes_run_step: "nodes_run s s' \<Longrightarrow> nodes_run s (node_step s' op)"
  unfolding nodes_run_def by (metis foldl_append foldl_Cons foldl_Nil)

lemma nodes_run_prims:
  "nodes_run s (snd (revoke i m s))" "nodes_run s (snd (rename_node i name m s))" "nodes_run s' s \<Longrightarrow> nodes_run s' (snd (setTags i ts m s))"
  "nodes_run s (snd (approve_add w name tags s r))"
proof -
  show "nodes_run s (snd (revoke i m s))" using nodes_run_step [OF nodes_run_refl, of s "Revoke i m"] by simp
  show "nodes_run s (snd (rename_node i name m s))" using nodes_run_step [OF nodes_run_refl, of s "Rename i name m"] by simp
  show "nodes_run s' s \<Longrightarrow> nodes_run s' (snd (setTags i ts m s))" using nodes_run_step [of s' s "SetTags i ts m"] by simp
  show "nodes_run s (snd (approve_add w name tags s r))"
    using nodes_run_step [OF nodes_run_refl, of s "AddNode name tags (l_secret r) (w_ids w) (w_now w) (w_mtime w)"]
    by (auto simp: approve_add_def split: option.splits)
qed

text \<open>No more nodes with a snapshot than before.\<close>

definition fewer_snaps :: "hub \<Rightarrow> hub \<Rightarrow> bool" where
  "fewer_snaps h h' \<longleftrightarrow> (\<forall>i. map_of (hb_latest h) i = None \<longrightarrow> map_of (hb_latest h') i = None) \<and>
    (\<forall>i. map_of (hb_snapfiles h) i = None \<longrightarrow> map_of (hb_snapfiles h') i = None)"

definition calm :: "hub \<Rightarrow> hub \<Rightarrow> bool" where
  "calm h h' \<longleftrightarrow> nodes_run (hb_nodes h) (hb_nodes h') \<and> fewer_snaps h h'"

lemma calm_same:
  "hb_nodes h' = hb_nodes h \<Longrightarrow> hb_latest h' = hb_latest h \<Longrightarrow> hb_snapfiles h' = hb_snapfiles h \<Longrightarrow> calm h h'"
  by (simp add: calm_def fewer_snaps_def)

lemma calm_nodes:
  "nodes_run (hb_nodes h) (hb_nodes h') \<Longrightarrow> hb_latest h' = hb_latest h \<Longrightarrow> hb_snapfiles h' = hb_snapfiles h \<Longrightarrow> calm h h'"
  by (simp add: calm_def fewer_snaps_def)

lemma alerts_do_frame [simp]:
  "hb_nodes (alerts_do w op h) = hb_nodes h" "hb_latest (alerts_do w op h) = hb_latest h" "hb_snapfiles (alerts_do w op h) = hb_snapfiles h"
  by (simp_all add: alerts_do_def Let_def)

lemma conf_seen_frame [simp]:
  "hb_nodes (conf_seen w h) = hb_nodes h" "hb_latest (conf_seen w h) = hb_latest h" "hb_snapfiles (conf_seen w h) = hb_snapfiles h"
  by (simp_all add: conf_seen_def)

lemma wakeNode_calm: "hb_nodes (snd (wakeNode w i h)) = hb_nodes h \<and> hb_latest (snd (wakeNode w i h)) = hb_latest h \<and> hb_snapfiles (snd (wakeNode w i h)) = hb_snapfiles h"
  by (simp add: wakeNode_def Let_def split: prod.split)

lemma wakes_calm:
  "hb_nodes (snd (foldl (wake_one w) x js)) = hb_nodes (snd x) \<and> hb_latest (snd (foldl (wake_one w) x js)) = hb_latest (snd x) \<and>
   hb_snapfiles (snd (foldl (wake_one w) x js)) = hb_snapfiles (snd x)"
proof (induction js arbitrary: x)
  case (Cons i js)
  then show ?case using Cons.IH [of "wake_one w x i"] wakeNode_calm [of w i "snd x"] by (simp add: wake_one_def Let_def)
qed simp

lemma refresh_calm: "calm h (snd (ctl_refresh w q h))"
  using wakes_calm [of w "(0, h)" "map fst (list_nodes (hb_nodes h))"] wakeNode_calm [of w _ h]
  by (intro calm_same) (auto simp: ctl_refresh_def err_def split_beta split: option.split)

lemma change_node_run: "nodes_run s (snd (change_node w i b n s))"
proof -
  have "nodes_run s s1 \<Longrightarrow> nodes_run s (snd (setTags i ts m s1))" for s1 ts m by (rule nodes_run_prims(3))
  moreover have "nodes_run s s1" if "rename_node i name m s = (r, s1)" for name m r s1
    using nodes_run_prims(2) [of s i name m] that by simp
  ultimately show ?thesis by (auto simp: change_node_def split: sum.split prod.split option.split)
qed

lemma ctl_change_calm: "calm h (snd (ctl_change w q i n h))"
  using change_node_run [of "hb_nodes h" w i _ n]
  by (intro calm_nodes) (auto simp: ctl_change_def err_def done_ok_def Let_def split: option.split jsval.split prod.split sum.split; metis snd_conv)+

lemma ctl_revoke_calm: "calm h (snd (ctl_revoke w wl i h))"
proof -
  obtain r s where r: "revoke i (w_mtime w) (hb_nodes h) = (r, s)" by (metis surj_pair)
  then have "nodes_run (hb_nodes h) s" using nodes_run_prims(1) [of "hb_nodes h" i "w_mtime w"] by simp
  then show ?thesis by (auto simp: ctl_revoke_def r err_def done_ok_def calm_def fewer_snaps_def split: sum.split)
qed

lemma linkRoute_calm: "calm h (snd (linkRoute w q c h))"
proof -
  have "nodes_run (hb_nodes h) (case fc of (Found a, l) \<Rightarrow> snd (approve_add w name tags (hb_nodes h) (obj_at l a)) | _ \<Rightarrow> hb_nodes h)" for fc name tags
    using nodes_run_prims(4) by (auto split: prod.split found.split)
  then show ?thesis by (intro calm_nodes) (auto simp: linkRoute_def Let_def split: prod.split sum.split decided.split)
qed

lemma ctl_get_calm: "ctl_get w q c p h = Some r \<Longrightarrow> calm h (snd r)"
proof -
  assume r: "ctl_get w q c p h = Some r"
  have "hb_nodes (snd r) = hb_nodes h \<and> hb_latest (snd r) = hb_latest h \<and> hb_snapfiles (snd r) = hb_snapfiles h"
    using r by (auto simp: ctl_get_def ctl_history_def ctl_nodes_def ctl_node_def err_def Let_def split: if_splits ctl_target.splits option.splits)
  then show "calm h (snd r)" by (intro calm_same) auto
qed

lemma ctl_post_calm: "ctl_post w q c wl p h = Some r \<Longrightarrow> calm h (snd r)"
proof -
  assume r: "ctl_post w q c wl p h = Some r"
  note sp = prod.split option.split sum.split jsval.split aresult.split
  have "calm h (snd (ctl_mute w q h))" "calm h (snd (ctl_rules w q h))"
    by (rule calm_same; auto simp: ctl_mute_def ctl_rules_def done_ok_def err_def split: sp)+
  moreover have "calm h (snd (ctl_channels w q h))" "calm h (snd (ctl_test w q h))"
    by (rule calm_same; auto simp: ctl_channels_def ctl_test_def done_ok_def err_def split: sp)+
  moreover have "calm h (snd (ctl_push w q u h))" for u
    by (rule calm_same) (auto simp: ctl_push_def done_ok_def err_def split: sp)
  moreover have "calm h (snd (ctl_account w q c wl h))"
    by (rule calm_same) (auto simp: ctl_account_def split: sp)
  moreover have "calm h (snd (ctl_config w q h))"
    by (rule calm_same) (auto simp: ctl_config_def done_ok_def err_def Let_def split: sp)
  moreover have "calm h (snd (err n m h))" for n m by (rule calm_same) (simp_all add: err_def)
  ultimately show ?thesis using r refresh_calm [of h w q] ctl_change_calm [of h w q] ctl_revoke_calm [of h w wl]
    by (auto simp: ctl_post_def split: if_splits ctl_target.splits option.splits)
qed

lemma container_calm: "calm h (snd (ctl_container w q wl raw action h))"
  by (rule calm_same) (auto simp: ctl_container_def docker_call_def err_def split: option.split prod.split)

lemma ctl_calm: "calm h (snd (ctl w q c wl h))"
proof (cases "if rq_method q = ''GET'' then ctl_get w q c (url_path (rq_url q)) h else if rq_method q = ''POST'' then ctl_post w q c wl (url_path (rq_url q)) h else None")
  case None
  have "calm h h" by (rule calm_same) simp_all
  then show ?thesis using container_calm unfolding ctl_def Let_def None by (auto simp: err_def split: ctl_target.split)
next
  case (Some r)
  then have "calm h (snd r)" using ctl_get_calm [of w q c _ h r] ctl_post_calm [of w q c wl _ h r] by (simp split: if_splits)
  then show ?thesis unfolding ctl_def Let_def Some by simp
qed

lemma pages_calm: "calm h (snd (pages w q c wl h))"
proof -
  have "calm h h" by (rule calm_same) simp_all
  moreover have "calm h (snd (get_config w h))" by (rule calm_same) (simp_all add: get_config_def Let_def)
  moreover have "snd (get_data h) = h" by (simp add: get_data_def err_def split: option.split)
  ultimately show ?thesis using linkRoute_calm [of h w q c] ctl_calm [of h w q c wl] by (simp add: pages_def Let_def)
qed

lemma request_calm: "calm h (snd (handle_request w q h))"
proof -
  let ?c = "resolveClient (w_trusted w) (w_fwd w) (rq_http q)"
  let ?wl = "isWhitelisted ?c (parseCidrList (w_whitelist w))"
  have gate: "calm h (h\<lparr>hb_gate := g\<rparr>)" for g by (rule calm_same) simp_all
  have pg: "calm h (snd (pages w q c wl (h\<lparr>hb_gate := g\<rparr>)))" for c wl g
    using pages_calm [of "h\<lparr>hb_gate := g\<rparr>" w q c wl] by (simp add: calm_def fewer_snaps_def)
  have lg: "calm h (snd (post_login w q c wl (h\<lparr>hb_gate := g\<rparr>)))" for c wl g
    by (rule calm_same) (simp_all add: post_login_def split: prod.split)
  have la: "calm h (snd (handleLinkApi w q c h))" for c
    by (rule calm_same) (auto simp: handleLinkApi_def err_def Let_def split: option.split jsval.split prod.split)
  have hh: "calm h h" by (rule calm_same) simp_all
  obtain b g where bg: "(if ?wl then (None, hb_gate h) else banInfo (cl_ip ?c) (w_now w) (hb_gate h)) = (b, g)" by (metis surj_pair)
  show ?thesis unfolding handle_request_def Let_def bg by (cases b) (simp_all add: gate pg lg la hh)
qed

section \<open>A revoked node\<close>

text \<open>Revoked, its secrets gone, and nothing of it among the snapshots.\<close>

definition gone :: "string \<Rightarrow> hub \<Rightarrow> bool" where
  "gone i h \<longleftrightarrow> store_ok (hb_nodes h) \<and> revoked_in i (hb_nodes h) \<and> map_of (hb_latest h) i = None \<and> map_of (hb_snapfiles h) i = None"

lemma gone_calm: "gone i h \<Longrightarrow> calm h h' \<Longrightarrow> gone i h'"
  unfolding gone_def calm_def nodes_run_def fewer_snaps_def using registry.inv_run revocation.inv_run by metis

lemma snapshot_frame: "hb_nodes (onSnapshot w (j, v) h) = hb_nodes h"
  by (simp add: onSnapshot_def Let_def)

lemma snapshot_other: "j \<noteq> i \<Longrightarrow> gone i h \<Longrightarrow> gone i (onSnapshot w (j, v) h)"
  by (simp add: gone_def snapshot_frame) (simp add: onSnapshot_def Let_def)

lemma snapshots_other: "list_all (\<lambda>ps. fst ps \<noteq> i) ps \<Longrightarrow> gone i h \<Longrightarrow> gone i (foldl (\<lambda>h ps. onSnapshot w ps h) h ps)"
proof (induction ps arbitrary: h)
  case (Cons p ps)
  then show ?case using snapshot_other [of "fst p" i h w "snd p"] by simp
qed simp

text \<open>A finished body adds at most one snapshot, of the node it was signed for.\<close>

lemma reply_snaps [simp]: "a_snaps (send c r s) = a_snaps s" "a_snaps (fail_resp c n m s) = a_snaps s" "a_snaps (failed w t s) = a_snaps s"
  "a_snaps (reply C c n sec ts b s) = a_snaps s" "a_snaps (finishWait C i x n s) = a_snaps s" "a_snaps (acceptTs k t s) = a_snaps s"
  by (simp_all add: send_def fail_resp_def failed_def reply_def finishWait_def acceptTs_def Let_def)

lemma finish_snaps:
  "a_snaps (finish C p n body t s) = a_snaps s \<or>
   (\<exists>v b sec. a_snaps (finish C p n body t s) = a_snaps s @ [(q_node (p_req p), v)] \<and> matching_secret C n p b = Some sec)"
proof (cases body)
  case (Some b)
  let ?s = "s\<lparr>a_pending := AList.delete (q_conn (p_req p)) (a_pending s)\<rparr>"
  show ?thesis
  proof (cases "matching_secret C n p b")
    case (Some sec)
    have push: "a_snaps (push_ok C p sec b x) = a_snaps x \<or> (\<exists>v. a_snaps (push_ok C p sec b x) = a_snaps x @ [(q_node (p_req p), v)])" for x
      by (auto simp: push_ok_def Let_def split: option.split sum.split prod.split)
    have wait: "a_snaps (wait_ok C p sec x) = a_snaps x" for x
      by (auto simp: wait_ok_def Let_def split: option.split)
    have "a_snaps (push_ok C p sec b ?s) = a_snaps s \<or> (\<exists>v. a_snaps (push_ok C p sec b ?s) = a_snaps s @ [(q_node (p_req p), v)])"
      "a_snaps (wait_ok C p sec ?s) = a_snaps s" using push [of ?s] wait [of ?s] by simp_all
    then show ?thesis using Some \<open>body = Some b\<close>
      by (cases "p_endpoint p") (auto simp: finish_def Let_def)
  qed (simp add: finish_def Some Let_def)
qed (simp add: finish_def Let_def)

lemma revoked_secret:
  assumes "store_ok s" "revoked_in i s" "map_of (ns_nodes (load s)) i = Some n"
  shows "matching_secret C n p b = None"
proof -
  have "table_ok (ns_nodes (load s))" using store_ok_load [OF assms(1)] by (simp add: store_ok_def)
  then have "nrec_ok n" "nd_revoked n" using table_ok_lookup assms(2,3) by (auto simp: revoked_in_def)
  then show ?thesis by (auto simp: matching_secret_def candidates_def nrec_ok_def)
qed

lemma body_gone:
  assumes "gone i h"
  shows "gone i (agent_body w c chunks h)"
proof -
  let ?a = "hb_api h"
  show ?thesis
  proof (cases "\<exists>p n. map_of (a_pending ?a) c = Some p \<and> map_of (ns_nodes (load (hb_nodes h))) (q_node (p_req p)) = Some n")
    case False
    then show ?thesis using assms by (auto simp: agent_body_def split: option.split)
  next
    case True
    then obtain p n where p: "map_of (a_pending ?a) c = Some p" and n: "map_of (ns_nodes (load (hb_nodes h))) (q_node (p_req p)) = Some n" by blast
    let ?a' = "api_step (w_agent w) ?a (BodyRead c n chunks (w_now w))"
    have other: "q_node (p_req p) \<noteq> i" if "matching_secret (w_agent w) n p b = Some sec" for b sec
      using revoked_secret [of "hb_nodes h" i n] assms n that unfolding gone_def by fastforce
    have "list_all (\<lambda>ps. fst ps \<noteq> i) (drop (length (a_snaps ?a)) (a_snaps ?a'))"
    proof -
      let ?b = "case chunks of None \<Rightarrow> None | Some cs \<Rightarrow> readLimited MAX_BODY cs"
      have a': "?a' = finish (w_agent w) p n ?b (w_now w) ?a" by (simp add: p)
      show ?thesis unfolding a' using finish_snaps [of "w_agent w" p n ?b "w_now w" ?a] other by auto
    qed
    moreover have "gone i (h\<lparr>hb_api := ?a'\<rparr>)" using assms by (simp add: gone_def)
    ultimately have "gone i (api_do w (\<lambda>a. api_step (w_agent w) a (BodyRead c n chunks (w_now w))) h)"
      unfolding api_do_def Let_def by (rule snapshots_other)
    then show ?thesis by (simp add: agent_body_def p n)
  qed
qed

interpretation hub_gone: machine hub_step "gone i" for i
proof
  fix h op assume g: "gone i h"
  show "gone i (hub_step h op)"
  proof (cases op)
    case (Request w q)
    then show ?thesis using gone_calm [OF g request_calm] by simp
  next
    case (AgentBody w c chunks)
    then show ?thesis using body_gone [OF g] by simp
  qed (use g in \<open>simp_all add: gone_def agent_arrives_def agent_timeout_def agent_closed_def minute_tick_def historyFlush_def historySweep_def Let_def\<close>)
qed

section \<open>Properties\<close>

text \<open>
  C4. A revoked node is gone for good, whatever happens next: once a person has revoked it, no sequence of
  requests, agents' pushes (also one whose body was still being read), ticks and sweeps makes its id known
  again or leaves a snapshot of it, in memory or on disk.
\<close>

theorem revoked_node_stays_gone:
  fixes ops
  assumes "store_ok (hb_nodes h)" "fst (ctl_revoke w wl i h) = Ok [(''ok'', JBool True)]"
  defines "h' \<equiv> foldl hub_step (snd (ctl_revoke w wl i h)) ops"
  shows "get_node i (hb_nodes h') = None \<and> map_of (hb_latest h') i = None \<and> map_of (hb_snapfiles h') i = None"
proof -
  obtain r s where rs: "revoke i (w_mtime w) (hb_nodes h) = (r, s)" by (metis surj_pair)
  have nl: "\<not> (w_lan_only w \<and> \<not> wl)"
  proof
    assume "w_lan_only w \<and> \<not> wl"
    then show False using assms(2) by (simp add: ctl_revoke_def err_def)
  qed
  then have r: "r = Inr ()" using assms(2) by (cases r) (auto simp: ctl_revoke_def rs err_def)
  have "store_ok s" using registry.inv_step [OF assms(1), of "Revoke i (w_mtime w)"] by (simp add: rs)
  moreover have "revoked_in i s"
    using rs r by (auto simp: revoke_def change_def revoke_fn_def revoked_in_def Let_def split: option.splits if_splits sum.splits)
  ultimately have "gone i (snd (ctl_revoke w wl i h))"
    using nl r by (auto simp: ctl_revoke_def rs done_ok_def gone_def)
  then have "gone i h'" unfolding h'_def by (rule hub_gone.inv_run)
  then show ?thesis by (auto simp: gone_def revoked_in_def get_node_def)
qed

theorem revoked_node_stays_gone_witness:
  "get_node ''abcdefghijkl'' (hb_nodes (foldl hub_step (snd (ctl_revoke demo_world True ''abcdefghijkl'' demo_hub)) [Minute demo_world, Sweep demo_world])) = None"
proof -
  have "store_ok (hb_nodes demo_hub)" by code_simp
  moreover have "fst (revoke ''abcdefghijkl'' 6 demo_store) = Inr ()" by code_simp
  then have "fst (ctl_revoke demo_world True ''abcdefghijkl'' demo_hub) = Ok [(''ok'', JBool True)]"
    by (auto simp: ctl_revoke_def done_ok_def demo_world_def demo_hub_def split: prod.split sum.split)
  ultimately show ?thesis using revoked_node_stays_gone [of demo_hub demo_world True "''abcdefghijkl''"] by blast
qed

end
