(* ===== verification/Page_Rules.thy ===== *)
theory Page_Rules
  imports Alert_Rules
begin

text \<open>
  The rule editor of the page (\<^verbatim>\<open>src/www/js/alerts.js\<close>, second tab): the rows made of the saved file and the
  default rules, the fields drawn for a row and what reading them back does to it, the file made of the
  rows. A number field holds a number, or nothing (\<open>JNull\<close>); \<open>f\<close> says the page shows temperatures in
  Fahrenheit. The last section takes it together with the hub's \<open>checkRules\<close> and \<open>buildRules\<close>.
\<close>

section \<open>Rows\<close>

record ovrow =
  or_who :: string
  or_threshold :: jsval
  or_off :: bool

record row =
  rw_id :: string
  rw_own :: bool
  rw_name :: string
  rw_metric :: string
  rw_op :: string
  rw_threshold :: jsval
  rw_for :: jsval
  rw_clear :: jsval
  rw_severity :: string
  rw_on :: bool
  rw_scope :: string
  rw_sub :: string
  rw_overrides :: "ovrow list"

definition in_F :: "bool \<Rightarrow> string \<Rightarrow> bool" where
  "in_F f m \<longleftrightarrow> m = ''temp'' \<and> f"

definition shown :: "bool \<Rightarrow> string \<Rightarrow> jsval \<Rightarrow> jsval" where
  "shown f m v = (case finite_num v of
      Some q \<Rightarrow> if in_F f m then JNum (Fin (of_int (js_round ((q * 9 / 5 + 32) * 10)) / 10)) else v
    | None \<Rightarrow> v)"

definition typed :: "bool \<Rightarrow> string \<Rightarrow> jsval \<Rightarrow> jsval" where
  "typed f m v = (case finite_num v of
      Some q \<Rightarrow> if in_F f m then JNum (Fin (of_int (js_round ((q - 32) * 50 / 9)) / 10)) else v
    | None \<Rightarrow> v)"

definition list_of :: "jsval \<Rightarrow> jsval list" where
  "list_of v = (case arr_of v of Some xs \<Rightarrow> xs | None \<Rightarrow> [])"

definition who_of :: "jsval \<Rightarrow> string" where
  "who_of v = (if truthy (fld ''node'' v) then ''node:'' @ str_of (fld ''node'' v) else ''tag:'' @ str_of (fld ''tag'' v))"

definition override_row :: "jsval \<Rightarrow> ovrow" where
  "override_row v = (let off = truthy (fld ''off'' v) in
     \<lparr>or_who = who_of v, or_threshold = (if off then JNull else fld ''threshold'' v), or_off = off\<rparr>)"

definition override_rows :: "jsval \<Rightarrow> ovrow list" where
  "override_rows r = map override_row (list_of (fld ''overrides'' r))"

text \<open>\<^verbatim>\<open>a ?? b\<close>\<close>

definition nullish :: "jsval \<Rightarrow> jsval \<Rightarrow> jsval" where
  "nullish a b = (if a = JUndef \<or> a = JNull then b else a)"

definition default_row :: "jsval list \<Rightarrow> jsval \<Rightarrow> row" where
  "default_row saved d = (let c = (case find (\<lambda>r. fld ''id'' r = fld ''id'' d) saved of Some r \<Rightarrow> r | None \<Rightarrow> JObj []) in
     \<lparr>rw_id = str_of (fld ''id'' d), rw_own = False, rw_name = [], rw_metric = str_of (fld ''metric'' d), rw_op = str_of (fld ''op'' d),
      rw_threshold = nullish (fld ''threshold'' c) (fld ''threshold'' d), rw_for = nullish (fld ''for'' c) (fld ''for'' d),
      rw_clear = (if fld ''clear'' c \<noteq> JUndef then fld ''clear'' c else fld ''clear'' d),
      rw_severity = str_of (if truthy (fld ''severity'' c) then fld ''severity'' c else fld ''severity'' d),
      rw_on = (\<not> truthy (fld ''off'' c)), rw_scope = [], rw_sub = [], rw_overrides = override_rows c\<rparr>)"

definition own_row :: "jsval \<Rightarrow> row" where
  "own_row r = (let s = fld ''scope'' r in
     \<lparr>rw_id = str_of (fld ''id'' r), rw_own = True, rw_name = str_of (fld ''name'' r), rw_metric = str_of (fld ''metric'' r),
      rw_op = str_of (fld ''op'' r), rw_threshold = fld ''threshold'' r, rw_for = fld ''for'' r, rw_clear = fld ''clear'' r,
      rw_severity = str_of (fld ''severity'' r), rw_on = (\<not> truthy (fld ''off'' r)),
      rw_scope = (if truthy (fld ''node'' s) then ''node:'' @ str_of (fld ''node'' s)
        else if truthy (fld ''tag'' s) then ''tag:'' @ str_of (fld ''tag'' s) else []),
      rw_sub = str_of (fld ''sub'' r), rw_overrides = override_rows r\<rparr>)"

definition rulesRows :: "jsval \<Rightarrow> jsval list \<Rightarrow> row list" where
  "rulesRows saved defaults = (let rs = list_of (fld ''rules'' saved) in
     map (default_row rs) defaults @
     map own_row (filter (\<lambda>r. \<not> list_ex (\<lambda>d. fld ''id'' d = fld ''id'' r) defaults) rs))"

section \<open>The file of the rows\<close>

definition who_js :: "string \<Rightarrow> string \<times> jsval" where
  "who_js w = (if starts_with ''node:'' w then (''node'', JStr (drop 5 w)) else (''tag'', JStr (drop 4 w)))"

definition ovrow_js :: "ovrow \<Rightarrow> jsval" where
  "ovrow_js v = JObj [who_js (or_who v), if or_off v then (''off'', JBool True) else (''threshold'', or_threshold v)]"

definition row_tail :: "row \<Rightarrow> (string \<times> jsval) list" where
  "row_tail r = opt_field ''off'' (if rw_on r then None else Some (JBool True)) @
     opt_field ''overrides'' (if rw_overrides r = [] then None else Some (JArr (map ovrow_js (rw_overrides r))))"

definition differing :: "string \<Rightarrow> jsval \<Rightarrow> jsval \<Rightarrow> (string \<times> jsval) list" where
  "differing k v d = opt_field k (if v \<noteq> fld k d then Some v else None)"

text \<open>A default rule keeps only what differs from its default, and no entry when nothing does.\<close>

definition default_out :: "jsval \<Rightarrow> row \<Rightarrow> jsval option" where
  "default_out d r = (let c = (''id'', JStr (rw_id r)) #
       (if rw_id r \<noteq> ''offline'' then differing ''threshold'' (rw_threshold r) d @ differing ''for'' (rw_for r) d @ differing ''clear'' (rw_clear r) d else []) @
       differing ''severity'' (JStr (rw_severity r)) d @ row_tail r in
     if length c > 1 then Some (JObj c) else None)"

definition own_out :: "row \<Rightarrow> jsval" where
  "own_out r = JObj ([(''id'', JStr (rw_id r)), (''name'', JStr (rw_name r)), (''metric'', JStr (rw_metric r)), (''op'', JStr (rw_op r)),
     (''threshold'', rw_threshold r), (''for'', rw_for r), (''clear'', rw_clear r), (''severity'', JStr (rw_severity r)),
     (''scope'', JObj (if rw_scope r = [] then [] else [who_js (rw_scope r)]))] @
     opt_field ''sub'' (if rw_sub r = [] then None else Some (JStr (rw_sub r))) @ row_tail r)"

definition rule_out :: "jsval list \<Rightarrow> row \<Rightarrow> jsval option" where
  "rule_out defaults r = (case find (\<lambda>d. fld ''id'' d = JStr (rw_id r)) defaults of
      Some d \<Rightarrow> if \<not> rw_own r then default_out d r else Some (own_out r)
    | None \<Rightarrow> Some (own_out r))"

definition rulesFile :: "row list \<Rightarrow> jsval list \<Rightarrow> jsval" where
  "rulesFile rows defaults = JObj [(''rules'', JArr (List.map_filter (rule_out defaults) rows))]"

section \<open>The form\<close>

text \<open>A number field: \<open>JNull\<close> when it is empty.\<close>

definition number_field :: "jsval \<Rightarrow> jsval" where
  "number_field v = (case finite_num v of Some q \<Rightarrow> JNum (Fin q) | None \<Rightarrow> JNull)"

definition is_sub_metric :: "string \<Rightarrow> bool" where
  "is_sub_metric m \<longleftrightarrow> m = ''disk.used'' \<or> m = ''container.down''"

text \<open>The fields drawn for a row, in the order of the page, and of an override: who, off, the threshold when it has one.\<close>

definition rule_fields :: "bool \<Rightarrow> row \<Rightarrow> (string \<times> jsval) list" where
  "rule_fields f r = (let m = rw_metric r; yesno = (m \<in> set YESNO); offline = (m = ''offline'') in
     [(''on'', JBool (rw_on r))] @
     (if rw_own r then [(''name'', JStr (rw_name r)), (''metric'', JStr m)] @ (if yesno then [] else [(''op'', JStr (rw_op r))]) else []) @
     (if yesno \<or> offline then [] else [(''threshold'', number_field (shown f m (rw_threshold r)))]) @
     (if offline then [] else (''for'', number_field (rw_for r)) #
        (if yesno \<or> rw_op r = ''=='' then [] else [(''clear'', number_field (shown f m (rw_clear r)))])) @
     [(''severity'', JStr (rw_severity r))] @
     (if rw_own r then (''scope'', JStr (rw_scope r)) # (if is_sub_metric m then [(''sub'', JStr (rw_sub r))] else []) else []))"

definition override_field :: "bool \<Rightarrow> row \<Rightarrow> ovrow \<Rightarrow> string \<times> bool \<times> jsval option" where
  "override_field f r v = (let only = (rw_metric r = ''offline'' \<or> rw_metric r \<in> set YESNO) in
     (or_who v, or_off v \<or> only, if only then None else Some (number_field (shown f (rw_metric r) (or_threshold v)))))"

text \<open>Reading: field by field (a threshold in the metric chosen by then), then the overrides, then what the metric fixes.\<close>

definition read_field :: "bool \<Rightarrow> row \<Rightarrow> string \<times> jsval \<Rightarrow> row" where
  "read_field f r kv = (case kv of (k, v) \<Rightarrow>
     if k = ''on'' then r\<lparr>rw_on := truthy v\<rparr>
     else if k = ''for'' then r\<lparr>rw_for := v\<rparr>
     else if k = ''threshold'' then r\<lparr>rw_threshold := typed f (rw_metric r) v\<rparr>
     else if k = ''clear'' then r\<lparr>rw_clear := typed f (rw_metric r) v\<rparr>
     else if k = ''name'' then r\<lparr>rw_name := str_of v\<rparr>
     else if k = ''metric'' then r\<lparr>rw_metric := str_of v\<rparr>
     else if k = ''op'' then r\<lparr>rw_op := str_of v\<rparr>
     else if k = ''severity'' then r\<lparr>rw_severity := str_of v\<rparr>
     else if k = ''scope'' then r\<lparr>rw_scope := str_of v\<rparr>
     else if k = ''sub'' then r\<lparr>rw_sub := str_of v\<rparr>
     else r)"

definition read_override :: "bool \<Rightarrow> row \<Rightarrow> string \<times> bool \<times> jsval option \<Rightarrow> ovrow" where
  "read_override f r x = (case x of (w, off, th) \<Rightarrow>
     (let off' = (rw_metric r = ''offline'' \<or> rw_metric r \<in> set YESNO \<or> off) in
      \<lparr>or_who = w, or_threshold = (case th of Some v \<Rightarrow> if off' then JNull else typed f (rw_metric r) v | None \<Rightarrow> JNull), or_off = off'\<rparr>))"

definition read_fixed :: "row \<Rightarrow> row" where
  "read_fixed r0 = (let r1 = (if rw_metric r0 \<in> set YESNO then r0\<lparr>rw_threshold := JNum (Fin 1), rw_op := ''>='', rw_clear := JNull\<rparr> else r0);
     r2 = (if rw_own r1 \<and> \<not> is_sub_metric (rw_metric r1) then r1\<lparr>rw_sub := []\<rparr> else r1) in
     if rw_op r2 = ''=='' then r2\<lparr>rw_clear := JNull\<rparr> else r2)"

definition readRule :: "bool \<Rightarrow> (string \<times> jsval) list \<Rightarrow> (string \<times> bool \<times> jsval option) list \<Rightarrow> row \<Rightarrow> row" where
  "readRule f fs ovs r0 = (let r = foldl (read_field f) r0 fs in read_fixed (r\<lparr>rw_overrides := map (read_override f r) ovs\<rparr>))"

text \<open>Reading a form nobody touched.\<close>

definition read_untouched :: "bool \<Rightarrow> row \<Rightarrow> row" where
  "read_untouched f r = readRule f (rule_fields f r) (map (override_field f r) (rw_overrides r)) r"

text \<open>The default rules as the hub sends them (\<^verbatim>\<open>defaultsForPage\<close>).\<close>

definition default_for_page :: "rule \<Rightarrow> jsval" where
  "default_for_page d = JObj [(''id'', JStr (r_id d)), (''metric'', JStr (r_metric d)), (''op'', rel_js (r_op d)), (''threshold'', num_js (r_threshold d)),
     (''for'', num_js (of_int (r_for d) / of_int MINUTE)), (''clear'', clear_js (r_clear d)), (''severity'', sev_js (r_severity d))]"

definition defaultsForPage :: "jsval list" where
  "defaultsForPage = map default_for_page DEFAULT_RULES"

section \<open>A form nobody touched\<close>

lemma degrees_back:
  fixes q :: rat
  assumes q: "q * 10 = of_int k"
  shows "js_round ((of_int (js_round ((q * 9 / 5 + 32) * 10)) / 10 - 32) * 50 / 9) = k"
proof -
  define F where "F = js_round ((q * 9 / 5 + 32) * 10)"
  have a: "(q * 9 / 5 + 32) * 10 = of_int k * 9 / 5 + 320" using q by simp
  have F: "F = \<lfloor>of_int k * 9 / 5 + 320 + 1 / 2 :: rat\<rfloor>" unfolding F_def js_round_def a ..
  have lo: "of_int F \<le> of_int k * 9 / 5 + 320 + 1 / (2 :: rat)" unfolding F by (rule of_int_floor_le)
  have hi: "of_int k * 9 / 5 + 320 + 1 / (2 :: rat) < of_int F + 1" unfolding F by linarith
  have e: "(of_int F / 10 - 32) * 50 / 9 = of_int F * 5 / 9 - 1600 / (9 :: rat)" by (simp add: field_simps)
  have "\<lfloor>of_int F * 5 / 9 - 1600 / 9 + 1 / (2 :: rat)\<rfloor> = k"
    by (rule floor_unique) (use lo hi in linarith)+
  then have "js_round (of_int F * 5 / 9 - 1600 / (9 :: rat)) = k" unfolding js_round_def .
  then show ?thesis unfolding F_def [symmetric] e .
qed

lemma typed_shown:
  assumes "q * 10 = of_int k"
  shows "typed f m (shown f m (JNum (Fin q))) = JNum (Fin q)"
proof -
  have "of_int k / 10 = q" using assms by simp
  then show ?thesis by (cases "in_F f m") (simp_all only: typed_def shown_def finite_num.simps option.case if_True if_False degrees_back [OF assms])
qed

definition in_tenths :: "jsval \<Rightarrow> bool" where
  "in_tenths v = (case finite_num v of None \<Rightarrow> True | Some q \<Rightarrow> q * 10 = of_int \<lfloor>q * 10\<rfloor>)"

definition num_or_null :: "jsval \<Rightarrow> bool" where
  "num_or_null v \<longleftrightarrow> v = JNull \<or> finite_num v \<noteq> None"

lemma number_field_id: "num_or_null v \<Longrightarrow> number_field v = v"
  by (cases v rule: finite_num.cases) (auto simp: num_or_null_def number_field_def)

lemma num_or_null_simps [simp]: "num_or_null (JNum (Fin q))" "num_or_null JNull"
  by (simp_all add: num_or_null_def)

lemma shown_num [simp]: "num_or_null v \<Longrightarrow> num_or_null (shown f m v)"
  unfolding shown_def by (simp split: option.split)

lemma typed_back:
  assumes "num_or_null v" "in_F f m \<Longrightarrow> in_tenths v"
  shows "typed f m (number_field (shown f m v)) = v"
proof -
  have "typed f m (shown f m v) = v"
  proof (cases "in_F f m")
    case True
    show ?thesis
    proof (cases "finite_num v")
      case (Some q)
      then have v: "v = JNum (Fin q)" by (cases v rule: finite_num.cases) auto
      have "q * 10 = of_int \<lfloor>q * 10\<rfloor>" using assms(2) [OF True] by (simp add: v in_tenths_def)
      then show ?thesis unfolding v by (rule typed_shown)
    qed (simp add: shown_def typed_def)
  next
    case False
    then show ?thesis by (simp add: shown_def typed_def split: option.split)
  qed
  then show ?thesis using assms(1) by (simp add: number_field_id)
qed

text \<open>
  What the form takes for granted of a row: a true-or-false rule tests for 1, a temperature shown in
  Fahrenheit has at most one decimal.
\<close>

definition usual :: "bool \<Rightarrow> row \<Rightarrow> bool" where
  "usual f r \<longleftrightarrow>
     (if rw_metric r \<in> set YESNO then rw_threshold r = JNum (Fin 1) \<and> rw_op r = ''>='' \<and> rw_clear r = JNull else True) \<and>
     (if in_F f (rw_metric r) then list_all in_tenths (rw_threshold r # rw_clear r # map or_threshold (rw_overrides r)) else True)"

definition row_fine :: "row \<Rightarrow> bool" where
  "row_fine r \<longleftrightarrow> num_or_null (rw_threshold r) \<and> num_or_null (rw_for r) \<and> num_or_null (rw_clear r) \<and>
     (rw_op r = ''=='' \<longrightarrow> rw_clear r = JNull) \<and> (rw_own r \<and> \<not> is_sub_metric (rw_metric r) \<longrightarrow> rw_sub r = []) \<and>
     (\<forall>v \<in> set (rw_overrides r). if or_off v then or_threshold v = JNull
        else num_or_null (or_threshold v) \<and> rw_metric r \<noteq> ''offline'' \<and> rw_metric r \<notin> set YESNO)"

lemma read_override_back:
  assumes "row_fine r" "usual f r" "v \<in> set (rw_overrides r)"
  shows "read_override f r (override_field f r v) = v"
proof -
  have v: "if or_off v then or_threshold v = JNull
        else num_or_null (or_threshold v) \<and> rw_metric r \<noteq> ''offline'' \<and> rw_metric r \<notin> set YESNO"
    using assms(1,3) by (simp add: row_fine_def)
  show ?thesis
  proof (cases "or_off v")
    case True
    then show ?thesis using v by (cases v) (simp add: read_override_def override_field_def Let_def)
  next
    case False
    have "in_F f (rw_metric r) \<Longrightarrow> in_tenths (or_threshold v)"
      using assms(2,3) by (simp add: usual_def list_all_iff)
    then have "typed f (rw_metric r) (number_field (shown f (rw_metric r) (or_threshold v))) = or_threshold v"
      using v False by (simp add: typed_back)
    then show ?thesis using v False by (cases v) (simp add: read_override_def override_field_def Let_def)
  qed
qed

lemma read_field_simps [simp]:
  "read_field f r (''on'', v) = r\<lparr>rw_on := truthy v\<rparr>" "read_field f r (''for'', v) = r\<lparr>rw_for := v\<rparr>"
  "read_field f r (''threshold'', v) = r\<lparr>rw_threshold := typed f (rw_metric r) v\<rparr>"
  "read_field f r (''clear'', v) = r\<lparr>rw_clear := typed f (rw_metric r) v\<rparr>"
  "read_field f r (''name'', v) = r\<lparr>rw_name := str_of v\<rparr>" "read_field f r (''metric'', v) = r\<lparr>rw_metric := str_of v\<rparr>"
  "read_field f r (''op'', v) = r\<lparr>rw_op := str_of v\<rparr>" "read_field f r (''severity'', v) = r\<lparr>rw_severity := str_of v\<rparr>"
  "read_field f r (''scope'', v) = r\<lparr>rw_scope := str_of v\<rparr>" "read_field f r (''sub'', v) = r\<lparr>rw_sub := str_of v\<rparr>"
  by (simp_all add: read_field_def)

lemma read_untouched_id:
  assumes fine: "row_fine r" and u: "usual f r"
  shows "read_untouched f r = r"
proof -
  have b: "typed f (rw_metric r) (number_field (shown f (rw_metric r) (rw_threshold r))) = rw_threshold r"
    "typed f (rw_metric r) (number_field (shown f (rw_metric r) (rw_clear r))) = rw_clear r"
    by (rule typed_back; use fine u in \<open>simp add: row_fine_def usual_def\<close>)+
  have fr: "number_field (rw_for r) = rw_for r" using fine by (simp add: row_fine_def number_field_id)
  have "foldl (read_field f) r (rule_fields f r) = r"
    by (cases r) (use b fr in \<open>simp add: rule_fields_def Let_def\<close>)
  moreover have "map (read_override f r \<circ> override_field f r) (rw_overrides r) = rw_overrides r"
    by (rule map_idI) (simp add: read_override_back [OF fine u])
  moreover have "read_fixed r = r"
    using fine u by (cases r) (auto simp: read_fixed_def row_fine_def usual_def Let_def split: if_splits)
  ultimately show ?thesis by (simp add: read_untouched_def readRule_def Let_def)
qed

section \<open>The rows of a saved file\<close>

lemma who_back: "ok_who ids w \<Longrightarrow> who_js (case w of ForNode i \<Rightarrow> ''node:'' @ i | ForTag t \<Rightarrow> ''tag:'' @ t) = (case w of ForNode i \<Rightarrow> (''node'', JStr i) | ForTag t \<Rightarrow> (''tag'', JStr t))"
  by (cases w) (simp_all add: who_js_def starts_with_def)

lemma who_of_js: "ok_who ids (ov_who v) \<Longrightarrow> who_of (override_js v) = (case ov_who v of ForNode i \<Rightarrow> ''node:'' @ i | ForTag t \<Rightarrow> ''tag:'' @ t)"
  by (cases "ov_who v") (auto simp: who_of_def ok_who_def known_node_def is_node_id_def in_class_def simp del: fld.simps split: if_splits)

lemma override_back:
  assumes "ok_override ids rid metric v"
  shows "ovrow_js (override_row (override_js v)) = override_js v"
proof -
  have w: "ok_who ids (ov_who v)" using assms by (simp add: ok_override_def)
  show ?thesis
    by (cases "ov_threshold v")
      (simp_all add: ovrow_js_def override_row_def Let_def who_of_js [OF w] who_back [OF w] del: fld.simps, simp_all add: override_js_def num_js_def)
qed

lemma overrides_back: "list_all (ok_override ids rid metric) vs \<Longrightarrow> map (ovrow_js \<circ> override_row) (map override_js vs) = map override_js vs"
  by (auto simp: list_all_iff override_back)

lemma JStr_str [simp]: "JStr (str_of (rel_js op)) = rel_js op" "JStr (str_of (sev_js sev)) = sev_js sev" "truthy (sev_js sev)"
  by (cases op; simp) (cases sev; simp)+

definition scope_str :: "scope \<Rightarrow> string" where
  "scope_str sc = (case sc of AllNodes \<Rightarrow> [] | OnNode i \<Rightarrow> ''node:'' @ i | OnTag t \<Rightarrow> ''tag:'' @ t)"

definition own_row_of :: "crule \<Rightarrow> row" where
  "own_row_of c = (case c of COwn rid name metric op th sc sub f cl sev off ovs \<Rightarrow>
     \<lparr>rw_id = rid, rw_own = True, rw_name = name, rw_metric = metric, rw_op = str_of (rel_js op), rw_threshold = num_js th, rw_for = num_js (of_int f),
      rw_clear = clear_js cl, rw_severity = str_of (sev_js sev), rw_on = (\<not> off), rw_scope = scope_str sc, rw_sub = sub,
      rw_overrides = map (override_row \<circ> override_js) ovs\<rparr>)"

lemma scope_fields:
  assumes "ok_scope ids sc"
  shows "(if truthy (fld ''node'' (scope_js sc)) then ''node:'' @ str_of (fld ''node'' (scope_js sc))
     else if truthy (fld ''tag'' (scope_js sc)) then ''tag:'' @ str_of (fld ''tag'' (scope_js sc)) else []) = scope_str sc"
  using assms by (cases sc) (auto simp: scope_str_def ok_scope_def known_node_def is_node_id_def in_class_def is_tag_def split: if_splits)

lemma scope_back: "JObj (if scope_str sc = [] then [] else [who_js (scope_str sc)]) = scope_js sc"
  by (cases sc) (simp_all add: scope_str_def who_js_def starts_with_def)

lemma own_row_js:
  assumes c: "c = COwn rid name metric op th sc sub f cl sev off ovs" and ok: "ok_crule ids c"
  shows "own_row (crule_js c) = own_row_of c"
proof -
  note f = own_js_fields [OF c]
  have i: "fld ''id'' (crule_js c) = JStr rid" unfolding c by simp
  have "ok_scope ids sc" using ok c by simp
  note s = scope_fields [OF this]
  have s': "str_of (if sub = [] then JUndef else JStr sub) = sub" "truthy (if off then JBool True else JUndef) = off" by simp_all
  have v: "map override_row (list_of (if ovs = [] then JUndef else JArr (map override_js ovs))) = map (override_row \<circ> override_js) ovs"
    by (simp add: list_of_def)
  show ?thesis
    by (simp only: own_row_def Let_def f i s s' override_rows_def v) (simp add: c own_row_of_def num_js_def)
qed

definition fld_eq :: "jsval \<Rightarrow> jsval \<Rightarrow> bool" where
  "fld_eq a b \<longleftrightarrow> is_obj a \<and> is_obj b \<and> (\<forall>k. fld k a = fld k b)"

lemma own_out_js:
  assumes c: "c = COwn rid name metric op th sc sub f cl sev off ovs" and ok: "ok_crule ids c"
  shows "fld_eq (own_out (own_row_of c)) (crule_js c)"
proof -
  have "list_all (ok_override ids rid metric) ovs" using ok c by (simp add: ok_overrides_def)
  then have v: "map (ovrow_js \<circ> (override_row \<circ> override_js)) ovs = map override_js ovs"
    using overrides_back [of ids rid metric ovs] by simp
  show ?thesis unfolding fld_eq_def c
    using scope_back [of sc] by (cases "scope_str sc = []") (simp_all add: own_out_def own_row_of_def row_tail_def tail_js_def v opt_field_def)
qed

text \<open>What is left of a change of a default rule: the members that differ from the default.\<close>

definition drop_same :: "'a \<Rightarrow> 'a option \<Rightarrow> 'a option" where
  "drop_same a x = (if x = Some a then None else x)"

definition norm_rule :: "rule \<Rightarrow> crule \<Rightarrow> crule option" where
  "norm_rule d c = (case c of
      CDefault rid th f cl sev off ovs \<Rightarrow>
        let th' = drop_same (r_threshold d) th; f' = drop_same (r_for d div MINUTE) f; cl' = drop_same (r_clear d) cl; sev' = drop_same (r_severity d) sev in
        if th' = None \<and> f' = None \<and> cl' = None \<and> sev' = None \<and> \<not> off \<and> ovs = [] then None else Some (CDefault rid th' f' cl' sev' off ovs)
    | _ \<Rightarrow> None)"

definition default_row_of :: "rule \<Rightarrow> crule option \<Rightarrow> row" where
  "default_row_of d c = (case c of
      Some (CDefault rid th f cl sev off ovs) \<Rightarrow>
        \<lparr>rw_id = r_id d, rw_own = False, rw_name = [], rw_metric = r_metric d, rw_op = str_of (rel_js (r_op d)),
         rw_threshold = num_js (case th of Some q \<Rightarrow> q | None \<Rightarrow> r_threshold d),
         rw_for = num_js (of_int (case f of Some m \<Rightarrow> m | None \<Rightarrow> r_for d div MINUTE)),
         rw_clear = clear_js (case cl of Some x \<Rightarrow> x | None \<Rightarrow> r_clear d),
         rw_severity = str_of (sev_js (case sev of Some x \<Rightarrow> x | None \<Rightarrow> r_severity d)),
         rw_on = (\<not> off), rw_scope = [], rw_sub = [], rw_overrides = map (override_row \<circ> override_js) ovs\<rparr>
    | _ \<Rightarrow>
        \<lparr>rw_id = r_id d, rw_own = False, rw_name = [], rw_metric = r_metric d, rw_op = str_of (rel_js (r_op d)), rw_threshold = num_js (r_threshold d),
         rw_for = num_js (of_int (r_for d div MINUTE)), rw_clear = clear_js (r_clear d), rw_severity = str_of (sev_js (r_severity d)),
         rw_on = True, rw_scope = [], rw_sub = [], rw_overrides = []\<rparr>)"

lemma minute_default: "d \<in> set DEFAULT_RULES \<Longrightarrow> of_int (r_for d) / of_int MINUTE = (of_int (r_for d div MINUTE) :: rat)"
  by (auto simp: DEFAULT_RULES_def mk_rule_def MINUTE_def)

lemma page_default_fields:
  assumes "d \<in> set DEFAULT_RULES"
  shows "fld ''id'' (default_for_page d) = JStr (r_id d)" "fld ''metric'' (default_for_page d) = JStr (r_metric d)"
    "fld ''op'' (default_for_page d) = rel_js (r_op d)" "fld ''threshold'' (default_for_page d) = num_js (r_threshold d)"
    "fld ''for'' (default_for_page d) = num_js (of_int (r_for d div MINUTE))" "fld ''clear'' (default_for_page d) = clear_js (r_clear d)"
    "fld ''severity'' (default_for_page d) = sev_js (r_severity d)"
  using minute_default [OF assms] by (simp_all add: default_for_page_def)

lemma crule_id_js: "fld ''id'' (crule_js c) = JStr (c_id c)"
  by (cases c) simp_all

lemma find_crule_js: "find (\<lambda>r. fld ''id'' r = JStr i) (map crule_js cs) = map_option crule_js (find (\<lambda>c. c_id c = i) cs)"
  by (induction cs) (simp_all add: crule_id_js del: fld.simps crule_js.simps)

lemma nullish_num [simp]: "nullish JUndef v = v" "nullish (JNum x) v = JNum x"
  by (simp_all add: nullish_def)

lemma default_row_js:
  assumes d: "d \<in> set DEFAULT_RULES" and found: "find (\<lambda>c. c_id c = r_id d) cs = x" and ok: "pred_option (\<lambda>c. \<exists>rid th f cl sev off ovs. c = CDefault rid th f cl sev off ovs) x"
  shows "default_row (map crule_js cs) (default_for_page d) = default_row_of d x"
proof (cases x)
  case None
  then show ?thesis using found
    by (simp add: default_row_def page_default_fields [OF d] find_crule_js default_row_of_def override_rows_def list_of_def num_js_def)
next
  case (Some c)
  then obtain rid th f cl sev off ovs where c: "c = CDefault rid th f cl sev off ovs" using ok by auto
  note f = default_js_fields [OF c]
  have v: "map override_row (list_of (if ovs = [] then JUndef else JArr (map override_js ovs))) = map (override_row \<circ> override_js) ovs"
    by (simp add: list_of_def)
  have o: "truthy (if off then JBool True else JUndef) = off" by simp
  have t: "nullish (case th of None \<Rightarrow> JUndef | Some q \<Rightarrow> JNum (Fin q)) (num_js (r_threshold d)) = num_js (case th of Some q \<Rightarrow> q | None \<Rightarrow> r_threshold d)"
    "nullish (case f of None \<Rightarrow> JUndef | Some m \<Rightarrow> JNum (Fin (of_int m))) (num_js (of_int (r_for d div MINUTE))) = num_js (of_int (case f of Some m \<Rightarrow> m | None \<Rightarrow> r_for d div MINUTE))"
    by (simp_all add: num_js_def split: option.split)
  have u: "(if (case cl of None \<Rightarrow> JUndef | Some x \<Rightarrow> clear_js x) \<noteq> JUndef then (case cl of None \<Rightarrow> JUndef | Some x \<Rightarrow> clear_js x) else clear_js (r_clear d)) =
      clear_js (case cl of Some x \<Rightarrow> x | None \<Rightarrow> r_clear d)" by (cases cl) simp_all
  have w: "(if truthy (case sev of None \<Rightarrow> JUndef | Some s \<Rightarrow> sev_js s) then (case sev of None \<Rightarrow> JUndef | Some s \<Rightarrow> sev_js s) else sev_js (r_severity d)) =
      sev_js (case sev of Some x \<Rightarrow> x | None \<Rightarrow> r_severity d)" by (cases sev) simp_all
  have "find (\<lambda>r. fld ''id'' r = JStr (r_id d)) (map crule_js cs) = Some (crule_js c)" using found Some by (simp add: find_crule_js)
  then show ?thesis
    by (simp only: default_row_def page_default_fields [OF d] option.case Let_def f override_rows_def v o t u w str_of.simps)
      (simp add: Some c default_row_of_def)
qed

lemma num_js_inj [simp]: "num_js a = num_js b \<longleftrightarrow> a = b"
  by (simp add: num_js_def)

lemma clear_js_inj [simp]: "clear_js x = clear_js y \<longleftrightarrow> x = y"
  by (cases x; cases y) (simp_all add: clear_js_def num_js_def)

lemma sev_js_inj [simp]: "sev_js s = sev_js t \<longleftrightarrow> s = t"
  by (cases s; cases t) simp_all

lemma differing_same:
  assumes "\<And>a b. g a = g b \<longleftrightarrow> a = b" "fld k d = g a"
  shows "differing k (g (case x of Some y \<Rightarrow> y | None \<Rightarrow> a)) d = opt_field k (map_option g (drop_same a x))"
  using assms by (cases x) (auto simp: differing_def drop_same_def)

lemma opt_field_Nil [simp]: "opt_field k v = [] \<longleftrightarrow> v = None"
  by (cases v) (simp_all add: opt_field_def)

lemma default_out_js:
  assumes d: "d \<in> set DEFAULT_RULES" and ok: "ok_crule ids c" and i: "c_id c = r_id d" and c: "c = CDefault rid th f cl sev off ovs"
  shows "default_out (default_for_page d) (default_row_of d (Some c)) = map_option crule_js (norm_rule d c)"
proof -
  note p = page_default_fields [OF d]
  have rid: "rid = r_id d" using i c by simp
  have dr: "default_rule rid = Some d" using default_facts(1) [OF d] rid by simp
  have "list_all (ok_override ids rid (r_metric d)) ovs" using ok c dr by (simp add: ok_overrides_def)
  then have v: "map (ovrow_js \<circ> (override_row \<circ> override_js)) ovs = map override_js ovs"
    using overrides_back [of ids rid "r_metric d" ovs] by simp
  have tail: "row_tail (default_row_of d (Some c)) = tail_js off ovs"
    by (simp add: c row_tail_def default_row_of_def tail_js_def v)
  have t: "differing ''threshold'' (rw_threshold (default_row_of d (Some c))) (default_for_page d) = opt_field ''threshold'' (map_option num_js (drop_same (r_threshold d) th))"
    unfolding c default_row_of_def by (simp, rule differing_same) (simp_all add: p)
  have "(case f of None \<Rightarrow> num_js (of_int (r_for d div MINUTE)) | Some m \<Rightarrow> num_js (of_int m)) = (\<lambda>m. num_js (of_int m)) (case f of Some m \<Rightarrow> m | None \<Rightarrow> r_for d div MINUTE)"
    by (simp split: option.split)
  then have u: "differing ''for'' (rw_for (default_row_of d (Some c))) (default_for_page d) = opt_field ''for'' (map_option (\<lambda>m. num_js (of_int m)) (drop_same (r_for d div MINUTE) f))"
    using differing_same [of "\<lambda>m. num_js (of_int m)" "''for''" "default_for_page d" "r_for d div MINUTE" f] p by (simp add: c default_row_of_def)
  have w: "differing ''clear'' (rw_clear (default_row_of d (Some c))) (default_for_page d) = opt_field ''clear'' (map_option clear_js (drop_same (r_clear d) cl))"
    unfolding c default_row_of_def by (simp, rule differing_same) (simp_all add: p)
  have x: "differing ''severity'' (JStr (rw_severity (default_row_of d (Some c)))) (default_for_page d) = opt_field ''severity'' (map_option sev_js (drop_same (r_severity d) sev))"
    unfolding c default_row_of_def by (simp, rule differing_same) (simp_all add: p)
  have off: "rid = ''offline'' \<Longrightarrow> th = None \<and> f = None \<and> drop_same (r_clear d) cl = None"
  proof -
    assume "rid = ''offline''"
    moreover from this have "r_clear d = None" using d rid by (auto simp: DEFAULT_RULES_def mk_rule_def)
    ultimately show ?thesis using ok c dr by (auto simp: drop_same_def)
  qed
  have n: "drop_same a (None :: 'a option) = None" for a by (simp add: drop_same_def)
  show ?thesis
    unfolding default_out_def Let_def t u w x tail
    using off by (cases "rid = ''offline''")
      (auto simp: c default_row_of_def norm_rule_def Let_def rid drop_same_def tail_js_def opt_field_def split: option.splits)
qed

lemma default_out_same:
  assumes d: "d \<in> set DEFAULT_RULES"
  shows "default_out (default_for_page d) (default_row_of d None) = None"
  using page_default_fields [OF d]
  by (simp add: default_out_def default_row_of_def differing_def row_tail_def opt_field_def del: fld.simps)

section \<open>The file again\<close>

lemma find_page: "find (\<lambda>x. fld ''id'' x = JStr i) (map default_for_page ds) = map_option default_for_page (find (\<lambda>d. r_id d = i) ds)"
  by (induction ds) (simp_all add: default_for_page_def)

lemma find_page_default: "d \<in> set DEFAULT_RULES \<Longrightarrow> find (\<lambda>x. fld ''id'' x = JStr (r_id d)) defaultsForPage = Some (default_for_page d)"
  using default_facts(1) unfolding defaultsForPage_def find_page by (simp add: default_rule_def find_rule_def)

definition saved_again :: "crule list \<Rightarrow> crule list" where
  "saved_again cs = List.map_filter (\<lambda>d. case find (\<lambda>c. c_id c = r_id d) cs of None \<Rightarrow> None | Some c \<Rightarrow> norm_rule d c) DEFAULT_RULES @
     filter (\<lambda>c. default_rule (c_id c) = None) cs"

lemma default_found:
  assumes "list_all (ok_crule ids) cs" "find (\<lambda>c. c_id c = r_id d) cs = Some c" "d \<in> set DEFAULT_RULES"
  obtains rid th f cl sev off ovs where "c = CDefault rid th f cl sev off ovs" "ok_crule ids c" "c_id c = r_id d"
proof -
  have c: "ok_crule ids c" "c_id c = r_id d" using assms find_SomeD [OF assms(2)] by (auto simp: list_all_iff)
  then show ?thesis using that default_facts(1) [OF assms(3)] by (cases c) auto
qed

lemma own_found:
  assumes "list_all (ok_crule ids) cs" "c \<in> set cs" "default_rule (c_id c) = None"
  obtains rid name metric op th sc sub f cl sev off ovs
  where "c = COwn rid name metric op th sc sub f cl sev off ovs" "ok_crule ids c"
proof -
  have "ok_crule ids c" using assms by (auto simp: list_all_iff)
  then show ?thesis using that assms(3) by (cases c) auto
qed

lemma page_knows: "list_ex (\<lambda>d. fld ''id'' d = JStr i) defaultsForPage \<longleftrightarrow> default_rule i \<noteq> None"
proof -
  have "list_ex (\<lambda>d. fld ''id'' d = JStr i) defaultsForPage \<longleftrightarrow> (\<exists>d \<in> set DEFAULT_RULES. r_id d = i)"
    by (auto simp: list_ex_iff defaultsForPage_def page_default_fields simp del: fld.simps)
  also have "\<dots> \<longleftrightarrow> default_rule i \<noteq> None" by (auto simp: default_rule_def find_rule_def find_None_iff)
  finally show ?thesis .
qed

lemma rows_of_file:
  assumes "list_all (ok_crule ids) cs"
  shows "rulesRows (rules_js cs) defaultsForPage =
    map (\<lambda>d. default_row_of d (find (\<lambda>c. c_id c = r_id d) cs)) DEFAULT_RULES @ map own_row_of (filter (\<lambda>c. default_rule (c_id c) = None) cs)"
proof -
  have rs: "list_of (fld ''rules'' (rules_js cs)) = map crule_js cs" by (simp add: rules_js_def list_of_def)
  have a: "map (default_row (map crule_js cs)) defaultsForPage = map (\<lambda>d. default_row_of d (find (\<lambda>c. c_id c = r_id d) cs)) DEFAULT_RULES"
    unfolding defaultsForPage_def map_map
  proof (rule map_cong [OF refl])
    fix d assume d: "d \<in> set DEFAULT_RULES"
    have "pred_option (\<lambda>c. \<exists>rid th f cl sev off ovs. c = CDefault rid th f cl sev off ovs) (find (\<lambda>c. c_id c = r_id d) cs)"
      by (cases "find (\<lambda>c. c_id c = r_id d) cs") (auto elim: default_found [OF assms _ d])
    then show "(default_row (map crule_js cs) \<circ> default_for_page) d = default_row_of d (find (\<lambda>c. c_id c = r_id d) cs)"
      using default_row_js [OF d refl] by simp
  qed
  have "filter (\<lambda>r. \<not> list_ex (\<lambda>d. fld ''id'' d = fld ''id'' r) defaultsForPage) (map crule_js cs) = map crule_js (filter (\<lambda>c. default_rule (c_id c) = None) cs)"
    by (simp add: filter_map comp_def crule_id_js page_knows del: fld.simps)
  moreover have "map own_row (map crule_js (filter (\<lambda>c. default_rule (c_id c) = None) cs)) = map own_row_of (filter (\<lambda>c. default_rule (c_id c) = None) cs)"
    unfolding map_map
  proof (rule map_cong [OF refl])
    fix c assume "c \<in> set (filter (\<lambda>c. default_rule (c_id c) = None) cs)"
    then have c: "c \<in> set cs" "default_rule (c_id c) = None" by simp_all
    show "(own_row \<circ> crule_js) c = own_row_of c"
      unfolding o_apply by (rule own_found [OF assms c]) (erule (1) own_row_js)
  qed
  ultimately show ?thesis unfolding rulesRows_def rs Let_def a by simp
qed

lemma default_row_of_simps [simp]:
  "rw_id (default_row_of d x) = r_id d" "\<not> rw_own (default_row_of d x)" "rw_metric (default_row_of d x) = r_metric d"
  "rw_op (default_row_of d x) = str_of (rel_js (r_op d))"
  by (auto simp: default_row_of_def split: option.split crule.split)

lemma rule_out_default:
  assumes ok: "list_all (ok_crule ids) cs" and d: "d \<in> set DEFAULT_RULES"
  shows "rule_out defaultsForPage (default_row_of d (find (\<lambda>c. c_id c = r_id d) cs)) =
    map_option crule_js (case find (\<lambda>c. c_id c = r_id d) cs of None \<Rightarrow> None | Some c \<Rightarrow> norm_rule d c)"
proof (cases "find (\<lambda>c. c_id c = r_id d) cs")
  case None
  then show ?thesis by (simp add: rule_out_def find_page_default [OF d] default_out_same [OF d])
next
  case (Some c)
  obtain rid th f cl sev off ovs where c: "c = CDefault rid th f cl sev off ovs" "ok_crule ids c" "c_id c = r_id d"
    by (rule default_found [OF ok Some d])
  show ?thesis unfolding Some rule_out_def
    by (simp add: find_page_default [OF d] default_out_js [OF d c(2,3,1)])
qed

lemma rule_out_own: "rw_own r \<Longrightarrow> rule_out ds r = Some (own_out r)"
  by (auto simp: rule_out_def split: option.split)

lemma map_filter_js: "(\<And>d. d \<in> set ds \<Longrightarrow> f (h d) = map_option g (k d)) \<Longrightarrow> List.map_filter f (map h ds) = map g (List.map_filter k ds)"
  by (induction ds) (auto simp: List.map_filter_simps split: option.split)

lemma map_filter_all: "(\<And>x. x \<in> set xs \<Longrightarrow> f x = Some (g x)) \<Longrightarrow> List.map_filter f xs = map g xs"
  by (induction xs) (auto simp: List.map_filter_simps)

lemma map_filter_app: "List.map_filter f (xs @ ys) = List.map_filter f xs @ List.map_filter f ys"
  by (simp add: List.map_filter_def)

lemma fld_eq_crule: "fld_eq (crule_js c) (crule_js c)"
  by (simp add: fld_eq_def del: fld.simps crule_js.simps)

lemma file_again:
  assumes ok: "list_all (ok_crule ids) cs"
  shows "list_all2 fld_eq (List.map_filter (rule_out defaultsForPage) (rulesRows (rules_js cs) defaultsForPage)) (map crule_js (saved_again cs))"
proof -
  let ?own = "filter (\<lambda>c. default_rule (c_id c) = None) cs"
  have a: "List.map_filter (rule_out defaultsForPage) (map (\<lambda>d. default_row_of d (find (\<lambda>c. c_id c = r_id d) cs)) DEFAULT_RULES) =
      map crule_js (List.map_filter (\<lambda>d. case find (\<lambda>c. c_id c = r_id d) cs of None \<Rightarrow> None | Some c \<Rightarrow> norm_rule d c) DEFAULT_RULES)"
    by (rule map_filter_js) (rule rule_out_default [OF ok])
  have own: "\<exists>rid name metric op th sc sub f cl sev off ovs. c = COwn rid name metric op th sc sub f cl sev off ovs \<and> ok_crule ids c"
    if "c \<in> set ?own" for c
    using that by (auto elim!: own_found [OF ok])
  have b: "List.map_filter (rule_out defaultsForPage) (map own_row_of ?own) = map (own_out \<circ> own_row_of) ?own"
    unfolding map_map [symmetric] by (rule map_filter_all, rule rule_out_own) (use own in \<open>fastforce simp: own_row_of_def\<close>)
  have "list_all2 fld_eq (map (own_out \<circ> own_row_of) ?own) (map crule_js ?own)"
    unfolding list_all2_map1 list_all2_map2
    by (rule list.rel_refl_strong) (use own own_out_js in \<open>fastforce simp: list_all2_same\<close>)
  moreover have "list_all2 fld_eq (map crule_js xs) (map crule_js xs)" for xs
    by (simp add: list_all2_map1 list_all2_map2 list_all2_same fld_eq_crule)
  ultimately show ?thesis
    unfolding rows_of_file [OF ok] saved_again_def map_filter_app a b map_append by (intro list_all2_appendI)
qed

text \<open>The checks of the hub read members only, not their order.\<close>

lemma check_rule_cong:
  assumes e: "fld_eq a b"
  shows "check_rule i ids seen a = check_rule i ids seen b"
proof -
  have f: "fld k a = fld k b" for k using e by (simp add: fld_eq_def)
  have "is_obj a" "is_obj b" using e by (simp_all add: fld_eq_def)
  moreover have "rule_at rid a = rule_at rid b" for rid by (simp only: rule_at_def f)
  moreover have "check_default lbl ids d a = check_default lbl ids d b" for lbl d by (simp only: check_default_def f)
  moreover have "check_own lbl ids rid a = check_own lbl ids rid b" for lbl rid by (simp only: check_own_def f)
  ultimately show ?thesis by (simp only: check_rule_def f if_True)
qed

lemma check_list_cong: "list_all2 fld_eq as bs \<Longrightarrow> check_list i ids seen as = check_list i ids seen bs"
  by (induction as bs arbitrary: i seen rule: list_all2_induct) (simp_all add: check_rule_cong)

text \<open>The changes that are left.\<close>

lemma norm_ok:
  assumes d: "d \<in> set DEFAULT_RULES" and c: "c = CDefault rid th f cl sev off ovs" "ok_crule ids c" "c_id c = r_id d" and n: "norm_rule d c = Some c'"
  shows "ok_crule ids c' \<and> c_id c' = r_id d"
proof -
  have dr: "default_rule rid = Some d" using default_facts(1) [OF d] c by simp
  have e: "(case drop_same a x of Some y \<Rightarrow> y | None \<Rightarrow> a) = (case x of Some y \<Rightarrow> y | None \<Rightarrow> a)" for a :: 'z and x
    by (cases x) (simp_all add: drop_same_def)
  have p: "pred_option P x \<Longrightarrow> pred_option P (drop_same a x)" for P x and a :: 'z by (simp add: drop_same_def)
  have c': "c' = CDefault rid (drop_same (r_threshold d) th) (drop_same (r_for d div MINUTE) f) (drop_same (r_clear d) cl) (drop_same (r_severity d) sev) off ovs"
    using n by (auto simp: norm_rule_def c(1) Let_def split: if_splits)
  show ?thesis
    using c(2,3) dr unfolding c(1) c' by (auto simp: e p drop_same_def)
qed

lemma norm_edit:
  assumes d: "d \<in> set DEFAULT_RULES" and c: "c = CDefault rid th f cl sev off ovs"
  shows "(case norm_rule d c of Some c' \<Rightarrow> edit_default d c' | None \<Rightarrow> d) = edit_default d c"
proof -
  have m: "(r_for d div MINUTE) * MINUTE = r_for d" "\<not> r_off d" "r_overrides d = []"
    using d by (auto simp: DEFAULT_RULES_def mk_rule_def MINUTE_def)
  have e: "(case drop_same a x of Some y \<Rightarrow> y | None \<Rightarrow> a) = (case x of Some y \<Rightarrow> y | None \<Rightarrow> a)" for a :: 'z and x
    by (cases x) (simp_all add: drop_same_def)
  have f: "(case drop_same (r_for d div MINUTE) f of Some m \<Rightarrow> m * MINUTE | None \<Rightarrow> r_for d) = (case f of Some m \<Rightarrow> m * MINUTE | None \<Rightarrow> r_for d)"
    using m(1) by (cases f) (auto simp: drop_same_def)
  show ?thesis
  proof (cases "norm_rule d c")
    case (Some c')
    then have "c' = CDefault rid (drop_same (r_threshold d) th) (drop_same (r_for d div MINUTE) f) (drop_same (r_clear d) cl) (drop_same (r_severity d) sev) off ovs"
      by (auto simp: norm_rule_def c Let_def split: if_splits)
    then show ?thesis unfolding Some by (simp add: c edit_default_def e f)
  next
    case None
    then have "drop_same (r_threshold d) th = None" "drop_same (r_for d div MINUTE) f = None" "drop_same (r_clear d) cl = None"
      "drop_same (r_severity d) sev = None" "\<not> off" "ovs = []"
      by (auto simp: norm_rule_def c Let_def split: if_splits)
    then have v: "(case th of Some q \<Rightarrow> q | None \<Rightarrow> r_threshold d) = r_threshold d" "(case f of Some m \<Rightarrow> m * MINUTE | None \<Rightarrow> r_for d) = r_for d"
      "(case cl of Some x \<Rightarrow> x | None \<Rightarrow> r_clear d) = r_clear d" "(case sev of Some x \<Rightarrow> x | None \<Rightarrow> r_severity d) = r_severity d" "\<not> off" "ovs = []"
      using m(1) by (auto simp: drop_same_def split: if_splits option.split)
    have "edit_default d c = d"
      by (rule rule.equality) (use v m in \<open>simp_all add: c edit_default_def\<close>)
    then show ?thesis using None by simp
  qed
qed

lemma kept_from:
  assumes "\<And>d c. d \<in> set ds \<Longrightarrow> k d = Some c \<Longrightarrow> c_id c = r_id d" "c \<in> set (List.map_filter k ds)"
  obtains d where "d \<in> set ds" "c_id c = r_id d"
proof -
  obtain d where "d \<in> set ds" "k d = Some c" using assms(2) by (auto simp: List.map_filter_def)
  then show ?thesis using assms(1) that by blast
qed

lemma kept_fresh:
  assumes "\<And>d c. d \<in> set ds \<Longrightarrow> k d = Some c \<Longrightarrow> c_id c = r_id d" "i \<notin> r_id ` set ds" "c \<in> set (List.map_filter k ds)"
  shows "c_id c \<noteq> i"
  by (rule kept_from [OF assms(1,3)]) (use assms(2) in auto)

lemma kept_distinct:
  assumes "\<And>d c. d \<in> set ds \<Longrightarrow> k d = Some c \<Longrightarrow> c_id c = r_id d" "distinct (map r_id ds)"
  shows "distinct (map c_id (List.map_filter k ds))"
  using assms
proof (induction ds)
  case (Cons x ds)
  have out: "c_id c \<noteq> r_id x" if "c \<in> set (List.map_filter k ds)" for c
    by (rule kept_fresh [OF _ _ that]) (use Cons.prems in auto)
  have IH: "distinct (map c_id (List.map_filter k ds))" by (rule Cons.IH) (use Cons.prems in auto)
  show ?case
  proof (cases "k x")
    case (Some c)
    then have "c_id c = r_id x" using Cons.prems(1) by simp
    then have "c_id c \<notin> c_id ` set (List.map_filter k ds)" using out by (metis imageE)
    then show ?thesis using IH Some by (simp add: List.map_filter_simps)
  qed (use IH in \<open>simp add: List.map_filter_simps\<close>)
qed (simp add: List.map_filter_simps)

lemma kept_find:
  assumes "\<And>d c. d \<in> set ds \<Longrightarrow> k d = Some c \<Longrightarrow> c_id c = r_id d" "distinct (map r_id ds)" "d \<in> set ds"
  shows "find (\<lambda>c. c_id c = r_id d) (List.map_filter k ds) = k d"
  using assms
proof (induction ds)
  case (Cons x ds)
  have out: "c_id c \<noteq> r_id x" if "c \<in> set (List.map_filter k ds)" for c
    by (rule kept_fresh [OF _ _ that]) (use Cons.prems in auto)
  show ?case
  proof (cases "d = x")
    case True
    have "find (\<lambda>c. c_id c = r_id x) (List.map_filter k ds) = None" unfolding find_None_iff using out by blast
    then show ?thesis using True Cons.prems(1) [of x] by (cases "k x") (simp_all add: List.map_filter_simps)
  next
    case False
    then have d: "d \<in> set ds" using Cons.prems(3) by simp
    then have n: "r_id x \<noteq> r_id d" using Cons.prems(2) by (metis distinct.simps(2) image_eqI list.set_map list.simps(9))
    have IH: "find (\<lambda>c. c_id c = r_id d) (List.map_filter k ds) = k d" by (rule Cons.IH) (use Cons.prems d in auto)
    then show ?thesis using n Cons.prems(1) [of x] by (cases "k x") (simp_all add: List.map_filter_simps)
  qed
qed simp

definition kept_change :: "crule list \<Rightarrow> rule \<Rightarrow> crule option" where
  "kept_change cs d = (case find (\<lambda>c. c_id c = r_id d) cs of None \<Rightarrow> None | Some c \<Rightarrow> norm_rule d c)"

lemma saved_again_kept: "saved_again cs = List.map_filter (kept_change cs) DEFAULT_RULES @ filter (\<lambda>c. default_rule (c_id c) = None) cs"
  by (simp add: saved_again_def kept_change_def [abs_def])

lemma kept_ok:
  assumes ok: "list_all (ok_crule ids) cs" and d: "d \<in> set DEFAULT_RULES" and k: "kept_change cs d = Some c"
  shows "ok_crule ids c \<and> c_id c = r_id d" "r_id d \<in> c_id ` set cs"
proof -
  obtain c0 where c0: "find (\<lambda>c. c_id c = r_id d) cs = Some c0" "norm_rule d c0 = Some c"
    using k by (auto simp: kept_change_def split: option.splits)
  obtain rid th f cl sev off ovs where c: "c0 = CDefault rid th f cl sev off ovs" "ok_crule ids c0" "c_id c0 = r_id d"
    by (rule default_found [OF ok c0(1) d])
  show "ok_crule ids c \<and> c_id c = r_id d" by (rule norm_ok [OF d c c0(2)])
  show "r_id d \<in> c_id ` set cs" using find_SomeD [OF c0(1)] c(3) by (auto intro: rev_image_eqI)
qed

lemma distinct_defaults: "distinct (map r_id DEFAULT_RULES)"
  by code_simp

lemma saved_again_ok:
  assumes ok: "ok_file ids cs"
  shows "ok_file ids (saved_again cs)"
proof -
  have l: "list_all (ok_crule ids) cs" "distinct (map c_id cs)" "length cs \<le> MAX_RULES" using ok by (simp_all add: ok_file_def)
  let ?kept = "List.map_filter (kept_change cs) DEFAULT_RULES" and ?own = "filter (\<lambda>c. default_rule (c_id c) = None) cs"
  have k: "d \<in> set DEFAULT_RULES \<Longrightarrow> kept_change cs d = Some c \<Longrightarrow> c_id c = r_id d" for d c using kept_ok(1) [OF l(1)] by blast
  have from_cs: "c_id c \<in> c_id ` set cs \<and> ok_crule ids c \<and> default_rule (c_id c) \<noteq> None" if c: "c \<in> set ?kept" for c
  proof -
    obtain d where "d \<in> set DEFAULT_RULES" "kept_change cs d = Some c" using c by (auto simp: List.map_filter_def)
    then show ?thesis using kept_ok [OF l(1)] default_facts(1) by fastforce
  qed
  have "distinct (map c_id ?kept)" by (rule kept_distinct [OF k distinct_defaults])
  moreover have "distinct (map c_id ?own)" using l(2) by (rule distinct_map_filter)
  ultimately have dist: "distinct (map c_id (saved_again cs))"
    unfolding saved_again_kept using from_cs by fastforce
  have "set (map c_id (saved_again cs)) \<subseteq> set (map c_id cs)" unfolding saved_again_kept using from_cs by auto
  then have "length (map c_id (saved_again cs)) \<le> length (map c_id cs)"
    unfolding distinct_card [OF dist, symmetric] distinct_card [OF l(2), symmetric] by (rule card_mono [OF finite_set])
  moreover have "list_all (ok_crule ids) (saved_again cs)"
    unfolding saved_again_kept using from_cs l(1) by (auto simp: list_all_iff)
  ultimately show ?thesis using l(3) dist by (simp add: ok_file_def)
qed

lemma find_app: "find P (xs @ ys) = (case find P xs of None \<Rightarrow> find P ys | Some x \<Rightarrow> Some x)"
  by (induction xs) simp_all

lemma saved_again_built:
  assumes ok: "ok_file ids cs"
  shows "buildRules (saved_again cs) = buildRules cs"
proof -
  have l: "list_all (ok_crule ids) cs" using ok by (simp add: ok_file_def)
  let ?kept = "List.map_filter (kept_change cs) DEFAULT_RULES" and ?own = "filter (\<lambda>c. default_rule (c_id c) = None) cs"
  have k: "d \<in> set DEFAULT_RULES \<Longrightarrow> kept_change cs d = Some c \<Longrightarrow> c_id c = r_id d" for d c using kept_ok(1) [OF l] by blast
  have found: "find (\<lambda>c. c_id c = r_id d) (saved_again cs) = kept_change cs d" if d: "d \<in> set DEFAULT_RULES" for d
  proof -
    have "find (\<lambda>c. c_id c = r_id d) ?own = None" using default_facts(1) [OF d] by (auto simp: find_None_iff)
    then show ?thesis unfolding saved_again_kept find_app using kept_find [OF k distinct_defaults d] by (auto split: option.split)
  qed
  have "(case kept_change cs d of Some c \<Rightarrow> edit_default d c | None \<Rightarrow> d) = (case find (\<lambda>c. c_id c = r_id d) cs of Some c \<Rightarrow> edit_default d c | None \<Rightarrow> d)"
    if d: "d \<in> set DEFAULT_RULES" for d
  proof (cases "find (\<lambda>c. c_id c = r_id d) cs")
    case (Some c)
    obtain rid th f cl sev off ovs where "c = CDefault rid th f cl sev off ovs" by (rule default_found [OF l Some d])
    then show ?thesis using norm_edit [OF d] by (simp add: kept_change_def Some)
  qed (simp add: kept_change_def)
  then have a: "map (\<lambda>d. case find (\<lambda>c. c_id c = r_id d) (saved_again cs) of Some c \<Rightarrow> edit_default d c | None \<Rightarrow> d) DEFAULT_RULES =
      map (\<lambda>d. case find (\<lambda>c. c_id c = r_id d) cs of Some c \<Rightarrow> edit_default d c | None \<Rightarrow> d) DEFAULT_RULES"
    by (simp add: found cong: map_cong)
  have "default_rule (c_id c) \<noteq> None" if "c \<in> set ?kept" for c
    by (rule kept_from [OF k that]) (use default_facts(1) in auto)
  then have "filter (\<lambda>c. default_rule (c_id c) = None) ?kept = []" by (auto simp: filter_empty_conv)
  then have "filter (\<lambda>c. default_rule (c_id c) = None) (saved_again cs) = ?own" unfolding saved_again_kept by simp
  then show ?thesis unfolding buildRules_def a by simp
qed

section \<open>Opening the editor and saving\<close>

lemma overrides_drawn:
  assumes "list_all (ok_override ids rid metric) ovs" "metric \<notin> set YESNO \<Longrightarrow> rid \<noteq> ''offline'' \<Longrightarrow> m \<noteq> ''offline'' \<and> m \<notin> set YESNO"
  shows "\<forall>v \<in> set (map (override_row \<circ> override_js) ovs). if or_off v then or_threshold v = JNull
        else num_or_null (or_threshold v) \<and> m \<noteq> ''offline'' \<and> m \<notin> set YESNO"
proof
  fix v assume "v \<in> set (map (override_row \<circ> override_js) ovs)"
  then obtain ov where ov: "ov \<in> set ovs" "v = override_row (override_js ov)" by auto
  then have "ok_override ids rid metric ov" using assms(1) by (auto simp: list_all_iff)
  then show "if or_off v then or_threshold v = JNull else num_or_null (or_threshold v) \<and> m \<noteq> ''offline'' \<and> m \<notin> set YESNO"
    using assms(2) by (cases "ov_threshold ov") (auto simp: ov(2) override_row_def ok_override_def Let_def simp del: fld.simps)
qed

lemma num_or_null_js [simp]: "num_or_null (num_js q)" "num_or_null (clear_js x)"
  by (cases x; simp add: num_js_def clear_js_def)+

lemma own_row_fine:
  assumes c: "c = COwn rid name metric op th sc sub f cl sev off ovs" "ok_crule ids c"
  shows "row_fine (own_row_of c)"
proof -
  have m: "metric \<noteq> ''offline''" using c by (auto simp: METRICS_def)
  have s: "\<not> is_sub_metric metric \<Longrightarrow> sub = []" using c by (auto simp: ok_sub_def METRICS_def is_sub_metric_def split: if_splits)
  have e: "str_of (rel_js op) = ''=='' \<Longrightarrow> cl = None" using c by (cases op; cases cl) (auto simp: near_side_def)
  have "list_all (ok_override ids rid metric) ovs" using c by (simp add: ok_overrides_def)
  note v = overrides_drawn [OF this, of metric]
  show ?thesis unfolding row_fine_def using m s e v by (simp add: c(1) own_row_of_def)
qed

lemma default_row_fine:
  assumes d: "d \<in> set DEFAULT_RULES" and x: "pred_option (\<lambda>c. \<exists>rid th f cl sev off ovs. c = CDefault rid th f cl sev off ovs \<and> ok_crule ids c \<and> c_id c = r_id d) x"
  shows "row_fine (default_row_of d x)"
proof -
  have op: "r_op d = Ge" using d by (auto simp: DEFAULT_RULES_def mk_rule_def)
  show ?thesis
  proof (cases x)
    case None
    then show ?thesis using op by (simp add: row_fine_def default_row_of_def)
  next
    case (Some c)
    then obtain rid th f cl sev off ovs where c: "c = CDefault rid th f cl sev off ovs" "ok_crule ids c" "c_id c = r_id d" using x by auto
    have dr: "default_rule rid = Some d" using default_facts(1) [OF d] c by simp
    have o: "list_all (ok_override ids rid (r_metric d)) ovs" using c dr by (simp add: ok_overrides_def)
    have "rid \<noteq> ''offline'' \<Longrightarrow> r_metric d \<noteq> ''offline''" using default_facts(3,4) [OF d] c by simp
    then have v: "\<forall>v \<in> set (map (override_row \<circ> override_js) ovs). if or_off v then or_threshold v = JNull
        else num_or_null (or_threshold v) \<and> r_metric d \<noteq> ''offline'' \<and> r_metric d \<notin> set YESNO"
      by (intro overrides_drawn [OF o]) simp
    show ?thesis unfolding row_fine_def using v op by (simp add: Some c(1) default_row_of_def)
  qed
qed

lemma rows_fine:
  assumes ok: "list_all (ok_crule ids) cs"
  shows "list_all row_fine (rulesRows (rules_js cs) defaultsForPage)"
proof -
  have "row_fine (default_row_of d (find (\<lambda>c. c_id c = r_id d) cs))" if d: "d \<in> set DEFAULT_RULES" for d
    by (rule default_row_fine [OF d]) (cases "find (\<lambda>c. c_id c = r_id d) cs"; auto elim: default_found [OF ok _ d])
  moreover have "row_fine (own_row_of c)" if c: "c \<in> set cs" "default_rule (c_id c) = None" for c
    by (rule own_found [OF ok c]) (erule (1) own_row_fine)
  ultimately show ?thesis unfolding rows_of_file [OF ok] by (auto simp: list_all_iff)
qed


text \<open>A file that changes two defaults, one to its own value, with an override, and adds a rule of one's own.\<close>

definition demo_edit :: jsval where
  "demo_edit = JObj [(''rules'', JArr [
     JObj [(''id'', JStr ''temperature''), (''threshold'', JNum (Fin (161 / 2))), (''overrides'', JArr [JObj [(''tag'', JStr ''nas''), (''off'', JBool True)]])],
     JObj [(''id'', JStr ''c_1''), (''name'', JStr ''warm''), (''metric'', JStr ''temp''), (''op'', JStr ''>=''), (''threshold'', JNum (Fin (401 / 10))), (''severity'', JStr ''info'')],
     JObj [(''id'', JStr ''memory''), (''for'', JNum (Fin 10))]])]"


end
