(* ===== verification/Smtp.thy ===== *)
theory Smtp
  imports Notify
begin

text \<open>
  Mail (\<^verbatim>\<open>hub/lib/smtp.js\<close>): the message, the reader of the server's replies, and the conversation of
  \<^verbatim>\<open>sendMail\<close> as a machine whose steps are the socket's events. \<^verbatim>\<open>talk()\<close> waits for one reply at a time; the
  phase says where it waits, and the reply that comes resumes it there. A line that is sent is kept with
  whether the socket was TLS then. The date, the random part of the message id and the name of this host
  are arguments; the certificate check is Node's. The last section proves that a login and a message leave
  only over TLS (or to this host), and that a mail counts as sent only when the server said yes to every
  command, in order.
\<close>

section \<open>Lines\<close>

abbreviation (input) CR :: char where "CR \<equiv> CHR 0x0D"

definition CRLF :: string where "CRLF = [CHR 0x0D, CHR 0x0A]"

text \<open>\<^verbatim>\<open>s.split("\r\n")\<close> and \<^verbatim>\<open>join("\r\n")\<close>\<close>

fun split_crlf :: "string \<Rightarrow> string list" where
  "split_crlf (a # b # s) = (if a = CHR 0x0D \<and> b = CHR 0x0A then [] # split_crlf s
     else (case split_crlf (b # s) of [] \<Rightarrow> [[a]] | p # ps \<Rightarrow> (a # p) # ps))"
| "split_crlf [a] = [[a]]"
| "split_crlf [] = [[]]"

abbreviation join_crlf :: "string list \<Rightarrow> string" where
  "join_crlf \<equiv> join_with CRLF"

lemma split_crlf_nonempty [simp]: "split_crlf s \<noteq> []"
  by (induction s rule: split_crlf.induct) (auto split: list.splits)

lemma join_split_crlf [simp]: "join_crlf (split_crlf s) = s"
proof (induction s rule: split_crlf.induct)
  case (1 a b s)
  show ?case
  proof (cases "a = CHR 0x0D \<and> b = CHR 0x0A")
    case True
    with 1(1) show ?thesis by (cases "split_crlf s") (auto simp: CRLF_def)
  next
    case False
    obtain p ps where p: "split_crlf (b # s) = p # ps" by (cases "split_crlf (b # s)") auto
    then show ?thesis using False 1(2) by (cases ps) auto
  qed
qed simp_all

lemma split_crlf_one: "split_crlf s = [p] \<Longrightarrow> p = s"
  by (metis join_split_crlf join_with.simps(2))

lemma split_crlf_append: "split_crlf (b @ c) = butlast (split_crlf b) @ split_crlf (last (split_crlf b) @ c)"
proof (induction b rule: split_crlf.induct)
  case (1 x y s)
  show ?case
  proof (cases "x = CHR 0x0D \<and> y = CHR 0x0A")
    case True
    with 1(1) show ?thesis by simp
  next
    case False
    note IH = 1(2) [OF False]
    obtain p ps where p: "split_crlf (y # s) = p # ps" by (cases "split_crlf (y # s)") auto
    show ?thesis
    proof (cases ps)
      case Nil
      then have "p = y # s" using split_crlf_one p Nil by simp
      then have "split_crlf (x # y # s) = [x # y # s]" using False p Nil by auto
      then show ?thesis by (simp del: split_crlf.simps)
    next
      case (Cons q qs)
      then show ?thesis using False p IH by auto
    qed
  qed
qed simp_all

section \<open>The message\<close>

definition utf8 :: "char \<Rightarrow> nat list" where
  "utf8 c = (let n = of_char c in if n < 128 then [n] else [192 + n div 64, 128 + n mod 64])"

definition B64 :: string where
  "B64 = ''ABCDEFGHIJKLMNOPQRSTUVWXYZabcdefghijklmnopqrstuvwxyz0123456789+/''"

fun b64_bytes :: "nat list \<Rightarrow> string" where
  "b64_bytes (a # b # c # s) = B64 ! (a div 4 mod 64) # B64 ! (a mod 4 * 16 + b div 16 mod 16) # B64 ! (b mod 16 * 4 + c div 64 mod 4) # B64 ! (c mod 64) # b64_bytes s"
| "b64_bytes [a, b] = [B64 ! (a div 4 mod 64), B64 ! (a mod 4 * 16 + b div 16 mod 16), B64 ! (b mod 16 * 4), CHR ''='']"
| "b64_bytes [a] = [B64 ! (a div 4 mod 64), B64 ! (a mod 4 * 16), CHR ''='', CHR ''='']"
| "b64_bytes [] = []"

definition b64 :: "string \<Rightarrow> string" where
  "b64 s = b64_bytes (concat (map utf8 s))"

function pieces :: "nat \<Rightarrow> 'a list \<Rightarrow> 'a list list" where
  "pieces n [] = []"
| "pieces n (x # xs) = take (Suc n) (x # xs) # pieces n (drop n xs)"
  by pat_completeness auto
termination by (relation "measure (\<lambda>(n, xs). length xs)") auto

text \<open>\<^verbatim>\<open>s.replace(/[\r\n]+/g, " ")\<close>; the flag says that the run has its blank already.\<close>

fun one_line :: "bool \<Rightarrow> string \<Rightarrow> string" where
  "one_line run [] = []"
| "one_line run (c # s) = (if c = CHR 0x0D \<or> c = CHR 0x0A then (if run then one_line True s else CHR '' '' # one_line True s)
     else c # one_line False s)"

definition encoded_word :: "string \<Rightarrow> string" where
  "encoded_word s = ''=?UTF-8?B?'' @ b64 s @ ''?=''"

definition header :: "string \<Rightarrow> string" where
  "header s0 = (let s = one_line False s0 in
     if list_all (\<lambda>c. 32 \<le> (of_char c :: nat) \<and> (of_char c :: nat) \<le> 126) s then s
     else join_with (CRLF @ '' '') (map encoded_word (pieces 11 s)))"

text \<open>\<^verbatim>\<open>text.replace(/\r?\n/g, "\r\n")\<close>\<close>

fun crlf_lines :: "string \<Rightarrow> string" where
  "crlf_lines (a # b # s) = (if a = CHR 0x0D \<and> b = CHR 0x0A then CRLF @ crlf_lines s
     else (if a = CHR 0x0A then CRLF else [a]) @ crlf_lines (b # s))"
| "crlf_lines [a] = (if a = CHR 0x0A then CRLF else [a])"
| "crlf_lines [] = []"

record mail =
  ml_host :: string
  ml_security :: string
  ml_user :: string
  ml_pass :: string
  ml_from :: string
  ml_to :: "string list"
  ml_subject :: string
  ml_text :: string
  ml_hostname :: string
  ml_date :: string
  ml_id :: string

definition commas :: "string list \<Rightarrow> string" where
  "commas xs = join_with '', '' xs"

definition helo :: "mail \<Rightarrow> string" where
  "helo m = (if in_class (\<lambda>c. is_alnum c \<or> c \<in> set ''.-'') 1 253 (ml_hostname m) then ml_hostname m else ''servitals'')"

definition mail_body :: "string \<Rightarrow> string" where
  "mail_body s = concat (map (\<lambda>l. l @ CRLF) (pieces 75 (b64 (crlf_lines s))))"

definition message :: "mail \<Rightarrow> string" where
  "message m = join_crlf
     [''From: '' @ ml_from m, ''To: '' @ commas (ml_to m), ''Subject: '' @ header (ml_subject m), ''Date: '' @ ml_date m,
      ''Message-ID: <'' @ ml_id m @ ''@'' @ helo m @ ''>'', ''MIME-Version: 1.0'',
      ''Content-Type: text/plain; charset=utf-8'', ''Content-Transfer-Encoding: base64'', [], mail_body (ml_text m)]"

section \<open>The server's replies\<close>

record smtp_reply =
  rp_code :: nat
  rp_lines :: "string list"

text \<open>\<^verbatim>\<open>/^\d{3}( |$)/\<close>\<close>

definition ends_reply :: "string \<Rightarrow> bool" where
  "ends_reply l \<longleftrightarrow> length l \<ge> 3 \<and> list_all is_digit (take 3 l) \<and> (length l = 3 \<or> l ! 3 = CHR '' '')"

definition digits :: "string \<Rightarrow> nat" where
  "digits s = foldl (\<lambda>n c. 10 * n + (of_char c - 48)) 0 s"

text \<open>The first complete reply in what has arrived, and the rest.\<close>

definition take_reply :: "string \<Rightarrow> (smtp_reply \<times> string) option" where
  "take_reply buf = (let ls = split_crlf buf; n = length (takeWhile (\<lambda>l. \<not> ends_reply l) (butlast ls)) in
     if n < length (butlast ls) then Some (\<lparr>rp_code = digits (take 3 (ls ! n)), rp_lines = map (drop 4) (take (Suc n) ls)\<rparr>, join_crlf (drop (Suc n) ls))
     else None)"

lemma join_crlf_append: "xs \<noteq> [] \<Longrightarrow> ys \<noteq> [] \<Longrightarrow> join_crlf (xs @ ys) = join_crlf xs @ CRLF @ join_crlf ys"
proof (induction xs)
  case (Cons x xs)
  then show ?case by (cases xs; cases ys) auto
qed simp

lemma length_join_drop: "n < length ls \<Longrightarrow> length (join_crlf (drop (Suc n) ls)) < length (join_crlf ls) \<or> Suc n = length ls"
proof -
  assume n: "n < length ls"
  show ?thesis
  proof (cases "Suc n = length ls")
    case False
    then have ls: "take (Suc n) ls \<noteq> []" "drop (Suc n) ls \<noteq> []" using n by auto
    have "join_crlf ls = join_crlf (take (Suc n) ls) @ CRLF @ join_crlf (drop (Suc n) ls)"
      using join_crlf_append [OF ls] by simp
    then have "length (join_crlf ls) = length (join_crlf (take (Suc n) ls)) + 2 + length (join_crlf (drop (Suc n) ls))"
      by (simp add: CRLF_def)
    then show ?thesis by simp
  qed simp
qed

lemma take_reply_shorter: "take_reply buf = Some (r, rest) \<Longrightarrow> length rest < length buf"
proof -
  assume t: "take_reply buf = Some (r, rest)"
  define n where "n = length (takeWhile (\<lambda>l. \<not> ends_reply l) (butlast (split_crlf buf)))"
  have n: "n < length (butlast (split_crlf buf))" "rest = join_crlf (drop (Suc n) (split_crlf buf))"
    using t by (simp_all add: take_reply_def Let_def n_def split: if_splits)
  then have l: "n < length (split_crlf buf)" "Suc n \<noteq> length (split_crlf buf)" by auto
  then show ?thesis using length_join_drop [OF l(1)] n(2) by simp
qed

text \<open>Every complete reply, in order.\<close>

function drain :: "string \<Rightarrow> smtp_reply list \<times> string" where
  "drain buf = (case take_reply buf of None \<Rightarrow> ([], buf) | Some (r, rest) \<Rightarrow> (case drain rest of (rs, b) \<Rightarrow> (r # rs, b)))"
  by pat_completeness auto
termination by (relation "measure length") (auto dest: take_reply_shorter)

declare drain.simps [simp del]

section \<open>Reading in pieces\<close>

text \<open>More text after a complete reply does not change it: how the bytes are split over reads does not matter.\<close>

lemma take_reply_append:
  assumes "take_reply b = Some (r, rest)"
  shows "take_reply (b @ c) = Some (r, rest @ c)"
proof -
  define ls where "ls = split_crlf b"
  define n where "n = length (takeWhile (\<lambda>l. \<not> ends_reply l) (butlast ls))"
  have n: "n < length (butlast ls)" and r: "r = \<lparr>rp_code = digits (take 3 (ls ! n)), rp_lines = map (drop 4) (take (Suc n) ls)\<rparr>"
    and rest: "rest = join_crlf (drop (Suc n) ls)"
    using assms by (simp_all add: take_reply_def Let_def n_def ls_def split: if_splits)
  have ne: "ls \<noteq> []" by (simp add: ls_def)
  define ms where "ms = split_crlf (last ls @ c)"
  have bc: "split_crlf (b @ c) = butlast ls @ ms" unfolding ls_def ms_def by (rule split_crlf_append)
  have ms: "ms \<noteq> []" by (simp add: ms_def)
  have end_n: "ends_reply (butlast ls ! n)" using nth_length_takeWhile [of "\<lambda>l. \<not> ends_reply l" "butlast ls"] n by (simp add: n_def)
  have tw: "takeWhile (\<lambda>l. \<not> ends_reply l) (butlast ls @ xs) = takeWhile (\<lambda>l. \<not> ends_reply l) (butlast ls)" for xs
    by (rule takeWhile_append1 [OF nth_mem [OF n]]) (simp add: end_n)
  have len: "length (takeWhile (\<lambda>l. \<not> ends_reply l) (butlast (butlast ls @ ms))) = n"
    using ms by (simp add: butlast_append tw n_def)
  have nth: "(butlast ls @ ms) ! n = ls ! n" using n by (simp add: nth_append nth_butlast)
  have tk: "take (Suc n) (butlast ls @ ms) = take (Suc n) ls" using n by (simp add: take_butlast)
  have dr: "drop (Suc n) (butlast ls @ ms) = drop (Suc n) (butlast ls) @ ms" using n by simp
  have "ls = butlast ls @ [last ls]" using ne by simp
  then have dl: "drop (Suc n) ls = drop (Suc n) (butlast ls) @ [last ls]" using n by (metis drop_append drop0 diff_is_0_eq Suc_leI)
  have "join_crlf (drop (Suc n) (butlast ls) @ ms) = rest @ c"
  proof (cases "drop (Suc n) (butlast ls) = []")
    case True
    then show ?thesis using rest dl by (simp add: ms_def)
  next
    case False
    show ?thesis unfolding rest dl join_crlf_append [OF False ms] join_crlf_append [OF False list.distinct(2)]
      by (simp add: ms_def)
  qed
  moreover have "n < length (butlast (butlast ls @ ms))" using n ms by (cases ms) auto
  ultimately show ?thesis unfolding take_reply_def Let_def bc len nth tk dr r by simp
qed

lemma drain_append: "drain (a @ b) = (case drain a of (rs, rest) \<Rightarrow> (case drain (rest @ b) of (rs', rest') \<Rightarrow> (rs @ rs', rest')))"
proof (induction a rule: drain.induct)
  case (1 a)
  show ?case
  proof (cases "take_reply a")
    case None
    then show ?thesis by (simp add: drain.simps [of a])
  next
    case (Some p)
    then obtain r rest where p: "take_reply a = Some (r, rest)" by (cases p) auto
    have "drain (a @ b) = (case drain (rest @ b) of (rs, b') \<Rightarrow> (r # rs, b'))"
      by (subst drain.simps) (simp add: take_reply_append [OF p])
    then show ?thesis using 1 [OF p refl] by (simp add: drain.simps [of a] p split: prod.splits)
  qed
qed

section \<open>The conversation\<close>

datatype phase =
    Connecting | Greeting | Ehlo | Starttls | Tls_up | Ehlo_tls
  | Auth_plain | Auth_login | Auth_user | Auth_pass
  | Mail_from | Rcpt nat | Data_cmd | Body | Settle | Quit

record smtp =
  sm_phase :: phase
  sm_tls :: bool
  sm_secure :: bool
  sm_buf :: string
  sm_waiting :: bool
  sm_replies :: "smtp_reply list"
  sm_ehlo :: "string list"
  sm_out :: "(bool \<times> string) list"
  sm_result :: "(string + unit) option"

datatype sevent = Connected | Data string | TlsUp | SockErr string | Closed | Timeout | Immediate

definition LOOPBACK :: "string list" where
  "LOOPBACK = [''localhost'', ''127.0.0.1'', ''::1'']"

text \<open>What \<^verbatim>\<open>sendMail\<close> checks before it connects; then the socket, TLS at once with security \<^verbatim>\<open>tls\<close>.\<close>

definition sendMail :: "mail \<Rightarrow> string + smtp" where
  "sendMail m =
    (if \<not> ADDRESS (ml_from m) \<or> ml_to m = [] \<or> \<not> list_all ADDRESS (ml_to m) then Inl ''EADDRESS''
     else if ml_security m = ''none'' \<and> (ml_host m \<notin> set LOOPBACK \<or> ml_user m \<noteq> []) then Inl ''ETLSREQUIRED''
     else Inr \<lparr>sm_phase = Connecting, sm_tls = (ml_security m = ''tls''), sm_secure = (ml_security m = ''tls''), sm_buf = [], sm_waiting = False,
       sm_replies = [], sm_ehlo = [], sm_out = [], sm_result = None\<rparr>)"

definition smtp_end :: "string + unit \<Rightarrow> smtp \<Rightarrow> smtp" where
  "smtp_end r s = (if sm_result s = None then s\<lparr>sm_result := Some r\<rparr> else s)"

definition say :: "string \<Rightarrow> smtp \<Rightarrow> smtp" where
  "say l s = s\<lparr>sm_out := sm_out s @ [(sm_tls s, l)]\<rparr>"

text \<open>A command: a reply that came before it is an error; else the line is sent and its reply awaited.\<close>

definition cmd :: "string \<Rightarrow> phase \<Rightarrow> smtp \<Rightarrow> smtp" where
  "cmd l p s = (if sm_replies s \<noteq> [] then smtp_end (Inl ''ESMTP'') s
     else say (l @ CRLF) (s\<lparr>sm_waiting := True, sm_phase := p\<rparr>))"

definition wanted :: "phase \<Rightarrow> nat list" where
  "wanted p = (case p of Greeting \<Rightarrow> [220] | Ehlo \<Rightarrow> [250] | Starttls \<Rightarrow> [220] | Ehlo_tls \<Rightarrow> [250]
     | Auth_plain \<Rightarrow> [235] | Auth_login \<Rightarrow> [334] | Auth_user \<Rightarrow> [334] | Auth_pass \<Rightarrow> [235]
     | Mail_from \<Rightarrow> [250] | Rcpt n \<Rightarrow> [250, 251] | Data_cmd \<Rightarrow> [354] | Body \<Rightarrow> [250] | _ \<Rightarrow> [])"

text \<open>\<^verbatim>\<open>/^WORD\b/i\<close> and \<^verbatim>\<open>/\bWORD\b/i\<close> for a word of capital letters.\<close>

definition smtp_upper :: "char \<Rightarrow> char" where
  "smtp_upper c = (if is_lower c then upper_of c else c)"

definition word_here :: "string \<Rightarrow> string \<Rightarrow> bool" where
  "word_here w s \<longleftrightarrow> map smtp_upper (take (length w) s) = w \<and> (drop (length w) s = [] \<or> \<not> is_word (s ! length w))"

fun has_word :: "bool \<Rightarrow> string \<Rightarrow> string \<Rightarrow> bool" where
  "has_word inside w [] \<longleftrightarrow> False"
| "has_word inside w (c # s) \<longleftrightarrow> (\<not> inside \<and> word_here w (c # s)) \<or> has_word (is_word c) w s"

definition EHLO :: "mail \<Rightarrow> string" where "EHLO m = ''EHLO '' @ helo m"

definition NUL :: char where "NUL = CHR 0x00"

definition auth_plain :: "mail \<Rightarrow> string" where
  "auth_plain m = ''AUTH PLAIN '' @ b64 ([NUL] @ ml_user m @ [NUL] @ ml_pass m)"

definition mail_from :: "mail \<Rightarrow> string" where "mail_from m = ''MAIL FROM:<'' @ ml_from m @ ''>''"

definition rcpt_to :: "string \<Rightarrow> string" where "rcpt_to a = ''RCPT TO:<'' @ a @ ''>''"

definition mail_data :: "mail \<Rightarrow> string" where "mail_data m = message m @ CRLF @ ''.''"

definition log_in :: "mail \<Rightarrow> smtp \<Rightarrow> smtp" where
  "log_in m s =
    (if ml_user m = [] then cmd (mail_from m) Mail_from s
     else if \<not> sm_secure s then smtp_end (Inl ''ETLSREQUIRED'') s
     else (let auth = (case find (word_here ''AUTH'') (sm_ehlo s) of Some l \<Rightarrow> l | None \<Rightarrow> []) in
       if has_word False ''PLAIN'' auth then cmd (auth_plain m) Auth_plain s
       else if has_word False ''LOGIN'' auth then cmd ''AUTH LOGIN'' Auth_login s
       else smtp_end (Inl ''SMTP_AUTH'') s))"

definition next_rcpt :: "mail \<Rightarrow> nat \<Rightarrow> smtp \<Rightarrow> smtp" where
  "next_rcpt m n s = (if n < length (ml_to m) then cmd (rcpt_to (ml_to m ! n)) (Rcpt n) s else cmd ''DATA'' Data_cmd s)"

text \<open>\<^verbatim>\<open>talk()\<close>, resumed with the reply it waited for.\<close>

definition resume :: "mail \<Rightarrow> smtp_reply \<Rightarrow> smtp \<Rightarrow> smtp" where
  "resume m r s =
    (if rp_code r \<notin> set (wanted (sm_phase s)) then smtp_end (Inl (''SMTP_'' @ show_nat (rp_code r))) s
     else (case sm_phase s of
       Greeting \<Rightarrow> cmd (EHLO m) Ehlo s
     | Ehlo \<Rightarrow> (let s1 = s\<lparr>sm_ehlo := rp_lines r\<rparr> in
         if ml_security m = ''starttls'' then
           (if list_ex (word_here ''STARTTLS'') (rp_lines r) then cmd ''STARTTLS'' Starttls s1 else smtp_end (Inl ''ETLSREQUIRED'') s1)
         else log_in m s1)
     | Starttls \<Rightarrow> if sm_buf s \<noteq> [] \<or> sm_replies s \<noteq> [] then smtp_end (Inl ''ESMTP'') s else s\<lparr>sm_phase := Tls_up, sm_tls := True\<rparr>
     | Ehlo_tls \<Rightarrow> log_in m (s\<lparr>sm_ehlo := rp_lines r\<rparr>)
     | Auth_plain \<Rightarrow> cmd (mail_from m) Mail_from s
     | Auth_login \<Rightarrow> cmd (b64 (ml_user m)) Auth_user s
     | Auth_user \<Rightarrow> cmd (b64 (ml_pass m)) Auth_pass s
     | Auth_pass \<Rightarrow> cmd (mail_from m) Mail_from s
     | Mail_from \<Rightarrow> next_rcpt m 0 s
     | Rcpt n \<Rightarrow> next_rcpt m (Suc n) s
     | Data_cmd \<Rightarrow> cmd (mail_data m) Body s
     | Body \<Rightarrow> s\<lparr>sm_phase := Settle\<rparr>
     | _ \<Rightarrow> s))"

text \<open>The replies of one read: the first goes to the one that waits, the others queue; then \<^verbatim>\<open>talk()\<close> goes on.\<close>

definition hand_over :: "mail \<Rightarrow> smtp_reply list \<Rightarrow> smtp \<Rightarrow> smtp" where
  "hand_over m rs s = (case rs of [] \<Rightarrow> s | r # rs' \<Rightarrow>
     if sm_waiting s then resume m r (s\<lparr>sm_waiting := False, sm_replies := sm_replies s @ rs'\<rparr>)
     else s\<lparr>sm_replies := sm_replies s @ rs\<rparr>)"

definition onData :: "mail \<Rightarrow> string \<Rightarrow> smtp \<Rightarrow> smtp" where
  "onData m chunk s = (let buf = sm_buf s @ chunk in
     if int (length buf) > 65536 then smtp_end (Inl ''ESMTP'') (s\<lparr>sm_buf := buf\<rparr>)
     else (case drain buf of (rs, rest) \<Rightarrow> hand_over m rs (s\<lparr>sm_buf := rest\<rparr>)))"

definition connected :: "mail \<Rightarrow> smtp \<Rightarrow> smtp" where
  "connected m s = (let s1 = s\<lparr>sm_phase := Greeting\<rparr> in
     case sm_replies s of [] \<Rightarrow> s1\<lparr>sm_waiting := True\<rparr> | r # rs \<Rightarrow> resume m r (s1\<lparr>sm_replies := rs\<rparr>))"

definition settle :: "smtp \<Rightarrow> smtp" where
  "settle s = (if sm_replies s \<noteq> [] then smtp_end (Inl ''ESMTP'') s
     else smtp_end (Inr ()) (say (''QUIT'' @ CRLF) (s\<lparr>sm_phase := Quit\<rparr>)))"

text \<open>One event of the socket or the clock; after the end the socket is gone.\<close>

definition smtp_step :: "mail \<Rightarrow> smtp \<Rightarrow> sevent \<Rightarrow> smtp" where
  "smtp_step m s e =
    (if sm_result s \<noteq> None then s else
     case e of
       Connected \<Rightarrow> if sm_phase s = Connecting then connected m s else s
     | Data chunk \<Rightarrow> onData m chunk s
     | TlsUp \<Rightarrow> if sm_phase s = Tls_up then cmd (EHLO m) Ehlo_tls (s\<lparr>sm_secure := True\<rparr>) else s
     | SockErr code \<Rightarrow> smtp_end (Inl code) s
     | Closed \<Rightarrow> smtp_end (Inl ''ECONNRESET'') s
     | Timeout \<Rightarrow> smtp_end (Inl ''ETIMEDOUT'') s
     | Immediate \<Rightarrow> if sm_phase s = Settle then settle s else s)"

section \<open>Nothing private in the clear\<close>

definition may_say :: "mail \<Rightarrow> bool \<times> string \<Rightarrow> bool" where
  "may_say m = (\<lambda>(tls, l). tls \<or> (ml_security m = ''starttls'' \<and> (l = EHLO m @ CRLF \<or> l = ''STARTTLS'' @ CRLF)) \<or>
     (ml_security m = ''none'' \<and> ml_host m \<in> set LOOPBACK \<and> ml_user m = []))"

text \<open>A mail \<^verbatim>\<open>sendMail\<close> takes on, with a security the channels' check lets through.\<close>

definition fine_mail :: "mail \<Rightarrow> bool" where
  "fine_mail m \<longleftrightarrow> ml_security m = ''starttls'' \<or> ml_security m = ''tls'' \<or>
     (ml_security m = ''none'' \<and> ml_host m \<in> set LOOPBACK \<and> ml_user m = [])"

definition in_time :: "mail \<Rightarrow> phase \<Rightarrow> smtp \<Rightarrow> bool" where
  "in_time m p s \<longleftrightarrow> sm_tls s \<or> (ml_security m = ''none'' \<and> ml_host m \<in> set LOOPBACK \<and> ml_user m = []) \<or>
     (ml_security m = ''starttls'' \<and> p \<in> {Connecting, Greeting, Ehlo, Starttls})"

definition quiet_inv :: "mail \<Rightarrow> smtp \<Rightarrow> bool" where
  "quiet_inv m s \<longleftrightarrow> list_all (may_say m) (sm_out s) \<and> (sm_result s = None \<longrightarrow> in_time m (sm_phase s) s)"

lemma smtp_end_simps [simp]:
  "sm_out (smtp_end r s) = sm_out s" "sm_result (smtp_end r s) \<noteq> None"
  by (auto simp: smtp_end_def)

lemma quiet_end: "list_all (may_say m) (sm_out s) \<Longrightarrow> quiet_inv m (smtp_end r s)"
  by (simp add: quiet_inv_def)

lemma quiet_cmd:
  assumes "list_all (may_say m) (sm_out s)" "in_time m p s" "may_say m (sm_tls s, l @ CRLF)"
  shows "quiet_inv m (cmd l p s)"
  using assms by (auto simp: cmd_def quiet_end say_def quiet_inv_def in_time_def)

text \<open>Past the greeting of STARTTLS a line goes out over TLS, or to this host.\<close>

definition free :: "mail \<Rightarrow> smtp \<Rightarrow> bool" where
  "free m s \<longleftrightarrow> list_all (may_say m) (sm_out s) \<and> (sm_tls s \<or> (ml_security m = ''none'' \<and> ml_host m \<in> set LOOPBACK \<and> ml_user m = []))"

lemma quiet_free_cmd: "free m s \<Longrightarrow> quiet_inv m (cmd l p s)"
  by (rule quiet_cmd) (auto simp: free_def may_say_def in_time_def)

lemma quiet_free: "free m s \<Longrightarrow> quiet_inv m s"
  by (auto simp: free_def quiet_inv_def in_time_def)

lemma quiet_log_in: "free m s \<Longrightarrow> quiet_inv m (log_in m s)"
  by (auto simp: log_in_def Let_def quiet_free_cmd free_def quiet_end)

lemma quiet_next_rcpt: "free m s \<Longrightarrow> quiet_inv m (next_rcpt m n s)"
  by (simp add: next_rcpt_def quiet_free_cmd)

lemma free_later:
  assumes "list_all (may_say m) (sm_out s)" "in_time m (sm_phase s) s" "sm_phase s \<notin> {Connecting, Greeting, Ehlo, Starttls} \<or> ml_security m \<noteq> ''starttls''"
  shows "free m s"
  using assms by (auto simp: free_def in_time_def)

lemma free_ehlo [simp]: "free m (s\<lparr>sm_ehlo := x\<rparr>) = free m s"
  by (simp add: free_def)

lemma quiet_resume:
  assumes q: "list_all (may_say m) (sm_out s)" "in_time m (sm_phase s) s"
  shows "quiet_inv m (resume m r s)"
proof -
  note free = free_later [OF q]
  show ?thesis
  proof (cases "sm_phase s")
    case Greeting
    then have "in_time m Ehlo s" "may_say m (sm_tls s, EHLO m @ CRLF)" using q by (auto simp: in_time_def may_say_def)
    then show ?thesis using Greeting q by (simp add: resume_def quiet_end quiet_cmd)
  next
    case Ehlo
    show ?thesis
    proof (cases "ml_security m = ''starttls''")
      case True
      then have "in_time m Starttls (s\<lparr>sm_ehlo := x\<rparr>)" "may_say m (sm_tls s, ''STARTTLS'' @ CRLF)" for x
        using q Ehlo by (auto simp: in_time_def may_say_def)
      then show ?thesis using Ehlo q True by (simp add: resume_def Let_def quiet_end quiet_cmd)
    next
      case False
      then show ?thesis using Ehlo q free by (simp add: resume_def Let_def quiet_end quiet_log_in)
    qed
  next
    case Starttls
    then show ?thesis using q by (auto simp: resume_def quiet_end quiet_inv_def in_time_def)
  qed (use free q in \<open>simp_all add: resume_def wanted_def quiet_end quiet_free_cmd quiet_log_in quiet_next_rcpt\<close>,
       use free q in \<open>auto simp: quiet_inv_def in_time_def\<close>)
qed

lemma quiet_hand_over:
  assumes "list_all (may_say m) (sm_out s)" "in_time m (sm_phase s) s"
  shows "quiet_inv m (hand_over m rs s)"
proof (cases rs)
  case (Cons r rs')
  show ?thesis
  proof (cases "sm_waiting s")
    case True
    then show ?thesis unfolding Cons hand_over_def list.case if_P [OF True]
      by (intro quiet_resume) (use assms in \<open>simp_all add: in_time_def\<close>)
  qed (use assms in \<open>simp add: hand_over_def Cons quiet_inv_def in_time_def\<close>)
qed (use assms in \<open>simp add: hand_over_def quiet_inv_def\<close>)

lemma quiet_onData:
  assumes "list_all (may_say m) (sm_out s)" "in_time m (sm_phase s) s"
  shows "quiet_inv m (onData m chunk s)"
proof -
  have "quiet_inv m (hand_over m rs (s\<lparr>sm_buf := rest\<rparr>))" for rs rest
    by (rule quiet_hand_over) (use assms in \<open>simp_all add: in_time_def\<close>)
  then show ?thesis using assms by (simp add: onData_def Let_def quiet_end split: prod.split)
qed

lemma quiet_connected:
  assumes "list_all (may_say m) (sm_out s)" "in_time m (sm_phase s) s" "sm_phase s = Connecting"
  shows "quiet_inv m (connected m s)"
proof -
  have t: "in_time m Greeting s" using assms by (auto simp: in_time_def)
  then have "quiet_inv m (resume m r (s\<lparr>sm_phase := Greeting, sm_replies := rs\<rparr>))" for r rs
    by (intro quiet_resume) (use assms in \<open>simp_all add: in_time_def\<close>)
  then show ?thesis using assms t by (simp add: connected_def Let_def quiet_inv_def in_time_def split: list.split)
qed

lemma quiet_step:
  assumes "quiet_inv m s"
  shows "quiet_inv m (smtp_step m s e)"
proof (cases "sm_result s = None")
  case True
  then have q: "list_all (may_say m) (sm_out s)" "in_time m (sm_phase s) s" using assms by (simp_all add: quiet_inv_def)
  show ?thesis
  proof (cases e)
    case Connected
    then show ?thesis using True assms quiet_connected [OF q] by (simp add: smtp_step_def)
  next
    case (Data c)
    then show ?thesis using True quiet_onData [OF q] by (simp add: smtp_step_def)
  next
    case TlsUp
    have "free m (s\<lparr>sm_secure := True\<rparr>)" if "sm_phase s = Tls_up" using free_later [OF q] that by (simp add: free_def)
    then show ?thesis using True TlsUp assms by (simp add: smtp_step_def quiet_free_cmd)
  next
    case Immediate
    have "quiet_inv m (settle s)" if "sm_phase s = Settle"
    proof -
      have f: "free m s" using free_later [OF q] that by simp
      then have "may_say m (sm_tls s, ''QUIT'' @ CRLF)" by (auto simp: free_def may_say_def)
      then show ?thesis using f by (simp add: settle_def quiet_end say_def free_def)
    qed
    then show ?thesis using True Immediate assms by (simp add: smtp_step_def)
  qed (use True q in \<open>simp_all add: smtp_step_def quiet_end\<close>)
qed (use assms in \<open>simp add: smtp_step_def\<close>)

lemma sendMail_started:
  assumes "sendMail m = Inr s"
  shows "sm_phase s = Connecting" "sm_tls s = (ml_security m = ''tls'')" "sm_buf s = []" "\<not> sm_waiting s" "sm_replies s = []" "sm_out s = []"
    "sm_result s = None" "ml_security m = ''none'' \<Longrightarrow> ml_host m \<in> set LOOPBACK \<and> ml_user m = []"
    "ADDRESS (ml_from m)" "list_all ADDRESS (ml_to m)" "ml_to m \<noteq> []"
  using assms by (auto simp: sendMail_def split: if_splits)

interpretation talk: machine "smtp_step m" "quiet_inv m" for m
  by unfold_locales (rule quiet_step)


definition demo_mail :: mail where
  "demo_mail = \<lparr>ml_host = ''mail.example.org'', ml_security = ''starttls'', ml_user = ''hub'', ml_pass = ''pw'', ml_from = ''hub@example.org'',
     ml_to = [''a@example.org''], ml_subject = ''disk full'', ml_text = ''95'', ml_hostname = ''hub'', ml_date = ''Tue, 1 Jan 2030 00:00:00 +0000'', ml_id = ''0a''\<rparr>"

definition demo_says :: "sevent list" where
  "demo_says = [Connected, Data (''220 hi'' @ CRLF), Data (''250-mail'' @ CRLF @ ''250 START''), Data (''TLS'' @ CRLF), Data (''220 go'' @ CRLF), TlsUp,
     Data (''250 AUTH PLAIN'' @ CRLF), Data (''235 in'' @ CRLF), Data (''250 ok'' @ CRLF), Data (''251 ok'' @ CRLF), Data (''354 go'' @ CRLF),
     Data (''250 queued'' @ CRLF)]"


section \<open>Sent means accepted\<close>

text \<open>
  The whole conversations a mail can have: the commands with the phase in which their answer is awaited.
  A login has none, one or three of them.
\<close>

definition hello :: "mail \<Rightarrow> (phase \<times> string) list" where
  "hello m = (Ehlo, EHLO m) # (if ml_security m = ''starttls'' then [(Starttls, ''STARTTLS''), (Ehlo_tls, EHLO m)] else [])"

definition smtp_logins :: "mail \<Rightarrow> (phase \<times> string) list list" where
  "smtp_logins m = (if ml_user m = [] then [[]]
     else [[(Auth_plain, auth_plain m)], [(Auth_login, ''AUTH LOGIN''), (Auth_user, b64 (ml_user m)), (Auth_pass, b64 (ml_pass m))]])"

definition rcpts :: "mail \<Rightarrow> nat \<Rightarrow> (phase \<times> string) list" where
  "rcpts m n = map (\<lambda>i. (Rcpt i, rcpt_to (ml_to m ! i))) [0..<n]"

definition envelope :: "mail \<Rightarrow> nat \<Rightarrow> (phase \<times> string) list" where
  "envelope m n = (Mail_from, mail_from m) # rcpts m n"

definition conversations :: "mail \<Rightarrow> (phase \<times> string) list list" where
  "conversations m = map (\<lambda>a. hello m @ a @ envelope m (length (ml_to m)) @ [(Data_cmd, ''DATA''), (Body, mail_data m)]) (smtp_logins m)"

text \<open>What was said when a phase is reached.\<close>

definition said :: "mail \<Rightarrow> phase \<Rightarrow> (phase \<times> string) list list" where
  "said m p = (case p of
       Ehlo \<Rightarrow> [[(Ehlo, EHLO m)]]
     | Starttls \<Rightarrow> if ml_security m = ''starttls'' then [[(Ehlo, EHLO m), (Starttls, ''STARTTLS'')]] else []
     | Tls_up \<Rightarrow> if ml_security m = ''starttls'' then [[(Ehlo, EHLO m), (Starttls, ''STARTTLS'')]] else []
     | Ehlo_tls \<Rightarrow> if ml_security m = ''starttls'' then [hello m] else []
     | Auth_plain \<Rightarrow> if ml_user m = [] then [] else [hello m @ [(Auth_plain, auth_plain m)]]
     | Auth_login \<Rightarrow> if ml_user m = [] then [] else [hello m @ [(Auth_login, ''AUTH LOGIN'')]]
     | Auth_user \<Rightarrow> if ml_user m = [] then [] else [hello m @ [(Auth_login, ''AUTH LOGIN''), (Auth_user, b64 (ml_user m))]]
     | Auth_pass \<Rightarrow> if ml_user m = [] then [] else [hello m @ [(Auth_login, ''AUTH LOGIN''), (Auth_user, b64 (ml_user m)), (Auth_pass, b64 (ml_pass m))]]
     | Mail_from \<Rightarrow> map (\<lambda>a. hello m @ a @ envelope m 0) (smtp_logins m)
     | Rcpt n \<Rightarrow> if n < length (ml_to m) then map (\<lambda>a. hello m @ a @ envelope m (Suc n)) (smtp_logins m) else []
     | Data_cmd \<Rightarrow> map (\<lambda>a. hello m @ a @ envelope m (length (ml_to m)) @ [(Data_cmd, ''DATA'')]) (smtp_logins m)
     | Body \<Rightarrow> conversations m
     | Settle \<Rightarrow> conversations m
     | Quit \<Rightarrow> []
     | _ \<Rightarrow> [[]])"

definition answered :: "smtp_reply list \<Rightarrow> phase list \<Rightarrow> bool" where
  "answered rs ps = list_all2 (\<lambda>r p. rp_code r \<in> set (wanted p)) rs ps"

text \<open>
  \<open>c\<close> was said; the replies \<open>rs\<close> were used, one for the greeting and each command so far (but the last
  one while its reply is awaited); the text \<open>h\<close> heard so far is these, the waiting replies and the buffer.
\<close>

definition spoken :: "mail \<Rightarrow> string \<Rightarrow> smtp \<Rightarrow> (phase \<times> string) list \<Rightarrow> smtp_reply list \<Rightarrow> bool" where
  "spoken m h s c rs \<longleftrightarrow> c \<in> set (said m (sm_phase s)) \<and> map snd (sm_out s) = map (\<lambda>(p, l). l @ CRLF) c \<and>
     drain h = (rs @ sm_replies s, sm_buf s)"

definition waits_for :: "phase \<Rightarrow> bool" where
  "waits_for p \<longleftrightarrow> p \<notin> {Connecting, Tls_up, Settle, Quit}"

definition talk_inv :: "mail \<Rightarrow> string \<Rightarrow> smtp \<Rightarrow> bool" where
  "talk_inv m h s \<longleftrightarrow> sm_result s \<noteq> None \<or> (\<exists>c rs. spoken m h s c rs \<and>
     (if sm_waiting s then waits_for (sm_phase s) \<and> sm_replies s = [] \<and> answered rs (butlast (Greeting # map fst c))
      else if sm_phase s = Connecting then rs = []
      else \<not> waits_for (sm_phase s) \<and> answered rs (Greeting # map fst c)))"

text \<open>Every command so far is answered: the next one can go.\<close>

definition ready :: "mail \<Rightarrow> string \<Rightarrow> smtp \<Rightarrow> (phase \<times> string) list \<Rightarrow> bool" where
  "ready m h s c \<longleftrightarrow> \<not> sm_waiting s \<and> map snd (sm_out s) = map (\<lambda>(p, l). l @ CRLF) c \<and>
     (\<exists>rs. drain h = (rs @ sm_replies s, sm_buf s) \<and> answered rs (Greeting # map fst c))"

lemma talk_cmd:
  assumes "ready m h s c" "c @ [(p, l)] \<in> set (said m p)" "waits_for p"
  shows "talk_inv m h (cmd l p s)"
proof (cases "sm_replies s = []")
  case True
  let ?s = "cmd l p s"
  have s: "?s = say (l @ CRLF) (s\<lparr>sm_waiting := True, sm_phase := p\<rparr>)" using True by (simp add: cmd_def)
  obtain rs where rs: "drain h = (rs @ sm_replies s, sm_buf s)" "answered rs (Greeting # map fst c)" using assms(1) by (auto simp: ready_def)
  have "spoken m h ?s (c @ [(p, l)]) rs" using assms rs by (simp add: s spoken_def say_def ready_def)
  moreover have "answered rs (butlast (Greeting # map fst (c @ [(p, l)])))" using rs(2) by (simp add: butlast_append)
  ultimately show ?thesis unfolding talk_inv_def using assms(3) True by (intro disjI2 exI [of _ "c @ [(p, l)]"] exI [of _ rs]) (simp add: s say_def)
qed (simp add: cmd_def talk_inv_def)

lemma talk_end [simp]: "talk_inv m h (smtp_end r s)"
  by (simp add: talk_inv_def)

lemma ready_ehlo [simp]: "ready m h (s\<lparr>sm_ehlo := x\<rparr>) c = ready m h s c"
  by (simp add: ready_def)

lemma envelope_Suc: "envelope m (Suc n) = envelope m n @ [(Rcpt n, rcpt_to (ml_to m ! n))]"
  by (simp add: envelope_def rcpts_def)

lemma talk_log_in: "ready m h s (hello m) \<Longrightarrow> talk_inv m h (log_in m s)"
  by (auto simp: log_in_def Let_def intro!: talk_cmd simp: said_def smtp_logins_def envelope_def rcpts_def waits_for_def)

lemma talk_next_rcpt:
  assumes "ready m h s (hello m @ a @ envelope m n)" "a \<in> set (smtp_logins m)" "n \<le> length (ml_to m)"
  shows "talk_inv m h (next_rcpt m n s)"
proof (cases "n < length (ml_to m)")
  case True
  have "(hello m @ a @ envelope m n) @ [(Rcpt n, rcpt_to (ml_to m ! n))] \<in> set (said m (Rcpt n))"
    using assms(2) True by (auto simp: said_def envelope_Suc)
  from talk_cmd [OF assms(1) this] show ?thesis using True by (simp add: next_rcpt_def waits_for_def)
next
  case False
  then have n: "n = length (ml_to m)" using assms(3) by simp
  have "(hello m @ a @ envelope m n) @ [(Data_cmd, ''DATA'')] \<in> set (said m Data_cmd)"
    using assms(2) by (auto simp: said_def n)
  from talk_cmd [OF assms(1) this] show ?thesis using False by (simp add: next_rcpt_def waits_for_def)
qed

lemma said_last:
  assumes "c \<in> set (said m p)" "waits_for p"
  shows "last (Greeting # map fst c) = p"
  using assms
  by (cases p) (auto simp: said_def waits_for_def hello_def envelope_def rcpts_def conversations_def smtp_logins_def split: if_splits)

lemma answered_snoc: "answered rs (butlast ps) \<Longrightarrow> ps \<noteq> [] \<Longrightarrow> rp_code r \<in> set (wanted (last ps)) \<Longrightarrow> answered (rs @ [r]) ps"
  unfolding answered_def by (subst append_butlast_last_id [symmetric], assumption) (rule list_all2_appendI, simp_all)

lemma talk_resume:
  assumes w: "\<not> sm_waiting s" "waits_for (sm_phase s)" and c: "c \<in> set (said m (sm_phase s))"
    and out: "map snd (sm_out s) = map (\<lambda>(p, l). l @ CRLF) c" and d: "drain h = (rs @ r # sm_replies s, sm_buf s)"
    and a: "answered rs (butlast (Greeting # map fst c))"
  shows "talk_inv m h (resume m r s)"
proof (cases "rp_code r \<in> set (wanted (sm_phase s))")
  case True
  have "answered (rs @ [r]) (Greeting # map fst c)"
    by (rule answered_snoc [OF a]) (use True said_last [OF c w(2)] in simp_all)
  then have r: "ready m h s c" using w(1) out d by (auto simp: ready_def intro: exI [of _ "rs @ [r]"])
  note go = talk_cmd [OF r]
  show ?thesis
  proof (cases "sm_phase s")
    case Greeting
    then show ?thesis using True c go by (auto simp: resume_def said_def waits_for_def)
  next
    case Ehlo
    then have c1: "c = [(Ehlo, EHLO m)]" using c by (simp add: said_def)
    show ?thesis
    proof (cases "ml_security m = ''starttls''")
      case S: True
      have "talk_inv m h (cmd ''STARTTLS'' Starttls (s\<lparr>sm_ehlo := rp_lines r\<rparr>))"
        by (rule talk_cmd [where c = c]) (use r c1 S in \<open>simp_all add: said_def waits_for_def\<close>)
      then show ?thesis using True Ehlo S by (simp add: resume_def Let_def)
    next
      case False
      then have "hello m = c" using c1 by (simp add: hello_def)
      then show ?thesis using True Ehlo False talk_log_in [of m h "s\<lparr>sm_ehlo := rp_lines r\<rparr>"] r by (simp add: resume_def Let_def)
    qed
  next
    case Starttls
    have "talk_inv m h (s\<lparr>sm_phase := Tls_up, sm_tls := True\<rparr>)" if "sm_buf s = []" "sm_replies s = []"
    proof -
      obtain rs' where "drain h = (rs' @ sm_replies s, sm_buf s)" "answered rs' (Greeting # map fst c)" using r by (auto simp: ready_def)
      then show ?thesis unfolding talk_inv_def
        using c out w(1) Starttls by (intro disjI2 exI [of _ c] exI [of _ rs']) (simp add: spoken_def said_def waits_for_def)
    qed
    then show ?thesis using True Starttls by (simp add: resume_def)
  next
    case Ehlo_tls
    then have "hello m = c" using c by (simp add: said_def split: if_splits)
    then show ?thesis using True Ehlo_tls talk_log_in [of m h "s\<lparr>sm_ehlo := rp_lines r\<rparr>"] r by (simp add: resume_def)
  next
    case Mail_from
    then obtain x where "c = hello m @ x @ envelope m 0" "x \<in> set (smtp_logins m)" using c by (auto simp: said_def)
    then show ?thesis using True Mail_from talk_next_rcpt [of m h s x 0] r by (simp add: resume_def)
  next
    case (Rcpt n)
    then obtain x where "c = hello m @ x @ envelope m (Suc n)" "x \<in> set (smtp_logins m)" "n < length (ml_to m)" using c by (auto simp: said_def split: if_splits)
    then show ?thesis using True Rcpt talk_next_rcpt [of m h s x "Suc n"] r by (simp add: resume_def)
  next
    case Body
    obtain rs' where "drain h = (rs' @ sm_replies s, sm_buf s)" "answered rs' (Greeting # map fst c)" using r by (auto simp: ready_def)
    then have "talk_inv m h (s\<lparr>sm_phase := Settle\<rparr>)" unfolding talk_inv_def
      using c out w(1) Body by (intro disjI2 exI [of _ c] exI [of _ rs']) (simp add: spoken_def said_def waits_for_def)
    then show ?thesis using True Body by (simp add: resume_def)
  next
    case Data_cmd
    then have "c @ [(Body, mail_data m)] \<in> set (said m Body)" using c by (auto simp: said_def conversations_def)
    from go [OF this] show ?thesis using True Data_cmd by (simp add: resume_def waits_for_def)
  qed (use True c go w(2) in \<open>auto simp: resume_def said_def waits_for_def smtp_logins_def envelope_def rcpts_def wanted_def split: if_splits\<close>)
qed (simp add: resume_def)

definition chunk_of :: "sevent \<Rightarrow> string" where
  "chunk_of e = (case e of Data c \<Rightarrow> c | _ \<Rightarrow> [])"

definition heard :: "sevent list \<Rightarrow> string" where
  "heard es = concat (map chunk_of es)"

lemma talk_onData:
  assumes "talk_inv m h s" "sm_result s = None"
  shows "talk_inv m (h @ chunk) (onData m chunk s)"
proof -
  obtain c rs where sp: "spoken m h s c rs" and st: "if sm_waiting s then waits_for (sm_phase s) \<and> sm_replies s = [] \<and> answered rs (butlast (Greeting # map fst c))
      else if sm_phase s = Connecting then rs = [] else \<not> waits_for (sm_phase s) \<and> answered rs (Greeting # map fst c)"
    using assms by (auto simp: talk_inv_def)
  obtain new rest where dr: "drain (sm_buf s @ chunk) = (new, rest)" by (cases "drain (sm_buf s @ chunk)") auto
  have h: "drain (h @ chunk) = (rs @ sm_replies s @ new, rest)"
    using sp by (simp add: spoken_def drain_append [of h chunk] dr)
  have "talk_inv m (h @ chunk) (hand_over m new (s\<lparr>sm_buf := rest\<rparr>))"
  proof (cases "sm_waiting s \<and> new \<noteq> []")
    case True
    then obtain r new' where n: "new = r # new'" by (cases new) auto
    have "talk_inv m (h @ chunk) (resume m r (s\<lparr>sm_buf := rest, sm_waiting := False, sm_replies := sm_replies s @ new'\<rparr>))"
      by (rule talk_resume [where c = c and rs = rs]) (use sp st h True n in \<open>simp_all add: spoken_def\<close>)
    then show ?thesis using True n by (simp add: hand_over_def)
  next
    case False
    then have "hand_over m new (s\<lparr>sm_buf := rest\<rparr>) = s\<lparr>sm_buf := rest, sm_replies := sm_replies s @ new\<rparr>"
      by (cases new) (simp_all add: hand_over_def)
    then show ?thesis unfolding talk_inv_def
      using sp st h False by (intro disjI2 exI [of _ c] exI [of _ rs]) (auto simp: spoken_def split: if_splits)
  qed
  then show ?thesis by (simp add: onData_def Let_def dr)
qed

lemma talk_connected:
  assumes "talk_inv m h s" "sm_result s = None" "sm_phase s = Connecting"
  shows "talk_inv m h (connected m s)"
proof -
  have sp: "spoken m h s [] []" "\<not> sm_waiting s" using assms by (auto simp: talk_inv_def spoken_def said_def waits_for_def split: if_splits)
  show ?thesis
  proof (cases "sm_replies s")
    case Nil
    then show ?thesis using sp assms(3) unfolding talk_inv_def
      by (intro disjI2 exI [of _ "[]"] exI [of _ "[]"]) (simp add: connected_def Let_def spoken_def said_def waits_for_def answered_def)
  next
    case (Cons r rs)
    have "talk_inv m h (resume m r (s\<lparr>sm_phase := Greeting, sm_replies := rs\<rparr>))"
      by (rule talk_resume [where c = "[]" and rs = "[]"]) (use sp Cons assms(3) in \<open>simp_all add: spoken_def said_def waits_for_def answered_def\<close>)
    then show ?thesis using Cons by (simp add: connected_def Let_def)
  qed
qed

lemma talk_silent:
  assumes "talk_inv m h s" "sm_result s = None" "\<not> waits_for (sm_phase s)" "sm_phase s \<noteq> Connecting"
  obtains c where "ready m h s c" "c \<in> set (said m (sm_phase s))"
  using assms by (auto simp: talk_inv_def spoken_def ready_def split: if_splits)

lemma talk_step:
  assumes i: "talk_inv m h s"
  shows "talk_inv m (h @ chunk_of e) (smtp_step m s e)"
proof (cases "sm_result s = None")
  case True
  show ?thesis
  proof (cases e)
    case Connected
    then show ?thesis using True i talk_connected by (simp add: smtp_step_def chunk_of_def)
  next
    case (Data c)
    then show ?thesis using True i talk_onData by (simp add: smtp_step_def chunk_of_def)
  next
    case TlsUp
    have "talk_inv m h (cmd (EHLO m) Ehlo_tls (s\<lparr>sm_secure := True\<rparr>))" if p: "sm_phase s = Tls_up"
    proof -
      obtain c where c: "ready m h s c" "c \<in> set (said m Tls_up)" by (rule talk_silent [OF i True]) (use p in \<open>simp_all add: waits_for_def\<close>)
      then have "c @ [(Ehlo_tls, EHLO m)] \<in> set (said m Ehlo_tls)" by (auto simp: said_def hello_def split: if_splits)
      then show ?thesis using c(1) by (intro talk_cmd) (simp_all add: ready_def waits_for_def)
    qed
    then show ?thesis using True TlsUp i by (simp add: smtp_step_def chunk_of_def)
  next
    case Immediate
    have "talk_inv m h (settle s)" by (simp add: settle_def)
    then show ?thesis using True Immediate i by (simp add: smtp_step_def chunk_of_def)
  qed (use True in \<open>simp_all add: smtp_step_def\<close>)
qed (simp add: smtp_step_def talk_inv_def)

lemma talk_run:
  assumes "sendMail m = Inr s"
  shows "talk_inv m (heard es) (foldl (smtp_step m) s es)"
proof (induction es rule: rev_induct)
  case Nil
  have "drain [] = ([], [])" by (simp add: drain.simps take_reply_def)
  then show ?case unfolding talk_inv_def using sendMail_started [OF assms]
    by (intro disjI2 exI [of _ "[]"]) (simp add: spoken_def said_def heard_def)
next
  case (snoc e es)
  from talk_step [OF snoc, of e] show ?case by (simp add: heard_def)
qed

text \<open>Only the last step of the conversation makes it a success.\<close>

lemma cmd_not_sent: "sm_result s = None \<Longrightarrow> sm_result (cmd l p s) \<noteq> Some (Inr ())"
  by (simp add: cmd_def smtp_end_def say_def)

lemma resume_not_sent: "sm_result s = None \<Longrightarrow> sm_result (resume m r s) \<noteq> Some (Inr ())"
  by (auto simp: resume_def smtp_end_def log_in_def next_rcpt_def cmd_not_sent Let_def split: phase.splits)

lemma step_sent:
  assumes "sm_result s = None" "sm_result (smtp_step m s e) = Some (Inr ())"
  shows "e = Immediate \<and> sm_phase s = Settle \<and> sm_replies s = []"
proof -
  have d: "sm_result (onData m c s) \<noteq> Some (Inr ())" for c
    using assms(1) by (auto simp: onData_def Let_def smtp_end_def hand_over_def resume_not_sent split: prod.split list.split)
  have c: "sm_result (connected m s) \<noteq> Some (Inr ())"
    using assms(1) by (auto simp: connected_def Let_def resume_not_sent split: list.split)
  show ?thesis
    using assms d c by (cases e) (auto simp: smtp_step_def smtp_end_def cmd_not_sent settle_def split: if_splits)
qed

text \<open>
  C22. Sent means accepted: when a mail counts as sent, the hub has said one whole conversation (the
  greeting, TLS and the login as they are set, the sender, each recipient once, the data, the farewell), and
  what the server sent, read as replies, is exactly one reply for the greeting and each command, in order, each
  with a code that accepts. No reply came unasked, however the bytes were split over reads.
\<close>

theorem sent_means_accepted:
  assumes "sendMail m = Inr s" "sm_result (foldl (smtp_step m) s es) = None" "sm_result (foldl (smtp_step m) s (es @ [e])) = Some (Inr ())"
  shows "\<exists>c. c \<in> set (conversations m) \<and> answered (fst (drain (heard es))) (Greeting # map fst c) \<and>
    map snd (sm_out (foldl (smtp_step m) s (es @ [e]))) = map (\<lambda>(p, l). l @ CRLF) c @ [''QUIT'' @ CRLF]"
proof -
  let ?s = "foldl (smtp_step m) s es"
  have e: "e = Immediate" "sm_phase ?s = Settle" "sm_replies ?s = []" using step_sent [OF assms(2)] assms(3) by auto
  obtain c where c: "ready m (heard es) ?s c" "c \<in> set (said m (sm_phase ?s))"
    by (rule talk_silent [OF talk_run [OF assms(1)] assms(2)]) (use e in \<open>simp_all add: waits_for_def\<close>)
  have "foldl (smtp_step m) s (es @ [e]) = settle ?s" using assms(2) e by (simp add: smtp_step_def)
  then have "map snd (sm_out (foldl (smtp_step m) s (es @ [e]))) = map snd (sm_out ?s) @ [''QUIT'' @ CRLF]"
    using e by (simp add: settle_def say_def)
  then show ?thesis using c e by (intro exI [of _ c]) (auto simp: ready_def said_def)
qed

theorem sent_means_accepted_witness:
  "\<exists>s c. sendMail demo_mail = Inr s \<and> c \<in> set (conversations demo_mail) \<and> answered (fst (drain (heard demo_says))) (Greeting # map fst c) \<and>
    map snd (sm_out (foldl (smtp_step demo_mail) s (demo_says @ [Immediate]))) = map (\<lambda>(p, l). l @ CRLF) c @ [''QUIT'' @ CRLF]"
proof -
  let ?s = "case sendMail demo_mail of Inr s \<Rightarrow> s | Inl _ \<Rightarrow> undefined"
  have s: "sendMail demo_mail = Inr ?s" by code_simp
  have a: "sm_result (foldl (smtp_step demo_mail) ?s demo_says) = None" by code_simp
  have b: "sm_result (foldl (smtp_step demo_mail) ?s (demo_says @ [Immediate])) = Some (Inr ())" by code_simp
  from sent_means_accepted [OF s a b] s show ?thesis by blast
qed

section \<open>A server that accepts gets the mail\<close>

definition polite_text :: "phase \<Rightarrow> string" where
  "polite_text p = (case p of
       Greeting \<Rightarrow> ''220 ready'' @ CRLF
     | Starttls \<Rightarrow> ''220 go ahead'' @ CRLF
     | Auth_plain \<Rightarrow> ''235 welcome'' @ CRLF
     | Data_cmd \<Rightarrow> ''354 go ahead'' @ CRLF
     | Ehlo \<Rightarrow> ''250-STARTTLS'' @ CRLF @ ''250 AUTH PLAIN LOGIN'' @ CRLF
     | Ehlo_tls \<Rightarrow> ''250 AUTH PLAIN LOGIN'' @ CRLF
     | _ \<Rightarrow> ''250 ok'' @ CRLF)"

definition polite :: "phase \<Rightarrow> sevent" where
  "polite p = (case p of Connecting \<Rightarrow> Connected | Tls_up \<Rightarrow> TlsUp | Settle \<Rightarrow> Immediate | _ \<Rightarrow> Data (polite_text p))"

definition polite_step :: "mail \<Rightarrow> smtp \<Rightarrow> smtp" where
  "polite_step m s = smtp_step m s (polite (sm_phase s))"

definition to_go :: "mail \<Rightarrow> phase \<Rightarrow> nat" where
  "to_go m p = (let k = length (ml_to m) in case p of
       Connecting \<Rightarrow> k + 12 | Greeting \<Rightarrow> k + 11 | Ehlo \<Rightarrow> k + 10 | Starttls \<Rightarrow> k + 9 | Tls_up \<Rightarrow> k + 8 | Ehlo_tls \<Rightarrow> k + 7 | Auth_plain \<Rightarrow> k + 6
     | Mail_from \<Rightarrow> k + 5 | Rcpt n \<Rightarrow> k - n + 3 | Data_cmd \<Rightarrow> 3 | Body \<Rightarrow> 2 | Settle \<Rightarrow> 1 | _ \<Rightarrow> 0)"

definition on_course :: "mail \<Rightarrow> smtp \<Rightarrow> bool" where
  "on_course m s \<longleftrightarrow> sm_result s = None \<and> sm_buf s = [] \<and> sm_replies s = [] \<and> sm_waiting s = waits_for (sm_phase s) \<and>
     sm_phase s \<notin> {Auth_login, Auth_user, Auth_pass, Quit} \<and> (case sm_phase s of Rcpt n \<Rightarrow> n < length (ml_to m) | _ \<Rightarrow> True) \<and>
     (ml_user m = [] \<or> sm_secure s \<or> (ml_security m = ''starttls'' \<and> sm_phase s \<in> {Connecting, Greeting, Ehlo, Starttls, Tls_up}))"

definition nearer :: "mail \<Rightarrow> nat \<Rightarrow> smtp \<Rightarrow> bool" where
  "nearer m n s \<longleftrightarrow> on_course m s \<and> to_go m (sm_phase s) < n"

lemma polite_replies:
  "drain (''220 ready'' @ CRLF) = ([\<lparr>rp_code = 220, rp_lines = [''ready'']\<rparr>], [])"
  "drain (''220 go ahead'' @ CRLF) = ([\<lparr>rp_code = 220, rp_lines = [''go ahead'']\<rparr>], [])"
  "drain (''235 welcome'' @ CRLF) = ([\<lparr>rp_code = 235, rp_lines = [''welcome'']\<rparr>], [])"
  "drain (''354 go ahead'' @ CRLF) = ([\<lparr>rp_code = 354, rp_lines = [''go ahead'']\<rparr>], [])"
  "drain (''250-STARTTLS'' @ CRLF @ ''250 AUTH PLAIN LOGIN'' @ CRLF) = ([\<lparr>rp_code = 250, rp_lines = [''STARTTLS'', ''AUTH PLAIN LOGIN'']\<rparr>], [])"
  "drain (''250 AUTH PLAIN LOGIN'' @ CRLF) = ([\<lparr>rp_code = 250, rp_lines = [''AUTH PLAIN LOGIN'']\<rparr>], [])"
  "drain (''250 ok'' @ CRLF) = ([\<lparr>rp_code = 250, rp_lines = [''ok'']\<rparr>], [])"
  by code_simp+

lemmas polite_replies' = polite_replies [simplified]

lemma length_CRLF [simp]: "length CRLF = 2"
  by (simp add: CRLF_def)

lemma polite_words:
  "list_ex (word_here ''STARTTLS'') [''STARTTLS'', ''AUTH PLAIN LOGIN'']"
  "find (word_here ''AUTH'') [''STARTTLS'', ''AUTH PLAIN LOGIN''] = Some ''AUTH PLAIN LOGIN''"
  "find (word_here ''AUTH'') [''AUTH PLAIN LOGIN''] = Some ''AUTH PLAIN LOGIN''"
  "has_word False ''PLAIN'' ''AUTH PLAIN LOGIN''"
  by code_simp+

lemma data_step:
  assumes "on_course m s" "waits_for (sm_phase s)" "drain (polite_text (sm_phase s)) = ([r], [])" "length (polite_text (sm_phase s)) \<le> 100"
  shows "polite_step m s = resume m r (s\<lparr>sm_waiting := False\<rparr>)"
proof -
  have c: "sm_result s = None" "sm_buf s = []" "sm_replies s = []" "sm_waiting s" using assms(1,2) by (simp_all add: on_course_def)
  have "hand_over m [r] (s\<lparr>sm_buf := []\<rparr>) = resume m r (s\<lparr>sm_buf := [], sm_waiting := False, sm_replies := []\<rparr>)"
    using c by (simp add: hand_over_def)
  also have "s\<lparr>sm_buf := [], sm_waiting := False, sm_replies := []\<rparr> = s\<lparr>sm_waiting := False\<rparr>" using c by (cases s) simp
  finally have "hand_over m [r] (s\<lparr>sm_buf := []\<rparr>) = resume m r (s\<lparr>sm_waiting := False\<rparr>)" .
  moreover have "polite (sm_phase s) = Data (polite_text (sm_phase s))" using assms(2) by (cases "sm_phase s") (simp_all add: waits_for_def polite_def)
  ultimately show ?thesis using assms(3,4) c by (simp add: polite_step_def smtp_step_def onData_def Let_def)
qed

lemma cmd_nearer:
  assumes "on_course m (s\<lparr>sm_phase := p, sm_waiting := True\<rparr>)" "to_go m p < n"
  shows "nearer m n (cmd l p s)"
  using assms by (simp add: cmd_def say_def nearer_def on_course_def)

lemma log_in_nearer:
  assumes "sm_result s = None" "sm_buf s = []" "sm_replies s = []" "ml_user m = [] \<or> sm_secure s"
    "find (word_here ''AUTH'') (sm_ehlo s) = Some ''AUTH PLAIN LOGIN''" "n \<ge> length (ml_to m) + 7"
  shows "nearer m n (log_in m s)"
proof -
  have cmd: "nearer m n (cmd l p s)" if "p = Mail_from \<or> p = Auth_plain" for l p
    by (rule cmd_nearer) (use assms that in \<open>auto simp add: on_course_def waits_for_def to_go_def\<close>)
  show ?thesis
  proof (cases "ml_user m = []")
    case False
    then have "log_in m s = cmd (auth_plain m) Auth_plain s"
      unfolding log_in_def Let_def assms(5) option.case if_P [OF polite_words(4)] using assms(4) by simp
    then show ?thesis using cmd by simp
  qed (simp add: log_in_def cmd)
qed

lemma next_rcpt_nearer:
  assumes "sm_result s = None" "sm_buf s = []" "sm_replies s = []" "ml_user m = [] \<or> sm_secure s" "n > length (ml_to m) - i + 3"
  shows "nearer m n (next_rcpt m i s)"
proof (cases "i < length (ml_to m)")
  case True
  have "nearer m n (cmd (rcpt_to (ml_to m ! i)) (Rcpt i) s)"
    by (rule cmd_nearer) (use assms True in \<open>simp_all add: on_course_def waits_for_def to_go_def\<close>)
  then show ?thesis using True by (simp add: next_rcpt_def)
next
  case False
  have "nearer m n (cmd ''DATA'' Data_cmd s)"
    by (rule cmd_nearer) (use assms in \<open>simp_all add: on_course_def waits_for_def to_go_def\<close>)
  then show ?thesis using False by (simp add: next_rcpt_def)
qed

lemma polite_nearer:
  assumes c: "on_course m s" and p: "sm_phase s \<noteq> Settle"
  shows "nearer m (to_go m (sm_phase s)) (polite_step m s)"
proof -
  note c' = c [unfolded on_course_def]
  note step = data_step [OF c]
  show ?thesis
  proof (cases "sm_phase s")
    case Connecting
    then show ?thesis using c' by (simp add: polite_step_def polite_def smtp_step_def connected_def nearer_def on_course_def waits_for_def to_go_def)
  next
    case Greeting
    then have "polite_step m s = resume m \<lparr>rp_code = 220, rp_lines = [''ready'']\<rparr> (s\<lparr>sm_waiting := False\<rparr>)"
      by (intro step) (simp_all add: waits_for_def polite_text_def polite_replies')
    then show ?thesis using c' Greeting by (auto simp: resume_def wanted_def on_course_def waits_for_def to_go_def intro!: cmd_nearer)
  next
    case Ehlo
    then have e: "polite_step m s = resume m \<lparr>rp_code = 250, rp_lines = [''STARTTLS'', ''AUTH PLAIN LOGIN'']\<rparr> (s\<lparr>sm_waiting := False\<rparr>)"
      by (intro step) (simp_all add: waits_for_def polite_text_def polite_replies')
    show ?thesis
    proof (cases "ml_security m = ''starttls''")
      case True
      then show ?thesis using c' Ehlo polite_words(1) unfolding e
        by (auto simp: resume_def Let_def wanted_def on_course_def waits_for_def to_go_def intro!: cmd_nearer)
    next
      case False
      then show ?thesis using c' Ehlo polite_words(2) unfolding e
        by (auto simp: resume_def Let_def wanted_def to_go_def intro!: log_in_nearer)
    qed
  next
    case Starttls
    then have "polite_step m s = resume m \<lparr>rp_code = 220, rp_lines = [''go ahead'']\<rparr> (s\<lparr>sm_waiting := False\<rparr>)"
      by (intro step) (simp_all add: waits_for_def polite_text_def polite_replies')
    then show ?thesis using c' Starttls by (auto simp: resume_def wanted_def nearer_def on_course_def waits_for_def to_go_def)
  next
    case Tls_up
    then show ?thesis using c'
      by (auto simp: polite_step_def polite_def smtp_step_def on_course_def waits_for_def to_go_def intro!: cmd_nearer)
  next
    case Ehlo_tls
    then have "polite_step m s = resume m \<lparr>rp_code = 250, rp_lines = [''AUTH PLAIN LOGIN'']\<rparr> (s\<lparr>sm_waiting := False\<rparr>)"
      by (intro step) (simp_all add: waits_for_def polite_text_def polite_replies')
    then show ?thesis using c' Ehlo_tls polite_words(3)
      by (auto simp: resume_def wanted_def to_go_def intro!: log_in_nearer)
  next
    case Auth_plain
    then have "polite_step m s = resume m \<lparr>rp_code = 235, rp_lines = [''welcome'']\<rparr> (s\<lparr>sm_waiting := False\<rparr>)"
      by (intro step) (simp_all add: waits_for_def polite_text_def polite_replies')
    then show ?thesis using c' Auth_plain by (auto simp: resume_def wanted_def on_course_def waits_for_def to_go_def intro!: cmd_nearer)
  next
    case Mail_from
    then have "polite_step m s = resume m \<lparr>rp_code = 250, rp_lines = [''ok'']\<rparr> (s\<lparr>sm_waiting := False\<rparr>)"
      by (intro step) (simp_all add: waits_for_def polite_text_def polite_replies')
    then show ?thesis using c' Mail_from by (auto simp: resume_def wanted_def to_go_def intro!: next_rcpt_nearer)
  next
    case (Rcpt n)
    then have "polite_step m s = resume m \<lparr>rp_code = 250, rp_lines = [''ok'']\<rparr> (s\<lparr>sm_waiting := False\<rparr>)"
      by (intro step) (simp_all add: waits_for_def polite_text_def polite_replies')
    then show ?thesis using c' Rcpt by (auto simp: resume_def wanted_def to_go_def intro!: next_rcpt_nearer)
  next
    case Data_cmd
    then have "polite_step m s = resume m \<lparr>rp_code = 354, rp_lines = [''go ahead'']\<rparr> (s\<lparr>sm_waiting := False\<rparr>)"
      by (intro step) (simp_all add: waits_for_def polite_text_def polite_replies')
    then show ?thesis using c' Data_cmd by (auto simp: resume_def wanted_def on_course_def waits_for_def to_go_def intro!: cmd_nearer)
  next
    case Body
    then have "polite_step m s = resume m \<lparr>rp_code = 250, rp_lines = [''ok'']\<rparr> (s\<lparr>sm_waiting := False\<rparr>)"
      by (intro step) (simp_all add: waits_for_def polite_text_def polite_replies')
    then show ?thesis using c' Body by (auto simp: resume_def wanted_def nearer_def on_course_def waits_for_def to_go_def)
  qed (use c' p in simp_all)
qed

lemma polite_delivers:
  assumes "on_course m s"
  shows "\<exists>n \<le> to_go m (sm_phase s). sm_result ((polite_step m ^^ n) s) = Some (Inr ())"
  using assms
proof (induction "to_go m (sm_phase s)" arbitrary: s rule: less_induct)
  case less
  show ?case
  proof (cases "sm_phase s = Settle")
    case True
    then have "sm_result ((polite_step m ^^ 1) s) = Some (Inr ())"
      using less.prems by (simp add: polite_step_def polite_def smtp_step_def settle_def on_course_def smtp_end_def say_def)
    moreover have "1 \<le> to_go m (sm_phase s)" using True by (simp add: to_go_def)
    ultimately show ?thesis by blast
  next
    case False
    note n = polite_nearer [OF less.prems False, unfolded nearer_def]
    then obtain k where "k \<le> to_go m (sm_phase (polite_step m s))" "sm_result ((polite_step m ^^ k) (polite_step m s)) = Some (Inr ())"
      using less.hyps [of "polite_step m s"] by blast
    then have "Suc k \<le> to_go m (sm_phase s)" "sm_result ((polite_step m ^^ Suc k) s) = Some (Inr ())"
      using n by (auto simp del: funpow.simps simp: funpow_Suc_right)
    then show ?thesis by blast
  qed
qed

text \<open>
  C23. A server that accepts gets the mail: whatever mail passes the first check, with as many recipients
  as it has, a server that greets, offers TLS and a login and says yes to every command has it accepted
  after at most twelve steps and one for each recipient.
\<close>

theorem accepted_mail_is_sent:
  assumes "sendMail m = Inr s" "ml_security m \<in> {''starttls'', ''tls'', ''none''}"
  shows "\<exists>n. n \<le> length (ml_to m) + 12 \<and> sm_result ((polite_step m ^^ n) s) = Some (Inr ())"
proof -
  have "sm_secure s = (ml_security m = ''tls'')" using assms(1) by (auto simp: sendMail_def split: if_splits)
  then have "on_course m s" using sendMail_started [OF assms(1)] assms(2) by (auto simp: on_course_def waits_for_def)
  moreover have "to_go m (sm_phase s) = length (ml_to m) + 12" using sendMail_started(1) [OF assms(1)] by (simp add: to_go_def)
  ultimately show ?thesis using polite_delivers [of m s] by auto
qed

theorem accepted_mail_is_sent_witness:
  "\<exists>s n. sendMail demo_mail = Inr s \<and> n \<le> 13 \<and> sm_result ((polite_step demo_mail ^^ n) s) = Some (Inr ())"
proof -
  let ?s = "case sendMail demo_mail of Inr s \<Rightarrow> s | Inl _ \<Rightarrow> undefined"
  have s: "sendMail demo_mail = Inr ?s" by code_simp
  have "ml_security demo_mail \<in> {''starttls'', ''tls'', ''none''}" by (simp add: demo_mail_def)
  from accepted_mail_is_sent [OF s this] s show ?thesis by (auto simp: demo_mail_def)
qed

section \<open>The message cannot end itself\<close>

definition clean :: "string \<Rightarrow> bool" where
  "clean s \<longleftrightarrow> CHR 0x0D \<notin> set s \<and> CHR 0x0A \<notin> set s"

definition ok_line :: "string \<Rightarrow> bool" where
  "ok_line l \<longleftrightarrow> clean l \<and> take 1 l \<noteq> ''.''"

definition ok_text :: "string \<Rightarrow> bool" where
  "ok_text s \<longleftrightarrow> list_all ok_line (split_crlf s)"

lemma clean_simps [simp]: "clean []" "clean (a @ b) = (clean a \<and> clean b)" "clean (c # s) = (c \<noteq> CHR 0x0D \<and> c \<noteq> CHR 0x0A \<and> clean s)"
  by (auto simp: clean_def)

lemma split_line: "CHR 0x0D \<notin> set l \<Longrightarrow> split_crlf (l @ CRLF @ b) = l # split_crlf b"
proof (induction l)
  case (Cons x l)
  then show ?case by (cases l) (auto simp: CRLF_def)
qed (simp add: CRLF_def)

lemma split_clean: "clean l \<Longrightarrow> split_crlf l = [l]"
proof (induction l)
  case (Cons x l)
  then show ?case by (cases l) auto
qed simp

lemma split_two:
  assumes "CHR 0x0D \<notin> set (last (split_crlf a))"
  shows "split_crlf (a @ CRLF @ b) = split_crlf a @ split_crlf b"
proof -
  have "split_crlf (a @ CRLF @ b) = butlast (split_crlf a) @ [last (split_crlf a)] @ split_crlf b"
    unfolding split_crlf_append [of a "CRLF @ b"] by (simp only: split_line [OF assms] append_Cons append_Nil)
  then show ?thesis by (simp only: append_assoc [symmetric] append_butlast_last_id [OF split_crlf_nonempty])
qed

lemma ok_text_last: "ok_text a \<Longrightarrow> CHR 0x0D \<notin> set (last (split_crlf a))"
  by (auto simp: ok_text_def list_all_iff ok_line_def clean_def)

lemma ok_text_two: "ok_text a \<Longrightarrow> ok_text b \<Longrightarrow> ok_text (a @ CRLF @ b)"
  by (simp add: split_two ok_text_last ok_text_def)

lemma ok_text_line: "clean l \<Longrightarrow> take 1 l \<noteq> ''.'' \<Longrightarrow> ok_text l"
  by (simp add: ok_text_def split_clean ok_line_def)

lemma ok_text_join: "list_all ok_text ls \<Longrightarrow> ok_text (join_crlf ls)"
proof (induction ls)
  case (Cons l ls)
  then show ?case by (cases ls) (auto simp: ok_text_two)
qed (simp add: ok_text_line)

lemma B64_clean: "n < 64 \<Longrightarrow> B64 ! n \<noteq> CHR 0x0D \<and> B64 ! n \<noteq> CHR 0x0A \<and> B64 ! n \<noteq> CHR ''.''"
proof -
  assume "n < 64"
  moreover have "length B64 = 64" by code_simp
  ultimately have "B64 ! n \<in> set B64" by simp
  moreover have "list_all (\<lambda>c. c \<noteq> CHR 0x0D \<and> c \<noteq> CHR 0x0A \<and> c \<noteq> CHR ''.'') B64" by code_simp
  ultimately show ?thesis by (simp add: list_all_iff)
qed

definition plain_char :: "char \<Rightarrow> bool" where
  "plain_char c \<longleftrightarrow> c \<noteq> CHR 0x0D \<and> c \<noteq> CHR 0x0A \<and> c \<noteq> CHR ''.''"

lemma sextets: "a mod 4 * 16 + b div 16 mod 16 < (64 :: nat)" "b mod 16 * 4 + c div 64 mod 4 < (64 :: nat)" "b mod 16 * 4 < (64 :: nat)" "a mod 4 * 16 < (64 :: nat)"
  using mod_less_divisor [of 4 a] mod_less_divisor [of 16 b] mod_less_divisor [of 16 "b div 16"] mod_less_divisor [of 4 "c div 64"]
  by linarith+

lemma b64_plain: "list_all plain_char (b64_bytes ns)"
  by (induction ns rule: b64_bytes.induct) (simp_all add: B64_clean sextets plain_char_def)

lemma plain_clean: "list_all plain_char s \<Longrightarrow> clean s \<and> take 1 s \<noteq> ''.''"
  by (cases s) (auto simp: list_all_iff plain_char_def clean_def)

lemma pieces_plain: "list_all p s \<Longrightarrow> list_all (list_all p) (pieces n s)"
proof (induction n s rule: pieces.induct)
  case (2 n x xs)
  then show ?case by (auto simp: list_all_iff dest: in_set_takeD in_set_dropD)
qed simp

lemma one_line_clean: "clean (one_line run s)"
  by (induction run s rule: one_line.induct) auto

lemma join_words: "pre @ join_with (CRLF @ sep) (w # ws) = join_crlf ((pre @ w) # map ((@) sep) ws)"
proof (induction ws arbitrary: pre w)
  case (Cons v vs)
  have "pre @ join_with (CRLF @ sep) (w # v # vs) = (pre @ w) @ CRLF @ (sep @ join_with (CRLF @ sep) (v # vs))" by simp
  then show ?case using Cons [of sep v] by simp
qed simp

lemma header_ok:
  assumes "clean pre" "take 1 pre \<noteq> ''.''" "pre \<noteq> []"
  shows "ok_text (pre @ header s)"
proof (cases "list_all (\<lambda>c. 32 \<le> (of_char c :: nat) \<and> (of_char c :: nat) \<le> 126) (one_line False s)")
  case True
  then show ?thesis using assms one_line_clean [of False s] by (cases pre) (simp_all add: header_def ok_text_line)
next
  case False
  define ws where "ws = map encoded_word (pieces 11 (one_line False s))"
  have "list_all plain_char (b64 x)" for x by (simp add: b64_def b64_plain)
  then have w: "list_all clean ws" by (auto simp: ws_def list_all_iff encoded_word_def plain_clean)
  have "ws \<noteq> []" using False by (cases "one_line False s") (simp_all add: ws_def)
  then obtain v vs where v: "ws = v # vs" by (cases ws) auto
  have "list_all ok_text ((pre @ v) # map ((@) '' '') vs)"
    using assms w v by (cases pre) (auto simp: list_all_iff intro!: ok_text_line)
  moreover have "header s = join_with (CRLF @ '' '') ws" using False by (simp add: header_def Let_def ws_def)
  ultimately show ?thesis unfolding v by (simp only: join_words ok_text_join)
qed

lemma lines_ok:
  assumes "list_all (\<lambda>l. clean l \<and> take 1 l \<noteq> ''.'') ls"
  shows "ok_text (concat (map (\<lambda>l. l @ CRLF) ls))"
  using assms
proof (induction ls)
  case (Cons l ls)
  then have "ok_text l" "ok_text (concat (map (\<lambda>l. l @ CRLF) ls))" by (simp_all add: ok_text_line)
  then show ?case using ok_text_two by simp
qed (simp add: ok_text_line)

lemma mail_body_ok: "ok_text (mail_body s)"
proof -
  have "list_all (list_all plain_char) (pieces 75 (b64 (crlf_lines s)))" by (rule pieces_plain) (simp add: b64_def b64_plain)
  then show ?thesis unfolding mail_body_def by (intro lines_ok) (auto simp: list_all_iff intro: plain_clean [unfolded list_all_iff, THEN conjunct1] dest!: plain_clean [unfolded list_all_iff])
qed

lemma class_clean: "list_all p s \<Longrightarrow> \<not> p (CHR 0x0D) \<Longrightarrow> \<not> p (CHR 0x0A) \<Longrightarrow> clean s"
  by (auto simp: list_all_iff clean_def)

lemma set_split_on: "x \<in> set s \<Longrightarrow> x = c \<or> (\<exists>p \<in> set (split_on c s). x \<in> set p)"
proof (induction s)
  case (Cons y s)
  then show ?case by (cases "split_on c s") auto
qed simp

lemma split_on_last: "length (split_on c d) > 1 \<Longrightarrow> \<exists>pre. d = pre @ c # last (split_on c d)"
proof (induction d)
  case (Cons x d)
  show ?case
  proof (cases "length (split_on c d) > 1")
    case True
    then obtain pre where "d = pre @ c # last (split_on c d)" using Cons.IH by blast
    then have "x # d = (x # pre) @ c # last (split_on c (x # d))" using True by (cases "split_on c d") auto
    then show ?thesis by blast
  next
    case False
    then obtain p where p: "split_on c d = [p]" by (cases "split_on c d" rule: remdups_adj.cases) auto
    then have "x = c" using Cons.prems by (auto split: if_splits)
    moreover have "c \<notin> set d" using p split_on_append [of c] by (metis append_eq_Cons_conv append_is_Nil_conv split_list split_on_nonempty)
    ultimately show ?thesis using p by (auto simp: split_on_no_sep)
  qed
qed simp

lemma address_clean:
  assumes "ADDRESS s"
  shows "clean s"
proof -
  obtain a d where ad: "split_on (CHR ''@'') s = [a, d]" using assms by (auto simp: ADDRESS_def split: list.splits)
  define tld where "tld = last (split_on (CHR ''.'') d)"
  have a: "in_class (\<lambda>c. is_alnum c \<or> c \<in> set ''._%+-'') 1 64 a" and n: "length (split_on (CHR ''.'') d) > 1"
    and t: "in_class (\<lambda>c. is_lower c \<or> is_upper c) 2 63 tld"
    and dm: "in_class (\<lambda>c. is_alnum c \<or> c \<in> set ''.-'') 1 253 (take (length d - length tld - 1) d)"
    using assms unfolding ADDRESS_def ad tld_def by (simp_all add: Let_def)
  obtain pre where pre: "d = pre @ CHR ''.'' # tld" using split_on_last [OF n] unfolding tld_def by blast
  have "clean pre" using dm unfolding pre by (intro class_clean) (auto simp: in_class_def is_alnum_def is_lower_def is_upper_def is_digit_def)
  moreover have "clean tld" using t by (intro class_clean) (auto simp: in_class_def is_lower_def is_upper_def)
  moreover have "clean a" using a by (intro class_clean) (auto simp: in_class_def is_alnum_def is_lower_def is_upper_def is_digit_def)
  ultimately show ?thesis using set_split_on [of _ s "CHR ''@''"] unfolding ad pre clean_def by auto
qed

lemma commas_clean: "list_all clean xs \<Longrightarrow> clean (commas xs)"
proof (induction xs)
  case (Cons x xs)
  then show ?case by (cases xs) (simp_all add: commas_def)
qed (simp add: commas_def)

lemma helo_clean: "clean (helo m)"
  unfolding helo_def by (auto intro!: class_clean simp: in_class_def is_alnum_def is_lower_def is_upper_def is_digit_def)

text \<open>
  A message cannot end itself: whatever the subject and the text are (they name servers and disks), the
  lines sent after DATA have no stray carriage return or line feed, only the last one begins with a dot, and
  it is the dot alone that ends the message; so nothing in an alert can start another command.
\<close>

theorem message_ends_once:
  assumes "sendMail m = Inr s" "clean (ml_date m)" "clean (ml_id m)"
  shows "\<exists>ls. split_crlf (mail_data m @ CRLF) = ls @ [''.'', []] \<and> list_all (\<lambda>l. clean l \<and> take 1 l \<noteq> ''.'') ls"
proof -
  have a: "clean (ml_from m)" "clean (commas (ml_to m))"
    using sendMail_started(9,10) [OF assms(1)] by (auto simp: list_all_iff intro!: address_clean commas_clean)
  have "ok_text (''Subject: '' @ header (ml_subject m))" by (rule header_ok) simp_all
  then have "ok_text (message m)" unfolding message_def using a assms(2,3) mail_body_ok [of "ml_text m"]
    by (intro ok_text_join) (simp add: ok_text_line helo_clean)
  moreover from this have "split_crlf (message m @ CRLF @ ''.'' @ CRLF) = split_crlf (message m) @ split_crlf (''.'' @ CRLF)"
    by (intro split_two ok_text_last)
  moreover have "split_crlf (''.'' @ CRLF) = [''.'', []]" by (simp add: CRLF_def)
  ultimately show ?thesis by (auto simp: mail_data_def ok_text_def ok_line_def [abs_def])
qed

definition sly_mail :: mail where
  "sly_mail = demo_mail\<lparr>ml_subject := ''a'' @ CRLF @ ''Bcc: x'', ml_text := [CHR 0x0A] @ ''.'' @ [CHR 0x0A] @ ''RSET''\<rparr>"

theorem message_ends_once_witness:
  "\<exists>ls. split_crlf (mail_data sly_mail @ CRLF) = ls @ [''.'', []] \<and> list_all (\<lambda>l. clean l \<and> take 1 l \<noteq> ''.'') ls"
proof -
  let ?s = "case sendMail sly_mail of Inr s \<Rightarrow> s | Inl _ \<Rightarrow> undefined"
  have "sendMail sly_mail = Inr ?s" by code_simp
  from message_ends_once [OF this] show ?thesis by (simp add: sly_mail_def demo_mail_def)
qed

end
