(* ===== verification/Proxy.thy ===== *)
theory Proxy
  imports Client_Ip Confd Smtp
begin

text \<open>
  The hub's outbound calls (\<^verbatim>\<open>src/hub/lib/proxy.js\<close>): the proxies of the environment, the hosts that go direct, and
  one call as a machine whose steps are the events of its timer and sockets. What goes out is kept with the
  connection it goes out on. \<^verbatim>\<open>new URL\<close> and \<^verbatim>\<open>decodeURIComponent\<close> are arguments (\<open>None\<close> when they throw), and so is what
  Node refuses to build. A body is the list of its bytes; \<^verbatim>\<open>ca\<close> and the wait of the timer are left out.
\<close>

section \<open>The environment\<close>

definition pick :: "(string \<times> string) list \<Rightarrow> string \<Rightarrow> string" where
  "pick env name = (case map_of env name of Some (c # cs) \<Rightarrow> c # cs
     | _ \<Rightarrow> (case map_of env (lower_case name) of Some v \<Rightarrow> v | None \<Rightarrow> []))"

record url =
  ur_protocol :: string
  ur_hostname :: string
  ur_port :: string
  ur_username :: string
  ur_password :: string
  ur_host :: string
  ur_path :: string
  ur_href :: string

record proxy =
  px_host :: string
  px_port :: nat
  px_auth :: "string option"

text \<open>\<^verbatim>\<open>s.replace(/^\[|\]$/g, "")\<close>\<close>

definition unbracket :: "string \<Rightarrow> string" where
  "unbracket s = (let a = (if starts_with ''['' s then tl s else s) in if a \<noteq> [] \<and> last a = CHR '']'' then butlast a else a)"

definition port_or :: "nat \<Rightarrow> string \<Rightarrow> nat" where
  "port_or d s = (let n = nat (dec_val s) in if n = 0 then d else n)"

definition parseProxy :: "(string \<Rightarrow> url option) \<Rightarrow> (string \<Rightarrow> string option) \<Rightarrow> string \<Rightarrow> proxy option" where
  "parseProxy parse unesc s =
    (if s = [] then None
     else case parse s of None \<Rightarrow> None
       | Some u \<Rightarrow> if ur_protocol u \<noteq> ''http:'' \<or> ur_hostname u = [] then None
           else (let dec = (\<lambda>x. case unesc x of Some y \<Rightarrow> y | None \<Rightarrow> x) in
             Some \<lparr>px_host = unbracket (ur_hostname u), px_port = port_or 80 (ur_port u),
               px_auth = (if ur_username u = [] then None else Some (''Basic '' @ b64 (dec (ur_username u) @ '':'' @ dec (ur_password u))))\<rparr>))"

section \<open>Hosts that go direct\<close>

definition ipv4 :: "string \<Rightarrow> int option" where
  "ipv4 s = (if isIPv4 s then Some (foldl (\<lambda>n oc. n * 256 + dec_val oc) 0 (split_on CHR ''.'' s)) else None)"

definition inCidr :: "string \<Rightarrow> string \<Rightarrow> bool" where
  "inCidr host cidr = (let ps = split_on CHR ''/'' cidr; bits = (if length ps > 1 then js_Number (ps ! 1) else None) in
     case (ipv4 host, ipv4 (hd ps), bits) of
       (Some h, Some b, Some q) \<Rightarrow> if q \<noteq> of_int \<lfloor>q\<rfloor> \<or> q < 0 \<or> q > 32 then False
         else (let n = nat \<lfloor>q\<rfloor>; mk = (if n = 0 then 0 else push_bit (32 - n) 0xffffffff) :: 32 word in
           word_of_int h AND mk = word_of_int b AND mk)
     | _ \<Rightarrow> False)"

definition ALWAYS_DIRECT :: "string list" where
  "ALWAYS_DIRECT = [''localhost'', ''127.0.0.1'', ''::1'']"

text \<open>\<^verbatim>\<open>e.replace(/:\d+$/, "")\<close>\<close>

definition drop_port :: "string \<Rightarrow> string" where
  "drop_port e = (let ds = takeWhile is_digit (rev e); r = drop (length ds) (rev e) in
     if ds \<noteq> [] \<and> r \<noteq> [] \<and> hd r = CHR '':'' then rev (tl r) else e)"

definition direct_name :: "string \<Rightarrow> string \<Rightarrow> bool" where
  "direct_name host e = (if starts_with ''.'' e then ends_with e host \<or> host = tl e else host = e \<or> ends_with (''.'' @ e) host)"

text \<open>One entry of the list; the loop goes on to the next one where this is false.\<close>

definition direct_entry :: "string \<Rightarrow> string \<Rightarrow> bool" where
  "direct_entry host raw = (let e = lower_case (js_trim raw); a = unbracket e in
     if e = [] then False
     else if e = ''*'' then True
     else if CHR ''/'' \<in> set e then inCidr host e
     else if isIP a then a = host
     else direct_name host (drop_port a))"

definition noProxy :: "string \<Rightarrow> string \<Rightarrow> bool" where
  "noProxy list host0 = (let host = unbracket (lower_case host0) in
     host \<in> set ALWAYS_DIRECT \<or> list_ex (direct_entry host) (split_on CHR '','' list))"

record outbound =
  ob_https :: "proxy option"
  ob_http :: "proxy option"
  ob_skip :: string

definition createOutbound :: "(string \<Rightarrow> url option) \<Rightarrow> (string \<Rightarrow> string option) \<Rightarrow> (string \<times> string) list \<Rightarrow> outbound" where
  "createOutbound parse unesc env = \<lparr>ob_https = parseProxy parse unesc (pick env ''HTTPS_PROXY''),
     ob_http = parseProxy parse unesc (pick env ''HTTP_PROXY''), ob_skip = pick env ''NO_PROXY''\<rparr>"

definition proxyFor :: "outbound \<Rightarrow> url \<Rightarrow> proxy option" where
  "proxyFor ob u = (case (if ur_protocol u = ''https:'' then ob_https ob else if ur_protocol u = ''http:'' then ob_http ob else None) of
       None \<Rightarrow> None | Some p \<Rightarrow> if noProxy (ob_skip ob) (ur_hostname u) then None else Some p)"

definition describe_proxy :: "proxy option \<Rightarrow> string" where
  "describe_proxy p = (case p of None \<Rightarrow> ''direct'' | Some q \<Rightarrow> px_host q @ '':'' @ show_nat (px_port q))"

definition describe :: "outbound \<Rightarrow> (string \<times> string) list" where
  "describe ob = [(''https'', describe_proxy (ob_https ob)), (''http'', describe_proxy (ob_http ob))]"

section \<open>A call\<close>

record hreq =
  rq_method :: string
  rq_path :: string
  rq_headers :: "(string \<times> string) list"
  rq_body :: "string option"

text \<open>What goes out and on which connection: to the destination, in clear or over TLS (with the name sent), to the proxy in clear, or over TLS with the destination inside the tunnel.\<close>

datatype wire =
    ToServer string nat hreq
  | ToServerTls string nat "string option" hreq
  | ToProxy string nat hreq
  | ThroughTunnel string "string option" hreq

record call_opts =
  co_method :: string
  co_headers :: "(string \<times> string) list"
  co_body :: "string option"
  co_max :: nat

text \<open>An error: its code, empty when there is none, and its message.\<close>

type_synonym call_error = "string \<times> string"

record call_answer =
  an_status :: nat
  an_headers :: "(string \<times> string) list"
  an_body :: string

record call =
  ca_url :: url
  ca_opts :: call_opts
  ca_proxy :: "proxy option"
  ca_done :: bool
  ca_result :: "(call_error + call_answer) option"
  ca_wire :: "wire list"
  ca_head :: "(nat \<times> (string \<times> string) list) option"
  ca_size :: nat
  ca_chunks :: string

definition fail_call :: "call_error \<Rightarrow> string \<Rightarrow> call \<Rightarrow> call" where
  "fail_call e code c = (if ca_done c then c
     else c\<lparr>ca_done := True, ca_result := Some (Inl (if fst e = [] then (code, snd e) else e))\<rparr>)"

definition send_out :: "(wire \<Rightarrow> call_error option) \<Rightarrow> wire \<Rightarrow> call \<Rightarrow> call" where
  "send_out refuses w c = (case refuses w of Some e \<Rightarrow> fail_call e [] c | None \<Rightarrow> c\<lparr>ca_wire := ca_wire c @ [w]\<rparr>)"

definition call_host :: "url \<Rightarrow> string" where "call_host u = unbracket (ur_hostname u)"

definition call_port :: "url \<Rightarrow> nat" where
  "call_port u = port_or (if ur_protocol u = ''https:'' then 443 else 80) (ur_port u)"

definition call_headers :: "call_opts \<Rightarrow> (string \<times> string) list" where
  "call_headers os = spread (co_headers os) (case co_body os of None \<Rightarrow> [] | Some b \<Rightarrow> [(''content-length'', show_nat (length b))])"

definition server_name :: "url \<Rightarrow> string option" where
  "server_name u = (if isIP (call_host u) then None else Some (call_host u))"

definition proxy_auth :: "proxy \<Rightarrow> (string \<times> string) list" where
  "proxy_auth p = (case px_auth p of None \<Rightarrow> [] | Some a \<Rightarrow> [(''proxy-authorization'', a)])"

definition own_request :: "url \<Rightarrow> call_opts \<Rightarrow> hreq" where
  "own_request u os = \<lparr>rq_method = co_method os, rq_path = ur_path u, rq_headers = call_headers os, rq_body = co_body os\<rparr>"

definition proxied_request :: "proxy \<Rightarrow> url \<Rightarrow> call_opts \<Rightarrow> hreq" where
  "proxied_request p u os = \<lparr>rq_method = co_method os, rq_path = ur_href u,
     rq_headers = spread (spread [(''host'', ur_host u)] (call_headers os)) (proxy_auth p), rq_body = co_body os\<rparr>"

definition tunnel_target :: "url \<Rightarrow> string" where
  "tunnel_target u = (if isIPv6 (call_host u) then ''['' @ call_host u @ '']'' else call_host u) @ '':'' @ show_nat (call_port u)"

definition connect_request :: "proxy \<Rightarrow> url \<Rightarrow> hreq" where
  "connect_request p u = \<lparr>rq_method = ''CONNECT'', rq_path = tunnel_target u,
     rq_headers = spread [(''host'', tunnel_target u)] (proxy_auth p), rq_body = None\<rparr>"

definition new_call :: "outbound \<Rightarrow> url \<Rightarrow> call_opts \<Rightarrow> call" where
  "new_call ob u os = \<lparr>ca_url = u, ca_opts = os, ca_proxy = proxyFor ob u, ca_done = False, ca_result = None, ca_wire = [],
     ca_head = None, ca_size = 0, ca_chunks = []\<rparr>"

text \<open>\<^verbatim>\<open>request\<close> up to its first wait: refused at once, or a call under way.\<close>

definition call_start :: "(string \<Rightarrow> url option) \<Rightarrow> (wire \<Rightarrow> call_error option) \<Rightarrow> outbound \<Rightarrow> string \<Rightarrow> call_opts \<Rightarrow> call_error + call" where
  "call_start parse refuses ob address os = bindE (ok_or (''EURL'', ''invalid url'') (parse address)) (\<lambda>u.
     if ur_protocol u \<noteq> ''https:'' \<and> ur_protocol u \<noteq> ''http:'' then Inl (''EURL'', ''only http and https'')
     else (let c = new_call ob u os; secure = (ur_protocol u = ''https:'') in
       case ca_proxy c of
         None \<Rightarrow> Inr (send_out refuses (if secure then ToServerTls (call_host u) (call_port u) (server_name u) (own_request u os)
           else ToServer (call_host u) (call_port u) (own_request u os)) c)
       | Some p \<Rightarrow> if secure then Inr (c\<lparr>ca_wire := [ToProxy (px_host p) (px_port p) (connect_request p u)]\<rparr>)
           else Inr (send_out refuses (ToProxy (px_host p) (px_port p) (proxied_request p u os)) c)))"

datatype call_event =
    TimedOut
  | SocketFails call_error
  | TunnelFails call_error
  | TunnelUp nat
  | Answered nat "(string \<times> string) list"
  | Chunk string
  | Ended

text \<open>The handlers: \<^verbatim>\<open>SocketFails\<close> is an error of the request, of its answer or of the TLS inside the tunnel.\<close>

definition tunnelled :: "call \<Rightarrow> bool" where
  "tunnelled c \<longleftrightarrow> ca_proxy c \<noteq> None \<and> ur_protocol (ca_url c) = ''https:''"

definition tunnel_open :: "(wire \<Rightarrow> call_error option) \<Rightarrow> nat \<Rightarrow> call \<Rightarrow> call" where
  "tunnel_open refuses code c = (let u = ca_url c in
     if code \<noteq> 200 then fail_call ([], ''proxy answered '' @ show_nat code @ '' to CONNECT'') ''EPROXY'' c
     else send_out refuses (ThroughTunnel (call_host u) (server_name u) (own_request u (ca_opts c))) c)"

definition chunk_there :: "string \<Rightarrow> call \<Rightarrow> call" where
  "chunk_there b c = (let n = ca_size c + length b in
     if n > co_max (ca_opts c) then fail_call ([], ''answer too big'') ''ETOOBIG'' (c\<lparr>ca_size := n\<rparr>)
     else c\<lparr>ca_size := n, ca_chunks := ca_chunks c @ b\<rparr>)"

definition answer_over :: "call \<Rightarrow> call" where
  "answer_over c = (if ca_done c then c else case ca_head c of None \<Rightarrow> c
     | Some (code, hs) \<Rightarrow> c\<lparr>ca_done := True, ca_result := Some (Inr \<lparr>an_status = code, an_headers = hs, an_body = ca_chunks c\<rparr>)\<rparr>)"

definition call_step :: "(wire \<Rightarrow> call_error option) \<Rightarrow> call \<Rightarrow> call_event \<Rightarrow> call" where
  "call_step refuses c e = (case e of
       TimedOut \<Rightarrow> fail_call ([], ''timed out'') ''ETIMEDOUT'' c
     | SocketFails er \<Rightarrow> fail_call er [] c
     | TunnelFails er \<Rightarrow> if tunnelled c then fail_call er ''EPROXY'' c else c
     | TunnelUp code \<Rightarrow> if tunnelled c then tunnel_open refuses code c else c
     | Answered code hs \<Rightarrow> c\<lparr>ca_head := Some (code, hs)\<rparr>
     | Chunk b \<Rightarrow> chunk_there b c
     | Ended \<Rightarrow> answer_over c)"

section \<open>What the proxy sees\<close>

lemma call_frame [simp]:
  "ca_wire (fail_call e k c) = ca_wire c" "ca_url (fail_call e k c) = ca_url c" "ca_opts (fail_call e k c) = ca_opts c" "ca_proxy (fail_call e k c) = ca_proxy c"
  "ca_wire (chunk_there b c) = ca_wire c" "ca_url (chunk_there b c) = ca_url c" "ca_opts (chunk_there b c) = ca_opts c" "ca_proxy (chunk_there b c) = ca_proxy c"
  "ca_wire (answer_over c) = ca_wire c" "ca_url (answer_over c) = ca_url c" "ca_opts (answer_over c) = ca_opts c" "ca_proxy (answer_over c) = ca_proxy c"
  "ca_url (send_out f w c) = ca_url c" "ca_opts (send_out f w c) = ca_opts c" "ca_proxy (send_out f w c) = ca_proxy c"
  by (auto simp: fail_call_def chunk_there_def answer_over_def send_out_def Let_def split: option.split)

lemma call_step_frame [simp]:
  "ca_url (call_step f c e) = ca_url c" "ca_opts (call_step f c e) = ca_opts c" "ca_proxy (call_step f c e) = ca_proxy c"
  by (auto simp: call_step_def tunnel_open_def Let_def split: call_event.split)

lemma call_run_frame [simp]:
  "ca_url (foldl (call_step f) c es) = ca_url c" "ca_opts (foldl (call_step f) c es) = ca_opts c" "ca_proxy (foldl (call_step f) c es) = ca_proxy c"
  by (induction es arbitrary: c) simp_all

lemma call_step_wire:
  "ca_wire (call_step f c e) = ca_wire c \<or>
    e = TunnelUp 200 \<and> tunnelled c \<and> ca_wire (call_step f c e) = ca_wire c @ [ThroughTunnel (call_host (ca_url c)) (server_name (ca_url c)) (own_request (ca_url c) (ca_opts c))]"
proof (cases e)
  case (TunnelUp code)
  then show ?thesis by (auto simp: call_step_def tunnel_open_def send_out_def Let_def split: option.split)
qed (auto simp: call_step_def)

text \<open>A run adds nothing to what went out but the request inside the tunnel, once the proxy said 200.\<close>

lemma call_run_wire:
  "\<exists>ws. ca_wire (foldl (call_step f) c es) = ca_wire c @ ws \<and>
    set ws \<subseteq> {ThroughTunnel (call_host (ca_url c)) (server_name (ca_url c)) (own_request (ca_url c) (ca_opts c))} \<and>
    (ws = [] \<or> tunnelled c \<and> TunnelUp 200 \<in> set es)"
proof (induction es rule: rev_induct)
  case Nil
  then show ?case by simp
next
  case (snoc e es)
  then obtain ws where ws: "ca_wire (foldl (call_step f) c es) = ca_wire c @ ws"
    "set ws \<subseteq> {ThroughTunnel (call_host (ca_url c)) (server_name (ca_url c)) (own_request (ca_url c) (ca_opts c))}"
    "ws = [] \<or> tunnelled c \<and> TunnelUp 200 \<in> set es" by blast
  have t: "tunnelled (foldl (call_step f) c es) = tunnelled c" by (simp add: tunnelled_def)
  from call_step_wire [of f "foldl (call_step f) c es" e] show ?case
  proof
    assume "ca_wire (call_step f (foldl (call_step f) c es) e) = ca_wire (foldl (call_step f) c es)"
    then show ?thesis using ws by (intro exI [of _ ws]) auto
  next
    let ?w = "ThroughTunnel (call_host (ca_url c)) (server_name (ca_url c)) (own_request (ca_url c) (ca_opts c))"
    assume "e = TunnelUp 200 \<and> tunnelled (foldl (call_step f) c es) \<and> ca_wire (call_step f (foldl (call_step f) c es) e) = ca_wire (foldl (call_step f) c es) @
      [ThroughTunnel (call_host (ca_url (foldl (call_step f) c es))) (server_name (ca_url (foldl (call_step f) c es))) (own_request (ca_url (foldl (call_step f) c es)) (ca_opts (foldl (call_step f) c es)))]"
    then show ?thesis using ws t by (intro exI [of _ "ws @ [?w]"]) auto
  qed
qed

definition in_clear :: "wire \<Rightarrow> bool" where
  "in_clear w = (case w of ToServer h n r \<Rightarrow> True | ToProxy h n r \<Rightarrow> True | _ \<Rightarrow> False)"


text \<open>A call to a channel's server through a proxy with a password.\<close>

definition demo_addr :: "string \<Rightarrow> url option" where
  "demo_addr s = (if s = ''https://a.example/x'' then Some \<lparr>ur_protocol = ''https:'', ur_hostname = ''a.example'', ur_port = [], ur_username = [], ur_password = [],
     ur_host = ''a.example'', ur_path = ''/x'', ur_href = s\<rparr>
   else if s = ''http://u:p@proxy'' then Some \<lparr>ur_protocol = ''http:'', ur_hostname = ''proxy'', ur_port = [], ur_username = ''u'', ur_password = ''p'',
     ur_host = ''proxy'', ur_path = ''/'', ur_href = s\<rparr> else None)"

definition demo_outbound :: outbound where
  "demo_outbound = createOutbound demo_addr Some [(''https_proxy'', ''http://u:p@proxy''), (''NO_PROXY'', ''.lan,10.0.0.0/8'')]"

definition demo_opts :: call_opts where
  "demo_opts = \<lparr>co_method = ''POST'', co_headers = [(''x'', ''y'')], co_body = Some ''secret'', co_max = 10\<rparr>"

definition demo_call :: call where
  "demo_call = (case call_start demo_addr (\<lambda>w. None) demo_outbound ''https://a.example/x'' demo_opts of Inr c \<Rightarrow> c)"

lemma demo_call: "call_start demo_addr (\<lambda>w. None) demo_outbound ''https://a.example/x'' demo_opts = Inr demo_call"
  by code_simp


section \<open>How a call ends\<close>

fun chunks_of :: "call_event list \<Rightarrow> string" where
  "chunks_of [] = []"
| "chunks_of (e # es) = (case e of Chunk b \<Rightarrow> b @ chunks_of es | _ \<Rightarrow> chunks_of es)"

lemma chunks_of_append: "chunks_of (es @ fs) = chunks_of es @ chunks_of fs"
  by (induction es) (auto split: call_event.split)

definition settled_right :: "nat \<Rightarrow> call_event list \<Rightarrow> call_error + call_answer \<Rightarrow> bool" where
  "settled_right n es r = (case r of Inl e \<Rightarrow> True
     | Inr a \<Rightarrow> length (an_body a) \<le> n \<and> (\<exists>es1 es2. es = es1 @ Ended # es2 \<and> an_body a = chunks_of es1))"

definition call_inv :: "call_event list \<Rightarrow> call \<Rightarrow> bool" where
  "call_inv es c \<longleftrightarrow> (case ca_result c of
       None \<Rightarrow> \<not> ca_done c \<and> ca_chunks c = chunks_of es \<and> ca_size c = length (chunks_of es) \<and> ca_size c \<le> co_max (ca_opts c) \<and> TimedOut \<notin> set es
     | Some r \<Rightarrow> ca_done c \<and> settled_right (co_max (ca_opts c)) es r)"

lemma settled_more: "settled_right n es r \<Longrightarrow> settled_right n (es @ [e]) r"
  by (fastforce simp: settled_right_def split: sum.splits)

lemma settled_stays:
  assumes "ca_done c" shows "ca_done (call_step f c e) \<and> ca_result (call_step f c e) = ca_result c"
  using assms by (auto simp: call_step_def fail_call_def tunnel_open_def send_out_def chunk_there_def answer_over_def Let_def split: call_event.split option.split)

lemma settled_run: "ca_done c \<Longrightarrow> ca_result (foldl (call_step f) c es) = ca_result c"
  by (induction es arbitrary: c) (simp_all add: settled_stays)

lemma call_inv_fail: "\<not> ca_done c \<Longrightarrow> call_inv es (fail_call er k c)"
  by (simp add: call_inv_def fail_call_def settled_right_def)

lemma call_inv_step:
  assumes "call_inv es c"
  shows "call_inv (es @ [e]) (call_step f c e)"
proof (cases "ca_result c")
  case (Some r)
  then have "ca_done c" "settled_right (co_max (ca_opts c)) es r" using assms by (simp_all add: call_inv_def)
  then show ?thesis using Some settled_stays [of c f e] by (simp add: call_inv_def settled_more)
next
  case None
  then have c: "\<not> ca_done c" "ca_chunks c = chunks_of es" "ca_size c = length (chunks_of es)" "ca_size c \<le> co_max (ca_opts c)" "TimedOut \<notin> set es"
    using assms by (simp_all add: call_inv_def)
  have out: "call_inv (es @ [e]) (send_out f w c)" if "\<forall>b. e \<noteq> Chunk b" "e \<noteq> TimedOut" for w
  proof (cases "f w")
    case N: None
    have "chunks_of [e] = []" using that by (cases e) simp_all
    then show ?thesis using None N c that by (simp add: send_out_def call_inv_def chunks_of_append)
  qed (simp add: send_out_def call_inv_fail [OF c(1)])
  have same: "call_inv (es @ [e]) c" if "chunks_of [e] = []" "e \<noteq> TimedOut"
    using None c that by (simp add: call_inv_def chunks_of_append)
  show ?thesis
  proof (cases e)
    case (Chunk b)
    then show ?thesis using None c
      by (simp add: call_step_def chunk_there_def Let_def call_inv_def fail_call_def settled_right_def chunks_of_append)
  next
    case Ended
    show ?thesis
    proof (cases "ca_head c")
      case N: None
      then show ?thesis using Ended same by (simp add: call_step_def answer_over_def c(1))
    next
      case (Some h)
      then show ?thesis using Ended c
        by (cases h) (auto simp: call_step_def answer_over_def call_inv_def settled_right_def)
    qed
  next
    case (TunnelUp code)
    then show ?thesis using out same c(1) by (auto simp: call_step_def tunnel_open_def Let_def call_inv_fail)
  next
    case (Answered code hs)
    then show ?thesis using None c by (simp add: call_step_def call_inv_def chunks_of_append)
  qed (use c(1) same in \<open>auto simp: call_step_def call_inv_fail\<close>)
qed

text \<open>
  C30. A call settles once and in bounds: once its timer has fired it has settled; what it settled with never changes,
  whatever comes after; and a body it gives is at most the allowed number of bytes and is all that came
  before the end of the answer: too much is an error, never a cut.
\<close>

theorem call_settles_once:
  assumes "call_start parse refuses ob address os = Inr c"
  shows "(TimedOut \<in> set es \<longrightarrow> ca_result (foldl (call_step refuses) c es) \<noteq> None) \<and>
    (case ca_result (foldl (call_step refuses) c es) of None \<Rightarrow> True
     | Some r \<Rightarrow> ca_result (foldl (call_step refuses) c (es @ fs)) = Some r \<and> settled_right (co_max os) es r)"
proof -
  have i: "call_inv [] (new_call ob u os)" for u by (simp add: call_inv_def new_call_def)
  have s: "call_inv [] (send_out refuses w (new_call ob u os))" for u w
    by (auto simp: send_out_def new_call_def call_inv_def fail_call_def settled_right_def split: option.split)
  have "call_inv [] (new_call ob u os\<lparr>ca_wire := w\<rparr>)" for u w by (simp add: call_inv_def new_call_def)
  moreover have "ca_opts (new_call ob u os) = os" for u by (simp add: new_call_def)
  ultimately have "call_inv [] c \<and> ca_opts c = os"
    using assms s by (auto simp: call_start_def Let_def split: if_splits option.splits)
  then have "call_inv es (foldl (call_step refuses) c es)" "ca_opts c = os"
    by (induction es rule: rev_induct) (auto intro: call_inv_step)
  then show ?thesis
    using settled_run [of "foldl (call_step refuses) c es" refuses fs] by (auto simp: call_inv_def split: option.splits)
qed

theorem call_settles_once_witness:
  "\<exists>c. call_start demo_addr (\<lambda>w. None) demo_outbound ''https://a.example/x'' demo_opts = Inr c \<and>
    ca_result (foldl (call_step (\<lambda>w. None)) c [TunnelUp 200, Answered 200 [], Chunk ''ab'', Ended, TimedOut]) \<noteq> None"
proof -
  from call_settles_once [OF demo_call, of "[TunnelUp 200, Answered 200 [], Chunk ''ab'', Ended, TimedOut]"] demo_call show ?thesis by simp
qed

section \<open>Who goes direct\<close>

text \<open>The comparison of \<open>inCidr\<close> is the one of the trusted proxies: the same words, the same mask.\<close>

lemma word_of_int_mult_256: "word_of_int (n * 256 + k) = push_bit 8 (word_of_int n :: 32 word) + word_of_int k"
  by (simp add: push_bit_eq_mult)

lemma ipv4_word:
  assumes "isIPv4 s"
  shows "\<exists>k. ipv4 s = Some k \<and> word_of_int k = v4ToInt s"
proof -
  obtain a b c d where p: "split_on CHR ''.'' s = [a, b, c, d]"
    using assms by (auto simp: isIPv4_def Let_def numeral_eq_Suc length_Suc_conv)
  have "word_of_int (((dec_val a * 256 + dec_val b) * 256 + dec_val c) * 256 + dec_val d) =
      push_bit 24 (word_of_int (dec_val a)) + push_bit 16 (word_of_int (dec_val b)) + push_bit 8 (word_of_int (dec_val c)) + (word_of_int (dec_val d) :: 32 word)"
    by (simp add: push_bit_eq_mult algebra_simps)
  then show ?thesis using assms p by (simp add: ipv4_def v4ToInt_def Let_def)
qed

lemma inCidr_prefix:
  assumes "isIPv4 host" "isIPv4 base" "js_Number bits = Some (of_nat n)" "n \<le> 32" "CHR ''/'' \<notin> set base" "CHR ''/'' \<notin> set bits"
  shows "inCidr host (base @ ''/'' @ bits) = (drop_bit (32 - n) (v4ToInt host) = drop_bit (32 - n) (v4ToInt base))"
proof -
  have sp: "split_on CHR ''/'' (base @ CHR ''/'' # bits) = [base, bits]"
    using split_on_append [of "CHR ''/''" base bits] assms(5,6) by (simp add: split_on_no_sep)
  obtain h b where hb: "ipv4 host = Some h" "word_of_int h = v4ToInt host" "ipv4 base = Some b" "word_of_int b = v4ToInt base"
    using ipv4_word assms(1,2) by blast
  have mk: "(if n = 0 then 0 else push_bit (32 - n) 0xffffffff :: 32 word) = mask_of n" 
  proof -
    have "(0xffffffff :: 32 word) = NOT 0" by simp
    then show ?thesis unfolding mask_of_def by (simp only:)
  qed
  have "inCidr host (base @ ''/'' @ bits) = (v4ToInt host AND mask_of n = v4ToInt base AND mask_of n)"
    using assms(3,4) hb by (simp add: inCidr_def sp mk Let_def)
  then show ?thesis using and_mask_prefix [OF assms(4)] by simp
qed

lemma local_goes_direct: "unbracket (lower_case (ur_hostname u)) \<in> set ALWAYS_DIRECT \<Longrightarrow> proxyFor ob u = None"
  by (simp add: proxyFor_def noProxy_def split: option.split)

end
