(* ===== verification/Page_Fleet.thy ===== *)
theory Page_Fleet
  imports Server "HOL-Library.Multiset"
begin

text \<open>
  The fleet on the page (\<^verbatim>\<open>src/www/js/app.js\<close>): what the page keeps of the hub's list of servers, the order
  and groups of the cards. \<open>coll\<close> gives a name's key in the order of \<^verbatim>\<open>localeCompare\<close>; \<open>cfg\<close> is the page's
  settings. The words of the page stay what they name.
\<close>

section \<open>Sorting\<close>

text \<open>\<^verbatim>\<open>Array.prototype.sort(cmp)\<close>: stable.\<close>

fun insert_by :: "('a \<Rightarrow> 'a \<Rightarrow> rat) \<Rightarrow> 'a \<Rightarrow> 'a list \<Rightarrow> 'a list" where
  "insert_by cmp x [] = [x]"
| "insert_by cmp x (y # ys) = (if cmp x y \<le> 0 then x # y # ys else y # insert_by cmp x ys)"

definition sort_by :: "('a \<Rightarrow> 'a \<Rightarrow> rat) \<Rightarrow> 'a list \<Rightarrow> 'a list" where
  "sort_by cmp xs = foldr (insert_by cmp) xs []"

locale comparator =
  fixes cmp :: "'a \<Rightarrow> 'a \<Rightarrow> rat"
  assumes total: "cmp x y \<le> 0 \<or> cmp y x \<le> 0"
    and trans: "cmp x y \<le> 0 \<Longrightarrow> cmp y z \<le> 0 \<Longrightarrow> cmp x z \<le> 0"
begin

lemma sorted_insert: "sorted_wrt (\<lambda>a b. cmp a b \<le> 0) ys \<Longrightarrow> sorted_wrt (\<lambda>a b. cmp a b \<le> 0) (insert_by cmp x ys)"
proof (induction ys)
  case (Cons y ys)
  have "set (insert_by cmp x ys) = insert x (set ys)" by (induction ys) auto
  then show ?case using Cons total [of x y] trans by (auto intro: trans)
qed simp

lemma sorted_sort: "sorted_wrt (\<lambda>a b. cmp a b \<le> 0) (sort_by cmp xs)"
  by (induction xs) (simp_all add: sort_by_def sorted_insert)

end

lemma mset_insert_by [simp]: "mset (insert_by cmp x ys) = add_mset x (mset ys)"
  by (induction ys) simp_all

lemma mset_sort_by [simp]: "mset (sort_by cmp xs) = mset xs"
  by (induction xs) (simp_all add: sort_by_def)

section \<open>The order of the cards\<close>

definition card_id :: "card \<Rightarrow> string" where "card_id c = fn_id (cd_node c)"

definition words_of :: "jsval \<Rightarrow> string list" where
  "words_of v = (case v of JArr xs \<Rightarrow> List.map_filter (\<lambda>x. case x of JStr s \<Rightarrow> Some s | _ \<Rightarrow> None) xs | _ \<Rightarrow> [])"

definition status_rank :: "fstatus \<Rightarrow> rat" where
  "status_rank s = (case s of Offline \<Rightarrow> 0 | Stale \<Rightarrow> 1 | Waiting \<Rightarrow> 2 | Online \<Rightarrow> 3)"

definition by_name :: "(string \<Rightarrow> string) \<Rightarrow> card \<Rightarrow> card \<Rightarrow> rat" where
  "by_name coll a b = (let x = coll (fn_name (cd_node a)); y = coll (fn_name (cd_node b)) in if x < y then -1 else if x = y then 0 else 1)"

text \<open>The number a card is sorted by: \<open>None\<close> when it has none.\<close>

definition sort_value :: "string \<Rightarrow> card \<Rightarrow> rat option" where
  "sort_value k c = finite_num (if k = ''disk'' then fld ''pct'' (fld ''disk'' (cd_summary c)) else fld k (cd_summary c))"

definition or_name :: "(string \<Rightarrow> string) \<Rightarrow> rat \<Rightarrow> card \<Rightarrow> card \<Rightarrow> rat" where
  "or_name coll d a b = (if d = 0 then by_name coll a b else d)"

definition fleet_cmp :: "(string \<Rightarrow> string) \<Rightarrow> jsval \<Rightarrow> card \<Rightarrow> card \<Rightarrow> rat" where
  "fleet_cmp coll key a b =
    (if key = JStr ''status'' then or_name coll (status_rank (cd_status a) - status_rank (cd_status b)) a b
     else if key \<in> {JStr ''cpu'', JStr ''mem'', JStr ''temp'', JStr ''disk''} then
       (case (sort_value (str_of key) a, sort_value (str_of key) b) of
          (Some x, Some y) \<Rightarrow> or_name coll (y - x) a b
        | (None, None) \<Rightarrow> by_name coll a b
        | (None, Some y) \<Rightarrow> 1
        | (Some x, None) \<Rightarrow> -1)
     else by_name coll a b)"

datatype gtitle = NoTitle | PinnedTitle | TagTitle string | UntaggedTitle

definition first_tag :: "card \<Rightarrow> string" where
  "first_tag c = (case fn_tags (cd_node c) of [] \<Rightarrow> [] | t # ts \<Rightarrow> t)"

definition add_to_group :: "(string \<times> card list) list \<Rightarrow> card \<Rightarrow> (string \<times> card list) list" where
  "add_to_group gs c = (let t = first_tag c in AList.update t ((case map_of gs t of None \<Rightarrow> [] | Some ns \<Rightarrow> ns) @ [c]) gs)"

definition hidden_in :: "jsval \<Rightarrow> card \<Rightarrow> bool" where
  "hidden_in f c \<longleftrightarrow> card_id c \<in> set (words_of (fld ''hidden'' f))"

definition pinned_in :: "jsval \<Rightarrow> card \<Rightarrow> bool" where
  "pinned_in f c \<longleftrightarrow> card_id c \<in> set (words_of (fld ''pinned'' f))"

definition fleet_shown :: "(string \<Rightarrow> string) \<Rightarrow> card list \<Rightarrow> jsval \<Rightarrow> card list" where
  "fleet_shown coll nodes f = sort_by (fleet_cmp coll (fld ''sort'' f)) (filter (\<lambda>n. \<not> hidden_in f n) nodes)"

definition arrangeFleet :: "(string \<Rightarrow> string) \<Rightarrow> card list \<Rightarrow> jsval \<Rightarrow> (gtitle \<times> card list) list" where
  "arrangeFleet coll nodes f =
    (let shown = fleet_shown coll nodes f; pins = filter (pinned_in f) shown; rest = filter (\<lambda>n. \<not> pinned_in f n) shown in
     if \<not> truthy (fld ''group'' f) then (if shown = [] then [] else [(NoTitle, pins @ rest)])
     else (let groups = foldl add_to_group [] rest in
       (if pins = [] then [] else [(PinnedTitle, pins)]) @
       map (\<lambda>t. (TagTitle t, the (map_of groups t))) (sort (filter (\<lambda>t. t \<noteq> []) (map fst groups))) @
       (case map_of groups [] of None \<Rightarrow> [] | Some ns \<Rightarrow> [(UntaggedTitle, ns)])))"

section \<open>Every server once\<close>

lemma by_name_le: "by_name coll a b \<le> 0 \<longleftrightarrow> coll (fn_name (cd_node a)) \<le> coll (fn_name (cd_node b))"
  by (auto simp: by_name_def Let_def)

lemma or_name_le: "or_name coll d a b \<le> 0 \<longleftrightarrow> d < 0 \<or> (d = 0 \<and> coll (fn_name (cd_node a)) \<le> coll (fn_name (cd_node b)))"
  by (auto simp: or_name_def by_name_le)

abbreviation name_le :: "(string \<Rightarrow> string) \<Rightarrow> card \<Rightarrow> card \<Rightarrow> bool" where
  "name_le coll a b \<equiv> coll (fn_name (cd_node a)) \<le> coll (fn_name (cd_node b))"

definition number_key :: "jsval \<Rightarrow> bool" where
  "number_key key \<longleftrightarrow> key \<in> {JStr ''cpu'', JStr ''mem'', JStr ''temp'', JStr ''disk''}"

definition value_le :: "(string \<Rightarrow> string) \<Rightarrow> string \<Rightarrow> card \<Rightarrow> card \<Rightarrow> bool" where
  "value_le coll k a b = (case (sort_value k a, sort_value k b) of
       (Some x, Some y) \<Rightarrow> y < x \<or> (y = x \<and> name_le coll a b)
     | (None, None) \<Rightarrow> name_le coll a b
     | (None, Some y) \<Rightarrow> False
     | (Some x, None) \<Rightarrow> True)"

definition status_le :: "(string \<Rightarrow> string) \<Rightarrow> card \<Rightarrow> card \<Rightarrow> bool" where
  "status_le coll a b \<longleftrightarrow> status_rank (cd_status a) < status_rank (cd_status b) \<or>
     (status_rank (cd_status a) = status_rank (cd_status b) \<and> name_le coll a b)"

lemma fleet_cmp_le:
  "fleet_cmp coll key a b \<le> 0 \<longleftrightarrow>
    (if key = JStr ''status'' then status_le coll a b else if number_key key then value_le coll (str_of key) a b else name_le coll a b)"
  unfolding fleet_cmp_def value_le_def status_le_def number_key_def
  by (simp add: or_name_le by_name_le split: option.split)

lemma value_le_order: "value_le coll k x y \<or> value_le coll k y x" "value_le coll k x y \<Longrightarrow> value_le coll k y z \<Longrightarrow> value_le coll k x z"
  unfolding value_le_def by (cases "sort_value k x"; cases "sort_value k y"; cases "sort_value k z"; auto)+

lemma status_le_order: "status_le coll x y \<or> status_le coll y x" "status_le coll x y \<Longrightarrow> status_le coll y z \<Longrightarrow> status_le coll x z"
  unfolding status_le_def by auto

interpretation cards: comparator "fleet_cmp coll key" for coll key
proof
  fix x y z
  show "fleet_cmp coll key x y \<le> 0 \<or> fleet_cmp coll key y x \<le> 0"
    unfolding fleet_cmp_le by (simp only: if_bool_eq_disj) (use value_le_order(1) status_le_order(1) linear in blast)
  assume "fleet_cmp coll key x y \<le> 0" "fleet_cmp coll key y z \<le> 0"
  then show "fleet_cmp coll key x z \<le> 0"
    unfolding fleet_cmp_le by (simp only: if_bool_eq_conj) (use value_le_order(2) status_le_order(2) order_trans in blast)
qed

text \<open>The groups as they grow: each tag once, no group empty, each server in the group of its first tag, in order.\<close>

definition groups_ok :: "card list \<Rightarrow> (string \<times> card list) list \<Rightarrow> bool" where
  "groups_ok cs gs \<longleftrightarrow> distinct (map fst gs) \<and> (\<forall>t. map_of gs t = (case filter (\<lambda>c. first_tag c = t) cs of [] \<Rightarrow> None | ns \<Rightarrow> Some ns))"

lemma groups_grow: "groups_ok cs gs \<Longrightarrow> groups_ok (cs @ [c]) (add_to_group gs c)"
  by (auto simp: groups_ok_def add_to_group_def Let_def split: list.splits option.splits)

lemma groups_all: "groups_ok cs (foldl add_to_group [] cs)"
  by (induction cs rule: rev_induct) (simp_all add: groups_grow, simp add: groups_ok_def)

lemma mset_by_tag: "distinct ts \<Longrightarrow> mset (concat (map (\<lambda>t. filter (\<lambda>c. g c = t) cs) ts)) = mset (filter (\<lambda>c. g c \<in> set ts) cs)"
proof (induction ts)
  case (Cons t ts)
  have "filter_mset (\<lambda>c. g c = t \<or> g c \<in> set ts) M = filter_mset (\<lambda>c. g c = t) M + filter_mset (\<lambda>c. g c \<in> set ts) M" for M
    using Cons.prems by (induction M) auto
  then show ?case using Cons by simp
qed simp

definition fleet_order :: "(string \<Rightarrow> string) \<Rightarrow> jsval \<Rightarrow> card list \<Rightarrow> bool" where
  "fleet_order coll f = sorted_wrt (\<lambda>a b. fleet_cmp coll (fld ''sort'' f) a b \<le> 0)"

text \<open>What a group of the page holds: pinned servers first, each part in the chosen order; a tag's group the servers of that first tag.\<close>

definition group_fine :: "(string \<Rightarrow> string) \<Rightarrow> jsval \<Rightarrow> gtitle \<times> card list \<Rightarrow> bool" where
  "group_fine coll f g = (case g of (t, ns) \<Rightarrow> ns \<noteq> [] \<and> ns = filter (pinned_in f) ns @ filter (\<lambda>n. \<not> pinned_in f n) ns \<and>
     fleet_order coll f (filter (pinned_in f) ns) \<and> fleet_order coll f (filter (\<lambda>n. \<not> pinned_in f n) ns) \<and>
     (case t of NoTitle \<Rightarrow> True | PinnedTitle \<Rightarrow> list_all (pinned_in f) ns
      | TagTitle s \<Rightarrow> s \<noteq> [] \<and> list_all (\<lambda>n. \<not> pinned_in f n \<and> first_tag n = s) ns
      | UntaggedTitle \<Rightarrow> list_all (\<lambda>n. \<not> pinned_in f n \<and> first_tag n = []) ns))"

lemma fleet_order_filter: "fleet_order coll f xs \<Longrightarrow> fleet_order coll f (filter p xs)"
  by (simp add: fleet_order_def sorted_wrt_filter)

lemma group_fine_rest:
  assumes "fleet_order coll f ns" "list_all (\<lambda>n. \<not> pinned_in f n) ns" "ns \<noteq> []" "case t of TagTitle s \<Rightarrow> s \<noteq> [] \<and> list_all (\<lambda>n. first_tag n = s) ns
    | UntaggedTitle \<Rightarrow> list_all (\<lambda>n. first_tag n = []) ns | _ \<Rightarrow> False"
  shows "group_fine coll f (t, ns)"
proof -
  have "filter (\<lambda>n. \<not> pinned_in f n) ns = ns" "filter (pinned_in f) ns = []" using assms(2) by (auto simp: list_all_iff filter_id_conv filter_empty_conv)
  then show ?thesis using assms by (auto simp: group_fine_def fleet_order_def list_all_iff split: gtitle.splits)
qed

text \<open>The groups of the page, with the servers of each tag in the order of the page.\<close>

lemma arrangeFleet_grouped:
  assumes "truthy (fld ''group'' f)" and rest: "rest = filter (\<lambda>n. \<not> pinned_in f n) (fleet_shown coll nodes f)"
    and pins: "pins = filter (pinned_in f) (fleet_shown coll nodes f)"
  obtains tags where "distinct tags" "\<And>t. t \<in> set tags \<longleftrightarrow> t \<noteq> [] \<and> filter (\<lambda>c. first_tag c = t) rest \<noteq> []"
    "arrangeFleet coll nodes f = (if pins = [] then [] else [(PinnedTitle, pins)]) @ map (\<lambda>t. (TagTitle t, filter (\<lambda>c. first_tag c = t) rest)) tags @
       (if filter (\<lambda>c. first_tag c = []) rest = [] then [] else [(UntaggedTitle, filter (\<lambda>c. first_tag c = []) rest)])"
proof -
  define groups where "groups = foldl add_to_group [] rest"
  have g: "distinct (map fst groups)" "map_of groups t = (case filter (\<lambda>c. first_tag c = t) rest of [] \<Rightarrow> None | ns \<Rightarrow> Some ns)" for t
    using groups_all [of rest] by (simp_all add: groups_ok_def groups_def)
  define tags where "tags = sort (filter (\<lambda>t. t \<noteq> []) (map fst groups))"
  have in_keys: "t \<in> set (map fst groups) \<longleftrightarrow> filter (\<lambda>c. first_tag c = t) rest \<noteq> []" for t
    using map_of_eq_None_iff [of groups t] g(2) [of t] by (auto split: list.splits)
  then have tags: "distinct tags" "t \<in> set tags \<longleftrightarrow> t \<noteq> [] \<and> filter (\<lambda>c. first_tag c = t) rest \<noteq> []" for t
    using g(1) by (auto simp: tags_def)
  have the: "the (map_of groups t) = filter (\<lambda>c. first_tag c = t) rest" if "t \<in> set tags" for t
    using that tags(2) [of t] g(2) [of t] by (auto split: list.splits)
  have "(case map_of groups [] of None \<Rightarrow> [] | Some ns \<Rightarrow> [(UntaggedTitle, ns)]) =
      (if filter (\<lambda>c. first_tag c = []) rest = [] then [] else [(UntaggedTitle, filter (\<lambda>c. first_tag c = []) rest)])"
    using g(2) [of "[]"] by (simp split: list.split)
  then show ?thesis
    by (intro that [OF tags])
      (use assms(1) the in \<open>simp add: arrangeFleet_def Let_def rest [symmetric] pins [symmetric] groups_def [symmetric] tags_def [symmetric]\<close>)
qed

lemma groups_mset:
  assumes "distinct tags" "\<And>t. t \<in> set tags \<longleftrightarrow> t \<noteq> [] \<and> filter (\<lambda>c. first_tag c = t) rest \<noteq> []"
  shows "mset pins + mset rest = mset (concat (map snd ((if pins = [] then [] else [(PinnedTitle, pins)]) @
    map (\<lambda>t. (TagTitle t, filter (\<lambda>c. first_tag c = t) rest)) tags @
    (if filter (\<lambda>c. first_tag c = []) rest = [] then [] else [(UntaggedTitle, filter (\<lambda>c. first_tag c = []) rest)]))))" (is "_ = mset ?gs")
proof -
  have "filter_mset (\<lambda>c. first_tag c \<in> set tags) (mset rest) = filter_mset (\<lambda>c. first_tag c \<noteq> []) (mset rest)"
    by (rule filter_mset_cong0) (use assms(2) in \<open>auto simp: filter_empty_conv\<close>)
  then have m: "mset (concat (map (\<lambda>t. filter (\<lambda>c. first_tag c = t) rest) tags)) = filter_mset (\<lambda>c. first_tag c \<noteq> []) (mset rest)"
    using mset_by_tag [OF assms(1), of first_tag rest] by simp
  have "mset ?gs = mset pins + (filter_mset (\<lambda>c. first_tag c \<noteq> []) (mset rest) + filter_mset (\<lambda>c. \<not> first_tag c \<noteq> []) (mset rest))"
    unfolding map_append concat_append mset_append m [symmetric]
    by (cases "pins = []"; cases "filter (\<lambda>c. first_tag c = []) rest = []"; simp add: comp_def flip: mset_filter)
  then show ?thesis by (simp only: multiset_partition [symmetric])
qed

lemma fleet_shown_facts:
  "fleet_order coll f (fleet_shown coll nodes f)" "mset (fleet_shown coll nodes f) = mset (filter (\<lambda>n. \<not> hidden_in f n) nodes)"
  unfolding fleet_order_def fleet_shown_def by (rule cards.sorted_sort, simp)

lemma pins_and_rest:
  "filter (pinned_in f) (filter (pinned_in f) xs) = filter (pinned_in f) xs" "filter (\<lambda>n. \<not> pinned_in f n) (filter (pinned_in f) xs) = []"
  "filter (pinned_in f) (filter (\<lambda>n. \<not> pinned_in f n) xs) = []" "filter (\<lambda>n. \<not> pinned_in f n) (filter (\<lambda>n. \<not> pinned_in f n) xs) = filter (\<lambda>n. \<not> pinned_in f n) xs"
  by (simp_all add: filter_empty_conv)

text \<open>Each server that is not hidden once, no group twice, each group as it should be.\<close>

definition arranged :: "(string \<Rightarrow> string) \<Rightarrow> card list \<Rightarrow> jsval \<Rightarrow> bool" where
  "arranged coll nodes f \<longleftrightarrow>
    mset (concat (map snd (arrangeFleet coll nodes f))) = mset (filter (\<lambda>n. \<not> hidden_in f n) nodes) \<and>
    distinct (map fst (arrangeFleet coll nodes f)) \<and> list_all (group_fine coll f) (arrangeFleet coll nodes f)"

lemma arranged_flat:
  assumes "\<not> truthy (fld ''group'' f)"
  shows "arranged coll nodes f"
proof -
  define pins where "pins = filter (pinned_in f) (fleet_shown coll nodes f)"
  define rest where "rest = filter (\<lambda>n. \<not> pinned_in f n) (fleet_shown coll nodes f)"
  have parts: "mset pins + mset rest = mset (fleet_shown coll nodes f)" by (simp add: pins_def rest_def)
  have po: "fleet_order coll f pins" "fleet_order coll f rest" unfolding pins_def rest_def by (rule fleet_order_filter [OF fleet_shown_facts(1)])+
  note ff = pins_and_rest [of f "fleet_shown coll nodes f", folded pins_def rest_def]
  have arr: "arrangeFleet coll nodes f = (if fleet_shown coll nodes f = [] then [] else [(NoTitle, pins @ rest)])"
    using assms by (simp add: arrangeFleet_def Let_def pins_def rest_def)
  have "pins @ rest \<noteq> []" if "fleet_shown coll nodes f \<noteq> []" using parts that by (metis mset.simps(1) mset_append mset_zero_iff)
  then have "list_all (group_fine coll f) (arrangeFleet coll nodes f)" using po ff by (simp add: arr group_fine_def)
  moreover have "mset (concat (map snd (arrangeFleet coll nodes f))) = mset (fleet_shown coll nodes f)"
    using parts by (cases "fleet_shown coll nodes f = []") (simp_all add: arr)
  ultimately show ?thesis using fleet_shown_facts(2) by (simp add: arr arranged_def)
qed

lemma arranged_grouped:
  assumes "truthy (fld ''group'' f)"
  shows "arranged coll nodes f"
proof -
  define pins where "pins = filter (pinned_in f) (fleet_shown coll nodes f)"
  define rest where "rest = filter (\<lambda>n. \<not> pinned_in f n) (fleet_shown coll nodes f)"
  have parts: "mset pins + mset rest = mset (fleet_shown coll nodes f)" by (simp add: pins_def rest_def)
  have po: "fleet_order coll f pins" "fleet_order coll f rest" unfolding pins_def rest_def by (rule fleet_order_filter [OF fleet_shown_facts(1)])+
  note ff = pins_and_rest [of f "fleet_shown coll nodes f", folded pins_def rest_def]
  obtain tags where tags: "distinct tags" "\<And>t. t \<in> set tags \<longleftrightarrow> t \<noteq> [] \<and> filter (\<lambda>c. first_tag c = t) rest \<noteq> []"
    and a: "arrangeFleet coll nodes f = (if pins = [] then [] else [(PinnedTitle, pins)]) @ map (\<lambda>t. (TagTitle t, filter (\<lambda>c. first_tag c = t) rest)) tags @
      (if filter (\<lambda>c. first_tag c = []) rest = [] then [] else [(UntaggedTitle, filter (\<lambda>c. first_tag c = []) rest)])"
    by (rule arrangeFleet_grouped [OF assms rest_def pins_def], rule that)
  have ord: "fleet_order coll f (filter (\<lambda>c. first_tag c = t) rest)" for t by (rule fleet_order_filter [OF po(2)])
  have n: "list_all (\<lambda>n. \<not> pinned_in f n) (filter (\<lambda>c. first_tag c = t) rest)" for t by (auto simp: rest_def list_all_iff)
  have "group_fine coll f (TagTitle t, filter (\<lambda>c. first_tag c = t) rest)" if "t \<in> set tags" for t
    by (rule group_fine_rest [OF ord n]) (use that tags(2) [of t] in \<open>auto simp: list_all_iff\<close>)
  moreover have "group_fine coll f (UntaggedTitle, filter (\<lambda>c. first_tag c = []) rest)" if "filter (\<lambda>c. first_tag c = []) rest \<noteq> []"
    by (rule group_fine_rest [OF ord n that]) (simp add: list_all_iff)
  moreover have "group_fine coll f (PinnedTitle, pins)" if "pins \<noteq> []"
    using that po(1) ff by (auto simp: group_fine_def fleet_order_def pins_def list_all_iff)
  ultimately have "list_all (group_fine coll f) (arrangeFleet coll nodes f)" unfolding a by (auto simp: list_all_iff)
  moreover have "distinct (map fst (arrangeFleet coll nodes f))"
  proof -
    have "map fst (arrangeFleet coll nodes f) = (if pins = [] then [] else [PinnedTitle]) @ map TagTitle tags @
        (if filter (\<lambda>c. first_tag c = []) rest = [] then [] else [UntaggedTitle])" unfolding a by (simp add: comp_def)
    then show ?thesis using tags(1) by (auto simp: distinct_map inj_on_def)
  qed
  moreover have "mset (concat (map snd (arrangeFleet coll nodes f))) = mset (fleet_shown coll nodes f)"
    unfolding a parts [symmetric] by (rule groups_mset [OF tags, symmetric])
  ultimately show ?thesis using fleet_shown_facts(2) by (simp add: arranged_def)
qed


end
