(* ===== verification/Page_View.thy ===== *)
theory Page_View
  imports Page_Fleet
begin

text \<open>
  What the page shows (\<^verbatim>\<open>src/www/js/app.js\<close>): the view the address asks for, the cycle of a kiosk screen, the
  hub's state as its answers tell it, the trend lines, the lamps and counts of the header, and the loop that
  asks for a node's numbers. Asking and the answer are two steps, because \<^verbatim>\<open>tick\<close> awaits in between. A number
  of the settings is a number, and so is the time of a snapshot; the words of the page stay what they name.
\<close>

section \<open>State\<close>

datatype shown_view = FleetView | NodeView'

datatype hubstate = HubOk | HubDown | HubLogin

record trends =
  td_cpu :: "jsval list"
  td_mem :: "jsval list"
  td_temp :: "jsval list"

record page =
  pg_nodes :: "card list"
  pg_local :: "string option"
  pg_view :: shown_view
  pg_current :: "string option"
  pg_hash :: string
  pg_hub :: hubstate
  pg_last :: jsval
  pg_trends :: trends
  pg_trendFromServer :: bool
  pg_nodesAt :: ms

definition no_trends :: trends where
  "no_trends = \<lparr>td_cpu = [], td_mem = [], td_temp = []\<rparr>"

text \<open>\<^verbatim>\<open>currentNode || localNode\<close>\<close>

definition shown_node :: "page \<Rightarrow> string option" where
  "shown_node p = (case pg_current p of Some i \<Rightarrow> Some i | None \<Rightarrow> pg_local p)"

definition isLocalView :: "page \<Rightarrow> bool" where
  "isLocalView p \<longleftrightarrow> pg_current p = None \<or> pg_current p = pg_local p"

section \<open>The address\<close>

text \<open>\<^verbatim>\<open>/^#node=([a-z2-7]{12})$/\<close>\<close>

definition hash_node :: "string \<Rightarrow> string option" where
  "hash_node h = (if starts_with ''#node='' h \<and> is_node_id (drop 6 h) then Some (drop 6 h) else None)"

definition node_hash :: "string \<Rightarrow> string" where "node_hash i = ''#node='' @ i"

definition set_view :: "shown_view \<Rightarrow> string option \<Rightarrow> page \<Rightarrow> page" where
  "set_view v c p = (if v \<noteq> pg_view p \<or> c \<noteq> pg_current p
     then p\<lparr>pg_view := v, pg_current := c, pg_last := JNull, pg_trends := no_trends, pg_trendFromServer := False\<rparr> else p)"

definition page_route :: "page \<Rightarrow> page" where
  "page_route p = (case hash_node (pg_hash p) of
       Some i \<Rightarrow> if list_ex (\<lambda>n. card_id n = i) (pg_nodes p) then set_view NodeView' (Some i) p
                else if pg_hash p = ''#fleet'' then set_view FleetView None p else set_view NodeView' None p
     | None \<Rightarrow> if pg_hash p = ''#fleet'' \<or> length (pg_nodes p) > 1 then set_view FleetView None p else set_view NodeView' None p)"

text \<open>Setting \<^verbatim>\<open>location.hash\<close>: the page routes when it changes.\<close>

definition go :: "string \<Rightarrow> page \<Rightarrow> page" where
  "go h p = (if h = pg_hash p then p else page_route (p\<lparr>pg_hash := h\<rparr>))"

section \<open>Kiosk\<close>

definition hiddenIds :: "jsval \<Rightarrow> string list" where
  "hiddenIds cfg = words_of (fld ''hidden'' (fld ''fleet'' cfg))"

definition kiosk_ids :: "jsval \<Rightarrow> page \<Rightarrow> string list" where
  "kiosk_ids cfg p = filter (\<lambda>i. i \<notin> set (hiddenIds cfg)) (map card_id (pg_nodes p))"

text \<open>\<^verbatim>\<open>ids.indexOf(x)\<close>, with \<open>-1\<close> when it is not there.\<close>

definition index_of :: "'a option \<Rightarrow> 'a list \<Rightarrow> int" where
  "index_of x xs = (let n = length (takeWhile (\<lambda>y. Some y \<noteq> x) xs) in if n < length xs then of_nat n else -1)"

definition kiosk_tick :: "jsval \<Rightarrow> page \<Rightarrow> page" where
  "kiosk_tick cfg p = (let ids = kiosk_ids cfg p in
     if length ids < 2 then p
     else (let now = (if pg_view p = FleetView then -1 else index_of (shown_node p) ids) in
       go (node_hash (ids ! nat ((now + 1) mod of_nat (length ids)))) p))"

definition kiosk_seconds :: "rat \<Rightarrow> rat" where
  "kiosk_seconds s = max 5 (min 600 (if s = 0 then 20 else s))"

section \<open>The hub's answers\<close>

definition hubStateOf :: "nat \<Rightarrow> bool \<Rightarrow> hubstate" where
  "hubStateOf code json = (if code = 401 then HubLogin else if json then HubOk else if 200 \<le> code \<and> code < 300 then HubLogin else HubDown)"

datatype nodes_answer = NoAnswer | Refused nat | Listed "card list"

definition loadNodes :: "nodes_answer \<Rightarrow> page \<Rightarrow> page" where
  "loadNodes a p = (case a of
       NoAnswer \<Rightarrow> p\<lparr>pg_hub := HubDown\<rparr>
     | Refused code \<Rightarrow> p\<lparr>pg_hub := (if code = 401 then HubLogin else HubDown)\<rparr>
     | Listed ns \<Rightarrow> (let q = p\<lparr>pg_nodes := ns, pg_hub := HubOk, pg_local := map_option card_id (find (\<lambda>n. fn_local (cd_node n)) ns)\<rparr> in
         if length (pg_nodes p) < 2 \<and> length ns > 1 \<and> pg_hash p = [] then page_route q else q))"

section \<open>Trend lines\<close>

definition HISTLEN :: nat where "HISTLEN = 60"

definition push_to :: "jsval list \<Rightarrow> jsval \<Rightarrow> jsval list" where
  "push_to xs v = (if length xs + 1 > HISTLEN then tl (xs @ [v]) else xs @ [v])"

definition pushHist :: "string \<Rightarrow> jsval \<Rightarrow> page \<Rightarrow> page" where
  "pushHist k v p = (if pg_trendFromServer p then p
     else p\<lparr>pg_trends := (if k = ''cpu'' then (pg_trends p)\<lparr>td_cpu := push_to (td_cpu (pg_trends p)) v\<rparr>
       else if k = ''mem'' then (pg_trends p)\<lparr>td_mem := push_to (td_mem (pg_trends p)) v\<rparr>
       else (pg_trends p)\<lparr>td_temp := push_to (td_temp (pg_trends p)) v\<rparr>)\<rparr>)"

definition seedTrend :: "jsval \<Rightarrow> page \<Rightarrow> page" where
  "seedTrend d p = (case fld ''trend'' d of
       JArr xs \<Rightarrow> if length xs < 2 then p
         else p\<lparr>pg_trends := \<lparr>td_cpu = slice_last HISTLEN (map (fld ''cpu'') xs), td_mem = slice_last HISTLEN (map (fld ''mem'') xs),
             td_temp = slice_last HISTLEN (filter (\<lambda>v. v \<noteq> JUndef \<and> v \<noteq> JNull) (map (fld ''temp'') xs))\<rparr>, pg_trendFromServer := True\<rparr>
     | _ \<Rightarrow> p)"

text \<open>The numbers \<^verbatim>\<open>renderMetrics\<close> pushes: the share of memory, the CPU's use, the package's temperature.\<close>

definition mem_pct :: "jsval \<Rightarrow> jsval" where
  "mem_pct m = (case (finite_num (fld ''used'' m), finite_num (fld ''total'' m)) of
       (Some u, Some t) \<Rightarrow> JNum (Fin (if t = 0 then 0 else u / t * 100)) | _ \<Rightarrow> JNum (Fin 0))"

definition push_mem :: "jsval \<Rightarrow> page \<Rightarrow> page" where
  "push_mem d p = (if truthy (fld ''mem'' d) then pushHist ''mem'' (mem_pct (fld ''mem'' d)) p else p)"

definition push_cpu :: "jsval \<Rightarrow> page \<Rightarrow> page" where
  "push_cpu d p = (if truthy (fld ''cpu'' d) then pushHist ''cpu'' (fld ''usage'' (fld ''cpu'' d)) p else p)"

definition push_temp :: "jsval \<Rightarrow> page \<Rightarrow> page" where
  "push_temp d p = (let pkg = fld ''package'' (fld ''temp'' d) in
     if truthy (fld ''temp'' d) \<and> pkg \<noteq> JUndef \<and> pkg \<noteq> JNull then pushHist ''temp'' pkg p else p)"

definition push_metrics :: "jsval \<Rightarrow> page \<Rightarrow> page" where
  "push_metrics d p = push_temp d (push_cpu d (push_mem d (seedTrend d p)))"

section \<open>The lamp and the counts\<close>

datatype status_word = LoggedOut | HubUnreached | AgentDown | StaleFor rat | IsOnline

datatype lamp = LampDown | LampStale

definition js_or :: "jsval \<Rightarrow> jsval \<Rightarrow> jsval" where
  "js_or a b = (if truthy a then a else b)"

definition num_or_zero :: "jsval \<Rightarrow> rat" where
  "num_or_zero v = (case finite_num v of Some q \<Rightarrow> q | None \<Rightarrow> 0)"

text \<open>\<^verbatim>\<open>setStatus(ts, hardFail)\<close> at the time \<open>now\<close>: the lamp's colour and the word; \<open>0\<close> when there never was a snapshot.\<close>

definition setStatus :: "jsval \<Rightarrow> ms \<Rightarrow> rat \<Rightarrow> bool \<Rightarrow> page \<Rightarrow> lamp option \<times> status_word" where
  "setStatus cfg now ts hardFail p =
    (let age = (of_int now - ts) / 1000;
       budget = num_or_zero (js_or (fld ''interval'' (pg_last p)) (js_or (fld ''refreshSec'' cfg) (JNum (Fin 60)))) * 2 + 120 in
     if hardFail \<and> pg_hub p \<noteq> HubOk then (Some LampDown, if pg_hub p = HubLogin then LoggedOut else HubUnreached)
     else if hardFail \<and> ts = 0 then (Some LampDown, AgentDown)
     else if age > budget then (Some LampStale, StaleFor age)
     else (None, IsOnline))"

text \<open>The lamps of the fleet's header, and how many of the servers shown are online.\<close>

definition fleetStatus :: "jsval \<Rightarrow> page \<Rightarrow> lamp list \<times> nat \<times> nat" where
  "fleetStatus cfg p = (let shown = filter (\<lambda>n. card_id n \<notin> set (hiddenIds cfg)) (pg_nodes p);
     online = length (filter (\<lambda>n. cd_status n = Online) shown) in
     ((if online < length shown then [if list_ex (\<lambda>n. cd_status n = Offline) shown then LampDown else LampStale] else []) @
        (if pg_hub p \<noteq> HubOk then [LampDown] else []), length shown, online))"

text \<open>The header's badge: the worst severity and the number of the alerts that were told, over all servers.\<close>

definition renderAlertCount :: "page \<Rightarrow> severity option \<times> nat" where
  "renderAlertCount p = (let all = filter (\<lambda>a. fst a > 0) (List.map_filter cd_alerts (pg_nodes p)) in
     (find (\<lambda>s. list_ex (\<lambda>a. snd a = s) all) [Critical, Warning, Info], foldl (\<lambda>t a. t + fst a) 0 all))"

definition CARD_KEYS :: "string list" where
  "CARD_KEYS = [''cpu'', ''mem'', ''temp'', ''disk'', ''containers'', ''iowait'', ''updates'', ''battery'']"

definition cardNumbers :: "jsval \<Rightarrow> string list" where
  "cardNumbers cfg = (let want = filter (\<lambda>k. k \<in> set CARD_KEYS) (words_of (fld ''card'' (fld ''fleet'' cfg))) in
     if want = [] then [''cpu'', ''mem'', ''temp''] else take 4 want)"

section \<open>The refresh loop\<close>

datatype tick_answer = Nothing | Answer nat bool "jsval option"

text \<open>What a tick waits for: the list in the fleet view, the list before the node's numbers, or the numbers.\<close>

datatype ask = AskNodes | AskNodesFirst | AskNode "string option"

datatype page_reply = NodesReply nodes_answer | NodeReply tick_answer

text \<open>Where \<^verbatim>\<open>refreshNow\<close> waits: for an answer (\<open>FirstTick\<close>, \<open>FleetTick\<close>, \<open>PollTick\<close>) or for a timer; \<open>Idle\<close> when \<^verbatim>\<open>refreshing\<close> is false.\<close>

datatype refreshing = Idle | FirstTick | FleetWait | FleetTick | Poll nat rat | PollTick nat rat

record screen =
  sc_page :: page
  sc_refresh :: refreshing
  sc_asked :: "ask option"

datatype page_event = Go string ms | Refresh ms | Reply page_reply | Timer ms | Kiosk jsval ms

text \<open>\<^verbatim>\<open>tick\<close> up to its first wait: in a node's view the list is asked for when it is older than 30 s.\<close>

definition start_tick :: "ms \<Rightarrow> screen \<Rightarrow> screen" where
  "start_tick now s = (let p = sc_page s in
     if pg_view p = FleetView then s\<lparr>sc_page := p\<lparr>pg_nodesAt := now\<rparr>, sc_asked := Some AskNodes\<rparr>
     else if now - pg_nodesAt p > 30000 then s\<lparr>sc_page := p\<lparr>pg_nodesAt := now\<rparr>, sc_asked := Some AskNodesFirst\<rparr>
     else s\<lparr>sc_asked := Some (AskNode (pg_current p))\<rparr>)"

definition node_answer :: "tick_answer \<Rightarrow> page \<Rightarrow> page" where
  "node_answer a p = (case a of
       Nothing \<Rightarrow> p\<lparr>pg_hub := HubDown\<rparr>
     | Answer code json body \<Rightarrow> (let q = p\<lparr>pg_hub := hubStateOf code json\<rparr> in
         case body of None \<Rightarrow> q | Some d \<Rightarrow> if 200 \<le> code \<and> code < 300 then push_metrics d (q\<lparr>pg_last := d\<rparr>) else q))"

definition answered_page :: "page_reply \<Rightarrow> page \<Rightarrow> page" where
  "answered_page r p = (case r of NodesReply a \<Rightarrow> loadNodes a p | NodeReply a \<Rightarrow> node_answer a p)"

definition shown_ts :: "page \<Rightarrow> rat" where
  "shown_ts p = (if truthy (pg_last p) then num_or_zero (fld ''ts'' (pg_last p)) else 0)"

definition POLLS :: nat where "POLLS = 14"

text \<open>What the loop does once a tick is over.\<close>

definition after_tick :: "refreshing \<Rightarrow> page \<Rightarrow> refreshing" where
  "after_tick r p = (case r of
       FirstTick \<Rightarrow> if pg_view p = FleetView then FleetWait else Poll POLLS (shown_ts p)
     | PollTick n before \<Rightarrow> if truthy (pg_last p) \<and> shown_ts p > before then Idle else if n \<le> 1 then Idle else Poll (n - 1) before
     | _ \<Rightarrow> Idle)"

definition refreshNow :: "ms \<Rightarrow> screen \<Rightarrow> screen" where
  "refreshNow now s = (if sc_refresh s \<noteq> Idle then s else start_tick now (s\<lparr>sc_refresh := FirstTick\<rparr>))"

definition timer_step :: "ms \<Rightarrow> screen \<Rightarrow> screen" where
  "timer_step now s = (case sc_refresh s of
       FleetWait \<Rightarrow> start_tick now (s\<lparr>sc_refresh := FleetTick\<rparr>)
     | Poll n b \<Rightarrow> start_tick now (s\<lparr>sc_refresh := PollTick n b\<rparr>)
     | _ \<Rightarrow> s)"

definition reply_step :: "page_reply \<Rightarrow> screen \<Rightarrow> screen" where
  "reply_step r s = (case sc_asked s of None \<Rightarrow> s
     | Some k \<Rightarrow> (let p = answered_page r (sc_page s) in
         if k = AskNodesFirst then s\<lparr>sc_page := p, sc_asked := Some (AskNode (pg_current p))\<rparr>
         else s\<lparr>sc_page := p, sc_refresh := after_tick (sc_refresh s) p, sc_asked := None\<rparr>))"

text \<open>A new address routes and asks for a refresh; so does a kiosk's turn.\<close>

definition routed_to :: "ms \<Rightarrow> page \<Rightarrow> screen \<Rightarrow> screen" where
  "routed_to now p s = (if p = sc_page s then s else refreshNow now (s\<lparr>sc_page := p\<rparr>))"

definition fits_asked :: "ask option \<Rightarrow> page_reply \<Rightarrow> bool" where
  "fits_asked k r = (case (k, r) of (Some (AskNode i), NodeReply a) \<Rightarrow> True | (Some AskNodes, NodesReply a) \<Rightarrow> True
     | (Some AskNodesFirst, NodesReply a) \<Rightarrow> True | _ \<Rightarrow> False)"

text \<open>An answer that fits nothing asked does not come.\<close>

definition screen_step :: "screen \<Rightarrow> page_event \<Rightarrow> screen" where
  "screen_step s e = (case e of
       Go h now \<Rightarrow> routed_to now (go h (sc_page s)) s
     | Kiosk cfg now \<Rightarrow> routed_to now (kiosk_tick cfg (sc_page s)) s
     | Refresh now \<Rightarrow> refreshNow now s
     | Timer now \<Rightarrow> timer_step now s
     | Reply r \<Rightarrow> if fits_asked (sc_asked s) r then reply_step r s else s)"

section \<open>The refresh ends\<close>

definition idle :: "page \<Rightarrow> screen" where
  "idle p = \<lparr>sc_page = p, sc_refresh = Idle, sc_asked = None\<rparr>"

text \<open>What the loop waits for comes: the answer, to the list or to a node as asked, or the timer.\<close>

definition due :: "(screen \<Rightarrow> nodes_answer) \<Rightarrow> (screen \<Rightarrow> tick_answer) \<Rightarrow> (screen \<Rightarrow> ms) \<Rightarrow> screen \<Rightarrow> page_event" where
  "due L R T s = (case sc_asked s of None \<Rightarrow> Timer (T s) | Some (AskNode i) \<Rightarrow> Reply (NodeReply (R s)) | _ \<Rightarrow> Reply (NodesReply (L s)))"

definition waits_left :: "screen \<Rightarrow> nat" where
  "waits_left s = (case sc_refresh s of Idle \<Rightarrow> 0 | FirstTick \<Rightarrow> 43 | FleetWait \<Rightarrow> 3 | FleetTick \<Rightarrow> 1
     | Poll n b \<Rightarrow> 3 * max 1 n | PollTick n b \<Rightarrow> 3 * max 1 n - 2) + (if sc_asked s = Some AskNodesFirst then 1 else 0)"

definition asks :: "refreshing \<Rightarrow> bool" where
  "asks r = (case r of FirstTick \<Rightarrow> True | FleetTick \<Rightarrow> True | PollTick n b \<Rightarrow> True | _ \<Rightarrow> False)"

definition loop_ok :: "screen \<Rightarrow> bool" where
  "loop_ok s \<longleftrightarrow> (sc_asked s \<noteq> None) = asks (sc_refresh s)"

lemma start_tick_refresh [simp]: "sc_refresh (start_tick now s) = sc_refresh s" "sc_asked (start_tick now s) \<noteq> None"
  by (simp_all add: start_tick_def Let_def)

lemma due_fits: "sc_asked s \<noteq> None \<Longrightarrow> \<exists>r. due L R T s = Reply r \<and> fits_asked (sc_asked s) r"
  by (auto simp: due_def fits_asked_def split: ask.splits)

lemma loop_closer:
  assumes "loop_ok s" "sc_refresh s \<noteq> Idle"
  shows "loop_ok (screen_step s (due L R T s)) \<and> waits_left (screen_step s (due L R T s)) < waits_left s"
proof (cases "sc_asked s")
  case None
  then have "\<not> asks (sc_refresh s)" using assms(1) by (simp add: loop_ok_def)
  then show ?thesis using None assms(2)
    by (cases "sc_refresh s") (auto simp: loop_ok_def due_def screen_step_def timer_step_def asks_def waits_left_def max_def)
next
  case (Some k)
  then obtain r where r: "due L R T s = Reply r" "fits_asked (sc_asked s) r" using due_fits [of s L R T] by auto
  define p where "p = answered_page r (sc_page s)"
  have a: "asks (sc_refresh s)" using Some assms(1) by (simp add: loop_ok_def)
  show ?thesis
  proof (cases "k = AskNodesFirst")
    case True
    then show ?thesis using Some r a by (simp add: screen_step_def reply_step_def Let_def loop_ok_def waits_left_def)
  next
    case False
    then have step: "screen_step s (due L R T s) = s\<lparr>sc_page := p, sc_refresh := after_tick (sc_refresh s) p, sc_asked := None\<rparr>"
      using Some r by (simp add: screen_step_def reply_step_def Let_def p_def)
    show ?thesis unfolding step using a False Some
      by (cases "sc_refresh s"; simp add: after_tick_def asks_def waits_left_def loop_ok_def POLLS_def; linarith?)
  qed
qed

lemma loop_ends:
  assumes "loop_ok s"
  shows "\<exists>n \<le> waits_left s. sc_refresh (((\<lambda>s. screen_step s (due L R T s)) ^^ n) s) = Idle"
  using assms
proof (induction "waits_left s" arbitrary: s rule: less_induct)
  case less
  let ?f = "\<lambda>s. screen_step s (due L R T s)"
  show ?case
  proof (cases "sc_refresh s = Idle")
    case True
    then have "sc_refresh ((?f ^^ 0) s) = Idle" by simp
    then show ?thesis by blast
  next
    case False
    note c = loop_closer [OF less.prems False, of L R T]
    then obtain n where n: "n \<le> waits_left (?f s)" "sc_refresh ((?f ^^ n) (?f s)) = Idle" using less.hyps by blast
    then have "Suc n \<le> waits_left s" "sc_refresh ((?f ^^ Suc n) s) = Idle"
      using c by (simp_all add: funpow_Suc_right del: funpow.simps)
    then show ?thesis by blast
  qed
qed


section \<open>A late answer\<close>

lemma route_to_node:
  assumes "is_node_id i" "list_ex (\<lambda>n. card_id n = i) (pg_nodes p)"
  shows "page_route (p\<lparr>pg_hash := node_hash i\<rparr>) = set_view NodeView' (Some i) (p\<lparr>pg_hash := node_hash i\<rparr>)"
proof -
  have "hash_node (node_hash i) = Some i" using assms(1) by (simp add: hash_node_def node_hash_def starts_with_def)
  then show ?thesis using assms(2) by (simp add: page_route_def)
qed

lemma push_metrics_frame [simp]:
  "pg_last (push_metrics d p) = pg_last p" "pg_view (push_metrics d p) = pg_view p" "pg_current (push_metrics d p) = pg_current p"
  "pg_nodes (push_metrics d p) = pg_nodes p" "pg_hash (push_metrics d p) = pg_hash p" "pg_nodesAt (push_metrics d p) = pg_nodesAt p"
proof -
  have s: "pg_last (seedTrend d q) = pg_last q" "pg_view (seedTrend d q) = pg_view q" "pg_current (seedTrend d q) = pg_current q"
    "pg_nodes (seedTrend d q) = pg_nodes q" "pg_hash (seedTrend d q) = pg_hash q" "pg_nodesAt (seedTrend d q) = pg_nodesAt q" for q
    by (auto simp: seedTrend_def split: jsval.splits)
  have h: "pg_last (pushHist k v q) = pg_last q" "pg_view (pushHist k v q) = pg_view q" "pg_current (pushHist k v q) = pg_current q"
    "pg_nodes (pushHist k v q) = pg_nodes q" "pg_hash (pushHist k v q) = pg_hash q" "pg_nodesAt (pushHist k v q) = pg_nodesAt q" for k v q
    by (auto simp: pushHist_def)
  show "pg_last (push_metrics d p) = pg_last p" "pg_view (push_metrics d p) = pg_view p" "pg_current (push_metrics d p) = pg_current p"
    "pg_nodes (push_metrics d p) = pg_nodes p" "pg_hash (push_metrics d p) = pg_hash p" "pg_nodesAt (push_metrics d p) = pg_nodesAt p"
    unfolding push_metrics_def push_mem_def push_cpu_def push_temp_def Let_def by (simp_all add: s h)
qed

text \<open>
  C26. The page can keep one server's numbers under another's name: a person who opens server \<open>b\<close> while an answer
  for server \<open>a\<close> is on its way sees, once that answer is there, the view of \<open>b\<close> with the snapshot of \<open>a\<close>, and
  nothing more is asked: the answer is newer than the one before, so the loop is over, and the refresh that
  opening \<open>b\<close> asked for was dropped because one was under way. It stays so until the next refresh.
\<close>

theorem late_answer_shows_other_server:
  assumes "pg_view p = NodeView'" "pg_current p = Some a" "a \<noteq> b" "is_node_id b" "list_ex (\<lambda>n. card_id n = b) (pg_nodes p)"
    "pg_hash p \<noteq> node_hash b" "finite_num (fld ''ts'' old) = Some t" "finite_num (fld ''ts'' new) = Some t'" "0 < t" "t < t'"
    "n0 - pg_nodesAt p \<le> 30000" "n1 - pg_nodesAt p \<le> 30000"
  shows "sc_asked (foldl screen_step (idle p) [Refresh n0, Reply (NodeReply (Answer 200 True (Some old))), Timer n1]) = Some (AskNode (Some a)) \<and>
    (let s = foldl screen_step (idle p) [Refresh n0, Reply (NodeReply (Answer 200 True (Some old))), Timer n1, Go (node_hash b) n2,
        Reply (NodeReply (Answer 200 True (Some new)))] in
      sc_refresh s = Idle \<and> sc_asked s = None \<and> shown_node (sc_page s) = Some b \<and> pg_last (sc_page s) = new)"
proof -
  have tr: "truthy old" using assms(7) by (cases old) simp_all
  have tr': "truthy new" using assms(8) by (cases new) simp_all
  define p1 where "p1 = push_metrics old (p\<lparr>pg_hub := HubOk, pg_last := old\<rparr>)"
  have p1: "pg_view p1 = NodeView'" "pg_current p1 = Some a" "pg_hash p1 = pg_hash p" "pg_nodes p1 = pg_nodes p" "pg_last p1 = old" "pg_nodesAt p1 = pg_nodesAt p"
    using assms(1,2) by (simp_all add: p1_def)
  have old: "node_answer (Answer 200 True (Some old)) p = p1" by (simp add: node_answer_def hubStateOf_def p1_def)
  have s3: "foldl screen_step (idle p) [Refresh n0, Reply (NodeReply (Answer 200 True (Some old))), Timer n1] =
      \<lparr>sc_page = p1, sc_refresh = PollTick POLLS t, sc_asked = Some (AskNode (Some a))\<rparr>"
    using assms(1,2,7,11,12) p1 tr by (simp add: screen_step_def idle_def refreshNow_def start_tick_def fits_asked_def reply_step_def answered_page_def old after_tick_def
        timer_step_def shown_ts_def num_or_zero_def)
  define p2 where "p2 = go (node_hash b) p1"
  have p2: "p2 = set_view NodeView' (Some b) (p1\<lparr>pg_hash := node_hash b\<rparr>)"
    using assms(4-6) p1 by (simp add: p2_def go_def route_to_node)
  have ne: "p2 \<noteq> p1" using p1 assms(3) by (auto simp: p2 set_view_def dest: arg_cong [of _ _ pg_current])
  have c2: "pg_current p2 = Some b" by (auto simp: p2 set_view_def)
  define p3 where "p3 = node_answer (Answer 200 True (Some new)) p2"
  have p3: "pg_last p3 = new" "pg_current p3 = Some b" using c2 by (simp_all add: p3_def node_answer_def Let_def)
  have "foldl screen_step (idle p) [Refresh n0, Reply (NodeReply (Answer 200 True (Some old))), Timer n1, Go (node_hash b) n2, Reply (NodeReply (Answer 200 True (Some new)))] =
      foldl screen_step \<lparr>sc_page = p1, sc_refresh = PollTick POLLS t, sc_asked = Some (AskNode (Some a))\<rparr> [Go (node_hash b) n2, Reply (NodeReply (Answer 200 True (Some new)))]"
    unfolding s3 [symmetric] by simp
  also have "\<dots> = \<lparr>sc_page = p3, sc_refresh = Idle, sc_asked = None\<rparr>"
    using ne p3 tr' assms(8,10) by (simp add: screen_step_def routed_to_def p2_def [symmetric] refreshNow_def fits_asked_def reply_step_def answered_page_def p3_def [symmetric]
        after_tick_def shown_ts_def num_or_zero_def)
  finally show ?thesis using s3 p3 by (simp add: shown_node_def)
qed

definition demo_card :: "string \<Rightarrow> card" where
  "demo_card i = \<lparr>cd_node = \<lparr>fn_id = i, fn_name = i, fn_local = False, fn_created = 0, fn_tags = [], fn_managed = []\<rparr>,
     cd_status = Online, cd_seen = None, cd_interval = None, cd_summary = JNull, cd_alerts = None\<rparr>"

definition demo_page :: page where
  "demo_page = \<lparr>pg_nodes = map demo_card [''aaaaaaaaaaaa'', ''bbbbbbbbbbbb'', ''cccccccccccc''], pg_local = None, pg_view = NodeView', pg_current = Some ''aaaaaaaaaaaa'',
     pg_hash = ''#node=aaaaaaaaaaaa'', pg_hub = HubOk, pg_last = JNull, pg_trends = no_trends, pg_trendFromServer = False, pg_nodesAt = 0\<rparr>"

definition demo_snap :: "rat \<Rightarrow> jsval" where
  "demo_snap t = JObj [(''ts'', JNum (Fin t))]"

theorem late_answer_shows_other_server_witness:
  "sc_asked (foldl screen_step (idle demo_page) [Refresh 1, Reply (NodeReply (Answer 200 True (Some (demo_snap 1000)))), Timer 600]) = Some (AskNode (Some ''aaaaaaaaaaaa'')) \<and>
    (let s = foldl screen_step (idle demo_page) [Refresh 1, Reply (NodeReply (Answer 200 True (Some (demo_snap 1000)))), Timer 600, Go (node_hash ''bbbbbbbbbbbb'') 700,
        Reply (NodeReply (Answer 200 True (Some (demo_snap 2000))))] in
      sc_refresh s = Idle \<and> sc_asked s = None \<and> shown_node (sc_page s) = Some ''bbbbbbbbbbbb'' \<and> pg_last (sc_page s) = demo_snap 2000)"
proof (rule late_answer_shows_other_server [where t = 1000 and t' = 2000])
  show "is_node_id ''bbbbbbbbbbbb''" by code_simp
qed (simp_all add: demo_page_def demo_card_def card_id_def demo_snap_def node_hash_def)

section \<open>A kiosk shows every server\<close>

text \<open>The page has routed since its address or its servers changed.\<close>

definition routed :: "page \<Rightarrow> bool" where
  "routed p \<longleftrightarrow> page_route p = p"

definition place :: "jsval \<Rightarrow> page \<Rightarrow> int" where
  "place cfg p = (if pg_view p = FleetView then -1 else index_of (shown_node p) (kiosk_ids cfg p))"

lemma index_of_nth:
  assumes "distinct xs" "i < length xs"
  shows "index_of (Some (xs ! i)) xs = int i"
proof -
  have t: "take i xs @ xs ! i # drop (Suc i) xs = xs" using assms(2) by (simp add: id_take_nth_drop [symmetric])
  have "xs ! i \<notin> set (take i xs)" using assms by (metis distinct.simps(2) distinct_append in_set_conv_nth less_irrefl_nat nth_eq_iff_index_eq nth_take length_take min_less_iff_conj)
  then have "takeWhile (\<lambda>y. Some y \<noteq> Some (xs ! i)) (take i xs @ xs ! i # drop (Suc i) xs) = take i xs"
    by (subst takeWhile_append2) auto
  then show ?thesis using assms(2) t by (simp add: index_of_def Let_def)
qed

lemma index_of_range: "-1 \<le> index_of x xs \<and> index_of x xs < int (length xs)"
  by (auto simp: index_of_def Let_def)

lemma set_view_frame [simp]:
  "pg_nodes (set_view v c p) = pg_nodes p" "pg_hash (set_view v c p) = pg_hash p" "pg_view (set_view v c p) = v" "pg_current (set_view v c p) = c"
  by (auto simp: set_view_def)

lemma set_view_same: "pg_view p = v \<Longrightarrow> pg_current p = c \<Longrightarrow> set_view v c p = p"
  by (simp add: set_view_def)

lemma routed_view: "routed (set_view NodeView' (Some i) (p\<lparr>pg_hash := node_hash i\<rparr>))" if "is_node_id i" "list_ex (\<lambda>n. card_id n = i) (pg_nodes p)"
proof -
  let ?q = "set_view NodeView' (Some i) (p\<lparr>pg_hash := node_hash i\<rparr>)"
  have "page_route (?q\<lparr>pg_hash := node_hash i\<rparr>) = set_view NodeView' (Some i) (?q\<lparr>pg_hash := node_hash i\<rparr>)"
    by (rule route_to_node) (use that in simp_all)
  moreover have "?q\<lparr>pg_hash := node_hash i\<rparr> = ?q" by (simp add: set_view_def)
  ultimately show ?thesis unfolding routed_def by (simp only: set_view_same set_view_frame)
qed

lemma mod_length:
  assumes "0 < n"
  shows "0 \<le> x mod int n" "x mod int n < int n" "nat (x mod int n) < n" "int (nat (x mod int n)) = x mod int n"
proof -
  show a: "0 \<le> x mod int n" "x mod int n < int n" using assms by (simp_all add: pos_mod_sign pos_mod_bound)
  then show "nat (x mod int n) < n" "int (nat (x mod int n)) = x mod int n" by linarith+
qed

lemma kiosk_turn:
  assumes r: "routed p" and n: "2 \<le> length (kiosk_ids cfg p)" "distinct (kiosk_ids cfg p)" "list_all is_node_id (kiosk_ids cfg p)"
    and j: "j = nat ((place cfg p + 1) mod int (length (kiosk_ids cfg p)))"
  shows "routed (kiosk_tick cfg p) \<and> kiosk_ids cfg (kiosk_tick cfg p) = kiosk_ids cfg p \<and> place cfg (kiosk_tick cfg p) = int j \<and>
    shown_node (kiosk_tick cfg p) = Some (kiosk_ids cfg p ! j) \<and> pg_view (kiosk_tick cfg p) = NodeView'"
proof -
  let ?ids = "kiosk_ids cfg p" and ?i = "kiosk_ids cfg p ! j"
  have l: "0 < length ?ids" using n(1) by linarith
  have jl: "j < length ?ids" unfolding j by (rule mod_length(3) [OF l])
  then have i: "?i \<in> set ?ids" by simp
  then have ok: "is_node_id ?i" "list_ex (\<lambda>n. card_id n = ?i) (pg_nodes p)" using n(3) by (auto simp: list_all_iff kiosk_ids_def list_ex_iff)
  have tick: "kiosk_tick cfg p = go (node_hash ?i) p"
    using n(1) by (simp add: kiosk_tick_def Let_def place_def j)
  have "node_hash ?i \<noteq> pg_hash p"
  proof
    assume h: "node_hash ?i = pg_hash p"
    then have p: "p\<lparr>pg_hash := node_hash ?i\<rparr> = p" by simp
    from route_to_node [OF ok] r have "set_view NodeView' (Some ?i) p = p" unfolding p routed_def by simp
    then have "pg_view p = NodeView'" "pg_current p = Some ?i" using set_view_frame(3,4) by metis+
    then have "place cfg p = int j" using index_of_nth [OF n(2) jl] by (simp add: place_def shown_node_def)
    then have e: "int j = (int j + 1) mod int (length ?ids)" using j mod_length(4) [OF l] by metis
    show False
    proof (cases "int j + 1 = int (length ?ids)")
      case True
      then show False using e n(1) by simp
    next
      case False
      then have "(int j + 1) mod int (length ?ids) = int j + 1" using jl by (intro mod_pos_pos_trivial) simp_all
      then show False using e by simp
    qed
  qed
  then have k: "kiosk_tick cfg p = set_view NodeView' (Some ?i) (p\<lparr>pg_hash := node_hash ?i\<rparr>)" using tick route_to_node [OF ok] by (simp add: go_def)
  moreover have "kiosk_ids cfg (kiosk_tick cfg p) = ?ids" by (simp add: k kiosk_ids_def)
  ultimately show ?thesis using routed_view [OF ok] index_of_nth [OF n(2) jl] by (simp add: place_def shown_node_def)
qed

lemma kiosk_turns:
  assumes r: "routed p" and n: "2 \<le> length (kiosk_ids cfg p)" "distinct (kiosk_ids cfg p)" "list_all is_node_id (kiosk_ids cfg p)"
  shows "let q = (kiosk_tick cfg ^^ Suc k) p; j = nat ((place cfg p + 1 + int k) mod int (length (kiosk_ids cfg p))) in
    routed q \<and> kiosk_ids cfg q = kiosk_ids cfg p \<and> place cfg q = int j \<and> shown_node q = Some (kiosk_ids cfg p ! j) \<and> pg_view q = NodeView'"
proof (induction k)
  case 0
  then show ?case using kiosk_turn [OF r n refl] by simp
next
  case (Suc k)
  let ?q = "(kiosk_tick cfg ^^ Suc k) p" and ?l = "int (length (kiosk_ids cfg p))"
  have l: "0 < length (kiosk_ids cfg p)" using n(1) by linarith
  have q: "routed ?q" "kiosk_ids cfg ?q = kiosk_ids cfg p" "place cfg ?q = (place cfg p + 1 + int k) mod ?l"
    using Suc [unfolded Let_def mod_length(4) [OF l]] by blast+
  have "(place cfg ?q + 1) mod ?l = (place cfg p + 1 + int (Suc k)) mod ?l"
    unfolding q(3) mod_add_left_eq by (simp add: add.assoc)
  then show ?case using kiosk_turn [OF q(1), of cfg] n q(2) by (simp add: Let_def)
qed

text \<open>
  A kiosk screen comes round: from any page that has routed, with two or more servers shown, each of them is in
  view after at most as many turns as there are servers, as long as the list stays the same.
\<close>

theorem kiosk_shows_all:
  assumes "routed p" "2 \<le> length (kiosk_ids cfg p)" "distinct (kiosk_ids cfg p)" "list_all is_node_id (kiosk_ids cfg p)" "i \<in> set (kiosk_ids cfg p)"
  shows "\<exists>n. 1 \<le> n \<and> n \<le> length (kiosk_ids cfg p) \<and> pg_view ((kiosk_tick cfg ^^ n) p) = NodeView' \<and> shown_node ((kiosk_tick cfg ^^ n) p) = Some i"
proof -
  let ?l = "int (length (kiosk_ids cfg p))"
  obtain m where m: "m < length (kiosk_ids cfg p)" "kiosk_ids cfg p ! m = i" using assms(5) by (auto simp: in_set_conv_nth)
  define k where "k = nat ((int m - place cfg p - 1) mod ?l)"
  have "0 < length (kiosk_ids cfg p)" using m(1) by linarith
  then have k: "int k = (int m - place cfg p - 1) mod ?l" "k < length (kiosk_ids cfg p)"
    unfolding k_def by (rule mod_length)+
  have "(place cfg p + 1 + int k) mod ?l = int m mod ?l" unfolding k(1) by (simp add: mod_add_right_eq)
  then have "nat ((place cfg p + 1 + int k) mod ?l) = m" using m(1) by simp
  then show ?thesis using kiosk_turns [OF assms(1-4), of k] m(2) k(2) by (intro exI [of _ "Suc k"]) (simp add: Let_def del: funpow.simps)
qed

theorem kiosk_shows_all_witness:
  "\<exists>n. 1 \<le> n \<and> n \<le> 3 \<and> shown_node ((kiosk_tick JUndef ^^ n) demo_page) = Some ''cccccccccccc''"
proof -
  have ids: "kiosk_ids JUndef demo_page = [''aaaaaaaaaaaa'', ''bbbbbbbbbbbb'', ''cccccccccccc'']"
    by (simp add: kiosk_ids_def hiddenIds_def words_of_def demo_page_def demo_card_def card_id_def)
  have "routed demo_page" "list_all is_node_id (kiosk_ids JUndef demo_page)"
    unfolding ids routed_def by code_simp+
  from kiosk_shows_all [OF this(1) _ _ this(2), of "''cccccccccccc''"] ids show ?thesis by auto
qed

end
