(* ===== verification/Page_Config.thy ===== *)
theory Page_Config
  imports Confd "HOL-Library.Multiset"
begin

text \<open>
  The page's settings (\<^verbatim>\<open>src/www/js/app.js\<close>, \<^verbatim>\<open>settings.js\<close>): what the browser stores, the settings of the hub merged
  with a copy saved in this browser, the values a file of the hub manages, the order and the sets of panels,
  and the import of a settings file. An object is a \<open>JObj\<close>; what throws gives the kind of error. A member put
  on an array (no JSON text shows it) gives the error \<open>''array''\<close>; names that every object inherits
  (\<^verbatim>\<open>toString\<close> and the like) are taken as any other name.
\<close>

section \<open>The browser's store\<close>

definition lsGet :: "string \<Rightarrow> (string \<times> string) list \<Rightarrow> string option \<times> (string \<times> string) list" where
  "lsGet key ls = (case map_of ls (''servitals.'' @ key) of
       Some v \<Rightarrow> (Some v, ls)
     | None \<Rightarrow> (case map_of ls (''sysdash.'' @ key) of
         Some old \<Rightarrow> (Some old, AList.delete (''sysdash.'' @ key) (AList.update (''servitals.'' @ key) old ls))
       | None \<Rightarrow> (None, ls)))"

definition lsSet :: "string \<Rightarrow> string \<Rightarrow> (string \<times> string) list \<Rightarrow> (string \<times> string) list" where
  "lsSet key v ls = AList.update (''servitals.'' @ key) v ls"

definition lsDel :: "string \<Rightarrow> (string \<times> string) list \<Rightarrow> (string \<times> string) list" where
  "lsDel key ls = AList.delete (''servitals.'' @ key) ls"

section \<open>Objects\<close>

definition UNSAFE :: "string list" where
  "UNSAFE = [''__proto__'', ''constructor'', ''prototype'']"

text \<open>\<^verbatim>\<open>Object.entries\<close> of a value that is not null.\<close>

definition entries_of :: "jsval \<Rightarrow> (string \<times> jsval) list" where
  "entries_of v = (case v of
       JObj m \<Rightarrow> m
     | JArr xs \<Rightarrow> map (\<lambda>(i, x). (show_nat i, x)) (enumerate 0 xs)
     | JStr s \<Rightarrow> map (\<lambda>(i, c). (show_nat i, JStr [c])) (enumerate 0 s)
     | _ \<Rightarrow> [])"

text \<open>\<^verbatim>\<open>a[k] = v\<close> in strict mode\<close>

definition set_member :: "jsval \<Rightarrow> string \<Rightarrow> jsval \<Rightarrow> string + jsval" where
  "set_member a k v = (case a of JObj m \<Rightarrow> Inr (JObj (AList.update k v m)) | JArr xs \<Rightarrow> Inl ''array'' | _ \<Rightarrow> Inl ''TypeError'')"

definition or_empty :: "jsval \<Rightarrow> jsval" where
  "or_empty v = (if truthy v then v else JObj [])"

function deepMerge :: "jsval \<Rightarrow> (string \<times> jsval) list \<Rightarrow> string + jsval" where
  "deepMerge a [] = Inr a"
| "deepMerge a ((k, v) # kvs) =
    (if k \<in> set UNSAFE then deepMerge a kvs
     else bindE (case v of JObj m \<Rightarrow> deepMerge (or_empty (fld k a)) m | _ \<Rightarrow> Inr v)
       (\<lambda>w. bindE (set_member a k w) (\<lambda>a'. deepMerge a' kvs)))"
  by pat_completeness auto
termination by (relation "measure (\<lambda>(a, kvs). size (JObj kvs))") auto

section \<open>Loading\<close>

definition PANEL_NAMES :: "string list" where
  "PANEL_NAMES = [''mem'', ''cpu'', ''temp'', ''hist'', ''storage'', ''network'', ''docker'', ''procs'', ''system'', ''hw'', ''clocks'', ''weather'']"

definition builtin_size :: "string \<Rightarrow> string" where
  "builtin_size p = (if p \<in> {''hist'', ''docker''} then ''full'' else if p \<in> {''storage'', ''network'', ''procs''} then ''wide'' else ''normal'')"

definition page_num :: "rat \<Rightarrow> jsval" where "page_num q = JNum (Fin q)"

definition builtin :: "(string \<times> jsval) list" where
  "builtin = [(''title'', JStr ''servitals''), (''favicon'', JStr []), (''refreshSec'', page_num 60), (''weather'', JArr []), (''clocks'', JArr []), (''disks'', JObj []),
     (''panels'', JObj (map (\<lambda>p. (p, page_num 1)) PANEL_NAMES)), (''panelOrder'', JArr (map JStr PANEL_NAMES)),
     (''panelSize'', JObj (map (\<lambda>p. (p, JStr (builtin_size p))) PANEL_NAMES))]"

definition is_object :: "jsval \<Rightarrow> bool" where
  "is_object v = (case v of JObj m \<Rightarrow> True | JArr xs \<Rightarrow> True | _ \<Rightarrow> False)"

definition fill_builtin :: "(string \<times> jsval) list \<Rightarrow> string \<Rightarrow> (string \<times> jsval) list" where
  "fill_builtin d k = (if is_object (fld k (JObj d)) then AList.update k (JObj (spread (entries_of (fld k (JObj builtin))) (entries_of (fld k (JObj d))))) d else d)"

definition page_defaults :: "(string \<times> jsval) list \<Rightarrow> (string \<times> jsval) list" where
  "page_defaults hub = spread builtin (foldl fill_builtin hub [''panels'', ''panelSize''])"

definition managedPaths :: "(string \<times> jsval) list \<Rightarrow> string list" where
  "managedPaths d = (case fld ''_managed'' (JObj d) of JArr xs \<Rightarrow> List.map_filter (\<lambda>x. case x of JStr s \<Rightarrow> Some s | _ \<Rightarrow> None) xs | _ \<Rightarrow> [])"

definition apply_path :: "(string \<times> jsval) list \<Rightarrow> (string \<times> jsval) list \<Rightarrow> string \<Rightarrow> string + (string \<times> jsval) list" where
  "apply_path d cfg p = (case split_on (CHR ''.'') p of
       [k] \<Rightarrow> Inr (if fld k (JObj d) \<noteq> JUndef then AList.update k (fld k (JObj d)) cfg else cfg)
     | k # sub # _ \<Rightarrow> if truthy (fld k (JObj d)) \<and> fld sub (fld k (JObj d)) \<noteq> JUndef
         then bindE (set_member (if is_object (fld k (JObj cfg)) then fld k (JObj cfg) else JObj []) sub (fld sub (fld k (JObj d))))
           (\<lambda>v. Inr (AList.update k v cfg))
         else Inr cfg
     | [] \<Rightarrow> Inr cfg)"

fun apply_paths :: "(string \<times> jsval) list \<Rightarrow> (string \<times> jsval) list \<Rightarrow> string list \<Rightarrow> string + (string \<times> jsval) list" where
  "apply_paths d cfg [] = Inr cfg"
| "apply_paths d cfg (p # ps) = bindE (apply_path d cfg p) (\<lambda>c. apply_paths d c ps)"

definition applyManaged :: "(string \<times> jsval) list \<Rightarrow> (string \<times> jsval) list \<Rightarrow> string + (string \<times> jsval) list" where
  "applyManaged d cfg = apply_paths d cfg (managedPaths d)"

text \<open>\<^verbatim>\<open>[...new Set(xs)]\<close>\<close>

definition uniq :: "'a list \<Rightarrow> 'a list" where
  "uniq xs = foldl (\<lambda>ys x. if x \<in> set ys then ys else ys @ [x]) [] xs"

definition panel_order :: "string list \<Rightarrow> jsval list \<Rightarrow> string list" where
  "panel_order known order = (let named = List.map_filter (\<lambda>x. case x of JStr s \<Rightarrow> Some s | _ \<Rightarrow> None) order in
     uniq (filter (\<lambda>p. p \<in> set known) named) @ filter (\<lambda>p. p \<notin> set named) known)"

definition fixPanelOrder :: "(string \<times> jsval) list \<Rightarrow> (string \<times> jsval) list \<Rightarrow> string + (string \<times> jsval) list" where
  "fixPanelOrder d cfg = (let ps = fld ''panels'' (JObj d) in
     if ps = JUndef \<or> ps = JNull then Inl ''TypeError''
     else Inr (AList.update ''panelOrder'' (JArr (map JStr (panel_order (map fst (entries_of ps))
       (case fld ''panelOrder'' (JObj cfg) of JArr xs \<Rightarrow> xs | _ \<Rightarrow> [])))) cfg))"

text \<open>\<^verbatim>\<open>loadConfig\<close>: \<open>hub\<close> is what the hub sends, \<open>saved\<close> the parsed copy of this browser (\<open>JNull\<close> without one).\<close>

definition loadConfig :: "(string \<times> jsval) list \<Rightarrow> jsval \<Rightarrow> string + (string \<times> jsval) list" where
  "loadConfig hub saved = (let d = page_defaults hub in
     bindE (if truthy saved then deepMerge (JObj d) (entries_of saved) else Inr (JObj d))
       (\<lambda>c. bindE (applyManaged d (members_of c)) (fixPanelOrder d)))"

section \<open>What a file of the hub manages\<close>

text \<open>The value at a path: a key, or a table's key and a key in it.\<close>

definition page_path :: "string \<Rightarrow> (string \<times> jsval) list \<Rightarrow> jsval" where
  "page_path p cfg = (case split_on (CHR ''.'') p of
       [k] \<Rightarrow> fld k (JObj cfg) | k # sub # _ \<Rightarrow> fld sub (fld k (JObj cfg)) | [] \<Rightarrow> JUndef)"

definition top_key :: "string \<Rightarrow> string" where
  "top_key p = hd (split_on (CHR ''.'') p)"

lemma path_cases:
  obtains (one) k where "split_on (CHR ''.'') p = [k]" | (two) k sub ps where "split_on (CHR ''.'') p = k # sub # ps"
  by (cases "split_on (CHR ''.'') p" rule: remdups_adj.cases) auto

lemma fld_update [simp]: "fld k (JObj (AList.update k' v m)) = (if k = k' then v else fld k (JObj m))"
  by simp

lemma update_same: "map_of m k = Some v \<Longrightarrow> AList.update k v m = m"
  by (induction m) auto

lemma fld_defined: "fld k v \<noteq> JUndef \<Longrightarrow> \<exists>m. v = JObj m \<and> map_of m k = Some (fld k v)"
  by (cases v) (auto split: option.splits)

lemma apply_path_sets:
  assumes "apply_path d cfg p = Inr c" "page_path p d \<noteq> JUndef"
  shows "page_path p c = page_path p d"
proof (cases p rule: path_cases)
  case (one k)
  then show ?thesis using assms by (auto simp: apply_path_def page_path_def simp del: fld.simps)
next
  case (two k sub ps)
  then have f: "fld sub (fld k (JObj d)) \<noteq> JUndef" using assms(2) by (simp add: page_path_def del: fld.simps)
  then obtain m where "fld k (JObj d) = JObj m" using fld_defined by blast
  then have t: "truthy (fld k (JObj d))" by (simp del: fld.simps)
  have "fld sub w = v" if "set_member x sub v = Inr w" for x v w using that by (auto simp: set_member_def split: jsval.splits)
  then show ?thesis using two assms(1) f t by (auto simp: apply_path_def page_path_def simp del: fld.simps)
qed

lemma apply_path_keeps:
  assumes a: "apply_path d cfg q = Inr c" and p: "page_path p d \<noteq> JUndef" "page_path p cfg = page_path p d"
  shows "page_path p c = page_path p d"
proof (cases q rule: path_cases)
  case (one k)
  then have c: "c = (if fld k (JObj d) \<noteq> JUndef then AList.update k (fld k (JObj d)) cfg else cfg)" using a by (simp add: apply_path_def del: fld.simps)
  show ?thesis using p by (cases p rule: path_cases) (auto simp: c page_path_def simp del: fld.simps)
next
  case (two k sub ps)
  show ?thesis
  proof (cases "truthy (fld k (JObj d)) \<and> fld sub (fld k (JObj d)) \<noteq> JUndef")
    case True
    then obtain m where m: "fld k (JObj d) = JObj m" "map_of m sub = Some (fld sub (fld k (JObj d)))" using fld_defined by blast
    define x where "x = (if is_object (fld k (JObj cfg)) then fld k (JObj cfg) else JObj [])"
    obtain w where w: "set_member x sub (fld sub (fld k (JObj d))) = Inr w" "c = AList.update k w cfg"
      using a two True unfolding apply_path_def x_def by (auto simp del: fld.simps)
    show ?thesis
    proof (cases p rule: path_cases)
      case P: (one k')
      have "w = fld k (JObj d)" if "k' = k"
      proof -
        have "fld k (JObj cfg) = JObj m" using p(2) P that m(1) by (simp add: page_path_def del: fld.simps)
        then show ?thesis using w(1) m update_same [OF m(2)] by (simp add: x_def is_object_def set_member_def del: fld.simps)
      qed
      then show ?thesis using p(2) P w(2) by (simp add: page_path_def del: fld.simps)
    next
      case P: (two k' sub' ps')
      have "fld sub' w = fld sub' (fld k (JObj d))" if e: "k' = k"
      proof -
        have d: "fld sub' (fld k (JObj cfg)) = fld sub' (fld k (JObj d))" "fld sub' (fld k (JObj cfg)) \<noteq> JUndef"
          using p P e by (simp_all add: page_path_def del: fld.simps)
        then obtain m' where "fld k (JObj cfg) = JObj m'" using fld_defined by blast
        then have "w = JObj (AList.update sub (fld sub (fld k (JObj d))) m')" using w(1) by (simp add: x_def is_object_def set_member_def del: fld.simps)
        then show ?thesis using d(1) \<open>fld k (JObj cfg) = JObj m'\<close> by (simp del: fld.simps)
      qed
      then show ?thesis using p(2) P w(2) by (simp add: page_path_def del: fld.simps)
    qed
  next
    case False
    then have "apply_path d cfg q = Inr cfg" using two by (auto simp: apply_path_def simp del: fld.simps)
    then show ?thesis using a p(2) by simp
  qed
qed

lemma apply_paths_keep:
  "apply_paths d cfg qs = Inr c \<Longrightarrow> page_path p d \<noteq> JUndef \<Longrightarrow> page_path p cfg = page_path p d \<Longrightarrow> page_path p c = page_path p d"
  by (induction qs arbitrary: cfg) (auto dest: apply_path_keeps)

lemma apply_paths_set:
  "apply_paths d cfg qs = Inr c \<Longrightarrow> p \<in> set qs \<Longrightarrow> page_path p d \<noteq> JUndef \<Longrightarrow> page_path p c = page_path p d"
proof (induction qs arbitrary: cfg)
  case (Cons q qs)
  then obtain c1 where c1: "apply_path d cfg q = Inr c1" "apply_paths d c1 qs = Inr c" by auto
  show ?case
  proof (cases "p = q")
    case True
    then show ?thesis using apply_paths_keep [OF c1(2) Cons.prems(3)] apply_path_sets [OF c1(1)] Cons.prems(3) by simp
  next
    case False
    then show ?thesis using Cons.IH [OF c1(2)] Cons.prems by simp
  qed
qed simp

text \<open>
  C27. What a file of the hub manages wins on the page too: whatever copy of the settings this browser holds, after
  loading, the value at each path the hub lists as managed is the hub's (the order of the panels apart, which
  the page completes).
\<close>

theorem managed_wins:
  assumes "loadConfig hub saved = Inr cfg" "p \<in> set (managedPaths (page_defaults hub))"
    "page_path p (page_defaults hub) \<noteq> JUndef" "top_key p \<noteq> ''panelOrder''"
  shows "page_path p cfg = page_path p (page_defaults hub)"
proof -
  let ?d = "page_defaults hub"
  obtain c0 c1 where c: "apply_paths ?d c0 (managedPaths ?d) = Inr c1" "fixPanelOrder ?d c1 = Inr cfg"
    using assms(1) by (auto simp: loadConfig_def Let_def applyManaged_def)
  have "page_path p c1 = page_path p ?d" by (rule apply_paths_set [OF c(1) assms(2,3)])
  moreover obtain v where "cfg = AList.update ''panelOrder'' v c1" using c(2) by (auto simp: fixPanelOrder_def Let_def split: if_splits)
  ultimately show ?thesis using assms(4) by (cases p rule: path_cases) (simp_all add: page_path_def top_key_def del: fld.simps)
qed

definition demo_defaults :: "(string \<times> jsval) list" where
  "demo_defaults = [(''title'', JStr ''rack''), (''units'', JObj [(''temp'', JStr ''f'')]), (''_managed'', JArr [JStr ''title'', JStr ''units.temp''])]"

definition demo_copy :: jsval where
  "demo_copy = JObj [(''title'', JStr ''mine''), (''units'', JObj [(''temp'', JStr ''c''), (''size'', JStr ''decimal'')]), (''panelOrder'', JArr [JStr ''cpu'', JStr ''cpu'', JNull])]"

theorem managed_wins_witness:
  "\<exists>cfg. loadConfig demo_defaults demo_copy = Inr cfg \<and> page_path ''units.temp'' cfg = JStr ''f'' \<and> page_path ''units.size'' cfg = JStr ''decimal''"
proof -
  let ?c = "case loadConfig demo_defaults demo_copy of Inr c \<Rightarrow> c | Inl _ \<Rightarrow> []"
  have c: "loadConfig demo_defaults demo_copy = Inr ?c" "page_path ''units.size'' ?c = JStr ''decimal''" by code_simp+
  have m: "''units.temp'' \<in> set (managedPaths (page_defaults demo_defaults))" "page_path ''units.temp'' (page_defaults demo_defaults) = JStr ''f''"
    "top_key ''units.temp'' \<noteq> ''panelOrder''" by code_simp+
  have "page_path ''units.temp'' ?c = JStr ''f''" using managed_wins [OF c(1) m(1) _ m(3)] unfolding m(2) by simp
  then show ?thesis using c by blast
qed

section \<open>Every panel once\<close>

text \<open>\<^verbatim>\<open>order.splice(to, 0, order.splice(from, 1)[0])\<close>\<close>

definition move_to :: "nat \<Rightarrow> nat \<Rightarrow> 'a list \<Rightarrow> 'a list" where
  "move_to from to xs = (let r = take from xs @ drop (Suc from) xs in take to r @ xs ! from # drop to r)"

definition position :: "'a \<Rightarrow> 'a list \<Rightarrow> nat option" where
  "position x xs = (let n = length (takeWhile (\<lambda>y. y \<noteq> x) xs) in if n < length xs then Some n else None)"

text \<open>The buttons of a panel's row, and dropping one panel on another.\<close>

datatype panel_move = Shift string int | Drop string string

definition move_panel :: "string list \<Rightarrow> panel_move \<Rightarrow> string list" where
  "move_panel order m = (case m of
       Shift p by \<Rightarrow> (case position p order of None \<Rightarrow> order
         | Some from \<Rightarrow> let to = int from + by in if to < 0 \<or> to \<ge> int (length order) then order else move_to from (nat to) order)
     | Drop p q \<Rightarrow> (case (position p order, position q order) of
         (Some from, Some to) \<Rightarrow> if from = to then order else move_to from to order | _ \<Rightarrow> order))"

lemma set_move_to: "from < length xs \<Longrightarrow> distinct xs \<Longrightarrow> distinct (move_to from to xs) \<and> set (move_to from to xs) = set xs"
proof -
  assume f: "from < length xs" and d: "distinct xs"
  define r where "r = take from xs @ drop (Suc from) xs"
  have xs: "xs = take from xs @ xs ! from # drop (Suc from) xs" using f by (rule id_take_nth_drop)
  have "mset xs = add_mset (xs ! from) (mset r)" using arg_cong [OF xs, of mset] by (simp add: r_def)
  also have "mset r = mset (take to r) + mset (drop to r)" by (metis append_take_drop_id mset_append)
  finally have "mset (move_to from to xs) = mset xs" by (simp add: move_to_def r_def [symmetric] Let_def)
  then show ?thesis using d mset_eq_imp_distinct_iff mset_eq_setD by blast
qed

lemma position_bound: "position x xs = Some n \<Longrightarrow> n < length xs"
  by (auto simp: position_def Let_def split: if_splits)

lemma move_panel_keeps: "distinct order \<Longrightarrow> distinct (move_panel order m) \<and> set (move_panel order m) = set order"
  by (auto simp: move_panel_def Let_def position_bound set_move_to split: panel_move.split option.split)

interpretation panels: machine move_panel "\<lambda>order. distinct order \<and> set order = known" for known
  by unfold_locales (use move_panel_keeps in blast)

lemma uniq_distinct: "distinct (uniq xs) \<and> set (uniq xs) = set xs"
proof -
  have "distinct ys \<Longrightarrow> distinct (foldl (\<lambda>ys x. if x \<in> set ys then ys else ys @ [x]) ys xs) \<and>
      set (foldl (\<lambda>ys x. if x \<in> set ys then ys else ys @ [x]) ys xs) = set ys \<union> set xs" for ys
    by (induction xs arbitrary: ys) auto
  from this [of "[]"] show ?thesis by (simp add: uniq_def)
qed

lemma panel_order_once: "distinct known \<Longrightarrow> distinct (panel_order known order) \<and> set (panel_order known order) = set known"
  by (auto simp: panel_order_def Let_def uniq_distinct)

lemma show_nat_inj: "show_nat m = show_nat n \<Longrightarrow> m = n"
proof (induction m arbitrary: n rule: less_induct)
  case (less m)
  have ne: "show_nat k \<noteq> []" "[] \<noteq> show_nat k" for k by (subst show_nat.simps, simp)+
  have ch: "((char_of (48 + a) :: char) = char_of (48 + b)) = (a = b)" if "a < 10" "b < 10" for a b :: nat
  proof
    assume "(char_of (48 + a) :: char) = char_of (48 + b)"
    then have "of_char (char_of (48 + a) :: char) = (of_char (char_of (48 + b) :: char) :: nat)" by simp
    then show "a = b" using that by simp
  qed simp
  show ?case
  proof (cases "m < 10")
    case True
    then show ?thesis using less.prems ch ne by (cases "n < 10") (simp_all add: show_nat.simps [of m] show_nat.simps [of n])
  next
    case False
    then have n: "\<not> n < 10" using less.prems ne by (auto simp: show_nat.simps [of m] show_nat.simps [of n])
    then have e: "show_nat (m div 10) = show_nat (n div 10)" "m mod 10 = n mod 10"
      using False less.prems ch by (simp_all add: show_nat.simps [of m] show_nat.simps [of n])
    have "m div 10 = n div 10" by (rule less.IH [OF _ e(1)]) (use False in simp)
    then show ?thesis using e(2) by (metis div_mult_mod_eq)
  qed
qed

lemma entry_keys_distinct:
  assumes "case v of JObj m \<Rightarrow> distinct (map fst m) | _ \<Rightarrow> True"
  shows "distinct (map fst (entries_of v))"
proof -
  have "distinct (map fst (map (\<lambda>(i, x). (show_nat i, f x)) (enumerate 0 xs)))" for f :: "'b \<Rightarrow> jsval" and xs
  proof -
    have "map fst (map (\<lambda>(i, x). (show_nat i, f x)) (enumerate 0 xs)) = map show_nat [0..<length xs]"
      by (simp add: enumerate_eq_zip comp_def case_prod_unfold) (metis (no_types, lifting) comp_apply length_upt map_fst_zip minus_nat.diff_0 map_map map_cong)
    then show ?thesis by (simp add: distinct_map inj_on_def show_nat_inj)
  qed
  from this [of "\<lambda>x. x"] this [of "\<lambda>c. JStr [c]"] assms show ?thesis by (auto simp: entries_of_def split: jsval.split)
qed

lemma spread_keys_distinct: "distinct (map fst a) \<Longrightarrow> distinct (map fst (spread a b))"
  unfolding spread_def by (induction b arbitrary: a) auto

lemma builtin_panels: "map_of builtin ''panels'' = Some (JObj (map (\<lambda>p. (p, page_num 1)) PANEL_NAMES))" "distinct (map fst (map (\<lambda>p. (p, page_num 1)) PANEL_NAMES))"
  by code_simp+

lemma fill_keys: "distinct (map fst d) \<Longrightarrow> distinct (map fst (fill_builtin d k))"
  by (simp add: fill_builtin_def)

lemma page_panels_distinct:
  assumes "distinct (map fst hub)"
  shows "distinct (map fst (entries_of (fld ''panels'' (JObj (page_defaults hub)))))"
proof (rule entry_keys_distinct)
  define h where "h = foldl fill_builtin hub [''panels'', ''panelSize'']"
  have "distinct (map fst h)" using assms by (simp add: h_def fill_keys)
  then have d: "map_of (page_defaults hub) ''panels'' = (case map_of h ''panels'' of None \<Rightarrow> map_of builtin ''panels'' | Some v \<Rightarrow> Some v)"
    unfolding page_defaults_def h_def [symmetric] by (simp add: spread_distinct map_add_def split: option.split)
  have h: "map_of h ''panels'' = (if is_object (fld ''panels'' (JObj hub))
      then Some (JObj (spread (map (\<lambda>p. (p, page_num 1)) PANEL_NAMES) (entries_of (fld ''panels'' (JObj hub))))) else map_of hub ''panels'')"
    using builtin_panels(1) by (auto simp: h_def fill_builtin_def entries_of_def)
  show "case fld ''panels'' (JObj (page_defaults hub)) of JObj m \<Rightarrow> distinct (map fst m) | _ \<Rightarrow> True"
    using d h builtin_panels spread_keys_distinct [OF builtin_panels(2)]
    by (auto simp: is_object_def split: option.splits jsval.splits)
qed

text \<open>
  Every panel is once in the order: whatever order the hub or this browser has saved, with panels that are
  missing, unknown or named twice, after loading and after any number of moves in the settings (the buttons,
  dragging one panel on another) each panel the page knows is in the order exactly once.
\<close>

theorem panels_once:
  assumes "loadConfig hub saved = Inr cfg" "distinct (map fst hub)"
  shows "\<exists>order. fld ''panelOrder'' (JObj cfg) = JArr (map JStr order) \<and> distinct (foldl move_panel order moves) \<and>
    set (foldl move_panel order moves) = fst ` set (entries_of (fld ''panels'' (JObj (page_defaults hub))))"
proof -
  let ?known = "map fst (entries_of (fld ''panels'' (JObj (page_defaults hub))))"
  obtain c1 where c: "fixPanelOrder (page_defaults hub) c1 = Inr cfg" using assms(1) by (auto simp: loadConfig_def Let_def)
  define order where "order = panel_order ?known (case fld ''panelOrder'' (JObj c1) of JArr xs \<Rightarrow> xs | _ \<Rightarrow> [])"
  have "fld ''panelOrder'' (JObj cfg) = JArr (map JStr order)" using c by (auto simp: fixPanelOrder_def Let_def order_def split: if_splits)
  moreover have "distinct order \<and> set order = set ?known" unfolding order_def by (rule panel_order_once [OF page_panels_distinct [OF assms(2)]])
  from panels.inv_run [OF this, of moves] have "distinct (foldl move_panel order moves) \<and> set (foldl move_panel order moves) = set ?known" .
  ultimately show ?thesis by auto
qed

theorem panels_once_witness:
  "\<exists>cfg order. loadConfig demo_defaults demo_copy = Inr cfg \<and> fld ''panelOrder'' (JObj cfg) = JArr (map JStr order) \<and>
    distinct (foldl move_panel order [Shift ''cpu'' 1, Drop ''temp'' ''hw''])"
proof -
  let ?c = "case loadConfig demo_defaults demo_copy of Inr c \<Rightarrow> c | Inl _ \<Rightarrow> []"
  have c: "loadConfig demo_defaults demo_copy = Inr ?c" "distinct (map fst demo_defaults)" by code_simp+
  from panels_once [OF c, of "[Shift ''cpu'' 1, Drop ''temp'' ''hw'']"] c(1) show ?thesis by blast
qed

section \<open>Panel sets and units\<close>

text \<open>The panels and sizes of a server: its own set, or the shared one.\<close>

definition panelSet :: "(string \<times> jsval) list \<Rightarrow> string option \<Rightarrow> jsval" where
  "panelSet cfg i = (let own = (case i of None \<Rightarrow> JUndef | Some n \<Rightarrow> fld n (fld ''nodePanels'' (JObj cfg))) in
     if is_object (fld ''panels'' own) then own else JObj [(''panels'', fld ''panels'' (JObj cfg)), (''panelSize'', fld ''panelSize'' (JObj cfg))])"

definition panel_hidden :: "jsval \<Rightarrow> string \<Rightarrow> bool" where
  "panel_hidden s p \<longleftrightarrow> fld p (fld ''panels'' s) = JBool False"

definition panel_size :: "jsval \<Rightarrow> string \<Rightarrow> jsval" where
  "panel_size s p = (let v = fld p (fld ''panelSize'' s) in if truthy v then v else JStr ''normal'')"

definition UNIT_CHOICES :: "(string \<times> string list) list" where
  "UNIT_CHOICES = [(''temp'', [''c'', ''f'']), (''size'', [''binary'', ''decimal'']), (''rate'', [''bytes'', ''bits'']), (''clock'', [''auto'', ''24h'', ''12h''])]"

definition units :: "(string \<times> jsval) list \<Rightarrow> (string \<times> string) list" where
  "units cfg = map (\<lambda>(k, choices). (k, let v = fld k (fld ''units'' (JObj cfg)) in
     case v of JStr s \<Rightarrow> if s \<in> set choices then s else hd choices | _ \<Rightarrow> hd choices)) UNIT_CHOICES"

section \<open>Importing a settings file\<close>

datatype kind = KString | KNumber | KBool | KArray | KObject | KNull

definition kinds :: "(string \<times> kind) list" where
  "kinds = [(''title'', KString), (''favicon'', KString), (''portainerUrl'', KString), (''style'', KString), (''mode'', KString),
     (''density'', KString), (''refreshSec'', KNumber), (''kioskSec'', KNumber), (''kiosk'', KBool), (''portainerEndpoint'', KNumber),
     (''weather'', KArray), (''clocks'', KArray), (''panelOrder'', KArray),
     (''panels'', KObject), (''panelSize'', KObject), (''nodePanels'', KObject), (''units'', KObject), (''fleet'', KObject), (''disks'', KObject)]"

definition kindOf :: "jsval \<Rightarrow> kind" where
  "kindOf v = (case v of JStr s \<Rightarrow> KString | JNum n \<Rightarrow> KNumber | JBool b \<Rightarrow> KBool | JArr xs \<Rightarrow> KArray | JObj m \<Rightarrow> KObject | _ \<Rightarrow> KNull)"

function plain :: "(string \<times> jsval) list \<Rightarrow> (string \<times> jsval) list" where
  "plain [] = []"
| "plain ((k, v) # kvs) = (if k \<in> set UNSAFE then plain kvs
     else (k, case v of JObj m \<Rightarrow> JObj (plain m) | _ \<Rightarrow> v) # plain kvs)"
  by pat_completeness auto
termination by (relation "measure (\<lambda>kvs. size (JObj kvs))") auto

definition only_words :: "jsval \<Rightarrow> jsval option" where
  "only_words v = (case v of JArr xs \<Rightarrow> Some (JArr (filter (\<lambda>x. kindOf x = KString) xs)) | _ \<Rightarrow> None)"

definition clean_fleet_member :: "string \<times> jsval \<Rightarrow> (string \<times> jsval) option" where
  "clean_fleet_member kv = (case kv of (k, v) \<Rightarrow> map_option (Pair k)
     (if k \<in> {''pinned'', ''hidden'', ''card''} then only_words v
      else if k = ''sort'' \<and> kindOf v = KString then Some v
      else if k = ''group'' \<and> kindOf v = KBool then Some v else None))"

definition clean_value :: "string \<Rightarrow> jsval \<Rightarrow> jsval" where
  "clean_value k v =
    (if k = ''fleet'' then JObj (List.map_filter clean_fleet_member (members_of v))
     else if k = ''nodePanels'' then JObj (plain (filter (\<lambda>(i, s). kindOf s = KObject \<and> kindOf (fld ''panels'' s) = KObject) (members_of v)))
     else if kindOf v = KObject then JObj (plain (members_of v)) else v)"

fun import_entries :: "(string \<times> jsval) list \<Rightarrow> string + (string \<times> jsval) list \<times> string list" where
  "import_entries [] = Inr ([], [])"
| "import_entries ((k, v) # kvs) = (case map_of kinds k of
      None \<Rightarrow> bindE (import_entries kvs) (\<lambda>(out, skipped). Inr (out, k # skipped))
    | Some kd \<Rightarrow> if kindOf v \<noteq> kd then Inl ''set.importKind''
        else bindE (import_entries kvs) (\<lambda>(out, skipped). Inr ((k, clean_value k v) # out, skipped)))"

text \<open>\<open>len\<close> is the length of the text, \<open>parsed\<close> what \<^verbatim>\<open>JSON.parse\<close> makes of it.\<close>

definition importSettings :: "int \<Rightarrow> jsval option \<Rightarrow> string + (string \<times> jsval) list \<times> string list" where
  "importSettings len parsed =
    (if len > 512 * 1024 then Inl ''set.importBig''
     else (case parsed of
       None \<Rightarrow> Inl ''set.importNotJson''
     | Some (JObj m) \<Rightarrow> import_entries m
     | Some _ \<Rightarrow> Inl ''set.importNotSettings''))"

text \<open>No name that reaches the prototype, in any object an object holds.\<close>

function safe_names :: "(string \<times> jsval) list \<Rightarrow> bool" where
  "safe_names [] = True"
| "safe_names ((k, v) # kvs) = (k \<notin> set UNSAFE \<and> (case v of JObj m \<Rightarrow> safe_names m | _ \<Rightarrow> True) \<and> safe_names kvs)"
  by pat_completeness auto
termination by (relation "measure (\<lambda>kvs. size (JObj kvs))") auto

lemma plain_safe: "safe_names (plain kvs)"
  by (induction kvs rule: plain.induct) (auto split: jsval.split)

lemma plain_id: "safe_names kvs \<Longrightarrow> plain kvs = kvs"
  by (induction kvs rule: plain.induct) (auto split: jsval.splits)

lemma plain_kind: "k \<notin> set UNSAFE \<Longrightarrow> kindOf (fld k (JObj (plain kvs))) = kindOf (fld k (JObj kvs))"
proof (induction kvs)
  case (Cons kv kvs)
  obtain k' v where "kv = (k', v)" by (cases kv)
  then show ?case using Cons by (auto simp: kindOf_def split: jsval.split)
qed (simp add: kindOf_def)

lemma words_again: "only_words v = Some w \<Longrightarrow> only_words w = Some w"
  by (auto simp: only_words_def split: jsval.splits)

lemma fleet_member_again: "clean_fleet_member kv = Some kv' \<Longrightarrow> clean_fleet_member kv' = Some kv' \<and> fst kv' = fst kv \<and> fst kv \<notin> set UNSAFE \<and> \<not> is_obj (snd kv')"
  by (auto simp: clean_fleet_member_def UNSAFE_def kindOf_def only_words_def split: prod.splits if_splits jsval.splits)

lemma map_filter_again:
  assumes "\<And>x y. f x = Some y \<Longrightarrow> f y = Some y"
  shows "List.map_filter f (List.map_filter f xs) = List.map_filter f xs"
proof (induction xs)
  case (Cons x xs)
  then show ?case by (cases "f x") (auto simp: List.map_filter_simps assms)
qed (simp add: List.map_filter_simps)

lemma safe_names_flat: "list_all (\<lambda>kv. fst kv \<notin> set UNSAFE \<and> \<not> is_obj (snd kv)) kvs \<Longrightarrow> safe_names kvs"
  by (induction kvs) (auto simp: is_obj_def split: jsval.splits)

text \<open>A setting that was cleaned: its kind stays, cleaning it again changes nothing, and it holds no unsafe name.\<close>

lemma clean_value_again:
  assumes "kindOf v = kd" "map_of kinds k = Some kd"
  shows "kindOf (clean_value k v) = kd \<and> clean_value k (clean_value k v) = clean_value k v \<and>
    (case clean_value k v of JObj m \<Rightarrow> safe_names m | _ \<Rightarrow> True)"
proof (cases "kd = KObject")
  case True
  then obtain m where v: "v = JObj m" using assms(1) by (cases v) (auto simp: kindOf_def)
  consider (f) "k = ''fleet''" | (n) "k = ''nodePanels''" | (p) "k \<noteq> ''fleet''" "k \<noteq> ''nodePanels''" by blast
  then show ?thesis
  proof cases
    case f
    have "List.map_filter clean_fleet_member (List.map_filter clean_fleet_member m) = List.map_filter clean_fleet_member m"
      by (rule map_filter_again) (use fleet_member_again in blast)
    moreover have "safe_names (List.map_filter clean_fleet_member m)"
    proof (rule safe_names_flat, unfold list_all_iff, rule ballI)
      fix y assume "y \<in> set (List.map_filter clean_fleet_member m)"
      then obtain x where "clean_fleet_member x = Some y" by (auto simp: List.map_filter_def)
      from fleet_member_again [OF this] show "fst y \<notin> set UNSAFE \<and> \<not> is_obj (snd y)" by simp
    qed
    ultimately show ?thesis using f v True by (simp add: clean_value_def kindOf_def)
  next
    case n
    let ?g = "\<lambda>(i :: string, s). kindOf s = KObject \<and> kindOf (fld ''panels'' s) = KObject"
    have "filter ?g (plain (filter ?g m)) = plain (filter ?g m)"
    proof (induction m)
      case (Cons iv m)
      obtain i w where iv: "iv = (i, w)" by (cases iv)
      show ?case
      proof (cases "?g iv")
        case True
        then obtain ws where w: "w = JObj ws" using iv by (cases w) (auto simp: kindOf_def)
        have "kindOf (fld ''panels'' (JObj (plain ws))) = KObject" using True iv w plain_kind [of "''panels''" ws] by (simp add: UNSAFE_def del: fld.simps)
        then show ?thesis using Cons True iv w by (simp add: kindOf_def del: fld.simps)
      next
        case False
        then show ?thesis using Cons iv by simp
      qed
    qed simp
    then show ?thesis using n v True by (simp add: clean_value_def kindOf_def plain_safe plain_id)
  next
    case p
    then show ?thesis using v True by (simp add: clean_value_def kindOf_def plain_safe plain_id)
  qed
next
  case False
  then have "k \<noteq> ''fleet''" "k \<noteq> ''nodePanels''" using assms(2) by (auto simp: kinds_def)
  then show ?thesis using False assms(1) by (cases v) (auto simp: clean_value_def kindOf_def)
qed

lemma import_entries_again:
  "import_entries kvs = Inr (out, skipped) \<Longrightarrow> import_entries out = Inr (out, []) \<and> safe_names out \<and>
    list_all (\<lambda>(k, v). map_of kinds k = Some (kindOf v)) out"
proof (induction kvs arbitrary: out skipped)
  case (Cons kv kvs)
  obtain k v where kv: "kv = (k, v)" by (cases kv)
  show ?case
  proof (cases "map_of kinds k")
    case None
    then show ?thesis using Cons kv by auto
  next
    case (Some kd)
    then have kd: "kindOf v = kd" using Cons.prems kv by (auto split: if_splits)
    obtain out' where o: "import_entries kvs = Inr (out', skipped)" "out = (k, clean_value k v) # out'"
      using Cons.prems kv Some kd by auto
    have k: "k \<notin> set UNSAFE" using Some by (auto simp: kinds_def UNSAFE_def split: if_splits)
    show ?thesis using Cons.IH [OF o(1)] clean_value_again [OF kd Some] Some k by (simp add: o(2))
  qed
qed simp

text \<open>
  An import is clean: whatever file a person imports, when it is accepted every setting of the result is one the
  page knows, of the right kind, no name in any object of it reaches the prototype, and exporting the result
  and importing it again gives the same settings with nothing skipped.
\<close>

theorem import_again:
  assumes "importSettings len parsed = Inr (out, skipped)" "len' \<le> 512 * 1024"
  shows "importSettings len' (Some (JObj out)) = Inr (out, []) \<and> safe_names out \<and>
    list_all (\<lambda>(k, v). map_of kinds k = Some (kindOf v)) out"
proof -
  obtain m where "import_entries m = Inr (out, skipped)" using assms(1) by (auto simp: importSettings_def split: if_splits option.splits jsval.splits)
  from import_entries_again [OF this] show ?thesis using assms(2) by (simp add: importSettings_def)
qed

definition demo_file :: jsval where
  "demo_file = JObj [(''title'', JStr ''rack''), (''other'', JNull),
     (''units'', JObj [(''temp'', JStr ''f''), (''__proto__'', JObj [(''x'', JNull)])]),
     (''fleet'', JObj [(''hidden'', JArr [JStr ''a'', JNull]), (''sort'', JNull), (''group'', JBool True)]),
     (''nodePanels'', JObj [(''n'', JObj [(''panels'', JObj [(''constructor'', JNull), (''cpu'', JBool False)])]), (''m'', JNull)])]"

theorem import_again_witness:
  "\<exists>out. importSettings 400 (Some demo_file) = Inr (out, [''other'']) \<and> length out = 4 \<and> importSettings 300 (Some (JObj out)) = Inr (out, []) \<and> safe_names out"
proof -
  let ?o = "case importSettings 400 (Some demo_file) of Inr (out, sk) \<Rightarrow> out | Inl _ \<Rightarrow> []"
  have i: "importSettings 400 (Some demo_file) = Inr (?o, [''other''])" "length ?o = 4" by code_simp+
  from import_again [OF i(1), of 300] i show ?thesis by auto
qed

text \<open>An import the check accepts can still stop the page's code: an object where the defaults have a number.\<close>

theorem import_can_throw:
  "importSettings 40 (Some (JObj [(''panels'', JObj [(''mem'', JObj [(''on'', JBool True)])])])) = Inr ([(''panels'', JObj [(''mem'', JObj [(''on'', JBool True)])])], []) \<and>
   deepMerge (JObj (page_defaults [])) [(''panels'', JObj [(''mem'', JObj [(''on'', JBool True)])])] = Inl ''TypeError''"
  by code_simp

end
