(* ===== verification/Page_History.thy ===== *)
theory Page_History
  imports Page_Fleet
begin

text \<open>
  The history panel (\<^verbatim>\<open>src/www/js/history.js\<close>): which points of a chart are drawn through, and the loading of
  series lists and charts. \<^verbatim>\<open>loadHistory\<close> awaits twice, so a load is three steps: it starts, the list is there, the points
  are there; any number of loads are under way at once. \<open>coll\<close> gives a name's key in the order of \<^verbatim>\<open>localeCompare\<close>. A
  chart is what it was drawn from; its HTML is not modelled.
\<close>

section \<open>Short gaps\<close>

text \<open>
  \<^verbatim>\<open>filled\<close>: a run of missing points is drawn through when it lies between two points with data and is no
  longer than \<open>bridge\<close>. The loop goes from run to run; \<open>i\<close> is where it is.
\<close>

definition run_end :: "bool list \<Rightarrow> nat \<Rightarrow> nat" where
  "run_end xs i = i + length (takeWhile Not (drop i xs))"

function fill_from :: "nat \<Rightarrow> bool list \<Rightarrow> nat \<Rightarrow> bool list" where
  "fill_from bridge xs i =
    (if i \<ge> length xs then xs
     else if xs ! i then fill_from bridge xs (Suc i)
     else (let j = run_end xs i in
       fill_from bridge (if 0 < i \<and> j < length xs \<and> j - i \<le> bridge then take i xs @ replicate (j - i) True @ drop j xs else xs) j))"
  by pat_completeness auto
termination
proof (relation "measure (\<lambda>(bridge, xs, i). length xs - i)")
  fix bridge :: nat and xs :: "bool list" and i j
  assume a: "\<not> length xs \<le> i" "\<not> xs ! i" "j = run_end xs i"
  have "drop i xs \<noteq> []" "\<not> hd (drop i xs)" using a by (simp_all add: hd_drop_conv_nth)
  then have "i < j" using a(3) by (cases "drop i xs") (auto simp: run_end_def)
  moreover have "j \<le> length xs" using a(1,3) length_takeWhile_le [of Not "drop i xs"] by (simp add: run_end_def)
  ultimately show "((bridge, if 0 < i \<and> j < length xs \<and> j - i \<le> bridge then take i xs @ replicate (j - i) True @ drop j xs else xs, j), bridge, xs, i)
      \<in> measure (\<lambda>(bridge, xs, i). length xs - i)" using a(1) by auto
qed auto

declare fill_from.simps [simp del]

definition filled :: "nat \<Rightarrow> bool list \<Rightarrow> bool list" where
  "filled bridge has = fill_from bridge has 0"

text \<open>\<^verbatim>\<open>Math.max(1, Math.ceil((interval || 60) / 60))\<close> for the ranges with a point a minute\<close>

definition bridge_of :: "string \<Rightarrow> rat \<Rightarrow> nat" where
  "bridge_of rng interval = (if rng = ''1h'' \<or> rng = ''24h'' then max 1 (nat \<lceil>(if interval = 0 then 60 else interval) / 60\<rceil>) else 0)"

section \<open>Names\<close>

definition HIST_ORDER :: "string list" where
  "HIST_ORDER = [''cpu'', ''mem'', ''temp'', ''load1'', ''iowait'', ''psi.cpu'', ''psi.mem'', ''psi.io'', ''swap'', ''net.rx'', ''net.tx'']"

definition HIST_RANGES :: "string list" where
  "HIST_RANGES = [''1h'', ''24h'', ''7d'', ''30d'', ''90d'']"

definition hist_rank :: "string \<Rightarrow> rat" where
  "hist_rank s = (let n = length (takeWhile (\<lambda>x. x \<noteq> s) HIST_ORDER) in if n < length HIST_ORDER then of_nat n + 1 else 99)"

definition hist_cmp :: "(string \<Rightarrow> string) \<Rightarrow> string \<Rightarrow> string \<Rightarrow> rat" where
  "hist_cmp coll a b = (let d = hist_rank a - hist_rank b in if d \<noteq> 0 then d else if coll a < coll b then -1 else if coll a = coll b then 0 else 1)"

datatype series_kind = HPct | HTemp | HNet | HIo | HBytes | HNum

definition name_ends :: "string \<Rightarrow> string \<Rightarrow> bool" where
  "name_ends e s = (take (length e) (rev s) = rev e)"

text \<open>\<^verbatim>\<open>/^a.*b$/\<close> for names without line breaks: the two parts do not overlap.\<close>

definition framed :: "string \<Rightarrow> string \<Rightarrow> string \<Rightarrow> bool" where
  "framed a e s \<longleftrightarrow> starts_with a s \<and> name_ends e s \<and> length s \<ge> length a + length e"

definition kindOf_series :: "string \<Rightarrow> series_kind" where
  "kindOf_series s =
    (if s \<in> {''cpu'', ''mem'', ''swap'', ''iowait''} \<or> starts_with ''psi.'' s \<or> framed ''disk.'' ''.used'' s \<or> framed ''ctr.'' ''.cpu'' s then HPct
     else if s = ''temp'' then HTemp
     else if starts_with ''net.'' s then HNet
     else if starts_with ''io.'' s then HIo
     else if framed ''ctr.'' ''.mem'' s then HBytes
     else HNum)"

section \<open>Loading\<close>

record hload =
  ld_seq :: nat
  ld_node :: string
  ld_asked :: "(string \<times> string) option"
  ld_short :: bool

text \<open>\<open>ch_series\<close> and \<open>ch_range\<close> say how a chart is drawn (the kind of its numbers, the times below it), \<open>ch_asked\<close> what its points are.\<close>

record chart =
  ch_seq :: nat
  ch_node :: string
  ch_series :: string
  ch_range :: string
  ch_asked :: "(string \<times> string) option"
  ch_points :: "jsval option"

text \<open>\<open>hs_shown\<close> is \<^verbatim>\<open>currentNode || localNode\<close>.\<close>

record hstate =
  hs_shown :: "string option"
  hs_node :: "string option"
  hs_series :: string
  hs_range :: string
  hs_at :: ms
  hs_seq :: nat
  hs_loads :: "hload list"
  hs_chart :: "chart option"

definition initHistState :: "string option \<Rightarrow> string option \<Rightarrow> string option \<Rightarrow> hstate" where
  "initHistState series rng node = \<lparr>hs_shown = node, hs_node = None, hs_series = (case series of Some s \<Rightarrow> if s = [] then ''cpu'' else s | None \<Rightarrow> ''cpu''),
     hs_range = (case rng of Some r \<Rightarrow> if r \<in> set HIST_RANGES then r else ''24h'' | None \<Rightarrow> ''24h''), hs_at = 0, hs_seq = 0, hs_loads = [], hs_chart = None\<rparr>"

definition load_start :: "bool \<Rightarrow> ms \<Rightarrow> hstate \<Rightarrow> hstate" where
  "load_start force now s = (case hs_shown s of
       None \<Rightarrow> s
     | Some node \<Rightarrow> if node = [] then s else (let fresh = (hs_node s \<noteq> Some node) in
         if \<not> force \<and> \<not> fresh \<and> now - hs_at s < 60000 then s
         else s\<lparr>hs_at := now, hs_seq := hs_seq s + 1, hs_loads := hs_loads s @ [\<lparr>ld_seq = hs_seq s + 1, ld_node = node, ld_asked = None, ld_short = False\<rparr>],
             hs_chart := (if fresh then None else hs_chart s)\<rparr>))"

definition stale :: "hload \<Rightarrow> hstate \<Rightarrow> bool" where
  "stale l s \<longleftrightarrow> ld_seq l \<noteq> hs_seq s \<or> hs_shown s \<noteq> Some (ld_node l)"

definition choose_series :: "string list \<Rightarrow> string \<Rightarrow> string" where
  "choose_series names cur = (if cur \<in> set names then cur else if ''cpu'' \<in> set names then ''cpu'' else case names of [] \<Rightarrow> ''cpu'' | n # ns \<Rightarrow> n)"

definition short_series :: "string \<Rightarrow> string \<Rightarrow> bool" where
  "short_series s r \<longleftrightarrow> starts_with ''ctr.'' s \<and> r \<notin> {''1h'', ''24h''}"

definition drop_load :: "hload \<Rightarrow> hstate \<Rightarrow> hstate" where
  "drop_load l s = s\<lparr>hs_loads := filter (\<lambda>x. ld_seq x \<noteq> ld_seq l) (hs_loads s)\<rparr>"

text \<open>The list of series is there (\<open>None\<close> when it did not come): the series is chosen, its points are asked for.\<close>

definition load_list :: "(string \<Rightarrow> string) \<Rightarrow> hload \<Rightarrow> string list option \<Rightarrow> hstate \<Rightarrow> hstate" where
  "load_list coll l list s =
    (if stale l s then drop_load l s
     else (let s1 = (case list of None \<Rightarrow> s | Some names \<Rightarrow> s\<lparr>hs_node := Some (ld_node l), hs_series := choose_series (sort_by (hist_cmp coll) names) (hs_series s)\<rparr>);
       short = short_series (hs_series s1) (hs_range s1) in
       s1\<lparr>hs_loads := map (\<lambda>x. if ld_seq x = ld_seq l then x\<lparr>ld_asked := Some (hs_series s1, if short then ''24h'' else hs_range s1), ld_short := short\<rparr> else x)
         (hs_loads s1)\<rparr>))"

text \<open>The points are there: the chart is drawn of the series and range the panel has now.\<close>

definition load_points :: "hload \<Rightarrow> jsval option \<Rightarrow> hstate \<Rightarrow> hstate" where
  "load_points l points s =
    (if stale l s then drop_load l s
     else (drop_load l s)\<lparr>hs_chart := Some \<lparr>ch_seq = ld_seq l, ch_node = ld_node l, ch_series = hs_series s,
       ch_range = (if ld_short l then ''24h'' else hs_range s), ch_asked = ld_asked l, ch_points = points\<rparr>\<rparr>)"

datatype hevent =
    Show "string option"
  | Load bool ms
  | PickSeries string ms
  | PickRange string ms
  | ListThere nat "string list option"
  | PointsThere nat "jsval option"

text \<open>One event; the page's route changes \<open>hs_shown\<close> between them.\<close>

definition hist_step :: "(string \<Rightarrow> string) \<Rightarrow> hstate \<Rightarrow> hevent \<Rightarrow> hstate" where
  "hist_step coll s e = (case e of
       Show i \<Rightarrow> s\<lparr>hs_shown := i\<rparr>
     | Load force now \<Rightarrow> load_start force now s
     | PickSeries x now \<Rightarrow> load_start True now (s\<lparr>hs_series := x\<rparr>)
     | PickRange r now \<Rightarrow> load_start True now (s\<lparr>hs_range := r\<rparr>)
     | ListThere n list \<Rightarrow> (case find (\<lambda>l. ld_seq l = n \<and> ld_asked l = None) (hs_loads s) of None \<Rightarrow> s | Some l \<Rightarrow> load_list coll l list s)
     | PointsThere n points \<Rightarrow> (case find (\<lambda>l. ld_seq l = n \<and> ld_asked l \<noteq> None) (hs_loads s) of None \<Rightarrow> s | Some l \<Rightarrow> load_points l points s))"

section \<open>What the loop draws through\<close>

text \<open>Seen from one missing point: the lengths of the run before it and from it on.\<close>

definition bridged :: "nat \<Rightarrow> bool list \<Rightarrow> nat \<Rightarrow> bool" where
  "bridged bridge has k = (let a = length (takeWhile Not (rev (take k has))); b = length (takeWhile Not (drop k has)) in
     \<not> has ! k \<and> a < k \<and> k + b < length has \<and> a + b \<le> bridge)"

definition drawn_through :: "nat \<Rightarrow> bool list \<Rightarrow> nat \<Rightarrow> bool" where
  "drawn_through bridge has k \<longleftrightarrow> has ! k \<or> bridged bridge has k"

definition at_run :: "bool list \<Rightarrow> nat \<Rightarrow> bool" where
  "at_run has i \<longleftrightarrow> i \<le> length has \<and> (i = 0 \<or> i = length has \<or> has ! (i - 1) \<or> has ! i)"

lemma takeWhile_replicate_stop: "takeWhile Not (replicate n False @ xs) = replicate n False @ takeWhile Not xs"
  by (induction n) simp_all

text \<open>A run of missing points from \<open>i\<close> to \<open>j\<close>, in the middle of the list.\<close>

lemma run_split:
  assumes "at_run has i" "i < length has" "\<not> has ! i"
  shows "i < run_end has i" "run_end has i \<le> length has" "at_run has (run_end has i)"
    "has = take i has @ replicate (run_end has i - i) False @ drop (run_end has i) has"
    "drop (run_end has i) has = [] \<or> hd (drop (run_end has i) has)" "takeWhile Not (rev (take i has)) = []"
proof -
  let ?r = "takeWhile Not (drop i has)"
  have d: "drop i has = has ! i # drop (Suc i) has" using assms(2) by (simp add: Cons_nth_drop_Suc)
  show lt: "i < run_end has i" using assms(3) by (simp add: run_end_def d)
  have r: "?r = replicate (run_end has i - i) False"
    by (rule replicate_eqI) (auto simp: run_end_def dest: set_takeWhileD)
  have dw: "drop (run_end has i) has = dropWhile Not (drop i has)"
    by (simp add: run_end_def dropWhile_eq_drop add.commute)
  show hd: "drop (run_end has i) has = [] \<or> hd (drop (run_end has i) has)"
    unfolding dw using hd_dropWhile [of Not "drop i has"] by auto
  show le: "run_end has i \<le> length has" using length_takeWhile_le [of Not "drop i has"] assms(2) by (simp add: run_end_def)
  show "at_run has (run_end has i)" using hd le by (auto simp: at_run_def hd_drop_conv_nth)
  show "has = take i has @ replicate (run_end has i - i) False @ drop (run_end has i) has"
    unfolding r [symmetric] dw by simp
  have "i = 0 \<or> has ! (i - 1)" using assms by (auto simp: at_run_def)
  moreover have "take i has = take (i - 1) has @ [has ! (i - 1)]" if "0 < i"
    using that assms(2) take_Suc_conv_app_nth [of "i - 1" has] by simp
  ultimately show "takeWhile Not (rev (take i has)) = []" by (cases "0 < i") simp_all
qed

lemma in_run:
  assumes "at_run has i" "i < length has" "\<not> has ! i" "i \<le> k" "k < run_end has i"
  shows "drawn_through bridge has k \<longleftrightarrow> 0 < i \<and> run_end has i < length has \<and> run_end has i - i \<le> bridge"
proof -
  let ?j = "run_end has i"
  note r = run_split [OF assms(1-3)]
  have pre: "min (length has) i = i" using assms(2) by simp
  have "take k has = take i has @ replicate (k - i) False"
    by (subst r(4)) (use assms(4,5) in \<open>simp add: pre\<close>)
  then have a: "length (takeWhile Not (rev (take k has))) = k - i" using r(6) by (simp add: takeWhile_replicate_stop)
  have dk: "drop k has = replicate (?j - k) False @ drop ?j has"
    by (subst r(4)) (use assms(4,5) in \<open>simp add: pre\<close>)
  have "takeWhile Not (drop ?j has) = []" using r(5) by (cases "drop ?j has") auto
  then have b: "length (takeWhile Not (drop k has)) = ?j - k" unfolding dk by (simp add: takeWhile_replicate_stop)
  have "k < length has" using assms(5) r(2) by simp
  then have "\<not> has ! k" using dk assms(5) hd_drop_conv_nth [of k has] by (cases "?j - k") simp_all
  then show ?thesis using assms(4,5) a b by (auto simp: drawn_through_def bridged_def Let_def)
qed

lemma fill_from_spec:
  assumes "at_run has i"
  shows "fill_from bridge (map (drawn_through bridge has) [0..<i] @ drop i has) i = map (drawn_through bridge has) [0..<length has]"
  using assms
proof (induction "length has - i" arbitrary: i rule: less_induct)
  case less
  let ?g = "drawn_through bridge has" and ?xs = "map (drawn_through bridge has) [0..<i] @ drop i has"
  have il: "i \<le> length has" using less.prems by (simp add: at_run_def)
  show ?case
  proof (cases "i = length has")
    case True
    then show ?thesis by (simp add: fill_from.simps)
  next
    case False
    then have i: "i < length has" using il by simp
    have x: "length ?xs = length has" "?xs ! i = has ! i" "drop i ?xs = drop i has" using il i by (simp_all add: nth_append)
    show ?thesis
    proof (cases "has ! i")
      case True
      have "?xs = map ?g [0..<Suc i] @ drop (Suc i) has" using True i by (simp add: drawn_through_def flip: Cons_nth_drop_Suc)
      moreover have "at_run has (Suc i)" using True i by (simp add: at_run_def)
      ultimately show ?thesis using less.hyps [of "Suc i"] i True x by (subst fill_from.simps) simp
    next
      case F: False
      note r = run_split [OF less.prems i F]
      let ?j = "run_end has i"
      have j: "run_end ?xs i = ?j" by (simp add: run_end_def x(3))
      define c where "c = (0 < i \<and> ?j < length has \<and> ?j - i \<le> bridge)"
      have g: "map ?g [i..<?j] = replicate (?j - i) c"
        by (rule replicate_eqI) (use in_run [OF less.prems i F] in \<open>auto simp: c_def\<close>)
      have dj: "drop i has = replicate (?j - i) False @ drop ?j has"
        by (subst (1) r(4)) (use i in simp)
      have "[0..<?j] = [0..<i] @ [i..<?j]" using r(1) upt_add_eq_append [of 0 i "?j - i"] by simp
      then have m: "map ?g [0..<?j] @ drop ?j has = map ?g [0..<i] @ replicate (?j - i) c @ drop ?j has" by (simp add: g)
      have "(if c then take i ?xs @ replicate (?j - i) True @ drop ?j ?xs else ?xs) = map ?g [0..<?j] @ drop ?j has"
        unfolding m using il r(1) by (cases c) (simp_all add: dj)
      moreover have "fill_from bridge ?xs i = fill_from bridge (if c then take i ?xs @ replicate (?j - i) True @ drop ?j ?xs else ?xs) ?j"
        using i F x by (subst fill_from.simps) (simp add: Let_def j c_def)
      ultimately show ?thesis using less.hyps [of ?j] r(1,2,3) i by simp
    qed
  qed
qed

text \<open>
  C28. Only short gaps are drawn through: the loop over the chart's points, which changes the list it reads, marks
  exactly the points with data and those missing ones whose run lies between two points with data and is no longer
  than the bridge. A server that was away for longer, or is away now, always shows a gap.
\<close>

theorem short_gaps_only:
  "filled bridge has = map (drawn_through bridge has) [0..<length has]"
  using fill_from_spec [of has 0 bridge] by (simp add: filled_def at_run_def)

section \<open>A late answer\<close>

text \<open>The picks of a run are made while a server is shown: the panel that offers them is a server's.\<close>

definition may_pick :: "hstate \<Rightarrow> hevent \<Rightarrow> bool" where
  "may_pick s e = (case e of PickSeries x t \<Rightarrow> hs_shown s \<notin> {None, Some []} | PickRange r t \<Rightarrow> hs_shown s \<notin> {None, Some []} | _ \<Rightarrow> True)"

fun picks_ok :: "(string \<Rightarrow> string) \<Rightarrow> hstate \<Rightarrow> hevent list \<Rightarrow> bool" where
  "picks_ok coll s [] = True"
| "picks_ok coll s (e # es) = (may_pick s e \<and> picks_ok coll (hist_step coll s e) es)"

text \<open>The points a load of the newest number asked for are those of the series and the range the panel has.\<close>

definition fits :: "hstate \<Rightarrow> hload \<Rightarrow> bool" where
  "fits s l = (case ld_asked l of None \<Rightarrow> True
     | Some (a, r) \<Rightarrow> a = hs_series s \<and> r = (if ld_short l then ''24h'' else hs_range s))"

definition load_inv :: "hstate \<Rightarrow> bool" where
  "load_inv s \<longleftrightarrow> list_all (\<lambda>l. ld_seq l \<le> hs_seq s \<and> (ld_seq l = hs_seq s \<longrightarrow> fits s l)) (hs_loads s) \<and>
     (case hs_chart s of None \<Rightarrow> True | Some c \<Rightarrow> ch_seq c \<le> hs_seq s \<and> ch_asked c = Some (ch_series c, ch_range c))"

definition newer_than :: "nat \<Rightarrow> hstate \<Rightarrow> bool" where
  "newer_than m s \<longleftrightarrow> m \<le> hs_seq s \<and> (case hs_chart s of None \<Rightarrow> True | Some c \<Rightarrow> m \<le> ch_seq c)"

lemma load_start_inv:
  assumes "list_all (\<lambda>l. ld_seq l \<le> hs_seq s) (hs_loads s)" "case hs_chart s of None \<Rightarrow> True | Some c \<Rightarrow> ch_seq c \<le> hs_seq s \<and> ch_asked c = Some (ch_series c, ch_range c)"
    "load_inv s \<or> force \<and> hs_shown s \<notin> {None, Some []}"
  shows "load_inv (load_start force now s)"
proof -
  have "load_inv (s\<lparr>hs_at := now, hs_seq := hs_seq s + 1, hs_loads := hs_loads s @ [\<lparr>ld_seq = hs_seq s + 1, ld_node = n, ld_asked = None, ld_short = False\<rparr>],
      hs_chart := (if b then None else hs_chart s)\<rparr>)" for n b
    using assms(1,2) by (auto simp: load_inv_def fits_def list_all_iff split: option.splits)
  then show ?thesis using assms(3) by (auto simp: load_start_def Let_def split: option.split)
qed

lemma load_start_newer: "newer_than m s \<Longrightarrow> newer_than m (load_start force now s)"
  by (auto simp: load_start_def newer_than_def Let_def split: option.splits)

lemma load_list_inv:
  assumes "load_inv s" "l \<in> set (hs_loads s)"
  shows "load_inv (load_list coll l list s)"
proof (cases "stale l s")
  case True
  then show ?thesis using assms by (auto simp: load_list_def drop_load_def load_inv_def fits_def list_all_iff split: option.splits)
next
  case False
  then have seq: "ld_seq l = hs_seq s" by (simp add: stale_def)
  define s1 where "s1 = (case list of None \<Rightarrow> s | Some names \<Rightarrow> s\<lparr>hs_node := Some (ld_node l), hs_series := choose_series (sort_by (hist_cmp coll) names) (hs_series s)\<rparr>)"
  have s1: "hs_seq s1 = hs_seq s" "hs_loads s1 = hs_loads s" "hs_chart s1 = hs_chart s" by (simp_all add: s1_def split: option.split)
  let ?short = "short_series (hs_series s1) (hs_range s1)"
  define u where "u = (\<lambda>x :: hload. if ld_seq x = ld_seq l
      then x\<lparr>ld_asked := Some (hs_series s1, if ?short then ''24h'' else hs_range s1), ld_short := ?short\<rparr> else x)"
  have l: "load_list coll l list s = s1\<lparr>hs_loads := map u (hs_loads s1)\<rparr>"
    using False by (simp add: load_list_def s1_def u_def Let_def)
  have u: "ld_seq (u x) = ld_seq x" "ld_seq x = hs_seq s \<Longrightarrow> fits (s1\<lparr>hs_loads := map u (hs_loads s1)\<rparr>) (u x)" for x
    using seq by (simp_all add: u_def fits_def)
  have "list_all (\<lambda>l. ld_seq l \<le> hs_seq s) (hs_loads s)" using assms(1) by (auto simp: load_inv_def list_all_iff)
  then show ?thesis unfolding l using assms(1) s1 u by (auto simp: load_inv_def list_all_iff split: option.splits)
qed

lemma load_list_newer: "newer_than m s \<Longrightarrow> newer_than m (load_list coll l list s)"
  by (auto simp: load_list_def drop_load_def newer_than_def Let_def split: option.splits)

lemma load_points_inv:
  assumes "load_inv s" "l \<in> set (hs_loads s)" "ld_asked l \<noteq> None"
  shows "load_inv (load_points l points s)"
proof (cases "stale l s")
  case True
  then show ?thesis using assms by (auto simp: load_points_def drop_load_def load_inv_def fits_def list_all_iff split: option.splits)
next
  case False
  then have "ld_seq l = hs_seq s" by (simp add: stale_def)
  then have "fits s l" using assms(1,2) by (simp add: load_inv_def list_all_iff)
  then have "ld_asked l = Some (hs_series s, if ld_short l then ''24h'' else hs_range s)" using assms(3) by (auto simp: fits_def)
  then show ?thesis using False assms(1) \<open>ld_seq l = hs_seq s\<close>
    by (auto simp: load_points_def drop_load_def load_inv_def fits_def list_all_iff split: option.splits)
qed

lemma load_points_newer: "newer_than m s \<Longrightarrow> newer_than m (load_points l points s)"
  by (auto simp: load_points_def drop_load_def newer_than_def stale_def split: option.splits)

lemma load_inv_shown: "load_inv (s\<lparr>hs_shown := i\<rparr>) = load_inv s"
proof -
  have "fits (s\<lparr>hs_shown := i\<rparr>) = fits s" by (rule ext) (auto simp: fits_def split: option.split)
  then show ?thesis by (simp add: load_inv_def split: option.split)
qed

lemma hist_step_inv:
  assumes "load_inv s" "may_pick s e"
  shows "load_inv (hist_step coll s e)"
proof -
  have i: "list_all (\<lambda>l. ld_seq l \<le> hs_seq s) (hs_loads s)"
    "case hs_chart s of None \<Rightarrow> True | Some c \<Rightarrow> ch_seq c \<le> hs_seq s \<and> ch_asked c = Some (ch_series c, ch_range c)"
    using assms(1) by (auto simp: load_inv_def list_all_iff)
  show ?thesis
  proof (cases e)
    case (Load f t)
    then show ?thesis using load_start_inv [OF i] assms(1) by (simp add: hist_step_def)
  next
    case (PickSeries x t)
    have "load_inv (load_start True t (s\<lparr>hs_series := x\<rparr>))"
      by (rule load_start_inv) (use i assms(2) PickSeries in \<open>auto simp: may_pick_def split: option.splits\<close>)
    then show ?thesis using PickSeries by (simp add: hist_step_def)
  next
    case (PickRange r t)
    have "load_inv (load_start True t (s\<lparr>hs_range := r\<rparr>))"
      by (rule load_start_inv) (use i assms(2) PickRange in \<open>auto simp: may_pick_def split: option.splits\<close>)
    then show ?thesis using PickRange by (simp add: hist_step_def)
  next
    case (ListThere n list)
    then show ?thesis using load_list_inv assms(1) by (auto simp: hist_step_def split: option.split dest!: find_SomeD)
  next
    case (PointsThere n points)
    then show ?thesis using load_points_inv assms(1) by (auto simp: hist_step_def split: option.split dest!: find_SomeD)
  next
    case (Show i)
    then show ?thesis using assms(1) by (simp add: hist_step_def load_inv_shown)
  qed
qed

lemma newer_fields: "newer_than m s \<Longrightarrow> newer_than m (s\<lparr>hs_series := x\<rparr>)" "newer_than m s \<Longrightarrow> newer_than m (s\<lparr>hs_range := r\<rparr>)" "newer_than m s \<Longrightarrow> newer_than m (s\<lparr>hs_shown := i\<rparr>)"
  by (simp_all add: newer_than_def)

lemma hist_step_newer: "newer_than m s \<Longrightarrow> newer_than m (hist_step coll s e)"
  by (cases e) (auto simp: hist_step_def load_start_newer load_list_newer load_points_newer newer_fields split: option.split)

interpretation loads: machine "hist_step coll" "newer_than m" for coll m
  by unfold_locales (rule hist_step_newer)

lemma load_inv_run: "load_inv s \<Longrightarrow> picks_ok coll s es \<Longrightarrow> load_inv (foldl (hist_step coll) s es)"
  by (induction es arbitrary: s) (auto intro: hist_step_inv)

lemma picks_ok_append: "picks_ok coll s (es @ fs) \<longleftrightarrow> picks_ok coll s es \<and> picks_ok coll (foldl (hist_step coll) s es) fs"
  by (induction es arbitrary: s) auto

text \<open>
  A late answer never draws over a newer chart: in any run of the panel, with any number of loads under way and
  their answers in any order, a chart that is there later comes from a load at least as new, and what
  it shows is what its points were asked for: the series and the range it is drawn as.
\<close>

theorem late_chart_dropped:
  assumes "picks_ok coll (initHistState a b i) (es @ fs)"
    "hs_chart (foldl (hist_step coll) (initHistState a b i) es) = Some c" "hs_chart (foldl (hist_step coll) (initHistState a b i) (es @ fs)) = Some c'"
  shows "ch_seq c \<le> ch_seq c' \<and> ch_asked c' = Some (ch_series c', ch_range c')"
proof -
  let ?s = "foldl (hist_step coll) (initHistState a b i) es"
  have i: "load_inv (initHistState a b i)" by (simp add: load_inv_def initHistState_def)
  have "load_inv ?s" by (rule load_inv_run [OF i]) (use assms(1) in \<open>simp add: picks_ok_append\<close>)
  then have "newer_than (ch_seq c) ?s" using assms(2) by (simp add: load_inv_def newer_than_def)
  then have "newer_than (ch_seq c) (foldl (hist_step coll) ?s fs)" by (rule loads.inv_run)
  moreover have "load_inv (foldl (hist_step coll) (initHistState a b i) (es @ fs))" by (rule load_inv_run [OF i assms(1)])
  ultimately show ?thesis using assms(3) by (simp add: newer_than_def load_inv_def)
qed

text \<open>Two loads, the second for another series; the answers come in the other order.\<close>

definition demo_loads :: "hevent list" where
  "demo_loads = [Load False 0, ListThere 1 (Some [''mem'', ''cpu'']), PickSeries ''mem'' 5, ListThere 2 None, PointsThere 2 (Some JNull)]"

theorem late_chart_dropped_witness:
  "\<exists>c c'. hs_chart (foldl (hist_step id) (initHistState None None (Some ''n'')) demo_loads) = Some c \<and>
    hs_chart (foldl (hist_step id) (initHistState None None (Some ''n'')) (demo_loads @ [PointsThere 1 None])) = Some c' \<and>
    ch_seq c = 2 \<and> ch_seq c \<le> ch_seq c' \<and> ch_asked c' = Some (ch_series c', ch_range c')"
proof -
  let ?s = "foldl (hist_step id) (initHistState None None (Some ''n'')) demo_loads"
  let ?t = "foldl (hist_step id) (initHistState None None (Some ''n'')) (demo_loads @ [PointsThere 1 None])"
  have p: "picks_ok id (initHistState None None (Some ''n'')) (demo_loads @ [PointsThere 1 None])" by code_simp
  have c: "hs_chart ?s = Some (the (hs_chart ?s))" "hs_chart ?t = Some (the (hs_chart ?t))" "ch_seq (the (hs_chart ?s)) = 2" by code_simp+
  from late_chart_dropped [OF p c(1,2)] c show ?thesis by blast
qed

end
