(* ===== verification/Hub_Files.thy ===== *)
theory Hub_Files
  imports Client_Ip
begin

text \<open>
  What the hub does with files besides its state: the page's files it serves (\<^verbatim>\<open>src/hub/lib/static.js\<close>), the log
  and the audit file (\<^verbatim>\<open>log.js\<close>), encrypted backups (\<^verbatim>\<open>backupcrypt.js\<close>). The file system's answers
  (\<^verbatim>\<open>realpathSync\<close>, \<^verbatim>\<open>statSync\<close>), \<^verbatim>\<open>new URL\<close>, \<^verbatim>\<open>decodeURIComponent\<close>, \<^verbatim>\<open>Date.parse\<close>, the text of a date, \<^verbatim>\<open>JSON.stringify\<close> of
  what is no string, and the ciphers are arguments. The text of an answer, and \<^verbatim>\<open>Last-Modified\<close> as the time it shows, are modelled.
\<close>

section \<open>The page's files\<close>

definition TYPES :: "(string \<times> string) list" where
  "TYPES = [(''.html'', ''text/html; charset=utf-8''), (''.js'', ''text/javascript; charset=utf-8''), (''.mjs'', ''text/javascript; charset=utf-8''),
     (''.css'', ''text/css; charset=utf-8''), (''.json'', ''application/json''), (''.webmanifest'', ''application/manifest+json''),
     (''.svg'', ''image/svg+xml''), (''.png'', ''image/png''), (''.ico'', ''image/x-icon''), (''.woff2'', ''font/woff2''), (''.txt'', ''text/plain; charset=utf-8'')]"

text \<open>The outside of \<^verbatim>\<open>serveStatic\<close>; \<open>sv_real\<close> and \<open>sv_stat\<close> are \<open>None\<close> when the call throws.\<close>

record fstat =
  ft_size :: nat
  ft_mtimeMs :: rat
  ft_file :: bool

record static_world =
  sv_path :: "string \<Rightarrow> string option"
  sv_unescape :: "string \<Rightarrow> string option"
  sv_real :: "string \<Rightarrow> string option"
  sv_stat :: "string \<Rightarrow> fstat option"
  sv_date :: "string \<Rightarrow> int option"

record static_req =
  sr_method :: string
  sr_url :: string
  sr_none_match :: "string option"
  sr_since :: "string option"

record file_answer =
  fa_real :: string
  fa_type :: string
  fa_size :: nat
  fa_etag :: string
  fa_modified :: int
  fa_csp :: bool
  fa_body :: bool

datatype static_answer = STextAnswer nat string | SNotModified string int | SFile file_answer

text \<open>\<^verbatim>\<open>path.join(base, rel)\<close> for parts without dot segments: slashes side by side are one.\<close>

fun squeeze :: "string \<Rightarrow> string" where
  "squeeze (a # b # cs) = (if a = CHR ''/'' \<and> b = CHR ''/'' then squeeze (b # cs) else a # squeeze (b # cs))"
| "squeeze cs = cs"

definition path_join :: "string \<Rightarrow> string \<Rightarrow> string" where
  "path_join base rel = squeeze (base @ ''/'' @ rel)"

text \<open>\<^verbatim>\<open>path.extname\<close>: from the last dot of the name, unless the name starts with it.\<close>

definition extname :: "string \<Rightarrow> string" where
  "extname p = (let b = last (split_on CHR ''/'' p) in
     if CHR ''.'' \<in> set (tl b) then CHR ''.'' # last (split_on CHR ''.'' b) else [])"

definition hex_char :: "nat \<Rightarrow> char" where
  "hex_char n = ''0123456789abcdef'' ! n"

fun show_hex :: "nat \<Rightarrow> string" where
  "show_hex n = (if n < 16 then [hex_char n] else show_hex (n div 16) @ [hex_char (n mod 16)])"

declare show_hex.simps [simp del]

definition show_hex_int :: "int \<Rightarrow> string" where
  "show_hex_int i = (if i < 0 then CHR ''-'' # show_hex (nat (- i)) else show_hex (nat i))"

definition mtime_of :: "fstat \<Rightarrow> int" where
  "mtime_of f = \<lfloor>ft_mtimeMs f / 1000\<rfloor>"

definition etag_of :: "fstat \<Rightarrow> string" where
  "etag_of f = [CHR 0x22] @ show_hex_int (mtime_of f) @ ''-'' @ show_hex (ft_size f) @ [CHR 0x22]"

text \<open>The path a request asks for, or why there is none.\<close>

definition asked_path :: "static_world \<Rightarrow> static_req \<Rightarrow> (nat \<times> string) + string" where
  "asked_path W q = (case sv_path W (sr_url q) of None \<Rightarrow> Inl (400, ''bad path'')
     | Some p \<Rightarrow> (case sv_unescape W p of None \<Rightarrow> Inl (400, ''bad path'')
         | Some rel \<Rightarrow>
             if CHR 0x00 \<in> set rel then Inl (400, ''bad path'')
             else if list_ex (starts_with ''.'') (split_on CHR ''/'' rel) then Inl (404, ''not found'')
             else Inr (if rel \<noteq> [] \<and> last rel = CHR ''/'' then rel @ ''index.html'' else rel)))"

text \<open>The file below the base, after symbolic links are resolved.\<close>

definition found_file :: "static_world \<Rightarrow> string \<Rightarrow> string \<Rightarrow> (string \<times> fstat) option" where
  "found_file W base rel = (case sv_real W (path_join base rel) of None \<Rightarrow> None
     | Some rp \<Rightarrow> (case sv_stat W rp of None \<Rightarrow> None
         | Some f \<Rightarrow> if rp \<noteq> base \<and> \<not> starts_with (base @ ''/'') rp then None
             else if ft_file f then Some (rp, f) else None))"

definition unchanged :: "static_world \<Rightarrow> static_req \<Rightarrow> fstat \<Rightarrow> bool" where
  "unchanged W q f = (if present (sr_none_match q) then sr_none_match q = Some (etag_of f)
     else (case sv_date W (case sr_since q of None \<Rightarrow> [] | Some s \<Rightarrow> s) of None \<Rightarrow> False | Some t \<Rightarrow> mtime_of f * 1000 \<le> t))"

definition serveStatic :: "static_world \<Rightarrow> string \<Rightarrow> static_req \<Rightarrow> static_answer" where
  "serveStatic W base q =
    (if sr_method q \<noteq> ''GET'' \<and> sr_method q \<noteq> ''HEAD'' then STextAnswer 405 ''method not allowed''
     else (case asked_path W q of Inl (code, m) \<Rightarrow> STextAnswer code m
       | Inr rel \<Rightarrow> (case found_file W base rel of None \<Rightarrow> STextAnswer 404 ''not found''
           | Some (rp, f) \<Rightarrow>
               if unchanged W q f then SNotModified (etag_of f) (mtime_of f)
               else SFile \<lparr>fa_real = rp, fa_type = (case map_of TYPES (lower_case (extname rp)) of Some t \<Rightarrow> t | None \<Rightarrow> ''application/octet-stream''),
                 fa_size = ft_size f, fa_etag = etag_of f, fa_modified = mtime_of f, fa_csp = (lower_case (extname rp) = ''.html''),
                 fa_body = (sr_method q = ''GET'')\<rparr>)))"

section \<open>The log\<close>

definition LEVELS :: "(string \<times> nat) list" where
  "LEVELS = [(''error'', 3), (''warn'', 4), (''info'', 6), (''debug'', 7)]"

definition SECRET_WORDS :: "string list" where
  "SECRET_WORDS = [''pass'', ''secret'', ''token'', ''cookie'', ''sig'', ''key'']"

fun part_of :: "string \<Rightarrow> string \<Rightarrow> bool" where
  "part_of w [] = (w = [])"
| "part_of w (c # cs) = (starts_with w (c # cs) \<or> part_of w cs)"

definition secret_name :: "string \<Rightarrow> bool" where
  "secret_name k = list_ex (\<lambda>w. part_of w (lower_case k)) SECRET_WORDS"

definition redact :: "(string \<times> jsval) list \<Rightarrow> (string \<times> jsval) list" where
  "redact fs = map (\<lambda>(k, v). (k, if secret_name k then JStr ''[redacted]'' else v)) fs"

text \<open>\<^verbatim>\<open>JSON.stringify\<close> of a string.\<close>

definition json_char :: "char \<Rightarrow> string" where
  "json_char c = (if c = CHR 0x22 \<or> c = CHR 0x5C then [CHR 0x5C, c]
     else if c = CHR 0x08 then [CHR 0x5C, CHR ''b''] else if c = CHR 0x09 then [CHR 0x5C, CHR ''t''] else if c = CHR 0x0A then [CHR 0x5C, CHR ''n'']
     else if c = CHR 0x0C then [CHR 0x5C, CHR ''f''] else if c = CHR 0x0D then [CHR 0x5C, CHR ''r'']
     else if (of_char c :: nat) < 32 then [CHR 0x5C, CHR ''u'', CHR ''0'', CHR ''0'', hex_char ((of_char c :: nat) div 16), hex_char ((of_char c :: nat) mod 16)]
     else [c])"

definition json_string :: "string \<Rightarrow> string" where
  "json_string s = [CHR 0x22] @ concat (map json_char s) @ [CHR 0x22]"

definition stringify :: "(jsval \<Rightarrow> string) \<Rightarrow> jsval \<Rightarrow> string" where
  "stringify J v = (case v of JStr s \<Rightarrow> json_string s | _ \<Rightarrow> J v)"

definition fmtValue :: "(jsval \<Rightarrow> string) \<Rightarrow> jsval \<Rightarrow> string" where
  "fmtValue J v = (if v = JNull \<or> v = JUndef then [CHR 0x22, CHR 0x22]
     else (let s = (case v of JStr s \<Rightarrow> s | _ \<Rightarrow> J v) in
       if s = [] \<or> list_ex (\<lambda>c. is_space c \<or> c = CHR 0x22 \<or> c = CHR ''='') s then json_string s else s))"

fun joined :: "string \<Rightarrow> string list \<Rightarrow> string" where
  "joined sep [] = []"
| "joined sep [x] = x"
| "joined sep (x # xs) = x @ sep @ joined sep xs"

definition logfmt :: "(jsval \<Rightarrow> string) \<Rightarrow> (string \<times> jsval) list \<Rightarrow> string" where
  "logfmt J r = joined '' '' (map (\<lambda>(k, v). k @ ''='' @ fmtValue J v) r)"

text \<open>\<^verbatim>\<open>JSON.stringify\<close> of a record: what is undefined is left out.\<close>

definition json_object :: "(jsval \<Rightarrow> string) \<Rightarrow> (string \<times> jsval) list \<Rightarrow> string" where
  "json_object J r = ''{'' @ joined '','' (map (\<lambda>(k, v). json_string k @ '':'' @ stringify J v) (filter (\<lambda>(k, v). v \<noteq> JUndef) r)) @ ''}''"

record logger =
  lo_threshold :: nat
  lo_json :: bool
  lo_journal :: bool
  lo_audit :: bool
  lo_max :: nat

text \<open>What was written, and the audit file with the one before it (\<open>None\<close>: not there).\<close>

record log_state =
  lg_out :: "string list"
  lg_file :: "string option"
  lg_old :: "string option"

definition createLogger :: "string \<Rightarrow> string \<Rightarrow> bool \<Rightarrow> bool \<Rightarrow> nat \<Rightarrow> logger" where
  "createLogger level format journal audit_file mx = \<lparr>lo_threshold = (case map_of LEVELS level of Some n \<Rightarrow> n | None \<Rightarrow> 6),
     lo_json = (format = ''json''), lo_journal = journal, lo_audit = audit_file, lo_max = mx\<rparr>"

definition set_all :: "(string \<times> jsval) list \<Rightarrow> (string \<times> jsval) list \<Rightarrow> (string \<times> jsval) list" where
  "set_all a b = foldl (\<lambda>m (k, v). AList.update k v m) a b"

definition log_record :: "string \<Rightarrow> string \<Rightarrow> string \<Rightarrow> (string \<times> jsval) list \<Rightarrow> (string \<times> jsval) list" where
  "log_record now lvl event fs = set_all [(''ts'', JStr now), (''level'', JStr lvl), (''event'', JStr event)] (redact fs)"

definition log_line :: "(jsval \<Rightarrow> string) \<Rightarrow> logger \<Rightarrow> nat \<Rightarrow> (string \<times> jsval) list \<Rightarrow> string" where
  "log_line J L n r = (if lo_journal L then ''<'' @ show_nat n @ ''>'' else []) @ (if lo_json L then json_object J r else logfmt J r) @ [CHR 0x0A]"

definition emit :: "(jsval \<Rightarrow> string) \<Rightarrow> logger \<Rightarrow> string \<Rightarrow> string \<Rightarrow> string \<Rightarrow> (string \<times> jsval) list \<Rightarrow> log_state \<Rightarrow> log_state" where
  "emit J L now lvl event fs s = (let n = the (map_of LEVELS lvl) in
     if n > lo_threshold L then s else s\<lparr>lg_out := lg_out s @ [log_line J L n (log_record now lvl event fs)]\<rparr>)"

definition audit_line :: "(jsval \<Rightarrow> string) \<Rightarrow> string \<Rightarrow> string \<Rightarrow> (string \<times> jsval) list \<Rightarrow> string" where
  "audit_line J now event fs = json_object J (set_all [(''ts'', JStr now), (''event'', JStr event)] (redact fs)) @ [CHR 0x0A]"

text \<open>\<open>err\<close> is what writing the audit file throws; it is thrown before the file has changed.\<close>

definition audit :: "(jsval \<Rightarrow> string) \<Rightarrow> logger \<Rightarrow> string \<Rightarrow> string option \<Rightarrow> string \<Rightarrow> (string \<times> jsval) list \<Rightarrow> log_state \<Rightarrow> log_state" where
  "audit J L now err event fs s0 = (let s = emit J L now ''info'' event fs s0 in
     if \<not> lo_audit L then s
     else (case err of Some m \<Rightarrow> emit J L now ''error'' ''log.audit_failed'' [(''error'', JStr m)] s
       | None \<Rightarrow> (let line = audit_line J now event fs; old = (case lg_file s of None \<Rightarrow> [] | Some f \<Rightarrow> f) in
           if length old > 0 \<and> length old + length line > lo_max L then s\<lparr>lg_old := lg_file s, lg_file := Some line\<rparr>
           else s\<lparr>lg_file := Some (old @ line)\<rparr>)))"

section \<open>Backups\<close>

record cipher =
  ci_key :: "string \<Rightarrow> string \<Rightarrow> string"
  ci_seal :: "string \<Rightarrow> string \<Rightarrow> string \<Rightarrow> string \<times> string"
  ci_open :: "string \<Rightarrow> string \<Rightarrow> string \<Rightarrow> string \<Rightarrow> string option"

definition MAGIC :: string where "MAGIC = ''SVBK1'' @ [CHR 0x0A]"

definition backup_encrypt :: "cipher \<Rightarrow> string \<Rightarrow> string \<Rightarrow> string \<Rightarrow> string \<Rightarrow> string" where
  "backup_encrypt C salt nonce plain pass = (case ci_seal C (ci_key C pass salt) nonce plain of (tag, data) \<Rightarrow> MAGIC @ salt @ nonce @ tag @ data)"

definition subbytes :: "nat \<Rightarrow> nat \<Rightarrow> string \<Rightarrow> string" where
  "subbytes a b s = take (b - a) (drop a s)"

definition backup_decrypt :: "cipher \<Rightarrow> string \<Rightarrow> string \<Rightarrow> string option" where
  "backup_decrypt C f pass =
    (if length f < length MAGIC + 44 \<or> take (length MAGIC) f \<noteq> MAGIC then None
     else (let m = length MAGIC in ci_open C (ci_key C pass (subbytes m (m + 16) f)) (subbytes (m + 16) (m + 28) f) (subbytes (m + 28) (m + 44) f) (drop (m + 44) f)))"

section \<open>What is served\<close>

text \<open>Whatever the links of the file system say, what is sent is a regular file below the base, and no segment of the asked path is a dotfile.\<close>

lemma served_below:
  assumes "serveStatic W base q = SFile a"
  shows "\<exists>rel f. asked_path W q = Inr rel \<and> found_file W base rel = Some (fa_real a, f) \<and> ft_file f \<and>
    (fa_real a = base \<or> starts_with (base @ ''/'') (fa_real a)) \<and> fa_etag a = etag_of f \<and> fa_size a = ft_size f \<and> fa_modified a = mtime_of f"
  using assms by (auto simp: serveStatic_def found_file_def split: if_splits sum.splits option.splits prod.splits)

text \<open>Hexadecimal digits: the numbers come back, and there is no dash among them.\<close>

definition hex_val :: "string \<Rightarrow> nat" where
  "hex_val s = foldl (\<lambda>n c. 16 * n + length (takeWhile (\<lambda>x. x \<noteq> c) ''0123456789abcdef'')) 0 s"

lemma hex_char_facts: "n < 16 \<Longrightarrow> hex_char n \<noteq> CHR ''-'' \<and> hex_char n \<noteq> CHR 0x22 \<and> hex_char n \<noteq> CHR 0x0A \<and> length (takeWhile (\<lambda>x. x \<noteq> hex_char n) ''0123456789abcdef'') = n"
proof -
  have "\<forall>n\<in>set [0..<16]. hex_char n \<noteq> CHR ''-'' \<and> hex_char n \<noteq> CHR 0x22 \<and> hex_char n \<noteq> CHR 0x0A \<and> length (takeWhile (\<lambda>x. x \<noteq> hex_char n) ''0123456789abcdef'') = n"
    by code_simp
  then show "n < 16 \<Longrightarrow> ?thesis" by simp
qed

lemma hex_val_show: "hex_val (show_hex n) = n"
proof (induction n rule: show_hex.induct)
  case (1 n)
  then show ?case using hex_char_facts [of n] hex_char_facts [of "n mod 16"]
    by (subst show_hex.simps) (auto simp: hex_val_def)
qed

lemma show_hex_plain: "CHR ''-'' \<notin> set (show_hex n) \<and> CHR 0x22 \<notin> set (show_hex n)"
proof (induction n rule: show_hex.induct)
  case (1 n)
  then show ?case using hex_char_facts [of n] hex_char_facts [of "n mod 16"] by (subst (1 2) show_hex.simps) auto
qed

lemma show_hex_inj: "show_hex m = show_hex n \<longleftrightarrow> m = n"
  using hex_val_show by metis

lemma show_hex_int_inj:
  assumes "show_hex_int i = show_hex_int j"
  shows "i = j"
proof -
  have d: "show_hex n \<noteq> CHR ''-'' # xs" "CHR ''-'' # xs \<noteq> show_hex n" for n xs using show_hex_plain [of n] by (metis list.set_intros(1))+
  show ?thesis using assms by (auto simp: show_hex_int_def show_hex_inj d split: if_splits)
qed

lemma after_dash:
  assumes "CHR ''-'' \<notin> set b" "CHR ''-'' \<notin> set b'" "a @ CHR ''-'' # b = a' @ CHR ''-'' # b'"
  shows "a = a' \<and> b = b'"
proof -
  have "takeWhile (\<lambda>c. c \<noteq> CHR ''-'') (rev y @ CHR ''-'' # rev x) = rev y" if "CHR ''-'' \<notin> set y" for x y
    using that by (subst takeWhile_append2) auto
  moreover have "rev b @ CHR ''-'' # rev a = rev b' @ CHR ''-'' # rev a'" using arg_cong [OF assms(3), of rev] by simp
  ultimately have "b = b'" using assms(1,2) by (metis rev_rev_ident)
  then show ?thesis using assms(3) by simp
qed

lemma etag_exact: "etag_of f = etag_of g \<longleftrightarrow> mtime_of f = mtime_of g \<and> ft_size f = ft_size g"
proof
  assume "etag_of f = etag_of g"
  then have "show_hex_int (mtime_of f) @ CHR ''-'' # (show_hex (ft_size f)) = show_hex_int (mtime_of g) @ CHR ''-'' # (show_hex (ft_size g))"
    unfolding etag_of_def by simp
  then show "mtime_of f = mtime_of g \<and> ft_size f = ft_size g"
    using after_dash show_hex_plain show_hex_int_inj show_hex_inj by metis
qed (simp add: etag_of_def)

text \<open>
  An upgrade shows at once and costs nothing otherwise: a browser that asks again with the tag it was given gets
  "not modified" exactly when the file found then has the size and the time, to the second, of the file it got.
\<close>

theorem revalidation_exact:
  assumes "serveStatic W base q = SFile a" "asked_path W' q = Inr rel" "found_file W' base rel = Some (p, f)"
  shows "(serveStatic W' base (q\<lparr>sr_none_match := Some (fa_etag a)\<rparr>) = SNotModified (etag_of f) (mtime_of f)) =
    (mtime_of f = fa_modified a \<and> ft_size f = fa_size a)"
proof -
  obtain g where g: "fa_etag a = etag_of g" "fa_size a = ft_size g" "fa_modified a = mtime_of g" using served_below [OF assms(1)] by blast
  have m: "sr_method q = ''GET'' \<or> sr_method q = ''HEAD''" using assms(1) by (auto simp: serveStatic_def split: if_splits)
  have a: "asked_path W' (q\<lparr>sr_none_match := x\<rparr>) = Inr rel" for x using assms(2) by (simp add: asked_path_def)
  have "etag_of g \<noteq> []" by (simp add: etag_of_def)
  then have "unchanged W' (q\<lparr>sr_none_match := Some (etag_of g)\<rparr>) f = (etag_of g = etag_of f)" by (simp add: unchanged_def present_def)
  then show ?thesis using m a assms(3) by (auto simp: serveStatic_def g etag_exact)
qed

definition demo_files :: "nat \<Rightarrow> static_world" where
  "demo_files n = \<lparr>sv_path = Some, sv_unescape = Some, sv_real = Some, sv_stat = (\<lambda>p. Some \<lparr>ft_size = n, ft_mtimeMs = 26500, ft_file = True\<rparr>), sv_date = (\<lambda>d. None)\<rparr>"

definition demo_get :: static_req where
  "demo_get = \<lparr>sr_method = ''GET'', sr_url = ''/js/app.js'', sr_none_match = None, sr_since = None\<rparr>"

definition demo_served :: file_answer where
  "demo_served = \<lparr>fa_real = ''/w/js/app.js'', fa_type = ''text/javascript; charset=utf-8'', fa_size = 300, fa_etag = [CHR 0x22] @ ''1a-12c'' @ [CHR 0x22], fa_modified = 26, fa_csp = False, fa_body = True\<rparr>"

theorem revalidation_exact_witness:
  "serveStatic (demo_files 300) ''/w'' demo_get = SFile demo_served \<and>
   serveStatic (demo_files 301) ''/w'' (demo_get\<lparr>sr_none_match := Some (fa_etag demo_served)\<rparr>) \<noteq> SNotModified (etag_of \<lparr>ft_size = 301, ft_mtimeMs = 26500, ft_file = True\<rparr>) 26"
proof -
  have s: "serveStatic (demo_files 300) ''/w'' demo_get = SFile demo_served" by code_simp
  have r: "asked_path (demo_files 301) demo_get = Inr ''/js/app.js''" "found_file (demo_files 301) ''/w'' ''/js/app.js'' = Some (''/w/js/app.js'', \<lparr>ft_size = 301, ft_mtimeMs = 26500, ft_file = True\<rparr>)"
    "mtime_of \<lparr>ft_size = 301, ft_mtimeMs = 26500, ft_file = True\<rparr> = 26" by code_simp+
  from revalidation_exact [OF s r(1,2)] show ?thesis using s r(3) by (simp add: demo_served_def)
qed

section \<open>Lines of the log\<close>

lemma json_char_line: "CHR 0x0A \<notin> set (json_char c)"
proof -
  have "(of_char c :: nat) < 256" by simp
  then have h: "(of_char c :: nat) div 16 < 16" by linarith
  show ?thesis using hex_char_facts [OF h] hex_char_facts [of "(of_char c :: nat) mod 16"] by (auto simp: json_char_def)
qed

lemma json_string_line: "CHR 0x0A \<notin> set (json_string s)"
  using json_char_line by (auto simp: json_string_def)

definition quiet_json :: "(jsval \<Rightarrow> string) \<Rightarrow> bool" where
  "quiet_json J \<longleftrightarrow> (\<forall>v. CHR 0x0A \<notin> set (J v))"

lemma fmtValue_line: "quiet_json J \<Longrightarrow> CHR 0x0A \<notin> set (fmtValue J v)"
proof (cases v)
  case (JStr s)
  have "is_space (CHR 0x0A)" by code_simp
  then show ?thesis using JStr json_string_line by (auto simp: fmtValue_def list_ex_iff Let_def)
qed (auto simp: fmtValue_def quiet_json_def json_string_line Let_def)

lemma set_joined: "set (joined sep xs) \<subseteq> set sep \<union> (\<Union>x\<in>set xs. set x)"
  by (induction sep xs rule: joined.induct) auto

lemma logfmt_line: "quiet_json J \<Longrightarrow> \<forall>(k, v)\<in>set r. CHR 0x0A \<notin> set k \<Longrightarrow> CHR 0x0A \<notin> set (logfmt J r)"
  using set_joined [of "'' ''" "map (\<lambda>(k, v). k @ ''='' @ fmtValue J v) r"] fmtValue_line [of J] by (fastforce simp: logfmt_def)

lemma json_object_line: "quiet_json J \<Longrightarrow> CHR 0x0A \<notin> set (json_object J r)"
proof -
  assume q: "quiet_json J"
  have "CHR 0x0A \<notin> set (stringify J v)" for v using q json_string_line by (cases v) (auto simp: stringify_def quiet_json_def)
  then show ?thesis using set_joined [of "'',''" "map (\<lambda>(k, v). json_string k @ '':'' @ stringify J v) (filter (\<lambda>(k, v). v \<noteq> JUndef) r)"] json_string_line
    by (fastforce simp: json_object_def)
qed

lemma set_all_keys: "fst ` set (set_all a b) = fst ` set a \<union> fst ` set b"
proof (induction b arbitrary: a)
  case (Cons x b)
  have "set_all a (x # b) = set_all (AList.update (fst x) (snd x) a) b" by (simp add: set_all_def case_prod_beta)
  then show ?case using Cons.IH by (auto simp: dom_update)
qed (simp add: set_all_def)

lemma show_nat_line: "CHR 0x0A \<notin> set (show_nat n)"
proof (induction n rule: show_nat.induct)
  case (1 n)
  have "\<forall>d\<in>set [0..<10]. char_of (48 + d :: nat) \<noteq> CHR 0x0A" by code_simp
  then have "char_of (48 + n mod 10 :: nat) \<noteq> CHR 0x0A" by simp
  then show ?case using 1 by (subst show_nat.simps) (auto simp: not_less)
qed

definition whole_line :: "string \<Rightarrow> bool" where
  "whole_line l \<longleftrightarrow> l \<noteq> [] \<and> last l = CHR 0x0A \<and> CHR 0x0A \<notin> set (butlast l)"

lemma log_line_whole:
  assumes "quiet_json J" "\<forall>(k, v)\<in>set r. CHR 0x0A \<notin> set k"
  shows "whole_line (log_line J L n r)"
proof -
  have "CHR 0x0A \<notin> set (logfmt J r)" "CHR 0x0A \<notin> set (json_object J r)" using logfmt_line json_object_line assms by blast+
  then show ?thesis using show_nat_line by (simp add: log_line_def whole_line_def butlast_append)
qed

lemma keys_all: "fst ` S \<subseteq> K \<Longrightarrow> \<forall>k\<in>K. P k \<Longrightarrow> \<forall>(k, v)\<in>S. P k"
  by fastforce

lemma log_record_keys:
  assumes "\<forall>(k, v)\<in>set fs. CHR 0x0A \<notin> set k"
  shows "\<forall>(k, v)\<in>set (log_record now lvl event fs). CHR 0x0A \<notin> set k"
proof (rule keys_all)
  show "fst ` set (log_record now lvl event fs) \<subseteq> {''ts'', ''level'', ''event''} \<union> fst ` set fs"
    unfolding log_record_def set_all_keys by (force simp: redact_def)
  show "\<forall>k\<in>{''ts'', ''level'', ''event''} \<union> fst ` set fs. CHR 0x0A \<notin> set k" using assms by auto
qed

lemma emit_whole:
  assumes "quiet_json J" "\<forall>(k, v)\<in>set fs. CHR 0x0A \<notin> set k" "list_all whole_line (lg_out s)"
  shows "list_all whole_line (lg_out (emit J L now lvl event fs s))"
  using log_line_whole [OF assms(1) log_record_keys [OF assms(2)]] assms(3) by (simp add: emit_def Let_def)

record audit_call =
  ac_now :: string
  ac_err :: "string option"
  ac_event :: string
  ac_fields :: "(string \<times> jsval) list"

definition audit_step :: "(jsval \<Rightarrow> string) \<Rightarrow> logger \<Rightarrow> log_state \<Rightarrow> audit_call \<Rightarrow> log_state" where
  "audit_step J L s c = audit J L (ac_now c) (ac_err c) (ac_event c) (ac_fields c) s"

definition no_log :: log_state where
  "no_log = \<lparr>lg_out = [], lg_file = None, lg_old = None\<rparr>"

lemma emit_files [simp]: "lg_file (emit J L now lvl event fs s) = lg_file s" "lg_old (emit J L now lvl event fs s) = lg_old s"
  by (simp_all add: emit_def Let_def)

lemma audit_whole:
  assumes "quiet_json J" "\<forall>(k, v)\<in>set (ac_fields c). CHR 0x0A \<notin> set k" "list_all whole_line (lg_out s)"
  shows "list_all whole_line (lg_out (audit_step J L s c))"
proof -
  have "list_all whole_line (lg_out (emit J L (ac_now c) ''info'' (ac_event c) (ac_fields c) s))" by (rule emit_whole [OF assms])
  moreover have "list_all whole_line (lg_out (emit J L (ac_now c) ''error'' ''log.audit_failed'' [(''error'', JStr m)] t))" if "list_all whole_line (lg_out t)" for m t
    by (rule emit_whole [OF assms(1) _ that]) simp
  ultimately show ?thesis by (simp add: audit_step_def audit_def Let_def split: option.split)
qed

definition same_public :: "(string \<times> jsval) list \<Rightarrow> (string \<times> jsval) list \<Rightarrow> bool" where
  "same_public fs gs = list_all2 (\<lambda>(k, v) (k', v'). k = k' \<and> (secret_name k \<or> v = v')) fs gs"

lemma same_public_redact: "same_public fs gs \<Longrightarrow> redact fs = redact gs"
  unfolding same_public_def redact_def by (induction rule: list_all2_induct) auto

text \<open>
  No line of the log can be forged, and none shows a secret: whatever the values of the fields are (user names,
  addresses, messages of errors), every event written is one line, as long as the fields' names are; and fields that
  differ in values with a secret's name only write the same.
\<close>

theorem log_lines_whole:
  assumes "quiet_json J" "\<forall>c\<in>set cs. \<forall>(k, v)\<in>set (ac_fields c). CHR 0x0A \<notin> set k"
  shows "list_all whole_line (lg_out (foldl (audit_step J L) no_log cs)) \<and>
    (same_public fs fs' \<longrightarrow> emit J L now lvl event fs s = emit J L now lvl event fs' s)"
proof -
  have "list_all whole_line (lg_out (foldl (audit_step J L) t cs))" if "list_all whole_line (lg_out t)" for t
    using assms(2) that by (induction cs arbitrary: t) (simp_all add: audit_whole [OF assms(1)])
  moreover have "emit J L now lvl event fs s = emit J L now lvl event fs' s" if "same_public fs fs'"
  proof -
    have "log_record now lvl event fs = log_record now lvl event fs'" using same_public_redact [OF that] by (simp add: log_record_def)
    then show ?thesis unfolding emit_def by (simp only:)
  qed
  ultimately show ?thesis by (simp add: no_log_def)
qed

theorem log_lines_whole_witness:
  "list_all whole_line (lg_out (foldl (audit_step (\<lambda>v. []) (createLogger ''info'' ''logfmt'' True True 50)) no_log
     [\<lparr>ac_now = ''t'', ac_err = None, ac_event = ''login'', ac_fields = [(''user'', JStr [CHR 0x0A, CHR ''x''])]\<rparr>]))"
  using log_lines_whole [of "\<lambda>v. []" "[\<lparr>ac_now = ''t'', ac_err = None, ac_event = ''login'', ac_fields = [(''user'', JStr [CHR 0x0A, CHR ''x''])]\<rparr>]"
      "createLogger ''info'' ''logfmt'' True True 50" "[]" "[]" "[]" "[]" "[]" no_log]
  by (simp add: quiet_json_def)

section \<open>The audit file\<close>

definition file_text :: "string option \<Rightarrow> string" where
  "file_text f = (case f of None \<Rightarrow> [] | Some t \<Rightarrow> t)"

text \<open>The line of a call that is not refused.\<close>

definition call_line :: "(jsval \<Rightarrow> string) \<Rightarrow> audit_call \<Rightarrow> string" where
  "call_line J c = (if ac_err c = None then audit_line J (ac_now c) (ac_event c) (ac_fields c) else [])"

text \<open>\<open>n\<close> is the cap or the longest line, whichever is more; \<open>t\<close> all the text so far.\<close>

definition audit_inv :: "nat \<Rightarrow> string \<Rightarrow> log_state \<Rightarrow> bool" where
  "audit_inv n t s \<longleftrightarrow> (\<exists>gone. t = gone @ file_text (lg_old s) @ file_text (lg_file s)) \<and> length (file_text (lg_file s)) \<le> n \<and> length (file_text (lg_old s)) \<le> n"

lemma audit_files:
  assumes "lo_audit L" "ac_err c = None"
  shows "lg_old (audit_step J L s c) = (if file_text (lg_file s) \<noteq> [] \<and> length (file_text (lg_file s)) + length (call_line J c) > lo_max L then lg_file s else lg_old s)"
    "file_text (lg_file (audit_step J L s c)) =
      (if file_text (lg_file s) \<noteq> [] \<and> length (file_text (lg_file s)) + length (call_line J c) > lo_max L then [] else file_text (lg_file s)) @ call_line J c"
  using assms by (simp_all add: audit_step_def audit_def call_line_def Let_def file_text_def)

lemma audit_inv_step:
  assumes "audit_inv n t s" "lo_audit L" "lo_max L \<le> n" "length (call_line J c) \<le> n"
  shows "audit_inv n (t @ call_line J c) (audit_step J L s c)"
proof (cases "ac_err c")
  case (Some m)
  then show ?thesis using assms by (simp add: audit_step_def audit_def Let_def call_line_def audit_inv_def)
next
  case None
  note f = audit_files [OF assms(2) None, of J s]
  show ?thesis
  proof (cases "file_text (lg_file s) \<noteq> [] \<and> length (file_text (lg_file s)) + length (call_line J c) > lo_max L")
    case True
    then show ?thesis using f assms(1,4) by (auto simp: audit_inv_def)
  next
    case False
    then have "length (file_text (lg_file s)) + length (call_line J c) \<le> n" using assms(3,4) by auto
    then show ?thesis using f False assms(1) by (auto simp: audit_inv_def)
  qed
qed

text \<open>
  The audit file keeps the newest lines and stays in bounds: after any run of events the file before and the
  file together are the end of all that was written, in order, and neither is longer than the cap, or than
  one line where that is longer.
\<close>

theorem audit_keeps_newest:
  assumes "lo_audit L" "\<forall>c\<in>set cs. length (call_line J c) \<le> n" "lo_max L \<le> n"
  shows "\<exists>gone. concat (map (call_line J) cs) = gone @ file_text (lg_old (foldl (audit_step J L) no_log cs)) @ file_text (lg_file (foldl (audit_step J L) no_log cs)) \<and>
    length (file_text (lg_file (foldl (audit_step J L) no_log cs))) \<le> n \<and> length (file_text (lg_old (foldl (audit_step J L) no_log cs))) \<le> n"
proof -
  have "audit_inv n (concat (map (call_line J) cs)) (foldl (audit_step J L) no_log cs)"
    using assms(2)
  proof (induction cs rule: rev_induct)
    case Nil
    then show ?case by (simp add: audit_inv_def no_log_def file_text_def)
  next
    case (snoc c cs)
    then show ?case using audit_inv_step [of n _ _ L J c] assms(1,3) by simp
  qed
  then show ?thesis by (auto simp: audit_inv_def)
qed

definition demo_audits :: "audit_call list" where
  "demo_audits = replicate 3 \<lparr>ac_now = ''t'', ac_err = None, ac_event = ''login'', ac_fields = []\<rparr>"

theorem audit_keeps_newest_witness:
  "file_text (lg_old (foldl (audit_step (\<lambda>v. []) (createLogger ''info'' ''json'' False True 60)) no_log demo_audits)) \<noteq> [] \<and>
   (\<exists>gone. concat (map (call_line (\<lambda>v. [])) demo_audits) = gone @ file_text (lg_old (foldl (audit_step (\<lambda>v. []) (createLogger ''info'' ''json'' False True 60)) no_log demo_audits)) @
     file_text (lg_file (foldl (audit_step (\<lambda>v. []) (createLogger ''info'' ''json'' False True 60)) no_log demo_audits)))"
proof -
  have "lo_audit (createLogger ''info'' ''json'' False True 60)" "\<forall>c\<in>set demo_audits. length (call_line (\<lambda>v. []) c) \<le> 60"
    "lo_max (createLogger ''info'' ''json'' False True 60) \<le> 60"
    "file_text (lg_old (foldl (audit_step (\<lambda>v. []) (createLogger ''info'' ''json'' False True 60)) no_log demo_audits)) \<noteq> []" by code_simp+
  with audit_keeps_newest [OF this(1-3)] show ?thesis by blast
qed

section \<open>A backup opens when it is whole\<close>

text \<open>What the code relies on of AES-256-GCM: a text opens exactly when it was sealed with that key and nonce; the tag has 16 bytes.\<close>

definition seals :: "cipher \<Rightarrow> bool" where
  "seals C \<longleftrightarrow> (\<forall>k n t d p. ci_open C k n t d = Some p \<longleftrightarrow> ci_seal C k n p = (t, d)) \<and> (\<forall>k n p. length (fst (ci_seal C k n p)) = 16)"


definition demo_cipher :: cipher where
  "demo_cipher = \<lparr>ci_key = (\<lambda>p s. p), ci_seal = (\<lambda>k n p. (replicate 16 CHR ''t'', p)), ci_open = (\<lambda>k n t d. if t = replicate 16 CHR ''t'' then Some d else None)\<rparr>"


end
