(* ===== verification/Service_Worker.thy ===== *)
theory Service_Worker
  imports Hub_Files
begin

text \<open>
  The installable app's service worker (\<^verbatim>\<open>src/www/sw.js\<close>): what it answers from its copies when the hub cannot be
  reached, what it keeps, and what a push shows. A URL of the page's own origin is its path with the
  query. The caches are an ordered map from names to copies; an event is a step, with what the network gave. A put
  is taken to be done before the next event.
\<close>

section \<open>Requests, answers, copies\<close>

record swreq =
  sq_get :: bool
  sq_own :: bool
  sq_url :: string
  sq_nav :: bool

record swres =
  sp_status :: nat
  sp_basic :: bool
  sp_cache :: string
  sp_type :: string
  sp_body :: string

type_synonym copies = "(string \<times> swres) list"

type_synonym cache_store = "(string \<times> copies) list"

definition sw_cache :: string where "sw_cache = ''servitals-0.1.0''"

definition SW_SHELL :: "string list" where
  "SW_SHELL = [''/'', ''/app.css'', ''/boot.js'', ''/js/i18n.js'', ''/js/app.js'', ''/js/settings.js'', ''/js/history.js'', ''/js/alerts.js'', ''/manifest.webmanifest'', ''/icons/icon-192.png'']"

definition path_part :: "string \<Rightarrow> string" where
  "path_part u = takeWhile (\<lambda>c. c \<noteq> CHR ''?'') u"

text \<open>The paths that are always asked of the network.\<close>

definition live_path :: "string \<Rightarrow> bool" where
  "live_path p \<longleftrightarrow> p = ''/data.json'' \<or> p = ''/config.json'' \<or> p = ''/link'' \<or> starts_with ''/__'' p \<or> starts_with ''/api/'' p"

datatype sw_route = ShellRoute | NetworkRoute

definition sw_routes :: "swreq \<Rightarrow> sw_route" where
  "sw_routes r = (if \<not> sq_get r \<or> \<not> sq_own r then NetworkRoute else if live_path (path_part (sq_url r)) then NetworkRoute else ShellRoute)"

definition res_ok :: "swres \<Rightarrow> bool" where
  "res_ok a \<longleftrightarrow> 200 \<le> sp_status a \<and> sp_status a < 300"

definition keep :: "swreq \<Rightarrow> swres \<Rightarrow> bool" where
  "keep r a = (if \<not> res_ok a \<or> \<not> sp_basic a then False
     else if part_of ''no-store'' (sp_cache a) then False
     else sq_nav r \<or> \<not> part_of ''text/html'' (sp_type a))"

text \<open>\<^verbatim>\<open>caches.match\<close>: the caches in the order they were opened.\<close>

fun match_copy :: "cache_store \<Rightarrow> string \<Rightarrow> swres option" where
  "match_copy [] u = None"
| "match_copy ((n, cs) # rest) u = (case map_of cs u of Some a \<Rightarrow> Some a | None \<Rightarrow> match_copy rest u)"

definition lastCopy :: "swreq \<Rightarrow> cache_store \<Rightarrow> swres option" where
  "lastCopy r s = (case match_copy s (sq_url r) of Some a \<Rightarrow> Some a | None \<Rightarrow> if sq_nav r then match_copy s ''/'' else None)"

definition copies_in :: "string \<Rightarrow> cache_store \<Rightarrow> copies" where
  "copies_in n s = (case map_of s n of Some cs \<Rightarrow> cs | None \<Rightarrow> [])"

definition put_copy :: "string \<Rightarrow> swres \<Rightarrow> cache_store \<Rightarrow> cache_store" where
  "put_copy u a s = AList.update sw_cache (AList.update u a (copies_in sw_cache s)) s"

section \<open>Events\<close>

text \<open>What the network gives: an answer, an error, or nothing within the 6 s a page load waits.\<close>

datatype net_outcome = NetAnswer swres | NetFails | NetLate

datatype sw_answer = LeftToBrowser | Given swres | GivenError | StillWaiting

definition offline_answer :: "swreq \<Rightarrow> cache_store \<Rightarrow> sw_answer" where
  "offline_answer r s = (case lastCopy r s of Some a \<Rightarrow> Given a | None \<Rightarrow> GivenError)"

definition sw_fetch :: "swreq \<Rightarrow> net_outcome \<Rightarrow> cache_store \<Rightarrow> sw_answer \<times> cache_store" where
  "sw_fetch r oc s =
    (if sw_routes r \<noteq> ShellRoute then (LeftToBrowser, s)
     else (case oc of
         NetAnswer a \<Rightarrow> if sp_status a \<ge> 500 then (Given (case lastCopy r s of Some c \<Rightarrow> c | None \<Rightarrow> a), s)
           else (Given a, if keep r a then put_copy (sq_url r) a s else s)
       | NetFails \<Rightarrow> (offline_answer r s, s)
       | NetLate \<Rightarrow> (if sq_nav r then offline_answer r s else StillWaiting, s)))"

text \<open>\<^verbatim>\<open>addAll\<close>: every file of the shell, or nothing when one is not there.\<close>

definition sw_install :: "net_outcome list \<Rightarrow> cache_store \<Rightarrow> cache_store" where
  "sw_install os s = (let got = List.map_filter (\<lambda>oc. case oc of NetAnswer a \<Rightarrow> if res_ok a then Some a else None | _ \<Rightarrow> None) os in
     if length got = length SW_SHELL then fold (\<lambda>(u, a). put_copy u a) (zip SW_SHELL got) s
     else AList.update sw_cache (copies_in sw_cache s) s)"

definition sw_activate :: "cache_store \<Rightarrow> cache_store" where
  "sw_activate s = filter (\<lambda>(n, cs). \<not> (starts_with ''servitals-'' n \<and> n \<noteq> sw_cache)) s"

datatype sw_event = Install "net_outcome list" | Activate | Fetched swreq net_outcome

definition sw_step :: "cache_store \<Rightarrow> sw_event \<Rightarrow> cache_store" where
  "sw_step s e = (case e of Install os \<Rightarrow> sw_install os s | Activate \<Rightarrow> sw_activate s | Fetched r oc \<Rightarrow> snd (sw_fetch r oc s))"

section \<open>A push\<close>

record notification =
  no_title :: string
  no_body :: string
  no_tag :: string
  no_url :: string

text \<open>\<open>str\<close> is \<^verbatim>\<open>String\<close> of what is no string; a push without JSON has its text as the title.\<close>

definition push_text :: "(jsval \<Rightarrow> string) \<Rightarrow> nat \<Rightarrow> string \<Rightarrow> jsval \<Rightarrow> string" where
  "push_text str n other v = take n (if truthy v then (case v of JStr s \<Rightarrow> s | _ \<Rightarrow> str v) else other)"

definition push_url :: "jsval \<Rightarrow> string" where
  "push_url v = (case v of JStr u \<Rightarrow> if u = ''/'' \<or> (starts_with ''/#node='' u \<and> is_node_id (drop 7 u)) then u else ''/'' | _ \<Rightarrow> ''/'')"

definition sw_push :: "(jsval \<Rightarrow> string) \<Rightarrow> (string \<Rightarrow> jsval option) \<Rightarrow> string option \<Rightarrow> notification" where
  "sw_push str parse data = (let d = (case data of None \<Rightarrow> JObj [] | Some s \<Rightarrow> (case parse s of Some v \<Rightarrow> v | None \<Rightarrow> JObj [(''title'', JStr s)])) in
     \<lparr>no_title = push_text str 200 ''servitals'' (fld ''title'' d), no_body = push_text str 2000 [] (fld ''body'' d),
      no_tag = push_text str 200 ''servitals'' (fld ''tag'' d), no_url = push_url (fld ''url'' d)\<rparr>)"

record sw_window =
  wi_own :: bool
  wi_url :: string
  wi_navigates :: bool

datatype sw_click = OpenWindow string | Navigate sw_window string

text \<open>A tap: the first window of the app that is no wall screen, if it can be navigated, else a new one.\<close>

definition sw_clicked :: "sw_window list \<Rightarrow> string \<Rightarrow> sw_click" where
  "sw_clicked ws u0 = (let u = (if u0 = [] then ''/'' else u0) in
     case find (\<lambda>w. wi_own w \<and> \<not> (part_of ''?kiosk'' (wi_url w) \<or> part_of ''&kiosk'' (wi_url w))) ws of
       None \<Rightarrow> OpenWindow u
     | Some w \<Rightarrow> if wi_navigates w then Navigate w u else OpenWindow u)"

section \<open>What a copy is\<close>

text \<open>All a run may have stored: what an answer was kept for, and the files of an install.\<close>

definition stored_by :: "sw_event \<Rightarrow> copies" where
  "stored_by e = (case e of
       Install os \<Rightarrow> zip SW_SHELL (List.map_filter (\<lambda>oc. case oc of NetAnswer a \<Rightarrow> if res_ok a then Some a else None | _ \<Rightarrow> None) os)
     | Fetched r (NetAnswer a) \<Rightarrow> if sw_routes r = ShellRoute \<and> keep r a then [(sq_url r, a)] else []
     | _ \<Rightarrow> [])"

definition all_copies :: "cache_store \<Rightarrow> (string \<times> swres) set" where
  "all_copies s = (\<Union>(n, cs)\<in>set s. set cs)"

lemma match_copy_in: "match_copy s u = Some a \<Longrightarrow> (u, a) \<in> all_copies s"
  by (induction s u rule: match_copy.induct) (auto simp: all_copies_def dest: map_of_SomeD split: option.splits)

lemma set_update: "set (AList.update k v xs) \<subseteq> insert (k, v) (set xs)"
  by (induction xs) auto

lemma copies_in_all: "set (copies_in n s) \<subseteq> all_copies s"
proof (cases "map_of s n")
  case (Some cs)
  then show ?thesis using map_of_SomeD [OF Some] by (auto simp: copies_in_def all_copies_def)
qed (simp add: copies_in_def)

lemma all_copies_update: "all_copies (AList.update n cs s) \<subseteq> set cs \<union> all_copies s"
  using set_update [of n cs s] by (fastforce simp: all_copies_def)

lemma put_copy_all: "all_copies (put_copy u a s) \<subseteq> insert (u, a) (all_copies s)"
  unfolding put_copy_def using all_copies_update set_update copies_in_all by fast

lemma put_all: "all_copies (fold (\<lambda>(u, a). put_copy u a) xs s) \<subseteq> set xs \<union> all_copies s"
proof (induction xs arbitrary: s)
  case (Cons x xs)
  then show ?case using Cons.IH [of "put_copy (fst x) (snd x) s"] put_copy_all [of "fst x" "snd x" s] by (auto simp: case_prod_beta)
qed simp

lemma sw_step_all: "all_copies (sw_step s e) \<subseteq> set (stored_by e) \<union> all_copies s"
proof (cases e)
  case (Install os)
  show ?thesis
    using put_all all_copies_update [of sw_cache "copies_in sw_cache s" s] copies_in_all [of sw_cache s]
    by (auto simp: Install sw_step_def sw_install_def stored_by_def Let_def)
next
  case Activate
  then show ?thesis by (auto simp: sw_step_def sw_activate_def all_copies_def)
next
  case (Fetched r oc)
  then show ?thesis using put_copy_all
    by (cases oc) (auto simp: sw_step_def sw_fetch_def stored_by_def)
qed

lemma sw_run_all: "all_copies (foldl sw_step s es) \<subseteq> all_copies s \<union> (\<Union>e\<in>set es. set (stored_by e))"
proof (induction es arbitrary: s)
  case (Cons e es)
  then show ?case using Cons.IH [of "sw_step s e"] sw_step_all [of s e] by auto
qed simp

lemma shell_not_live: "u \<in> set SW_SHELL \<Longrightarrow> \<not> live_path (path_part u)"
proof -
  have "\<forall>u\<in>set SW_SHELL. \<not> live_path (path_part u)" by code_simp
  then show "u \<in> set SW_SHELL \<Longrightarrow> ?thesis" by blast
qed

lemma stored_not_live: "(u, a) \<in> set (stored_by e) \<Longrightarrow> \<not> live_path (path_part u)"
  by (auto simp: stored_by_def sw_routes_def split: sw_event.splits net_outcome.splits if_splits dest!: set_zip_leftD shell_not_live)

lemma lastCopy_in: "lastCopy r s = Some a \<Longrightarrow> \<exists>u. (u, a) \<in> all_copies s \<and> (u = sq_url r \<or> sq_nav r \<and> u = ''/'')"
  by (auto simp: lastCopy_def dest: match_copy_in split: option.splits if_splits)

text \<open>
  C34. Offline the app shows old files, never old data: after any run of the worker, what it answers that the network did
  not just give is a copy of the very file asked for (for a page load perhaps of the page), as the network gave it
  at an install or when it was kept; and of data, settings, the link page and every API answer there is no
  copy at all, and their requests are left to the browser.
\<close>

theorem offline_copies_right:
  assumes "s = foldl sw_step [] es"
  shows "(case fst (sw_fetch r oc s) of
       Given a \<Rightarrow> oc = NetAnswer a \<or> (\<exists>u e. (u = sq_url r \<or> sq_nav r \<and> u = ''/'') \<and> e \<in> set es \<and> (u, a) \<in> set (stored_by e))
     | _ \<Rightarrow> True) \<and>
    (live_path (path_part (sq_url r)) \<longrightarrow> sw_fetch r oc s = (LeftToBrowser, s)) \<and>
    (live_path (path_part u') \<longrightarrow> match_copy s u' = None)"
proof -
  have all: "all_copies s \<subseteq> (\<Union>e\<in>set es. set (stored_by e))" using sw_run_all [of "[]" es] by (simp add: assms all_copies_def)
  have copy: "\<exists>u e. (u = sq_url r \<or> sq_nav r \<and> u = ''/'') \<and> e \<in> set es \<and> (u, a) \<in> set (stored_by e)" if "lastCopy r s = Some a" for a
    using lastCopy_in [OF that] all by blast
  have "match_copy s u' = None" if "live_path (path_part u')"
  proof (cases "match_copy s u'")
    case (Some a)
    then show ?thesis using match_copy_in [OF Some] all stored_not_live that by blast
  qed
  moreover have "case fst (sw_fetch r oc s) of Given a \<Rightarrow> oc = NetAnswer a \<or> (\<exists>u e. (u = sq_url r \<or> sq_nav r \<and> u = ''/'') \<and> e \<in> set es \<and> (u, a) \<in> set (stored_by e)) | _ \<Rightarrow> True"
  proof (cases "fst (sw_fetch r oc s)")
    case (Given a)
    then have "oc = NetAnswer a \<or> lastCopy r s = Some a"
      by (auto simp: sw_fetch_def offline_answer_def split: if_splits net_outcome.splits option.splits)
    then show ?thesis using Given copy by auto
  qed simp_all
  ultimately show ?thesis by (simp add: sw_fetch_def sw_routes_def)
qed

definition demo_page_req :: swreq where
  "demo_page_req = \<lparr>sq_get = True, sq_own = True, sq_url = ''/?kiosk=1'', sq_nav = True\<rparr>"

definition demo_page_res :: swres where
  "demo_page_res = \<lparr>sp_status = 200, sp_basic = True, sp_cache = ''no-cache'', sp_type = ''text/html'', sp_body = ''page''\<rparr>"

theorem offline_copies_right_witness:
  "fst (sw_fetch demo_page_req NetLate (foldl sw_step [] [Fetched demo_page_req (NetAnswer demo_page_res)])) = Given demo_page_res \<and>
   match_copy (foldl sw_step [] [Fetched demo_page_req (NetAnswer demo_page_res)]) ''/data.json?t=1'' = None"
proof -
  have g: "fst (sw_fetch demo_page_req NetLate (foldl sw_step [] [Fetched demo_page_req (NetAnswer demo_page_res)])) = Given demo_page_res"
    "live_path (path_part ''/data.json?t=1'')" by code_simp+
  from offline_copies_right [OF refl, where r = demo_page_req and oc = NetLate and es = "[Fetched demo_page_req (NetAnswer demo_page_res)]" and u' = "''/data.json?t=1''"] g
  show ?thesis by blast
qed

lemma starts_split: "starts_with p u \<Longrightarrow> u = p @ drop (length p) u"
  by (metis append_take_drop_id starts_with_def)

text \<open>A push opens a page of the app only: the page itself or one server's view.\<close>

lemma push_url_own: "no_url (sw_push str parse data) = ''/'' \<or> (\<exists>i. is_node_id i \<and> no_url (sw_push str parse data) = ''/#node='' @ i)"
proof -
  have "u = ''/#node='' @ drop 7 u" if "starts_with ''/#node='' u" for u
    using starts_split [OF that] by (simp add: eval_nat_numeral)
  then show ?thesis by (auto simp: sw_push_def push_url_def Let_def split: jsval.split)
qed

end
