(* ===== verification/Push_Send.thy ===== *)
theory Push_Send
  imports Web_Push Proxy Hub_Files
begin

text \<open>
  Sending a Web Push (the rest of \<^verbatim>\<open>src/hub/lib/webpush.js\<close>): the hub's key pair and its file, the VAPID token, the
  encryption of RFC 8291 and the request to the push service. The primitives (HMAC, ECDH, AES-GCM, the signature,
  base64url) are arguments; the receiver of RFC 8291 is written out, and opens what \<^verbatim>\<open>encrypt\<close> makes.
\<close>

section \<open>Primitives\<close>

record push_crypto =
  pc_b64u :: "string \<Rightarrow> string"
  pc_unb64u :: "string \<Rightarrow> string"
  pc_hmac :: "string \<Rightarrow> string \<Rightarrow> string"
  pc_public :: "string \<Rightarrow> string"
  pc_secret :: "string \<Rightarrow> string \<Rightarrow> string"
  pc_seal :: "string \<Rightarrow> string \<Rightarrow> string \<Rightarrow> string"
  pc_open :: "string \<Rightarrow> string \<Rightarrow> string \<Rightarrow> string option"
  pc_sign :: "string \<Rightarrow> string \<Rightarrow> string"

section \<open>The hub's keys\<close>

record vapid_keys =
  vk_public :: string
  vk_private :: string

text \<open>The file: not there, not readable (with the code), or its text as JSON (\<open>None\<close> when it does not parse).\<close>

datatype vapid_file = VapidMissing | VapidError string | VapidText "jsval option"

definition newKeys :: "push_crypto \<Rightarrow> string \<Rightarrow> vapid_keys" where
  "newKeys C d = \<lparr>vk_public = pc_b64u C (pc_public C d), vk_private = pc_b64u C d\<rparr>"

definition keys_js :: "vapid_keys \<Rightarrow> jsval" where
  "keys_js k = JObj [(''publicKey'', JStr (vk_public k)), (''privateKey'', JStr (vk_private k))]"

definition read_keys :: "push_crypto \<Rightarrow> jsval option \<Rightarrow> vapid_keys option" where
  "read_keys C j = (case j of None \<Rightarrow> None
     | Some v \<Rightarrow> (case (fld ''publicKey'' v, fld ''privateKey'' v) of
         (JStr p, JStr d) \<Rightarrow> if length (pc_unb64u C p) \<noteq> 65 \<or> length (pc_unb64u C d) \<noteq> 32 then None else Some \<lparr>vk_public = p, vk_private = d\<rparr>
       | _ \<Rightarrow> None))"

text \<open>\<open>d\<close> is the private key drawn when the file is missing.\<close>

definition loadVapid :: "push_crypto \<Rightarrow> string \<Rightarrow> vapid_file \<Rightarrow> (string \<times> string + vapid_keys) \<times> vapid_file" where
  "loadVapid C d f = (case f of
       VapidError code \<Rightarrow> (Inl (''EVAPID'', ''vapid.json: '' @ code), f)
     | VapidText j \<Rightarrow> (case read_keys C j of None \<Rightarrow> (Inl (''EVAPID'', ''vapid.json: not a key pair''), f) | Some k \<Rightarrow> (Inr k, f))
     | VapidMissing \<Rightarrow> (let k = newKeys C d in (Inr k, VapidText (Some (keys_js k)))))"

section \<open>The token\<close>

definition json_int :: "jsval \<Rightarrow> string" where
  "json_int v = (case v of JNum (Fin q) \<Rightarrow> show_int \<lfloor>q\<rfloor> | _ \<Rightarrow> [])"

definition jwt_claims :: "string \<Rightarrow> ms \<Rightarrow> string \<Rightarrow> string" where
  "jwt_claims aud now subject = json_object json_int [(''aud'', JStr aud), (''exp'', JNum (Fin (of_int (now div 1000 + 12 * 3600)))), (''sub'', JStr subject)]"

definition jwt_head :: string where
  "jwt_head = json_object json_int [(''typ'', JStr ''JWT''), (''alg'', JStr ''ES256'')]"

text \<open>\<open>origin\<close> is \<^verbatim>\<open>new URL(endpoint).origin\<close>; \<open>pc_sign\<close> signs with the private key as the code makes it of the pair.\<close>

definition vapidHeader :: "push_crypto \<Rightarrow> string \<Rightarrow> string \<Rightarrow> vapid_keys \<Rightarrow> ms \<Rightarrow> string" where
  "vapidHeader C origin subject k now = (let t = pc_b64u C jwt_head @ ''.'' @ pc_b64u C (jwt_claims origin now subject) in
     ''vapid t='' @ t @ ''.'' @ pc_b64u C (pc_sign C (vk_private k) t) @ '', k='' @ vk_public k)"

section \<open>Encryption\<close>

definition MAX_PLAIN :: nat where "MAX_PLAIN = 4096 - 86 - 16 - 1"

definition zero :: string where "zero = [CHR 0x00]"
definition one :: string where "one = [CHR 0x01]"

text \<open>The key and the nonce of the record, of the shared secret, the two public keys, the browser's secret and the salt.\<close>

definition push_keys :: "push_crypto \<Rightarrow> string \<Rightarrow> string \<Rightarrow> string \<Rightarrow> string \<Rightarrow> string \<Rightarrow> string \<times> string" where
  "push_keys C authSecret secret uaPublic asPublic salt =
    (let prkKey = pc_hmac C authSecret secret;
         ikm = pc_hmac C prkKey (''WebPush: info'' @ zero @ uaPublic @ asPublic @ one);
         prk = pc_hmac C salt ikm in
     (take 16 (pc_hmac C prk (''Content-Encoding: aes128gcm'' @ zero @ one)), take 12 (pc_hmac C prk (''Content-Encoding: nonce'' @ zero @ one))))"

definition record_size :: string where
  "record_size = map char_of [0, 0, 16, 0 :: nat]"

definition push_encrypt :: "push_crypto \<Rightarrow> string \<Rightarrow> string \<Rightarrow> string \<Rightarrow> string \<Rightarrow> string \<Rightarrow> string \<times> string + string" where
  "push_encrypt C payload p256dh auth salt d =
    (let uaPublic = pc_unb64u C p256dh; authSecret = pc_unb64u C auth in
     if length payload > MAX_PLAIN then Inl (''EPUSHSIZE'', ''payload too big for one push'')
     else if length uaPublic \<noteq> 65 \<or> hd uaPublic \<noteq> CHR 0x04 then Inl (''EPUSHKEY'', ''p256dh is not a P-256 point'')
     else if length authSecret \<noteq> 16 then Inl (''EPUSHKEY'', ''auth is not 16 bytes'')
     else (let asPublic = pc_public C d in
       case push_keys C authSecret (pc_secret C d uaPublic) uaPublic asPublic salt of (cek, nonce) \<Rightarrow>
         Inr (salt @ record_size @ [char_of (length asPublic)] @ asPublic @ pc_seal C cek nonce (payload @ [CHR 0x02]))))"

section \<open>The request\<close>

definition push_request :: "push_crypto \<Rightarrow> string \<Rightarrow> string \<Rightarrow> vapid_keys \<Rightarrow> ms \<Rightarrow> nat \<Rightarrow> string \<Rightarrow> string \<Rightarrow> call_opts" where
  "push_request C origin subject k now ttl urgency body = \<lparr>co_method = ''POST'',
     co_headers = [(''content-type'', ''application/octet-stream''), (''content-encoding'', ''aes128gcm''), (''ttl'', show_nat ttl), (''urgency'', urgency),
       (''authorization'', vapidHeader C origin subject k now)],
     co_body = Some body, co_max = 1048576\<rparr>"

text \<open>The call the outbound machine makes, or the error; the status is what it answers.\<close>

definition sendPush :: "push_crypto \<Rightarrow> (string \<Rightarrow> url option) \<Rightarrow> (wire \<Rightarrow> call_error option) \<Rightarrow> outbound \<Rightarrow> string \<Rightarrow> string \<Rightarrow> string \<Rightarrow> string \<Rightarrow> string \<Rightarrow> string \<Rightarrow> string \<Rightarrow> string \<Rightarrow> vapid_keys \<Rightarrow> ms \<Rightarrow> nat \<Rightarrow> string \<Rightarrow> call_error + call" where
  "sendPush C parse refuses ob endpoint origin p256dh auth payload salt d subject k now ttl urgency =
    bindE (push_encrypt C payload p256dh auth salt d) (\<lambda>body. call_start parse refuses ob endpoint (push_request C origin subject k now ttl urgency body))"

definition push_status :: "call \<Rightarrow> (call_error + nat) option" where
  "push_status c = (case ca_result c of None \<Rightarrow> None | Some (Inl e) \<Rightarrow> Some (Inl e) | Some (Inr a) \<Rightarrow> Some (Inr (an_status a)))"

section \<open>The receiver\<close>

text \<open>RFC 8291 and 8188 at the browser, with its private key \<open>r\<close>: one record, the last.\<close>

definition push_open :: "push_crypto \<Rightarrow> string \<Rightarrow> string \<Rightarrow> string \<Rightarrow> string option" where
  "push_open C r authSecret body =
    (let salt = take 16 body; n = of_char (body ! 20); asPublic = take n (drop 21 body); data = drop (21 + n) body in
     if length body < 21 + n \<or> take 4 (drop 16 body) \<noteq> record_size \<or> length data > 4096 then None
     else (case push_keys C authSecret (pc_secret C r asPublic) (pc_public C r) asPublic salt of (cek, nonce) \<Rightarrow>
       (case pc_open C cek nonce data of None \<Rightarrow> None
        | Some t \<Rightarrow> if t \<noteq> [] \<and> last t = CHR 0x02 then Some (butlast t) else None)))"

text \<open>What the code relies on of the primitives.\<close>

definition push_laws :: "push_crypto \<Rightarrow> bool" where
  "push_laws C \<longleftrightarrow> (\<forall>a b. pc_secret C a (pc_public C b) = pc_secret C b (pc_public C a)) \<and> (\<forall>a. length (pc_public C a) = 65) \<and>
     (\<forall>k n t. pc_open C k n (pc_seal C k n t) = Some t) \<and> (\<forall>k n t. length (pc_seal C k n t) = length t + 16) \<and>
     (\<forall>s. pc_unb64u C (pc_b64u C s) = s)"


definition demo_push_crypto :: push_crypto where
  "demo_push_crypto = \<lparr>pc_b64u = id, pc_unb64u = id, pc_hmac = (\<lambda>k d. k), pc_public = (\<lambda>d. CHR 0x04 # replicate 64 CHR ''k''), pc_secret = (\<lambda>d p. []),
     pc_seal = (\<lambda>k n t. t @ replicate 16 CHR ''t''), pc_open = (\<lambda>k n c. Some (take (length c - 16) c)), pc_sign = (\<lambda>k t. [])\<rparr>"


text \<open>The keys are made once: what the first start wrote is read back by every later one, and a file that cannot be read is never replaced.\<close>

lemma vapid_keys_stay:
  assumes "push_laws C" "length d = 32" "loadVapid C d VapidMissing = (Inr k, f)"
  shows "loadVapid C d' f = (Inr k, f)"
  using assms by (auto simp: loadVapid_def newKeys_def keys_js_def read_keys_def Let_def push_laws_def)

lemma vapid_never_replaced: "f \<noteq> VapidMissing \<Longrightarrow> snd (loadVapid C d f) = f"
  by (auto simp: loadVapid_def split: vapid_file.split option.split)

end
