(* ===== verification/Startup.thy ===== *)
theory Startup
  imports Login Nodes Proxy
begin

text \<open>
  The first start of a package install (\<^verbatim>\<open>src/hub/lib/bootstrap.js\<close>), the way files are written (\<^verbatim>\<open>fsutil.js\<close>), the version
  (\<^verbatim>\<open>version.js\<close>) and the two slots of the password hashes (\<^verbatim>\<open>withSlot\<close> of \<^verbatim>\<open>password.js\<close>). A run of \<^verbatim>\<open>bootstrap\<close> is a
  process of its own: what it finds and leaves are the files. Random bytes, times and the hash are arguments.
\<close>

section \<open>Writing a file\<close>

text \<open>A file system as a map from names to contents; a write puts its bytes down piece by piece.\<close>

type_synonym disk = "(string \<times> string) list"

datatype disk_step = Unlink string | Create string | Append string string | Rename_to string string

definition disk_do :: "disk \<Rightarrow> disk_step \<Rightarrow> disk" where
  "disk_do d s = (case s of
       Unlink f \<Rightarrow> AList.delete f d
     | Create f \<Rightarrow> AList.update f [] d
     | Append f b \<Rightarrow> AList.update f ((case map_of d f of None \<Rightarrow> [] | Some c \<Rightarrow> c) @ b) d
     | Rename_to f g \<Rightarrow> (case map_of d f of None \<Rightarrow> d | Some c \<Rightarrow> AList.update g c (AList.delete f d)))"

definition tmp_name :: "string \<Rightarrow> nat \<Rightarrow> string" where
  "tmp_name f pid = f @ ''.'' @ show_nat pid @ ''.tmp''"

definition writeFileAtomic :: "string \<Rightarrow> nat \<Rightarrow> string list \<Rightarrow> disk_step list" where
  "writeFileAtomic f pid bs = (let tmp = tmp_name f pid in [Unlink tmp, Create tmp] @ map (Append tmp) bs @ [Rename_to tmp f])"

lemma tmp_name_other: "tmp_name f pid \<noteq> f"
  by (simp add: tmp_name_def)

lemma writing_tmp:
  assumes "tmp \<noteq> f"
  shows "map_of (foldl disk_do d (map (Append tmp) ps)) f = map_of d f \<and>
    (map_of d tmp = Some c \<longrightarrow> map_of (foldl disk_do d (map (Append tmp) ps)) tmp = Some (c @ concat ps))"
  using assms by (induction ps arbitrary: d c) (simp_all add: disk_do_def)

text \<open>Whenever the machine stops, a reader finds the old file or the whole new one.\<close>

lemma never_half_a_file:
  "map_of (foldl disk_do d (take n (writeFileAtomic f pid ps))) f \<in> {map_of d f, Some (concat ps)}"
proof -
  let ?tmp = "tmp_name f pid"
  define d2 where "d2 = foldl disk_do d [Unlink ?tmp, Create ?tmp]"
  have d2: "map_of d2 f = map_of d f" "map_of d2 ?tmp = Some []" using tmp_name_other [of f pid] by (simp_all add: d2_def disk_do_def)
  consider "n < 2" | k where "n = 2 + k" "k \<le> length ps" | "n > 2 + length ps"
  proof -
    assume h: "n < 2 \<Longrightarrow> thesis" "\<And>k. n = 2 + k \<Longrightarrow> k \<le> length ps \<Longrightarrow> thesis" "2 + length ps < n \<Longrightarrow> thesis"
    show thesis
    proof (cases "n < 2 \<or> 2 + length ps < n")
      case True
      then show thesis using h(1,3) by blast
    next
      case False
      then have "n = 2 + (n - 2)" "n - 2 \<le> length ps" by linarith+
      then show thesis by (rule h(2))
    qed
  qed
  then show ?thesis
  proof cases
    case 1
    then have "n = 0 \<or> n = 1" by auto
    then show ?thesis using tmp_name_other [of f pid] by (auto simp: writeFileAtomic_def disk_do_def Let_def)
  next
    case (2 k)
    have "take n (writeFileAtomic f pid ps) = [Unlink ?tmp, Create ?tmp] @ map (Append ?tmp) (take k ps)"
      using 2 by (simp add: writeFileAtomic_def Let_def take_map)
    then have "foldl disk_do d (take n (writeFileAtomic f pid ps)) = foldl disk_do d2 (map (Append ?tmp) (take k ps))" by (simp add: d2_def)
    then show ?thesis using writing_tmp [OF tmp_name_other [of f pid], of d2 "take k ps" "[]"] d2(1) by simp
  next
    case 3
    then have "take n (writeFileAtomic f pid ps) = [Unlink ?tmp, Create ?tmp] @ map (Append ?tmp) ps @ [Rename_to ?tmp f]"
      by (simp add: writeFileAtomic_def Let_def)
    then have "foldl disk_do d (take n (writeFileAtomic f pid ps)) = disk_do (foldl disk_do d2 (map (Append ?tmp) ps)) (Rename_to ?tmp f)" by (simp add: d2_def)
    moreover have "map_of (foldl disk_do d2 (map (Append ?tmp) ps)) ?tmp = Some (concat ps)"
      using writing_tmp [OF tmp_name_other [of f pid], of d2 ps "[]"] d2(2) by simp
    ultimately show ?thesis by (simp add: disk_do_def)
  qed
qed

section \<open>The version\<close>

definition is_pre :: "char \<Rightarrow> bool" where
  "is_pre c \<longleftrightarrow> is_digit c \<or> is_lower c \<or> is_upper c \<or> c = CHR ''.''"

text \<open>\<^verbatim>\<open>/^\d+\.\d+\.\d+(-[0-9A-Za-z.]+)?$/\<close>\<close>

definition is_semver :: "string \<Rightarrow> bool" where
  "is_semver v = (let core = takeWhile (\<lambda>c. c \<noteq> CHR ''-'') v; pre = drop (length core) v; ps = split_on CHR ''.'' core in
     length ps = 3 \<and> list_all (\<lambda>p. p \<noteq> [] \<and> list_all is_digit p) ps \<and> (pre = [] \<or> (tl pre \<noteq> [] \<and> list_all is_pre (tl pre))))"

definition readVersion :: "string option list \<Rightarrow> string" where
  "readVersion files = (case find is_semver (List.map_filter (map_option js_trim) files) of Some v \<Rightarrow> v | None \<Rightarrow> ''unknown'')"

section \<open>The environment file\<close>

definition env_name :: "string \<Rightarrow> bool" where
  "env_name k \<longleftrightarrow> k \<noteq> [] \<and> (is_upper (hd k) \<or> hd k = CHR ''_'') \<and> list_all (\<lambda>c. is_upper c \<or> is_digit c \<or> c = CHR ''_'') k"

text \<open>\<^verbatim>\<open>split(/\r?\n/)\<close>\<close>

definition file_lines :: "string \<Rightarrow> string list" where
  "file_lines t = (let ls = split_on CHR 0x0A t in map (\<lambda>l. if l \<noteq> [] \<and> last l = CHR 0x0D then butlast l else l) (butlast ls) @ [last ls])"

text \<open>\<^verbatim>\<open>replace(/^(['"])(.*)\1$/, "$2")\<close>\<close>

definition unquote :: "string \<Rightarrow> string" where
  "unquote v = (if length v \<ge> 2 \<and> hd v \<in> {CHR 0x22, CHR 0x27} \<and> last v = hd v then butlast (tl v) else v)"

definition env_line :: "string \<Rightarrow> (string \<times> string) option" where
  "env_line l = (let k = takeWhile (\<lambda>c. c \<noteq> CHR ''='') l; v = drop (length k + 1) l in
     if length k < length l \<and> env_name k \<and> CHR 0x0D \<notin> set v then Some (k, unquote v) else None)"

text \<open>A file that is not there has no settings; a later line wins.\<close>

definition readEnvFile :: "string option \<Rightarrow> (string \<times> string) list" where
  "readEnvFile t = (case t of None \<Rightarrow> [] | Some s \<Rightarrow> fold (\<lambda>(k, v) out. AList.update k v out) (List.map_filter env_line (file_lines s)) [])"

definition env_get :: "string \<Rightarrow> (string \<times> string) list \<Rightarrow> string" where
  "env_get k env = (case map_of env k of Some v \<Rightarrow> v | None \<Rightarrow> [])"

section \<open>The first start\<close>

definition BOOT_ALPHABET :: string where
  "BOOT_ALPHABET = ''abcdefghjkmnpqrstuvwxyz23456789''"

definition randomPassword :: "nat list \<Rightarrow> string" where
  "randomPassword bytes = map (\<lambda>b. BOOT_ALPHABET ! (b mod length BOOT_ALPHABET)) bytes"

definition localAgentEnv :: "string \<Rightarrow> string \<Rightarrow> string \<Rightarrow> string" where
  "localAgentEnv hubUrl i secret = ''HUB_URL='' @ hubUrl @ [CHR 0x0A] @ ''NODE_ID='' @ i @ [CHR 0x0A] @ ''NODE_SECRET='' @ secret @ [CHR 0x0A]"

record boot_files =
  bf_admin :: "(int \<times> jsval option) option"
  bf_nodes :: "(int \<times> ntable option) option"
  bf_password :: "string option"
  bf_agent :: "string option"

text \<open>What a run draws and is told: password bytes, salt, the node's id and secret, the time, the times of the files written.\<close>

record boot_draws =
  bd_bytes :: "nat list"
  bd_salt :: string
  bd_id :: string
  bd_secret :: string
  bd_now :: ms
  bd_adminTime :: int
  bd_nodesTime :: int
  bd_host :: string

definition fresh_nodes :: "boot_files \<Rightarrow> nstore" where
  "fresh_nodes b = \<lparr>ns_nodes = [], ns_mtime = -1, ns_unreadable = False, ns_file = bf_nodes b\<rparr>"

definition fresh_admin :: "boot_files \<Rightarrow> admin_store" where
  "fresh_admin b = \<lparr>ad_file = bf_admin b, ad_cached = None, ad_mtime = None, ad_broken = False\<rparr>"

definition boot_admin :: "lcrypto \<Rightarrow> (string \<times> string) list \<Rightarrow> boot_draws \<Rightarrow> boot_files \<Rightarrow> string + bool \<times> boot_files" where
  "boot_admin C env d b =
    (if bf_admin b = None \<and> env_get ''AUTH_PASS_HASH'' env = [] \<and> env_get ''AUTH_PASS'' env = []
     then (let pw = randomPassword (bd_bytes d); user = (if env_get ''AUTH_USER'' env = [] then ''admin'' else env_get ''AUTH_USER'' env) in
       bindE (save_admin C user (hashPassword C (bd_salt d) pw) 0 (bd_adminTime d) (fresh_admin b)) (\<lambda>a.
         Inr (True, b\<lparr>bf_admin := ad_file a, bf_password := Some (pw @ [CHR 0x0A])\<rparr>)))
     else Inr (False, b))"

definition boot_port :: "(string \<times> string) list \<Rightarrow> string" where
  "boot_port env = (if in_class is_digit 1 5 (env_get ''PORT'' env) then env_get ''PORT'' env else ''20002'')"

definition boot_node :: "(string \<times> string) list \<Rightarrow> boot_draws \<Rightarrow> boot_files \<Rightarrow> string + bool \<times> boot_files" where
  "boot_node env d b =
    (case ensureLocal (take 64 (bd_host d)) (bd_id d) (bd_secret d) (bd_now d) (bd_nodesTime d) (fresh_nodes b) of
       (Inl e, s) \<Rightarrow> Inl e
     | (Inr (i, created), s) \<Rightarrow> (case get_node i s of
           None \<Rightarrow> Inl ''Cannot read properties of null''
         | Some n \<Rightarrow> Inr (created, b\<lparr>bf_nodes := ns_file s, bf_agent := Some (localAgentEnv (''http://127.0.0.1:'' @ boot_port env) i (nd_secret n))\<rparr>)))"

definition bootstrap :: "lcrypto \<Rightarrow> string option \<Rightarrow> boot_draws \<Rightarrow> boot_files \<Rightarrow> string + string list \<times> boot_files" where
  "bootstrap C env_text d b = (let env = readEnvFile env_text in
     bindE (boot_admin C env d b) (\<lambda>(a, b1).
     bindE (boot_node env d b1) (\<lambda>(n, b2).
       Inr ((if a then [''admin''] else []) @ (if n then [''node''] else []), b2))))"

lemma find_update_local:
  assumes "find (\<lambda>(i, n). nd_local n \<and> \<not> nd_revoked n) t = None" "nd_local n" "\<not> nd_revoked n"
  shows "find (\<lambda>(i, n). nd_local n \<and> \<not> nd_revoked n) (AList.update i n t) = Some (i, n)"
  using assms by (induction t) (auto split: if_splits)

lemma boot_node_again:
  assumes "boot_node env d b = Inr (c, b1)" "bd_nodesTime d \<noteq> -1"
  shows "boot_node env d' b1 = Inr (False, b1)"
proof -
  obtain i s n where e: "ensureLocal (take 64 (bd_host d)) (bd_id d) (bd_secret d) (bd_now d) (bd_nodesTime d) (fresh_nodes b) = (Inr (i, c), s)"
    and n: "get_node i s = Some n"
    and b1: "b1 = b\<lparr>bf_nodes := ns_file s, bf_agent := Some (localAgentEnv (''http://127.0.0.1:'' @ boot_port env) i (nd_secret n))\<rparr>"
    using assms(1) by (auto simp: boot_node_def split: prod.splits sum.splits option.splits)
  have "localId (fresh_nodes b1) = Some i \<and> ns_file (load (fresh_nodes b1)) = ns_file s \<and> ns_nodes (load (fresh_nodes b1)) = ns_nodes (load s)"
  proof (cases "localId (fresh_nodes b)")
    case None
    then have s: "s = save_nodes (bd_nodesTime d) (put_node i (new_node (take 64 (bd_host d)) (bd_secret d) True (bd_now d) []) (load (fresh_nodes b)))"
      using e by (auto simp: ensureLocal_def Let_def split: if_splits)
    let ?t = "AList.update i (new_node (take 64 (bd_host d)) (bd_secret d) True (bd_now d) []) (ns_nodes (load (fresh_nodes b)))"
    have "find (\<lambda>(i, n). nd_local n \<and> \<not> nd_revoked n) (ns_nodes (load (fresh_nodes b))) = None" using None by (simp add: localId_def)
    then have "find (\<lambda>(i, n). nd_local n \<and> \<not> nd_revoked n) ?t = Some (i, new_node (take 64 (bd_host d)) (bd_secret d) True (bd_now d) [])"
      by (rule find_update_local) (simp_all add: new_node_def)
    moreover have f: "ns_file s = Some (bd_nodesTime d, Some ?t)" by (simp add: s save_nodes_def put_node_def)
    moreover have "ns_nodes (load s) = ?t" unfolding s load_save by (simp add: save_nodes_def put_node_def)
    ultimately show ?thesis using assms(2) by (simp add: b1 fresh_nodes_def localId_def load_def)
  next
    case (Some j)
    then have s: "s = load (fresh_nodes b)" "j = i" using e by (auto simp: ensureLocal_def Let_def)
    have "ns_file (load (fresh_nodes b)) = bf_nodes b" by (auto simp: load_def fresh_nodes_def split: option.splits prod.splits)
    then have "fresh_nodes b1 = fresh_nodes b" by (simp add: b1 s(1) fresh_nodes_def)
    then show ?thesis using Some s by simp
  qed
  then have l: "localId (fresh_nodes b1) = Some i" "ns_file (load (fresh_nodes b1)) = ns_file s" "get_node i (load (fresh_nodes b1)) = Some n"
    using n by (simp_all add: get_node_def)
  then have "ensureLocal (take 64 (bd_host d')) (bd_id d') (bd_secret d') (bd_now d') (bd_nodesTime d') (fresh_nodes b1) = (Inr (i, False), load (fresh_nodes b1))"
    by (simp add: ensureLocal_def Let_def)
  then show ?thesis using l by (simp add: boot_node_def b1)
qed

text \<open>
  C33. Setting up again changes nothing: after a run of the first start that succeeded, every later run with the same
  settings finds the login and the node there, says nothing was done, and leaves all files as they are: no
  password and no secret is ever replaced by an upgrade.
\<close>

theorem bootstrap_again:
  assumes "bootstrap C t d b = Inr (told, b1)" "bd_nodesTime d \<noteq> -1"
  shows "bootstrap C t d' b1 = Inr ([], b1)"
proof -
  let ?env = "readEnvFile t"
  obtain a b2 c where a: "boot_admin C ?env d b = Inr (a, b2)" and n: "boot_node ?env d b2 = Inr (c, b1)"
    using assms(1) by (auto simp: bootstrap_def Let_def)
  have adm: "bf_admin b1 = bf_admin b2" using n by (auto simp: boot_node_def split: prod.splits sum.splits option.splits)
  have "bf_admin b2 \<noteq> None \<or> env_get ''AUTH_PASS_HASH'' ?env \<noteq> [] \<or> env_get ''AUTH_PASS'' ?env \<noteq> []"
    using a by (auto simp: boot_admin_def Let_def save_admin_def split: if_splits)
  then have "boot_admin C ?env d' b1 = Inr (False, b1)" using adm by (auto simp: boot_admin_def)
  then show ?thesis using boot_node_again [OF n assms(2)] by (simp add: bootstrap_def Let_def)
qed

definition demo_boot :: boot_files where
  "demo_boot = \<lparr>bf_admin = None, bf_nodes = None, bf_password = None, bf_agent = None\<rparr>"

definition demo_draws :: boot_draws where
  "demo_draws = \<lparr>bd_bytes = replicate 20 200, bd_salt = replicate 16 CHR ''s'', bd_id = ''abcdefghijkl'', bd_secret = ''s'', bd_now = 5, bd_adminTime = 6, bd_nodesTime = 7, bd_host = ''box''\<rparr>"

definition demo_env_text :: string where
  "demo_env_text = ''AUTH_PASS='' @ [CHR 0x27] @ ''pw'' @ [CHR 0x27, CHR 0x0A] @ ''PORT=8080''"

definition demo_booted :: boot_files where
  "demo_booted = demo_boot\<lparr>bf_nodes := Some (7, Some [(''abcdefghijkl'', new_node ''box'' ''s'' True 5 [])]),
     bf_agent := Some (localAgentEnv ''http://127.0.0.1:8080'' ''abcdefghijkl'' ''s'')\<rparr>"

theorem bootstrap_again_witness:
  "bootstrap demo_lcrypto (Some demo_env_text) demo_draws demo_boot = Inr ([''node''], demo_booted) \<and>
   bootstrap demo_lcrypto (Some demo_env_text) (demo_draws\<lparr>bd_secret := ''other''\<rparr>) demo_booted = Inr ([], demo_booted)"
proof -
  have env: "readEnvFile (Some demo_env_text) = [(''AUTH_PASS'', ''pw''), (''PORT'', ''8080'')]" by code_simp
  have p: "boot_port [(''AUTH_PASS'', ''pw''), (''PORT'', ''8080'')] = ''8080''" by code_simp
  have b: "bootstrap demo_lcrypto (Some demo_env_text) demo_draws demo_boot = Inr ([''node''], demo_booted)"
    unfolding bootstrap_def env Let_def
    by (simp add: boot_admin_def env_get_def boot_node_def p ensureLocal_def fresh_nodes_def localId_def load_def get_node_def save_nodes_def put_node_def new_node_def
        demo_boot_def demo_draws_def demo_booted_def)
  have "bd_nodesTime demo_draws \<noteq> -1" by (simp add: demo_draws_def)
  from bootstrap_again [OF b this] b show ?thesis by blast
qed

section \<open>Two hashes at once\<close>

text \<open>
  \<^verbatim>\<open>withSlot\<close>. The one that is woken goes on in the microtask right behind the one that leaves, before any other event
  of the process, so leaving and taking the slot over is one step.
\<close>

definition MAX_ACTIVE :: nat where "MAX_ACTIVE = 2"

record slots =
  sl_active :: nat
  sl_waiting :: "nat list"
  sl_running :: "nat list"

datatype slot_event = Enter nat | Leave nat

definition take_slot :: "nat \<Rightarrow> slots \<Rightarrow> slots" where
  "take_slot c s = s\<lparr>sl_active := sl_active s + 1, sl_running := sl_running s @ [c]\<rparr>"

definition withSlot :: "slots \<Rightarrow> slot_event \<Rightarrow> slots" where
  "withSlot s e = (case e of
       Enter c \<Rightarrow> if sl_active s \<ge> MAX_ACTIVE then s\<lparr>sl_waiting := sl_waiting s @ [c]\<rparr> else take_slot c s
     | Leave c \<Rightarrow> if c \<notin> set (sl_running s) then s
         else (let s1 = s\<lparr>sl_active := sl_active s - 1, sl_running := remove1 c (sl_running s)\<rparr> in
           case sl_waiting s of [] \<Rightarrow> s1 | n # ns \<Rightarrow> take_slot n (s1\<lparr>sl_waiting := ns\<rparr>)))"

definition no_slots :: slots where "no_slots = \<lparr>sl_active = 0, sl_waiting = [], sl_running = []\<rparr>"

definition slots_ok :: "slots \<Rightarrow> bool" where
  "slots_ok s \<longleftrightarrow> sl_active s = length (sl_running s) \<and> sl_active s \<le> MAX_ACTIVE \<and> (sl_waiting s = [] \<or> sl_active s = MAX_ACTIVE)"

interpretation slots: machine withSlot slots_ok
proof
  fix s e
  assume "slots_ok s"
  then show "slots_ok (withSlot s e)"
    by (auto simp: slots_ok_def withSlot_def take_slot_def MAX_ACTIVE_def Let_def length_remove1 split: slot_event.split list.split)
qed

text \<open>At most two hashes run, so they need at most 64 MiB, and nobody waits while a slot is free.\<close>

lemma two_at_once: "slots_ok (foldl withSlot no_slots es)"
  by (rule slots.inv_run) (simp add: slots_ok_def no_slots_def)

end
