(* ===== verification/Page_Look.thy ===== *)
theory Page_Look
  imports Page_View Page_Config
begin

text \<open>
  How the page looks (\<^verbatim>\<open>src/www/js/app.js\<close>, appearance; \<^verbatim>\<open>src/www/boot.js\<close>): the style, the mode, the density and the kiosk
  attribute of the document. \<^verbatim>\<open>boot.js\<close> sets them before the first paint from what the browser stored, \<^verbatim>\<open>app.js\<close> once the
  settings are there. \<open>look\<close> is what both set; a browser that refuses its storage is left out. \<open>other\<close> writes a
  value that is not a string the way \<^verbatim>\<open>localStorage.setItem\<close> does.
\<close>

section \<open>The document\<close>

text \<open>The attributes of the document, the address of the style's sheet, and the words on the two keys.\<close>

record look =
  lk_style :: "string option"
  lk_sheet :: "string option"
  lk_theme :: "string option"
  lk_density :: "string option"
  lk_kiosk :: bool
  lk_style_key :: string
  lk_mode_key :: string

definition plain_look :: look where
  "plain_look = \<lparr>lk_style = None, lk_sheet = None, lk_theme = None, lk_density = None, lk_kiosk = False, lk_style_key = [], lk_mode_key = []\<rparr>"

text \<open>All but the words on the keys.\<close>

definition painted :: "look \<Rightarrow> look" where
  "painted d = d\<lparr>lk_style_key := [], lk_mode_key := []\<rparr>"

definition STYLES :: "string list" where
  "STYLES = [''classic'', ''8bit'', ''phosphor'', ''eink'', ''contrast'', ''nord'', ''gruvbox'', ''dracula'', ''catppuccin'', ''solarized'']"

definition MODES :: "string list" where
  "MODES = [''system'', ''light'', ''dark'']"

definition currentStyle :: "look \<Rightarrow> string" where
  "currentStyle d = (case lk_style d of Some (c # cs) \<Rightarrow> c # cs | _ \<Rightarrow> ''classic'')"

definition currentMode :: "look \<Rightarrow> string" where
  "currentMode d = (case lk_theme d of Some (c # cs) \<Rightarrow> c # cs | _ \<Rightarrow> ''system'')"

definition sheet :: "string \<Rightarrow> string" where
  "sheet i = ''styles/'' @ i @ ''.css''"

definition applyStyle :: "jsval \<Rightarrow> look \<Rightarrow> look" where
  "applyStyle v d =
    (let i = (case v of JStr s \<Rightarrow> if s \<in> set STYLES then s else ''classic'' | _ \<Rightarrow> ''classic'') in
     (if i = ''classic'' then d\<lparr>lk_style := None, lk_sheet := None\<rparr>
      else d\<lparr>lk_style := Some i, lk_sheet := Some (sheet i)\<rparr>)\<lparr>lk_style_key := i\<rparr>)"

definition applyMode :: "jsval \<Rightarrow> look \<Rightarrow> look" where
  "applyMode v d =
    (let d' = d\<lparr>lk_theme := (if v = JStr ''light'' then Some ''light'' else if v = JStr ''dark'' then Some ''dark'' else None)\<rparr> in
     d'\<lparr>lk_mode_key := currentMode d'\<rparr>)"

definition applyDensity :: "jsval \<Rightarrow> look \<Rightarrow> look" where
  "applyDensity v d = d\<lparr>lk_density := (if v = JStr ''compact'' then Some ''compact'' else if v = JStr ''large'' then Some ''large'' else None)\<rparr>"

section \<open>The keys of the header\<close>

definition next_of :: "string list \<Rightarrow> string \<Rightarrow> string" where
  "next_of xs x = xs ! (case position x xs of None \<Rightarrow> 0 | Some i \<Rightarrow> (i + 1) mod length xs)"

definition toggleStyle :: "look \<times> (string \<times> string) list \<Rightarrow> look \<times> (string \<times> string) list" where
  "toggleStyle = (\<lambda>(d, ls). let nxt = next_of STYLES (currentStyle d) in (applyStyle (JStr nxt) d, lsSet ''style'' nxt ls))"

definition toggleTheme :: "look \<times> (string \<times> string) list \<Rightarrow> look \<times> (string \<times> string) list" where
  "toggleTheme = (\<lambda>(d, ls). let nxt = next_of MODES (currentMode d) in (applyMode (JStr nxt) d, lsSet ''theme'' nxt ls))"

section \<open>The settings are there\<close>

definition stored :: "string option \<Rightarrow> jsval" where
  "stored v = (case v of None \<Rightarrow> JNull | Some s \<Rightarrow> JStr s)"

definition written :: "(jsval \<Rightarrow> string) \<Rightarrow> jsval \<Rightarrow> string" where
  "written other v = (case v of JStr s \<Rightarrow> s | _ \<Rightarrow> other v)"

definition remember :: "(jsval \<Rightarrow> string) \<Rightarrow> jsval \<Rightarrow> (string \<times> string) list \<Rightarrow> (string \<times> string) list" where
  "remember other cfg ls =
    lsSet ''hub.kiosk'' (if fld ''kiosk'' cfg = JBool True then ''1'' else [])
      (fold (\<lambda>k. lsSet (''hub.'' @ k) (written other (js_or (fld k cfg) (JStr [])))) [''style'', ''mode'', ''density''] ls)"

definition applyAppearanceDefaults :: "(jsval \<Rightarrow> string) \<Rightarrow> jsval \<Rightarrow> look \<times> (string \<times> string) list \<Rightarrow> look \<times> (string \<times> string) list" where
  "applyAppearanceDefaults other cfg = (\<lambda>(d, ls0).
    let (style, ls1) = lsGet ''style'' ls0;
        d1 = applyStyle (js_or (js_or (stored style) (fld ''style'' cfg)) (JStr ''classic'')) d;
        (mode, ls2) = lsGet ''theme'' ls1;
        d2 = applyMode (js_or (js_or (stored mode) (fld ''mode'' cfg)) (JStr ''system'')) d1;
        (density, ls3) = lsGet ''density'' ls2;
        d3 = applyDensity (js_or (js_or (stored density) (fld ''density'' cfg)) (JStr ''comfortable'')) d2;
        (own, ls4) = lsGet ''kiosk'' ls3 in
      (d3\<lparr>lk_kiosk := own = Some ''1'' \<or> own \<noteq> Some ''0'' \<and> fld ''kiosk'' cfg = JBool True\<rparr>, remember other cfg ls4))"

text \<open>\<^verbatim>\<open>applyVersion(v)\<close>: the version in the footer, whether the note of an update is there, and the storage.\<close>

definition applyVersion :: "jsval \<Rightarrow> (string \<times> string) list \<Rightarrow> (string option \<times> bool) \<times> (string \<times> string) list" where
  "applyVersion v ls =
    (case v of
       JStr s \<Rightarrow> if s = [] \<or> s = ''unknown'' then ((None, False), ls)
         else let (seen, ls') = lsGet ''version'' ls in
           ((Some s, (case seen of None \<Rightarrow> False | Some x \<Rightarrow> x \<noteq> [] \<and> x \<noteq> s)), lsSet ''version'' s ls')
     | _ \<Rightarrow> ((None, False), ls))"

section \<open>Before the first paint\<close>

text \<open>\<^verbatim>\<open>/[?&]kiosk(?:=([^&]*))?(?:&|$)/\<close> of the query, the first place it matches: what stands for \<^verbatim>\<open>q[1] || ""\<close>.\<close>

fun kiosk_query :: "string \<Rightarrow> string option" where
  "kiosk_query [] = None"
| "kiosk_query (c # cs) =
    (if c \<in> set ''?&'' \<and> starts_with ''kiosk'' cs
     then (case drop 5 cs of
         [] \<Rightarrow> Some []
       | d # ds \<Rightarrow> if d = CHR ''='' then Some (takeWhile (\<lambda>x. x \<noteq> CHR ''&'') ds)
           else if d = CHR ''&'' then Some [] else kiosk_query cs)
     else kiosk_query cs)"

definition kiosk_word :: "string \<Rightarrow> string" where
  "kiosk_word v = (if lower_case v \<in> set [''0'', ''false'', ''no'', ''off''] then ''0'' else ''1'')"

definition or_stored :: "string option \<Rightarrow> string option \<Rightarrow> string option" where
  "or_stored a b = (case a of Some (c # cs) \<Rightarrow> a | _ \<Rightarrow> b)"

definition style_name :: "string \<Rightarrow> bool" where
  "style_name = in_class (\<lambda>c. is_lower c \<or> is_digit c \<or> c = CHR ''-'') 1 32"

definition boot_style :: "string option \<Rightarrow> look \<Rightarrow> look" where
  "boot_style style d =
    (case style of
       Some s \<Rightarrow> if s \<noteq> [] \<and> s \<noteq> ''classic'' \<and> style_name s then d\<lparr>lk_style := Some s, lk_sheet := Some (sheet s)\<rparr> else d
     | None \<Rightarrow> d)"

definition boot :: "string \<Rightarrow> (string \<times> string) list \<Rightarrow> look \<times> (string \<times> string) list" where
  "boot search ls =
    (let get = (\<lambda>k. map_of ls (''servitals.'' @ k));
         style = or_stored (get ''style'') (get ''hub.style'');
         mode = or_stored (get ''theme'') (get ''hub.mode'');
         density = or_stored (get ''density'') (get ''hub.density'');
         (kiosk, ls') = (case kiosk_query search of
             None \<Rightarrow> (get ''kiosk'', ls)
           | Some v \<Rightarrow> (Some (kiosk_word v), AList.update ''servitals.kiosk'' (kiosk_word v) ls)) in
      (boot_style style plain_look
        \<lparr>lk_theme := if mode = Some ''light'' \<or> mode = Some ''dark'' then mode else None,
         lk_density := if density = Some ''compact'' \<or> density = Some ''large'' then density else None,
         lk_kiosk := kiosk = Some ''1'' \<or> kiosk \<noteq> Some ''0'' \<and> map_of ls' ''servitals.hub.kiosk'' = Some ''1''\<rparr>, ls'))"

section \<open>The first paint\<close>

text \<open>What \<open>lsGet\<close> answers, and what it does to the storage.\<close>

definition own :: "string \<Rightarrow> (string \<times> string) list \<Rightarrow> string option" where
  "own k ls = fst (lsGet k ls)"

lemma own_def': "own k ls = (case map_of ls (''servitals.'' @ k) of None \<Rightarrow> map_of ls (''sysdash.'' @ k) | v \<Rightarrow> v)"
  by (simp add: own_def lsGet_def split: option.splits)

lemma lsGet_own: "lsGet k ls = (own k ls, snd (lsGet k ls))"
  by (simp add: own_def)

lemma map_of_lsGet: "map_of (snd (lsGet k ls)) x =
    (if x = ''servitals.'' @ k then own k ls
     else if x = ''sysdash.'' @ k \<and> map_of ls (''servitals.'' @ k) = None then None else map_of ls x)"
  by (auto simp: own_def' lsGet_def split: option.splits)

lemma map_of_lsSet [simp]: "map_of (lsSet k v ls) x = (if x = ''servitals.'' @ k then Some v else map_of ls x)"
  by (simp add: lsSet_def)

lemma own_lsGet: "own j (snd (lsGet k ls)) = own j ls"
  by (auto simp: own_def' map_of_lsGet split: option.splits)

lemma own_remember: "j \<in> {''style'', ''theme'', ''density'', ''kiosk''} \<Longrightarrow> own j (remember other cfg ls) = own j ls"
  by (auto simp: own_def' remember_def split: option.splits)

text \<open>The storage after the settings were there: the four choices under their own names, and the defaults of the hub.\<close>

definition settled :: "(jsval \<Rightarrow> string) \<Rightarrow> jsval \<Rightarrow> (string \<times> string) list \<Rightarrow> (string \<times> string) list \<Rightarrow> bool" where
  "settled other cfg ls ls' \<longleftrightarrow>
    (\<forall>k \<in> {''style'', ''theme'', ''density'', ''kiosk''}. map_of ls' (''servitals.'' @ k) = own k ls \<and> own k ls' = own k ls) \<and>
    (\<forall>k \<in> {''style'', ''mode'', ''density''}. map_of ls' (''servitals.hub.'' @ k) = Some (written other (js_or (fld k cfg) (JStr [])))) \<and>
    map_of ls' ''servitals.hub.kiosk'' = Some (if fld ''kiosk'' cfg = JBool True then ''1'' else [])"

definition defaults_look :: "jsval \<Rightarrow> (string \<times> string) list \<Rightarrow> look \<Rightarrow> look" where
  "defaults_look cfg ls d =
    (applyDensity (js_or (js_or (stored (own ''density'' ls)) (fld ''density'' cfg)) (JStr ''comfortable''))
      (applyMode (js_or (js_or (stored (own ''theme'' ls)) (fld ''mode'' cfg)) (JStr ''system''))
        (applyStyle (js_or (js_or (stored (own ''style'' ls)) (fld ''style'' cfg)) (JStr ''classic'')) d)))
    \<lparr>lk_kiosk := own ''kiosk'' ls = Some ''1'' \<or> own ''kiosk'' ls \<noteq> Some ''0'' \<and> fld ''kiosk'' cfg = JBool True\<rparr>"

definition defaults_store :: "(jsval \<Rightarrow> string) \<Rightarrow> jsval \<Rightarrow> (string \<times> string) list \<Rightarrow> (string \<times> string) list" where
  "defaults_store other cfg ls = remember other cfg (snd (lsGet ''kiosk'' (snd (lsGet ''density'' (snd (lsGet ''theme'' (snd (lsGet ''style'' ls))))))))"

lemma defaults_parts: "applyAppearanceDefaults other cfg (d, ls) = (defaults_look cfg ls d, defaults_store other cfg ls)"
  by (simp add: applyAppearanceDefaults_def case_prod_unfold Let_def own_def [symmetric] own_lsGet defaults_look_def defaults_store_def)

lemma defaults_own: "j \<in> {''style'', ''theme'', ''density'', ''kiosk''} \<Longrightarrow> own j (defaults_store other cfg ls) = own j ls"
  unfolding defaults_store_def by (simp only: own_remember own_lsGet)

lemma defaults_settled: "settled other cfg ls (defaults_store other cfg ls)"
  unfolding settled_def by (simp add: defaults_own) (simp add: defaults_store_def remember_def map_of_lsGet own_lsGet)

text \<open>A setting that is a word, or not set.\<close>

definition worded :: "jsval \<Rightarrow> bool" where
  "worded v = (case v of JStr s \<Rightarrow> True | _ \<Rightarrow> \<not> truthy v)"

definition word_or :: "string \<Rightarrow> string option \<Rightarrow> string" where
  "word_or dflt v = (case v of Some (c # cs) \<Rightarrow> c # cs | _ \<Rightarrow> dflt)"

text \<open>The style a browser with the storage \<open>ls\<close> shows.\<close>

definition chosen_style :: "jsval \<Rightarrow> (string \<times> string) list \<Rightarrow> string" where
  "chosen_style cfg ls = word_or (word_or ''classic'' (Some (str_of (fld ''style'' cfg)))) (own ''style'' ls)"

lemma choice_word: "worded v \<Longrightarrow>
    js_or (js_or (stored own_word) v) (JStr dflt) = JStr (word_or dflt (or_stored own_word (Some (written other (js_or v (JStr []))))))"
  by (cases own_word; cases v) (auto simp: worded_def js_or_def stored_def word_or_def or_stored_def written_def split: list.splits option.splits)

lemma chosen_word: "worded (fld ''style'' cfg) \<Longrightarrow>
    chosen_style cfg ls = word_or ''classic'' (or_stored (own ''style'' ls) (Some (written other (js_or (fld ''style'' cfg) (JStr [])))))"
  by (cases "fld ''style'' cfg"; cases "own ''style'' ls")
    (auto simp: chosen_style_def worded_def js_or_def word_or_def or_stored_def written_def split: list.splits option.splits)

lemma word_or_eq: "s \<noteq> dflt \<Longrightarrow> s \<noteq> [] \<Longrightarrow> word_or dflt v = s \<longleftrightarrow> v = Some s"
  by (auto simp: word_or_def split: option.splits list.splits)

text \<open>The storage \<^verbatim>\<open>boot.js\<close> leaves.\<close>

definition boot_store :: "string \<Rightarrow> (string \<times> string) list \<Rightarrow> (string \<times> string) list" where
  "boot_store search ls = (case kiosk_query search of None \<Rightarrow> ls | Some v \<Rightarrow> AList.update ''servitals.kiosk'' (kiosk_word v) ls)"

lemma own_boot: "own j (boot_store search ls) =
    (case kiosk_query search of Some v \<Rightarrow> if j = ''kiosk'' then Some (kiosk_word v) else own j ls | None \<Rightarrow> own j ls)"
  by (auto simp: boot_store_def own_def' split: option.splits)

lemma own_kiosk_set: "own ''kiosk'' (AList.update ''servitals.kiosk'' w ls) = Some w"
  by (simp add: own_def')

lemma boot_parts:
  assumes "settled other cfg ls ls1"
  defines "pick \<equiv> \<lambda>k h. or_stored (own k ls) (Some (written other (js_or (fld h cfg) (JStr []))))"
  shows "boot search ls1 =
    (boot_style (pick ''style'' ''style'') plain_look
       \<lparr>lk_theme := (let m = pick ''theme'' ''mode'' in if m = Some ''light'' \<or> m = Some ''dark'' then m else None),
        lk_density := (let n = pick ''density'' ''density'' in if n = Some ''compact'' \<or> n = Some ''large'' then n else None),
        lk_kiosk := (let k = own ''kiosk'' (boot_store search ls1) in k = Some ''1'' \<or> k \<noteq> Some ''0'' \<and> fld ''kiosk'' cfg = JBool True)\<rparr>,
     boot_store search ls1)"
  using assms(1) unfolding boot_def pick_def settled_def Let_def boot_store_def
  by (cases "kiosk_query search") (simp_all add: own_kiosk_set)

lemma theme_painted: "lk_theme (applyMode (JStr (word_or ''system'' v)) d) = (if v = Some ''light'' \<or> v = Some ''dark'' then v else None)"
  by (simp add: applyMode_def Let_def word_or_eq)

lemma density_painted: "lk_density (applyDensity (JStr (word_or ''comfortable'' v)) d) = (if v = Some ''compact'' \<or> v = Some ''large'' then v else None)"
  by (simp add: applyDensity_def word_or_eq)

lemma style_painted:
  "(lk_style (boot_style v plain_look), lk_sheet (boot_style v plain_look)) =
   (lk_style (applyStyle (JStr (word_or ''classic'' v)) d), lk_sheet (applyStyle (JStr (word_or ''classic'' v)) d)) \<longleftrightarrow>
   word_or ''classic'' v \<in> set STYLES \<or> \<not> style_name (word_or ''classic'' v)"
proof (cases v)
  case (Some s)
  have "s \<in> set STYLES \<Longrightarrow> s \<noteq> [] \<and> style_name s" by (auto simp: STYLES_def style_name_def in_class_def is_lower_def is_digit_def)
  moreover have "''classic'' \<in> set STYLES" by (simp add: STYLES_def)
  ultimately show ?thesis using Some
    by (cases s) (auto simp: boot_style_def applyStyle_def word_or_def plain_look_def Let_def)
qed (simp add: boot_style_def applyStyle_def word_or_def plain_look_def STYLES_def)

lemma style_frame [simp]: "lk_style (applyMode m d) = lk_style d" "lk_style (applyDensity n d) = lk_style d"
  "lk_sheet (applyMode m d) = lk_sheet d" "lk_sheet (applyDensity n d) = lk_sheet d" "lk_theme (applyDensity n d) = lk_theme d"
  by (simp_all add: applyMode_def applyDensity_def Let_def)

lemma painted_eq: "painted a = painted b \<longleftrightarrow>
    (lk_style a, lk_sheet a) = (lk_style b, lk_sheet b) \<and> lk_theme a = lk_theme b \<and> lk_density a = lk_density b \<and> lk_kiosk a = lk_kiosk b"
  by (cases a; cases b) (auto simp: painted_def)

definition other_than_style :: "look \<Rightarrow> string option \<times> string option \<times> bool" where
  "other_than_style d = (lk_theme d, lk_density d, lk_kiosk d)"

lemma boot_then_defaults:
  fixes search :: string
  assumes words: "worded (fld ''style'' cfg)" "worded (fld ''mode'' cfg)" "worded (fld ''density'' cfg)"
    and ls1: "settled other cfg ls ls1"
  defines "b \<equiv> boot search ls1"
  shows "other_than_style (fst b) = other_than_style (defaults_look cfg (snd b) (fst b))"
    and "painted (fst b) = painted (defaults_look cfg (snd b) (fst b)) \<longleftrightarrow> chosen_style cfg ls \<in> set STYLES \<or> \<not> style_name (chosen_style cfg ls)"
proof -
  note parts = boot_parts [OF ls1, of search]
  have own: "own k (boot_store search ls1) = own k ls" if "k \<in> {''style'', ''theme'', ''density''}" for k
    using that ls1 by (auto simp: own_boot settled_def split: option.splits)
  note look = defaults_look_def choice_word [OF words(1), where other = other] choice_word [OF words(2), where other = other]
    choice_word [OF words(3), where other = other]
  show rest: "other_than_style (fst b) = other_than_style (defaults_look cfg (snd b) (fst b))"
    by (simp add: b_def parts look own other_than_style_def density_painted theme_painted Let_def)
  have "(lk_style (fst b), lk_sheet (fst b)) = (lk_style (defaults_look cfg (snd b) (fst b)), lk_sheet (defaults_look cfg (snd b) (fst b))) \<longleftrightarrow>
      chosen_style cfg ls \<in> set STYLES \<or> \<not> style_name (chosen_style cfg ls)"
    using style_painted [of "or_stored (own ''style'' ls) (Some (written other (js_or (fld ''style'' cfg) (JStr []))))" "fst b"]
    by (simp add: b_def parts look own chosen_word [OF words(1), where other = other])
  then show "painted (fst b) = painted (defaults_look cfg (snd b) (fst b)) \<longleftrightarrow> chosen_style cfg ls \<in> set STYLES \<or> \<not> style_name (chosen_style cfg ls)"
    using rest by (auto simp: painted_eq other_than_style_def)
qed

text \<open>A name \<^verbatim>\<open>boot.js\<close> takes for a style and \<^verbatim>\<open>app.js\<close> does not.\<close>

definition repainted :: "string \<Rightarrow> bool" where
  "repainted s \<longleftrightarrow> s \<notin> set STYLES \<and> style_name s"


definition nord_cfg :: jsval where
  "nord_cfg = JObj [(''style'', JStr ''nord''), (''mode'', JStr ''dark''), (''kiosk'', JBool True)]"


end
