(* ===== verification/Page_Text.thy ===== *)
theory Page_Text
  imports Page_Look
begin

text \<open>
  The text and the markup of the page (\<^verbatim>\<open>src/www/js/app.js\<close>): numbers, sizes, rates and times as text, and how a template
  string becomes markup. A browser reads markup with \<open>scan\<close>; a piece is \<open>safe\<close> when the tags it opens are the page's own,
  with only the values of attributes left to fill in. Signs beyond Latin-1 are written as their bytes; the line breaks
  and spaces between the tags of a template are left out.
\<close>

section \<open>What the page is drawn with\<close>

text \<open>
  \<open>e_num\<close> is \<^verbatim>\<open>Number(v)\<close> of a string, a list or an object; \<open>e_frac\<close> writes a number that is not an integer;
  \<open>e_strings\<close> is the dictionary; \<open>e_cfg\<close> are the page's settings.
\<close>

record page_env =
  e_num :: "jsval \<Rightarrow> jnum"
  e_frac :: "rat \<Rightarrow> string"
  e_strings :: "(string \<times> string) list"
  e_cfg :: "(string \<times> jsval) list"

definition number_of :: "page_env \<Rightarrow> jsval \<Rightarrow> jnum" where
  "number_of E v = (case v of
       JUndef \<Rightarrow> NaN | JNull \<Rightarrow> Fin 0 | JBool b \<Rightarrow> Fin (if b then 1 else 0) | JNum n \<Rightarrow> n | _ \<Rightarrow> e_num E v)"

definition num_text :: "page_env \<Rightarrow> jnum \<Rightarrow> string" where
  "num_text E n = (case n of
       Fin q \<Rightarrow> if q = of_int \<lfloor>q\<rfloor> then show_int \<lfloor>q\<rfloor> else e_frac E q
     | PosInf \<Rightarrow> ''Infinity'' | NegInf \<Rightarrow> ''-Infinity'' | NaN \<Rightarrow> ''NaN'')"

text \<open>A value in a template string.\<close>

fun js_text :: "page_env \<Rightarrow> jsval \<Rightarrow> string" where
  "js_text E JUndef = ''undefined''"
| "js_text E JNull = ''null''"
| "js_text E (JBool b) = (if b then ''true'' else ''false'')"
| "js_text E (JNum n) = num_text E n"
| "js_text E (JStr s) = s"
| "js_text E (JArr xs) = Channels.join_with '','' (map (\<lambda>x. if x = JUndef \<or> x = JNull then [] else js_text E x) xs)"
| "js_text E (JObj m) = ''[object Object]''"

text \<open>\<^verbatim>\<open>tr(key, vars)\<close> of \<^verbatim>\<open>js/i18n.js\<close>\<close>

definition page_tr :: "page_env \<Rightarrow> string \<Rightarrow> (string \<times> jsval) list \<Rightarrow> string" where
  "page_tr E key vars = fill (map (\<lambda>(k, v). (k, js_text E v)) vars) (case map_of (e_strings E) key of Some s \<Rightarrow> s | None \<Rightarrow> key)"

definition absent :: "jsval \<Rightarrow> bool" where
  "absent v \<longleftrightarrow> v = JUndef \<or> v = JNull"

section \<open>Numbers\<close>

fun padded :: "nat \<Rightarrow> nat \<Rightarrow> string" where
  "padded 0 n = []"
| "padded (Suc k) n = padded k (n div 10) @ [char_of (48 + n mod 10)]"

definition toFixed :: "nat \<Rightarrow> rat \<Rightarrow> string" where
  "toFixed k q = (let n = nat \<lfloor>\<bar>q\<bar> * 10 ^ k + 1 / 2\<rfloor> in
     (if q < 0 then ''-'' else []) @ show_nat (n div 10 ^ k) @ (if k = 0 then [] else ''.'' @ padded k (n mod 10 ^ k)))"

text \<open>\<^verbatim>\<open>v.toFixed(k)\<close> and \<^verbatim>\<open>Math.round(v)\<close> as text\<close>

definition fixed_text :: "nat \<Rightarrow> jnum \<Rightarrow> string" where
  "fixed_text k n = (case n of Fin q \<Rightarrow> toFixed k q | PosInf \<Rightarrow> ''Infinity'' | NegInf \<Rightarrow> ''-Infinity'' | NaN \<Rightarrow> ''NaN'')"

definition round_text :: "jnum \<Rightarrow> string" where
  "round_text n = (case n of Fin q \<Rightarrow> show_int (js_round q) | PosInf \<Rightarrow> ''Infinity'' | NegInf \<Rightarrow> ''-Infinity'' | NaN \<Rightarrow> ''NaN'')"

definition at_least :: "jnum \<Rightarrow> rat \<Rightarrow> bool" where
  "at_least n b = (case n of Fin q \<Rightarrow> b \<le> q | PosInf \<Rightarrow> True | _ \<Rightarrow> False)"

definition clamp :: "jnum \<Rightarrow> rat \<Rightarrow> rat \<Rightarrow> jnum" where
  "clamp n a b = (case n of Fin q \<Rightarrow> Fin (max a (min b q)) | PosInf \<Rightarrow> Fin (max a b) | NegInf \<Rightarrow> Fin a | NaN \<Rightarrow> NaN)"

definition tempPct :: "jnum \<Rightarrow> jnum" where
  "tempPct t = clamp (case t of Fin q \<Rightarrow> Fin ((q - 30) / 65 * 100) | n \<Rightarrow> n) 0 100"

text \<open>\<^verbatim>\<open>Number(n) || 0\<close>\<close>

definition or_nought :: "page_env \<Rightarrow> jsval \<Rightarrow> jnum" where
  "or_nought E v = (case number_of E v of NaN \<Rightarrow> Fin 0 | n \<Rightarrow> n)"

definition unit_of :: "page_env \<Rightarrow> string \<Rightarrow> string" where
  "unit_of E k = (case map_of (units (e_cfg E)) k of Some u \<Rightarrow> u | None \<Rightarrow> [])"

definition DASH :: string where "DASH = [CHR 0xE2, CHR 0x80, CHR 0x93]"
definition DEGREE :: string where "DEGREE = [CHR 0xB0]"
definition MIDDOT :: string where "MIDDOT = [CHR 0xB7]"

definition tempUnit :: "page_env \<Rightarrow> string" where
  "tempUnit E = (if unit_of E ''temp'' = ''f'' then DEGREE @ ''F'' else DEGREE @ ''C'')"

definition fmtTemp :: "page_env \<Rightarrow> jsval \<Rightarrow> bool \<Rightarrow> string" where
  "fmtTemp E c withUnit =
    (if absent c then DASH else (case number_of E c of
       Fin q \<Rightarrow> show_int (js_round (if unit_of E ''temp'' = ''f'' then q * 9 / 5 + 32 else q)) @
         (if withUnit then tempUnit E else take 1 (tempUnit E))
     | _ \<Rightarrow> DASH))"

text \<open>The loop that divides by the base while there is a larger unit: the number, the steps and the unit.\<close>

fun scaled :: "rat \<Rightarrow> nat \<Rightarrow> rat \<Rightarrow> string list \<Rightarrow> rat \<times> nat \<times> string" where
  "scaled base i n [] = (n, i, [])"
| "scaled base i n [u] = (n, i, u)"
| "scaled base i n (u # w # us) = (if base \<le> n then scaled base (Suc i) (n / base) (w # us) else (n, i, u))"

definition short_number :: "rat \<times> nat \<times> string \<Rightarrow> string" where
  "short_number = (\<lambda>(n, i, u). (if n < 10 \<and> 0 < i then toFixed 1 n else show_int (js_round n)) @ u)"

definition sized :: "rat \<Rightarrow> string list \<Rightarrow> jnum \<Rightarrow> string" where
  "sized base us n = (case n of
       Fin q \<Rightarrow> short_number (scaled base 0 q us)
     | PosInf \<Rightarrow> ''Infinity'' @ last us | NegInf \<Rightarrow> ''-Infinity'' @ hd us | NaN \<Rightarrow> ''NaN'' @ hd us)"

definition fmtBytes :: "page_env \<Rightarrow> jsval \<Rightarrow> string" where
  "fmtBytes E v = sized (if unit_of E ''size'' = ''decimal'' then 1000 else 1024) [''B'', ''K'', ''M'', ''G'', ''T'', ''P''] (or_nought E v)"

definition eight_times :: "jnum \<Rightarrow> jnum" where
  "eight_times n = (case n of Fin q \<Rightarrow> Fin (q * 8) | _ \<Rightarrow> n)"

definition fmtRate :: "page_env \<Rightarrow> jsval \<Rightarrow> bool \<Rightarrow> string" where
  "fmtRate E v inBytes =
    (let bits = \<not> inBytes \<and> unit_of E ''rate'' = ''bits''; n = or_nought E v in
     sized (if bits \<or> unit_of E ''size'' = ''decimal'' then 1000 else 1024)
       (if bits then ['' bit/s'', '' kbit/s'', '' Mbit/s'', '' Gbit/s''] else ['' B/s'', '' KB/s'', '' MB/s'', '' GB/s''])
       (if bits then eight_times n else n))"

text \<open>\<^verbatim>\<open>a % b\<close>: the remainder has the sign of \<open>a\<close>.\<close>

definition js_rem :: "rat \<Rightarrow> rat \<Rightarrow> rat" where
  "js_rem a b = (if a < 0 then a - b * of_int \<lceil>a / b\<rceil> else a - b * of_int \<lfloor>a / b\<rfloor>)"

definition fmtDur :: "page_env \<Rightarrow> jsval \<Rightarrow> string" where
  "fmtDur E v = (case or_nought E v of
       Fin s \<Rightarrow> (let d = \<lfloor>s / 86400\<rfloor>; h = \<lfloor>js_rem s 86400 / 3600\<rfloor>; m = \<lfloor>js_rem s 3600 / 60\<rfloor> in
         (if d \<noteq> 0 then show_int d @ ''d '' else []) @ (if h \<noteq> 0 \<or> d \<noteq> 0 then show_int h @ ''h '' else []) @ show_int m @ ''m'')
     | PosInf \<Rightarrow> ''Infinityd NaNh NaNm'' | _ \<Rightarrow> ''-Infinityd NaNh NaNm'')"

definition fmtShare :: "page_env \<Rightarrow> jsval \<Rightarrow> string" where
  "fmtShare E v =
    (if absent v then DASH else (case number_of E v of
       Fin q \<Rightarrow> (if q < 10 \<and> q \<noteq> of_int \<lfloor>q\<rfloor> then toFixed 1 q else show_int (js_round q)) @ ''%''
     | _ \<Rightarrow> DASH))"

definition fmtVal :: "page_env \<Rightarrow> jsval \<Rightarrow> string \<Rightarrow> string" where
  "fmtVal E v u = (if absent v then DASH else round_text (number_of E v) @ u)"

datatype level = LOk | LWarn | LCrit

definition health :: "jnum \<Rightarrow> rat \<Rightarrow> rat \<Rightarrow> level" where
  "health v warn crit = (if at_least v crit then LCrit else if at_least v warn then LWarn else LOk)"

definition HCLS :: "level \<Rightarrow> string" where
  "HCLS l = (case l of LOk \<Rightarrow> ''c-green'' | LWarn \<Rightarrow> ''c-amber'' | LCrit \<Rightarrow> ''c-red'')"

definition HL :: "level \<Rightarrow> string" where
  "HL l = (case l of LOk \<Rightarrow> [] | LWarn \<Rightarrow> ''hl-amber'' | LCrit \<Rightarrow> ''hl-red'')"

section \<open>Markup\<close>

definition esc_char :: "char \<Rightarrow> string" where
  "esc_char c = (if c = CHR ''&'' then ''&amp;'' else if c = CHR ''<'' then ''&lt;'' else if c = CHR ''>'' then ''&gt;''
     else if c = CHR 0x22 then ''&quot;'' else if c = CHR 0x27 then ''&#39;'' else [c])"

definition esc :: "string \<Rightarrow> string" where
  "esc s = concat (map esc_char s)"

text \<open>The start tag of a template, its element, and a tag that closes itself.\<close>

definition attrs :: "(string \<times> string) list \<Rightarrow> string" where
  "attrs as = concat (map (\<lambda>(k, v). '' '' @ k @ [CHR ''='', CHR 0x22] @ v @ [CHR 0x22]) as)"

definition tag :: "string \<Rightarrow> (string \<times> string) list \<Rightarrow> string" where
  "tag n as = ''<'' @ n @ attrs as @ ''>''"

definition el :: "string \<Rightarrow> (string \<times> string) list \<Rightarrow> string \<Rightarrow> string" where
  "el n as body = tag n as @ body @ ''</'' @ n @ ''>''"

definition leaf :: "string \<Rightarrow> (string \<times> string) list \<Rightarrow> string" where
  "leaf n as = ''<'' @ n @ attrs as @ ''/>''"

text \<open>The tags of the forms also have attributes without a value (\<^verbatim>\<open>checked\<close>).\<close>

definition marks :: "(string \<times> string option) list \<Rightarrow> string" where
  "marks ms = concat (map (\<lambda>(k, v). case v of Some w \<Rightarrow> attrs [(k, w)] | None \<Rightarrow> '' '' @ k) ms)"

definition form_tag :: "string \<Rightarrow> (string \<times> string option) list \<Rightarrow> string" where
  "form_tag n ms = ''<'' @ n @ marks ms @ ''>''"

definition form_el :: "string \<Rightarrow> (string \<times> string option) list \<Rightarrow> string \<Rightarrow> string" where
  "form_el n ms body = form_tag n ms @ body @ ''</'' @ n @ ''>''"

definition flag :: "bool \<Rightarrow> string \<Rightarrow> (string \<times> string option) list" where
  "flag b k = (if b then [(k, None)] else [])"

section \<open>What a browser reads\<close>

text \<open>
  The markup read from left to right: the tags with the values of their attributes left out. Every \<^verbatim>\<open><\<close> of the text counts
  as the start of a tag, so a browser finds no tag more than \<open>scan\<close> does.
\<close>

datatype hmode = InText | InTag string | InValue string

fun scan :: "hmode \<Rightarrow> string \<Rightarrow> string list \<times> hmode" where
  "scan m [] = ([], m)"
| "scan InText (c # cs) = (if c = CHR ''<'' then scan (InTag [c]) cs else scan InText cs)"
| "scan (InTag t) (c # cs) =
    (if c = CHR 0x22 then scan (InValue (t @ [c])) cs
     else if c = CHR ''>'' then (case scan InText cs of (ts, m) \<Rightarrow> ((t @ [c]) # ts, m))
     else scan (InTag (t @ [c])) cs)"
| "scan (InValue t) (c # cs) = (if c = CHR 0x22 then scan (InTag (t @ [c])) cs else scan (InValue t) cs)"

text \<open>A tag as \<open>scan\<close> reports it.\<close>

definition blank :: "string \<times> string list \<Rightarrow> string" where
  "blank = (\<lambda>(n, ks). tag n (map (\<lambda>k. (k, [])) ks))"

definition blank_leaf :: "string \<times> string list \<Rightarrow> string" where
  "blank_leaf = (\<lambda>(n, ks). leaf n (map (\<lambda>k. (k, [])) ks))"

text \<open>The tags of the page's templates: with their attributes, ending an element, closing themselves.\<close>

definition TAGS :: "(string \<times> string list) list" where
  "TAGS =
   [(''span'', []), (''span'', [''class'']), (''span'', [''class'', ''title'']), (''span'', [''class'', ''data-h'']),
    (''span'', [''class'', ''data-t'', ''data-rx'', ''data-tx'']),
    (''div'', []), (''div'', [''class'']), (''div'', [''class'', ''title'']), (''div'', [''class'', ''data-node'']),
    (''div'', [''class'', ''data-state'']), (''div'', [''class'', ''data-name'', ''title'']),
    (''i'', []), (''i'', [''data-w'']), (''i'', [''data-h'']), (''b'', []), (''small'', []), (''section'', []), (''label'', []),
    (''tr'', []), (''td'', []), (''td'', [''class'']),
    (''button'', [''class'', ''data-a'']), (''button'', [''data-go'', ''class'']), (''button'', [''data-mute'', ''data-id'']),
    (''button'', [''data-unmute'', ''data-id'']), (''a'', [''class'', ''href'', ''target'', ''rel'']),
    (''svg'', [''viewBox'', ''preserveAspectRatio'']), (''defs'', []),
    (''linearGradient'', [''id'', ''x1'', ''y1'', ''x2'', ''y2'', ''gradientUnits''])]"

definition LEAVES :: "(string \<times> string list) list" where
  "LEAVES = [(''stop'', [''offset'', ''class'']), (''polyline'', [''points'', ''fill'', ''stroke'', ''stroke-width'', ''stroke-linejoin'', ''stroke-linecap'', ''vector-effect''])]"

text \<open>The tags of the forms: their attributes, and whether each has a value.\<close>

definition valued :: "string list \<Rightarrow> (string \<times> bool) list" where
  "valued ks = map (\<lambda>k. (k, True)) ks"

definition with_flag :: "string \<Rightarrow> string \<times> string list \<Rightarrow> (string \<times> (string \<times> bool) list) list" where
  "with_flag k t = [(fst t, valued (snd t)), (fst t, valued (snd t) @ [(k, False)])]"

definition PLAIN_FORM_TAGS :: "(string \<times> string list) list" where
  "PLAIN_FORM_TAGS =
   [(''p'', [''class'']), (''label'', []), (''label'', [''class'']), (''div'', [''class'', ''data-i'']), (''div'', [''class'', ''data-o'']),
    (''div'', [''data-i'']), (''div'', [''class'', ''data-id'', ''data-managed'']), (''div'', [''class'', ''draggable'', ''data-p'']),
    (''span'', [''class'', ''data-wxrm'']), (''span'', [''class'', ''data-clkrm'']),
    (''button'', [''class'']), (''button'', [''data-act'']), (''button'', [''data-act'', ''class'']), (''button'', [''data-device'']),
    (''select'', [''data-f'']), (''select'', [''data-f'', ''aria-label'']), (''select'', [''data-of'', ''aria-label'']), (''select'', [''class'', ''data-k'']),
    (''optgroup'', [''label'']),
    (''input'', [''type'', ''class'', ''data-f'', ''maxlength'', ''value'', ''aria-label'']),
    (''input'', [''type'', ''class'', ''data-f'', ''value'', ''placeholder'', ''aria-label'']),
    (''input'', [''type'', ''class'', ''data-k'', ''autocomplete'', ''data-saved'', ''value'', ''placeholder'']),
    (''input'', [''type'', ''class'', ''data-k'', ''autocomplete'', ''value'']),
    (''input'', [''type'', ''step'', ''class'', ''data-f'', ''value'', ''aria-label'']),
    (''input'', [''type'', ''step'', ''class'', ''data-f'', ''value'']),
    (''input'', [''type'', ''min'', ''step'', ''class'', ''data-f'', ''value'']),
    (''input'', [''type'', ''step'', ''class'', ''data-of'', ''value'', ''aria-label'']),
    (''input'', [''type'', ''class'', ''value'', ''maxlength'', ''aria-label'']),
    (''input'', [''type'', ''class'', ''value'', ''placeholder'', ''aria-label''])]"

definition FLAGGED_FORM_TAGS :: "(string \<times> (string \<times> bool) list) list" where
  "FLAGGED_FORM_TAGS =
    concat (map (with_flag ''checked'') [(''input'', [''type'', ''data-q'']), (''input'', [''type'', ''data-f'']), (''input'', [''type'', ''data-of'']),
      (''input'', [''type'', ''data-f'', ''aria-label'']), (''input'', [''type'', ''value'']), (''input'', [''type'', ''class''])]) @
    concat (map (with_flag ''disabled'') [(''input'', [''type'', ''data-q'', ''value'']), (''input'', [''type'', ''data-of''])]) @
    with_flag ''selected'' (''option'', [''value'']) @
    [(''input'', valued [''type'', ''data-of''] @ [(''checked'', False), (''disabled'', False)]),
     (''input'', valued [''type'', ''step'', ''class'', ''data-of'', ''value''] @ [(''disabled'', False), (''aria-label'', True)]),
     (''input'', valued [''type'', ''class'', ''value'', ''maxlength'', ''aria-label''] @ [(''disabled'', False), (''title'', True)]),
     (''input'', valued [''type'', ''class'', ''value'', ''placeholder'', ''aria-label''] @ [(''disabled'', False), (''title'', True)]),
     (''button'', [(''data-up'', False), (''aria-label'', True)]), (''button'', [(''data-down'', False), (''aria-label'', True)]),
     (''select'', [(''data-sz'', False), (''aria-label'', True)]),
     (''input'', [(''type'', True), (''data-vis'', False)]), (''input'', [(''type'', True), (''data-vis'', False), (''checked'', False)])]"

definition FORM_TAGS :: "(string \<times> (string \<times> bool) list) list" where
  "FORM_TAGS = map (\<lambda>(n, ks). (n, valued ks)) PLAIN_FORM_TAGS @ FLAGGED_FORM_TAGS"

definition blank_form_tag :: "string \<times> (string \<times> bool) list \<Rightarrow> string" where
  "blank_form_tag t = form_tag (fst t) (map (\<lambda>(k, b). (k, if b then Some [] else None)) (snd t))"

definition page_tags :: "string list" where
  "page_tags = map blank TAGS @ map (\<lambda>(n, ks). ''</'' @ n @ ''>'') TAGS @ map blank_leaf LEAVES @
     map blank_form_tag FORM_TAGS @ map (\<lambda>(n, ks). ''</'' @ n @ ''>'') FORM_TAGS"

definition safe :: "string \<Rightarrow> bool" where
  "safe h \<longleftrightarrow> (case scan InText h of (ts, m) \<Rightarrow> m = InText \<and> set ts \<subseteq> set page_tags)"

text \<open>Text without a tag, and the value of an attribute.\<close>

definition no_tag :: "string \<Rightarrow> bool" where
  "no_tag s \<longleftrightarrow> CHR ''<'' \<notin> set s"

definition in_quotes :: "string \<Rightarrow> bool" where
  "in_quotes s \<longleftrightarrow> CHR 0x22 \<notin> set s"

definition part_of_tag :: "string \<Rightarrow> bool" where
  "part_of_tag s \<longleftrightarrow> CHR 0x22 \<notin> set s \<and> CHR ''>'' \<notin> set s"

named_theorems drawn \<open>what of the page is safe markup\<close>

lemma scan_append: "scan m (a @ b) = (case scan m a of (ts, m') \<Rightarrow> case scan m' b of (us, m'') \<Rightarrow> (ts @ us, m''))"
  by (induction m a rule: scan.induct) (auto split: prod.splits)

lemma safe_append [drawn]: "safe a \<Longrightarrow> safe b \<Longrightarrow> safe (a @ b)"
  by (auto simp: safe_def scan_append split: prod.splits)

lemma safe_Nil [drawn]: "safe []"
  by (simp add: safe_def)

lemma safe_concat [drawn]: "(\<And>x. x \<in> set xs \<Longrightarrow> safe x) \<Longrightarrow> safe (concat xs)"
  by (induction xs) (auto intro: drawn)

lemma scan_text: "no_tag s \<Longrightarrow> scan InText s = ([], InText)"
  by (induction s) (auto simp: no_tag_def)

lemma safe_text [drawn]: "no_tag s \<Longrightarrow> safe s"
  by (simp add: safe_def scan_text)

lemma scan_value: "in_quotes v \<Longrightarrow> scan (InValue t) (v @ rest) = scan (InValue t) rest"
  by (induction v) (auto simp: in_quotes_def)

lemma scan_part: "part_of_tag s \<Longrightarrow> scan (InTag t) (s @ rest) = scan (InTag (t @ s)) rest"
  by (induction s arbitrary: t) (auto simp: part_of_tag_def)

lemma scan_attrs: "list_all (\<lambda>(k, v). part_of_tag k \<and> in_quotes v) as \<Longrightarrow>
    scan (InTag t) (attrs as @ rest) = scan (InTag (t @ attrs (map ((\<lambda>k. (k, [])) \<circ> fst) as))) rest"
proof (induction as arbitrary: t)
  case (Cons a as)
  obtain k v where a: "a = (k, v)" by force
  then show ?case using Cons by (simp add: attrs_def scan_part scan_value)
qed (simp add: attrs_def)

lemma tags_plain: "(n, ks) \<in> set TAGS \<union> set LEAVES \<Longrightarrow> part_of_tag n \<and> list_all part_of_tag ks"
proof -
  have "list_all (\<lambda>(n, ks). part_of_tag n \<and> list_all part_of_tag ks) (TAGS @ LEAVES)" by (simp add: TAGS_def LEAVES_def part_of_tag_def)
  then show "(n, ks) \<in> set TAGS \<union> set LEAVES \<Longrightarrow> ?thesis" by (auto simp: list_all_iff)
qed

lemma attrs_ok: "list_all part_of_tag (map fst as) \<Longrightarrow> list_all in_quotes (map snd as) \<Longrightarrow> list_all (\<lambda>(k, v). part_of_tag k \<and> in_quotes v) as"
  by (induction as) auto

lemma scan_tag:
  assumes "part_of_tag n" "list_all part_of_tag (map fst as)" "list_all in_quotes (map snd as)"
  shows "scan InText (tag n as @ rest) = (case scan InText rest of (ts, m) \<Rightarrow> (blank (n, map fst as) # ts, m))"
    and "scan InText (leaf n as @ rest) = (case scan InText rest of (ts, m) \<Rightarrow> (blank_leaf (n, map fst as) # ts, m))"
  using assms by (simp_all add: tag_def leaf_def blank_def blank_leaf_def scan_part scan_attrs attrs_ok case_prod_beta)

lemma scan_end: "part_of_tag n \<Longrightarrow> scan InText (''</'' @ n @ ''>'') = ([''</'' @ n @ ''>''], InText)"
  by (simp add: scan_part)

lemma safe_el [drawn]:
  assumes "(n, map fst as) \<in> set TAGS" "list_all in_quotes (map snd as)" "safe body"
  shows "safe (el n as body)"
proof -
  have "''</'' @ n @ ''>'' \<in> set page_tags" "blank (n, map fst as) \<in> set page_tags"
    using assms(1) unfolding page_tags_def by (auto intro!: image_eqI [where x = "(n, map fst as)"])
  moreover have "part_of_tag n" "list_all part_of_tag (map fst as)" using tags_plain assms(1) by blast+
  ultimately show ?thesis using assms(2,3) scan_end [of n]
    by (simp add: safe_def el_def scan_tag scan_append [of _ body] split: prod.splits)
qed

lemma safe_leaf [drawn]:
  assumes "(n, map fst as) \<in> set LEAVES" "list_all in_quotes (map snd as)"
  shows "safe (leaf n as)"
proof -
  have "blank_leaf (n, map fst as) \<in> set page_tags" using assms(1) unfolding page_tags_def by auto
  moreover have "part_of_tag n" "list_all part_of_tag (map fst as)" using tags_plain assms(1) by blast+
  ultimately show ?thesis using assms(2) scan_tag(2) [of n as "[]"] by (simp add: safe_def)
qed

lemma form_tags_plain: "(n, ks) \<in> set FORM_TAGS \<Longrightarrow> part_of_tag n \<and> list_all (\<lambda>kb. part_of_tag (fst kb)) ks"
proof -
  have "list_all (\<lambda>(n, ks). part_of_tag n \<and> list_all (\<lambda>kb. part_of_tag (fst kb)) ks) FORM_TAGS"
    by (simp add: FORM_TAGS_def PLAIN_FORM_TAGS_def FLAGGED_FORM_TAGS_def with_flag_def valued_def part_of_tag_def)
  then show "(n, ks) \<in> set FORM_TAGS \<Longrightarrow> ?thesis" by (auto simp: list_all_iff)
qed

text \<open>What kind of tag: which attributes, and which of them have a value.\<close>

definition kind_of :: "(string \<times> string option) list \<Rightarrow> (string \<times> bool) list" where
  "kind_of ms = map (\<lambda>(k, v). (k, v \<noteq> None)) ms"

definition quoted_marks :: "(string \<times> string option) list \<Rightarrow> bool" where
  "quoted_marks ms \<longleftrightarrow> list_all (\<lambda>(k, v). case v of Some w \<Rightarrow> in_quotes w | None \<Rightarrow> True) ms"

lemma quoted_marks_simps [simp]: "quoted_marks []" "quoted_marks ((k, Some v) # ms) \<longleftrightarrow> in_quotes v \<and> quoted_marks ms"
  "quoted_marks ((k, None) # ms) \<longleftrightarrow> quoted_marks ms" "quoted_marks (as @ bs) \<longleftrightarrow> quoted_marks as \<and> quoted_marks bs"
  by (simp_all add: quoted_marks_def)

lemma kind_of_simps [simp]: "kind_of [] = []" "kind_of ((k, Some v) # ms) = (k, True) # kind_of ms"
  "kind_of ((k, None) # ms) = (k, False) # kind_of ms" "kind_of (as @ bs) = kind_of as @ kind_of bs"
  by (simp_all add: kind_of_def)

lemma marks_simps: "marks [] = []" "marks ((k, Some v) # ms) = '' '' @ k @ [CHR ''='', CHR 0x22] @ v @ [CHR 0x22] @ marks ms"
  "marks ((k, None) # ms) = '' '' @ k @ marks ms"
  by (simp_all add: marks_def attrs_def)

lemma scan_marks:
  assumes "list_all (\<lambda>kb. part_of_tag (fst kb)) (kind_of ms)" "quoted_marks ms"
  shows "scan (InTag t) (marks ms @ rest) = scan (InTag (t @ marks (map (\<lambda>(k, b). (k, if b then Some [] else None)) (kind_of ms)))) rest"
  using assms
proof (induction ms arbitrary: t)
  case (Cons m ms)
  obtain k v where m: "m = (k, v)" by force
  then show ?case using Cons by (cases v) (simp_all add: marks_simps scan_part scan_value)
qed (simp add: marks_simps)

lemma scan_form_tag:
  assumes "(n, kind_of ms) \<in> set FORM_TAGS" "quoted_marks ms"
  shows "scan InText (form_tag n ms @ rest) = (case scan InText rest of (ts, m) \<Rightarrow> (blank_form_tag (n, kind_of ms) # ts, m))"
  using form_tags_plain [OF assms(1)] assms(2) by (simp add: form_tag_def blank_form_tag_def scan_part scan_marks case_prod_beta)

lemma form_tag_known: "(n, ks) \<in> set FORM_TAGS \<Longrightarrow> blank_form_tag (n, ks) \<in> set page_tags \<and> ''</'' @ n @ ''>'' \<in> set page_tags"
  unfolding page_tags_def by (auto intro!: image_eqI [where x = "(n, ks)"])

lemma safe_form_tag [drawn]:
  assumes "(n, kind_of ms) \<in> set FORM_TAGS" "quoted_marks ms"
  shows "safe (form_tag n ms)"
  using scan_form_tag [OF assms, of "[]"] form_tag_known [OF assms(1)] by (simp add: safe_def)

lemma safe_form_el [drawn]:
  assumes "(n, kind_of ms) \<in> set FORM_TAGS" "quoted_marks ms" "safe body"
  shows "safe (form_el n ms body)"
  using assms(3) scan_form_tag [OF assms(1,2)] form_tag_known [OF assms(1)] form_tags_plain [OF assms(1)] scan_end [of n]
  by (simp add: safe_def form_el_def scan_append [of _ body] split: prod.splits)

section \<open>Text that is no markup\<close>

definition inert :: "string \<Rightarrow> bool" where
  "inert s \<longleftrightarrow> no_tag s \<and> in_quotes s"

lemma inert_simps [simp]: "inert []" "inert (c # s) \<longleftrightarrow> c \<noteq> CHR ''<'' \<and> c \<noteq> CHR 0x22 \<and> inert s"
  "inert (a @ b) \<longleftrightarrow> inert a \<and> inert b"
  by (auto simp: inert_def no_tag_def in_quotes_def)

lemma inert_safe [drawn]: "inert s \<Longrightarrow> safe s"
  by (simp add: inert_def safe_text)

lemma inert_value [drawn]: "inert s \<Longrightarrow> in_quotes s"
  by (simp add: inert_def)

lemma inert_esc [simp]: "inert (esc s)"
  by (induction s) (auto simp: esc_def esc_char_def)

text \<open>The numbers a browser writes are no markup.\<close>

definition plain_numbers :: "page_env \<Rightarrow> bool" where
  "plain_numbers E \<longleftrightarrow> (\<forall>q. inert (e_frac E q))"

lemma digit_inert: "d < 10 \<Longrightarrow> inert [char_of (48 + d :: nat)]"
  by (auto dest!: arg_cong [where f = "of_char :: char \<Rightarrow> nat"])

lemma inert_show_nat [simp]: "inert (show_nat n)"
proof (induction n rule: less_induct)
  case (less n)
  show ?case using less digit_inert [of n] digit_inert [of "n mod 10"] by (subst show_nat.simps) auto
qed

lemma inert_show_int [simp]: "inert (show_int i)"
  by (simp add: show_int_def)

lemma inert_padded [simp]: "inert (padded k n)"
  by (induction k arbitrary: n) (use digit_inert in auto)

lemma inert_toFixed [simp]: "inert (toFixed k q)"
  by (simp add: toFixed_def Let_def)

lemma inert_fixed [simp]: "inert (fixed_text k n)" "inert (round_text n)"
  by (simp_all add: fixed_text_def round_text_def split: jnum.split)

lemma inert_signs [simp]: "inert DASH" "inert DEGREE" "inert MIDDOT"
  by (simp_all add: DASH_def DEGREE_def MIDDOT_def)

lemma inert_fmtTemp [simp]: "inert (fmtTemp E v b)"
  by (simp add: fmtTemp_def tempUnit_def DEGREE_def split: jnum.split)

lemma scaled_unit: "inert (snd (snd (scaled base i n us)))" if "list_all inert us"
  using that by (induction base i n us rule: scaled.induct) auto

lemma inert_sized:
  assumes "list_all inert us" "us \<noteq> []"
  shows "inert (sized base us n)"
proof -
  have ends: "inert (hd us)" "inert (last us)" using assms by (simp_all add: list_all_iff)
  have "inert (short_number (scaled base 0 q us))" for q
    using scaled_unit [OF assms(1), of base 0 q] by (cases "scaled base 0 q us") (simp add: short_number_def)
  then show ?thesis using ends by (simp add: sized_def split: jnum.split)
qed

lemma inert_fmtBytes [simp]: "inert (fmtBytes E v)"
  unfolding fmtBytes_def by (rule inert_sized) simp_all

lemma inert_fmtRate [simp]: "inert (fmtRate E v b)"
  unfolding fmtRate_def Let_def by (rule inert_sized) simp_all

lemma inert_fmtDur [simp]: "inert (fmtDur E v)"
  by (simp add: fmtDur_def Let_def split: jnum.split)

lemma inert_fmtShare [simp]: "inert (fmtShare E v)" "inert (fmtVal E v u) \<longleftrightarrow> absent v \<or> inert u"
  by (simp_all add: fmtShare_def fmtVal_def split: jnum.split)

lemma inert_levels [simp]: "inert (HCLS l)" "inert (HL l)"
  by (simp_all add: HCLS_def HL_def split: level.split)

text \<open>What a template may hold without \<^verbatim>\<open>esc\<close>: a number, a truth value, nothing.\<close>

definition bare :: "jsval \<Rightarrow> bool" where
  "bare v = (case v of JStr _ \<Rightarrow> False | JArr _ \<Rightarrow> False | JObj _ \<Rightarrow> False | _ \<Rightarrow> True)"

lemma inert_bare: "plain_numbers E \<Longrightarrow> bare v \<Longrightarrow> inert (js_text E v)"
  by (cases v) (auto simp: bare_def num_text_def plain_numbers_def split: jnum.split)

lemma inert_join: "inert sep \<Longrightarrow> list_all inert xs \<Longrightarrow> inert (Channels.join_with sep xs)"
  by (induction sep xs rule: Channels.join_with.induct) auto

lemma safe_join [drawn]: "safe sep \<Longrightarrow> (\<And>x. x \<in> set xs \<Longrightarrow> safe x) \<Longrightarrow> safe (Channels.join_with sep xs)"
  by (induction sep xs rule: Channels.join_with.induct) (auto intro: safe_append safe_Nil)

end
