(* ===== verification/Page_Strings.thy ===== *)
theory Page_Strings
  imports Page_Text
begin

text \<open>
  The dictionary of the page (\<^verbatim>\<open>src/hub/lib/i18n.js\<close>, served as \<^verbatim>\<open>js/i18n.js\<close>): every key with its text, in the order of the file, in parts.
  A sign beyond Latin-1 is written as its UTF-8 bytes.
\<close>

definition PAGE_STRINGS_1 :: "(string \<times> string) list" where
  "PAGE_STRINGS_1 =
   [(''update.to'', ''servitals updated to''), (''update.whatsNew'', ''See what'' @ [CHR 0x27] @ ''s new''), (''update.dismiss'', ''dismiss''),
    (''head.connecting'', ''connecting'' @ [CHR 0xE2, CHR 0x80, CHR 0xA6]), (''head.nodes'', ''{n} nodes '' @ [CHR 0xB7] @ '' {online} online''),
    (''key.refresh'', ''[r] refresh''), (''key.settings'', ''[s] settings''), (''key.theme'', ''[t] theme''), (''key.themeNow'', ''[t] {mode}''),
    (''key.style'', ''[y] style''), (''key.styleNow'', ''[y] {style}''), (''key.logout'', ''[logout]''), (''tabs.label'', ''nodes''),
    (''tabs.fleet'', ''fleet''), (''head.host'', ''host''), (''head.kernel'', ''kernel {version}''), (''head.uptime'', ''up {time}''),
    (''prompt.default'', ''visitor@host''), (''prompt.user'', ''visitor@'' @ ''{host}''), (''foot.source'', ''source''),
    (''foot.whatsNew'', ''what'' @ [CHR 0x27] @ ''s new''), (''status.online'', ''online''), (''status.stale'', ''stale {age} old''),
    (''status.agentDown'', ''agent unreachable''), (''status.hubDown'', ''hub unreachable''), (''status.deviceOffline'', ''(this device is offline)''),
    (''status.loggedOut'', ''logged out: reload the page to log in''), (''status.lastKnown'', ''showing the last known servers''),
    (''status.fleetAt'', ''fleet '' @ [CHR 0xB7] @ '' {time}''), (''panel.mem'', ''memory''), (''panel.cpu'', ''cpu''), (''panel.temp'', ''thermal''),
    (''panel.storage'', ''storage''), (''panel.network'', ''network''), (''panel.docker'', ''services''), (''panel.procs'', ''processes''),
    (''panel.system'', ''system''), (''panel.hw'', ''hardware''), (''panel.hist'', ''history''), (''panel.clocks'', ''world clocks''),
    (''panel.weather'', ''weather''), (''mem.used'', ''used''), (''mem.cache'', ''cache/buffers''), (''mem.avail'', ''available''), (''mem.swap'', ''swap''),
    (''mem.swapOff'', ''off''), (''mem.inUse'', ''{pct}% in use''), (''cpu.load'', ''load 1m / 5m / 15m''), (''cpu.loadCore'', ''load / core''),
    (''cpu.perCore'', ''per-core utilisation''), (''cpu.threads'', ''{n} threads''), (''cpu.wait'', ''iowait / steal''),
    (''cpu.waitTitle'', ''share of the last tick the CPU sat idle waiting on disk, and the share a hypervisor took''),
    (''cpu.pressure'', ''pressure cpu / mem / io''),
    (''cpu.pressureTitle'', ''share of the last 10 s in which tasks waited for cpu, memory or disk (pressure stall information)''),
    (''temp.package'', ''{unit} package''), (''temp.range'', ''range (session)''), (''temp.sensors'', ''sensors''),
    (''temp.rangeValue'', ''{lo} '' @ [CHR 0xE2, CHR 0x80, CHR 0x93] @ '' {hi}  '' @ [CHR 0xB7] @ ''  avg {avg}''), (''disk.system'', ''system''),
    (''disk.hdd'', ''hdd''), (''disk.ssd'', ''ssd''), (''disk.notMounted'', ''not mounted''), (''disk.free'', ''{size} free''),
    (''disk.io'', ''read {read} '' @ [CHR 0xB7] @ '' write {write}''), (''net.down'', ''down''), (''net.up'', ''up''), (''net.total'', ''total''),
    (''net.avgDown'', ''avg'' @ [CHR 0xA0, CHR 0xE2, CHR 0x86, CHR 0x93]), (''net.avgUp'', ''avg'' @ [CHR 0xA0, CHR 0xE2, CHR 0x86, CHR 0x91]),
    (''net.30d'', ''30d''), (''net.24h'', ''24h''), (''net.today'', ''today''), (''net.month'', ''month''), (''net.allTime'', ''all time''),
    (''net.liveOnly'', ''live rate only '' @ [CHR 0xB7] @ '' install vnstat for today, month and 30-day history''),
    (''net.projected'', ''projected {size} this month''), (''net.peak'', ''peak''), (''svc.sort'', ''sort''), (''svc.byMem'', ''mem''),
    (''svc.byCpu'', ''cpu''), (''svc.up'', ''{running}/{total} up''), (''svc.cpu'', ''{pct}% cpu''), (''svc.hubOnly'', ''controls: hub host only''),
    (''svc.lanOnly'', ''controls: LAN only''), (''svc.more'', ''show {n} more '' @ [CHR 0xE2, CHR 0x96, CHR 0xBE]),
    (''svc.less'', ''show less '' @ [CHR 0xE2, CHR 0x96, CHR 0xB4]), (''svc.restart'', [CHR 0xE2, CHR 0x9F, CHR 0xB3] @ '' restart''),
    (''svc.stop'', [CHR 0xE2, CHR 0x97, CHR 0xBC] @ '' stop''), (''svc.start'', [CHR 0xE2, CHR 0x96, CHR 0xB6] @ '' start''),
    (''svc.logs'', [CHR 0xE2, CHR 0x89, CHR 0xA1] @ '' logs''), (''svc.portainer'', [CHR 0xE2, CHR 0x86, CHR 0x97] @ '' portainer''),
    (''svc.memTitle'', ''resident memory '' @ [CHR 0xB7] @ '' {pct}% of the largest''),
    (''svc.stopQ'', ''Stop '' @ [CHR 0xE2, CHR 0x80, CHR 0x9C] @ ''{name}'' @ [CHR 0xE2, CHR 0x80, CHR 0x9D] @ ''?''),
    (''svc.stopTitle'', ''stop container''), (''svc.stopYes'', ''stop {name}''),
    (''svc.stopNote'', ''It won'' @ [CHR 0x27] @ ''t start again until you start it or the host reboots.''), (''svc.act.start'', ''start''),
    (''svc.act.stop'', ''stop''), (''svc.act.restart'', ''restart''), (''svc.failed'', ''{action} failed''),
    (''svc.failedCode'', ''{action} failed ({status})''), (''svc.done'', ''{name}: {action} ok''), (''logs.title'', ''logs''),
    (''logs.of'', ''{name} '' @ [CHR 0xB7] @ '' logs''), (''logs.loading'', ''loading'' @ [CHR 0xE2, CHR 0x80, CHR 0xA6]), (''logs.empty'', ''(no output)''),
    (''logs.error'', ''error: {text}'')]"

definition PAGE_STRINGS_2 :: "(string \<times> string) list" where
  "PAGE_STRINGS_2 =
   [(''logs.failed'', ''failed to fetch logs''), (''procs.byCpu'', ''by cpu''), (''procs.byMem'', ''by memory''), (''procs.none'', ''none yet''),
    (''procs.pid'', ''pid {pid}''), (''sys.updates'', ''updates''), (''sys.reboot'', ''reboot''), (''sys.failed'', ''failed units''),
    (''sys.upToDate'', ''up to date''), (''sys.security'', ''{n} security''), (''sys.rebootYes'', ''required''), (''sys.rebootNo'', ''not needed''),
    (''sys.none'', ''none''), (''hw.battery'', ''battery''), (''hw.fans'', ''fans''), (''hw.voltages'', ''voltages''), (''hw.rpm'', ''{n} rpm''),
    (''hw.volts'', ''{v} V''), (''hw.bat.charging'', ''charging''), (''hw.bat.discharging'', ''discharging''), (''hw.bat.full'', ''full''),
    (''hw.bat.notcharging'', ''not charging''), (''hw.bat.unknown'', ''unknown''), (''hist.seriesLabel'', ''series''), (''hist.r.1h'', ''1h''),
    (''hist.r.24h'', ''24h''), (''hist.r.7d'', ''7d''), (''hist.r.30d'', ''30d''), (''hist.r.90d'', ''90d''), (''hist.s.cpu'', ''cpu''),
    (''hist.s.mem'', ''memory''), (''hist.s.temp'', ''temperature''), (''hist.s.load1'', ''load 1m''), (''hist.s.iowait'', ''iowait''),
    (''hist.s.swap'', ''swap''), (''hist.s.psi.cpu'', ''pressure cpu''), (''hist.s.psi.mem'', ''pressure memory''), (''hist.s.psi.io'', ''pressure io''),
    (''hist.s.net.rx'', ''network in''), (''hist.s.net.tx'', ''network out''), (''hist.disk'', ''disk {mount}''), (''hist.io.read'', ''{device} read''),
    (''hist.io.write'', ''{device} write''), (''hist.ctr.cpu'', ''{name} cpu''), (''hist.ctr.mem'', ''{name} memory''), (''hist.empty'', ''no history yet''),
    (''hist.ctr24'', ''containers keep 24 hours''), (''hist.summary'', ''avg {avg} '' @ [CHR 0xB7] @ '' low {lo} '' @ [CHR 0xB7] @ '' high {hi}''),
    (''key.alerts'', ''[a] alerts''), (''alerts.title'', ''alerts''), (''alerts.badge'', ''alerts: {n}, worst {severity}''), (''alerts.firing'', ''firing''),
    (''alerts.none'', ''nothing is firing''), (''alerts.recent'', ''recent''), (''alerts.noneYet'', ''no alerts yet''), (''alerts.mutes'', ''muted''),
    (''alerts.mute.rule'', ''rule: {name}''), (''alerts.mute.node'', ''server: {name}''), (''alerts.until'', ''until {time}''),
    (''alerts.for'', ''for {time}''), (''alerts.muteRule'', ''mute rule''), (''alerts.muteNode'', ''mute server''), (''alerts.unmute'', ''unmute''),
    (''alerts.muteFor'', ''mute for''), (''alerts.for1h'', ''1 hour''), (''alerts.for1d'', ''1 day''), (''alerts.for7d'', ''7 days''),
    (''alerts.muted'', ''muted''), (''alerts.unmuted'', ''unmuted''), (''alerts.muteFailed'', ''could not change the mute''),
    (''alerts.failed'', ''could not load the alerts''), (''alerts.openFailed'', ''the alerts did not load; reload the page''),
    (''alerts.tabList'', ''alerts''), (''alerts.tabRules'', ''rules''), (''alerts.tabChannels'', ''channels''),
    (''ch.ignored'', ''The hub could not read its channels file ({error}), so no channel is in use. Saving keeps that file aside, next to the new one.''),
    (''ch.intro'', ''Each channel gets the alerts at or above its level; info goes to the daily digest. Quiet hours hold warnings and send one summary when they end; critical always goes through.''),
    (''ch.quiet'', ''quiet hours''), (''ch.quietFrom'', ''from''), (''ch.quietTo'', ''to''), (''ch.digestAt'', ''daily digest at''), (''ch.name'', ''name''),
    (''ch.type'', ''type''), (''ch.min'', ''at least''), (''ch.digest'', ''digest''), (''ch.test'', ''send test''), (''ch.add'', ''+ channel''),
    (''ch.optional'', ''(optional)''), (''ch.field.server'', ''server''), (''ch.field.topic'', ''topic''), (''ch.field.token'', ''token''),
    (''ch.field.url'', ''webhook URL''), (''ch.field.secret'', ''signing secret''), (''ch.field.chat'', ''chat id''), (''ch.field.user'', ''user key''),
    (''ch.field.room'', ''room id''), (''ch.field.host'', ''SMTP server''), (''ch.field.port'', ''port''), (''ch.field.security'', ''security''),
    (''ch.field.login'', ''login''), (''ch.field.pass'', ''password''), (''ch.field.from'', ''from address''),
    (''ch.field.to'', ''to (comma between addresses)''), (''ch.field.urls'', ''Apprise URLs''), (''ch.field.api'', ''Apprise API''),
    (''ch.lastOk'', ''last sent {time}''), (''ch.lastError'', ''last error {error} at {time}''), (''ch.never'', ''nothing sent yet'')]"

definition PAGE_STRINGS_3 :: "(string \<times> string) list" where
  "PAGE_STRINGS_3 =
   [(''ch.saved'', ''saved''), (''ch.savedAll'', ''channels saved''), (''ch.saveFailed'', ''not saved: {error}''),
    (''ch.loadFailed'', ''could not load the channels''), (''ch.saveFirst'', ''save first, then send a test''), (''ch.testOk'', ''test sent''),
    (''ch.testFailed'', ''test failed: {error}''), (''alert.metric.diskUsed'', ''disk used''), (''alert.metric.mem'', ''memory''),
    (''alert.metric.cpu'', ''cpu''), (''alert.metric.temp'', ''temperature''), (''alert.metric.containerDown'', ''container down''),
    (''alert.metric.failedUnits'', ''failed units''), (''alert.metric.rebootRequired'', ''reboot required''),
    (''alert.metric.securityUpdates'', ''security updates''),
    (''rules.ignored'', ''The hub could not read its rules file ({error}), so the default rules apply. Saving keeps that file aside, next to the new one.''),
    (''rules.intro'', ''Changes apply when saved. An override for one server wins over one for its tag; off turns the rule off there.''),
    (''rules.on'', ''on''), (''rules.name'', ''name''), (''rules.newName'', ''new rule''), (''rules.metric'', ''what''), (''rules.op'', ''condition''),
    (''rules.threshold'', ''threshold''), (''rules.for'', ''for''), (''rules.min'', ''min''), (''rules.clear'', ''clears at''),
    (''rules.severity'', ''severity''), (''rules.scope'', ''where''), (''rules.all'', ''all servers''), (''rules.server'', ''server {name}''),
    (''rules.tag'', ''tag {tag}''), (''rules.sub'', ''disk or container''), (''rules.subAll'', ''every disk or container''),
    (''rules.overrideFor'', ''for''), (''rules.overrideWho'', ''server or tag''), (''rules.off'', ''off''), (''rules.remove'', ''remove''),
    (''rules.addOverride'', ''+ override''), (''rules.add'', ''+ rule''), (''rules.revert'', ''undo changes''), (''rules.save'', ''save''),
    (''rules.saved'', ''rules saved''), (''rules.saveFailed'', ''not saved: {error}''), (''rules.loadFailed'', ''could not load the rules''),
    (''alert.sev.critical'', ''critical''), (''alert.sev.warning'', ''warning''), (''alert.sev.info'', ''info''), (''alert.kind.firing'', ''fired''),
    (''alert.kind.resolved'', ''resolved''), (''alert.kind.repeat'', ''still firing''), (''alert.kind.ended'', ''no longer watched''),
    (''alert.quiet.muted'', ''muted''), (''alert.quiet.offline'', ''server offline''), (''alert.quiet.untold'', ''not told''),
    (''alert.rule.offline'', ''offline''), (''alert.rule.diskFull'', ''disk full''), (''alert.rule.diskCritical'', ''disk critical''),
    (''alert.rule.memory'', ''memory''), (''alert.rule.cpu'', ''cpu''), (''alert.rule.temperature'', ''temperature''),
    (''alert.rule.containerDown'', ''container down''), (''alert.rule.failedUnits'', ''failed units''), (''alert.rule.rebootRequired'', ''reboot required''),
    (''alert.rule.securityUpdates'', ''security updates''), (''notify.title'', ''{head}: {what} on {node}''),
    (''notify.line'', ''{kind}: {what} on {node}''), (''notify.value'', ''value {value}''), (''notify.since'', ''since {time}''),
    (''notify.summaryTitle'', ''after quiet hours: {n} held''), (''notify.digestTitle'', ''daily digest: {n} events''),
    (''notify.testTitle'', ''servitals test''), (''notify.testText'', ''This channel works.''), (''notify.more'', ''+{n} more in the alert log''),
    (''notify.webpushName'', ''phone notifications''), (''push.title'', ''notifications on this device''), (''push.enable'', ''enable notifications''),
    (''push.disable'', ''turn them off here''), (''push.guide'', ''how to serve servitals over HTTPS''),
    (''push.needHttps'', ''Notifications need servitals over HTTPS (a tunnel, a Tailscale certificate or a reverse proxy).''),
    (''push.unsupported'', ''This browser cannot get notifications. On iPhone and iPad, add servitals to the home screen first (iOS 16.4 or later).''),
    (''push.denied'', ''Notifications are blocked for this site; allow them in the browser'' @ [CHR 0x27] @ ''s settings.''),
    (''push.onHere'', ''On for this device. The channels tab sets which alerts it gets.''), (''push.offHere'', ''Off for this device.''),
    (''push.enabled'', ''notifications on''), (''push.failed'', ''could not change notifications''), (''push.thisDevice'', ''(this device)''),
    (''push.remove'', ''remove''), (''dlg.close'', ''[esc]''), (''dlg.confirm'', ''confirm''), (''dlg.cancel'', ''cancel''), (''fleet.pinned'', ''pinned''),
    (''fleet.untagged'', ''untagged''), (''fleet.ago'', ''{age} ago''), (''fleet.disk'', ''disk {mount}''),
    (''fleet.waiting'', ''waiting for the first push''), (''fleet.state.online'', ''online''), (''fleet.state.stale'', ''stale''),
    (''fleet.state.offline'', ''offline''), (''fleet.state.waiting'', ''waiting''), (''card.cpu'', ''cpu''), (''card.mem'', ''mem''),
    (''card.temp'', ''temp''), (''card.disk'', ''disk''), (''card.containers'', ''up''), (''card.iowait'', ''iowait''), (''card.updates'', ''updates''),
    (''card.battery'', ''battery''), (''clock.badTz'', ''bad tz'')]"

definition PAGE_STRINGS_4 :: "(string \<times> string) list" where
  "PAGE_STRINGS_4 =
   [(''wx.none'', ''no locations '' @ [CHR 0xE2, CHR 0x80, CHR 0x94] @ '' add in settings''), (''wx.unavailable'', ''weather unavailable (no internet?)''),
    (''wx.feels'', ''feels {temp}''), (''wx.hiLo'', ''H {hi} L {lo}''), (''wx.0'', ''clear''), (''wx.1'', ''mainly clear''), (''wx.2'', ''partly cloudy''),
    (''wx.3'', ''overcast''), (''wx.45'', ''fog''), (''wx.48'', ''rime fog''), (''wx.51'', ''light drizzle''), (''wx.53'', ''drizzle''),
    (''wx.55'', ''dense drizzle''), (''wx.61'', ''light rain''), (''wx.63'', ''rain''), (''wx.65'', ''heavy rain''), (''wx.71'', ''light snow''),
    (''wx.73'', ''snow''), (''wx.75'', ''heavy snow''), (''wx.80'', ''showers''), (''wx.81'', ''rain showers''), (''wx.82'', ''violent showers''),
    (''wx.95'', ''thunderstorm''), (''wx.96'', ''thunderstorm''), (''wx.99'', ''hailstorm''), (''day.0'', ''Sun''), (''day.1'', ''Mon''),
    (''day.2'', ''Tue''), (''day.3'', ''Wed''), (''day.4'', ''Thu''), (''day.5'', ''Fri''), (''day.6'', ''Sat''), (''style.classic'', ''classic''),
    (''style.8bit'', ''8bit''), (''style.phosphor'', ''phosphor''), (''style.eink'', ''e-ink''), (''style.contrast'', ''high contrast''),
    (''style.nord'', ''nord''), (''style.gruvbox'', ''gruvbox''), (''style.dracula'', ''dracula''), (''style.catppuccin'', ''catppuccin''),
    (''style.solarized'', ''solarized''), (''styles.v1'', ''styles''), (''styles.access'', ''accessibility''), (''styles.palette'', ''palettes''),
    (''mode.system'', ''system''), (''mode.light'', ''light''), (''mode.dark'', ''dark''), (''density.compact'', ''compact''),
    (''density.comfortable'', ''comfortable''), (''density.large'', ''large''), (''size.normal'', ''normal''), (''size.wide'', ''wide''),
    (''size.full'', ''full''), (''set.title'', ''config''), (''set.dashboard'', ''dashboard''), (''set.name'', ''name''),
    (''set.namePh'', ''shown in the browser tab''), (''set.refresh'', ''refresh every (seconds)''), (''set.icon'', ''icon''),
    (''set.iconUpload'', ''upload image''), (''set.iconEmoji'', ''or an emoji''), (''set.iconClear'', ''clear''),
    (''set.iconTooBig'', ''icon must be under 200 KB''), (''set.panels'', ''panels''), (''set.panelsFor'', ''which panels and sizes, for''),
    (''set.panelsOrder'', ''the order is shared by every server: drag, or use the arrows''), (''set.panelsReset'', ''use the shared set for this server''),
    (''set.panelsAll'', ''every server''), (''set.panelsOwn'', ''{name} (own set)''), (''set.panelUp'', ''move {panel} up''),
    (''set.panelDown'', ''move {panel} down''), (''set.panelSize'', ''size of {panel}''), (''set.panelShow'', ''show''), (''set.servers'', ''servers''),
    (''set.sortBy'', ''sort the fleet by''), (''set.sort.name'', ''name''), (''set.sort.status'', ''status (trouble first)''), (''set.sort.cpu'', ''cpu''),
    (''set.sort.mem'', ''memory''), (''set.sort.temp'', ''temperature''), (''set.sort.disk'', ''fullest disk''),
    (''set.group'', ''group the fleet by each server'' @ [CHR 0x27] @ ''s first tag''), (''set.cardNumbers'', ''numbers on each card (up to 4)''),
    (''set.card.cpu'', ''cpu''), (''set.card.mem'', ''memory''), (''set.card.temp'', ''temperature''), (''set.card.disk'', ''fullest disk''),
    (''set.card.containers'', ''containers''), (''set.card.iowait'', ''iowait (waiting on disk)''),
    (''set.card.updates'', ''updates ('' @ [CHR 0xE2, CHR 0x86, CHR 0xBB] @ '' reboot needed)''), (''set.card.battery'', ''battery''),
    (''set.serversHint'', ''name and tags save at once; pin and hide with the other settings''), (''set.srvName'', ''name of {name}''),
    (''set.srvTags'', ''tags of {name}''), (''set.srvTagsPh'', ''tags''), (''set.srvPin'', ''pin''), (''set.srvHide'', ''hide''),
    (''set.srvThisHub'', ''this hub''), (''set.srvRevoke'', ''revoke''), (''set.srvSaved'', ''saved''),
    (''set.srvNotSaved'', ''could not save that server''), (''set.revokeQ'', ''revoke '' @ [CHR 0x22] @ ''{name}'' @ [CHR 0x22] @ ''?''),
    (''set.revokeTitle'', ''revoke a server''),
    (''set.revokeNote'', ''Its agent is refused from now on and it leaves the fleet. Pair it again to bring it back.''),
    (''set.revokeFailed'', ''could not revoke that server''), (''set.revoked'', ''revoked {name}''), (''set.weather'', ''weather locations'')]"

definition PAGE_STRINGS_5 :: "(string \<times> string) list" where
  "PAGE_STRINGS_5 =
   [(''set.wxPh'', ''add city, e.g. Bengaluru''), (''set.wxSearch'', ''search''), (''set.wxSearching'', ''searching'' @ [CHR 0xE2, CHR 0x80, CHR 0xA6]),
    (''set.wxNoMatch'', ''no matches''), (''set.wxFailed'', ''search failed''), (''set.none'', ''none''), (''set.clocks'', ''world clocks''),
    (''set.clockLabelPh'', ''label''), (''set.clockTzPh'', ''Area/City timezone''), (''set.clockAdd'', ''add''), (''set.clockBadTz'', ''invalid timezone''),
    (''set.units'', ''units''), (''set.uTemp'', ''temperature''), (''set.uSize'', ''sizes''), (''set.uSizeBinary'', ''1024 (like df -h)''),
    (''set.uSizeDecimal'', ''1000 (like drive labels)''), (''set.uRate'', ''network''), (''set.uRateBytes'', ''bytes per second''),
    (''set.uRateBits'', ''bits per second''), (''set.uClock'', ''clock''), (''set.uClockAuto'', ''browser default''), (''set.uClock24'', ''24 hour''),
    (''set.uClock12'', ''12 hour''), (''set.appearance'', ''appearance''), (''set.appearanceHint'', ''changes this browser at once''),
    (''set.style'', ''style''), (''set.mode'', ''mode''), (''set.density'', ''density''),
    (''set.lookDefault'', ''on save, make this look everyone'' @ [CHR 0x27] @ ''s default''),
    (''set.kiosk'', ''kiosk on every screen: big type, no controls''), (''set.kioskSec'', ''next node every (seconds)''),
    (''set.kioskOptOut'', ''a screen opts out at''), (''set.login'', ''login''), (''set.loginName'', ''name''), (''set.loginCurrent'', ''current password''),
    (''set.loginNew'', ''new password (blank: keep)''), (''set.loginNew2'', ''new password again''), (''set.loginSave'', ''change login''),
    (''set.loginDiffer'', ''the new passwords differ''), (''set.loginUnreachable'', ''could not reach the hub''), (''set.loginNotSaved'', ''not saved''),
    (''set.loginSaved'', ''saved: log in as {user} from now on; other sessions were logged out''), (''set.save'', ''save''),
    (''set.reset'', ''reset to defaults''), (''set.export'', ''export json''), (''set.import'', ''import json''),
    (''set.exportNote'', ''config.json in the hub'' @ [CHR 0x27] @ ''s state directory '' @ [CHR 0xE2, CHR 0x80, CHR 0x94] @ '' saving the settings writes it for you''),
    (''set.saved'', ''settings saved''), (''set.savedLocal'', ''saved to this browser only''),
    (''set.savedLocalWhy'', ''saved locally '' @ [CHR 0xE2, CHR 0x80, CHR 0x94] @ '' {error}''), (''set.imported'', ''imported: check, then save''),
    (''set.importedSkipped'', ''imported (skipped {keys}): check, then save''), (''set.importBig'', ''the file is empty or larger than 512 KB''),
    (''set.importNotJson'', ''that is not a JSON file''), (''set.importNotSettings'', ''that is not a servitals settings file''),
    (''set.importKind'', [CHR 0x22] @ ''{key}'' @ [CHR 0x22] @ '' should be {kind}''), (''set.kind.array'', ''a list''), (''set.kind.string'', ''a string''),
    (''set.kind.number'', ''a number''), (''set.kind.boolean'', ''a boolean''), (''set.kind.object'', ''an object''),
    (''set.managed'', ''managed by a file in /etc/servitals/conf.d''), (''set.managedName'', ''managed by a file in conf.d''),
    (''set.managedShort'', ''managed by file''), (''set.openFailed'', ''could not open the settings: the session may have ended, reload the page''),
    (''hub.login'', ''login''), (''hub.loginTitle'', ''authentication required''), (''hub.username'', ''username''), (''hub.password'', ''password''),
    (''hub.loginButton'', ''login''), (''hub.loginFoot'', ''failed attempts are rate-limited; {n} failures block this IP''),
    (''hub.loginWrong'', ''invalid credentials''),
    (''hub.loginLeft1'', ''invalid credentials '' @ [CHR 0xE2, CHR 0x80, CHR 0x94] @ '' 1 attempt left before this IP is blocked''),
    (''hub.loginLeftN'', ''invalid credentials '' @ [CHR 0xE2, CHR 0x80, CHR 0x94] @ '' {n} attempts left before this IP is blocked''),
    (''hub.blocked'', ''blocked''), (''hub.blockedTitle'', ''access blocked''),
    (''hub.blockedWhy'', ''This IP address ({ip}) is blocked after repeated failed logins.''), (''hub.blockedUntil'', ''Automatically clears {when} UTC.''),
    (''hub.blockedForever'', ''Blocked until an administrator removes it.''), (''hub.blockedAdmin'', ''admin:''), (''link.title'', ''link a server''),
    (''link.run'', ''On the server, run {command} and type the code it shows.''), (''link.code'', ''code''), (''link.codePh'', ''XXXX-XXXX''),
    (''link.continue'', ''continue''), (''link.onlyYours'', ''only enter a code you started yourself, on your own server''),
    (''link.asks'', ''A server asks to join this hub. Approve only if you ran {command} on it just now.''), (''link.host'', ''host''),
    (''link.system'', ''system''), (''link.systemValue'', ''{os} '' @ [CHR 0xB7] @ '' agent {agent}''), (''link.from'', ''from''),
    (''link.unknownAddress'', ''unknown address''), (''link.asked'', ''asked''),
    (''link.askedValue'', ''{ago} min ago '' @ [CHR 0xB7] @ '' expires in {left} min''), (''link.name'', ''name''),
    (''link.tags'', ''tags (optional, comma separated)''), (''link.tagsPh'', ''home, nas''), (''link.approve'', ''approve''), (''link.deny'', ''deny''),
    (''link.unknown'', ''unknown or expired code''), (''link.tooMany'', ''too many codes tried: wait 10 minutes''),
    (''link.saveFailed'', ''could not save the node: {error}''), (''link.denied'', ''Denied. The server was told, and nothing was saved.''),
    (''link.back'', ''back to the dashboard''), (''link.linked'', ''Linked '' @ [CHR 0x22] @ ''{name}'' @ [CHR 0x22] @ ''.''),
    (''link.soon'', ''The server shows up in the fleet within a few seconds.''), (''link.openFleet'', ''open the fleet'')]"

definition PAGE_STRINGS :: "(string \<times> string) list" where
  "PAGE_STRINGS = PAGE_STRINGS_1 @ PAGE_STRINGS_2 @ PAGE_STRINGS_3 @ PAGE_STRINGS_4 @ PAGE_STRINGS_5"

lemmas page_strings = PAGE_STRINGS_1_def PAGE_STRINGS_2_def PAGE_STRINGS_3_def PAGE_STRINGS_4_def PAGE_STRINGS_5_def

text \<open>The texts are plain: no text has a tag.\<close>

lemma texts_plain: "list_all (\<lambda>(k, s). no_tag s) PAGE_STRINGS"
  by (simp add: PAGE_STRINGS_def page_strings no_tag_def)

end
