(* ===== verification/Page_Panels.thy ===== *)
theory Page_Panels
  imports Page_Strings
begin

text \<open>
  The panels of one server (\<^verbatim>\<open>src/www/js/app.js\<close>, \<^verbatim>\<open>renderMetrics\<close> and what it calls): the markup each panel is given. Everything an
  agent sends as a string goes through \<open>esc\<close>. The numbers are those of a snapshot the hub has cleaned: a sum of
  two that is not a number is NaN.
\<close>

section \<open>Rows\<close>

text \<open>\<^verbatim>\<open>esc(tr(key, vars))\<close> and \<^verbatim>\<open>esc(v)\<close>\<close>

definition esc_tr :: "page_env \<Rightarrow> string \<Rightarrow> (string \<times> jsval) list \<Rightarrow> string" where
  "esc_tr E key vars = esc (page_tr E key vars)"

definition shown_text :: "page_env \<Rightarrow> jsval \<Rightarrow> string" where
  "shown_text E v = esc (js_text E v)"

definition EMDASH :: string where "EMDASH = [CHR 0xE2, CHR 0x80, CHR 0x94]"
definition WARN_SIGN :: string where "WARN_SIGN = [CHR 0xE2, CHR 0x9A, CHR 0xA0]"

definition class_el :: "string \<Rightarrow> string \<Rightarrow> string \<Rightarrow> string" where
  "class_el n c body = el n [(''class'', c)] body"

definition waitHtml :: "page_env \<Rightarrow> jsval \<Rightarrow> string" where
  "waitHtml E c = (let steal = js_or (fld ''steal'' c) (JNum (Fin 0)); wait = fld ''iowait'' c in
     class_el ''span'' (HL (health (number_of E wait) 10 30)) (fmtShare E wait) @ '' / '' @
     class_el ''span'' (HL (health (number_of E steal) 5 20)) (fmtShare E steal))"

definition pressureHtml :: "page_env \<Rightarrow> jsval \<Rightarrow> string" where
  "pressureHtml E p = Channels.join_with '' / '' (map (\<lambda>k. let v = (if truthy (fld k p) then fld ''some'' (fld k p) else fld k p) in
     if absent v then DASH else class_el ''span'' (HL (health (number_of E v) 10 30)) (fmtShare E v)) [''cpu'', ''mem'', ''io''])"

definition diskIo :: "page_env \<Rightarrow> jsval \<Rightarrow> jsval list \<Rightarrow> string" where
  "diskIo E dk io =
    (case (if truthy (fld ''device'' dk) then find (\<lambda>x. fld ''device'' x = fld ''device'' dk) io else None) of
       None \<Rightarrow> []
     | Some r \<Rightarrow> if absent (fld ''readRate'' r) \<or> absent (fld ''writeRate'' r) then []
         else '' '' @ class_el ''span'' ''dio'' (MIDDOT @ '' '' @ esc_tr E ''disk.io''
           [(''read'', JStr (fmtRate E (fld ''readRate'' r) True)), (''write'', JStr (fmtRate E (fld ''writeRate'' r) True))]))"

definition procRows :: "page_env \<Rightarrow> (jsval \<Rightarrow> string) \<Rightarrow> jsval \<Rightarrow> string" where
  "procRows E value v = (case arr_or_empty v of
       [] \<Rightarrow> class_el ''span'' ''muted'' (esc_tr E ''procs.none'' [])
     | xs \<Rightarrow> concat (map (\<lambda>p. el ''div'' [(''class'', ''row''), (''title'', esc_tr E ''procs.pid'' [(''pid'', fld ''pid'' p)])]
         (class_el ''span'' ''k pname'' (shown_text E (fld ''name'' p)) @ class_el ''span'' ''v'' (value p))) xs))"

text \<open>The system panel: three pieces of markup, the title of the reboot line (an attribute set as text) and the failed units.\<close>

record sys_html =
  sy_updates :: string
  sy_reboot :: string
  sy_rebootTitle :: string
  sy_failed :: string
  sy_units :: string

definition above :: "jnum \<Rightarrow> rat \<Rightarrow> bool" where
  "above n b = (case n of Fin q \<Rightarrow> b < q | PosInf \<Rightarrow> True | _ \<Rightarrow> False)"

definition below :: "jnum \<Rightarrow> rat \<Rightarrow> bool" where
  "below n b = (case n of Fin q \<Rightarrow> q < b | NegInf \<Rightarrow> True | _ \<Rightarrow> False)"

definition updates_html :: "page_env \<Rightarrow> jsval \<Rightarrow> string" where
  "updates_html E u = (case fld ''updates'' u of
       JNum n \<Rightarrow> if n = Fin 0 then esc_tr E ''sys.upToDate'' []
         else num_text E n @ (if above (number_of E (fld ''security'' u)) 0
           then '' '' @ MIDDOT @ '' '' @ class_el ''span'' ''hl-amber'' (esc_tr E ''sys.security'' [(''n'', fld ''security'' u)]) else [])
     | _ \<Rightarrow> DASH)"

definition systemHtml :: "page_env \<Rightarrow> jsval \<Rightarrow> sys_html" where
  "systemHtml E u =
    \<lparr>sy_updates = updates_html E u,
     sy_reboot = (case fld ''rebootRequired'' u of
         JBool True \<Rightarrow> class_el ''span'' ''hl-amber'' (esc_tr E ''sys.rebootYes'' []) | JBool False \<Rightarrow> esc_tr E ''sys.rebootNo'' [] | _ \<Rightarrow> DASH),
     sy_rebootTitle = Channels.join_with '', '' (map (js_text E) (arr_or_empty (fld ''rebootPkgs'' u))),
     sy_failed = (case fld ''failedUnits'' u of
         JArr xs \<Rightarrow> if xs \<noteq> [] then class_el ''span'' ''hl-red'' (show_nat (length xs)) else esc_tr E ''sys.none'' [] | _ \<Rightarrow> DASH),
     sy_units = esc (Channels.join_with '', '' (map (js_text E) (arr_or_empty (fld ''failedUnits'' u))))\<rparr>"

section \<open>The hardware panel\<close>

definition hw_row :: "string \<Rightarrow> string \<Rightarrow> string" where
  "hw_row k v = class_el ''div'' ''row'' (class_el ''span'' ''k'' (esc k) @ class_el ''span'' ''v'' v)"

definition is_number :: "jsval \<Rightarrow> bool" where
  "is_number v = (case v of JNum _ \<Rightarrow> True | _ \<Rightarrow> False)"

definition battery_status :: "page_env \<Rightarrow> jsval \<Rightarrow> string" where
  "battery_status E b = (let st = fld ''status'' b; word = filter (\<lambda>c. c \<noteq> CHR '' '') (lower_case (js_text E st)); key = ''hw.bat.'' @ word in
     if \<not> truthy st then []
     else '' '' @ MIDDOT @ '' '' @ esc (case map_of (e_strings E) key of Some (c # cs) \<Rightarrow> page_tr E key [] | _ \<Rightarrow> js_text E st))"

definition battery_row :: "page_env \<Rightarrow> jsval \<Rightarrow> string" where
  "battery_row E b = (let cap = fld ''capacity'' b; known = is_number cap; draining = (fld ''status'' b = JStr ''Discharging'');
       cls = (if known \<and> draining \<and> below (number_of E cap) 20 then ''hl-red''
              else if known \<and> draining \<and> below (number_of E cap) 40 then ''hl-amber'' else []) in
     if truthy b \<and> (known \<or> truthy (fld ''status'' b))
     then hw_row (page_tr E ''hw.battery'' [])
       (class_el ''span'' cls (if known then num_text E (number_of E cap) @ ''%'' else DASH) @ battery_status E b)
     else [])"

definition fan_row :: "page_env \<Rightarrow> jsval \<Rightarrow> string" where
  "fan_row E f = hw_row (js_text E (fld ''label'' f))
    (let t = esc_tr E ''hw.rpm'' [(''n'', fld ''rpm'' f)] in if above (number_of E (fld ''rpm'' f)) 0 then t else class_el ''span'' ''hl-red'' t)"

definition volt_row :: "page_env \<Rightarrow> jsval \<Rightarrow> string" where
  "volt_row E v = hw_row (js_text E (fld ''label'' v)) (esc_tr E ''hw.volts'' [(''v'', JStr (fixed_text 2 (number_of E (fld ''value'' v))))])"

definition hw_list :: "page_env \<Rightarrow> string \<Rightarrow> (jsval \<Rightarrow> string) \<Rightarrow> jsval list \<Rightarrow> string" where
  "hw_list E title row xs = (if xs = [] then [] else class_el ''div'' ''plbl'' (esc_tr E title []) @ concat (map row xs))"

definition hardwareHtml :: "page_env \<Rightarrow> jsval \<Rightarrow> string" where
  "hardwareHtml E d = battery_row E (fld ''battery'' d) @
     hw_list E ''hw.fans'' (fan_row E) (arr_or_empty (fld ''fans'' d)) @ hw_list E ''hw.voltages'' (volt_row E) (arr_or_empty (fld ''voltages'' d))"

section \<open>Meters and lines\<close>

definition meter_of :: "jnum \<Rightarrow> string \<Rightarrow> string \<Rightarrow> string" where
  "meter_of n cls shown = class_el ''div'' (''meter '' @ cls)
     (class_el ''div'' ''track'' (el ''i'' [(''data-w'', fixed_text 1 n)] []) @ class_el ''span'' ''pct'' shown)"

definition meter :: "jnum \<Rightarrow> string \<Rightarrow> string" where
  "meter pct force = (let n = clamp pct 0 100; cls = (if force \<noteq> [] then force else HCLS (health n 70 90)) in
     meter_of n cls (round_text n @ ''%''))"

definition spark_y :: "jnum \<Rightarrow> jnum" where
  "spark_y v = (case clamp v 0 100 of Fin q \<Rightarrow> Fin (22 - 3 / 2 - q / 100 * 19) | n \<Rightarrow> n)"

definition spark_points :: "jnum list \<Rightarrow> string" where
  "spark_points vals = Channels.join_with '' '' (map (\<lambda>(i, v). toFixed 1 (of_nat i * (240 / of_nat (length vals - 1))) @ '','' @ fixed_text 1 (spark_y v))
     (enumerate 0 vals))"

text \<open>\<open>uid\<close> is the number this line gets of \<^verbatim>\<open>++sparkUid\<close>.\<close>

definition sparkSvg :: "nat \<Rightarrow> jnum list \<Rightarrow> string" where
  "sparkSvg uid vals = (let i = ''sg'' @ show_nat uid in
     if length vals < 3 then []
     else el ''svg'' [(''viewBox'', ''0 0 240 22''), (''preserveAspectRatio'', ''none'')]
       (el ''defs'' [] (el ''linearGradient'' [(''id'', i), (''x1'', ''0''), (''y1'', ''22''), (''x2'', ''0''), (''y2'', ''0''), (''gradientUnits'', ''userSpaceOnUse'')]
          (leaf ''stop'' [(''offset'', ''0''), (''class'', ''s-green'')] @ leaf ''stop'' [(''offset'', ''0.62''), (''class'', ''s-green'')] @
           leaf ''stop'' [(''offset'', ''0.78''), (''class'', ''s-amber'')] @ leaf ''stop'' [(''offset'', ''0.92''), (''class'', ''s-red'')])) @
        leaf ''polyline'' [(''points'', spark_points vals), (''fill'', ''none''), (''stroke'', ''url(#'' @ i @ '')''), (''stroke-width'', ''1.5''),
          (''stroke-linejoin'', ''round''), (''stroke-linecap'', ''round''), (''vector-effect'', ''non-scaling-stroke'')]))"

text \<open>\<^verbatim>\<open>pcts.filter(v => v != null)\<close>, each as the number it is drawn by\<close>

definition drawn_numbers :: "page_env \<Rightarrow> jsval list \<Rightarrow> jnum list" where
  "drawn_numbers E vs = map (number_of E) (filter (\<lambda>v. \<not> absent v) vs)"

section \<open>Storage\<close>

definition diskLabel :: "page_env \<Rightarrow> jsval \<Rightarrow> string" where
  "diskLabel E mount = (let path = js_text E mount; ps = filter (\<lambda>p. p \<noteq> []) (split_on (CHR ''/'') path) in
     if mount = JStr ''/'' then page_tr E ''disk.system'' [] else if ps \<noteq> [] then last ps else path)"

text \<open>The person's own settings of a disk: \<^verbatim>\<open>(cfg.disks && cfg.disks[dk.mount]) || {}\<close>\<close>

definition disk_meta :: "page_env \<Rightarrow> jsval \<Rightarrow> jsval" where
  "disk_meta E dk = fld (js_text E (fld ''mount'' dk)) (fld ''disks'' (JObj (e_cfg E)))"

definition disk_name :: "page_env \<Rightarrow> jsval \<Rightarrow> string" where
  "disk_name E dk = (let l = fld ''label'' (disk_meta E dk) in
     class_el ''span'' ''dname'' (esc (if truthy l then js_text E l else diskLabel E (fld ''mount'' dk)) @ '' '' @
       class_el ''span'' ''muted'' (shown_text E (fld ''mount'' dk))))"

definition disk_kind :: "page_env \<Rightarrow> jsval \<Rightarrow> string" where
  "disk_kind E dk = esc (if truthy (fld ''model'' dk)
     then js_text E (fld ''model'' dk) @ '' '' @ MIDDOT @ '' '' @ page_tr E (if truthy (fld ''rotational'' dk) then ''disk.hdd'' else ''disk.ssd'') []
     else js_text E (js_or (js_or (fld ''fstype'' dk) (fld ''source'' dk)) (JStr [])))"

definition disk_warn :: "page_env \<Rightarrow> jsval \<Rightarrow> string" where
  "disk_warn E dk = (let w = fld ''warn'' (disk_meta E dk) in
     if truthy w then '' '' @ class_el ''span'' ''dwarn'' (WARN_SIGN @ '' '' @ shown_text E w) else [])"

text \<open>\<^verbatim>\<open>(avail / size) * 100\<close>\<close>

definition free_pct :: "page_env \<Rightarrow> jsval \<Rightarrow> jnum" where
  "free_pct E dk = (if \<not> truthy (fld ''size'' dk) then Fin 100
     else case (number_of E (fld ''avail'' dk), number_of E (fld ''size'' dk)) of (Fin a, Fin b) \<Rightarrow> Fin (a / b * 100) | _ \<Rightarrow> NaN)"

definition disk_row :: "page_env \<Rightarrow> jsval list \<Rightarrow> jsval \<Rightarrow> string" where
  "disk_row E io dk =
    (let warn = disk_warn E dk; free = free_pct E dk;
         freeCls = (if below free 5 then ''hl-red'' else if below free 10 then ''hl-amber'' else ''dfree'') in
     class_el ''div'' ''disk''
       (if fld ''mounted'' dk = JBool False
        then class_el ''div'' ''dtop'' (disk_name E dk @ class_el ''span'' ''v hl-amber'' (esc_tr E ''disk.notMounted'' [])) @
          (if warn \<noteq> [] then class_el ''div'' ''dmodel'' warn else [])
        else class_el ''div'' ''dtop'' (disk_name E dk @
            class_el ''span'' ''v'' (fmtBytes E (fld ''used'' dk) @ '' / '' @ fmtBytes E (fld ''size'' dk))) @
          meter (number_of E (fld ''pct'' dk)) (HCLS (health (number_of E (fld ''pct'' dk)) 78 90)) @
          class_el ''div'' ''dmodel'' (disk_kind E dk @ '' '' @
            class_el ''span'' freeCls (MIDDOT @ '' '' @ esc_tr E ''disk.free'' [(''size'', JStr (fmtBytes E (fld ''avail'' dk)))]) @
            diskIo E dk io @ warn)))"

section \<open>The network\<close>

definition plus_num :: "page_env \<Rightarrow> jsval \<Rightarrow> jsval \<Rightarrow> jnum" where
  "plus_num E a b = (case (number_of E a, number_of E b) of (Fin x, Fin y) \<Rightarrow> Fin (x + y) | _ \<Rightarrow> NaN)"

definition traffic_row :: "page_env \<Rightarrow> string \<Rightarrow> jsval \<Rightarrow> bool \<Rightarrow> string" where
  "traffic_row E label v withAvg = (let cell = class_el ''td'' in
     el ''tr'' [] (el ''td'' [] (esc label) @ cell ''rx'' (fmtBytes E (fld ''rx'' v)) @ cell ''tx'' (fmtBytes E (fld ''tx'' v)) @
       el ''td'' [] (fmtBytes E (JNum (plus_num E (fld ''rx'' v) (fld ''tx'' v)))) @
       cell ''rx'' (if withAvg then fmtRate E (fld ''avgRx'' v) False else EMDASH) @
       cell ''tx'' (if withAvg then fmtRate E (fld ''avgTx'' v) False else EMDASH)))"

definition net_table :: "page_env \<Rightarrow> jsval \<Rightarrow> string" where
  "net_table E n = concat (map (\<lambda>(label, v, avg). traffic_row E (page_tr E label []) v avg)
     (filter (\<lambda>(label, v, avg). truthy v)
       [(''net.today'', fld ''today'' n, True), (''net.month'', fld ''month'' n, True), (''net.allTime'', fld ''total'' n, False)]))"

definition max_num :: "jnum \<Rightarrow> jnum \<Rightarrow> jnum" where
  "max_num a b = (case (a, b) of (Fin x, Fin y) \<Rightarrow> Fin (max x y) | (NaN, _) \<Rightarrow> NaN | (_, NaN) \<Rightarrow> NaN
     | (PosInf, _) \<Rightarrow> PosInf | (_, PosInf) \<Rightarrow> PosInf | (NegInf, y) \<Rightarrow> y | (x, NegInf) \<Rightarrow> x)"

definition share_text :: "jnum \<Rightarrow> jnum \<Rightarrow> string" where
  "share_text x peak = (case (x, peak) of (Fin a, Fin b) \<Rightarrow> toFixed 2 (a / b * 100) | _ \<Rightarrow> ''NaN'')"

definition bar_sum :: "page_env \<Rightarrow> jsval \<Rightarrow> jnum" where
  "bar_sum E x = plus_num E (fld ''rx'' x) (fld ''tx'' x)"

definition net_bar :: "page_env \<Rightarrow> jnum \<Rightarrow> jsval \<Rightarrow> string" where
  "net_bar E peak x =
    el ''span'' [(''class'', ''d''), (''data-t'', shown_text E (fld ''title'' x)), (''data-rx'', js_text E (fld ''rx'' x)), (''data-tx'', js_text E (fld ''tx'' x))]
      (el ''span'' [(''class'', ''up''), (''data-h'', share_text (number_of E (fld ''tx'' x)) peak)] [] @
       el ''span'' [(''class'', ''dn''), (''data-h'', share_text (number_of E (fld ''rx'' x)) peak)] [])"

text \<open>\<^verbatim>\<open>rows.reduce((a, x) => ...)\<close>: the first of the busiest.\<close>

definition more_num :: "jnum \<Rightarrow> jnum \<Rightarrow> bool" where
  "more_num a b = (case (a, b) of (Fin x, Fin y) \<Rightarrow> y < x | _ \<Rightarrow> False)"

definition busiest :: "page_env \<Rightarrow> jsval list \<Rightarrow> jsval \<Rightarrow> jsval" where
  "busiest E = fold (\<lambda>x a. if more_num (bar_sum E x) (bar_sum E a) then x else a)"

text \<open>The bars and the line under them.\<close>

definition renderNetBars :: "page_env \<Rightarrow> bool \<Rightarrow> jsval \<Rightarrow> string \<times> string" where
  "renderNetBars E hourly n =
    (let rows = arr_or_empty (fld (if hourly then ''hours'' else ''days'') n);
         peak = fold max_num (map (bar_sum E) rows) (Fin 1);
         sep = '' '' @ class_el ''span'' ''muted'' ''|'' @ '' '' in
     (concat (map (net_bar E peak) rows),
      (case rows of [] \<Rightarrow> []
       | x # xs \<Rightarrow> (let b = busiest E xs x in
           esc_tr E ''net.peak'' [] @ sep @ shown_text E (fld ''label'' b) @ sep @
           class_el ''span'' ''rx'' (''&#8595;&nbsp;'' @ fmtBytes E (fld ''rx'' b)) @ '' '' @
           class_el ''span'' ''tx'' (''&#8593;&nbsp;'' @ fmtBytes E (fld ''tx'' b)) @ '' '' @
           class_el ''span'' ''v'' (fmtBytes E (JNum (bar_sum E b)))))))"

section \<open>Containers\<close>

text \<open>
  What the panel knows beside the snapshot: the chosen order, whether the whole list is shown, whether this client may control
  containers and looks at the hub's own host, and the names of the rows that are open.
\<close>

record docker_view =
  dv_byCpu :: bool
  dv_expanded :: bool
  dv_allowed :: bool
  dv_local :: bool
  dv_open :: "string list"

definition SVC_LIMIT :: nat where "SVC_LIMIT = 10"

text \<open>\<^verbatim>\<open>/^https?:\/\//i\<close>\<close>

definition is_http :: "string \<Rightarrow> bool" where
  "is_http s \<longleftrightarrow> starts_with ''http://'' (lower_case s) \<or> starts_with ''https://'' (lower_case s)"

definition portainerLink :: "page_env \<Rightarrow> jsval \<Rightarrow> string" where
  "portainerLink E c =
    (let url = str_of (fld ''portainerUrl'' (JObj (e_cfg E)));
         base = (if url \<noteq> [] \<and> last url = CHR ''/'' then butlast url else url);
         ep = (case number_of E (fld ''portainerEndpoint'' (JObj (e_cfg E))) of Fin q \<Rightarrow> if q = 0 then Fin 1 else Fin q | NaN \<Rightarrow> Fin 1 | n \<Rightarrow> n) in
     if \<not> is_http base \<or> \<not> truthy (fld ''id'' c) then []
     else el ''a'' [(''class'', ''sb''), (''href'', esc base @ ''/#!/'' @ num_text E ep @ ''/docker/containers/'' @ shown_text E (fld ''id'' c)),
       (''target'', ''_blank''), (''rel'', ''noopener'')] (esc_tr E ''svc.portainer'' []))"

definition ctl_button :: "string \<Rightarrow> string \<Rightarrow> string \<Rightarrow> string" where
  "ctl_button cls a body = el ''button'' [(''class'', cls), (''data-a'', a)] body"

definition is_running :: "jsval \<Rightarrow> bool" where
  "is_running c \<longleftrightarrow> fld ''state'' c = JStr ''running''"

definition ctlButtons :: "page_env \<Rightarrow> docker_view \<Rightarrow> jsval \<Rightarrow> string" where
  "ctlButtons E v c =
    (if \<not> dv_allowed v \<or> \<not> dv_local v then []
     else class_el ''div'' ''svc-ctl''
       ((if is_running c then ctl_button ''sb'' ''restart'' (esc_tr E ''svc.restart'' []) @ ctl_button ''sb stop'' ''stop'' (esc_tr E ''svc.stop'' [])
         else ctl_button ''sb start'' ''start'' (esc_tr E ''svc.start'' [])) @
        portainerLink E c @ ctl_button ''sb'' ''logs'' (esc_tr E ''svc.logs'' [])))"

definition cpu_class :: "level \<Rightarrow> string" where
  "cpu_class l = (case l of LOk \<Rightarrow> ''cpu-ok'' | LWarn \<Rightarrow> ''cpu-hot'' | LCrit \<Rightarrow> ''cpu-max'')"

text \<open>\<^verbatim>\<open>c.cpu || 0\<close>, \<^verbatim>\<open>c.mem || 0\<close> of a number or nothing\<close>

definition amount :: "page_env \<Rightarrow> string \<Rightarrow> jsval \<Rightarrow> rat" where
  "amount E k c = (case number_of E (fld k c) of Fin q \<Rightarrow> q | _ \<Rightarrow> 0)"

definition lamp_of :: "jsval \<Rightarrow> string" where
  "lamp_of c = (if is_running c then if fld ''health'' c = JStr ''unhealthy'' then ''warn'' else ''up''
     else if fld ''state'' c = JStr ''exited'' \<or> fld ''state'' c = JStr ''dead'' then ''down'' else ''idle'')"

definition svc_stats :: "page_env \<Rightarrow> rat \<Rightarrow> jsval \<Rightarrow> string" where
  "svc_stats E maxMem c = (let cpu = amount E ''cpu'' c; mem = amount E ''mem'' c in
     el ''span'' [(''class'', ''scpubar'' @ (if 1 / 2 < cpu then [] else '' flat''))]
       (el ''i'' [(''data-w'', if 1 / 2 < cpu then num_text E (clamp (Fin cpu) 1 100) else ''0'')] []) @
     class_el ''span'' (''scpu '' @ HL (health (Fin cpu) 50 80))
       (if absent (fld ''cpu'' c) then DASH else fixed_text (if below (number_of E (fld ''cpu'' c)) 10 then 1 else 0) (number_of E (fld ''cpu'' c)) @ ''%'') @
     el ''span'' [(''class'', ''smem '' @ HL (health (Fin mem) 500000000 2000000000)),
         (''title'', esc_tr E ''svc.memTitle'' [(''pct'', JStr (toFixed 0 (mem / maxMem * 100)))])] (fmtBytes E (fld ''mem'' c)))"

definition svc_row :: "page_env \<Rightarrow> docker_view \<Rightarrow> rat \<Rightarrow> jsval \<Rightarrow> string" where
  "svc_row E v maxMem c =
    (let name = shown_text E (fld ''name'' c) in
     el ''div'' [(''class'', ''svc '' @ cpu_class (health (Fin (amount E ''cpu'' c)) 50 80) @ (if js_text E (fld ''name'' c) \<in> set (dv_open v) then '' open'' else [])),
         (''data-name'', name), (''title'', name @ '' '' @ EMDASH @ '' '' @ shown_text E (js_or (fld ''status'' c) (JStr [])))]
       (class_el ''div'' ''svc-main''
          (class_el ''span'' ''sname'' (class_el ''span'' (''cd '' @ lamp_of c) [] @ name) @
           (if is_running c \<and> \<not> absent (fld ''mem'' c) then svc_stats E maxMem c
            else class_el ''span'' ''sstate'' (shown_text E (fld ''state'' c)))) @
        ctlButtons E v c))"

text \<open>The running containers in the chosen order, those of them shown, and all others.\<close>

definition more_first :: "page_env \<Rightarrow> docker_view \<Rightarrow> jsval \<Rightarrow> jsval \<Rightarrow> rat" where
  "more_first E v a b = (let k = (if dv_byCpu v then ''cpu'' else ''mem'') in amount E k b - amount E k a)"

definition svc_running :: "page_env \<Rightarrow> docker_view \<Rightarrow> jsval list \<Rightarrow> jsval list" where
  "svc_running E v cs = sort_by (more_first E v) (filter is_running cs)"

definition svc_shown :: "page_env \<Rightarrow> docker_view \<Rightarrow> jsval list \<Rightarrow> jsval list" where
  "svc_shown E v cs = (if dv_expanded v then svc_running E v cs else take SVC_LIMIT (svc_running E v cs)) @ filter (\<lambda>c. \<not> is_running c) cs"

definition svc_hidden :: "page_env \<Rightarrow> docker_view \<Rightarrow> jsval list \<Rightarrow> nat" where
  "svc_hidden E v cs = (if dv_expanded v then 0 else length (svc_running E v cs) - SVC_LIMIT)"

definition svc_note :: "page_env \<Rightarrow> docker_view \<Rightarrow> jsval list \<Rightarrow> string" where
  "svc_note E v cs = (let up = filter is_running cs in
     page_tr E ''svc.up'' [(''running'', JNum (Fin (of_nat (length up)))), (''total'', JNum (Fin (of_nat (length cs))))] @
     (if list_ex (\<lambda>c. \<not> absent (fld ''mem'' c)) up
      then '' '' @ MIDDOT @ '' '' @ fmtBytes E (JNum (Fin (sum_list (map (amount E ''mem'') up)))) @ '' '' @ MIDDOT @ '' '' @
        page_tr E ''svc.cpu'' [(''pct'', JStr (toFixed 0 (sum_list (map (amount E ''cpu'') up))))]
      else []) @
     (if \<not> dv_local v then '' '' @ MIDDOT @ '' '' @ page_tr E ''svc.hubOnly'' [] else if dv_allowed v then []
      else '' '' @ MIDDOT @ '' '' @ page_tr E ''svc.lanOnly'' []))"

text \<open>The note, the markup of the list, and the word on the button below it when it is there.\<close>

definition renderDocker :: "page_env \<Rightarrow> docker_view \<Rightarrow> jsval list \<Rightarrow> string \<times> string \<times> string option" where
  "renderDocker E v cs =
    (let maxMem = fold max (map (amount E ''mem'') (filter is_running cs)) 1 in
     (svc_note E v cs, concat (map (svc_row E v maxMem) (svc_shown E v cs)),
      if 0 < svc_hidden E v cs then Some (page_tr E ''svc.more'' [(''n'', JNum (Fin (of_nat (svc_hidden E v cs))))])
      else if dv_expanded v \<and> SVC_LIMIT < length (svc_running E v cs) then Some (page_tr E ''svc.less'' []) else None))"

section \<open>The whole view\<close>

text \<open>The markup of the CPU panel. The line of the load throws when the snapshot has no load.\<close>

definition core_bar :: "page_env \<Rightarrow> jsval \<Rightarrow> string" where
  "core_bar E v = (let n = number_of E v; cls = (if at_least n 85 then ''max'' else if at_least n 55 then ''hot'' else []) in
     el ''span'' [(''class'', ''cbar '' @ cls), (''title'', js_text E v @ ''%'')] (el ''i'' [(''data-h'', num_text E (clamp n 2 100))] []))"

definition cpu_ratio :: "page_env \<Rightarrow> jsval \<Rightarrow> jnum" where
  "cpu_ratio E c = (if truthy (fld ''cores'' c)
     then (case (map (number_of E) (arr_or_empty (fld ''load'' c)), number_of E (fld ''cores'' c)) of (Fin a # _, Fin b) \<Rightarrow> Fin (a / b) | _ \<Rightarrow> NaN) else Fin 0)"

definition load_html :: "page_env \<Rightarrow> jsval \<Rightarrow> string + string" where
  "load_html E c = (case fld ''load'' c of
       JArr xs \<Rightarrow> Inr (class_el ''span'' (HL (health (cpu_ratio E c) 1 2)) (Channels.join_with '' / '' (map (\<lambda>x. fixed_text 2 (number_of E x)) xs)))
     | _ \<Rightarrow> Inl ''TypeError'')"

definition used_pct :: "page_env \<Rightarrow> string \<Rightarrow> string \<Rightarrow> jsval \<Rightarrow> jnum" where
  "used_pct E k t m = (if truthy (fld t m)
     then (case (number_of E (fld k m), number_of E (fld t m)) of (Fin a, Fin b) \<Rightarrow> Fin (a / b * 100) | _ \<Rightarrow> NaN) else Fin 0)"

definition temp_bar :: "page_env \<Rightarrow> jsval \<Rightarrow> string" where
  "temp_bar E pkg = (if absent pkg then meter_of (Fin 0) (HCLS LOk) ''--''
     else meter_of (tempPct (number_of E pkg)) (HCLS (health (number_of E pkg) 70 85)) (fmtTemp E pkg False))"

text \<open>The words of each panel: what is set as text, not as markup. \<open>past\<close> is the share of the month that is over.\<close>

definition host_words :: "page_env \<Rightarrow> jsval \<Rightarrow> (string \<times> string) list" where
  "host_words E h = (let name = (if truthy (fld ''name'' h) then js_text E (fld ''name'' h) else page_tr E ''head.host'' []) in
     [(''hostname'', name), (''ps1'', page_tr E ''prompt.user'' [(''host'', JStr name)]),
      (''hostmeta'', Channels.join_with (''  '' @ MIDDOT @ ''  '') (filter (\<lambda>x. x \<noteq> [])
         [if truthy (fld ''distro'' h) then js_text E (fld ''distro'' h) else [], page_tr E ''head.kernel'' [(''version'', fld ''kernel'' h)],
          page_tr E ''head.uptime'' [(''time'', JStr (fmtDur E (fld ''uptime'' h)))]]))])"

definition mem_words :: "page_env \<Rightarrow> jsval \<Rightarrow> jnum \<Rightarrow> (string \<times> string) list" where
  "mem_words E m pct =
    [(''mem-used'', fmtBytes E (fld ''used'' m)), (''mem-total'', fmtBytes E (fld ''total'' m)), (''mem-used2'', fmtBytes E (fld ''used'' m)),
     (''mem-cache'', fmtBytes E (fld ''cache'' m)), (''mem-avail'', fmtBytes E (fld ''available'' m)),
     (''mem-swap'', if truthy (fld ''swapTotal'' m) then fmtBytes E (fld ''swapUsed'' m) @ '' / '' @ fmtBytes E (fld ''swapTotal'' m) else page_tr E ''mem.swapOff'' []),
     (''mem-note'', page_tr E ''mem.inUse'' [(''pct'', JStr (round_text pct))])]"

definition TIMES_SIGN :: string where "TIMES_SIGN = [CHR 0xD7]"

definition cpu_words :: "page_env \<Rightarrow> jsval \<Rightarrow> (string \<times> string) list" where
  "cpu_words E c =
    [(''cpu-loadn'', if truthy (fld ''cores'' c) then fixed_text 2 (cpu_ratio E c) @ '' '' @ TIMES_SIGN @ '' '' @ js_text E (fld ''cores'' c) else EMDASH),
     (''cpu-note'', page_tr E ''cpu.threads'' [(''n'', fld ''cores'' c)])]"

definition bare_temp :: "page_env \<Rightarrow> jsval \<Rightarrow> string" where
  "bare_temp E v = (let t = fmtTemp E v False in takeWhile (\<lambda>c. [c] \<noteq> DEGREE) t @ tl (dropWhile (\<lambda>c. [c] \<noteq> DEGREE) t))"

definition sensor_words :: "page_env \<Rightarrow> jsval list \<Rightarrow> string" where
  "sensor_words E ss = (let core = (\<lambda>x. let l = lower_case (js_text E (fld ''label'' x)) in list_ex (\<lambda>i. starts_with ''core'' (drop i l)) [0..<length l]);
       short = (\<lambda>l. if starts_with ''Core '' l then ''c'' @ drop 5 l else l) in
     if filter core ss \<noteq> [] then Channels.join_with ''  '' (map (\<lambda>x. short (js_text E (fld ''label'' x)) @ '' '' @ fmtTemp E (fld ''value'' x) False) (filter core ss))
     else Channels.join_with ''  '' (map (\<lambda>x. js_text E (fld ''label'' x) @ '' '' @ fmtTemp E (fld ''value'' x) False) ss))"

definition range_words :: "page_env \<Rightarrow> jsval list \<Rightarrow> (string \<times> string) list" where
  "range_words E temps = (case List.map_filter finite_num temps of
       [] \<Rightarrow> []
     | q # qs \<Rightarrow> [(''temp-range'', page_tr E ''temp.rangeValue''
         [(''lo'', JStr (fmtTemp E (JNum (Fin (fold min qs q))) False)), (''hi'', JStr (fmtTemp E (JNum (Fin (fold max qs q))) False)),
          (''avg'', JStr (fmtTemp E (JNum (Fin (sum_list (q # qs) / of_nat (length (q # qs))))) False))])])"

definition temp_words :: "page_env \<Rightarrow> jsval \<Rightarrow> jsval list \<Rightarrow> (string \<times> string) list" where
  "temp_words E t temps = (let pkg = fld ''package'' t in
     [(''temp-pkg'', if absent pkg then EMDASH else bare_temp E pkg), (''temp-unit'', page_tr E ''temp.package'' [(''unit'', JStr (tempUnit E))])] @
     range_words E temps @ [(''temp-cores'', sensor_words E (arr_or_empty (fld ''sensors'' t)))])"

definition net_words :: "page_env \<Rightarrow> rat \<Rightarrow> jsval \<Rightarrow> (string \<times> string) list" where
  "net_words E past n =
    [(''net-iface'', if truthy (fld ''iface'' n) then js_text E (fld ''iface'' n) else []),
     (''net-rx-rate'', fmtRate E (fld ''rateRx'' n) False), (''net-tx-rate'', fmtRate E (fld ''rateTx'' n) False),
     (''net-est'', if \<not> truthy (fld ''month'' n) then page_tr E ''net.liveOnly'' []
        else if 2 / 100 < past then page_tr E ''net.projected'' [(''size'', JStr (fmtBytes E (case bar_sum E (fld ''month'' n) of Fin q \<Rightarrow> JNum (Fin (q / past)) | x \<Rightarrow> JNum x)))]
        else [])]"

text \<open>
  What is written into the document as pairs of a place and what it is set to, panel by panel; an exception ends the drawing
  with what was written until then. \<open>td\<close> are the trend lines after this snapshot was pushed, \<open>uid\<close> the number of the last line drawn.
\<close>

datatype content = Markup string | Words string

definition markup :: "(string \<times> string) list \<Rightarrow> (string \<times> content) list" where
  "markup ws = map (\<lambda>(p, h). (p, Markup h)) ws"

definition wording :: "(string \<times> string) list \<Rightarrow> (string \<times> content) list" where
  "wording ws = map (\<lambda>(p, t). (p, Words t)) ws"

fun drawing :: "(string + (string \<times> content) list) list \<Rightarrow> (string \<times> content) list \<times> string option" where
  "drawing [] = ([], None)"
| "drawing (Inl e # rest) = ([], Some e)"
| "drawing (Inr ws # rest) = (case drawing rest of (vs, e) \<Rightarrow> (ws @ vs, e))"

text \<open>A line takes a number when it is drawn.\<close>

definition lines_of :: "page_env \<Rightarrow> jsval list \<Rightarrow> nat" where
  "lines_of E vs = (if length (drawn_numbers E vs) < 3 then 0 else 1)"

definition part :: "jsval \<Rightarrow> string \<Rightarrow> (string \<times> string) list \<Rightarrow> (string \<times> string) list \<Rightarrow> string + (string \<times> content) list" where
  "part d k ms ws = Inr (if truthy (fld k d) then markup ms @ wording ws else [])"

definition early_steps :: "page_env \<Rightarrow> trends \<Rightarrow> nat \<Rightarrow> jsval \<Rightarrow> (string + (string \<times> content) list) list" where
  "early_steps E td uid d =
    (let mem = fld ''mem'' d; cpu = fld ''cpu'' d; pct = used_pct E ''used'' ''total'' mem;
         u1 = uid + (if truthy mem then lines_of E (td_mem td) else 0) in
     [part d ''host'' [] (host_words E (fld ''host'' d)),
      part d ''mem'' [(''mem-bar'', meter pct (HCLS (health pct 75 90))), (''mem-spark'', sparkSvg (uid + 1) (drawn_numbers E (td_mem td)))] (mem_words E mem pct),
      part d ''cpu'' [(''cpu-bar'', meter (number_of E (fld ''usage'' cpu)) []), (''cpu-spark'', sparkSvg (u1 + 1) (drawn_numbers E (td_cpu td)))]
        [(''cpu-pct'', if absent (fld ''usage'' cpu) then [] else js_text E (fld ''usage'' cpu))]])"

definition load_step :: "page_env \<Rightarrow> jsval \<Rightarrow> string + (string \<times> content) list" where
  "load_step E d = (if truthy (fld ''cpu'' d) then bindE (load_html E (fld ''cpu'' d)) (\<lambda>h. Inr (markup [(''cpu-load'', h)])) else Inr [])"

definition later_steps :: "page_env \<Rightarrow> docker_view \<Rightarrow> bool \<Rightarrow> rat \<Rightarrow> trends \<Rightarrow> nat \<Rightarrow> jsval \<Rightarrow> (string + (string \<times> content) list) list" where
  "later_steps E v hourly past td uid d =
    (let cpu = fld ''cpu'' d; net = fld ''net'' d; temp = fld ''temp'' d;
         u2 = uid + (if truthy (fld ''mem'' d) then lines_of E (td_mem td) else 0) + (if truthy cpu then lines_of E (td_cpu td) else 0) in
     [part d ''cpu'' (if is_number (fld ''iowait'' cpu) then [(''cpu-wait'', waitHtml E cpu)] else []) (cpu_words E cpu),
      part d ''cpu'' [(''cpu-cores'', concat (map (core_bar E) (arr_or_empty (fld ''per'' cpu))))] [],
      part d ''pressure'' [(''cpu-psi'', pressureHtml E (fld ''pressure'' d))] [],
      part d ''temp'' [(''temp-bar'', temp_bar E (fld ''package'' temp)), (''temp-spark'', sparkSvg (u2 + 1) (map (\<lambda>t. tempPct (number_of E t)) (td_temp td)))]
        (temp_words E temp (td_temp td)),
      part d ''disks'' [(''disks'', concat (map (disk_row E (arr_or_empty (fld ''io'' d))) (arr_or_empty (fld ''disks'' d))))] [],
      part d ''net'' [(''net-tbody'', net_table E net), (''net-bars'', fst (renderNetBars E hourly net)), (''net-days-range'', snd (renderNetBars E hourly net))]
        (net_words E past net),
      part d ''processes'' [(''procs-cpu'', procRows E (\<lambda>p. fmtShare E (fld ''cpuPct'' p)) (fld ''cpu'' (fld ''processes'' d))),
        (''procs-mem'', procRows E (\<lambda>p. fmtBytes E (fld ''rss'' p)) (fld ''mem'' (fld ''processes'' d)))] [],
      part d ''ubuntu'' (let y = systemHtml E (fld ''ubuntu'' d) in
        [(''sys-updates'', sy_updates y), (''sys-reboot'', sy_reboot y), (''sys-failed'', sy_failed y), (''sys-units'', sy_units y)]) [],
      Inr (markup [(''hw-body'', hardwareHtml E d)]),
      part d ''docker'' [(''docker-list'', fst (snd (renderDocker E v (arr_or_empty (fld ''docker'' d)))))]
        [(''docker-note'', fst (renderDocker E v (arr_or_empty (fld ''docker'' d))))]])"

definition panel_steps :: "page_env \<Rightarrow> docker_view \<Rightarrow> bool \<Rightarrow> rat \<Rightarrow> trends \<Rightarrow> nat \<Rightarrow> jsval \<Rightarrow> (string + (string \<times> content) list) list" where
  "panel_steps E v hourly past td uid d = early_steps E td uid d @ load_step E d # later_steps E v hourly past td uid d"

definition load_throws :: "page_env \<Rightarrow> jsval \<Rightarrow> bool" where
  "load_throws E d \<longleftrightarrow> truthy (fld ''cpu'' d) \<and> (case load_html E (fld ''cpu'' d) of Inl _ \<Rightarrow> True | Inr _ \<Rightarrow> False)"

text \<open>The temperature is pushed after the CPU's load is drawn.\<close>

definition renderMetrics :: "page_env \<Rightarrow> docker_view \<Rightarrow> bool \<Rightarrow> rat \<Rightarrow> page \<Rightarrow> nat \<Rightarrow> jsval \<Rightarrow> page \<times> (string \<times> content) list \<times> string option" where
  "renderMetrics E v hourly past p uid d =
    (let q = (if load_throws E d then push_cpu d (push_mem d (seedTrend d p)) else push_metrics d p) in
     (q, drawing (panel_steps E v hourly past (pg_trends q) uid d)))"

text \<open>The panels a whole drawing leaves hidden: a group the snapshot does not have, or one the person switched off.\<close>

definition hidden_panels :: "page_env \<Rightarrow> page \<Rightarrow> jsval \<Rightarrow> string list" where
  "hidden_panels E p d =
    (let set = panelSet (e_cfg E) (shown_node p) in
     map fst (filter (\<lambda>(panel, g). \<not> truthy (fld g d) \<or> panel_hidden set panel)
       [(''network'', ''net''), (''mem'', ''mem''), (''cpu'', ''cpu''), (''temp'', ''temp''), (''storage'', ''disks''), (''docker'', ''docker''),
        (''procs'', ''processes''), (''system'', ''ubuntu'')]) @
     (if hardwareHtml E d = [] \<or> panel_hidden set ''hw'' then [''hw''] else []))"

section \<open>The markup is the page's own\<close>

lemma in_quotes_simps [simp]: "in_quotes []" "in_quotes (c # s) \<longleftrightarrow> c \<noteq> CHR 0x22 \<and> in_quotes s"
  "in_quotes (a @ b) \<longleftrightarrow> in_quotes a \<and> in_quotes b"
  by (auto simp: in_quotes_def)

lemma safe_Cons [simp]: "c \<noteq> CHR ''<'' \<Longrightarrow> safe (c # s) \<longleftrightarrow> safe s"
  by (simp add: safe_def)

lemma safe_map [drawn]:
  "(\<And>x. x \<in> set xs \<Longrightarrow> safe (f x)) \<Longrightarrow> safe (concat (map f xs))"
  "safe sep \<Longrightarrow> (\<And>x. x \<in> set xs \<Longrightarrow> safe (f x)) \<Longrightarrow> safe (Channels.join_with sep (map f xs))"
  by (rule safe_concat, auto) (rule safe_join, auto)

lemma class_safe [drawn]:
  "in_quotes c \<Longrightarrow> safe h \<Longrightarrow> safe (class_el ''span'' c h)"
  "in_quotes c \<Longrightarrow> safe h \<Longrightarrow> safe (class_el ''div'' c h)"
  "in_quotes c \<Longrightarrow> safe h \<Longrightarrow> safe (class_el ''td'' c h)"
  by (simp_all add: class_el_def safe_el TAGS_def)

lemma inert_esc_tr [simp]: "inert (esc_tr E k vs)" "inert (shown_text E v)" "inert EMDASH" "inert WARN_SIGN"
  by (simp_all add: esc_tr_def shown_text_def EMDASH_def WARN_SIGN_def)

lemma wait_safe [drawn]: "safe (waitHtml E c)"
  by (simp add: waitHtml_def Let_def drawn)

lemma pressure_safe [drawn]: "safe (pressureHtml E p)"
  unfolding pressureHtml_def by (rule safe_map) (auto simp: Let_def drawn)

lemma diskIo_safe [drawn]: "safe (diskIo E dk io)"
  by (simp add: diskIo_def drawn split: option.split)

lemma div_titled [drawn]: "in_quotes c \<Longrightarrow> in_quotes t \<Longrightarrow> safe h \<Longrightarrow> safe (el ''div'' [(''class'', c), (''title'', t)] h)"
  by (simp add: safe_el TAGS_def)

lemma procRows_safe [drawn]: "(\<And>p. inert (value p)) \<Longrightarrow> safe (procRows E value v)"
  by (auto simp: procRows_def drawn split: list.split)

lemma plain_num_text [drawn]: "plain_numbers E \<Longrightarrow> inert (num_text E n)"
  by (simp add: num_text_def plain_numbers_def split: jnum.split)

lemma system_safe [drawn]:
  assumes "plain_numbers E"
  shows "safe (sy_updates (systemHtml E u))" "safe (sy_reboot (systemHtml E u))" "safe (sy_failed (systemHtml E u))" "safe (sy_units (systemHtml E u))"
  using assms by (simp_all add: systemHtml_def updates_html_def drawn split: jsval.split bool.split)

lemma hw_row_safe [drawn]: "safe v \<Longrightarrow> safe (hw_row k v)"
  by (simp add: hw_row_def drawn)

lemma battery_safe [drawn]: "plain_numbers E \<Longrightarrow> safe (battery_row E b)"
  by (simp add: battery_row_def battery_status_def Let_def drawn)

lemma hw_list_safe [drawn]: "(\<And>x. safe (row x)) \<Longrightarrow> safe (hw_list E title row xs)"
  by (simp add: hw_list_def drawn)

lemma hardware_safe [drawn]: "plain_numbers E \<Longrightarrow> safe (hardwareHtml E d)"
  by (simp add: hardwareHtml_def fan_row_def volt_row_def Let_def drawn)

lemma el_i_safe [drawn]: "in_quotes t \<Longrightarrow> safe h \<Longrightarrow> safe (el ''i'' [(''data-w'', t)] h)" "in_quotes t \<Longrightarrow> safe h \<Longrightarrow> safe (el ''i'' [(''data-h'', t)] h)"
  by (simp_all add: safe_el TAGS_def)

lemma meter_safe [drawn]: "in_quotes cls \<Longrightarrow> safe h \<Longrightarrow> safe (meter_of n cls h)" "in_quotes f \<Longrightarrow> safe (meter n f)"
  by (simp_all add: meter_def meter_of_def Let_def drawn)

lemma inert_points: "inert (spark_points vs)"
  unfolding spark_points_def by (rule inert_join) (auto simp: list_all_iff)

lemma spark_safe [drawn]: "safe (sparkSvg uid vs)"
  using inert_value [OF inert_points]
  by (simp add: sparkSvg_def Let_def safe_Nil safe_append safe_el safe_leaf TAGS_def LEAVES_def inert_value)

section \<open>Storage, network, containers\<close>

lemma disk_parts_safe [drawn]: "safe (disk_name E dk)" "safe (disk_kind E dk)" "safe (disk_warn E dk)"
  by (simp_all add: disk_name_def disk_kind_def disk_warn_def Let_def drawn)

lemma disk_row_safe [drawn]: "safe (disk_row E io dk)"
  by (simp add: disk_row_def Let_def drawn)

lemma row_safe [drawn]: "safe h \<Longrightarrow> safe (el ''tr'' [] h)" "safe h \<Longrightarrow> safe (el ''td'' [] h)"
  by (simp_all add: safe_el TAGS_def)

lemma net_table_safe [drawn]: "safe (net_table E n)"
  unfolding net_table_def by (rule safe_map) (auto simp: traffic_row_def Let_def drawn)

lemma share_inert [simp]: "inert (share_text x y)"
  by (simp add: share_text_def split: jnum.split)

lemma bar_safe [drawn]:
  "in_quotes k \<Longrightarrow> safe h \<Longrightarrow> safe (el ''span'' [(''class'', k)] h)"
  "in_quotes a \<Longrightarrow> in_quotes b \<Longrightarrow> in_quotes c \<Longrightarrow> in_quotes k \<Longrightarrow> safe h \<Longrightarrow> safe (el ''span'' [(''class'', k), (''data-t'', a), (''data-rx'', b), (''data-tx'', c)] h)"
  "in_quotes k \<Longrightarrow> in_quotes a \<Longrightarrow> safe h \<Longrightarrow> safe (el ''span'' [(''class'', k), (''data-h'', a)] h)"
  "in_quotes k \<Longrightarrow> in_quotes a \<Longrightarrow> safe h \<Longrightarrow> safe (el ''span'' [(''class'', k), (''title'', a)] h)"
  by (simp_all add: safe_el TAGS_def)

text \<open>The bars' numbers are the only values put into a tag as they are.\<close>

definition bare_bars :: "jsval list \<Rightarrow> bool" where
  "bare_bars = list_all (\<lambda>x. bare (fld ''rx'' x) \<and> bare (fld ''tx'' x))"

lemma net_bars_safe:
  assumes "plain_numbers E" "bare_bars (arr_or_empty (fld (if hourly then ''hours'' else ''days'') n))"
  shows "safe (fst (renderNetBars E hourly n))"
proof -
  have "safe (net_bar E peak x)" if "bare (fld ''rx'' x) \<and> bare (fld ''tx'' x)" for peak x
    using that inert_bare [OF assms(1)] by (simp add: net_bar_def drawn)
  note bar = this
  show ?thesis unfolding renderNetBars_def Let_def fst_conv
    by (rule safe_map, rule bar) (use assms(2) in \<open>auto simp: bare_bars_def list_all_iff\<close>)
qed

lemma net_line_safe [drawn]: "safe (snd (renderNetBars E hourly n))"
  by (simp add: renderNetBars_def Let_def drawn split: list.split)

lemma button_safe [drawn]: "safe h \<Longrightarrow> safe (ctl_button ''sb'' ''restart'' h)" "safe h \<Longrightarrow> safe (ctl_button ''sb stop'' ''stop'' h)"
  "safe h \<Longrightarrow> safe (ctl_button ''sb start'' ''start'' h)" "safe h \<Longrightarrow> safe (ctl_button ''sb'' ''logs'' h)"
  by (simp_all add: ctl_button_def safe_el TAGS_def)

lemma portainer_safe [drawn]: "plain_numbers E \<Longrightarrow> safe (portainerLink E c)"
  by (simp add: portainerLink_def Let_def safe_el TAGS_def drawn)

lemma ctl_safe [drawn]: "plain_numbers E \<Longrightarrow> safe (ctlButtons E v c)"
  by (simp add: ctlButtons_def drawn)

lemma classes_inert [simp]: "inert (cpu_class l)" "inert (lamp_of c)"
  by (simp_all add: cpu_class_def lamp_of_def split: level.split)

lemma stats_safe [drawn]: "plain_numbers E \<Longrightarrow> safe (svc_stats E m c)"
  by (simp add: svc_stats_def Let_def drawn)

lemma svc_row_safe [drawn]: "plain_numbers E \<Longrightarrow> safe (svc_row E v m c)"
  by (simp add: svc_row_def Let_def safe_el TAGS_def drawn)

lemma docker_safe [drawn]: "plain_numbers E \<Longrightarrow> safe (fst (snd (renderDocker E v cs)))"
  by (simp add: renderDocker_def Let_def drawn)

section \<open>A snapshot of the hub\<close>

lemma members_out: "members fs x p = Inr ws \<Longrightarrow> distinct (map fst fs) \<Longrightarrow> (k, f) \<in> set fs \<Longrightarrow> \<exists>q. f (fld k x) q = Inr (fld k (JObj ws))"
proof (induction fs arbitrary: ws)
  case (Cons kf fs)
  obtain k' f' where kf: "kf = (k', f')" by (cases kf)
  obtain w ws' where w: "f' (fld k' x) (p @ ''.'' @ k') = Inr w" "members fs x p = Inr ws'"
    and ws: "ws = (if w = JUndef then ws' else (k', w) # ws')"
    using members_ConsD [OF Cons.prems(1) [unfolded kf]] by blast
  have new: "k' \<notin> fst ` set ws'" using members_keys [OF w(2)] Cons.prems(2) by (auto simp: kf)
  show ?case
  proof (cases "(k, f) = (k', f')")
    case True
    then show ?thesis using w(1) fld_kept(1) [OF new] unfolding ws by auto
  next
    case False
    then have mem: "(k, f) \<in> set fs" using Cons.prems(3) by (auto simp: kf)
    then have "k \<noteq> k'" using Cons.prems(2) by (force simp: kf)
    then show ?thesis using Cons.IH [OF w(2) _ mem] Cons.prems(2) fld_kept(2) [of k k'] unfolding ws by (auto simp: kf simp del: fld.simps)
  qed
qed simp

text \<open>What a checked object holds at a member, and a checked list in it.\<close>

lemma fields_out:
  assumes "obj_check opt (Snapshot.fields fs) v p = Inr w" "distinct (map fst fs)" "(k, f) \<in> set fs"
  shows "(\<exists>u q. f u q = Inr (fld k w)) \<or> fld k w = JUndef"
proof (cases v)
  case (JObj kvs)
  then obtain ws where "members fs v p = Inr ws" "w = JObj ws" using assms(1) by (auto simp: obj_check_def Snapshot.fields_def)
  then show ?thesis using members_out [OF _ assms(2,3)] by blast
qed (use assms(1) in \<open>auto simp: obj_check_def split: if_splits\<close>)

lemma each_out: "each_item f p i vs = Inr ws \<Longrightarrow> x \<in> set ws \<Longrightarrow> \<exists>v q. f v q = Inr x"
proof (induction vs arbitrary: i ws)
  case (Cons v vs)
  then obtain w ws' where "f v (p @ ''['' @ show_nat i @ '']'') = Inr w" "each_item f p (Suc i) vs = Inr ws'" "ws = w # ws'" by auto
  then show ?case using Cons by (cases "x = w") auto
qed simp

lemma list_out: "list_check mx f v p = Inr w \<Longrightarrow> w = JUndef \<or> (\<exists>xs. w = JArr xs \<and> (\<forall>x \<in> set xs. \<exists>v q. f v q = Inr x))"
  by (cases v) (auto simp: list_check_def dest: each_out)

lemma list_items: "list_check mx f v p = Inr w \<Longrightarrow> x \<in> set (arr_or_empty w) \<Longrightarrow> \<exists>v q. f v q = Inr x"
  using list_out [of mx f v p w] by (auto simp: arr_or_empty_def)

lemma num_out: "num lo hi opt intg nullable v p = Inr w \<Longrightarrow> bare w"
  by (auto simp: num_def bare_def split: jsval.splits jnum.splits if_splits)

lemma group_checked: "validate s = Inr (c, ds) \<Longrightarrow> (k, opt, f) \<in> set snapshot_members \<Longrightarrow> f (fld k c) (''$.'' @ k) = Inr (fld k c)"
  using validated_groups(2) [of s c ds "(k, opt, f)"] by (simp add: group_of_def del: fld.simps)

lemma cpu_group:
  assumes "validate s = Inr (c, ds)"
  shows "list_all bare (arr_or_empty (fld ''per'' (fld ''cpu'' c)))"
    and "fld ''load'' (fld ''cpu'' c) = JUndef \<or> (\<exists>xs. fld ''load'' (fld ''cpu'' c) = JArr xs)"
proof -
  have "(''cpu'', True, cpu_check) \<in> set snapshot_members" by (simp add: snapshot_members_def)
  note cpu = group_checked [OF assms this, unfolded cpu_check_def]
  have "(\<exists>u q. list_check 1024 (num 0 100 False False False) u q = Inr (fld ''per'' (fld ''cpu'' c))) \<or> fld ''per'' (fld ''cpu'' c) = JUndef"
    by (rule fields_out [OF cpu]) simp_all
  then show "list_all bare (arr_or_empty (fld ''per'' (fld ''cpu'' c)))"
    by (auto simp: list_all_iff arr_or_empty_def [of JUndef] dest!: list_items num_out simp del: fld.simps)
  have "(\<exists>u q. list_check 3 (num 0 1000000 False False False) u q = Inr (fld ''load'' (fld ''cpu'' c))) \<or> fld ''load'' (fld ''cpu'' c) = JUndef"
    by (rule fields_out [OF cpu]) simp_all
  then show "fld ''load'' (fld ''cpu'' c) = JUndef \<or> (\<exists>xs. fld ''load'' (fld ''cpu'' c) = JArr xs)"
    using list_out by blast
qed

lemma bar_out: "bar v p = Inr x \<Longrightarrow> bare (fld ''rx'' x) \<and> bare (fld ''tx'' x)"
proof -
  assume b: "bar v p = Inr x"
  have *: "(\<exists>u q. counter True False u q = Inr (fld k x)) \<or> fld k x = JUndef" if "k = ''rx'' \<or> k = ''tx''" for k
    by (rule fields_out [OF b [unfolded bar_def]]) (use that in auto)
  have "bare (fld k x)" if k: "k = ''rx'' \<or> k = ''tx''" for k
    using * [OF k] by (auto simp: counter_def bare_def [of JUndef] simp del: fld.simps dest: num_out)
  then show ?thesis by simp
qed

lemma net_group:
  assumes "validate s = Inr (c, ds)" "k = ''days'' \<or> k = ''hours''"
  shows "bare_bars (arr_or_empty (fld k (fld ''vnstat'' (fld ''net'' c))))"
proof -
  have "(''net'', True, net_check) \<in> set snapshot_members" by (simp add: snapshot_members_def)
  note net = group_checked [OF assms(1) this, unfolded net_check_def]
  have "(\<exists>u q. vnstat_check u q = Inr (fld ''vnstat'' (fld ''net'' c))) \<or> fld ''vnstat'' (fld ''net'' c) = JUndef"
    by (rule fields_out [OF net]) simp_all
  then consider u q where "vnstat_check u q = Inr (fld ''vnstat'' (fld ''net'' c))" | "fld ''vnstat'' (fld ''net'' c) = JUndef" by blast
  then show ?thesis
  proof cases
    case 1
    obtain mx where mx: "(k, list_check mx bar) \<in> set [(''days'', list_check 31 bar), (''hours'', list_check 24 bar)]" using assms(2) by auto
    have "(\<exists>u q. list_check mx bar u q = Inr (fld k (fld ''vnstat'' (fld ''net'' c)))) \<or> fld k (fld ''vnstat'' (fld ''net'' c)) = JUndef"
      by (rule fields_out [OF 1 [unfolded vnstat_check_def]]) (use mx in auto)
    then show ?thesis by (auto simp: bare_bars_def list_all_iff arr_or_empty_def [of JUndef] dest!: list_items bar_out simp del: fld.simps)
  qed (simp add: bare_bars_def arr_or_empty_def)
qed

text \<open>A step whose markup is safe.\<close>

definition content_safe :: "content \<Rightarrow> bool" where
  "content_safe w = (case w of Markup h \<Rightarrow> safe h | Words _ \<Rightarrow> True)"

definition fine :: "string + (string \<times> content) list \<Rightarrow> bool" where
  "fine w = (case w of Inl _ \<Rightarrow> True | Inr ws \<Rightarrow> list_all (\<lambda>(place, w). content_safe w) ws)"

lemma fine_simps: "fine (Inr ws) \<longleftrightarrow> list_all (\<lambda>(place, w). content_safe w) ws" "fine (Inl e)"
  by (simp_all add: fine_def)

lemma markup_safe: "list_all (\<lambda>(place, w). content_safe w) (markup ms) \<longleftrightarrow> list_all (\<lambda>(place, html). safe html) ms"
  by (induction ms) (auto simp: markup_def content_safe_def)

lemma wording_safe: "list_all (\<lambda>(place, w). content_safe w) (wording ws)"
  by (induction ws) (auto simp: wording_def content_safe_def)

lemma part_fine: "fine (part d k ms ws) \<longleftrightarrow> (truthy (fld k d) \<longrightarrow> list_all (\<lambda>(place, html). safe html) ms)" "fine (Inr (markup ms)) \<longleftrightarrow> list_all (\<lambda>(place, html). safe html) ms"
  by (simp_all add: part_def fine_simps markup_safe wording_safe)

lemma drawing_fine: "list_all fine steps \<Longrightarrow> list_all (\<lambda>(place, w). content_safe w) (fst (drawing steps))"
  by (induction steps rule: drawing.induct) (auto simp: fine_simps split: prod.split)

lemma falsy_fld: "\<not> truthy v \<Longrightarrow> fld k v = JUndef"
  by (cases v) auto

lemma view_net_group: "c = JObj kvs \<Longrightarrow> k = ''days'' \<or> k = ''hours'' \<Longrightarrow>
    fld k (fld ''net'' (view c prev trend)) = (if truthy (fld ''net'' c) then fld k (fld ''vnstat'' (fld ''net'' c)) else JUndef)"
  by (auto simp: view_def Let_def set_if_lookup view_net_def falsy_fld)

lemma core_safe: "plain_numbers E \<Longrightarrow> bare v \<Longrightarrow> safe (core_bar E v)"
  using inert_bare [of E v] by (simp add: core_bar_def Let_def bar_safe el_i_safe inert_value plain_num_text drawn)

lemma load_safe: "load_html E c = Inr h \<Longrightarrow> safe h"
  by (auto simp: load_html_def Let_def inert_join list_all_iff drawn split: jsval.splits)

lemma temp_bar_safe: "safe (temp_bar E pkg)"
  by (simp add: temp_bar_def drawn)

lemma load_fine: "fine (load_step E d)"
  by (cases "load_html E (fld ''cpu'' d)") (auto simp: load_step_def fine_simps markup_safe dest: load_safe)

lemma steps_fine:
  assumes "plain_numbers E" "list_all bare (arr_or_empty (fld ''per'' (fld ''cpu'' d)))"
    and "\<And>hourly. bare_bars (arr_or_empty (fld (if hourly then ''hours'' else ''days'') (fld ''net'' d)))"
  shows "list_all fine (panel_steps E v hourly past td uid d)"
proof -
  have cores: "safe (concat (map (core_bar E) (arr_or_empty (fld ''per'' (fld ''cpu'' d)))))"
    by (rule safe_map) (use assms(2) core_safe [OF assms(1)] in \<open>auto simp: list_all_iff\<close>)
  have rows: "safe (concat (map (disk_row E io) xs))" for io xs by (rule safe_map) (rule disk_row_safe)
  have wait: "list_all (\<lambda>(place, html). safe html) (if b then [(''cpu-wait'', waitHtml E c)] else [])" for b c by (simp add: wait_safe)
  have bars: "in_quotes (HCLS l)" for l by (simp add: inert_value)
  show ?thesis unfolding panel_steps_def early_steps_def later_steps_def Let_def
    by (simp only: list.pred_inject list_all_append part_fine load_fine wait cores rows temp_bar_safe net_bars_safe [OF assms(1,3)]
        system_safe [OF assms(1)] hardware_safe [OF assms(1)] docker_safe [OF assms(1)] spark_safe pressure_safe net_table_safe net_line_safe
        meter_safe bars in_quotes_simps procRows_safe inert_fmtShare inert_fmtBytes case_prod_conv simp_thms)
qed

text \<open>
  C36. Nothing an agent sends becomes markup: for every snapshot the hub accepted, everything the page writes into the document as
  markup has only the page's own tags and attributes, whatever the names of disks, containers, processes, units, fans or networks, the
  dictionary's words and the person's labels are. (That \<open>e_frac\<close> writes numbers without markup is the hypothesis \<open>plain_numbers\<close>.)
\<close>

theorem snapshot_never_markup:
  assumes "plain_numbers E" "validate s = Inr (c, dropped)"
  shows "list_all (\<lambda>(place, w). content_safe w) (fst (snd (renderMetrics E v hourly past p uid (view c prev trend))))"
proof -
  obtain kvs where c: "c = JObj kvs" using validate_Inr [OF assms(2)] by metis
  have cpu: "fld ''cpu'' (view c prev trend) = fld ''cpu'' c" using view_fields(2) [OF c, of "''cpu''"] by simp
  have net: "bare_bars (arr_or_empty (fld (if b then ''hours'' else ''days'') (fld ''net'' (view c prev trend))))" for b
    using net_group [OF assms(2)] by (simp add: view_net_group [OF c] bare_bars_def arr_or_empty_def [of JUndef] split: if_splits)
  have "list_all (\<lambda>(place, w). content_safe w) (fst (drawing (panel_steps E v hourly past td uid (view c prev trend))))" for td
    by (rule drawing_fine, rule steps_fine [OF assms(1) _ net]) (simp only: cpu cpu_group(1) [OF assms(2)])
  then show ?thesis by (simp only: renderMetrics_def Let_def fst_conv snd_conv)
qed

definition plain_env :: page_env where
  "plain_env = \<lparr>e_num = (\<lambda>_. NaN), e_frac = (\<lambda>_. ''0.5''), e_strings = PAGE_STRINGS, e_cfg = []\<rparr>"

definition no_docker_view :: docker_view where
  "no_docker_view = \<lparr>dv_byCpu = False, dv_expanded = False, dv_allowed = False, dv_local = True, dv_open = []\<rparr>"

lemma plain_env_numbers: "plain_numbers plain_env"
  by (simp add: plain_numbers_def plain_env_def)

text \<open>A container named like an image that runs a script.\<close>

definition hostile_name :: string where "hostile_name = ''<img src=x onerror=alert(1)>''"

definition hostile_snapshot :: jsval where
  "hostile_snapshot = JObj [(''schema'', JNum (Fin 1)), (''ts'', JNum (Fin 60000)), (''interval'', JNum (Fin 60)),
     (''host'', JObj [(''name'', JStr ''web'')]), (''cpu'', JObj [(''usage'', JNum (Fin 12)), (''per'', JArr [JNum (Fin 7)]), (''load'', JArr [JNum (Fin 1)])]),
     (''docker'', JArr [JObj [(''name'', JStr hostile_name), (''state'', JStr ''running'')]])]"

lemma hostile_snapshot_valid: "validate hostile_snapshot = Inr (hostile_snapshot, [])"
  by code_simp

theorem snapshot_never_markup_witness:
  "list_all (\<lambda>(place, w). content_safe w)
    (fst (snd (renderMetrics plain_env no_docker_view False (1 / 2) demo_page 0 (view hostile_snapshot JUndef []))))"
  by (rule snapshot_never_markup [OF plain_env_numbers hostile_snapshot_valid])

section \<open>A snapshot without a load\<close>

lemma load_cases:
  assumes "validate s = Inr (c, dropped)"
  shows "load_html E (fld ''cpu'' c) = (if fld ''load'' (fld ''cpu'' c) = JUndef then Inl ''TypeError'' else Inr (projr (load_html E (fld ''cpu'' c))))"
  using cpu_group(2) [OF assms] by (auto simp: load_html_def Let_def)

text \<open>The places written before the line of the load.\<close>

definition before_load :: "string list" where
  "before_load = [''hostname'', ''ps1'', ''hostmeta'', ''mem-bar'', ''mem-spark'', ''mem-used'', ''mem-total'', ''mem-used2'', ''mem-cache'', ''mem-avail'',
     ''mem-swap'', ''mem-note'', ''cpu-bar'', ''cpu-spark'', ''cpu-pct'']"

lemma drawing_on: "list_all (\<lambda>x. \<not> isl x) xs \<Longrightarrow> drawing (xs @ ys) = (concat (map projr xs) @ fst (drawing ys), snd (drawing ys))"
  by (induction xs rule: drawing.induct) (auto simp: case_prod_unfold)

lemma part_simps: "\<not> isl (part d k ms ws)" "projr (part d k ms ws) = (if truthy (fld k d) then markup ms @ wording ws else [])"
  by (simp_all add: part_def)

definition early_place :: "string \<times> 'a \<Rightarrow> bool" where
  "early_place w \<longleftrightarrow> fst w \<in> set before_load"

lemma early_contents: "list_all early_place (markup ms) \<longleftrightarrow> list_all early_place ms" "list_all early_place (wording ms) \<longleftrightarrow> list_all early_place ms"
  by (induction ms) (auto simp: markup_def wording_def early_place_def)

lemma early_words: "list_all early_place (host_words E h)" "list_all early_place (mem_words E m pct)"
  by (simp_all add: host_words_def mem_words_def Let_def early_place_def before_load_def)

lemma early_part: "list_all early_place (projr (part d k ms ws)) \<longleftrightarrow> (truthy (fld k d) \<longrightarrow> list_all early_place ms \<and> list_all early_place ws)"
  by (simp add: part_simps early_contents)

lemma early_places: "list_all (\<lambda>x. \<not> isl x) (early_steps E td uid d)" "list_all early_place (concat (map projr (early_steps E td uid d)))"
  by (simp add: early_steps_def part_simps Let_def)
    (simp add: early_steps_def early_part early_words Let_def, simp add: early_place_def before_load_def)

lemma hw_step: "Inr (markup [(''hw-body'', hardwareHtml E d)]) \<in> set (later_steps E v hourly past td uid d)"
  unfolding later_steps_def Let_def by (simp only: list.set insert_iff simp_thms)

lemma later_places: "list_all (\<lambda>x. \<not> isl x) (later_steps E v hourly past td uid d)"
    "list_ex (\<lambda>w. fst w = ''hw-body'') (concat (map projr (later_steps E v hourly past td uid d)))"
proof -
  show "list_all (\<lambda>x. \<not> isl x) (later_steps E v hourly past td uid d)"
    unfolding later_steps_def Let_def by (simp only: list.pred_inject part_simps sum.disc simp_thms)
  show "list_ex (\<lambda>w. fst w = ''hw-body'') (concat (map projr (later_steps E v hourly past td uid d)))"
    using hw_step [of E d v hourly past td uid] by (force simp: list_ex_iff markup_def)
qed



section \<open>The list of containers\<close>

interpretation svc: comparator "more_first E v" for E v
  by unfold_locales (auto simp: more_first_def Let_def)

lemma running_only: "list_all is_running (svc_running E v cs)"
proof -
  have "set_mset (mset (svc_running E v cs)) = set (filter is_running cs)" by (simp add: svc_running_def)
  then show ?thesis by (auto simp: list_all_iff)
qed

lemma filter_running:
  assumes "list_all is_running xs"
  shows "filter is_running (xs @ filter (\<lambda>c. \<not> is_running c) cs) = xs"
    and "filter (\<lambda>c. \<not> is_running c) (xs @ filter (\<lambda>c. \<not> is_running c) cs) = filter (\<lambda>c. \<not> is_running c) cs"
  using assms by (auto simp: list_all_iff filter_empty_conv)

text \<open>
  The list of containers: every stopped one, in the snapshot's order, and of the running ones the busiest by the chosen number,
  the most first, at most ten unless the list is expanded; the button below counts exactly those left out, none of which
  is above one that is shown.
\<close>

theorem busiest_shown:
  "let shown = svc_shown E v cs; top = filter is_running shown; key = (if dv_byCpu v then ''cpu'' else ''mem'') in
     filter (\<lambda>c. \<not> is_running c) shown = filter (\<lambda>c. \<not> is_running c) cs
     \<and> (dv_expanded v \<or> length top \<le> SVC_LIMIT)
     \<and> (\<exists>left. mset (filter is_running cs) = mset (top @ left) \<and> length left = svc_hidden E v cs
            \<and> sorted_wrt (\<lambda>a b. amount E key b \<le> amount E key a) (top @ left))"
proof -
  define run where "run = svc_running E v cs"
  define left where "left = (if dv_expanded v then [] else drop SVC_LIMIT run)"
  define top where "top = (if dv_expanded v then run else take SVC_LIMIT run)"
  have "list_all is_running top" using running_only [of E v cs] by (auto simp: top_def run_def list_all_iff dest: in_set_takeD)
  note parts = filter_running [OF this, of cs]
  have shown: "svc_shown E v cs = top @ filter (\<lambda>c. \<not> is_running c) cs" by (simp add: svc_shown_def top_def run_def)
  have all: "top @ left = run" by (simp add: top_def left_def)
  have "sorted_wrt (\<lambda>a b. more_first E v a b \<le> 0) run" unfolding run_def svc_running_def by (rule svc.sorted_sort)
  then have "sorted_wrt (\<lambda>a b. amount E (if dv_byCpu v then ''cpu'' else ''mem'') b \<le> amount E (if dv_byCpu v then ''cpu'' else ''mem'') a) (top @ left)"
    unfolding all by (rule sorted_wrt_mono_rel [rotated]) (simp add: more_first_def Let_def)
  moreover have "mset (filter is_running cs) = mset (top @ left)" unfolding all run_def svc_running_def by simp
  moreover have "length left = svc_hidden E v cs" by (simp add: left_def svc_hidden_def run_def)
  moreover have "dv_expanded v \<or> length top \<le> SVC_LIMIT" by (simp add: top_def)
  ultimately show ?thesis unfolding Let_def shown parts by blast
qed

end
