(* ===== verification/Page_Cards.thy ===== *)
theory Page_Cards
  imports Page_Panels
begin

text \<open>
  The fleet's cards and tabs (\<^verbatim>\<open>src/www/js/app.js\<close>) and the list of alerts (\<^verbatim>\<open>src/www/js/alerts.js\<close>) as markup. The fleet is the hub's
  list of cards (\<open>card\<close>); what the hub says of alerts is the JSON it sends. \<open>local_time\<close> writes a time for the person.
\<close>

section \<open>Badges, tabs\<close>

definition UPDATE_SIGN :: string where "UPDATE_SIGN = [CHR 0xE2, CHR 0x86, CHR 0xBB]"

definition num_val :: "nat \<Rightarrow> jsval" where "num_val n = JNum (Fin (of_nat n))"

definition status_class :: "fstatus \<Rightarrow> string" where
  "status_class s = (case s of Offline \<Rightarrow> ''offline'' | Stale \<Rightarrow> ''stale'' | Waiting \<Rightarrow> ''waiting'' | Online \<Rightarrow> ''online'')"

definition alertBadge :: "page_env \<Rightarrow> (nat \<times> severity) option \<Rightarrow> string" where
  "alertBadge E a = (case a of None \<Rightarrow> []
     | Some (n, worst) \<Rightarrow> if n = 0 then [] else
         el ''span'' [(''class'', ''abadge '' @ sev_name worst),
             (''title'', esc_tr E ''alerts.badge'' [(''n'', num_val n), (''severity'', JStr (page_tr E (''alert.sev.'' @ sev_name worst) []))])]
           (show_nat n))"

definition node_lamp :: "card \<Rightarrow> string" where
  "node_lamp n = class_el ''span'' (''lamp '' @ esc (status_class (cd_status n))) []"

definition tab :: "string \<Rightarrow> bool \<Rightarrow> string \<Rightarrow> string" where
  "tab to_view shown body = el ''button'' [(''data-go'', to_view), (''class'', if shown then ''on'' else [])] body"

text \<open>\<^verbatim>\<open>renderTabs()\<close>: no tabs with less than two servers.\<close>

definition renderTabs :: "page_env \<Rightarrow> page \<Rightarrow> string option" where
  "renderTabs E p = (let shown = (if pg_view p = FleetView then Some ''fleet'' else shown_node p) in
     if length (pg_nodes p) < 2 then None
     else Some (tab ''fleet'' (shown = Some ''fleet'') (esc_tr E ''tabs.fleet'' []) @
       concat (map (\<lambda>n. tab (esc (card_id n)) (shown = Some (card_id n))
         (node_lamp n @ esc (fn_name (cd_node n)) @ alertBadge E (cd_alerts n))) (pg_nodes p))))"

section \<open>Cards\<close>

definition cardValue :: "page_env \<Rightarrow> string \<Rightarrow> jsval \<Rightarrow> string" where
  "cardValue E k s =
    (if k \<in> set [''cpu'', ''mem'', ''iowait'', ''battery''] then fmtVal E (fld k s) ''%''
     else if k = ''temp'' then fmtTemp E (fld ''temp'' s) True
     else if k = ''disk'' then if truthy (fld ''disk'' s) then js_text E (fld ''pct'' (fld ''disk'' s)) @ ''%'' else DASH
     else if k = ''updates''
       then (let u = Channels.join_with '' '' (filter (\<lambda>x. x \<noteq> [])
             [if is_number (fld ''updates'' s) then js_text E (fld ''updates'' s) else [], if truthy (fld ''reboot'' s) then UPDATE_SIGN else []]) in
           if u = [] then DASH else u)
     else if truthy (fld ''containers'' s) then js_text E (fld ''running'' s) @ ''/'' @ js_text E (fld ''containers'' s) else DASH)"

definition card_foot :: "page_env \<Rightarrow> ms \<Rightarrow> card \<Rightarrow> string" where
  "card_foot E now n =
    (let s = cd_summary n; disk = fld ''disk'' s;
         ago = (case cd_seen n of None \<Rightarrow> [] | Some t \<Rightarrow> if t = 0 then []
           else page_tr E ''fleet.ago'' [(''age'', JStr (fmtDur E (JNum (Fin (of_int (now - t) / 1000)))))]) in
     case cd_status n of
       Online \<Rightarrow> if truthy disk
         then esc_tr E ''fleet.disk'' [(''mount'', fld ''mount'' disk)] @ '' '' @
           class_el ''span'' (HCLS (health (number_of E (fld ''pct'' disk)) 78 90)) (js_text E (fld ''pct'' disk) @ ''%'')
         else shown_text E (js_or (if truthy (fld ''host'' s) then fld ''distro'' (fld ''host'' s) else JUndef) (JStr []))
     | Waiting \<Rightarrow> esc_tr E ''fleet.waiting'' []
     | w \<Rightarrow> esc_tr E (''fleet.state.'' @ status_class w) [] @ '' '' @ MIDDOT @ '' '' @ esc ago)"

definition fleetCard :: "page_env \<Rightarrow> ms \<Rightarrow> nat \<Rightarrow> card \<Rightarrow> string" where
  "fleetCard E now uid n =
    (let s = cd_summary n; disk = fld ''disk'' s; w = status_class (cd_status n) in
     el ''div'' [(''class'', ''panel ncard '' @ esc w), (''data-node'', esc (card_id n))]
       (el ''div'' [(''class'', ''nhead''), (''data-state'', esc_tr E (''fleet.state.'' @ w) [])]
          (node_lamp n @ esc (fn_name (cd_node n)) @ alertBadge E (cd_alerts n)) @
        class_el ''div'' ''kv'' (concat (map (\<lambda>k. el ''span'' [] (el ''small'' [] (esc_tr E (''card.'' @ k) []) @ cardValue E k s))
          (cardNumbers (JObj (e_cfg E))))) @
        class_el ''div'' ''sparkmini'' (sparkSvg uid (drawn_numbers E (arr_or_empty (fld ''trend'' s)))) @
        (if truthy disk then meter (number_of E (fld ''pct'' disk)) (HCLS (health (number_of E (fld ''pct'' disk)) 78 90)) else []) @
        class_el ''div'' ''foot'' (el ''span'' [] (card_foot E now n) @
          el ''span'' [] (if truthy (fld ''containers'' s) then esc_tr E ''svc.up'' [(''running'', fld ''running'' s), (''total'', fld ''containers'' s)] else []))))"

definition title_text :: "page_env \<Rightarrow> gtitle \<Rightarrow> string" where
  "title_text E t = (case t of NoTitle \<Rightarrow> [] | PinnedTitle \<Rightarrow> page_tr E ''fleet.pinned'' [] | TagTitle x \<Rightarrow> x
     | UntaggedTitle \<Rightarrow> page_tr E ''fleet.untagged'' [])"

text \<open>The cards of a list, each line with the next number, and the number of the last line.\<close>

definition card_lines :: "page_env \<Rightarrow> card \<Rightarrow> nat" where
  "card_lines E n = lines_of E (arr_or_empty (fld ''trend'' (cd_summary n)))"

fun cards_html :: "page_env \<Rightarrow> ms \<Rightarrow> nat \<Rightarrow> card list \<Rightarrow> string \<times> nat" where
  "cards_html E now uid [] = ([], uid)"
| "cards_html E now uid (n # ns) = (case cards_html E now (uid + card_lines E n) ns of (h, u) \<Rightarrow> (fleetCard E now (uid + 1) n @ h, u))"

fun groups_html :: "page_env \<Rightarrow> ms \<Rightarrow> nat \<Rightarrow> (gtitle \<times> card list) list \<Rightarrow> string \<times> nat" where
  "groups_html E now uid [] = ([], uid)"
| "groups_html E now uid ((t, ns) # gs) =
    (case cards_html E now uid ns of (h, u) \<Rightarrow> case groups_html E now u gs of (h', u') \<Rightarrow>
       ((if title_text E t \<noteq> [] then class_el ''div'' ''fgroup'' (esc (title_text E t)) else []) @ h @ h', u'))"

definition renderFleet :: "page_env \<Rightarrow> (string \<Rightarrow> string) \<Rightarrow> ms \<Rightarrow> nat \<Rightarrow> page \<Rightarrow> string \<times> nat" where
  "renderFleet E coll now uid p = groups_html E now uid (arrangeFleet coll (pg_nodes p) (js_or (fld ''fleet'' (JObj (e_cfg E))) (JObj [])))"

section \<open>The list of alerts\<close>

definition ALERT_SEV :: "string list" where "ALERT_SEV = [''critical'', ''warning'', ''info'']"

definition DEFAULT_METRIC :: "(string \<times> string) list" where
  "DEFAULT_METRIC = [(''disk_full'', ''disk.used''), (''disk_critical'', ''disk.used''), (''memory'', ''mem''), (''cpu'', ''cpu''), (''temperature'', ''temp''),
     (''failed_units'', ''failed_units''), (''security_updates'', ''security_updates'')]"

text \<open>\<open>info\<close> is \<^verbatim>\<open>alertRuleInfo\<close>.\<close>

definition ruleLabel :: "page_env \<Rightarrow> jsval \<Rightarrow> jsval \<Rightarrow> jsval" where
  "ruleLabel E info i =
    (let key = ''alert.rule.'' @ camel (js_text E i); entry = fld (js_text E i) info in
     case map_of (e_strings E) key of
       Some (c # cs) \<Rightarrow> JStr (page_tr E key [])
     | _ \<Rightarrow> if truthy entry \<and> truthy (fld ''name'' entry) then fld ''name'' entry else i)"

definition alertValue :: "page_env \<Rightarrow> jsval \<Rightarrow> jsval \<Rightarrow> jsval \<Rightarrow> string" where
  "alertValue E info r v =
    (if absent v \<or> (case number_of E v of Fin _ \<Rightarrow> False | _ \<Rightarrow> True) then []
     else let own = fld ''metric'' (fld (js_text E r) info);
              m = (if truthy own then js_text E own else case map_of DEFAULT_METRIC (js_text E r) of Some x \<Rightarrow> x | None \<Rightarrow> []) in
       if m \<in> set [''disk.used'', ''mem'', ''cpu''] then fmtShare E v
       else if m = ''temp'' then fmtTemp E v True
       else if m \<in> set [''failed_units'', ''security_updates''] then js_text E v
       else [])"

definition sevTag :: "page_env \<Rightarrow> jsval \<Rightarrow> string" where
  "sevTag E sev = class_el ''span'' (''asev '' @ shown_text E sev)
     (esc_tr E (''alert.sev.'' @ (case sev of JStr s \<Rightarrow> if s \<in> set ALERT_SEV then s else ''info'' | _ \<Rightarrow> ''info'')) [])"

definition alertWhat :: "page_env \<Rightarrow> jsval \<Rightarrow> jsval \<Rightarrow> string" where
  "alertWhat E info a = shown_text E (if truthy (fld ''name'' a) then fld ''name'' a else ruleLabel E info (fld ''rule'' a)) @
     (if truthy (fld ''sub'' a) then '' '' @ class_el ''span'' ''asub'' (shown_text E (fld ''sub'' a)) else [])"

text \<open>Why an alert is not told: muted, or held back while its server is offline.\<close>

definition why :: "jsval \<Rightarrow> string" where
  "why a = (case fld ''quiet'' a of
       JStr s \<Rightarrow> if s = ''muted'' \<or> s = ''offline'' then s else if truthy (fld ''muted'' a) then ''muted'' else []
     | _ \<Rightarrow> if truthy (fld ''muted'' a) then ''muted'' else [])"

definition sev_place :: "jsval \<Rightarrow> rat" where
  "sev_place v = (case v of JStr s \<Rightarrow> of_int (index_of (Some s) ALERT_SEV) | _ \<Rightarrow> -1)"

definition alert_order :: "page_env \<Rightarrow> jsval \<Rightarrow> jsval \<Rightarrow> rat" where
  "alert_order E a b = (let d = sev_place (fld ''severity'' a) - sev_place (fld ''severity'' b) in
     if d \<noteq> 0 then d else amount E ''firedAt'' b - amount E ''firedAt'' a)"

definition mute_button :: "page_env \<Rightarrow> string \<Rightarrow> jsval \<Rightarrow> string \<Rightarrow> string" where
  "mute_button E kind i key = el ''button'' [(''data-mute'', kind), (''data-id'', shown_text E i)] (esc_tr E key [])"

definition since_text :: "page_env \<Rightarrow> ms \<Rightarrow> jsval \<Rightarrow> string" where
  "since_text E now a = (let t = (if truthy (fld ''since'' a) then amount E ''since'' a else of_int now) in
     fmtDur E (JNum (Fin ((of_int now - t) / 1000))))"

definition what_span :: "page_env \<Rightarrow> jsval \<Rightarrow> string \<Rightarrow> jsval \<Rightarrow> string" where
  "what_span E info lead a = class_el ''span'' ''awhat'' (lead @ alertWhat E info a @ '' '' @
     el ''b'' [] (esc (alertValue E info (fld ''rule'' a) (fld ''value'' a))))"

definition node_span :: "page_env \<Rightarrow> jsval \<Rightarrow> string" where
  "node_span E a = class_el ''span'' ''anode'' (shown_text E (js_or (fld ''nodeName'' a) (fld ''node'' a)))"

definition firing_row :: "page_env \<Rightarrow> jsval \<Rightarrow> ms \<Rightarrow> jsval \<Rightarrow> string" where
  "firing_row E info now a =
    class_el ''div'' (''arow'' @ (if why a \<noteq> [] then '' amuted'' else []))
      (sevTag E (fld ''severity'' a) @ what_span E info [] a @ node_span E a @
       class_el ''span'' ''asince'' (esc_tr E ''alerts.for'' [(''time'', JStr (since_text E now a))]) @
       class_el ''span'' ''aacts'' ((if why a \<noteq> [] then el ''i'' [] (esc_tr E (''alert.quiet.'' @ why a) []) else []) @
         mute_button E ''rule'' (fld ''rule'' a) ''alerts.muteRule'' @ mute_button E ''node'' (fld ''node'' a) ''alerts.muteNode''))"

text \<open>The mutes that run: of rules with their labels, of servers with their names.\<close>

definition mute_list :: "page_env \<Rightarrow> jsval \<Rightarrow> (string \<times> string) list \<Rightarrow> jsval \<Rightarrow> (string \<times> string \<times> jsval \<times> jsval) list" where
  "mute_list E info names m =
    map (\<lambda>(i, until). (''rule'', i, ruleLabel E info (JStr i), until)) (entries_of (or_empty (fld ''rules'' m))) @
    map (\<lambda>(i, until). (''node'', i, (case map_of names i of Some (c # cs) \<Rightarrow> JStr (c # cs) | _ \<Rightarrow> JStr i), until)) (entries_of (or_empty (fld ''nodes'' m)))"

definition mute_row :: "page_env \<Rightarrow> (jsval \<Rightarrow> string) \<Rightarrow> string \<times> string \<times> jsval \<times> jsval \<Rightarrow> string" where
  "mute_row E local_time = (\<lambda>(kind, i, label, until). class_el ''div'' ''arow amrow''
     (class_el ''span'' ''awhat'' (esc_tr E (''alerts.mute.'' @ kind) [(''name'', label)]) @
      class_el ''span'' ''asince'' (esc_tr E ''alerts.until'' [(''time'', JStr (local_time until))]) @
      class_el ''span'' ''aacts'' (el ''button'' [(''data-unmute'', esc kind), (''data-id'', esc i)] (esc_tr E ''alerts.unmute'' []))))"

definition recent_kind :: "jsval \<Rightarrow> string" where
  "recent_kind e = (if truthy (fld ''ended'' e) then ''ended''
     else case fld ''kind'' e of JStr s \<Rightarrow> if s = ''resolved'' \<or> s = ''repeat'' then s else ''firing'' | _ \<Rightarrow> ''firing'')"

definition quiet_word :: "jsval \<Rightarrow> string" where
  "quiet_word v = (case v of JStr s \<Rightarrow> if s = ''muted'' \<or> s = ''offline'' then s else ''untold'' | _ \<Rightarrow> ''untold'')"

definition recent_row :: "page_env \<Rightarrow> jsval \<Rightarrow> (jsval \<Rightarrow> string) \<Rightarrow> jsval \<Rightarrow> string" where
  "recent_row E info local_time e =
    class_el ''div'' ''arow''
      (sevTag E (fld ''severity'' e) @ what_span E info (esc_tr E (''alert.kind.'' @ recent_kind e) [] @ '': '') e @ node_span E e @
       class_el ''span'' ''asince'' (esc (local_time (fld ''at'' e))) @
       class_el ''span'' ''aacts'' (if truthy (fld ''quiet'' e) then el ''i'' [] (esc_tr E (''alert.quiet.'' @ quiet_word (fld ''quiet'' e)) []) else []))"

definition rows_or :: "page_env \<Rightarrow> string \<Rightarrow> ('a \<Rightarrow> string) \<Rightarrow> 'a list \<Rightarrow> string" where
  "rows_or E none row xs = (if xs = [] then class_el ''div'' ''muted'' (esc_tr E none []) else concat (map row xs))"

definition alert_section :: "page_env \<Rightarrow> string \<Rightarrow> string \<Rightarrow> string" where
  "alert_section E title body = el ''section'' [] (el ''label'' [] (esc_tr E title []) @ body)"

definition alertsHtml :: "page_env \<Rightarrow> (jsval \<Rightarrow> string) \<Rightarrow> ms \<Rightarrow> jsval \<Rightarrow> jsval \<Rightarrow> (string \<times> string) list \<Rightarrow> string" where
  "alertsHtml E local_time now info d names =
    (let firing = sort_by (alert_order E) (arr_or_empty (fld ''firing'' d));
         mutes = mute_list E info names (or_empty (fld ''mutes'' d)) in
     alert_section E ''alerts.firing'' (rows_or E ''alerts.none'' (firing_row E info now) firing) @
     (if mutes \<noteq> [] then alert_section E ''alerts.mutes'' (concat (map (mute_row E local_time) mutes)) else []) @
     alert_section E ''alerts.recent'' (rows_or E ''alerts.noneYet'' (recent_row E info local_time) (arr_or_empty (fld ''recent'' d))))"

text \<open>\<^verbatim>\<open>loadAlerts()\<close>: it asks with the next number; an answer with an older one draws nothing.\<close>

record alerts_view =
  av_seq :: nat
  av_info :: jsval
  av_html :: string

definition ask_alerts :: "alerts_view \<Rightarrow> nat \<times> alerts_view" where
  "ask_alerts a = (let n = Suc (av_seq a) in (n, a\<lparr>av_seq := n\<rparr>))"

definition show_alerts :: "page_env \<Rightarrow> (jsval \<Rightarrow> string) \<Rightarrow> ms \<Rightarrow> card list \<Rightarrow> nat \<Rightarrow> bool \<Rightarrow> jsval option \<Rightarrow> alerts_view \<Rightarrow> alerts_view" where
  "show_alerts E local_time now nodes n gone answer a =
    (if n \<noteq> av_seq a then a
     else case answer of
       None \<Rightarrow> a\<lparr>av_html := class_el ''div'' ''muted'' (esc_tr E (if gone then ''status.loggedOut'' else ''alerts.failed'') [])\<rparr>
     | Some d \<Rightarrow> (let info = (case fld ''rules'' d of JObj m \<Rightarrow> JObj m | _ \<Rightarrow> JObj []) in
         a\<lparr>av_info := info, av_html := alertsHtml E local_time now info d (map (\<lambda>c. (card_id c, fn_name (cd_node c))) nodes)\<rparr>))"

section \<open>The markup is the page's own\<close>

lemma el_safe [drawn]:
  "safe h \<Longrightarrow> safe (el ''span'' [] h)" "safe h \<Longrightarrow> safe (el ''small'' [] h)" "safe h \<Longrightarrow> safe (el ''b'' [] h)" "safe h \<Longrightarrow> safe (el ''i'' [] h)"
  "safe h \<Longrightarrow> safe (el ''section'' [] h)" "safe h \<Longrightarrow> safe (el ''label'' [] h)"
  by (simp_all add: safe_el TAGS_def)

lemma el_attr_safe [drawn]:
  "in_quotes a \<Longrightarrow> in_quotes b \<Longrightarrow> safe h \<Longrightarrow> safe (el ''button'' [(''data-go'', a), (''class'', b)] h)"
  "in_quotes a \<Longrightarrow> in_quotes b \<Longrightarrow> safe h \<Longrightarrow> safe (el ''button'' [(''data-mute'', a), (''data-id'', b)] h)"
  "in_quotes a \<Longrightarrow> in_quotes b \<Longrightarrow> safe h \<Longrightarrow> safe (el ''button'' [(''data-unmute'', a), (''data-id'', b)] h)"
  "in_quotes a \<Longrightarrow> in_quotes b \<Longrightarrow> safe h \<Longrightarrow> safe (el ''div'' [(''class'', a), (''data-node'', b)] h)"
  "in_quotes a \<Longrightarrow> in_quotes b \<Longrightarrow> safe h \<Longrightarrow> safe (el ''div'' [(''class'', a), (''data-state'', b)] h)"
  by (simp_all add: safe_el TAGS_def)

lemma words_inert [simp]: "inert (sev_name v)" "inert (status_class w)" "inert UPDATE_SIGN"
  by (simp_all add: sev_name_def status_class_def UPDATE_SIGN_def split: severity.split fstatus.split)

lemma badge_safe [drawn]: "safe (alertBadge E a)"
  by (simp add: alertBadge_def drawn split: option.split prod.split)

lemma lamp_safe [drawn]: "safe (node_lamp n)"
  by (simp add: node_lamp_def drawn)

lemma tabs_safe: "renderTabs E p = Some h \<Longrightarrow> safe h"
  by (auto simp: renderTabs_def Let_def tab_def drawn split: if_splits)

text \<open>The numbers a summary puts into a card as they are.\<close>

definition bare_summary :: "jsval \<Rightarrow> bool" where
  "bare_summary s \<longleftrightarrow> list_all bare [fld ''pct'' (fld ''disk'' s), fld ''updates'' s, fld ''running'' s, fld ''containers'' s]"

lemma fullest_in: "fullest ds = Some d \<Longrightarrow> list_all (\<lambda>d. pct_of d \<noteq> None) ds \<Longrightarrow> pct_of d \<noteq> None"
  using fullest_max [of ds] by (auto simp: list_all_iff)

lemma summary_bare: "bare_summary (summary v)"
proof -
  have "list_all (\<lambda>d. pct_of d \<noteq> None) (mounted_disks v)" by (auto simp: mounted_disks_def list_all_iff)
  then have "bare (fld ''pct'' d)" if "fullest (mounted_disks v) = Some d" for d
    using fullest_in [OF that] by (cases "fld ''pct'' d") (auto simp: pct_of_def bare_def)
  then show ?thesis
    by (auto simp: bare_summary_def summary_def num_field_def num_or_null_def bare_def [of JUndef] bare_def [of JNull] bare_def [of "JNum n" for n]
        split: option.split jsval.split)
qed

lemma none_bare: "bare_summary JNull"
  by (simp add: bare_summary_def bare_def)

lemma card_value_safe: "plain_numbers E \<Longrightarrow> bare_summary s \<Longrightarrow> safe (cardValue E k s)"
  using inert_bare [of E] by (auto simp: bare_summary_def cardValue_def Let_def inert_join drawn)

lemma card_foot_safe: "plain_numbers E \<Longrightarrow> bare_summary (cd_summary n) \<Longrightarrow> safe (card_foot E now n)"
  using inert_bare [of E] by (simp add: card_foot_def Let_def bare_summary_def drawn split: fstatus.split)

lemma fleet_card_safe: "plain_numbers E \<Longrightarrow> bare_summary (cd_summary n) \<Longrightarrow> safe (fleetCard E now uid n)"
  using card_value_safe [of E "cd_summary n"] card_foot_safe [of E n] by (simp add: fleetCard_def Let_def drawn)

lemma cards_safe: "plain_numbers E \<Longrightarrow> list_all (\<lambda>n. bare_summary (cd_summary n)) ns \<Longrightarrow> safe (fst (cards_html E now uid ns))"
  by (induction ns arbitrary: uid) (simp_all add: drawn fleet_card_safe case_prod_unfold)

lemma groups_safe:
  "plain_numbers E \<Longrightarrow> list_all (\<lambda>(t, ns). list_all (\<lambda>n. bare_summary (cd_summary n)) ns) gs \<Longrightarrow> safe (fst (groups_html E now uid gs))"
proof (induction gs arbitrary: uid)
  case (Cons g gs)
  obtain t ns where g: "g = (t, ns)" by force
  show ?case using Cons cards_safe [OF Cons.prems(1), of ns now uid] by (simp add: g drawn case_prod_unfold)
qed (simp add: drawn)

lemma fleet_safe:
  assumes "plain_numbers E" "list_all (\<lambda>n. bare_summary (cd_summary n)) (pg_nodes p)"
  shows "safe (fst (renderFleet E coll now uid p))"
proof -
  define gs where "gs = arrangeFleet coll (pg_nodes p) (js_or (fld ''fleet'' (JObj (e_cfg E))) (JObj []))"
  have "arranged coll (pg_nodes p) f" for f using arranged_flat arranged_grouped by blast
  then have "mset (concat (map snd gs)) = mset (filter (\<lambda>n. \<not> hidden_in (js_or (fld ''fleet'' (JObj (e_cfg E))) (JObj [])) n) (pg_nodes p))"
    unfolding arranged_def gs_def by blast
  from arg_cong [OF this, of set_mset] have "set (concat (map snd gs)) \<subseteq> set (pg_nodes p)" by auto
  then have "list_all (\<lambda>(t, ns). list_all (\<lambda>n. bare_summary (cd_summary n)) ns) gs"
    using assms(2) by (fastforce simp: list_all_iff)
  then show ?thesis unfolding renderFleet_def gs_def [symmetric] by (rule groups_safe [OF assms(1)])
qed

lemma alert_rows_safe [drawn]: "safe (sevTag E v)" "safe (alertWhat E info a)" "safe (node_span E a)" "in_quotes k \<Longrightarrow> safe (mute_button E k i key)"
  "safe (mute_row E local_time r)"
  by (simp_all add: sevTag_def alertWhat_def node_span_def mute_button_def mute_row_def drawn split: prod.split)

lemma what_safe [drawn]: "safe lead \<Longrightarrow> safe (what_span E info lead a)"
  by (simp add: what_span_def drawn)

lemma firing_safe: "safe (firing_row E info now a)"
  by (simp add: firing_row_def drawn)

lemma recent_safe: "safe (recent_row E info local_time a)"
  by (simp add: recent_row_def drawn)

lemma rows_or_safe: "(\<And>x. safe (row x)) \<Longrightarrow> safe (rows_or E none row xs)"
  by (simp add: rows_or_def drawn)

lemma section_safe [drawn]: "safe h \<Longrightarrow> safe (alert_section E t h)"
  by (simp add: alert_section_def drawn)

lemma alerts_safe: "safe (alertsHtml E local_time now info d names)"
  by (simp add: alertsHtml_def Let_def drawn rows_or_safe firing_safe recent_safe)

lemma hub_cards_bare: "fst (ctl_nodes w h) = NodesView cs \<Longrightarrow> list_all (\<lambda>n. bare_summary (cd_summary n)) cs"
  by (auto simp: ctl_nodes_def Let_def list_all_iff card_of_def summary_bare none_bare split: option.split)

text \<open>
  C38. No name becomes markup where many servers are shown: the fleet the hub answers with, whatever its servers, disks and tags are
  called, and whatever the list of alerts holds, gives cards, tabs and alerts with the page's own tags and attributes only.
\<close>

theorem fleet_never_markup:
  assumes "plain_numbers E" "fst (ctl_nodes w h) = NodesView (pg_nodes p)"
  shows "safe (fst (renderFleet E coll now uid p)) \<and>
    (case renderTabs E p of None \<Rightarrow> True | Some html \<Rightarrow> safe html) \<and>
    safe (alertsHtml E local_time now info d names)"
  using fleet_safe [OF assms(1) hub_cards_bare [OF assms(2)]] tabs_safe [of E p] alerts_safe
  by (auto split: option.split)

definition hub_page :: page where
  "hub_page = demo_page\<lparr>pg_nodes := (case fst (ctl_nodes demo_world demo_hub) of NodesView cs \<Rightarrow> cs | _ \<Rightarrow> [])\<rparr>"

theorem fleet_never_markup_witness:
  "safe (fst (renderFleet plain_env (\<lambda>s. s) 1000 0 hub_page)) \<and>
    (case renderTabs plain_env hub_page of None \<Rightarrow> True | Some html \<Rightarrow> safe html) \<and>
    safe (alertsHtml plain_env (\<lambda>_. hostile_name) 1000 (JObj []) (JObj [(''recent'', JArr [JObj [(''name'', JStr hostile_name)]])]) [])"
  by (rule fleet_never_markup [OF plain_env_numbers]) (simp add: hub_page_def ctl_nodes_def Let_def)

text \<open>An answer to an earlier question draws nothing.\<close>

lemma late_alerts_dropped: "n \<noteq> av_seq a \<Longrightarrow> show_alerts E local_time now nodes n gone answer a = a"
  by (simp add: show_alerts_def)

end
