(* ===== verification/Page_Forms.thy ===== *)
theory Page_Forms
  imports Page_Cards Page_Rules
begin

text \<open>
  The forms of the page: choices, and the markup of the rule editor (\<^verbatim>\<open>rulesHtml\<close> of \<^verbatim>\<open>src/www/js/alerts.js\<close>) with what its buttons
  and its answers do to the rows. The values of a choice are strings. What a browser makes of a box is written out: a line of text
  has no line breaks, a time is one or empty, a choice stands on the option that is selected or on its first.
\<close>

section \<open>Choices\<close>

definition option_el :: "jsval \<Rightarrow> string \<times> string \<Rightarrow> string" where
  "option_el cur vl = form_el ''option'' ((''value'', Some (esc (fst vl))) # flag (JStr (fst vl) = cur) ''selected'') (esc (snd vl))"

definition opts :: "(string \<times> string) list \<Rightarrow> jsval \<Rightarrow> string" where
  "opts xs cur = concat (map (option_el cur) xs)"

definition select_value :: "string list \<Rightarrow> jsval \<Rightarrow> string" where
  "select_value vs cur = (case find (\<lambda>v. JStr v = cur) vs of Some v \<Rightarrow> v | None \<Rightarrow> (case vs of [] \<Rightarrow> [] | v # _ \<Rightarrow> v))"

definition text_value :: "string \<Rightarrow> string" where
  "text_value s = filter (\<lambda>c. c \<noteq> CHR 0x0A \<and> c \<noteq> CHR 0x0D) s"

text \<open>A valid time of HTML: hours and minutes, maybe seconds, maybe up to three digits of a fraction.\<close>

definition seconds_part :: "string \<Rightarrow> bool" where
  "seconds_part s = (case s of
       [] \<Rightarrow> True
     | [c, a, b] \<Rightarrow> c = CHR '':'' \<and> a \<in> set ''012345'' \<and> is_digit b
     | c # a # b # d # ms \<Rightarrow> c = CHR '':'' \<and> a \<in> set ''012345'' \<and> is_digit b \<and> d = CHR ''.'' \<and> ms \<noteq> [] \<and> length ms \<le> 3 \<and> list_all is_digit ms
     | _ \<Rightarrow> False)"

definition time_value :: "string \<Rightarrow> string" where
  "time_value s = (if is_time (take 5 s) \<and> seconds_part (drop 5 s) then s else [])"

section \<open>The rule editor\<close>

record rules_state =
  rs_defaults :: "jsval list"
  rs_metrics :: "string list"
  rs_rows :: "row list"
  rs_dirty :: bool
  rs_ignored :: string

definition USUAL :: "(string \<times> rat) list" where
  "USUAL = [(''disk.used'', 90), (''mem'', 90), (''cpu'', 95), (''temp'', 85)]"

fun camel_dots :: "string \<Rightarrow> string" where
  "camel_dots [] = []"
| "camel_dots [c] = [c]"
| "camel_dots (c # d # cs) = (if c \<in> set ''._'' \<and> is_lower d then upper_of d # camel_dots cs else c # camel_dots (d # cs))"

definition metricLabel :: "page_env \<Rightarrow> string \<Rightarrow> string" where
  "metricLabel E m = page_tr E (''alert.metric.'' @ camel_dots m) []"

definition metricUnit :: "page_env \<Rightarrow> string \<Rightarrow> string" where
  "metricUnit E m = (if m \<in> set [''disk.used'', ''mem'', ''cpu''] then ''%'' else if m = ''temp'' then tempUnit E else [])"

definition OP_SIGN :: "(string \<times> string) list" where
  "OP_SIGN = [(''>='', [CHR 0xE2, CHR 0x89, CHR 0xA5]), (''<='', [CHR 0xE2, CHR 0x89, CHR 0xA4]), (''=='', ''='')]"

definition numVal :: "page_env \<Rightarrow> jsval \<Rightarrow> string" where
  "numVal E v = (if absent v \<or> v = JNum NaN then [] else shown_text E v)"

text \<open>The servers and tags a scope or an override can name.\<close>

definition rulesTargets :: "page_env \<Rightarrow> card list \<Rightarrow> (string \<times> string) list" where
  "rulesTargets E nodes =
    map (\<lambda>n. (''node:'' @ card_id n, page_tr E ''rules.server'' [(''name'', JStr (fn_name (cd_node n)))])) nodes @
    map (\<lambda>t. (''tag:'' @ t, page_tr E ''rules.tag'' [(''tag'', JStr t)])) (sort_key id (remdups (concat (map (\<lambda>n. fn_tags (cd_node n)) nodes))))"

definition strip_kind :: "string \<Rightarrow> string" where
  "strip_kind w = (if starts_with ''node:'' w then drop 5 w else if starts_with ''tag:'' w then drop 4 w else w)"

definition with_target :: "(string \<times> string) list \<Rightarrow> string \<Rightarrow> (string \<times> string) list" where
  "with_target targets w = (if w \<in> fst ` set targets then targets else targets @ [(w, strip_kind w)])"

definition sev_options :: "page_env \<Rightarrow> (string \<times> string) list" where
  "sev_options E = map (\<lambda>s. (s, page_tr E (''alert.sev.'' @ s) [])) [''critical'', ''warning'', ''info'']"

text \<open>Boxes of a rule: \<open>aria\<close> is the attribute that names a box.\<close>

definition aria :: "page_env \<Rightarrow> string \<Rightarrow> string \<times> string option" where
  "aria E key = (''aria-label'', Some (esc_tr E key []))"

definition select_box :: "page_env \<Rightarrow> string \<Rightarrow> string \<Rightarrow> string \<Rightarrow> (string \<times> string) list \<Rightarrow> string \<Rightarrow> string" where
  "select_box E attr k key list cur = form_el ''select'' [(attr, Some k), aria E key] (opts list (JStr cur))"

definition number_box :: "page_env \<Rightarrow> string \<Rightarrow> jsval \<Rightarrow> (string \<times> string option) list \<Rightarrow> string" where
  "number_box E k v rest = form_tag ''input''
     ([(''type'', Some ''number''), (''step'', Some ''any''), (''class'', Some ''rnum''), (''data-f'', Some k), (''value'', Some (numVal E v))] @ rest)"

definition act_button :: "page_env \<Rightarrow> string \<Rightarrow> string \<Rightarrow> string" where
  "act_button E act key = form_el ''button'' [(''data-act'', Some act)] (esc_tr E key [])"

definition rule_head :: "page_env \<Rightarrow> jsval \<Rightarrow> string list \<Rightarrow> row \<Rightarrow> string" where
  "rule_head E info metrics r = (let yesno = rw_metric r \<in> set YESNO; offline = (rw_metric r = ''offline'') in
     if rw_own r
     then form_tag ''input'' [(''type'', Some ''text''), (''class'', Some ''rname''), (''data-f'', Some ''name''), (''maxlength'', Some ''60''),
            (''value'', Some (esc (rw_name r))), aria E ''rules.name''] @
          select_box E ''data-f'' ''metric'' ''rules.metric'' (map (\<lambda>m. (m, metricLabel E m)) metrics) (rw_metric r) @
          (if yesno then [] else select_box E ''data-f'' ''op'' ''rules.op'' OP_SIGN (rw_op r))
     else class_el ''span'' ''rname'' (shown_text E (ruleLabel E info (JStr (rw_id r)))) @
          (if yesno \<or> offline then [] else class_el ''span'' ''rop'' (esc (case map_of OP_SIGN (rw_op r) of Some s \<Rightarrow> s | None \<Rightarrow> rw_op r))))"

definition rule_numbers :: "page_env \<Rightarrow> row \<Rightarrow> string" where
  "rule_numbers E r = (let yesno = rw_metric r \<in> set YESNO; offline = (rw_metric r = ''offline''); f = (unit_of E ''temp'' = ''f'') in
     (if \<not> yesno \<and> \<not> offline
      then number_box E ''threshold'' (shown f (rw_metric r) (rw_threshold r)) [aria E ''rules.threshold''] @
        class_el ''span'' ''unit'' (esc (metricUnit E (rw_metric r)))
      else []) @
     (if \<not> offline
      then form_el ''label'' [] (esc_tr E ''rules.for'' [] @ '' '' @
             form_tag ''input'' [(''type'', Some ''number''), (''min'', Some ''0''), (''step'', Some ''1''), (''class'', Some ''rnum''), (''data-f'', Some ''for''),
               (''value'', Some (numVal E (rw_for r)))] @ '' '' @ esc_tr E ''rules.min'' []) @
           (if \<not> yesno \<and> rw_op r \<noteq> ''=='' then form_el ''label'' [] (esc_tr E ''rules.clear'' [] @ '' '' @
             number_box E ''clear'' (shown f (rw_metric r) (rw_clear r)) []) else [])
      else []))"

definition rule_scope :: "page_env \<Rightarrow> (string \<times> string) list \<Rightarrow> row \<Rightarrow> string" where
  "rule_scope E targets r =
    (if rw_own r
     then select_box E ''data-f'' ''scope'' ''rules.scope'' (([], page_tr E ''rules.all'' []) # (if rw_scope r \<noteq> [] then with_target targets (rw_scope r) else targets)) (rw_scope r) @
       (if is_sub_metric (rw_metric r)
        then form_tag ''input'' [(''type'', Some ''text''), (''class'', Some ''rsub''), (''data-f'', Some ''sub''), (''value'', Some (esc (rw_sub r))),
          (''placeholder'', Some (esc_tr E ''rules.subAll'' [])), aria E ''rules.sub'']
        else []) @ act_button E ''remove'' ''rules.remove''
     else [])"

definition rule_line :: "page_env \<Rightarrow> jsval \<Rightarrow> string list \<Rightarrow> (string \<times> string) list \<Rightarrow> row \<Rightarrow> string" where
  "rule_line E info metrics targets r =
    form_tag ''input'' ([(''type'', Some ''checkbox''), (''data-f'', Some ''on''), aria E ''rules.on''] @ flag (rw_on r) ''checked'') @
    rule_head E info metrics r @ rule_numbers E r @
    select_box E ''data-f'' ''severity'' ''rules.severity'' (sev_options E) (rw_severity r) @ rule_scope E targets r"

definition rule_override :: "page_env \<Rightarrow> (string \<times> string) list \<Rightarrow> row \<Rightarrow> nat \<times> ovrow \<Rightarrow> string" where
  "rule_override E targets r jo = (let v = snd jo; only = (rw_metric r = ''offline'' \<or> rw_metric r \<in> set YESNO); f = (unit_of E ''temp'' = ''f'') in
     form_el ''div'' [(''class'', Some ''rov''), (''data-o'', Some (show_nat (fst jo)))]
       (el ''span'' [] (esc_tr E ''rules.overrideFor'' []) @
        select_box E ''data-of'' ''who'' ''rules.overrideWho'' (with_target targets (or_who v)) (or_who v) @
        (if only then [] else form_tag ''input''
          ([(''type'', Some ''number''), (''step'', Some ''any''), (''class'', Some ''rnum''), (''data-of'', Some ''threshold''),
            (''value'', Some (numVal E (shown f (rw_metric r) (or_threshold v))))] @ flag (or_off v) ''disabled'' @ [aria E ''rules.threshold''])) @
        form_el ''label'' [] (form_tag ''input'' ([(''type'', Some ''checkbox''), (''data-of'', Some ''off'')] @
          flag (or_off v \<or> only) ''checked'' @ flag only ''disabled'') @ '' '' @ esc_tr E ''rules.off'' []) @
        act_button E ''rmov'' ''rules.remove''))"

definition rule_html :: "page_env \<Rightarrow> jsval \<Rightarrow> string list \<Rightarrow> (string \<times> string) list \<Rightarrow> nat \<times> row \<Rightarrow> string" where
  "rule_html E info metrics targets ir = (let r = snd ir in
     form_el ''div'' [(''class'', Some (''rule'' @ (if rw_on r then [] else '' roff''))), (''data-i'', Some (show_nat (fst ir)))]
       (class_el ''div'' ''rline'' (rule_line E info metrics targets r) @
        concat (map (rule_override E targets r) (enumerate 0 (rw_overrides r))) @
        (if targets \<noteq> [] then class_el ''div'' ''rov'' (act_button E ''addov'' ''rules.addOverride'') else [])))"

definition form_buttons :: "page_env \<Rightarrow> string \<Rightarrow> string" where
  "form_buttons E adding = class_el ''div'' ''rbtns'' (adding @ class_el ''span'' ''grow'' [] @ act_button E ''revert'' ''rules.revert'' @
     form_el ''button'' [(''data-act'', Some ''save''), (''class'', Some ''primary'')] (esc_tr E ''rules.save'' []))"

definition form_intro :: "page_env \<Rightarrow> string \<Rightarrow> string \<Rightarrow> string \<Rightarrow> string" where
  "form_intro E ignored key intro =
    (if ignored \<noteq> [] then form_el ''p'' [(''class'', Some ''warn'')] (esc_tr E key [(''error'', JStr ignored)]) else []) @
    form_el ''p'' [(''class'', Some ''hint'')] (esc_tr E intro [])"

definition rulesHtml :: "page_env \<Rightarrow> jsval \<Rightarrow> card list \<Rightarrow> rules_state \<Rightarrow> string" where
  "rulesHtml E info nodes s =
    form_intro E (rs_ignored s) ''rules.ignored'' ''rules.intro'' @
    concat (map (rule_html E info (rs_metrics s) (rulesTargets E nodes)) (enumerate 0 (rs_rows s))) @
    form_buttons E (act_button E ''add'' ''rules.add'')"

section \<open>What the editor does\<close>

text \<open>
  The form as read: per rule its boxes and its overrides. \<open>f\<close> says whether temperatures are shown in degrees Fahrenheit. A row
  that the form does not show stays.
\<close>

type_synonym rule_form = "(string \<times> jsval) list \<times> (string \<times> bool \<times> jsval option) list"

fun read_rows :: "bool \<Rightarrow> rule_form list \<Rightarrow> row list \<Rightarrow> row list" where
  "read_rows f [] rs = rs"
| "read_rows f (x # xs) [] = []"
| "read_rows f (x # xs) (r # rs) = readRule f (fst x) (snd x) r # read_rows f xs rs"

definition readRules :: "bool \<Rightarrow> rule_form list \<Rightarrow> rules_state \<Rightarrow> rules_state" where
  "readRules f fm s = s\<lparr>rs_rows := read_rows f fm (rs_rows s)\<rparr>"

text \<open>A change of a box; the place of the rule whose metric was chosen.\<close>

definition usual_row :: "row \<Rightarrow> row" where
  "usual_row r = r\<lparr>rw_op := ''>='', rw_threshold := JNum (Fin (case map_of USUAL (rw_metric r) of Some q \<Rightarrow> q | None \<Rightarrow> 1)), rw_clear := JNull, rw_sub := []\<rparr>"

definition at_index :: "nat \<Rightarrow> ('a \<Rightarrow> 'a) \<Rightarrow> 'a list \<Rightarrow> 'a list" where
  "at_index i g xs = (if i < length xs then xs[i := g (xs ! i)] else xs)"

definition rules_changed :: "bool \<Rightarrow> rule_form list \<Rightarrow> nat option \<Rightarrow> rules_state \<Rightarrow> rules_state" where
  "rules_changed f fm metric_at s = (let s1 = readRules f fm (s\<lparr>rs_dirty := True\<rparr>) in
     case metric_at of None \<Rightarrow> s1 | Some i \<Rightarrow> s1\<lparr>rs_rows := at_index i usual_row (rs_rows s1)\<rparr>)"

text \<open>
  Opening the tab: the hub is asked, unless something is unsaved; the answer, \<open>None\<close> when there was none or it was refused, then
  fills the form. \<open>rules_loaded\<close> gives nothing when the answer is none (the form says that loading failed).
\<close>

definition rules_asks :: "bool \<Rightarrow> rules_state \<Rightarrow> bool" where
  "rules_asks force s \<longleftrightarrow> \<not> (rs_dirty s \<and> \<not> force)"

definition rules_loaded :: "jsval option \<Rightarrow> rules_state \<Rightarrow> rules_state option" where
  "rules_loaded answer s = (case answer of
       Some d \<Rightarrow> (case fld ''defaults'' d of
           JArr defaults \<Rightarrow> Some \<lparr>rs_defaults = defaults, rs_metrics = strs_of (fld ''metrics'' d), rs_rows = rulesRows (fld ''saved'' d) defaults,
             rs_dirty = False, rs_ignored = (case fld ''ignored'' d of JStr e \<Rightarrow> e | _ \<Rightarrow> [])\<rparr>
         | _ \<Rightarrow> None)
     | None \<Rightarrow> None)"

text \<open>Saving: what is sent, and what the answer does; after a good one the rules are asked for again.\<close>

definition saveRules :: "bool \<Rightarrow> rule_form list \<Rightarrow> rules_state \<Rightarrow> jsval \<times> rules_state" where
  "saveRules f fm s = (let s1 = readRules f fm s in (rulesFile (rs_rows s1) (rs_defaults s1), s1))"

definition rules_saved :: "bool \<Rightarrow> rules_state \<Rightarrow> rules_state" where
  "rules_saved ok s = (if ok then s\<lparr>rs_dirty := False\<rparr> else s)"

text \<open>The buttons; \<open>stamp\<close> is the time in base 36. A button for an override is only drawn when there is something to name.\<close>

definition without :: "nat \<Rightarrow> 'a list \<Rightarrow> 'a list" where
  "without i xs = take i xs @ drop (i + 1) xs"

definition new_rule :: "page_env \<Rightarrow> string \<Rightarrow> rules_state \<Rightarrow> row" where
  "new_rule E stamp s = \<lparr>rw_id = ''c_'' @ stamp, rw_own = True, rw_name = page_tr E ''rules.newName'' [],
     rw_metric = (case rs_metrics s of m # _ \<Rightarrow> if m = [] then ''disk.used'' else m | [] \<Rightarrow> ''disk.used''), rw_op = ''>='',
     rw_threshold = JNum (Fin 90), rw_for = JNum (Fin 5), rw_clear = JNull, rw_severity = ''warning'', rw_on = True, rw_scope = [], rw_sub = [],
     rw_overrides = []\<rparr>"

definition new_override :: "string \<Rightarrow> row \<Rightarrow> row" where
  "new_override who r = (let only = (rw_metric r = ''offline'' \<or> rw_metric r \<in> set YESNO) in
     r\<lparr>rw_overrides := rw_overrides r @ [\<lparr>or_who = who, or_threshold = (if only then JNull else rw_threshold r), or_off = only\<rparr>]\<rparr>)"

datatype rule_act = AddRule | RemoveRule nat | AddOverride nat | RemoveOverride nat nat | RevertRules

text \<open>Whether the rules are asked for again, and the rows.\<close>

definition rulesAction :: "page_env \<Rightarrow> string \<Rightarrow> card list \<Rightarrow> bool \<Rightarrow> rule_form list \<Rightarrow> rule_act \<Rightarrow> rules_state \<Rightarrow> bool \<times> rules_state" where
  "rulesAction E stamp nodes f fm act s0 = (let s = readRules f fm s0; rows = (\<lambda>g. (False, s\<lparr>rs_rows := g (rs_rows s), rs_dirty := True\<rparr>)) in
     case act of
       AddRule \<Rightarrow> rows (\<lambda>rs. rs @ [new_rule E stamp s])
     | RemoveRule i \<Rightarrow> rows (without i)
     | AddOverride i \<Rightarrow> rows (at_index i (new_override (case rulesTargets E nodes of t # _ \<Rightarrow> fst t | [] \<Rightarrow> [])))
     | RemoveOverride i j \<Rightarrow> rows (at_index i (\<lambda>r. r\<lparr>rw_overrides := without j (rw_overrides r)\<rparr>))
     | RevertRules \<Rightarrow> (True, s\<lparr>rs_dirty := False\<rparr>))"

section \<open>No markup of a stranger's\<close>

lemma form_kinds [drawn]:
  "(''p'', [(''class'', True)]) \<in> set FORM_TAGS"
  "(''label'', []) \<in> set FORM_TAGS"
  "(''label'', [(''class'', True)]) \<in> set FORM_TAGS"
  "(''div'', [(''class'', True), (''data-i'', True)]) \<in> set FORM_TAGS"
  "(''div'', [(''class'', True), (''data-o'', True)]) \<in> set FORM_TAGS"
  "(''div'', [(''data-i'', True)]) \<in> set FORM_TAGS"
  "(''div'', [(''class'', True), (''data-id'', True), (''data-managed'', True)]) \<in> set FORM_TAGS"
  "(''div'', [(''class'', True), (''draggable'', True), (''data-p'', True)]) \<in> set FORM_TAGS"
  "(''span'', [(''class'', True), (''data-wxrm'', True)]) \<in> set FORM_TAGS"
  "(''span'', [(''class'', True), (''data-clkrm'', True)]) \<in> set FORM_TAGS"
  "(''button'', [(''class'', True)]) \<in> set FORM_TAGS"
  "(''button'', [(''data-act'', True)]) \<in> set FORM_TAGS"
  "(''button'', [(''data-act'', True), (''class'', True)]) \<in> set FORM_TAGS"
  "(''button'', [(''data-device'', True)]) \<in> set FORM_TAGS"
  "(''select'', [(''data-f'', True)]) \<in> set FORM_TAGS"
  "(''select'', [(''data-f'', True), (''aria-label'', True)]) \<in> set FORM_TAGS"
  "(''select'', [(''data-of'', True), (''aria-label'', True)]) \<in> set FORM_TAGS"
  "(''select'', [(''class'', True), (''data-k'', True)]) \<in> set FORM_TAGS"
  "(''optgroup'', [(''label'', True)]) \<in> set FORM_TAGS"
  "(''input'', [(''type'', True), (''class'', True), (''data-f'', True), (''maxlength'', True), (''value'', True), (''aria-label'', True)]) \<in> set FORM_TAGS"
  "(''input'', [(''type'', True), (''class'', True), (''data-f'', True), (''value'', True), (''placeholder'', True), (''aria-label'', True)]) \<in> set FORM_TAGS"
  "(''input'', [(''type'', True), (''class'', True), (''data-k'', True), (''autocomplete'', True), (''data-saved'', True), (''value'', True), (''placeholder'', True)]) \<in> set FORM_TAGS"
  "(''input'', [(''type'', True), (''class'', True), (''data-k'', True), (''autocomplete'', True), (''value'', True)]) \<in> set FORM_TAGS"
  "(''input'', [(''type'', True), (''step'', True), (''class'', True), (''data-f'', True), (''value'', True), (''aria-label'', True)]) \<in> set FORM_TAGS"
  "(''input'', [(''type'', True), (''step'', True), (''class'', True), (''data-f'', True), (''value'', True)]) \<in> set FORM_TAGS"
  "(''input'', [(''type'', True), (''min'', True), (''step'', True), (''class'', True), (''data-f'', True), (''value'', True)]) \<in> set FORM_TAGS"
  "(''input'', [(''type'', True), (''step'', True), (''class'', True), (''data-of'', True), (''value'', True), (''aria-label'', True)]) \<in> set FORM_TAGS"
  "(''input'', [(''type'', True), (''class'', True), (''value'', True), (''maxlength'', True), (''aria-label'', True)]) \<in> set FORM_TAGS"
  "(''input'', [(''type'', True), (''class'', True), (''value'', True), (''placeholder'', True), (''aria-label'', True)]) \<in> set FORM_TAGS"
  "(''input'', (''type'', True) # (''data-q'', True) # (if b then [(''checked'', False)] else [])) \<in> set FORM_TAGS"
  "(''input'', (''type'', True) # (''data-f'', True) # (if b then [(''checked'', False)] else [])) \<in> set FORM_TAGS"
  "(''input'', (''type'', True) # (''data-of'', True) # (if b then [(''checked'', False)] else [])) \<in> set FORM_TAGS"
  "(''input'', (''type'', True) # (''data-f'', True) # (''aria-label'', True) # (if b then [(''checked'', False)] else [])) \<in> set FORM_TAGS"
  "(''input'', (''type'', True) # (''value'', True) # (if b then [(''checked'', False)] else [])) \<in> set FORM_TAGS"
  "(''input'', (''type'', True) # (''class'', True) # (if b then [(''checked'', False)] else [])) \<in> set FORM_TAGS"
  "(''input'', (''type'', True) # (''data-q'', True) # (''value'', True) # (if b then [(''disabled'', False)] else [])) \<in> set FORM_TAGS"
  "(''option'', (''value'', True) # (if b then [(''selected'', False)] else [])) \<in> set FORM_TAGS"
  "(''input'', [(''type'', True), (''data-of'', True), (''checked'', False), (''disabled'', False)]) \<in> set FORM_TAGS"
  "(''input'', [(''type'', True), (''data-of'', True), (''checked'', False)]) \<in> set FORM_TAGS"
  "(''input'', [(''type'', True), (''data-of'', True)]) \<in> set FORM_TAGS"
  "(''input'', [(''type'', True), (''step'', True), (''class'', True), (''data-of'', True), (''value'', True), (''disabled'', False), (''aria-label'', True)]) \<in> set FORM_TAGS"
  "(''input'', [(''type'', True), (''class'', True), (''value'', True), (''maxlength'', True), (''aria-label'', True), (''disabled'', False), (''title'', True)]) \<in> set FORM_TAGS"
  "(''input'', [(''type'', True), (''class'', True), (''value'', True), (''placeholder'', True), (''aria-label'', True), (''disabled'', False), (''title'', True)]) \<in> set FORM_TAGS"
  "(''button'', [(''data-up'', False), (''aria-label'', True)]) \<in> set FORM_TAGS"
  "(''button'', [(''data-down'', False), (''aria-label'', True)]) \<in> set FORM_TAGS"
  "(''select'', [(''data-sz'', False), (''aria-label'', True)]) \<in> set FORM_TAGS"
  "(''input'', [(''type'', True), (''data-vis'', False)]) \<in> set FORM_TAGS"
  "(''input'', [(''type'', True), (''data-vis'', False), (''checked'', False)]) \<in> set FORM_TAGS"
  by (simp_all add: FORM_TAGS_def PLAIN_FORM_TAGS_def FLAGGED_FORM_TAGS_def with_flag_def valued_def)

lemma flag_simps [simp]: "quoted_marks (flag b k)" "kind_of (flag b k) = (if b then [(k, False)] else [])"
  by (simp_all add: flag_def)

lemma aria_simps [simp]: "quoted_marks (aria E key # ms) \<longleftrightarrow> quoted_marks ms" "kind_of (aria E key # ms) = (''aria-label'', True) # kind_of ms"
  by (simp_all add: aria_def drawn)

lemma inert_numVal [simp]: "inert (numVal E v)"
  by (simp add: numVal_def)

lemma safe_opts [drawn]: "safe (opts xs cur)"
  by (simp add: opts_def option_el_def drawn)

lemma safe_act_button [drawn]: "in_quotes act \<Longrightarrow> safe (act_button E act key)"
  by (simp add: act_button_def drawn)

lemma safe_select_box [drawn]: "attr = ''data-f'' \<or> attr = ''data-of'' \<Longrightarrow> in_quotes k \<Longrightarrow> safe (select_box E attr k key xs cur)"
  by (auto simp: select_box_def drawn)

lemma safe_number_box [drawn]: "in_quotes k \<Longrightarrow> safe (number_box E k v [aria E key])" "in_quotes k \<Longrightarrow> safe (number_box E k v [])"
  by (simp_all add: number_box_def drawn)

lemma safe_rule_head [drawn]: "safe (rule_head E info metrics r)"
  by (simp add: rule_head_def Let_def drawn)

lemma safe_rule_numbers [drawn]: "safe (rule_numbers E r)"
  by (simp add: rule_numbers_def Let_def drawn)

lemma safe_rule_scope [drawn]: "safe (rule_scope E targets r)"
  by (simp add: rule_scope_def drawn)

lemma safe_rule_line [drawn]: "safe (rule_line E info metrics targets r)"
  by (simp add: rule_line_def drawn)

lemma safe_rule_override [drawn]: "safe (rule_override E targets r jo)"
  by (cases "or_off (snd jo)"; cases "rw_metric r = ''offline'' \<or> rw_metric r \<in> set YESNO") (simp_all add: rule_override_def Let_def flag_def drawn)

lemma safe_rule_html [drawn]: "safe (rule_html E info metrics targets ir)"
  by (simp add: rule_html_def Let_def drawn inert_value)

lemma safe_form_parts [drawn]: "safe adding \<Longrightarrow> safe (form_buttons E adding)" "safe (form_intro E ignored key intro)"
  by (simp_all add: form_buttons_def form_intro_def drawn)

lemma safe_rulesHtml [drawn]: "safe (rulesHtml E info nodes s)"
  by (simp add: rulesHtml_def drawn)

end
