(* ===== verification/Page_Channels.thy ===== *)
theory Page_Channels
  imports Page_Forms
begin

text \<open>
  Where alerts go, as the page edits it (\<^verbatim>\<open>src/www/js/alerts.js\<close>, from \<^verbatim>\<open>chState\<close> on): rows of what the hub shows, the form drawn from
  them, reading the form back, and what the buttons and the answers of the hub do. A save, a load and a test are two steps: what is
  asked, and what the answer does.
\<close>

section \<open>Rows\<close>

record chrow =
  cr_id :: jsval
  cr_type :: jsval
  cr_name :: jsval
  cr_min :: jsval
  cr_on :: bool
  cr_digest :: bool
  cr_config :: "(string \<times> jsval) list"

record chstate =
  st_types :: jsval
  st_status :: jsval
  st_rows :: "chrow list"
  st_quiet :: jsval
  st_digestAt :: jsval
  st_dirty :: bool
  st_ignored :: string

definition chRow :: "jsval \<Rightarrow> chrow" where
  "chRow c = \<lparr>cr_id = fld ''id'' c, cr_type = fld ''type'' c, cr_name = fld ''name'' c, cr_min = fld ''min'' c, cr_on = (fld ''on'' c \<noteq> JBool False),
     cr_digest = (fld ''digest'' c \<noteq> JBool False), cr_config = entries_of (or_empty (fld ''config'' c))\<rparr>"

definition chRows :: "jsval \<Rightarrow> chrow list" where
  "chRows v = map chRow (arr_or_empty (fld ''channels'' v))"

definition chRow_js :: "chrow \<Rightarrow> jsval" where
  "chRow_js r = JObj ([(''id'', cr_id r), (''type'', cr_type r), (''name'', cr_name r), (''min'', cr_min r), (''on'', JBool (cr_on r))] @
     (if cr_digest r then [] else [(''digest'', JBool False)]) @
     [(''config'', JObj (filter (\<lambda>kv. snd kv \<noteq> JStr [] \<and> \<not> absent (snd kv)) (cr_config r)))])"

definition chFile :: "chrow list \<Rightarrow> jsval \<Rightarrow> jsval \<Rightarrow> jsval" where
  "chFile rows q at_time = JObj [(''channels'', JArr (map chRow_js rows)), (''quiet'', q), (''digestAt'', at_time)]"

section \<open>The form\<close>

text \<open>\<open>local_time\<close> is \<^verbatim>\<open>alertWhen\<close>: a time for the person.\<close>

definition chStatus :: "page_env \<Rightarrow> (jsval \<Rightarrow> string) \<Rightarrow> jsval \<Rightarrow> string" where
  "chStatus E local_time s =
    (if truthy s \<and> truthy (fld ''lastError'' s) \<and> (\<not> truthy (fld ''lastOk'' s) \<or> more_num (number_of E (fld ''at'' s)) (number_of E (fld ''lastOk'' s)))
     then page_tr E ''ch.lastError'' [(''error'', fld ''lastError'' s), (''time'', JStr (local_time (fld ''at'' s)))]
     else if truthy s \<and> truthy (fld ''lastOk'' s) then page_tr E ''ch.lastOk'' [(''time'', JStr (local_time (fld ''lastOk'' s)))]
     else page_tr E ''ch.never'' [])"

definition types_of :: "page_env \<Rightarrow> chstate \<Rightarrow> chrow \<Rightarrow> jsval list" where
  "types_of E s r = arr_or_empty (fld (js_text E (cr_type r)) (st_types s))"

definition field_key :: "page_env \<Rightarrow> jsval \<Rightarrow> string" where
  "field_key E f = js_text E (fld ''key'' f)"

definition config_value :: "chrow \<Rightarrow> string \<Rightarrow> jsval" where
  "config_value r k = fld k (JObj (cr_config r))"

definition choice_list :: "page_env \<Rightarrow> jsval \<Rightarrow> string list" where
  "choice_list E f = map (js_text E) (arr_or_empty (fld ''choices'' f))"

text \<open>The option a choice shows: the value, or the first choice when there is none.\<close>

definition choice_now :: "page_env \<Rightarrow> chrow \<Rightarrow> jsval \<Rightarrow> jsval" where
  "choice_now E r f = js_or (config_value r (field_key E f)) (case choice_list E f of c # _ \<Rightarrow> JStr c | [] \<Rightarrow> JUndef)"

definition saved_secret :: "page_env \<Rightarrow> chrow \<Rightarrow> jsval \<Rightarrow> bool" where
  "saved_secret E r f \<longleftrightarrow> truthy (fld ''secret'' f) \<and> config_value r (field_key E f) = JStr SECRET"

definition typed_text :: "page_env \<Rightarrow> chrow \<Rightarrow> jsval \<Rightarrow> string" where
  "typed_text E r f = js_text E (js_or (config_value r (field_key E f)) (JStr []))"

definition field_box :: "page_env \<Rightarrow> chrow \<Rightarrow> jsval \<Rightarrow> string" where
  "field_box E r f = (let k = (''data-k'', Some (esc (field_key E f))) in
     if truthy (fld ''choices'' f)
     then form_el ''select'' [(''class'', Some ''cval''), k] (opts (map (\<lambda>c. (c, c)) (choice_list E f)) (choice_now E r f))
     else if saved_secret E r f
     then form_tag ''input'' [(''type'', Some ''password''), (''class'', Some ''cval''), k, (''autocomplete'', Some ''new-password''), (''data-saved'', Some ''1''),
       (''value'', Some []), (''placeholder'', Some (esc_tr E ''ch.saved'' []))]
     else form_tag ''input'' [(''type'', Some (if truthy (fld ''secret'' f) then ''password'' else ''text'')), (''class'', Some ''cval''), k,
       (''autocomplete'', Some (if truthy (fld ''secret'' f) then ''new-password'' else ''off'')), (''value'', Some (esc (typed_text E r f)))])"

definition field_label :: "page_env \<Rightarrow> chrow \<Rightarrow> jsval \<Rightarrow> string" where
  "field_label E r f = form_el ''label'' [] (esc_tr E (''ch.field.'' @ field_key E f) [] @
     (if truthy (fld ''optional'' f) then '' '' @ esc_tr E ''ch.optional'' [] else []) @ '' '' @ field_box E r f)"

definition check_box :: "string \<Rightarrow> string \<Rightarrow> bool \<Rightarrow> string" where
  "check_box attr k b = form_tag ''input'' ([(''type'', Some ''checkbox''), (attr, Some k)] @ flag b ''checked'')"

definition channel_line :: "page_env \<Rightarrow> chrow \<Rightarrow> string" where
  "channel_line E r =
    form_tag ''input'' ([(''type'', Some ''checkbox''), (''data-f'', Some ''on''), aria E ''rules.on''] @ flag (cr_on r) ''checked'') @
    form_tag ''input'' [(''type'', Some ''text''), (''class'', Some ''rname''), (''data-f'', Some ''name''), (''maxlength'', Some ''60''),
      (''value'', Some (shown_text E (cr_name r))), aria E ''ch.name''] @
    class_el ''span'' ''ctype'' (shown_text E (cr_type r)) @
    form_el ''label'' [] (esc_tr E ''ch.min'' [] @ '' '' @ form_el ''select'' [(''data-f'', Some ''min'')] (opts (sev_options E) (cr_min r))) @
    form_el ''label'' [] (check_box ''data-f'' ''digest'' (cr_digest r) @ '' '' @ esc_tr E ''ch.digest'' []) @
    class_el ''span'' ''grow'' [] @ act_button E ''test'' ''ch.test'' @ act_button E ''remove'' ''rules.remove''"

definition channel_html :: "page_env \<Rightarrow> (jsval \<Rightarrow> string) \<Rightarrow> chstate \<Rightarrow> nat \<times> chrow \<Rightarrow> string" where
  "channel_html E local_time s ir = (let r = snd ir in
     form_el ''div'' [(''class'', Some (''chan rule'' @ (if cr_on r then [] else '' roff''))), (''data-i'', Some (show_nat (fst ir)))]
       (class_el ''div'' ''rline'' (channel_line E r) @
        class_el ''div'' ''rov cfields'' (concat (map (field_label E r) (types_of E s r))) @
        class_el ''div'' ''rov cstat'' (esc (chStatus E local_time (fld (js_text E (cr_id r)) (st_status s))))))"

definition time_box :: "page_env \<Rightarrow> string \<Rightarrow> string \<Rightarrow> jsval \<Rightarrow> bool \<Rightarrow> string" where
  "time_box E k key v off = form_el ''label'' [] (esc_tr E key [] @ '' '' @
     form_tag ''input'' ([(''type'', Some ''time''), (''data-q'', Some k), (''value'', Some (shown_text E v))] @ flag off ''disabled''))"

definition quiet_from :: "chstate \<Rightarrow> jsval" where
  "quiet_from s = (if truthy (st_quiet s) then fld ''from'' (st_quiet s) else JStr ''23:00'')"

definition quiet_to :: "chstate \<Rightarrow> jsval" where
  "quiet_to s = (if truthy (st_quiet s) then fld ''to'' (st_quiet s) else JStr ''07:00'')"

definition quiet_html :: "page_env \<Rightarrow> chstate \<Rightarrow> string" where
  "quiet_html E s = class_el ''div'' ''rline cglobal''
     (form_el ''label'' [] (check_box ''data-q'' ''on'' (truthy (st_quiet s)) @ '' '' @ esc_tr E ''ch.quiet'' []) @
      time_box E ''from'' ''ch.quietFrom'' (quiet_from s) (\<not> truthy (st_quiet s)) @
      time_box E ''to'' ''ch.quietTo'' (quiet_to s) (\<not> truthy (st_quiet s)) @
      time_box E ''digestAt'' ''ch.digestAt'' (st_digestAt s) False)"

definition type_names :: "chstate \<Rightarrow> string list" where
  "type_names s = map fst (entries_of (st_types s))"

definition chHtml :: "page_env \<Rightarrow> (jsval \<Rightarrow> string) \<Rightarrow> chstate \<Rightarrow> string" where
  "chHtml E local_time s =
    form_intro E (st_ignored s) ''ch.ignored'' ''ch.intro'' @ quiet_html E s @
    concat (map (channel_html E local_time s) (enumerate 0 (st_rows s))) @
    form_buttons E (select_box E ''data-f'' ''newtype'' ''ch.type'' (map (\<lambda>t. (t, t)) (type_names s)) ''ntfy'' @ act_button E ''add'' ''ch.add'')"

section \<open>Reading the form\<close>

text \<open>
  The form of a channel: what its boxes hold; a box of the fields has the mark of a saved secret or not. \<open>None\<close> stands for a form
  that is not drawn.
\<close>

record chbox =
  bx_key :: string
  bx_saved :: bool
  bx_value :: string

record chform =
  fr_on :: bool
  fr_name :: string
  fr_min :: string
  fr_digest :: bool
  fr_boxes :: "chbox list"

record channels_form =
  cf_rows :: "chform list"
  cf_quiet :: bool
  cf_from :: string
  cf_to :: string
  cf_digestAt :: string

text \<open>What the boxes hold of a form nobody touched.\<close>

definition drawn_box :: "page_env \<Rightarrow> chrow \<Rightarrow> jsval \<Rightarrow> chbox" where
  "drawn_box E r f = \<lparr>bx_key = field_key E f, bx_saved = (\<not> truthy (fld ''choices'' f) \<and> saved_secret E r f),
     bx_value = (if truthy (fld ''choices'' f) then select_value (choice_list E f) (choice_now E r f)
       else if saved_secret E r f then [] else text_value (typed_text E r f))\<rparr>"

definition drawn_row :: "page_env \<Rightarrow> chstate \<Rightarrow> chrow \<Rightarrow> chform" where
  "drawn_row E s r = \<lparr>fr_on = cr_on r, fr_name = text_value (js_text E (cr_name r)), fr_min = select_value (map fst (sev_options E)) (cr_min r),
     fr_digest = cr_digest r, fr_boxes = map (drawn_box E r) (types_of E s r)\<rparr>"

definition drawn_form :: "page_env \<Rightarrow> chstate \<Rightarrow> channels_form" where
  "drawn_form E s = \<lparr>cf_rows = map (drawn_row E s) (st_rows s), cf_quiet = truthy (st_quiet s), cf_from = time_value (js_text E (quiet_from s)),
     cf_to = time_value (js_text E (quiet_to s)), cf_digestAt = time_value (js_text E (st_digestAt s))\<rparr>"

definition put_entry :: "string \<Rightarrow> jsval \<Rightarrow> (string \<times> jsval) list \<Rightarrow> (string \<times> jsval) list" where
  "put_entry k v m = (if k \<in> fst ` set m then map (\<lambda>kv. if fst kv = k then (k, v) else kv) m else m @ [(k, v)])"

definition read_box :: "(string \<times> jsval) list \<Rightarrow> chbox \<Rightarrow> (string \<times> jsval) list" where
  "read_box m b = put_entry (bx_key b) (JStr (if bx_value b = [] \<and> bx_saved b then SECRET else bx_value b)) m"

definition read_channel :: "chform \<Rightarrow> chrow \<Rightarrow> chrow" where
  "read_channel x r = r\<lparr>cr_on := fr_on x, cr_name := JStr (fr_name x), cr_min := JStr (fr_min x), cr_digest := fr_digest x,
     cr_config := foldl read_box (cr_config r) (fr_boxes x)\<rparr>"

fun read_channels :: "chform list \<Rightarrow> chrow list \<Rightarrow> chrow list" where
  "read_channels [] rs = rs"
| "read_channels (x # xs) [] = []"
| "read_channels (x # xs) (r # rs) = read_channel x r # read_channels xs rs"

definition readChannels :: "channels_form option \<Rightarrow> chstate \<Rightarrow> chstate" where
  "readChannels fm s = (case fm of None \<Rightarrow> s
     | Some x \<Rightarrow> s\<lparr>st_rows := read_channels (cf_rows x) (st_rows s),
         st_quiet := (if cf_quiet x then JObj [(''from'', JStr (cf_from x)), (''to'', JStr (cf_to x))] else JNull),
         st_digestAt := JStr (if cf_digestAt x = [] then ''07:00'' else cf_digestAt x)\<rparr>)"

definition channels_changed :: "channels_form option \<Rightarrow> chstate \<Rightarrow> chstate" where
  "channels_changed fm s = readChannels fm (s\<lparr>st_dirty := True\<rparr>)"

section \<open>Loading and saving\<close>

definition channels_asks :: "bool \<Rightarrow> chstate \<Rightarrow> bool" where
  "channels_asks force s \<longleftrightarrow> \<not> (st_dirty s \<and> \<not> force)"

text \<open>The answer; \<open>None\<close>: loading failed, the form says so and the state stays.\<close>

definition channels_loaded :: "jsval option \<Rightarrow> chstate \<Rightarrow> chstate option" where
  "channels_loaded answer s = (case answer of
       Some d \<Rightarrow> (case fld ''channels'' d of
           JArr _ \<Rightarrow> Some \<lparr>st_types = or_empty (fld ''types'' d), st_status = or_empty (fld ''status'' d), st_rows = chRows d,
             st_quiet = js_or (fld ''quiet'' d) JNull, st_digestAt = js_or (fld ''digestAt'' d) (JStr ''07:00''), st_dirty = False,
             st_ignored = (case fld ''ignored'' d of JStr e \<Rightarrow> e | _ \<Rightarrow> [])\<rparr>
         | _ \<Rightarrow> None)
     | None \<Rightarrow> None)"

definition saveChannels :: "channels_form option \<Rightarrow> chstate \<Rightarrow> jsval \<times> chstate" where
  "saveChannels fm s = (let s1 = readChannels fm s in (chFile (st_rows s1) (st_quiet s1) (st_digestAt s1), s1\<lparr>st_dirty := False\<rparr>))"

text \<open>What is asked for next: everything, or only how the channels fare when something was changed meanwhile.\<close>

datatype channels_ask = AskNothing | AskAll | AskStatus

definition channels_saved :: "bool \<Rightarrow> chstate \<Rightarrow> channels_ask \<times> chstate" where
  "channels_saved ok s = (if ok then (if st_dirty s then AskStatus else AskAll, s) else (AskNothing, s\<lparr>st_dirty := True\<rparr>))"

definition status_loaded :: "jsval option \<Rightarrow> chstate \<Rightarrow> channels_ask \<times> chstate" where
  "status_loaded answer s =
    (if st_dirty s then AskNothing else AskAll,
     case answer of Some d \<Rightarrow> if truthy (fld ''status'' d) then s\<lparr>st_status := fld ''status'' d\<rparr> else s | None \<Rightarrow> s)"

text \<open>A test of a channel goes out with what is saved: the id that is sent, if any. After it the status is asked for.\<close>

definition testChannel :: "channels_form option \<Rightarrow> nat \<Rightarrow> chstate \<Rightarrow> jsval option \<times> chstate" where
  "testChannel fm i s0 = (let s = readChannels fm s0 in
     (if i < length (st_rows s) \<and> \<not> st_dirty s then Some (JObj [(''id'', cr_id (st_rows s ! i))]) else None, s))"

text \<open>The buttons; \<open>picked\<close> is the kind chosen for a new channel, \<open>stamp\<close> the time in base 36.\<close>

definition new_channel :: "string \<Rightarrow> string \<Rightarrow> chrow" where
  "new_channel stamp ty = \<lparr>cr_id = JStr (''ch_'' @ stamp), cr_type = JStr ty, cr_name = JStr ty, cr_min = JStr (if ty = ''email'' then ''critical'' else ''warning''),
     cr_on = True, cr_digest = True, cr_config = (if ty = ''email'' then [(''port'', JStr ''587''), (''security'', JStr ''starttls'')] else [])\<rparr>"

definition new_type :: "string \<Rightarrow> chstate \<Rightarrow> string option" where
  "new_type picked s = (if truthy (fld picked (st_types s)) then Some picked else (case type_names s of t # _ \<Rightarrow> if t = [] then None else Some t | [] \<Rightarrow> None))"

datatype ch_act = AddChannel string string | RemoveChannel nat | RevertChannels

definition chAction :: "channels_form option \<Rightarrow> ch_act \<Rightarrow> chstate \<Rightarrow> channels_ask \<times> chstate" where
  "chAction fm act s0 = (let s = readChannels fm s0 in
     case act of
       RevertChannels \<Rightarrow> (AskAll, s\<lparr>st_dirty := False\<rparr>)
     | AddChannel picked stamp \<Rightarrow> (AskNothing, case new_type picked s of None \<Rightarrow> s
         | Some ty \<Rightarrow> s\<lparr>st_rows := st_rows s @ [new_channel stamp ty], st_dirty := True\<rparr>)
     | RemoveChannel i \<Rightarrow> (AskNothing, s\<lparr>st_rows := without i (st_rows s), st_dirty := True\<rparr>))"

section \<open>What the hub shows\<close>

text \<open>\<^verbatim>\<open>view()\<close> of \<^verbatim>\<open>hub/lib/notify.js\<close>: the channels with their secrets masked, how they fare, and the fields of every kind.\<close>

definition field_for_page :: "string \<times> cfield \<Rightarrow> jsval" where
  "field_for_page kf = JObj ([(''key'', JStr (fst kf)), (''secret'', JBool (f_secret (snd kf))), (''optional'', JBool (f_optional (snd kf)))] @
     (case f_choices (snd kf) of None \<Rightarrow> [] | Some cs \<Rightarrow> [(''choices'', JArr (map JStr cs))]))"

definition types_for_page :: jsval where
  "types_for_page = JObj (map (\<lambda>tf. (fst tf, JArr (map field_for_page (snd tf)))) ADAPTERS)"

definition view_js :: "nconf \<Rightarrow> jsval \<Rightarrow> string \<Rightarrow> jsval" where
  "view_js c fare ign = JObj (entries_of (conf_js (view_conf c)) @ [(''status'', fare)] @
     (if ign = [] then [] else [(''ignored'', JStr ign)]) @ [(''types'', types_for_page)])"

section \<open>A form nobody touched\<close>

text \<open>No choice of a channel is taken from the environment (a form has no option for a name of the environment).\<close>

definition fields_of :: "string \<Rightarrow> (string \<times> cfield) list" where
  "fields_of ty = (case map_of ADAPTERS ty of Some fs \<Rightarrow> fs | None \<Rightarrow> [])"

definition typed_choices :: "channel \<Rightarrow> bool" where
  "typed_choices ch \<longleftrightarrow> list_all (\<lambda>kf. f_choices (snd kf) = None \<or> (case map_of (ch_config ch) (fst kf) of None \<Rightarrow> True | Some v \<Rightarrow> \<not> is_envref v)) (fields_of (ch_type ch))"

lemma text_value_id: "\<not> list_ex is_control s \<Longrightarrow> text_value s = s"
  by (auto simp: text_value_def list_ex_iff is_control_def intro!: filter_True)

lemma time_value_id: "is_time s \<Longrightarrow> time_value s = s \<and> s \<noteq> []"
  by (auto simp: is_time_def time_value_def seconds_part_def split: list.splits)

lemma select_value_id: "v \<in> set vs \<Longrightarrow> select_value vs (JStr v) = v"
proof -
  have "v \<in> set vs \<Longrightarrow> find (\<lambda>w. w = v) vs = Some v" by (induction vs) auto
  then show "v \<in> set vs \<Longrightarrow> ?thesis" by (simp add: select_value_def)
qed

text \<open>Boxes that hold what the configuration has, or nothing, only add fields without a value.\<close>

definition read_value :: "chbox \<Rightarrow> string" where
  "read_value b = (if bx_value b = [] \<and> bx_saved b then SECRET else bx_value b)"

lemma put_same:
  assumes "k \<notin> fst ` set xs" "distinct (map fst m)" "map_of m k = Some v"
  shows "put_entry k v (m @ xs) = m @ xs"
proof -
  have in_m: "(k, v) \<in> set m" by (rule map_of_SomeD [OF assms(3)])
  have "w = v" if "(k, w) \<in> set (m @ xs)" for w
  proof -
    have "(k, w) \<in> set m" using that assms(1) by force
    then show ?thesis using map_of_is_SomeI [OF assms(2)] assms(3) by force
  qed
  then have "map (\<lambda>kv. if fst kv = k then (k, v) else kv) (m @ xs) = m @ xs" by (intro map_idI) force
  moreover have "k \<in> fst ` set (m @ xs)" using in_m by force
  ultimately show ?thesis unfolding put_entry_def by simp
qed

lemma put_empty: "list_all (\<lambda>kv. snd kv = e) xs \<Longrightarrow> map (\<lambda>kv. if fst kv = k then (k, e) else kv) xs = xs"
  by (intro map_idI) (auto simp: list_all_iff)

lemma boxes_read:
  assumes "distinct (map fst m)"
    and "list_all (\<lambda>b. JStr (read_value b) = (case map_of m (bx_key b) of Some v \<Rightarrow> v | None \<Rightarrow> JStr [])) bs"
  shows "\<exists>xs. foldl read_box m bs = m @ xs \<and> list_all (\<lambda>kv. snd kv = JStr []) xs"
proof -
  have "\<exists>ys. foldl read_box (m @ xs) bs = m @ ys \<and> list_all (\<lambda>kv. snd kv = JStr []) ys"
    if "list_all (\<lambda>kv. snd kv = JStr []) xs" "fst ` set xs \<inter> fst ` set m = {}" for xs
    using assms(2) that
  proof (induction bs arbitrary: xs)
    case (Cons b bs)
    have b: "read_box (m @ xs) b = put_entry (bx_key b) (JStr (read_value b)) (m @ xs)" by (simp add: read_box_def read_value_def)
    show ?case
    proof (cases "map_of m (bx_key b)")
      case (Some v)
      then have "bx_key b \<notin> fst ` set xs" using Cons.prems(3) map_of_SomeD [OF Some] by force
      then have "read_box (m @ xs) b = m @ xs" using b put_same [OF _ assms(1) Some, of xs] Cons.prems(1) Some by simp
      then show ?thesis using Cons.IH [of xs] Cons.prems by simp
    next
      case None
      then have v: "read_value b = []" using Cons.prems(1) by simp
      have k: "bx_key b \<notin> fst ` set m" using None by (simp add: map_of_eq_None_iff)
      have "map (\<lambda>kv. if fst kv = bx_key b then (bx_key b, JStr []) else kv) m = m" using k by (induction m) auto
      then have "read_box (m @ xs) b = m @ (if bx_key b \<in> fst ` set xs then xs else xs @ [(bx_key b, JStr [])])"
        using b v k put_empty [OF Cons.prems(2)] by (auto simp: put_entry_def)
      then show ?thesis using Cons.IH [of "if bx_key b \<in> fst ` set xs then xs else xs @ [(bx_key b, JStr [])]"] Cons.prems k by simp
    qed
  qed auto
  from this [of "[]"] show ?thesis by simp
qed

text \<open>A field of a channel as the hub shows it, drawn and read back, is what was shown.\<close>

lemma page_field:
  "fld ''key'' (field_for_page kf) = JStr (fst kf)" "fld ''secret'' (field_for_page kf) = JBool (f_secret (snd kf))"
  "fld ''choices'' (field_for_page kf) = (case f_choices (snd kf) of None \<Rightarrow> JUndef | Some cs \<Rightarrow> JArr (map JStr cs))"
  by (simp_all add: field_for_page_def split: option.split)

lemma choice_list_page: "choice_list E (field_for_page kf) = (case f_choices (snd kf) of None \<Rightarrow> [] | Some cs \<Rightarrow> cs)"
  by (simp add: choice_list_def page_field arr_or_empty_def comp_def split: option.split)

definition shown_row :: "channel \<Rightarrow> chrow" where
  "shown_row ch = chRow (channel_js (mask_channel ch))"

lemma shown_config: "cr_config (shown_row ch) = map (\<lambda>(k, v). (k, JStr v)) (ch_config (mask_channel ch))"
  by (simp add: shown_row_def chRow_def channel_js_flds config_js_def or_empty_def entries_of_def)

lemma shown_value: "config_value (shown_row ch) k = (case map_of (ch_config (mask_channel ch)) k of None \<Rightarrow> JUndef | Some v \<Rightarrow> JStr v)"
  using fld_config_js [of k "ch_config (mask_channel ch)"] by (simp add: config_value_def shown_config config_js_def)

lemma choice_fields: "map_of ADAPTERS ty = Some fs \<Longrightarrow> (k, f) \<in> set fs \<Longrightarrow> f_choices f \<noteq> None \<Longrightarrow> \<not> f_secret f \<and> \<not> f_optional f"
proof -
  have "list_all (\<lambda>tf. list_all (\<lambda>kf. f_choices (snd kf) \<noteq> None \<longrightarrow> \<not> f_secret (snd kf) \<and> \<not> f_optional (snd kf)) (snd tf)) ADAPTERS"
    by (simp add: ADAPTERS_def plain_field_def Let_def)
  then show "map_of ADAPTERS ty = Some fs \<Longrightarrow> (k, f) \<in> set fs \<Longrightarrow> f_choices f \<noteq> None \<Longrightarrow> ?thesis"
    by (force simp: list_all_iff dest: map_of_SomeD)
qed

lemma value_ok_choice: "value_ok u f v \<Longrightarrow> \<not> is_envref v \<Longrightarrow> f_choices f = Some cs \<Longrightarrow> v \<in> set cs"
  by (auto simp: value_ok_def fieldError_def split: if_splits)

lemma secret_of: "map_of ADAPTERS ty = Some fs \<Longrightarrow> (k, f) \<in> set fs \<Longrightarrow> secret_field ty k = f_secret f"
  using adapters_distinct [of ty fs] by (simp add: secret_field_def map_of_is_SomeI)

lemma shown_box:
  assumes ok: "chan_ok u ch" "typed_choices ch" and fs: "map_of ADAPTERS (ch_type ch) = Some fs" "(k, f) \<in> set fs"
  shows "JStr (read_value (drawn_box E (shown_row ch) (field_for_page (k, f)))) =
    (case map_of (cr_config (shown_row ch)) k of Some v \<Rightarrow> v | None \<Rightarrow> JStr [])"
proof -
  have sec: "secret_field (ch_type ch) k = f_secret f" by (rule secret_of [OF fs])
  have entry: "entry_ok u f (map_of (ch_config ch) k)" using ok(1) fs by (auto simp: chan_ok_def config_ok_def list_all_iff)
  have typed: "f_choices f = None \<or> (case map_of (ch_config ch) k of None \<Rightarrow> True | Some v \<Rightarrow> \<not> is_envref v)"
    using ok(2) fs by (force simp: typed_choices_def fields_of_def list_all_iff)
  have shown: "map_of (ch_config (mask_channel ch)) k = map_option (\<lambda>v. if f_secret f \<and> \<not> is_envref v then SECRET else v) (map_of (ch_config ch) k)"
    using map_of_mask [of ch k] sec by simp
  have row: "map_of (cr_config (shown_row ch)) k = map_option JStr (map_of (ch_config (mask_channel ch)) k)"
    by (simp add: shown_config map_of_map)
  show ?thesis
  proof (cases "map_of (ch_config ch) k")
    case None
    then have "f_choices f = None" using entry choice_fields [OF fs] by (cases "f_choices f") (auto simp: entry_ok_def)
    then show ?thesis using None shown row
      by (simp add: drawn_box_def page_field saved_secret_def typed_text_def field_key_def shown_value js_or_def read_value_def text_value_def)
  next
    case (Some v)
    then have v: "value_ok u f v" "v \<noteq> []" using entry by (simp_all add: entry_ok_def value_ok_def)
    show ?thesis
    proof (cases "f_choices f")
      case None
      then show ?thesis using Some v shown row
        by (auto simp: drawn_box_def page_field saved_secret_def typed_text_def field_key_def shown_value js_or_def read_value_def value_ok_def text_value_id SECRET_def)
    next
      case (Some cs)
      then have "\<not> is_envref v" "\<not> f_secret f" using typed \<open>map_of (ch_config ch) k = Some v\<close> choice_fields [OF fs] by auto
      moreover have "v \<in> set cs" by (rule value_ok_choice [OF v(1) calculation(1) Some])
      ultimately show ?thesis using Some \<open>map_of (ch_config ch) k = Some v\<close> v(2) shown row
        by (simp add: drawn_box_def page_field choice_now_def choice_list_page saved_secret_def field_key_def shown_value js_or_def read_value_def select_value_id)
    qed
  qed
qed

lemma masked_keys:
  assumes "chan_ok u ch"
  shows "distinct (map fst (ch_config (mask_channel ch)))" "list_all (\<lambda>kv. snd kv \<noteq> []) (ch_config (mask_channel ch))"
proof -
  obtain fs where fs: "map_of ADAPTERS (ch_type ch) = Some fs" "config_ok u fs (ch_config ch)"
    using assms by (auto simp: chan_ok_def split: option.splits)
  then have c: "ch_config ch = in_order fs (ch_config ch)" by (simp add: config_ok_def)
  have "map fst (in_order fs cs) = filter (\<lambda>k. map_of cs k \<noteq> None) (map fst fs)" for cs
    by (induction fs) (auto simp: in_order_def split: option.split)
  then have d: "distinct (map fst (ch_config ch))" using c distinct_filter [OF adapters_distinct [OF fs(1)]] by metis
  then show "distinct (map fst (ch_config (mask_channel ch)))" by (simp add: mask_channel_def comp_def case_prod_beta)
  have "v \<noteq> []" if "(k, v) \<in> set (ch_config ch)" for k v
  proof -
    have "(k, v) \<in> set (in_order fs (ch_config ch))" using that c by simp
    then obtain f where f: "(k, f) \<in> set fs" "map_of (ch_config ch) k = Some v" by (auto simp: in_order_def split: option.splits)
    then show ?thesis using fs(2) by (fastforce simp: config_ok_def list_all_iff entry_ok_def value_ok_def)
  qed
  then have "(k, []) \<notin> set (ch_config ch)" for k by blast
  then show "list_all (\<lambda>kv. snd kv \<noteq> []) (ch_config (mask_channel ch))"
    by (auto simp: mask_channel_def list_all_iff SECRET_def split: if_splits)
qed

lemma types_found:
  assumes "map_of ADAPTERS ty = Some fs" "st_types s = types_for_page" "cr_type r = JStr ty"
  shows "types_of E s r = map field_for_page fs"
proof -
  have "fld ty (JObj (map (\<lambda>tf. (fst tf, g tf)) as)) = (case map_of as ty of None \<Rightarrow> JUndef | Some fs \<Rightarrow> g (ty, fs))" for g :: "string \<times> (string \<times> cfield) list \<Rightarrow> jsval" and as
    by (induction as) auto
  from this [of "\<lambda>tf. JArr (map field_for_page (snd tf))" ADAPTERS] show ?thesis
    using assms by (simp add: types_of_def types_for_page_def arr_or_empty_def)
qed

lemma config_read:
  assumes "chan_ok u ch" "typed_choices ch" "map_of ADAPTERS (ch_type ch) = Some fs"
  shows "filter (\<lambda>kv. snd kv \<noteq> JStr [] \<and> \<not> absent (snd kv)) (foldl read_box (cr_config (shown_row ch)) (map (drawn_box E (shown_row ch)) (map field_for_page fs))) =
    cr_config (shown_row ch)"
proof -
  have "distinct (map fst (cr_config (shown_row ch)))" using masked_keys(1) [OF assms(1)] by (simp add: shown_config comp_def case_prod_beta)
  moreover have "bx_key (drawn_box E (shown_row ch) (field_for_page kf)) = fst kf" for kf
    by (simp add: drawn_box_def field_key_def page_field)
  then have "list_all (\<lambda>b. JStr (read_value b) = (case map_of (cr_config (shown_row ch)) (bx_key b) of Some v \<Rightarrow> v | None \<Rightarrow> JStr []))
      (map (drawn_box E (shown_row ch)) (map field_for_page fs))"
    using shown_box [OF assms(1-3)] by (auto simp: list_all_iff)
  ultimately obtain xs where xs: "foldl read_box (cr_config (shown_row ch)) (map (drawn_box E (shown_row ch)) (map field_for_page fs)) = cr_config (shown_row ch) @ xs"
      "list_all (\<lambda>kv. snd kv = JStr []) xs"
    using boxes_read by blast
  have "filter (\<lambda>kv. snd kv \<noteq> JStr [] \<and> \<not> absent (snd kv)) (cr_config (shown_row ch)) = cr_config (shown_row ch)"
    using masked_keys(2) [OF assms(1)] by (intro filter_True) (auto simp: shown_config list_all_iff absent_def)
  moreover have "filter (\<lambda>kv. snd kv \<noteq> JStr [] \<and> \<not> absent (snd kv)) xs = []" using xs(2) by (auto simp: list_all_iff filter_empty_conv)
  ultimately show ?thesis using xs(1) by simp
qed

lemma row_back:
  assumes "chan_ok u ch" "typed_choices ch" "st_types s = types_for_page"
  shows "chRow_js (read_channel (drawn_row E s (shown_row ch)) (shown_row ch)) = channel_js (mask_channel ch)"
proof -
  obtain fs where fs: "map_of ADAPTERS (ch_type ch) = Some fs" using assms(1) by (auto simp: chan_ok_def split: option.splits)
  have ty: "cr_type (shown_row ch) = JStr (ch_type ch)" by (simp add: shown_row_def chRow_def channel_js_flds mask_channel_def)
  have "sev_name (ch_min ch) \<in> set (map fst (sev_options E))" by (cases "ch_min ch") (simp_all add: sev_name_def sev_options_def)
  then have mn: "select_value (map fst (sev_options E)) (JStr (sev_name (ch_min ch))) = sev_name (ch_min ch)" by (rule select_value_id)
  have name: "text_value (ch_name ch) = ch_name ch" using assms(1) by (intro text_value_id) (simp add: chan_ok_def)
  note config = config_read [OF assms(1,2) fs, of E] types_found [OF fs assms(3) ty, of E]
  show ?thesis using config mn name
    by (simp add: chRow_js_def read_channel_def drawn_row_def channel_js_def [of "mask_channel ch"] shown_config)
      (simp add: shown_row_def chRow_def channel_js_flds mask_channel_def)
qed

lemma read_all: "read_channels (map (\<lambda>x. g (h x)) xs) (map h xs) = map (\<lambda>x. read_channel (g (h x)) (h x)) xs"
  by (induction xs) simp_all

lemma view_flds:
  "fld ''channels'' (view_js c fare ign) = JArr (map channel_js (map mask_channel (nc_channels c)))"
  "fld ''quiet'' (view_js c fare ign) = (case nc_quiet c of None \<Rightarrow> JNull | Some (a, b) \<Rightarrow> JObj [(''from'', JStr a), (''to'', JStr b)])"
  "fld ''digestAt'' (view_js c fare ign) = JStr (nc_digestAt c)" "fld ''types'' (view_js c fare ign) = types_for_page"
  by (simp_all add: view_js_def conf_js_def view_conf_def entries_of_def)

lemma loaded_view: "\<exists>s1. channels_loaded (Some (view_js c fare ign)) s = Some s1 \<and> st_types s1 = types_for_page \<and>
    st_rows s1 = map shown_row (nc_channels c) \<and>
    st_quiet s1 = (case nc_quiet c of None \<Rightarrow> JNull | Some (a, b) \<Rightarrow> JObj [(''from'', JStr a), (''to'', JStr b)]) \<and>
    st_digestAt s1 = js_or (JStr (nc_digestAt c)) (JStr ''07:00'')"
proof -
  have "or_empty types_for_page = types_for_page" by (simp add: or_empty_def types_for_page_def)
  moreover have "js_or (case nc_quiet c of None \<Rightarrow> JNull | Some (a, b) \<Rightarrow> JObj [(''from'', JStr a), (''to'', JStr b)]) JNull =
      (case nc_quiet c of None \<Rightarrow> JNull | Some (a, b) \<Rightarrow> JObj [(''from'', JStr a), (''to'', JStr b)])"
    by (simp add: js_or_def split: option.split)
  ultimately show ?thesis
    by (simp add: channels_loaded_def view_flds chRows_def arr_or_empty_def comp_def shown_row_def)
qed

lemma untouched_body:
  assumes "conf_ok u c" "list_all typed_choices (nc_channels c)" "st_types s = types_for_page" "st_rows s = map shown_row (nc_channels c)"
    and "st_quiet s = (case nc_quiet c of None \<Rightarrow> JNull | Some (a, b) \<Rightarrow> JObj [(''from'', JStr a), (''to'', JStr b)])"
    and "st_digestAt s = js_or (JStr (nc_digestAt c)) (JStr ''07:00'')"
  shows "fst (saveChannels (Some (drawn_form E s)) s) = conf_js (view_conf c)"
proof -
  have t: "is_time (nc_digestAt c)" using assms(1) by (simp add: conf_ok_def)
  have q: "nc_quiet c = Some (a, b) \<Longrightarrow> is_time a \<and> is_time b" for a b using assms(1) by (simp add: conf_ok_def)
  have rows: "map (\<lambda>ch. chRow_js (read_channel (drawn_row E s (shown_row ch)) (shown_row ch))) (nc_channels c) = map channel_js (map mask_channel (nc_channels c))"
  proof -
    have "chRow_js (read_channel (drawn_row E s (shown_row ch)) (shown_row ch)) = channel_js (mask_channel ch)" if "ch \<in> set (nc_channels c)" for ch
      using that assms(1,2) by (intro row_back [OF _ _ assms(3)]) (auto simp: conf_ok_def list_all_iff)
    then show ?thesis by simp
  qed
  have d: "js_or (JStr (nc_digestAt c)) (JStr ''07:00'') = JStr (nc_digestAt c)" using time_value_id [OF t] by (simp add: js_or_def)
  show ?thesis
    using rows assms(4-6) d time_value_id [OF t] q time_value_id
    by (cases "nc_quiet c")
      (auto simp: saveChannels_def Let_def readChannels_def drawn_form_def chFile_def conf_js_def view_conf_def read_all comp_def quiet_from_def quiet_to_def)
qed


definition demo_mail :: "string \<Rightarrow> jsval" where
  "demo_mail security = JObj [(''channels'', JArr [JObj [(''id'', JStr ''ch_m1''), (''type'', JStr ''email''), (''name'', JStr ''mail''), (''min'', JStr ''critical''),
     (''on'', JBool True), (''config'', JObj [(''host'', JStr ''localhost''), (''port'', JStr ''25''), (''security'', JStr security),
       (''from'', JStr ''a@b.example''), (''to'', JStr ''c@d.example'')])]]), (''quiet'', JObj [(''from'', JStr ''23:00''), (''to'', JStr ''07:00'')])]"

definition demo_mail_conf :: "string \<Rightarrow> nconf" where
  "demo_mail_conf security = \<lparr>nc_channels = [\<lparr>ch_id = ''ch_m1'', ch_type = ''email'', ch_name = ''mail'', ch_min = Critical, ch_on = True, ch_digest = True,
     ch_config = [(''host'', ''localhost''), (''port'', ''25''), (''security'', security), (''from'', ''a@b.example''), (''to'', ''c@d.example'')]\<rparr>],
     nc_quiet = Some (''23:00'', ''07:00''), nc_digestAt = ''07:00''\<rparr>"

definition bare_env :: page_env where
  "bare_env = \<lparr>e_num = (\<lambda>_. NaN), e_frac = (\<lambda>_. []), e_strings = [], e_cfg = []\<rparr>"

definition unopened :: chstate where
  "unopened = \<lparr>st_types = JObj [], st_status = JObj [], st_rows = [], st_quiet = JNull, st_digestAt = JStr ''07:00'', st_dirty = False, st_ignored = []\<rparr>"

lemma mail_checked: "checkChannels demo_url (demo_mail ''none'') no_channels = Inr (demo_mail_conf ''none'')"
  by code_simp

lemma mail_typed: "list_all typed_choices (nc_channels (demo_mail_conf ''none''))"
  by code_simp


text \<open>
  With the security of a mail server taken from the environment the same form changes it, because its box has no such option: it shows,
  and sends, the first choice.
\<close>

lemma environment_choice_checked:
  "checkChannels demo_url (demo_mail ''$SERVITALS_NOTIFY_TLS'') no_channels = Inr (demo_mail_conf ''$SERVITALS_NOTIFY_TLS'')"
  by code_simp

lemma environment_choice_lost:
  "(case channels_loaded (Some (view_js (demo_mail_conf ''$SERVITALS_NOTIFY_TLS'') (JObj []) [])) unopened of None \<Rightarrow> False
    | Some s1 \<Rightarrow> fst (saveChannels (Some (drawn_form bare_env s1)) s1) = conf_js (demo_mail_conf ''starttls''))"
  by code_simp

section \<open>No markup of a stranger's\<close>

lemma safe_field_box [drawn]: "safe (field_box E r f)"
  by (simp add: field_box_def Let_def drawn)

lemma safe_field_label [drawn]: "safe (field_label E r f)"
  by (simp add: field_label_def drawn)

lemma safe_check_box [drawn]: "safe (check_box ''data-f'' ''digest'' b)" "safe (check_box ''data-q'' ''on'' b)"
  by (simp_all add: check_box_def drawn)

lemma safe_channel_line [drawn]: "safe (channel_line E r)"
  by (simp add: channel_line_def drawn)

lemma safe_channel_html [drawn]: "safe (channel_html E local_time s ir)"
  by (simp add: channel_html_def Let_def drawn)

lemma safe_time_box [drawn]: "in_quotes k \<Longrightarrow> safe (time_box E k key v off)"
  by (simp add: time_box_def drawn)

lemma safe_quiet_html [drawn]: "safe (quiet_html E s)"
  by (simp add: quiet_html_def drawn)

text \<open>
  C39. The forms of the page hold no markup but the page's own: whatever the hub sends as the name of a rule, of a server, of a tag
  or of a channel, as the value of a field, an error or a status, the tags a browser finds in the rule editor and in
  the form of the channels are tags of the page's templates, and the markup ends outside of every tag.
\<close>

theorem forms_never_markup: "safe (rulesHtml E info nodes rs) \<and> safe (chHtml E local_time cs)"
  by (simp add: chHtml_def drawn)

end
