(* ===== verification/Spec2Isabelle.thy ===== *)
theory Spec2Isabelle
  imports Alert_Theorems Alert_Rules Snapshot Fleet Nodes Agent_Api Link Client_Ip History Channels Notify
    Login Confd Web_Push Hub Server Server_Theorems Settings_Theorems Hub_Runs
    Page_Rules Smtp Proxy Page_Fleet Page_View Page_Config Page_History
    Hub_Files Service_Worker Push_Send Startup Page_Look Page_Text Page_Strings Page_Panels Page_Cards
    Page_Forms Page_Channels
begin

text \<open>
  A verification library of the monitoring hub servitals.

  The program. Agents on servers push a snapshot of their host to the hub (\<^verbatim>\<open>src/hub/server.js\<close>), signed with the
  secret of their node. The hub checks the signature, cleans the snapshot, keeps the latest one per node,
  adds its numbers to history rings, judges the alert rules and tells the channels a person set. People log
  in with a password, see the fleet, change settings, rules and channels, link new servers with a code, and
  control the containers of the hub's own host.

  What models what, in the order of the imports.

  \<^item> \<open>Js_Prelude\<close>: JavaScript values (\<open>jsval\<close>), numbers (\<open>jnum\<close>: exact rationals, the two infinities, NaN), strings,
    errors as \<open>string + 'a\<close>, ordered objects as association lists, and the locale \<open>machine\<close>: an invariant that
    every step of a state machine keeps holds in every run.
  \<^item> \<open>Alerts\<close>, \<open>Alert_Theorems\<close> (\<^verbatim>\<open>hub/lib/alerts.js\<close>): the engine as a record, one function per operation; what is told of one alert
    is a protocol (firing, repeats, end) over every run with restarts.
  \<^item> \<open>Alert_Rules\<close> (\<^verbatim>\<open>hub/lib/alertrules.js\<close>): the file of rules a person saves, its checks and what is built of it.
  \<^item> \<open>Snapshot\<close>, \<open>Fleet\<close> (\<^verbatim>\<open>hub/lib/snapshot.js\<close>, \<^verbatim>\<open>fleet.js\<close>): the cleaning of what an agent sends, the view the page reads, the
    summary of a card.
  \<^item> \<open>Nodes\<close> (\<^verbatim>\<open>hub/lib/nodes.js\<close>): the registry and its file; revoking, rotating secrets.
  \<^item> \<open>Agent_Api\<close> (\<^verbatim>\<open>hub/lib/agentapi.js\<close>, \<^verbatim>\<open>agentsig.js\<close>): a request in two steps (it arrives, its body is there), because the code awaits
    the body in between; replay, failures, long polls.
  \<^item> \<open>Link\<close> (\<^verbatim>\<open>hub/lib/link.js\<close>): the device code flow, over a store of request objects that two maps share.
  \<^item> \<open>Client_Ip\<close> (\<^verbatim>\<open>hub/lib/clientip.js\<close>, \<^verbatim>\<open>origin.js\<close>): addresses on 32-bit words, trusted proxies, the Origin header.
  \<^item> \<open>History\<close> (\<^verbatim>\<open>hub/lib/history.js\<close>): ring files in three tiers, refined to a window over a map; \<open>history_series\<close> of \<open>Server\<close> is its \<^verbatim>\<open>series()\<close>.
  \<^item> \<open>Channels\<close>, \<open>Notify\<close> (\<^verbatim>\<open>hub/lib/notify.js\<close>): the checked channels with their masked secrets; messages, quiet hours, the
    digest, one queue per channel.
  \<^item> \<open>Login\<close> (\<^verbatim>\<open>hub/lib/password.js\<close>, \<^verbatim>\<open>admin.js\<close>, of \<^verbatim>\<open>server.js\<close> the bans, cookies, login and account). \<open>Confd\<close> (\<^verbatim>\<open>hub/lib/confd.js\<close>). \<open>Web_Push\<close>
    (of \<^verbatim>\<open>hub/lib/webpush.js\<close> the devices).
  \<^item> \<open>Hub\<close>: the record \<open>hub\<close> of all the parts' states and the wiring of \<^verbatim>\<open>server.js\<close> (\<open>onSnapshot\<close>, \<open>minute_tick\<close>, \<dots>); the record
    \<open>world\<close> is everything outside the process. \<open>Server\<close>: one function per route and the dispatch \<open>handle_request\<close>.
  \<^item> \<open>Server_Theorems\<close>, \<open>Settings_Theorems\<close>, \<open>Hub_Runs\<close>: what spans components. Only a signed-in person's own page changes the hub; Docker is
    asked for little; managed values survive a save; a revoked node stays gone in every run.
  \<^item> \<open>Page_Rules\<close> (\<^verbatim>\<open>www/js/alerts.js\<close>): the page's rule editor, and that opening it and saving changes no rule of the engine.
  \<^item> \<open>Smtp\<close> (\<^verbatim>\<open>hub/lib/smtp.js\<close>): sending a mail as a machine over the socket's events: no mail text or password without TLS, what
    "sent" means, and that a mail's text ends at its own end only.
  \<^item> \<open>Proxy\<close> (\<^verbatim>\<open>hub/lib/proxy.js\<close>): outbound calls as a machine over the events of their sockets; a proxy sees no content
    of an https call, and a call settles once and in bounds.
  \<^item> \<open>Page_Fleet\<close>, \<open>Page_View\<close>, \<open>Page_Config\<close> (\<^verbatim>\<open>www/js/app.js\<close>, of \<^verbatim>\<open>settings.js\<close> the import and the order of the panels): the fleet's
    order and groups; the view, the kiosk and the refresh loop, as steps between answers; the settings a browser keeps.
  \<^item> \<open>Hub_Files\<close> (\<^verbatim>\<open>hub/lib/static.js\<close>, \<^verbatim>\<open>log.js\<close>, \<^verbatim>\<open>backupcrypt.js\<close>): the answer to a request for a file and when it is 304, log lines and
    the audit file, the encrypted backup. \<open>Service_Worker\<close> (\<^verbatim>\<open>www/sw.js\<close>): the offline copies and the push messages of the page.
  \<^item> \<open>Push_Send\<close> (\<^verbatim>\<open>hub/lib/webpush.js\<close>): the VAPID keys, the encryption of a message and its send. \<open>Startup\<close> (\<^verbatim>\<open>hub/lib/bootstrap.js\<close>,
    \<^verbatim>\<open>fsutil.js\<close>, \<^verbatim>\<open>version.js\<close>, the slots of \<^verbatim>\<open>password.js\<close>): the first start, a file written whole or not at all.
  \<^item> \<open>Page_Look\<close> (\<^verbatim>\<open>www/boot.js\<close>, of \<^verbatim>\<open>app.js\<close> the appearance): the look before the first paint and after the settings are there.
    \<open>Page_Text\<close>, \<open>Page_Panels\<close>, \<open>Page_Cards\<close> (\<^verbatim>\<open>www/js/app.js\<close>, of \<^verbatim>\<open>alerts.js\<close> the list): numbers as text, the markup of the panels, cards,
    tabs and alerts as strings, and a reader of markup (\<open>scan\<close>) by which no name an agent sends becomes a tag. \<open>Page_Strings\<close> is the dictionary (\<^verbatim>\<open>hub/lib/i18n.js\<close>).
  \<^item> \<open>Page_Forms\<close>, \<open>Page_Channels\<close> (\<^verbatim>\<open>www/js/alerts.js\<close>): the markup of the rule editor and of the channels' form, what their buttons and the
    hub's answers do, and that the channels' form, opened and saved, keeps every channel and its masked secrets.
  \<^item> \<open>Page_History\<close> (\<^verbatim>\<open>www/js/history.js\<close>): the gaps of a chart, and its loads, any number of them under way at once.

  How the code's constructs are modelled. State is explicit: an operation takes the state and returns it
  changed; closures' variables are fields of a record. A step that awaits is split where it awaits, so
  interleavings are sequences of steps. Numbers are exact, rounding to 32-bit floats in the history is an
  argument; times are integers of milliseconds; bit operations are on \<open>32 word\<close>. Strings are lists of
  bytes. Errors and early returns are values. Loops are structural or have a measure; the resend loop and
  the code draw of linking get the list of draws or answers they consume and say what happens when it ends.
  Crypto, \<^verbatim>\<open>JSON.parse\<close>, \<^verbatim>\<open>URL\<close>, the clock, random draws, the file system's answers and Docker are arguments, with the laws
  a theorem needs (a hash without collisions between two given values, say) as its hypotheses.

  Interfaces. \<open>machine\<close> is interpreted on every component that has runs; the locales of \<open>History\<close>, \<open>Notify\<close> and \<open>Link\<close> state
  what a client relies on and are interpreted on the model's own definitions.

  Not modelled, and why. HTML and headers of the hub's own pages (\<^verbatim>\<open>server.js\<close>): an answer
  carries the values. What a crypto library computes is an argument.
  The outcome of a send is an argument of the notifier's queue. Start and shutdown of \<^verbatim>\<open>server.js\<close>, a failing write
  of a state file, and a member named \<^verbatim>\<open>__proto__\<close> in a configuration file are left out. The rest of the page
  (clocks, weather, dialogs, forms, the drawing of charts) works on the browser's document.
\<close>

end
